(* ===== verification/Prelude.thy ===== *)
theory Prelude
  imports Main "HOL-Library.Word" "HOL-Library.Monad_Syntax"
begin

text \<open>
  Shared vocabulary of the development: the machine integers of the C sources, C buffers
  with bounds-checked reads, NUL-terminated strings, the character classes of the C locale and
  the decimal and hexadecimal conversions of \<open>printf\<close>, together with the generic
  lemmas the component theories share.  The collection \<open>c_mem\<close> gathers the rules
  that evaluate a buffer read.
\<close>

unbundle bit_operations_syntax

section \<open>Machine integers\<close>

type_synonym u8 = "8 word"
type_synonym u16 = "16 word"
type_synonym u32 = "32 word"
type_synonym u64 = "64 word"

lemma unat_u8_less [simp]: "unat (b :: u8) < 256"
  using unsigned_less [of b, where ?'a = nat] by simp

lemma unat_u32_less [simp]: "unat (b :: u32) < 4294967296"
  using unsigned_less [of b, where ?'a = nat] by simp

lemma word_eq_by_bits:
  fixes a b :: "'w::len word"
  assumes "\<And>n. n < LENGTH('w) \<Longrightarrow> bit a n = bit b n"
  shows "a = b"
  by (rule bit_word_eqI) (use assms in auto)

lemma unat_of_nat_small: "n < 2 ^ LENGTH('w) \<Longrightarrow> unat (of_nat n :: 'w::len word) = n"
  by (simp add: unat_of_nat)

section \<open>Characters\<close>

abbreviation NUL :: char where "NUL \<equiv> CHR 0x00"

abbreviation CR :: char where "CR \<equiv> CHR 0x0D"

abbreviation LF :: char where "LF \<equiv> CHR 0x0A"

definition char_code :: "char \<Rightarrow> nat" where
  "char_code c = of_char c"

lemma char_code_less [simp]: "char_code c < 256"
  by (simp add: char_code_def)

lemma char_code_eq_iff [simp]: "char_code c = char_code d \<longleftrightarrow> c = d"
  by (simp add: char_code_def)

lemma char_code_char_of [simp]: "char_code (char_of (n :: nat)) = n mod 256"
  by (simp add: char_code_def)

text \<open>A \<open>char\<close> as the unsigned byte it is stored as, and back.\<close>

definition byte_of_char :: "char \<Rightarrow> u8" where
  "byte_of_char c = of_nat (char_code c)"

definition char_of_byte :: "u8 \<Rightarrow> char" where
  "char_of_byte b = char_of (unat b)"

lemma unat_byte_of_char [simp]: "unat (byte_of_char c) = char_code c"
  by (simp add: byte_of_char_def unat_of_nat)

lemma char_of_byte_of_char [simp]: "char_of_byte (byte_of_char c) = c"
  by (simp add: char_of_byte_def char_code_def)

lemma byte_of_char_of_byte [simp]: "byte_of_char (char_of_byte b) = b"
  by (simp add: byte_of_char_def char_of_byte_def)

text \<open>The classes of \<open>ctype.h\<close> in the C locale.\<close>

definition isdigit :: "char \<Rightarrow> bool" where
  "isdigit c \<longleftrightarrow> 48 \<le> char_code c \<and> char_code c \<le> 57"

definition isprint :: "char \<Rightarrow> bool" where
  "isprint c \<longleftrightarrow> 32 \<le> char_code c \<and> char_code c \<le> 126"

definition isspace :: "char \<Rightarrow> bool" where
  "isspace c \<longleftrightarrow> char_code c = 32 \<or> (9 \<le> char_code c \<and> char_code c \<le> 13)"

text \<open>The same on the bits of a character, for evaluation.\<close>

lemma isspace_code [code]:
  "isspace (Char b0 b1 b2 b3 b4 b5 b6 b7) =
     (\<not> b7 \<and> \<not> b6 \<and> \<not> b4 \<and>
      (if b5 then \<not> b3 \<and> \<not> b2 \<and> \<not> b1 \<and> \<not> b0 else b3 \<and> (if b2 then \<not> b1 else b1 \<or> b0)))"
  by (cases b0; cases b1; cases b2; cases b3; cases b4; cases b5; cases b6; cases b7; simp add: isspace_def char_code_def)

lemma isdigit_code [code]:
  "isdigit (Char b0 b1 b2 b3 b4 b5 b6 b7) = (\<not> b7 \<and> \<not> b6 \<and> b5 \<and> b4 \<and> (\<not> b3 \<or> \<not> b2 \<and> \<not> b1))"
  by (cases b0; cases b1; cases b2; cases b3; cases b4; cases b5; cases b6; cases b7; simp add: isdigit_def char_code_def)

definition tolower :: "char \<Rightarrow> char" where
  "tolower c = (if 65 \<le> char_code c \<and> char_code c \<le> 90 then char_of (char_code c + 32) else c)"

lemma tolower_code [code]:
  "tolower (Char b0 b1 b2 b3 b4 b5 b6 b7) =
     (if \<not> b7 \<and> b6 \<and> \<not> b5 \<and> (b0 \<or> b1 \<or> b2 \<or> b3 \<or> b4) \<and> \<not> (b4 \<and> b3 \<and> (b2 \<or> b1 \<and> b0))
      then Char b0 b1 b2 b3 b4 True True False else Char b0 b1 b2 b3 b4 b5 b6 b7)"
  by (rule iffD1 [OF char_code_eq_iff])
    (cases b0; cases b1; cases b2; cases b3; cases b4; cases b5; cases b6; cases b7; simp add: tolower_def char_code_def)

section \<open>Buffers\<close>

text \<open>
  A buffer is the list of the characters the object holds.  A read outside the object is
  undefined behaviour in C; here it is \<open>None\<close>.
\<close>

named_theorems c_mem

definition rd :: "'a list \<Rightarrow> nat \<Rightarrow> 'a option" where
  "rd buf i = (if i < length buf then Some (buf ! i) else None)"

lemma rd_Cons_0 [simp, c_mem]: "rd (x # xs) 0 = Some x"
  by (simp add: rd_def)

lemma rd_Cons_Suc [simp, c_mem]: "rd (x # xs) (Suc i) = rd xs i"
  by (simp add: rd_def)

lemma rd_Cons_numeral [simp, c_mem]: "rd (x # xs) (numeral k) = rd xs (pred_numeral k)"
  by (simp add: rd_def numeral_eq_Suc)

lemma rd_Nil [simp, c_mem]: "rd [] i = None"
  by (simp add: rd_def)

lemma rd_append_left [c_mem]: "i < length xs \<Longrightarrow> rd (xs @ ys) i = Some (xs ! i)"
  by (simp add: rd_def nth_append)

lemma rd_append_right [c_mem]: "rd (xs @ ys) (length xs + i) = rd ys i"
  by (simp add: rd_def nth_append)

lemma rd_append_at [simp, c_mem]: "rd (xs @ y # ys) (length xs) = Some y"
  by (simp add: rd_def nth_append)

lemma rd_drop: "rd (drop n xs) i = rd xs (n + i)"
  by (auto simp: rd_def)

lemma rd_eq_SomeD: "rd xs i = Some x \<Longrightarrow> i < length xs \<and> xs ! i = x"
  by (simp add: rd_def split: if_splits)

text \<open>\<open>strlen\<close>, and a C string in a buffer that may hold more bytes behind the terminator.\<close>

definition c_strlen :: "string \<Rightarrow> nat" where
  "c_strlen buf = length (takeWhile (\<lambda>c. c \<noteq> NUL) buf)"

definition cstr :: "string \<Rightarrow> string \<Rightarrow> string" where
  "cstr s junk = s @ NUL # junk"

definition no_nul :: "string \<Rightarrow> bool" where
  "no_nul s \<longleftrightarrow> NUL \<notin> set s"

lemma no_nul_Nil [simp]: "no_nul []"
  by (simp add: no_nul_def)

lemma no_nul_Cons [simp]: "no_nul (c # s) \<longleftrightarrow> c \<noteq> NUL \<and> no_nul s"
  by (auto simp: no_nul_def)

lemma no_nul_append [simp]: "no_nul (s @ t) \<longleftrightarrow> no_nul s \<and> no_nul t"
  by (auto simp: no_nul_def)

lemma c_strlen_cstr [simp]:
  assumes "no_nul s"
  shows "c_strlen (cstr s junk) = length s"
proof -
  have "takeWhile (\<lambda>c. c \<noteq> NUL) (s @ NUL # junk) = s"
    using assms by (subst takeWhile_append2) (auto simp: no_nul_def)
  then show ?thesis by (simp add: c_strlen_def cstr_def)
qed

lemma rd_cstr: "i \<le> length s \<Longrightarrow> rd (cstr s junk) i = Some (if i < length s then s ! i else NUL)"
  by (auto simp: rd_def cstr_def nth_append)

section \<open>Decimal output\<close>

text \<open>The digits of a number as \<open>printf\<close> writes them with \<open>%u\<close> and \<open>%d\<close>.\<close>

definition digit_char :: "nat \<Rightarrow> char" where
  "digit_char d = char_of (48 + d)"

fun udec :: "nat \<Rightarrow> string" where
  "udec n = (if n < 10 then [digit_char n] else udec (n div 10) @ [digit_char (n mod 10)])"

declare udec.simps [simp del]

definition sdec :: "int \<Rightarrow> string" where
  "sdec k = (if k < 0 then CHR ''-'' # udec (nat (- k)) else udec (nat k))"

text \<open>The lower case digits of \<open>%x\<close>.\<close>

fun hex_digits :: "nat \<Rightarrow> string" where
  "hex_digits n =
     (if n < 16 then [''0123456789abcdef'' ! n]
      else hex_digits (n div 16) @ [''0123456789abcdef'' ! (n mod 16)])"

declare hex_digits.simps [simp del]

fun dec_value :: "string \<Rightarrow> nat" where
  "dec_value [] = 0"
| "dec_value (c # cs) = (char_code c - 48) * 10 ^ length cs + dec_value cs"

lemma char_code_digit_char: "d < 10 \<Longrightarrow> char_code (digit_char d) = 48 + d"
  by (simp add: digit_char_def)

lemma isdigit_digit_char: "d < 10 \<Longrightarrow> isdigit (digit_char d)"
  by (simp add: isdigit_def char_code_digit_char)

lemma dec_value_append: "dec_value (xs @ ys) = dec_value xs * 10 ^ length ys + dec_value ys"
  by (induction xs) (simp_all add: algebra_simps power_add)

lemma dec_value_udec [simp]: "dec_value (udec n) = n"
proof (induction n rule: udec.induct)
  case (1 n)
  then show ?case
    by (subst udec.simps) (auto simp: dec_value_append char_code_digit_char)
qed

lemma udec_digits: "c \<in> set (udec n) \<Longrightarrow> isdigit c"
proof (induction n rule: udec.induct)
  case (1 n)
  then show ?case
    by (subst (asm) (2) udec.simps) (auto simp: isdigit_digit_char split: if_splits)
qed

lemma udec_not_Nil [simp]: "udec n \<noteq> []"
  by (subst udec.simps) simp

lemma hd_udec: "0 < n \<Longrightarrow> 49 \<le> char_code (hd (udec n)) \<and> char_code (hd (udec n)) \<le> 57"
proof (induction n rule: udec.induct)
  case (1 n)
  then show ?case
    by (subst (1 2) udec.simps) (auto simp: char_code_digit_char)
qed

lemma udec_length_bound: "n < 10 ^ k \<Longrightarrow> 0 < k \<Longrightarrow> length (udec n) \<le> k"
proof (induction n arbitrary: k rule: udec.induct)
  case (1 n)
  show ?case
  proof (cases "n < 10")
    case True
    with "1.prems" show ?thesis by (subst udec.simps) simp
  next
    case False
    with "1.prems" obtain j where j: "k = Suc j" "0 < j"
      by (cases k; cases "k - 1") auto
    with False "1.prems" have "n div 10 < 10 ^ j"
      by (simp add: less_mult_imp_div_less mult.commute)
    with False j "1.IH" have "length (udec (n div 10)) \<le> j" by blast
    with False j show ?thesis by (subst udec.simps) simp
  qed
qed

lemma udec_no_nul [simp]: "no_nul (udec n)"
  unfolding no_nul_def using udec_digits [of NUL n] by (auto simp: isdigit_def char_code_def)

section \<open>Lists\<close>

lemma length_concat_map_le:
  assumes "length xs = n" "\<And>x. x \<in> set xs \<Longrightarrow> length (f x) \<le> k"
  shows "length (concat (map f xs)) \<le> k * n"
  using assms by (induction xs arbitrary: n) (auto simp: algebra_simps intro!: add_mono)

end
