(* ===== verification/Can_Frame.thy ===== *)
theory Can_Frame
  imports Prelude
begin

text \<open>
  The CAN frame and its ASCII notation, from \<^verbatim>\<open>libs/can-utils/lib.c\<close> and the frame
  layout of \<^verbatim>\<open>linux/can.h\<close>: the DLC tables, the hexadecimal helpers,
  \<open>parse_canframe\<close> with its partial effects on every early return, and the printers
  \<open>sprint_canframe\<close> and \<open>sprint_long_canframe\<close>.

  A printer's buffer is modelled by the characters written so far: \<open>offset\<close> is the length
  of that string, and the terminating NUL is the end of it.  A parser's argument is the whole
  buffer the string lies in, so that a read behind the object is visible as \<open>None\<close>.
\<close>

unbundle bit_operations_syntax

section \<open>The frame\<close>

text \<open>
  \<open>struct can_frame\<close> and \<open>struct canfd_frame\<close> share one layout; the classic frame's
  \<open>len8_dlc\<close> is the byte the FD frame calls \<open>__res1\<close>.
\<close>

record canfd_frame =
  can_id :: u32
  fr_len :: u8
  fr_flags :: u8
  res0 :: u8
  res1 :: u8
  fr_data :: "u8 list"

abbreviation len8_dlc :: "canfd_frame \<Rightarrow> u8" where
  "len8_dlc \<equiv> res1"

abbreviation (input) CAN_EFF_FLAG :: u32 where "CAN_EFF_FLAG \<equiv> 0x80000000"
abbreviation (input) CAN_RTR_FLAG :: u32 where "CAN_RTR_FLAG \<equiv> 0x40000000"
abbreviation (input) CAN_ERR_FLAG :: u32 where "CAN_ERR_FLAG \<equiv> 0x20000000"
abbreviation (input) CAN_SFF_MASK :: u32 where "CAN_SFF_MASK \<equiv> 0x7FF"
abbreviation (input) CAN_EFF_MASK :: u32 where "CAN_EFF_MASK \<equiv> 0x1FFFFFFF"
abbreviation (input) CAN_ERR_MASK :: u32 where "CAN_ERR_MASK \<equiv> 0x1FFFFFFF"

abbreviation (input) CAN_MAX_DLEN :: nat where "CAN_MAX_DLEN \<equiv> 8"
abbreviation (input) CANFD_MAX_DLEN :: nat where "CANFD_MAX_DLEN \<equiv> 64"
abbreviation (input) CAN_MAX_RAW_DLC :: nat where "CAN_MAX_RAW_DLC \<equiv> 15"
abbreviation (input) CAN_MTU :: int where "CAN_MTU \<equiv> 16"
abbreviation (input) CANFD_MTU :: int where "CANFD_MTU \<equiv> 72"

abbreviation (input) CL_CFSZ :: nat where "CL_CFSZ \<equiv> 280"
abbreviation (input) CL_LONGCFSZ :: nat where "CL_LONGCFSZ \<equiv> 675"

definition zero_frame :: canfd_frame where
  "zero_frame = \<lparr>can_id = 0, fr_len = 0, fr_flags = 0, res0 = 0, res1 = 0, fr_data = replicate 64 0\<rparr>"

section \<open>DLC conversion\<close>

definition dlc2len :: "u8 list" where
  "dlc2len = [0, 1, 2, 3, 4, 5, 6, 7, 8, 12, 16, 20, 24, 32, 48, 64]"

definition can_fd_dlc2len :: "u8 \<Rightarrow> u8" where
  "can_fd_dlc2len dlc = dlc2len ! unat (dlc AND 0x0F)"

definition len2dlc :: "u8 list" where
  "len2dlc = [0, 1, 2, 3, 4, 5, 6, 7, 8,
     9, 9, 9, 9,
     10, 10, 10, 10,
     11, 11, 11, 11,
     12, 12, 12, 12,
     13, 13, 13, 13, 13, 13, 13, 13,
     14, 14, 14, 14, 14, 14, 14, 14,
     14, 14, 14, 14, 14, 14, 14, 14,
     15, 15, 15, 15, 15, 15, 15, 15,
     15, 15, 15, 15, 15, 15, 15, 15]"

definition can_fd_len2dlc :: "u8 \<Rightarrow> u8" where
  "can_fd_len2dlc len = (if len > 64 then 0xF else len2dlc ! unat len)"

section \<open>Hexadecimal helpers\<close>

definition hex_asc_upper :: string where
  "hex_asc_upper = ''0123456789ABCDEF''"

definition hex_asc_upper_lo :: "'w::len word \<Rightarrow> char" where
  "hex_asc_upper_lo x = hex_asc_upper ! unat (x AND 0x0F)"

definition hex_asc_upper_hi :: "u8 \<Rightarrow> char" where
  "hex_asc_upper_hi x = hex_asc_upper ! unat (drop_bit 4 (x AND 0xF0))"

definition put_hex_byte :: "u8 \<Rightarrow> string" where
  "put_hex_byte byte = [hex_asc_upper_hi byte, hex_asc_upper_lo byte]"

text \<open>
  \<open>_put_id\<close> fills \<open>buf[0..end_offset]\<close> from the right; the argument is the number
  of digits, \<open>end_offset + 1\<close>.
\<close>

fun put_id :: "nat \<Rightarrow> u32 \<Rightarrow> string" where
  "put_id 0 cid = []"
| "put_id (Suc end_offset) cid = put_id end_offset (drop_bit 4 cid) @ [hex_asc_upper_lo cid]"

abbreviation put_sff_id :: "u32 \<Rightarrow> string" where "put_sff_id \<equiv> put_id 3"
abbreviation put_eff_id :: "u32 \<Rightarrow> string" where "put_eff_id \<equiv> put_id 8"

definition asc2nibble :: "char \<Rightarrow> u8" where
  "asc2nibble c =
     (if 48 \<le> char_code c \<and> char_code c \<le> 57 then of_nat (char_code c - 48)
      else if 65 \<le> char_code c \<and> char_code c \<le> 70 then of_nat (char_code c - 65 + 10)
      else if 97 \<le> char_code c \<and> char_code c \<le> 102 then of_nat (char_code c - 97 + 10)
      else 16)"

text \<open>
  \<open>hexstring2data\<close>: the argument string, the caller's array and \<open>maxdlen\<close>; the
  result is the return code and the array, which an error in the middle leaves partly written.
\<close>

function hexstring2data_loop :: "string \<Rightarrow> nat \<Rightarrow> u8 list \<Rightarrow> int \<times> u8 list" where
  "hexstring2data_loop arg i data =
     (if i < length arg div 2 then
        let tmp = asc2nibble (arg ! (2 * i)) in
        if tmp > 0x0F then (1, data)
        else
          let data = data[i := push_bit 4 tmp];
              tmp = asc2nibble (arg ! (2 * i + 1))
          in if tmp > 0x0F then (1, data)
             else hexstring2data_loop arg (Suc i) (data[i := data ! i OR tmp])
      else (0, data))"
  by pat_completeness auto
termination by (relation "measure (\<lambda>(arg, i, data). length arg div 2 - i)") auto

declare hexstring2data_loop.simps [simp del]

definition hexstring2data :: "string \<Rightarrow> u8 list \<Rightarrow> nat \<Rightarrow> int \<times> u8 list" where
  "hexstring2data arg data maxdlen =
     (let len = length arg in
      if len = 0 \<or> len mod 2 \<noteq> 0 \<or> len > maxdlen * 2 then (1, data)
      else hexstring2data_loop arg 0 (replicate maxdlen 0 @ drop maxdlen data))"

section \<open>Parsing the ASCII notation\<close>

text \<open>
  The two identifier loops: \<open>n\<close> digits, the first at \<open>cs[0]\<close>.  \<open>None\<close> is a read
  outside the buffer; the boolean is false on the early return.
\<close>

function parse_id_digits :: "string \<Rightarrow> nat \<Rightarrow> nat \<Rightarrow> u32 \<Rightarrow> (bool \<times> u32) option" where
  "parse_id_digits cs n i acc =
     (if i < n then
        (case rd cs i of
           None \<Rightarrow> None
         | Some c \<Rightarrow>
             if asc2nibble c > 0x0F then Some (False, acc)
             else parse_id_digits cs n (Suc i)
                    (acc OR push_bit ((n - 1 - i) * 4) (ucast (asc2nibble c))))
      else Some (True, acc))"
  by pat_completeness auto
termination by (relation "measure (\<lambda>(cs, n, i, acc). n - i)") auto

declare parse_id_digits.simps [simp del]

text \<open>The head of the frame: the index behind the delimiter, or the return with 0.\<close>

definition parse_head :: "string \<Rightarrow> canfd_frame \<Rightarrow> (nat option \<times> canfd_frame) option" where
  "parse_head cs cf = do {
     c3 \<leftarrow> rd cs 3;
     if c3 = CHR ''#'' then do {
       (ok, cid) \<leftarrow> parse_id_digits cs 3 0 (can_id cf);
       Some (if ok then Some 4 else None, cf\<lparr>can_id := cid\<rparr>)
     } else do {
       c8 \<leftarrow> rd cs 8;
       if c8 = CHR ''#'' then do {
         (ok, cid) \<leftarrow> parse_id_digits cs 8 0 (can_id cf);
         if \<not> ok then Some (None, cf\<lparr>can_id := cid\<rparr>)
         else if cid AND CAN_ERR_FLAG = 0
           then Some (Some 9, cf\<lparr>can_id := cid OR CAN_EFF_FLAG\<rparr>)
           else Some (Some 9, cf\<lparr>can_id := cid\<rparr>)
       } else Some (None, cf)
     }
   }"

text \<open>The branch of a remote request: an optional length and an optional raw DLC.\<close>

definition raw_dlc_ok :: "u8 \<Rightarrow> bool" where
  "raw_dlc_ok dlc \<longleftrightarrow> CAN_MAX_DLEN < unat dlc \<and> unat dlc \<le> CAN_MAX_RAW_DLC"

definition parse_rtr :: "string \<Rightarrow> nat \<Rightarrow> canfd_frame \<Rightarrow> (int \<times> canfd_frame) option" where
  "parse_rtr cs idx cf =
     (let cf = cf\<lparr>can_id := can_id cf OR CAN_RTR_FLAG\<rparr> in do {
        c \<leftarrow> rd cs (idx + 1);
        if c \<noteq> NUL \<and> unat (asc2nibble c) \<le> CAN_MAX_DLEN then
          let tmp = asc2nibble c; cf = cf\<lparr>fr_len := tmp\<rparr> in
          if unat tmp = CAN_MAX_DLEN then do {
            c2 \<leftarrow> rd cs (idx + 2);
            if c2 = CHR ''_'' then do {
              c3 \<leftarrow> rd cs (idx + 3);
              Some (CAN_MTU, if raw_dlc_ok (asc2nibble c3) then cf\<lparr>res1 := asc2nibble c3\<rparr> else cf)
            } else Some (CAN_MTU, cf)
          } else Some (CAN_MTU, cf)
        else Some (CAN_MTU, cf)
      })"

text \<open>
  The payload loop over \<open>i\<close>, \<open>dlen\<close> and \<open>idx\<close>.  \<open>Inl\<close> is the return
  with 0 on a character that is no hexadecimal digit.
\<close>

function parse_data ::
    "string \<Rightarrow> nat \<Rightarrow> nat \<Rightarrow> nat \<Rightarrow> nat \<Rightarrow> nat \<Rightarrow> canfd_frame
     \<Rightarrow> (canfd_frame + nat \<times> nat \<times> canfd_frame) option" where
  "parse_data cs len maxdlen i dlen idx cf =
     (if i < maxdlen then
        (case rd cs idx of
           None \<Rightarrow> None
         | Some c \<Rightarrow>
             let idx = (if c = CHR ''.'' then idx + 1 else idx) in
             if idx \<ge> len then Some (Inr (dlen, idx, cf))
             else (case rd cs idx of
                     None \<Rightarrow> None
                   | Some h \<Rightarrow>
                       if asc2nibble h > 0x0F then Some (Inl cf)
                       else
                         let cf = cf\<lparr>fr_data := (fr_data cf)[i := push_bit 4 (asc2nibble h)]\<rparr> in
                         (case rd cs (idx + 1) of
                            None \<Rightarrow> None
                          | Some l \<Rightarrow>
                              if asc2nibble l > 0x0F then Some (Inl cf)
                              else parse_data cs len maxdlen (Suc i) (Suc dlen) (idx + 2)
                                     (cf\<lparr>fr_data := (fr_data cf)[i := fr_data cf ! i OR asc2nibble l]\<rparr>))))
      else Some (Inr (dlen, idx, cf)))"
  by pat_completeness auto
termination by (relation "measure (\<lambda>(cs, len, maxdlen, i, dlen, idx, cf). maxdlen - i)") auto

declare parse_data.simps [simp del]

text \<open>The rest of a data frame: the payload, \<open>len\<close> and the optional raw DLC.\<close>

definition parse_payload ::
    "string \<Rightarrow> nat \<Rightarrow> nat \<Rightarrow> int \<Rightarrow> nat \<Rightarrow> canfd_frame \<Rightarrow> (int \<times> canfd_frame) option" where
  "parse_payload cs len maxdlen ret idx cf = do {
     r \<leftarrow> parse_data cs len maxdlen 0 0 idx cf;
     case r of
       Inl cf \<Rightarrow> Some (0, cf)
     | Inr (dlen, idx, cf) \<Rightarrow>
         let cf = cf\<lparr>fr_len := of_nat dlen\<rparr> in
         if maxdlen = CAN_MAX_DLEN \<and> dlen = CAN_MAX_DLEN then do {
           c \<leftarrow> rd cs idx;
           if c = CHR ''_'' then do {
             d \<leftarrow> rd cs (idx + 1);
             Some (ret, if raw_dlc_ok (asc2nibble d) then cf\<lparr>res1 := asc2nibble d\<rparr> else cf)
           } else Some (ret, cf)
         } else Some (ret, cf)
   }"

definition parse_canframe :: "string \<Rightarrow> (int \<times> canfd_frame) option" where
  "parse_canframe cs =
     (let len = c_strlen cs; cf = zero_frame in
      if len < 4 then Some (0, cf)
      else do {
        (h, cf) \<leftarrow> parse_head cs cf;
        case h of
          None \<Rightarrow> Some (0, cf)
        | Some idx \<Rightarrow> do {
            c \<leftarrow> rd cs idx;
            if c = CHR ''R'' \<or> c = CHR ''r'' then parse_rtr cs idx cf
            else if c = CHR ''#'' then do {
              f \<leftarrow> rd cs (idx + 1);
              if asc2nibble f > 0x0F then Some (0, cf)
              else parse_payload cs len CANFD_MAX_DLEN CANFD_MTU (idx + 2)
                     (cf\<lparr>fr_flags := asc2nibble f\<rparr>)
            } else parse_payload cs len CAN_MAX_DLEN CAN_MTU idx cf
          }
      })"

section \<open>Printing\<close>

definition sprint_id :: "canfd_frame \<Rightarrow> string" where
  "sprint_id cf =
     (if can_id cf AND CAN_ERR_FLAG \<noteq> 0
      then put_eff_id (can_id cf AND (CAN_ERR_MASK OR CAN_ERR_FLAG)) @ ''#''
      else if can_id cf AND CAN_EFF_FLAG \<noteq> 0
      then put_eff_id (can_id cf AND CAN_EFF_MASK) @ ''#''
      else put_sff_id (can_id cf AND CAN_SFF_MASK) @ ''#'')"

definition sprint_raw_dlc :: "canfd_frame \<Rightarrow> string" where
  "sprint_raw_dlc cf =
     (if raw_dlc_ok (len8_dlc cf) then [CHR ''_'', hex_asc_upper_lo (len8_dlc cf)] else [])"

definition sprint_rtr :: "canfd_frame \<Rightarrow> string" where
  "sprint_rtr cf =
     ''R'' @
     (if fr_len cf \<noteq> 0 \<and> unat (fr_len cf) \<le> CAN_MAX_DLEN
      then hex_asc_upper_lo (fr_len cf) #
           (if unat (fr_len cf) = CAN_MAX_DLEN then sprint_raw_dlc cf else [])
      else [])"

definition sprint_data :: "u8 list \<Rightarrow> bool \<Rightarrow> nat \<Rightarrow> string" where
  "sprint_data d sep len =
     concat (map (\<lambda>i. put_hex_byte (d ! i) @ (if sep \<and> i + 1 < len then ''.'' else [])) [0..<len])"

definition sprint_canframe :: "canfd_frame \<Rightarrow> bool \<Rightarrow> nat \<Rightarrow> string" where
  "sprint_canframe cf sep maxdlen =
     (let len = (if unat (fr_len cf) > maxdlen then maxdlen else unat (fr_len cf));
          buf = sprint_id cf
      in if maxdlen = CAN_MAX_DLEN \<and> can_id cf AND CAN_RTR_FLAG \<noteq> 0 then buf @ sprint_rtr cf
         else
           let buf = (if maxdlen = CANFD_MAX_DLEN
                      then buf @ ''#'' @ [hex_asc_upper_lo (fr_flags cf)] @
                           (if sep \<and> len \<noteq> 0 then ''.'' else [])
                      else buf);
               buf = buf @ sprint_data (fr_data cf) sep len
           in if maxdlen = CAN_MAX_DLEN \<and> len = CAN_MAX_DLEN then buf @ sprint_raw_dlc cf else buf)"

definition fprint_canframe ::
    "string \<Rightarrow> canfd_frame \<Rightarrow> string option \<Rightarrow> bool \<Rightarrow> nat \<Rightarrow> string" where
  "fprint_canframe stream cf eol sep maxdlen =
     stream @ sprint_canframe cf sep maxdlen @ (case eol of None \<Rightarrow> [] | Some e \<Rightarrow> e)"

section \<open>The long form\<close>

abbreviation (input) CANLIB_VIEW_ASCII :: u32 where "CANLIB_VIEW_ASCII \<equiv> 0x1"
abbreviation (input) CANLIB_VIEW_BINARY :: u32 where "CANLIB_VIEW_BINARY \<equiv> 0x2"
abbreviation (input) CANLIB_VIEW_SWAP :: u32 where "CANLIB_VIEW_SWAP \<equiv> 0x4"
abbreviation (input) CANLIB_VIEW_ERROR :: u32 where "CANLIB_VIEW_ERROR \<equiv> 0x8"
abbreviation (input) CANLIB_VIEW_INDENT_SFF :: u32 where "CANLIB_VIEW_INDENT_SFF \<equiv> 0x10"
abbreviation (input) CANLIB_VIEW_LEN8_DLC :: u32 where "CANLIB_VIEW_LEN8_DLC \<equiv> 0x20"

text \<open>Overwriting part of the buffer, and \<open>printf\<close>'s right-justified \<open>%*s\<close>.\<close>

definition overwrite :: "nat \<Rightarrow> 'a list \<Rightarrow> 'a list \<Rightarrow> 'a list" where
  "overwrite pos s buf = take pos buf @ s @ drop (pos + length s) buf"

definition rjust :: "nat \<Rightarrow> string \<Rightarrow> string" where
  "rjust w s = replicate (w - length s) CHR '' '' @ s"

text \<open>The identifier in the first columns of a 15 column field, and \<open>offset\<close>.\<close>

definition long_id :: "canfd_frame \<Rightarrow> u32 \<Rightarrow> string \<times> nat" where
  "long_id cf view =
     (let buf = replicate 15 CHR '' '' in
      if can_id cf AND CAN_ERR_FLAG \<noteq> 0
      then (overwrite 0 (put_eff_id (can_id cf AND (CAN_ERR_MASK OR CAN_ERR_FLAG))) buf, 10)
      else if can_id cf AND CAN_EFF_FLAG \<noteq> 0
      then (overwrite 0 (put_eff_id (can_id cf AND CAN_EFF_MASK)) buf, 10)
      else if view AND CANLIB_VIEW_INDENT_SFF \<noteq> 0
      then (overwrite 5 (put_sff_id (can_id cf AND CAN_SFF_MASK)) buf, 10)
      else (overwrite 0 (put_sff_id (can_id cf AND CAN_SFF_MASK)) buf, 5))"

text \<open>The length column of a classic and of an FD frame.\<close>

definition long_len_cc :: "canfd_frame \<Rightarrow> u32 \<Rightarrow> nat \<Rightarrow> nat \<Rightarrow> string \<Rightarrow> string" where
  "long_len_cc cf view len offset buf =
     (if view AND CANLIB_VIEW_LEN8_DLC \<noteq> 0 then
        let dlc = len8_dlc cf;
            dlc = (if \<not> (len = CAN_MAX_DLEN \<and> raw_dlc_ok dlc) then of_nat len else dlc)
        in buf[offset + 1 := CHR ''{'', offset + 2 := hex_asc_upper ! unat dlc,
               offset + 3 := CHR ''}'']
      else buf[offset + 1 := CHR ''['', offset + 2 := char_of (len + 48), offset + 3 := CHR '']''])"

definition long_len_fd :: "nat \<Rightarrow> nat \<Rightarrow> string \<Rightarrow> string" where
  "long_len_fd len offset buf =
     buf[offset := CHR ''['', offset + 1 := char_of (len div 10 + 48),
         offset + 2 := char_of (len mod 10 + 48), offset + 3 := CHR '']'']"

text \<open>One payload byte in binary, bit 7 first, and the payload loops.\<close>

definition put_bin_byte :: "u8 \<Rightarrow> string" where
  "put_bin_byte b = map (\<lambda>j. if bit b j then CHR ''1'' else CHR ''0'') (rev [0..<8])"

definition long_data :: "u8 list \<Rightarrow> u32 \<Rightarrow> nat \<Rightarrow> string" where
  "long_data d view len =
     (let put = (if view AND CANLIB_VIEW_BINARY \<noteq> 0 then put_bin_byte else put_hex_byte) in
      if view AND CANLIB_VIEW_SWAP \<noteq> 0
      then concat (map (\<lambda>i. (if i + 1 = len then '' '' else [CHR 0x60]) @ put (d ! i)) (rev [0..<len]))
      else concat (map (\<lambda>i. '' '' @ put (d ! i)) [0..<len]))"

definition ascii_col :: "u8 \<Rightarrow> char" where
  "ascii_col b = (if b > 0x1F \<and> b < 0x7F then char_of_byte b else CHR ''.'')"

definition long_ascii :: "u8 list \<Rightarrow> u32 \<Rightarrow> nat \<Rightarrow> nat \<Rightarrow> string" where
  "long_ascii d view len dlen =
     (let j = dlen * (8 - len) + 4 in
      if view AND CANLIB_VIEW_SWAP \<noteq> 0
      then rjust j [CHR 0x60] @ map (\<lambda>i. ascii_col (d ! i)) (rev [0..<len]) @ [CHR 0x60]
      else rjust j [CHR 0x27] @ map (\<lambda>i. ascii_col (d ! i)) [0..<len] @ [CHR 0x27])"

definition sprint_long_canframe :: "canfd_frame \<Rightarrow> u32 \<Rightarrow> nat \<Rightarrow> string" where
  "sprint_long_canframe cf view maxdlen =
     (let len = (if unat (fr_len cf) > maxdlen then maxdlen else unat (fr_len cf));
          (buf, offset) = long_id cf view;
          buf = (if maxdlen = CAN_MAX_DLEN then long_len_cc cf view len offset buf
                 else long_len_fd len offset buf)
      in if maxdlen = CAN_MAX_DLEN \<and> can_id cf AND CAN_RTR_FLAG \<noteq> 0
         then take (offset + 5) buf @ '' remote request''
         else
           let offset = offset + 5;
               dlen = (if view AND CANLIB_VIEW_BINARY \<noteq> 0 then 9 else 3);
               buf = take offset buf @ long_data (fr_data cf) view len
           in if len > CAN_MAX_DLEN then buf
              else if can_id cf AND CAN_ERR_FLAG \<noteq> 0
              then buf @ rjust (dlen * (8 - len) + 13) ''ERRORFRAME''
              else if view AND CANLIB_VIEW_ASCII \<noteq> 0
              then buf @ long_ascii (fr_data cf) view len dlen
              else buf)"

end
