(* ===== verification/Can_Frame_Props.thy ===== *)
theory Can_Frame_Props
  imports Can_Frame
begin

text \<open>
  Correctness of the CAN frame notation: the parser inverts both printers, the printers stay
  inside the buffers the header sizes for them, the parser reads inside its argument and
  leaves a frame of the announced type, and the two DLC tables invert each other.
\<close>

unbundle bit_operations_syntax

section \<open>Hexadecimal digits\<close>

lemma nat_less_16_cases: "n < 16 \<Longrightarrow> n \<in> {0,1,2,3,4,5,6,7,8,9,10,11,12,13,14,15::nat}"
  by simp presburger

lemma asc2nibble_hex_asc_upper:
  assumes "n < 16"
  shows "asc2nibble (hex_asc_upper ! n) = of_nat n"
  using nat_less_16_cases [OF assms]
  by (auto simp: asc2nibble_def hex_asc_upper_def char_code_def)

lemma hex_asc_upper_neq:
  assumes "n < 16"
  shows "hex_asc_upper ! n \<noteq> CHR ''.''" "hex_asc_upper ! n \<noteq> NUL" "hex_asc_upper ! n \<noteq> CHR ''#''"
    "hex_asc_upper ! n \<noteq> CHR ''R''" "hex_asc_upper ! n \<noteq> CHR ''r''" "hex_asc_upper ! n \<noteq> CHR ''_''"
  using nat_less_16_cases [OF assms] by (auto simp: hex_asc_upper_def)

lemma and_0F_eq: "x AND 0x0F = take_bit 4 (x :: 'w::len word)"
  by (simp add: take_bit_eq_mask mask_eq_decr_exp)

lemma unat_nibble [simp]: "unat (take_bit 4 (x :: 'w::len word)) < 16"
  by (simp add: unsigned_take_bit_eq take_bit_nat_def)

lemma hex_asc_upper_lo_eq: "hex_asc_upper_lo x = hex_asc_upper ! unat (take_bit 4 x)"
  by (simp add: hex_asc_upper_lo_def and_0F_eq)

lemma hex_asc_upper_lo_neq [simp]:
  "hex_asc_upper_lo x \<noteq> CHR ''.''" "hex_asc_upper_lo x \<noteq> NUL" "hex_asc_upper_lo x \<noteq> CHR ''#''"
  "hex_asc_upper_lo x \<noteq> CHR ''R''" "hex_asc_upper_lo x \<noteq> CHR ''r''" "hex_asc_upper_lo x \<noteq> CHR ''_''"
  using hex_asc_upper_neq [OF unat_nibble] by (simp_all add: hex_asc_upper_lo_eq)

lemma asc2nibble_hex_lo: "asc2nibble (hex_asc_upper_lo x) = ucast (take_bit 4 x)"
proof -
  have "asc2nibble (hex_asc_upper_lo x) = of_nat (unat (take_bit 4 x))"
    by (simp only: hex_asc_upper_lo_eq asc2nibble_hex_asc_upper unat_nibble)
  then show ?thesis by simp
qed

lemma hex_asc_upper_hi_eq: "hex_asc_upper_hi b = hex_asc_upper_lo (drop_bit 4 b)"
proof -
  have "drop_bit 4 (b AND 0xF0 :: u8) = take_bit 4 (drop_bit 4 b)"
    by (simp add: and_0F_eq)
  then show ?thesis by (simp add: hex_asc_upper_hi_def hex_asc_upper_lo_eq)
qed

lemma asc2nibble_lo8 [simp]: "asc2nibble (hex_asc_upper_lo (b :: u8)) = take_bit 4 b"
  by (simp add: asc2nibble_hex_lo)

lemma asc2nibble_hi [simp]: "asc2nibble (hex_asc_upper_hi b) = take_bit 4 (drop_bit 4 b)"
  by (simp add: hex_asc_upper_hi_eq)

lemma hex_asc_upper_hi_neq [simp]:
  "hex_asc_upper_hi x \<noteq> CHR ''.''" "hex_asc_upper_hi x \<noteq> NUL" "hex_asc_upper_hi x \<noteq> CHR ''#''"
  "hex_asc_upper_hi x \<noteq> CHR ''R''" "hex_asc_upper_hi x \<noteq> CHR ''r''"
  by (simp_all add: hex_asc_upper_hi_eq)

lemma nibble_le [simp]: "\<not> (0x0F :: u8) < take_bit 4 x"
  unfolding word_less_nat_alt using unat_nibble [of x] by (simp del: unat_nibble)

lemma ucast_nibble_le [simp]: "\<not> (0x0F :: u8) < ucast (take_bit 4 x :: u32)"
proof -
  have "ucast (take_bit 4 x :: u32) = (take_bit 4 (ucast x) :: u8)"
    by (rule bit_word_eqI) (auto simp: bit_simps)
  then show ?thesis by simp
qed

lemma join_nibbles [simp]: "push_bit 4 (take_bit 4 (drop_bit 4 b)) OR take_bit 4 b = (b :: u8)"
  by (rule bit_word_eqI) (auto simp: bit_push_bit_iff bit_take_bit_iff bit_drop_bit_eq bit_or_iff)

lemma put_hex_byte_no_nul [simp]: "no_nul (put_hex_byte b)"
  by (simp add: put_hex_byte_def hex_asc_upper_hi_eq)

lemma length_put_hex_byte [simp]: "length (put_hex_byte b) = 2"
  by (simp add: put_hex_byte_def)

section \<open>Identifiers\<close>

lemma length_put_id [simp]: "length (put_id n cid) = n"
  by (induction n arbitrary: cid) auto

lemma put_id_nth: "i < n \<Longrightarrow> put_id n cid ! i = hex_asc_upper_lo (drop_bit ((n - 1 - i) * 4) cid)"
proof (induction n arbitrary: cid)
  case (Suc n)
  show ?case
  proof (cases "i = n")
    case True
    then show ?thesis by (simp add: nth_append)
  next
    case False
    with Suc.prems have "i < n" by simp
    then have "(n - 1 - i) * 4 + 4 = (n - i) * 4" by simp
    with \<open>i < n\<close> Suc.IH show ?thesis
      by (simp add: nth_append)
  qed
qed simp

lemma put_id_no_nul [simp]: "no_nul (put_id n cid)"
  by (induction n arbitrary: cid) auto

lemma take_bit_nibble:
  "push_bit (k * 4) (ucast (ucast (take_bit 4 (drop_bit (k * 4) x)) :: u8)) OR take_bit (k * 4) x
     = take_bit (Suc k * 4) (x :: u32)"
  by (rule bit_word_eqI)
    (auto simp: bit_push_bit_iff bit_take_bit_iff bit_drop_bit_eq bit_or_iff bit_ucast_iff)

lemma parse_id_digits_put_id:
  assumes "n \<le> 8" "i \<le> n"
  shows "parse_id_digits (put_id n cid @ rest) n i acc
           = Some (True, acc OR take_bit ((n - i) * 4) cid)"
  using assms(2)
proof (induction "n - i" arbitrary: i acc)
  case 0
  then show ?case by (subst parse_id_digits.simps) simp
next
  case (Suc k)
  then have i: "i < n" and k: "k = n - 1 - i" "k < 8" "n - i = Suc k" "n - Suc i = k"
    using assms(1) by auto
  have r: "rd (put_id n cid @ rest) i = Some (hex_asc_upper_lo (drop_bit (k * 4) cid))"
    using i k(1) by (simp add: rd_append_left put_id_nth)
  let ?d = "push_bit (k * 4) (ucast (ucast (take_bit 4 (drop_bit (k * 4) cid)) :: u8)) :: u32"
  have "parse_id_digits (put_id n cid @ rest) n i acc
      = parse_id_digits (put_id n cid @ rest) n (Suc i) (acc OR ?d)"
    using i r k(1) by (subst parse_id_digits.simps) (simp add: asc2nibble_hex_lo)
  also have "\<dots> = Some (True, (acc OR ?d) OR take_bit (k * 4) cid)"
    using Suc.hyps(1) [OF k(4) [symmetric] Suc_leI [OF i]] by (simp only: k(4))
  also have "(acc OR ?d) OR take_bit (k * 4) cid = acc OR take_bit ((n - i) * 4) cid"
    using take_bit_nibble [of k cid] k(3) by (simp only: or.assoc)
  finally show ?case .
qed

lemma parse_head_sff:
  "parse_head (put_id 3 x @ CHR ''#'' # rest) zero_frame
     = Some (Some 4, zero_frame\<lparr>can_id := take_bit 12 x\<rparr>)"
proof -
  have "rd (put_id 3 x @ CHR ''#'' # rest) 3 = Some CHR ''#''"
    using rd_append_at [of "put_id 3 x" "CHR ''#''" rest] by simp
  then show ?thesis
    by (simp add: parse_head_def parse_id_digits_put_id zero_frame_def)
qed

lemma parse_head_eff:
  "parse_head (put_id 8 x @ CHR ''#'' # rest) zero_frame
     = Some (Some 9, zero_frame\<lparr>can_id := if x AND CAN_ERR_FLAG = 0 then x OR CAN_EFF_FLAG else x\<rparr>)"
proof -
  have "rd (put_id 8 x @ CHR ''#'' # rest) 8 = Some CHR ''#''"
    using rd_append_at [of "put_id 8 x" "CHR ''#''" rest] by simp
  moreover have "rd (put_id 8 x @ CHR ''#'' # rest) 3 = Some (put_id 8 x ! 3)"
    by (rule rd_append_left) simp
  moreover have "put_id 8 x ! 3 \<noteq> CHR ''#''"
    by (simp add: put_id_nth)
  moreover have "take_bit 32 x = x"
    by (rule bit_word_eqI) (simp add: bit_take_bit_iff)
  ultimately show ?thesis
    by (simp add: parse_head_def parse_id_digits_put_id zero_frame_def)
qed

section \<open>Payload\<close>

text \<open>
  A printed payload is a sequence of bytes, each with an optional separator in front: the
  shape the payload loop consumes.
\<close>

definition chunk :: "bool \<times> u8 \<Rightarrow> string" where
  "chunk x = (if fst x then ''.'' else []) @ put_hex_byte (snd x)"

definition chunks :: "(bool \<times> u8) list \<Rightarrow> string" where
  "chunks xs = concat (map chunk xs)"

lemma chunks_simps [simp]: "chunks [] = []" "chunks (x # xs) = chunk x @ chunks xs"
  by (simp_all add: chunks_def)

lemma chunk_no_nul [simp]: "no_nul (chunk x)"
  by (simp add: chunk_def)

lemma chunks_no_nul [simp]: "no_nul (chunks xs)"
  by (induction xs) simp_all

lemma parse_data_chunk:
  assumes cs: "cs = pre @ chunk (s, b) @ rest" and "i < maxdlen"
    and "length pre + length (chunk (s, b)) \<le> len" and "i < length (fr_data cf)"
  shows "parse_data cs len maxdlen i dlen (length pre) cf
       = parse_data cs len maxdlen (Suc i) (Suc dlen) (length pre + length (chunk (s, b)))
           (cf\<lparr>fr_data := (fr_data cf)[i := b]\<rparr>)"
proof -
  let ?k = "length pre + (if s then 1 else 0)"
  have start: "rd cs (length pre) = Some (if s then CHR ''.'' else hex_asc_upper_hi b)"
    by (simp add: cs chunk_def put_hex_byte_def)
  have hi: "rd cs ?k = Some (hex_asc_upper_hi b)"
    using rd_append_right [of pre "chunk (s, b) @ rest" "if s then 1 else 0"]
    by (simp add: cs chunk_def put_hex_byte_def split: if_splits)
  have lo: "rd cs (?k + 1) = Some (hex_asc_upper_lo b)"
    using rd_append_right [of pre "chunk (s, b) @ rest" "if s then 2 else 1"]
    by (simp add: cs chunk_def put_hex_byte_def split: if_splits)
  have k: "?k < len" "?k + 2 = length pre + length (chunk (s, b))"
    using assms(3) by (simp_all add: chunk_def split: if_splits)
  show ?thesis
    using assms(2,4) start hi lo k
    by (subst parse_data.simps) (auto simp: Let_def chunk_def split: if_splits)
qed

lemma parse_data_chunks:
  assumes "i + length xs \<le> maxdlen" and "i + length xs \<le> length (fr_data cf)"
    and "length pre + length (chunks xs) \<le> len"
  shows "parse_data (pre @ chunks xs @ rest) len maxdlen i dlen (length pre) cf
       = parse_data (pre @ chunks xs @ rest) len maxdlen (i + length xs) (dlen + length xs)
           (length pre + length (chunks xs))
           (cf\<lparr>fr_data := overwrite i (map snd xs) (fr_data cf)\<rparr>)"
  using assms
proof (induction xs arbitrary: pre i dlen cf)
  case Nil
  then show ?case by (simp add: overwrite_def)
next
  case (Cons x xs)
  obtain s b where x: "x = (s, b)" by fastforce
  let ?cs = "pre @ chunks (x # xs) @ rest"
  have "parse_data ?cs len maxdlen i dlen (length pre) cf
      = parse_data ?cs len maxdlen (Suc i) (Suc dlen) (length (pre @ chunk x))
          (cf\<lparr>fr_data := (fr_data cf)[i := b]\<rparr>)"
    using parse_data_chunk [of ?cs pre s b "chunks xs @ rest" i maxdlen len cf dlen] Cons.prems x
    by simp
  also have "?cs = (pre @ chunk x) @ chunks xs @ rest" by simp
  also have "parse_data \<dots> len maxdlen (Suc i) (Suc dlen) (length (pre @ chunk x))
          (cf\<lparr>fr_data := (fr_data cf)[i := b]\<rparr>)
      = parse_data \<dots> len maxdlen (Suc i + length xs) (Suc dlen + length xs)
          (length (pre @ chunk x) + length (chunks xs))
          (cf\<lparr>fr_data := overwrite (Suc i) (map snd xs) ((fr_data cf)[i := b])\<rparr>)"
    using Cons.prems Cons.IH [of "Suc i" "cf\<lparr>fr_data := (fr_data cf)[i := b]\<rparr>" "pre @ chunk x" "Suc dlen"]
    by simp
  also have "overwrite (Suc i) (map snd xs) ((fr_data cf)[i := b]) = overwrite i (map snd (x # xs)) (fr_data cf)"
    using Cons.prems by (simp add: overwrite_def x upd_conv_take_nth_drop take_Suc_conv_app_nth add.commute)
  finally show ?case by (simp add: add.assoc)
qed

lemma sprint_data_sep: "sprint_data bs True (length bs) @ (if bs = [] then [] else ''.'')
    = concat (map (\<lambda>b. put_hex_byte b @ ''.'') bs)"
proof (cases bs rule: rev_cases)
  case Nil
  then show ?thesis by (simp add: sprint_data_def)
next
  case (snoc ys y)
  have "sprint_data bs True (length bs)
      = concat (map (\<lambda>i. put_hex_byte (ys ! i) @ ''.'') [0..<length ys]) @ put_hex_byte y"
    by (auto simp: sprint_data_def snoc nth_append intro!: arg_cong [where f = concat])
  also have "map (\<lambda>i. put_hex_byte (ys ! i) @ ''.'') [0..<length ys] = map (\<lambda>b. put_hex_byte b @ ''.'') ys"
    by (rule nth_equalityI) simp_all
  finally show ?thesis by (simp add: snoc)
qed

lemma sprint_data_take: "sprint_data (take len d) sep len = sprint_data d sep len"
  by (auto simp: sprint_data_def intro!: arg_cong [where f = concat])

lemma sprint_data_plain: "sprint_data bs False (length bs) = concat (map put_hex_byte bs)"
  unfolding sprint_data_def
  by (simp, rule arg_cong [where f = concat], rule nth_equalityI) simp_all

lemma concat_dots:
  "bs @ [b] = c # cs \<Longrightarrow> concat (map (\<lambda>b. put_hex_byte b @ ''.'') bs) @ put_hex_byte b
    = put_hex_byte c @ chunks (map (Pair True) cs)"
proof (induction bs arbitrary: c cs)
  case (Cons x bs)
  obtain c' cs' where "bs @ [b] = c' # cs'" by (cases "bs @ [b]") auto
  moreover from Cons.prems have "c = x" "cs = bs @ [b]" by simp_all
  ultimately show ?case using Cons.IH [of c' cs'] by (simp add: chunk_def)
qed (simp add: chunks_def)

text \<open>The printed payload in chunk form: no separator in front of the first byte.\<close>

lemma sprint_data_chunks:
  assumes "len \<le> length d"
  shows "sprint_data d sep len
       = (case take len d of [] \<Rightarrow> [] | b # bs \<Rightarrow> chunks ((False, b) # map (Pair sep) bs))"
proof -
  define bs where "bs = take len d"
  have len: "length bs = len" using assms by (simp add: bs_def)
  have "sprint_data bs sep (length bs)
      = (case bs of [] \<Rightarrow> [] | b # bs \<Rightarrow> chunks ((False, b) # map (Pair sep) bs))"
  proof (cases sep)
    case False
    have "chunks (map (Pair False) xs) = concat (map put_hex_byte xs)" for xs
      by (simp add: chunks_def chunk_def comp_def)
    with False show ?thesis
      by (simp add: sprint_data_plain chunk_def split: list.splits)
  next
    case True
    show ?thesis
    proof (cases bs rule: rev_cases)
      case (snoc ys y)
      have "sprint_data bs True (length bs) @ ''.'' = (concat (map (\<lambda>b. put_hex_byte b @ ''.'') ys) @ put_hex_byte y) @ ''.''"
        using sprint_data_sep [of bs] by (simp add: snoc)
      then have eq: "sprint_data bs True (length bs) = concat (map (\<lambda>b. put_hex_byte b @ ''.'') ys) @ put_hex_byte y"
        by simp
      from snoc have "bs \<noteq> []" by simp
      then obtain c cs where "bs = c # cs" by (meson neq_Nil_conv)
      with eq concat_dots [of ys y c cs] snoc
      have "sprint_data bs True (length bs) = put_hex_byte c @ chunks (map (Pair True) cs)" by simp
      with True \<open>bs = c # cs\<close> show ?thesis by (simp add: chunk_def)
    qed (simp add: sprint_data_def)
  qed
  then show ?thesis by (simp add: len) (simp add: bs_def sprint_data_take)
qed

definition data_chunks :: "bool \<Rightarrow> bool \<Rightarrow> u8 list \<Rightarrow> (bool \<times> u8) list" where
  "data_chunks first sep bs = (case bs of [] \<Rightarrow> [] | b # bs \<Rightarrow> (first, b) # map (Pair sep) bs)"

lemma length_data_chunks [simp]: "length (data_chunks first sep bs) = length bs"
  by (simp add: data_chunks_def split: list.splits)

lemma map_snd_data_chunks [simp]: "map snd (data_chunks first sep bs) = bs"
  by (simp add: data_chunks_def comp_def split: list.splits)

lemma sprint_data_cc: "len \<le> length d \<Longrightarrow> sprint_data d sep len = chunks (data_chunks False sep (take len d))"
  by (auto simp: sprint_data_chunks data_chunks_def split: list.splits)

lemma sprint_data_fd:
  "len \<le> length d \<Longrightarrow> (if sep \<and> len \<noteq> 0 then ''.'' else []) @ sprint_data d sep len
     = chunks (data_chunks sep sep (take len d))"
  by (cases "len = 0") (auto simp: sprint_data_chunks data_chunks_def chunk_def split: list.splits)

section \<open>Round trip\<close>

text \<open>The whole payload is read back: all of it where the string or the frame ends.\<close>

lemma parse_payload_chunks:
  assumes bs: "length bs \<le> maxdlen" "maxdlen \<le> length (fr_data cf)"
    and cs: "cs = pre @ chunks (data_chunks first sep bs) @ rest"
    and idx: "idx = length pre" and len: "idx + length (chunks (data_chunks first sep bs)) \<le> len"
    and stop: "length bs < maxdlen \<Longrightarrow> rest = NUL # junk \<and> len = idx + length (chunks (data_chunks first sep bs))"
  shows "parse_data cs len maxdlen 0 0 idx cf
       = Some (Inr (length bs, idx + length (chunks (data_chunks first sep bs)),
           cf\<lparr>fr_data := overwrite 0 bs (fr_data cf)\<rparr>))"
proof -
  let ?e = "idx + length (chunks (data_chunks first sep bs))"
  let ?cf = "cf\<lparr>fr_data := overwrite 0 bs (fr_data cf)\<rparr>"
  have "parse_data cs len maxdlen 0 0 idx cf = parse_data cs len maxdlen (length bs) (length bs) ?e ?cf"
    using parse_data_chunks [of 0 "data_chunks first sep bs" maxdlen cf pre len rest 0] assms by simp
  also have "\<dots> = Some (Inr (length bs, ?e, ?cf))"
  proof (cases "length bs < maxdlen")
    case True
    then have "rd cs ?e = Some NUL"
      using rd_append_at [of "pre @ chunks (data_chunks first sep bs)" NUL junk] stop cs idx by simp
    with True stop show ?thesis by (subst parse_data.simps) simp
  next
    case False
    then show ?thesis by (subst parse_data.simps) simp
  qed
  finally show ?thesis .
qed

text \<open>Identifier words as the parser leaves them; bit 30 is \<open>CAN_RTR_FLAG\<close>.\<close>

definition canonical_id :: "u32 \<Rightarrow> bool" where
  "canonical_id x \<longleftrightarrow>
     (if x AND CAN_ERR_FLAG \<noteq> 0 then x AND CAN_EFF_FLAG = 0 \<and> x AND CAN_RTR_FLAG = 0
      else x AND CAN_EFF_FLAG \<noteq> 0 \<or> unset_bit 30 x \<le> CAN_SFF_MASK)"

lemma id_flag_bits:
  fixes x :: u32
  shows "x AND CAN_ERR_FLAG = 0 \<longleftrightarrow> \<not> bit x 29" "x AND CAN_RTR_FLAG = 0 \<longleftrightarrow> \<not> bit x 30"
    "x AND CAN_EFF_FLAG = 0 \<longleftrightarrow> \<not> bit x 31"
  using and_exp_eq_0_iff_not_bit [of x 29] and_exp_eq_0_iff_not_bit [of x 30]
    and_exp_eq_0_iff_not_bit [of x 31] by simp_all

lemma id_masks:
  fixes x :: u32
  shows "x AND CAN_SFF_MASK = take_bit 11 x" "x AND CAN_EFF_MASK = take_bit 29 x"
    "x AND 0x3FFFFFFF = take_bit 30 x" "x OR CAN_EFF_FLAG = set_bit 31 x"
    "x OR CAN_RTR_FLAG = set_bit 30 x"
  by (simp_all add: take_bit_eq_mask mask_eq_decr_exp set_bit_eq_or push_bit_eq_mult)

lemma bit_u32_bound: "bit (x :: u32) n \<Longrightarrow> n < 32"
  by (rule ccontr) (simp add: bit_word.rep_eq not_less bit_take_bit_iff)

lemma sff_word: "(y :: u32) \<le> CAN_SFF_MASK \<Longrightarrow> take_bit 11 y = y"
  by (simp add: word_unat_eq_iff unsigned_take_bit_eq take_bit_nat_eq_self_iff word_le_nat_alt)

lemma parse_head_sprint_id:
  assumes "canonical_id (can_id cf)"
  shows "parse_head (sprint_id cf @ rest) zero_frame
       = Some (Some (length (sprint_id cf)), zero_frame\<lparr>can_id := unset_bit 30 (can_id cf)\<rparr>)"
proof -
  let ?x = "can_id cf"
  consider (err) "bit ?x 29" "\<not> bit ?x 30" "\<not> bit ?x 31" | (eff) "\<not> bit ?x 29" "bit ?x 31"
    | (sff) "\<not> bit ?x 29" "\<not> bit ?x 31" "take_bit 11 (unset_bit 30 ?x) = unset_bit 30 ?x"
    using assms by (auto simp: canonical_id_def id_flag_bits id_masks dest: sff_word split: if_splits)
  then show ?thesis
  proof cases
    case err
    have "take_bit 30 ?x = unset_bit 30 ?x"
      using err by (intro bit_word_eqI)
        (auto simp: bit_take_bit_iff bit_unset_bit_iff less_Suc_eq numeral_eq_Suc)
    with err show ?thesis
      by (simp add: sprint_id_def id_flag_bits id_masks parse_head_eff bit_unset_bit_iff)
  next
    case eff
    have "set_bit 31 (take_bit 29 ?x) = unset_bit 30 ?x"
      using eff by (intro bit_word_eqI)
        (auto simp: bit_take_bit_iff bit_unset_bit_iff bit_set_bit_iff less_Suc_eq numeral_eq_Suc)
    with eff show ?thesis
      by (simp add: sprint_id_def id_flag_bits id_masks parse_head_eff bit_take_bit_iff)
  next
    case sff
    have "take_bit 11 ?x = unset_bit 30 ?x"
    proof (rule bit_word_eqI)
      fix n
      have "bit (take_bit 11 (unset_bit 30 ?x)) n = bit (unset_bit 30 ?x) n" using sff by simp
      then show "bit (take_bit 11 ?x) n = bit (unset_bit 30 ?x) n"
        by (auto simp: bit_take_bit_iff bit_unset_bit_iff)
    qed
    moreover have "take_bit 12 (take_bit 11 ?x) = take_bit 11 ?x" by simp
    ultimately show ?thesis using sff
      by (simp add: sprint_id_def id_flag_bits id_masks parse_head_sff del: take_bit_take_bit)
  qed
qed

lemma sprint_id_no_nul [simp]: "no_nul (sprint_id cf)"
  by (simp add: sprint_id_def)

lemma length_sprint_id: "4 \<le> length (sprint_id cf) \<and> length (sprint_id cf) \<le> 9"
  by (simp add: sprint_id_def)

definition canonical_cc :: "canfd_frame \<Rightarrow> bool" where
  "canonical_cc cf \<longleftrightarrow>
     canonical_id (can_id cf) \<and> fr_len cf \<le> 8 \<and> fr_flags cf = 0 \<and> res0 cf = 0 \<and>
     length (fr_data cf) = 64 \<and> (\<forall>b \<in> set (drop (unat (fr_len cf)) (fr_data cf)). b = 0) \<and>
     (can_id cf AND CAN_RTR_FLAG \<noteq> 0 \<longrightarrow> fr_data cf = replicate 64 0) \<and>
     (len8_dlc cf = 0 \<or> fr_len cf = 8 \<and> raw_dlc_ok (len8_dlc cf))"

definition canonical_fd :: "canfd_frame \<Rightarrow> bool" where
  "canonical_fd cf \<longleftrightarrow>
     canonical_id (can_id cf) \<and> can_id cf AND CAN_RTR_FLAG = 0 \<and> fr_len cf \<le> 64 \<and>
     fr_flags cf < 16 \<and> res0 cf = 0 \<and> res1 cf = 0 \<and> length (fr_data cf) = 64 \<and>
     (\<forall>b \<in> set (drop (unat (fr_len cf)) (fr_data cf)). b = 0)"

lemma overwrite_zero_data:
  assumes "length d = n" "k \<le> n" "\<forall>b \<in> set (drop k d). b = (0 :: u8)"
  shows "overwrite 0 (take k d) (replicate n 0) = d"
proof -
  have "drop k d = replicate (n - k) 0"
    using assms by (metis length_drop replicate_eqI)
  then show ?thesis
    using assms(1,2) append_take_drop_id [of k d] by (simp add: overwrite_def min_def)
qed

lemma unset_rtr: "x AND CAN_RTR_FLAG = 0 \<Longrightarrow> unset_bit 30 x = (x :: u32)"
  by (intro bit_word_eqI) (auto simp: id_flag_bits bit_unset_bit_iff)

lemma set_unset_rtr: "x AND CAN_RTR_FLAG \<noteq> 0 \<Longrightarrow> unset_bit 30 x OR CAN_RTR_FLAG = (x :: u32)"
  unfolding id_masks by (intro bit_word_eqI) (auto simp: id_flag_bits bit_unset_bit_iff bit_set_bit_iff)

lemma raw_dlc_ok_nibble: "raw_dlc_ok d \<Longrightarrow> take_bit 4 d = d"
  by (simp add: raw_dlc_ok_def word_unat_eq_iff unsigned_take_bit_eq take_bit_nat_eq_self_iff)

lemma canfd_frame_eqI:
  assumes "can_id f = can_id g" "fr_len f = fr_len g" "fr_flags f = fr_flags g"
    "res0 f = res0 g" "res1 f = res1 g" "fr_data f = fr_data g"
  shows "f = (g :: canfd_frame)"
  using assms by (cases f; cases g) simp

text \<open>What follows the identifier decides the branch of \<open>parse_canframe\<close>.\<close>

lemma parse_canframe_sprint_id:
  assumes "canonical_id (can_id cf)" "no_nul s" and cs: "cs = cstr (sprint_id cf @ s) junk"
  shows "parse_canframe cs =
     (let len = length (sprint_id cf) + length s; idx = length (sprint_id cf);
          f = zero_frame\<lparr>can_id := unset_bit 30 (can_id cf)\<rparr> in do {
        c \<leftarrow> rd cs idx;
        if c = CHR ''R'' \<or> c = CHR ''r'' then parse_rtr cs idx f
        else if c = CHR ''#'' then do {
          b \<leftarrow> rd cs (idx + 1);
          if asc2nibble b > 0x0F then Some (0, f)
          else parse_payload cs len CANFD_MAX_DLEN CANFD_MTU (idx + 2) (f\<lparr>fr_flags := asc2nibble b\<rparr>)
        } else parse_payload cs len CAN_MAX_DLEN CAN_MTU idx f
      })"
proof -
  have "c_strlen cs = length (sprint_id cf) + length s"
    using assms by simp
  moreover have "parse_head cs zero_frame
      = Some (Some (length (sprint_id cf)), zero_frame\<lparr>can_id := unset_bit 30 (can_id cf)\<rparr>)"
    using parse_head_sprint_id [OF assms(1), of "s @ NUL # junk"] by (simp add: cs cstr_def)
  ultimately show ?thesis
    using length_sprint_id [of cf] by (simp add: parse_canframe_def Let_def)
qed

lemma nibble_small: "unat b < 16 \<Longrightarrow> take_bit 4 b = (b :: u8)"
  by (simp add: word_unat_eq_iff unsigned_take_bit_eq take_bit_nat_eq_self_iff)

lemma sprint_raw_dlc_no_nul [simp]: "no_nul (sprint_raw_dlc cf)"
  by (simp add: sprint_raw_dlc_def)

lemma raw_dlc_ok_0 [simp]: "\<not> raw_dlc_ok 0"
  by (simp add: raw_dlc_ok_def)

lemma sprint_rtr_no_nul [simp]: "no_nul (sprint_rtr cf)"
  by (simp add: sprint_rtr_def)

lemma rd_behind: "rd (cstr (p @ s) junk) (length p + k) = rd (s @ NUL # junk) k"
  using rd_append_right [of p "s @ NUL # junk" k] by (simp add: cstr_def)

lemma rd_behind_Suc:
  "rd (cstr (p @ s) junk) (Suc (length p)) = rd (s @ NUL # junk) 1"
  "rd (cstr (p @ s) junk) (Suc (Suc (length p))) = rd (s @ NUL # junk) 2"
  using rd_behind [of p s junk 1] rd_behind [of p s junk 2] by simp_all

lemma parse_rtr_sprint:
  assumes "fr_len cf \<le> 8" "len8_dlc cf = 0 \<or> fr_len cf = 8 \<and> raw_dlc_ok (len8_dlc cf)"
  shows "parse_rtr (cstr (p @ sprint_rtr cf) junk) (length p) f =
     Some (CAN_MTU, f\<lparr>can_id := can_id f OR CAN_RTR_FLAG,
       fr_len := if fr_len cf = 0 then fr_len f else fr_len cf,
       res1 := if len8_dlc cf = 0 then res1 f else len8_dlc cf\<rparr>)"
proof -
  have len: "unat (fr_len cf) \<le> 8" "take_bit 4 (fr_len cf) = fr_len cf"
    using assms(1) by (simp_all add: word_le_nat_alt nibble_small)
  have len8: "fr_len cf = 8 \<longleftrightarrow> unat (fr_len cf) = 8"
    by (simp add: word_unat_eq_iff)
  show ?thesis
    using assms(2) len unfolding len8
    by (cases "raw_dlc_ok (len8_dlc cf)")
      (auto simp: parse_rtr_def Let_def sprint_rtr_def sprint_raw_dlc_def raw_dlc_ok_nibble
        rd_behind rd_behind_Suc split: if_splits)
qed

section \<open>Buffer sizes\<close>

lemma length_sprint_data: "length (sprint_data d sep len) \<le> 3 * len"
  unfolding sprint_data_def by (rule length_concat_map_le) auto

lemma length_long_data: "length (long_data d view len) \<le> 9 * len"
proof -
  have "length (put_bin_byte b) = 8" for b by (simp add: put_bin_byte_def)
  then show ?thesis
    unfolding long_data_def Let_def by (auto intro!: length_concat_map_le)
qed

lemma long_id_shape: "long_id cf view = (buf, offset) \<Longrightarrow> length buf = 15 \<and> offset \<le> 10"
  by (auto simp: long_id_def overwrite_def Let_def split: if_splits)

section \<open>Memory safety and the shape of the result\<close>

lemma asc2nibble_NUL [simp]: "asc2nibble NUL = 16"
  by (simp add: asc2nibble_def char_code_def)

lemma parse_id_digits_safe:
  assumes "n \<le> length cs"
  shows "\<exists>ok x. parse_id_digits cs n i acc = Some (ok, x)"
  using assms
proof (induction cs n i acc rule: parse_id_digits.induct)
  case (1 cs n i acc)
  show ?case
    using "1.prems" "1.IH" [of "cs ! i"]
    by (subst parse_id_digits.simps) (auto simp: rd_def)
qed

lemma parse_data_safe:
  assumes "no_nul s" and cs: "cs = cstr s junk" and "len = length s"
    and "idx \<le> len" "i \<le> maxdlen" "length (fr_data cf) = 64"
  shows "\<exists>r. parse_data cs len maxdlen i i idx cf = Some r \<and>
     (case r of Inl f \<Rightarrow> length (fr_data f) = 64
      | Inr (n, e, f) \<Rightarrow> n \<le> maxdlen \<and> e \<le> len \<and> length (fr_data f) = 64)"
  using assms(4-)
proof (induction "maxdlen - i" arbitrary: i idx cf)
  case 0
  then show ?case by (subst parse_data.simps) auto
next
  case (Suc m)
  have r: "rd cs k = Some (if k < len then s ! k else NUL)" if "k \<le> len" for k
    using that assms(3) by (simp add: rd_cstr cs)
  define j where "j = (if (if idx < len then s ! idx else NUL) = CHR ''.'' then idx + 1 else idx)"
  have i: "i < maxdlen" and j: "j \<le> len" using Suc by (auto simp: j_def split: if_splits)
  show ?case
  proof (cases "j < len \<and> \<not> 0x0F < asc2nibble (s ! j) \<and> j + 1 < len \<and> \<not> 0x0F < asc2nibble (s ! (j + 1))")
    case True
    let ?cf = "cf\<lparr>fr_data := (fr_data cf)[i := push_bit 4 (asc2nibble (s ! j)),
        i := ((fr_data cf)[i := push_bit 4 (asc2nibble (s ! j))]) ! i OR asc2nibble (s ! (j + 1))]\<rparr>"
    have "parse_data cs len maxdlen i i idx cf = parse_data cs len maxdlen (Suc i) (Suc i) (j + 2) ?cf"
      using True i Suc.prems r [of idx] r [of j] r [of "j + 1"]
      by (subst parse_data.simps) (simp add: Let_def flip: j_def)
    then show ?thesis
      using Suc.hyps(1) [of "Suc i" "j + 2" ?cf] Suc.hyps(2) Suc.prems i True by simp
  next
    case False
    then show ?thesis
      using i j Suc.prems r [of idx] r [of j] r [of "j + 1"]
      by (subst parse_data.simps) (auto simp: Let_def not_le simp flip: j_def)
  qed
qed


lemma parse_head_safe:
  assumes "no_nul s" "4 \<le> length s" "8 \<le> length s \<or> s ! 3 = CHR ''#''"
  shows "\<exists>h f. parse_head (cstr s junk) zero_frame = Some (h, f) \<and> fr_data f = replicate 64 0
     \<and> fr_len f = 0 \<and> (\<forall>idx. h = Some idx \<longrightarrow> idx \<le> length s)"
proof -
  let ?cs = "cstr s junk"
  have len: "length ?cs > length s" by (simp add: cstr_def)
  obtain o3 x3 where d3: "parse_id_digits ?cs 3 0 0 = Some (o3, x3)"
    using parse_id_digits_safe [of 3 ?cs 0 0] len assms(2) by auto
  have r3: "rd ?cs 3 = Some (s ! 3)" using assms(2) by (simp add: rd_cstr)
  show ?thesis
  proof (cases "s ! 3 = CHR ''#''")
    case True
    with r3 d3 assms(2) show ?thesis by (auto simp: parse_head_def zero_frame_def)
  next
    case False
    with assms have l8: "8 \<le> length s" by simp
    obtain o8 x8 where d8: "parse_id_digits ?cs 8 0 0 = Some (o8, x8)"
      using parse_id_digits_safe [of 8 ?cs 0 0] len l8 by auto
    have r8: "rd ?cs 8 = Some (if 8 < length s then s ! 8 else NUL)"
      using l8 by (simp add: rd_cstr)
    show ?thesis
      using False r3 r8 d8 by (auto simp: parse_head_def zero_frame_def)
  qed
qed

text \<open>The frame that results fits the frame type the return value announces.\<close>

definition parsed_ok :: "int \<times> canfd_frame \<Rightarrow> bool" where
  "parsed_ok rf \<longleftrightarrow> fst rf \<in> {0, CAN_MTU, CANFD_MTU} \<and> length (fr_data (snd rf)) = 64 \<and>
     (fst rf = CAN_MTU \<longrightarrow> fr_len (snd rf) \<le> 8) \<and> (fst rf = CANFD_MTU \<longrightarrow> fr_len (snd rf) \<le> 64)"

lemma parse_rtr_safe:
  assumes "no_nul s" "idx < length s" "length (fr_data f) = 64" "fr_len f = 0"
  shows "\<exists>r. parse_rtr (cstr s junk) idx f = Some r \<and> parsed_ok r"
proof -
  have r: "rd (cstr s junk) k = Some (if k < length s then s ! k else NUL)" if "k \<le> length s" for k
    using that by (simp add: rd_cstr)
  show ?thesis
    using assms r [of "idx + 1"] r [of "idx + 2"] r [of "idx + 3"]
    by (auto simp: parse_rtr_def parsed_ok_def Let_def word_le_nat_alt split: if_splits)
qed

lemma parse_payload_safe:
  assumes "no_nul s" "idx \<le> length s" "length (fr_data f) = 64"
    and "maxdlen = 8 \<and> ret = CAN_MTU \<or> maxdlen = 64 \<and> ret = CANFD_MTU"
  shows "\<exists>r. parse_payload (cstr s junk) (length s) maxdlen ret idx f = Some r \<and> parsed_ok r"
proof -
  have r: "rd (cstr s junk) k = Some (if k < length s then s ! k else NUL)" if "k \<le> length s" for k
    using that by (simp add: rd_cstr)
  obtain x where x: "parse_data (cstr s junk) (length s) maxdlen 0 0 idx f = Some x"
    "case x of Inl f \<Rightarrow> length (fr_data f) = 64
      | Inr (n, e, f) \<Rightarrow> n \<le> maxdlen \<and> e \<le> length s \<and> length (fr_data f) = 64"
    using parse_data_safe [OF assms(1) refl refl assms(2) _ assms(3), of 0 maxdlen junk] by auto
  show ?thesis
  proof (cases x)
    case (Inl g)
    with x show ?thesis by (auto simp: parse_payload_def parsed_ok_def)
  next
    case (Inr t)
    obtain n e g where t: "t = (n, e, g)" by (cases t) auto
    have n: "n \<le> maxdlen" "e \<le> length s" "length (fr_data g) = 64" using x(2) Inr t by auto
    have "unat (of_nat n :: u8) \<le> maxdlen"
      using n(1) assms(4) by (auto simp: unat_of_nat)
    then show ?thesis
      using assms(4) x(1) Inr t n r [of e] r [of "e + 1"]
      by (auto simp: parse_payload_def parsed_ok_def Let_def word_le_nat_alt split: if_splits)
  qed
qed

section \<open>DLC conversion\<close>

lemma dlc_tables:
  "list_all (\<lambda>d. can_fd_len2dlc (can_fd_dlc2len (of_nat d)) = of_nat d) [0..<16]"
  "list_all (\<lambda>l. of_nat l \<le> can_fd_dlc2len (can_fd_len2dlc (of_nat l)) \<and>
     list_all (\<lambda>d. of_nat l \<le> can_fd_dlc2len (of_nat d) \<longrightarrow> can_fd_len2dlc (of_nat l) \<le> of_nat d) [0..<16])
     [0..<65]"
  by code_simp+

lemma all_less_word:
  assumes "list_all (\<lambda>n. P (of_nat n :: u8)) [0..<k]" "unat w < k"
  shows "P w"
  using assms by (auto simp: list_all_iff dest: bspec [of _ _ "unat w"])


lemma dlc_roundtrip: "d < 16 \<Longrightarrow> can_fd_len2dlc (can_fd_dlc2len d) = d"
  by (rule all_less_word [OF dlc_tables(1)]) (simp add: word_less_nat_alt)

section \<open>Properties\<close>

text \<open>C8: a classic frame printed by \<open>sprint_canframe\<close>, with or without separators, is read
  back by \<open>parse_canframe\<close> as the same frame, whatever lies behind the string.\<close>

theorem sprint_parse_cc:
  assumes "canonical_cc cf"
  shows "parse_canframe (cstr (sprint_canframe cf sep 8) junk) = Some (CAN_MTU, cf)"
proof -
  let ?p = "sprint_id cf"
  let ?f = "zero_frame\<lparr>can_id := unset_bit 30 (can_id cf)\<rparr>"
  let ?n = "unat (fr_len cf)"
  have n: "?n \<le> 8" "fr_len cf = of_nat ?n" and id: "canonical_id (can_id cf)"
    and dl: "length (fr_data cf) = 64"
    using assms by (auto simp: canonical_cc_def word_le_nat_alt)
  show ?thesis
  proof (cases "can_id cf AND CAN_RTR_FLAG = 0")
    case False
    define cs where "cs = cstr (?p @ sprint_rtr cf) junk"
    have "rd cs (length ?p) = Some CHR ''R''"
      using rd_behind [of ?p "sprint_rtr cf" junk 0] by (simp add: cs_def sprint_rtr_def)
    then have "parse_canframe cs = parse_rtr cs (length ?p) ?f"
      using parse_canframe_sprint_id [OF id _ cs_def] by (simp add: Let_def)
    also have "\<dots> = Some (CAN_MTU, cf)"
      using assms False parse_rtr_sprint [of cf ?p junk ?f] set_unset_rtr [OF False]
      by (auto simp: cs_def canonical_cc_def zero_frame_def intro!: canfd_frame_eqI)
    finally show ?thesis
      using False by (simp add: sprint_canframe_def cs_def)
  next
    case True
    let ?bs = "take ?n (fr_data cf)"
    let ?c = "chunks (data_chunks False sep ?bs)"
    let ?d = "if ?n = 8 then sprint_raw_dlc cf else []"
    let ?g = "?f\<lparr>fr_data := fr_data cf\<rparr>"
    define cs where "cs = cstr (?p @ ?c @ ?d) junk"
    have out: "sprint_canframe cf sep 8 = ?p @ ?c @ ?d"
      using True n dl by (simp add: sprint_canframe_def sprint_data_cc Let_def)
    have bs: "length ?bs = ?n" using n dl by simp
    obtain c where c: "rd cs (length ?p) = Some c" "c \<noteq> CHR ''R''" "c \<noteq> CHR ''r''" "c \<noteq> CHR ''#''"
      using rd_behind [of ?p "?c @ ?d" junk 0] bs
      by (cases ?bs) (auto simp: cs_def data_chunks_def chunk_def put_hex_byte_def split: if_splits)
    have ov: "overwrite 0 ?bs (fr_data ?f) = fr_data cf"
      using assms n overwrite_zero_data [of "fr_data cf" 64 ?n]
      by (simp add: canonical_cc_def zero_frame_def)
    have pd: "parse_data cs (length ?p + length ?c + length ?d) 8 0 0 (length ?p) ?f
        = Some (Inr (?n, length ?p + length ?c, ?g))"
      using parse_payload_chunks [of ?bs 8 ?f cs ?p False sep "?d @ NUL # junk" "length ?p"
          "length ?p + length ?c + length ?d" junk] n bs ov
      by (simp add: cs_def cstr_def zero_frame_def)
    have "parse_canframe cs = parse_payload cs (length ?p + length ?c + length ?d) 8 CAN_MTU (length ?p) ?f"
      using parse_canframe_sprint_id [OF id _ cs_def] c by (simp add: Let_def add.assoc)
    also have "\<dots> = Some (CAN_MTU, cf)"
      using pd n assms True rd_behind [of "?p @ ?c" ?d junk 0] rd_behind [of "?p @ ?c" ?d junk 1]
      by (auto simp: parse_payload_def cs_def canonical_cc_def sprint_raw_dlc_def raw_dlc_ok_nibble
          zero_frame_def unset_rtr intro!: canfd_frame_eqI split: if_splits)
    finally show ?thesis by (simp add: out cs_def)
  qed
qed

theorem sprint_parse_cc_witness:
  "parse_canframe (cstr (sprint_canframe
       (zero_frame\<lparr>can_id := 0x123, fr_len := 2, fr_data := [0x11, 0xAB] @ replicate 62 0\<rparr>) True 8) [])
     = Some (16, zero_frame\<lparr>can_id := 0x123, fr_len := 2, fr_data := [0x11, 0xAB] @ replicate 62 0\<rparr>)"
  by (rule sprint_parse_cc) code_simp

text \<open>C9: a CAN FD frame printed by \<open>sprint_canframe\<close> is read back as the same frame.\<close>

theorem sprint_parse_fd:
  assumes "canonical_fd cf"
  shows "parse_canframe (cstr (sprint_canframe cf sep 64) junk) = Some (CANFD_MTU, cf)"
proof -
  let ?f = "zero_frame\<lparr>can_id := can_id cf, fr_flags := fr_flags cf\<rparr>"
  let ?n = "unat (fr_len cf)"
  let ?bs = "take ?n (fr_data cf)"
  let ?c = "chunks (data_chunks sep sep ?bs)"
  let ?s = "[CHR ''#'', hex_asc_upper_lo (fr_flags cf)] @ ?c"
  let ?p = "sprint_id cf @ [CHR ''#'', hex_asc_upper_lo (fr_flags cf)]"
  have n: "?n \<le> 64" "fr_len cf = of_nat ?n" and id: "canonical_id (can_id cf)"
    and rtr: "can_id cf AND CAN_RTR_FLAG = 0" and fl: "take_bit 4 (fr_flags cf) = fr_flags cf"
    and dl: "length (fr_data cf) = 64"
    using assms by (auto simp: canonical_fd_def word_le_nat_alt word_less_nat_alt nibble_small)
  have fl15: "\<not> 0x0F < fr_flags cf"
    using nibble_le [of "fr_flags cf"] by (simp add: fl)
  define cs where "cs = cstr (sprint_id cf @ ?s) junk"
  have out: "sprint_canframe cf sep 64 = sprint_id cf @ ?s"
    using n dl sprint_data_fd [of ?n "fr_data cf" sep] by (simp add: sprint_canframe_def Let_def)
  have bs: "length ?bs = ?n" using n dl by simp
  have ov: "overwrite 0 ?bs (fr_data ?f) = fr_data cf"
    using assms n overwrite_zero_data [of "fr_data cf" 64 ?n]
    by (simp add: canonical_fd_def zero_frame_def)
  have c: "rd cs (length (sprint_id cf)) = Some CHR ''#''"
    "rd cs (length (sprint_id cf) + 1) = Some (hex_asc_upper_lo (fr_flags cf))"
    using rd_behind [of "sprint_id cf" ?s junk 0] rd_behind [of "sprint_id cf" ?s junk 1]
    by (simp_all add: cs_def)
  have pd: "parse_data cs (length ?p + length ?c) 64 0 0 (length ?p) ?f
      = Some (Inr (?n, length ?p + length ?c, ?f\<lparr>fr_data := fr_data cf\<rparr>))"
    using parse_payload_chunks [of ?bs 64 ?f cs ?p sep sep "NUL # junk" "length ?p"
        "length ?p + length ?c" junk] n bs ov
    by (simp add: cs_def cstr_def zero_frame_def)
  have "parse_canframe cs = parse_payload cs (length ?p + length ?c) 64 CANFD_MTU (length ?p) ?f"
    using parse_canframe_sprint_id [OF id _ cs_def] c rtr fl fl15 by (simp add: Let_def unset_rtr)
  also have "\<dots> = Some (CANFD_MTU, cf)"
    using pd n assms by (auto simp: parse_payload_def canonical_fd_def zero_frame_def intro!: canfd_frame_eqI)
  finally show ?thesis by (simp add: out cs_def)
qed

theorem sprint_parse_fd_witness:
  "parse_canframe (cstr (sprint_canframe
       (zero_frame\<lparr>can_id := 0x92345678, fr_len := 1, fr_flags := 3, fr_data := 0x5A # replicate 63 0\<rparr>)
         False 64) ''junk'')
     = Some (72, zero_frame\<lparr>can_id := 0x92345678, fr_len := 1, fr_flags := 3,
                   fr_data := 0x5A # replicate 63 0\<rparr>)"
  by (rule sprint_parse_fd) code_simp

text \<open>C10: \<open>parse_canframe\<close> never reads outside its argument when the string has a
  delimiter at index 3 or at least 8 characters; it returns 0, \<open>CAN_MTU\<close> or
  \<open>CANFD_MTU\<close>, and the length of the frame fits the announced type.\<close>

theorem parse_canframe_safe:
  assumes "no_nul s" "length s < 4 \<or> 8 \<le> length s \<or> s ! 3 = CHR ''#''"
  shows "\<exists>r. parse_canframe (cstr s junk) = Some r \<and> parsed_ok r"
proof (cases "length s < 4")
  case True
  then show ?thesis using assms(1) by (simp add: parse_canframe_def parsed_ok_def zero_frame_def)
next
  case False
  obtain h f where h: "parse_head (cstr s junk) zero_frame = Some (h, f)" "fr_data f = replicate 64 0"
    "fr_len f = 0" "\<And>idx. h = Some idx \<Longrightarrow> idx \<le> length s"
    using parse_head_safe [of s junk] assms False by force
  have r: "rd (cstr s junk) k = Some (if k < length s then s ! k else NUL)" if "k \<le> length s" for k
    using that by (simp add: rd_cstr)
  show ?thesis
  proof (cases h)
    case None
    with False h assms(1) show ?thesis by (simp add: parse_canframe_def parsed_ok_def)
  next
    case (Some idx)
    note idx = h(4) [OF Some]
    show ?thesis
    proof (cases "idx < length s")
      case True
      let ?c = "s ! idx"
      have start: "parse_canframe (cstr s junk) =
          (if ?c = CHR ''R'' \<or> ?c = CHR ''r'' then parse_rtr (cstr s junk) idx f
           else if ?c = CHR ''#'' then do {
             b \<leftarrow> rd (cstr s junk) (idx + 1);
             if asc2nibble b > 0x0F then Some (0, f)
             else parse_payload (cstr s junk) (length s) 64 CANFD_MTU (idx + 2) (f\<lparr>fr_flags := asc2nibble b\<rparr>)
           } else parse_payload (cstr s junk) (length s) 8 CAN_MTU idx f)"
        using False h(1) assms(1) Some True r [of idx] by (simp add: parse_canframe_def)
      consider "?c = CHR ''R'' \<or> ?c = CHR ''r''" | "?c = CHR ''#''" "idx + 1 < length s"
        | "?c = CHR ''#''" "idx + 1 = length s" | "?c \<noteq> CHR ''R''" "?c \<noteq> CHR ''r''" "?c \<noteq> CHR ''#''"
        using True by force
      then show ?thesis
      proof cases
        case 1
        then show ?thesis using start parse_rtr_safe [OF assms(1) True, of f junk] h by simp
      next
        case 2
        then show ?thesis
          using start r [of "idx + 1"] h
            parse_payload_safe [OF assms(1), of "idx + 2" "f\<lparr>fr_flags := asc2nibble (s ! (idx + 1))\<rparr>" 64 CANFD_MTU junk]
          by (auto simp: parsed_ok_def)
      next
        case 3
        then show ?thesis using start r [of "idx + 1"] h by (simp add: parsed_ok_def)
      next
        case 4
        then show ?thesis
          using start parse_payload_safe [OF assms(1) idx, of f 8 CAN_MTU junk] h by simp
      qed
    next
      case False': False
      with idx r [of idx] False h(1-3) assms(1) Some
        parse_payload_safe [OF assms(1) idx, of f 8 CAN_MTU junk]
      show ?thesis by (auto simp: parse_canframe_def)
    qed
  qed
qed

theorem parse_canframe_safe_witness:
  "\<exists>r. parse_canframe (cstr ''123#11.2x'' []) = Some r \<and> parsed_ok r"
  by (rule parse_canframe_safe) (simp_all add: no_nul_def)

text \<open>On a string of 4 to 7 characters without a delimiter at index 3,
  \<open>parse_canframe\<close> reads \<open>cs[8]\<close> behind the terminator: out of bounds when the string
  fills its object, and a rejection whatever the bytes there are.\<close>

lemma parse_canframe_short:
  assumes "no_nul s" "4 \<le> length s" "length s < 8" "s ! 3 \<noteq> CHR ''#''"
  shows "parse_canframe (cstr s []) = None \<and>
     (\<forall>junk r f. parse_canframe (cstr s junk) = Some (r, f) \<longrightarrow> r = 0)"
proof (intro conjI allI impI)
  fix junk r f
  have r3: "rd (cstr s j) 3 = Some (s ! 3)" for j using assms(2) by (simp add: rd_cstr)
  have "rd (cstr s []) 8 = None" using assms(3) by (simp add: rd_def cstr_def)
  then show "parse_canframe (cstr s []) = None"
    using assms r3 [of "[]"] by (simp add: parse_canframe_def parse_head_def)
  have stop: "\<exists>x. parse_id_digits (cstr s junk) 8 i acc = Some (False, x)" if "i \<le> length s" for i acc
    using that
  proof (induction "length s - i" arbitrary: i acc)
    case 0
    then have "rd (cstr s junk) i = Some NUL" by (simp add: rd_cstr)
    with 0 assms(3) show ?case by (subst parse_id_digits.simps) simp
  next
    case (Suc m)
    then have i: "i < length s" by simp
    then have "rd (cstr s junk) i = Some (s ! i)" by (simp add: rd_cstr)
    with i assms(3) Suc.hyps(1) [of "Suc i"] Suc.hyps(2) show ?case
      by (subst parse_id_digits.simps) auto
  qed
  assume "parse_canframe (cstr s junk) = Some (r, f)"
  then show "r = 0"
    using assms(1,2,4) r3 [of junk] stop [of 0 0]
    by (cases "rd (cstr s junk) 8")
      (auto simp: parse_canframe_def parse_head_def zero_frame_def Let_def split: if_splits)
qed

text \<open>the compact form fits the buffer of \<open>CL_CFSZ\<close> bytes with its terminator.\<close>

lemma sprint_canframe_fits:
  assumes "maxdlen \<le> 64"
  shows "length (sprint_canframe cf sep maxdlen) < CL_CFSZ"
proof -
  let ?len = "if unat (fr_len cf) > maxdlen then maxdlen else unat (fr_len cf)"
  have "length (sprint_data (fr_data cf) sep ?len) \<le> 192"
    using length_sprint_data [of "fr_data cf" sep ?len] assms by auto
  then show ?thesis using length_sprint_id [of cf]
    by (auto simp: sprint_canframe_def Let_def sprint_rtr_def sprint_raw_dlc_def)
qed

lemma sprint_long_canframe_length:
  assumes "maxdlen \<le> 64"
  shows "length (sprint_long_canframe cf view maxdlen) < CL_LONGCFSZ"
proof -
  define n where "n = (if unat (fr_len cf) > maxdlen then maxdlen else unat (fr_len cf))"
  obtain buf offset where io: "long_id cf view = (buf, offset)" by fastforce
  have n: "n \<le> 64" using assms by (simp add: n_def)
  have o: "offset \<le> 10" using long_id_shape [OF io] by auto
  have hd: "length (take (offset + 5) xs) \<le> 15" for xs :: string using o by simp
  have d: "length (long_data (fr_data cf) view n) \<le> 9 * n"
    by (rule length_long_data)
  have m: "e * (8 - n) \<le> 8 * e" for e
    by (metis diff_le_self mult.commute mult_le_mono2)
  have r: "length (rjust (e * (8 - n) + 13) ''ERRORFRAME'') \<le> 8 * e + 13" for e
    using m [of e] by (simp add: rjust_def)
  have a: "length (long_ascii (fr_data cf) view n e) \<le> 8 * e + 5 + n" for e
    using m [of e] by (auto simp add: long_ascii_def rjust_def Let_def)
  show ?thesis
    using hd [of "long_len_cc cf view n offset buf"] hd [of "long_len_fd n offset buf"]
      d r [of 9] r [of 3] a [of 9] a [of 3] n
    by (auto simp add: sprint_long_canframe_def Let_def io simp flip: n_def simp del: length_take)
qed

text \<open>C11: the long form fits the buffer of \<open>CL_LONGCFSZ\<close> bytes in every view.\<close>

theorem sprint_long_canframe_fits:
  assumes "maxdlen \<le> 64"
  shows "length (sprint_long_canframe cf view maxdlen) < CL_LONGCFSZ"
  using assms by (rule sprint_long_canframe_length)

theorem sprint_long_canframe_fits_witness:
  "length (sprint_long_canframe (zero_frame\<lparr>fr_len := 64\<rparr>) 0x7 64) < 675"
  by (rule sprint_long_canframe_fits) simp

text \<open>\<open>can_fd_len2dlc\<close> gives the least DLC whose length holds the payload.\<close>

lemma len2dlc_least:
  assumes "len \<le> 64"
  shows "len \<le> can_fd_dlc2len (can_fd_len2dlc len) \<and>
     (\<forall>d < 16. len \<le> can_fd_dlc2len d \<longrightarrow> can_fd_len2dlc len \<le> d)"
proof -
  have "len \<le> can_fd_dlc2len (can_fd_len2dlc len) \<and>
     list_all (\<lambda>d. len \<le> can_fd_dlc2len (of_nat d) \<longrightarrow> can_fd_len2dlc len \<le> of_nat d) [0..<16]"
    using assms by (intro all_less_word [OF dlc_tables(2)]) (simp add: word_le_nat_alt)
  then show ?thesis
    using all_less_word [of "\<lambda>d. len \<le> can_fd_dlc2len d \<longrightarrow> can_fd_len2dlc len \<le> d" 16]
    by (simp add: word_less_nat_alt)
qed

end
