(* ===== verification/Can_Error.thy ===== *)
theory Can_Error
  imports Can_Frame_Props
begin

text \<open>
  The decoding of error frames in \<^verbatim>\<open>libs/can-utils/lib.c\<close>: the tables of error
  names, the \<open>snprintf_error_*\<close> helpers, \<open>snprintf_can_error_frame\<close> and
  \<open>fprint_long_canframe\<close>.  The code advances by \<open>n += snprintf(buf + n, len - n, ...)\<close>,
  with \<open>len - n\<close> in \<open>size_t\<close>: the model keeps the whole object the text is written
  to and the write position, so that a write behind the object is \<open>None\<close>.  The reference
  \<open>error_text\<close> says what the text should be; the refinement shows that the code writes
  exactly that text whenever the object has room for it.
\<close>

unbundle bit_operations_syntax

section \<open>Writing with \<open>snprintf\<close>\<close>

text \<open>
  One \<open>n += snprintf(buf + n, len - n, ...)\<close>: the object, the index \<open>buf + n\<close> in
  it and the index \<open>lim\<close> of \<open>buf + len\<close>.
\<close>

type_synonym cursor = "string \<times> nat"

definition snprintf_at :: "nat \<Rightarrow> string \<Rightarrow> cursor \<Rightarrow> cursor option" where
  "snprintf_at lim s c =
     (let (buf, pos) = c; size = unat (of_nat lim - of_nat pos :: u64) in
      if size = 0 then Some (buf, pos + length s)
      else
        let w = take (size - 1) s @ [NUL] in
        if pos + length w \<le> length buf then Some (overwrite pos w buf, pos + length s) else None)"

section \<open>The tables\<close>

definition error_classes :: "string list" where
  "error_classes =
     [''tx-timeout'', ''lost-arbitration'', ''controller-problem'', ''protocol-violation'',
      ''transceiver-status'', ''no-acknowledgement-on-tx'', ''bus-off'', ''bus-error'',
      ''restarted-after-bus-off'']"

definition controller_problems :: "string list" where
  "controller_problems =
     [''rx-overflow'', ''tx-overflow'', ''rx-error-warning'', ''tx-error-warning'',
      ''rx-error-passive'', ''tx-error-passive'', ''back-to-error-active'']"

definition protocol_violation_types :: "string list" where
  "protocol_violation_types =
     [''single-bit-error'', ''frame-format-error'', ''bit-stuffing-error'',
      ''tx-dominant-bit-error'', ''tx-recessive-bit-error'', ''bus-overload'', ''active-error'',
      ''error-on-tx'']"

definition protocol_violation_locations :: "string list" where
  "protocol_violation_locations =
     [''unspecified'', ''unspecified'', ''id.28-to-id.21'', ''start-of-frame'', ''bit-srtr'',
      ''bit-ide'', ''id.20-to-id.18'', ''id.17-to-id.13'', ''crc-sequence'', ''reserved-bit-0'',
      ''data-field'', ''data-length-code'', ''bit-rtr'', ''reserved-bit-1'', ''id.4-to-id.0'',
      ''id.12-to-id.5'', ''unspecified'', ''active-error-flag'', ''intermission'',
      ''tolerate-dominant-bits'', ''unspecified'', ''unspecified'', ''passive-error-flag'',
      ''error-delimiter'', ''crc-delimiter'', ''acknowledge-slot'', ''end-of-frame'',
      ''acknowledge-delimiter'', ''overload-flag'', ''unspecified'', ''unspecified'',
      ''unspecified'']"

section \<open>The helpers\<close>

text \<open>The loop over the bits of \<open>err\<close>; \<open>count\<close> is the number of names written.\<close>

fun error_data_loop ::
    "nat \<Rightarrow> u8 \<Rightarrow> nat \<Rightarrow> nat \<Rightarrow> string list \<Rightarrow> cursor \<Rightarrow> cursor option" where
  "error_data_loop lim err i count [] c = Some c"
| "error_data_loop lim err i count (a # arr) c =
     (if bit err i then do {
        c \<leftarrow> (if count \<noteq> 0 then snprintf_at lim '','' c else Some c);
        c \<leftarrow> snprintf_at lim a c;
        error_data_loop lim err (Suc i) (Suc count) arr c
      } else error_data_loop lim err (Suc i) count arr c)"

definition snprintf_error_data :: "nat \<Rightarrow> u8 \<Rightarrow> string list \<Rightarrow> cursor \<Rightarrow> cursor option" where
  "snprintf_error_data lim err arr c =
     (if err = 0 \<or> snd c = lim then Some c else error_data_loop lim err 0 0 arr c)"

definition snprintf_error_lostarb :: "nat \<Rightarrow> canfd_frame \<Rightarrow> cursor \<Rightarrow> cursor option" where
  "snprintf_error_lostarb lim cf c =
     (if snd c = lim then Some c
      else snprintf_at lim (''{at bit '' @ udec (unat (fr_data cf ! 0)) @ ''}'') c)"

definition snprintf_error_ctrl :: "nat \<Rightarrow> canfd_frame \<Rightarrow> cursor \<Rightarrow> cursor option" where
  "snprintf_error_ctrl lim cf c =
     (if snd c = lim then Some c
      else do {
        c \<leftarrow> snprintf_at lim ''{'' c;
        c \<leftarrow> snprintf_error_data lim (fr_data cf ! 1) controller_problems c;
        snprintf_at lim ''}'' c
      })"

definition snprintf_error_prot :: "nat \<Rightarrow> canfd_frame \<Rightarrow> cursor \<Rightarrow> cursor option" where
  "snprintf_error_prot lim cf c =
     (if snd c = lim then Some c
      else do {
        c \<leftarrow> snprintf_at lim ''{{'' c;
        c \<leftarrow> snprintf_error_data lim (fr_data cf ! 2) protocol_violation_types c;
        c \<leftarrow> snprintf_at lim ''}{'' c;
        c \<leftarrow> (if fr_data cf ! 3 > 0 \<and>
                 unat (fr_data cf ! 3) < length protocol_violation_locations
              then snprintf_at lim (protocol_violation_locations ! unat (fr_data cf ! 3)) c
              else Some c);
        snprintf_at lim ''}}'' c
      })"

section \<open>The error frame\<close>

abbreviation (input) CAN_ERR_LOSTARB :: u32 where "CAN_ERR_LOSTARB \<equiv> 0x2"
abbreviation (input) CAN_ERR_CRTL :: u32 where "CAN_ERR_CRTL \<equiv> 0x4"
abbreviation (input) CAN_ERR_PROT :: u32 where "CAN_ERR_PROT \<equiv> 0x8"

text \<open>The details that follow the name of the class \<open>mask\<close>, and the loop over the classes.\<close>

definition error_details :: "nat \<Rightarrow> canfd_frame \<Rightarrow> u32 \<Rightarrow> cursor \<Rightarrow> cursor option" where
  "error_details lim cf msk c = do {
     c \<leftarrow> (if msk = CAN_ERR_LOSTARB then snprintf_error_lostarb lim cf c else Some c);
     c \<leftarrow> (if msk = CAN_ERR_CRTL then snprintf_error_ctrl lim cf c else Some c);
     if msk = CAN_ERR_PROT then snprintf_error_prot lim cf c else Some c
   }"

fun error_class_loop ::
    "nat \<Rightarrow> canfd_frame \<Rightarrow> string \<Rightarrow> u32 \<Rightarrow> nat \<Rightarrow> nat \<Rightarrow> string list \<Rightarrow> cursor \<Rightarrow> cursor option" where
  "error_class_loop lim cf sep cls i classes [] c = Some c"
| "error_class_loop lim cf sep cls i classes (a # arr) c =
     (let msk = push_bit i 1 in
      if cls AND msk \<noteq> 0 then do {
        c \<leftarrow> (if classes \<noteq> 0 then snprintf_at lim sep c else Some c);
        c \<leftarrow> snprintf_at lim a c;
        c \<leftarrow> error_details lim cf msk c;
        error_class_loop lim cf sep cls (Suc i) (Suc classes) arr c
      } else error_class_loop lim cf sep cls (Suc i) classes arr c)"

text \<open>
  \<open>snprintf_can_error_frame\<close> on an object \<open>buf\<close> with the size argument \<open>len\<close>; the
  result is the object and what was written to \<open>stderr\<close>.
\<close>

definition snprintf_can_error_frame ::
    "string \<Rightarrow> nat \<Rightarrow> canfd_frame \<Rightarrow> string option \<Rightarrow> (string \<times> string) option" where
  "snprintf_can_error_frame buf len cf sep =
     (if can_id cf AND CAN_ERR_FLAG = 0 then Some (buf, [])
      else
        let cls = can_id cf AND CAN_EFF_MASK in
        if cls > push_bit (length error_classes) 1
        then Some (buf, ''Error class 0x'' @ hex_digits (unat cls) @ '' is invalid'' @ [LF])
        else
          let sep = (case sep of None \<Rightarrow> '','' | Some s \<Rightarrow> s) in do {
            c \<leftarrow> error_class_loop len cf sep cls 0 0 error_classes (buf, 0);
            c \<leftarrow> (if fr_data cf ! 6 \<noteq> 0 \<or> fr_data cf ! 7 \<noteq> 0 then do {
                    c \<leftarrow> snprintf_at len sep c;
                    snprintf_at len (''error-counter-tx-rx{{'' @ udec (unat (fr_data cf ! 6)) @ ''}{'' @
                                     udec (unat (fr_data cf ! 7)) @ ''}}'') c
                  } else Some c);
            Some (fst c, [])
          })"

text \<open>
  \<open>fprint_long_canframe\<close> on its local array of \<open>CL_LONGCFSZ\<close> bytes, whose initial
  contents \<open>stack\<close> are indeterminate; \<open>%s\<close> prints up to the first NUL.
\<close>

definition c_string :: "string \<Rightarrow> string" where
  "c_string buf = takeWhile (\<lambda>c. c \<noteq> NUL) buf"

definition fprint_long_canframe ::
    "string \<Rightarrow> string \<Rightarrow> canfd_frame \<Rightarrow> string option \<Rightarrow> u32 \<Rightarrow> nat \<Rightarrow> string option" where
  "fprint_long_canframe stack stream cf eol view maxdlen =
     (let buf = overwrite 0 (sprint_long_canframe cf view maxdlen @ [NUL]) stack;
          stream = stream @ c_string buf;
          eol = (case eol of None \<Rightarrow> [] | Some e \<Rightarrow> e)
      in if view AND CANLIB_VIEW_ERROR \<noteq> 0 \<and> can_id cf AND CAN_ERR_FLAG \<noteq> 0 then do {
           (buf, err) \<leftarrow> snprintf_can_error_frame buf CL_LONGCFSZ cf (Some [LF, CHR 0x09]);
           Some (stream @ [LF, CHR 0x09] @ c_string buf @ eol)
         } else Some (stream @ eol))"

section \<open>The text the code should write\<close>

fun sep_join :: "string \<Rightarrow> string list \<Rightarrow> string" where
  "sep_join sep [] = []"
| "sep_join sep [x] = x"
| "sep_join sep (x # y # xs) = x @ sep @ sep_join sep (y # xs)"

definition bit_names :: "('w::len) word \<Rightarrow> string list \<Rightarrow> string list" where
  "bit_names err arr = map (\<lambda>i. arr ! i) (filter (bit err) [0..<length arr])"

definition details_text :: "canfd_frame \<Rightarrow> nat \<Rightarrow> string" where
  "details_text cf i =
     (if i = 1 then ''{at bit '' @ udec (unat (fr_data cf ! 0)) @ ''}''
      else if i = 2 then ''{'' @ sep_join '','' (bit_names (fr_data cf ! 1) controller_problems) @ ''}''
      else if i = 3 then
        ''{{'' @ sep_join '','' (bit_names (fr_data cf ! 2) protocol_violation_types) @ ''}{'' @
        (if fr_data cf ! 3 \<noteq> 0 \<and> unat (fr_data cf ! 3) < 32
         then protocol_violation_locations ! unat (fr_data cf ! 3) else []) @ ''}}''
      else [])"

definition counter_text :: "canfd_frame \<Rightarrow> string \<Rightarrow> string" where
  "counter_text cf sep =
     (if fr_data cf ! 6 = 0 \<and> fr_data cf ! 7 = 0 then []
      else sep @ ''error-counter-tx-rx{{'' @ udec (unat (fr_data cf ! 6)) @ ''}{'' @
           udec (unat (fr_data cf ! 7)) @ ''}}'')"

definition error_text :: "canfd_frame \<Rightarrow> string \<Rightarrow> string" where
  "error_text cf sep =
     sep_join sep (map (\<lambda>i. error_classes ! i @ details_text cf i) (filter (bit (can_id cf)) [0..<9]))
     @ counter_text cf sep"

section \<open>The code writes that text\<close>

text \<open>
  The object holds the text \<open>pre\<close> and is otherwise as it was; a step \<open>f\<close>
  \<open>writes\<close> a string when it appends it to the text wherever there is room for it.
\<close>

definition holds :: "string \<Rightarrow> string \<Rightarrow> cursor \<Rightarrow> bool" where
  "holds buf pre c \<longleftrightarrow>
     c = (if pre = [] then buf else overwrite 0 (pre @ [NUL]) buf, length pre)"

definition writes :: "nat \<Rightarrow> string \<Rightarrow> (cursor \<Rightarrow> cursor option) \<Rightarrow> string \<Rightarrow> bool" where
  "writes lim buf f s \<longleftrightarrow>
     (\<forall>pre c. holds buf pre c \<longrightarrow> length pre + length s < lim \<longrightarrow>
        (\<exists>c'. f c = Some c' \<and> holds buf (pre @ s) c'))"

definition room :: "nat \<Rightarrow> string \<Rightarrow> bool" where
  "room lim buf \<longleftrightarrow> lim \<le> length buf \<and> lim < 2 ^ 64"

lemma writesD:
  "writes lim buf f s \<Longrightarrow> holds buf pre c \<Longrightarrow> length pre + length s < lim \<Longrightarrow>
     \<exists>c'. f c = Some c' \<and> holds buf (pre @ s) c'"
  unfolding writes_def by blast

lemma writes_Some [intro, simp]: "writes lim buf Some []"
  by (simp add: writes_def)

lemma writes_bind:
  assumes "writes lim buf f s" "writes lim buf g t"
  shows "writes lim buf (\<lambda>c. f c \<bind> g) (s @ t)"
  unfolding writes_def
proof (intro allI impI)
  fix pre c assume h: "holds buf pre c" "length pre + length (s @ t) < lim"
  obtain c' where c': "f c = Some c'" "holds buf (pre @ s) c'"
    using writesD [OF assms(1) h(1)] h(2) by auto
  then show "\<exists>c'. f c \<bind> g = Some c' \<and> holds buf (pre @ s @ t) c'"
    using writesD [OF assms(2) c'(2)] h(2) by auto
qed

lemma writes_if [intro]:
  "(P \<Longrightarrow> writes lim buf f s) \<Longrightarrow> (\<not> P \<Longrightarrow> writes lim buf g t) \<Longrightarrow>
     writes lim buf (\<lambda>c. if P then f c else g c) (if P then s else t)"
  by simp

text \<open>Each helper returns at once when no room is left, which a step that still writes never sees.\<close>

lemma writes_guard:
  assumes "writes lim buf f s"
  shows "writes lim buf (\<lambda>c. if snd c = lim then Some c else f c) s"
  unfolding writes_def
proof (intro allI impI)
  fix pre c assume h: "holds buf pre c" "length pre + length s < lim"
  then have "snd c \<noteq> lim" by (auto simp: holds_def)
  with writesD [OF assms h] show "\<exists>c'. (if snd c = lim then Some c else f c) = Some c' \<and> holds buf (pre @ s) c'"
    by simp
qed

lemma overwrite_overwrite:
  "length pre + length s < length buf \<Longrightarrow>
     overwrite (length pre) (s @ [NUL]) (overwrite 0 (pre @ [NUL]) buf) =
     overwrite 0 ((pre @ s) @ [NUL]) buf"
  by (simp add: overwrite_def add.commute)

lemma writes_snprintf_at:
  assumes "room lim buf" "s \<noteq> []"
  shows "writes lim buf (snprintf_at lim s) s"
  unfolding writes_def
proof (intro allI impI)
  fix pre c assume h: "holds buf pre c" and l: "length pre + length s < lim"
  have "(of_nat lim - of_nat (length pre) :: u64) = of_nat (lim - length pre)"
    using l by (simp add: of_nat_diff)
  moreover have "unat (of_nat (lim - length pre) :: u64) = lim - length pre"
    using assms(1) l by (intro unat_of_nat_small) (auto simp: room_def)
  ultimately have size: "unat (of_nat lim - of_nat (length pre) :: u64) = lim - length pre" by simp
  have w: "take (lim - length pre - 1) s = s" using l by simp
  have len: "length pre + length s < length buf" using l assms(1) by (simp add: room_def)
  have "snprintf_at lim s c = Some (overwrite 0 ((pre @ s) @ [NUL]) buf, length (pre @ s))"
    using h l len w size
    by (cases "pre = []") (auto simp: snprintf_at_def holds_def Let_def overwrite_overwrite, auto simp: overwrite_def)
  then show "\<exists>c'. snprintf_at lim s c = Some c' \<and> holds buf (pre @ s) c'"
    using assms(2) by (simp add: holds_def)
qed

text \<open>The names the loops write: the joined list, or every name after a separator.\<close>

definition more_join :: "nat \<Rightarrow> string \<Rightarrow> string list \<Rightarrow> string" where
  "more_join count sep xs = (if count = 0 then sep_join sep xs else concat (map ((@) sep) xs))"

lemma sep_join_Cons: "sep_join sep (x # xs) = x @ concat (map ((@) sep) xs)"
  by (induction xs arbitrary: x) simp_all

lemma more_join_simps [simp]:
  "more_join count sep [] = []"
  "more_join count sep (x # xs) = (if count \<noteq> 0 then sep else []) @ x @ more_join (Suc count) sep xs"
  by (simp_all add: more_join_def sep_join_Cons)

fun sel :: "nat \<Rightarrow> (nat \<Rightarrow> bool) \<Rightarrow> (nat \<Rightarrow> 'a \<Rightarrow> 'b) \<Rightarrow> 'a list \<Rightarrow> 'b list" where
  "sel i P f [] = []"
| "sel i P f (a # arr) = (if P i then [f i a] else []) @ sel (Suc i) P f arr"

lemma sel_eq_filter:
  "sel i P f arr = map (\<lambda>j. f j (arr ! (j - i))) (filter P [i..<i + length arr])"
proof (induction arr arbitrary: i)
  case (Cons a arr)
  have "map (\<lambda>j. f j ((a # arr) ! (j - i))) (filter P [Suc i..<Suc i + length arr]) =
        map (\<lambda>j. f j (arr ! (j - Suc i))) (filter P [Suc i..<Suc i + length arr])"
    by (rule map_cong) (auto simp: nth_Cons')
  moreover have "[i..<i + length (a # arr)] = i # [Suc i..<Suc i + length arr]"
    by (simp add: upt_conv_Cons del: upt_Suc)
  ultimately show ?case using Cons [of "Suc i"] by (simp del: upt_Suc)
qed simp

lemma writes_sep:
  "room lim buf \<Longrightarrow> sep \<noteq> [] \<Longrightarrow>
     writes lim buf (\<lambda>c. if count \<noteq> 0 then snprintf_at lim sep c else Some c)
       (if count \<noteq> (0 :: nat) then sep else [])"
  by (simp add: writes_snprintf_at)

lemma writes_error_data_loop:
  assumes "room lim buf" "[] \<notin> set arr"
  shows "writes lim buf (error_data_loop lim err i count arr)
           (more_join count '','' (sel i (bit err) (\<lambda>i a. a) arr))"
  using assms(2)
proof (induction arr arbitrary: i count)
  case (Cons a arr)
  have a: "a \<noteq> []" and arr: "[] \<notin> set arr" using Cons.prems by auto
  show ?case
  proof (cases "bit err i")
    case True
    then show ?thesis
      using writes_bind [OF writes_sep [OF assms(1), of "'',''" count]
          writes_bind [OF writes_snprintf_at [OF assms(1) a] Cons.IH [OF arr, of "Suc i" "Suc count"]]]
      by simp
  next
    case False
    then show ?thesis using Cons.IH [OF arr] by simp
  qed
qed (simp add: writes_def)

lemma bit_names_sel: "bit_names err arr = sel 0 (bit err) (\<lambda>i a. a) arr"
  by (simp add: bit_names_def sel_eq_filter)

lemma writes_error_data:
  assumes "room lim buf" "[] \<notin> set arr" "length arr \<le> 8"
  shows "writes lim buf (snprintf_error_data lim err arr) (sep_join '','' (bit_names err arr))"
proof (cases "err = 0")
  case True
  then have "snprintf_error_data lim err arr = Some"
    by (simp add: snprintf_error_data_def fun_eq_iff)
  with True show ?thesis by (simp add: bit_names_def)
next
  case False
  then have "snprintf_error_data lim err arr =
      (\<lambda>c. if snd c = lim then Some c else error_data_loop lim err 0 0 arr c)"
    by (simp add: snprintf_error_data_def fun_eq_iff)
  then show ?thesis
    using writes_guard [OF writes_error_data_loop [OF assms(1,2), of err 0 0]]
    by (simp add: bit_names_sel more_join_def)
qed

lemma names_not_empty:
  "[] \<notin> set controller_problems" "[] \<notin> set protocol_violation_types"
  "[] \<notin> set protocol_violation_locations" "[] \<notin> set error_classes"
  "length controller_problems = 7" "length protocol_violation_types = 8"
  "length protocol_violation_locations = 32" "length error_classes = 9"
  by (simp_all add: controller_problems_def protocol_violation_types_def
      protocol_violation_locations_def error_classes_def)

lemma writes_error_lostarb:
  "room lim buf \<Longrightarrow> writes lim buf (snprintf_error_lostarb lim cf) (details_text cf 1)"
  using writes_guard [OF writes_snprintf_at [of lim buf "''{at bit '' @ udec (unat (fr_data cf ! 0)) @ ''}''"]]
  unfolding snprintf_error_lostarb_def [abs_def] by (simp add: details_text_def)

lemma writes_error_ctrl:
  assumes "room lim buf"
  shows "writes lim buf (snprintf_error_ctrl lim cf) (details_text cf 2)"
proof -
  note w = writes_snprintf_at [OF assms]
  show ?thesis
    using writes_guard [OF writes_bind [OF w [of "''{''"] writes_bind [OF
            writes_error_data [OF assms names_not_empty(1), of "fr_data cf ! 1"] w [of "''}''"]]]]
    unfolding snprintf_error_ctrl_def [abs_def] by (simp add: details_text_def names_not_empty)
qed

lemma writes_location:
  assumes "room lim buf"
  shows "writes lim buf
     (\<lambda>c. if l > 0 \<and> unat l < length protocol_violation_locations
          then snprintf_at lim (protocol_violation_locations ! unat l) c else Some c)
     (if l \<noteq> 0 \<and> unat l < 32 then protocol_violation_locations ! unat l else [])"
proof -
  have "protocol_violation_locations ! unat l \<noteq> []" if "unat l < 32"
    using that names_not_empty(3,7) by (metis nth_mem)
  then show ?thesis
    using writes_snprintf_at [OF assms] by (auto simp: names_not_empty word_neq_0_conv)
qed

lemma writes_error_prot:
  assumes "room lim buf"
  shows "writes lim buf (snprintf_error_prot lim cf) (details_text cf 3)"
proof -
  note w = writes_snprintf_at [OF assms]
  show ?thesis
    using writes_guard [OF writes_bind [OF w [of "''{{''"] writes_bind [OF
            writes_error_data [OF assms names_not_empty(2), of "fr_data cf ! 2"]
            writes_bind [OF w [of "''}{''"] writes_bind [OF
                writes_location [OF assms, of "fr_data cf ! 3"] w [of "''}}''"]]]]]]
    unfolding snprintf_error_prot_def [abs_def] by (simp add: details_text_def names_not_empty)
qed

lemma class_mask: "i < 32 \<Longrightarrow> (cls :: u32) AND push_bit i 1 \<noteq> 0 \<longleftrightarrow> bit cls i"
  using and_exp_eq_0_iff_not_bit [of cls i] by (simp add: push_bit_eq_mult)

lemma writes_error_details:
  assumes "room lim buf" "i < 9"
  shows "writes lim buf (error_details lim cf (push_bit i 1)) (details_text cf i)"
proof -
  consider "i = 1" | "i = 2" | "i = 3" | "i = 0 \<or> i = 4 \<or> i = 5 \<or> i = 6 \<or> i = 7 \<or> i = 8"
    using assms(2) by linarith
  then show ?thesis
  proof cases
    case 1
    then show ?thesis using writes_error_lostarb [OF assms(1), of cf]
      by (simp add: error_details_def [abs_def])
  next
    case 2
    then show ?thesis using writes_error_ctrl [OF assms(1), of cf]
      by (simp add: error_details_def [abs_def])
  next
    case 3
    then show ?thesis using writes_error_prot [OF assms(1), of cf]
      by (simp add: error_details_def [abs_def])
  next
    case 4
    then show ?thesis
      by (auto simp: error_details_def [abs_def] details_text_def writes_def)
  qed
qed

lemma writes_error_class_loop:
  assumes "room lim buf" "sep \<noteq> []" "[] \<notin> set arr" "i + length arr \<le> 9"
  shows "writes lim buf (error_class_loop lim cf sep cls i classes arr)
           (more_join classes sep (sel i (bit cls) (\<lambda>i a. a @ details_text cf i) arr))"
  using assms(3,4)
proof (induction arr arbitrary: i classes)
  case (Cons a arr)
  have a: "a \<noteq> []" and arr: "[] \<notin> set arr" "Suc i + length arr \<le> 9" and i: "i < 9"
    using Cons.prems by auto
  show ?case
  proof (cases "bit cls i")
    case True
    then show ?thesis
      using i class_mask [of i cls]
        writes_bind [OF writes_sep [OF assms(1,2), of classes]
          writes_bind [OF writes_snprintf_at [OF assms(1) a]
            writes_bind [OF writes_error_details [OF assms(1) i, of cf]
              Cons.IH [OF arr, of "Suc classes"]]]]
      by (simp add: Let_def)
  next
    case False
    then show ?thesis using Cons.IH [OF arr] i class_mask [of i cls] by (simp add: Let_def)
  qed
qed (simp add: writes_def)

lemma writes_counters:
  assumes "room lim buf" "sep \<noteq> []"
  shows "writes lim buf
     (\<lambda>c. if fr_data cf ! 6 \<noteq> 0 \<or> fr_data cf ! 7 \<noteq> 0 then do {
             c \<leftarrow> snprintf_at lim sep c;
             snprintf_at lim (''error-counter-tx-rx{{'' @ udec (unat (fr_data cf ! 6)) @ ''}{'' @
                              udec (unat (fr_data cf ! 7)) @ ''}}'') c
           } else Some c)
     (counter_text cf sep)"
  using writes_bind [OF writes_snprintf_at [OF assms] writes_snprintf_at [OF assms(1),
        of "''error-counter-tx-rx{{'' @ udec (unat (fr_data cf ! 6)) @ ''}{'' @
                              udec (unat (fr_data cf ! 7)) @ ''}}''"]]
  by (auto simp: counter_text_def)

text \<open>The bits of the class are the low bits of the identifier.\<close>

lemma error_text_sel:
  "error_text cf sep =
     sep_join sep (sel 0 (bit (can_id cf AND 0x1FFFFFFF)) (\<lambda>i a. a @ details_text cf i) error_classes)
     @ counter_text cf sep"
proof -
  have "can_id cf AND 0x1FFFFFFF = take_bit 29 (can_id cf)"
    by (simp add: take_bit_eq_mask mask_eq_decr_exp)
  then have "bit (can_id cf AND 0x1FFFFFFF) i = bit (can_id cf) i" if "i < 9" for i
    using that by (simp add: bit_take_bit_iff)
  then have "filter (bit (can_id cf AND 0x1FFFFFFF)) [0..<9] = filter (bit (can_id cf)) [0..<9]"
    by (intro filter_cong) auto
  then show ?thesis by (simp add: error_text_def sel_eq_filter names_not_empty)
qed

lemma error_frame_writes:
  assumes "room len buf" "can_id cf AND CAN_ERR_FLAG \<noteq> 0" "can_id cf AND CAN_EFF_MASK \<le> 512"
    and "sep \<noteq> []" "length (error_text cf sep) < len"
  shows "snprintf_can_error_frame buf len cf (Some sep) =
    Some (if error_text cf sep = [] then buf else overwrite 0 (error_text cf sep @ [NUL]) buf, [])"
proof -
  have h: "holds buf [] (buf, 0)" by (simp add: holds_def)
  define f where "f = error_class_loop len cf sep (can_id cf AND CAN_EFF_MASK) 0 0 error_classes"
  define g where "g = (\<lambda>c. if fr_data cf ! 6 \<noteq> 0 \<or> fr_data cf ! 7 \<noteq> 0 then do {
             c \<leftarrow> snprintf_at len sep c;
             snprintf_at len (''error-counter-tx-rx{{'' @ udec (unat (fr_data cf ! 6)) @ ''}{'' @
                              udec (unat (fr_data cf ! 7)) @ ''}}'') c
           } else Some c)"
  have w: "writes len buf (\<lambda>c. f c \<bind> g) (error_text cf sep)"
    using writes_bind [OF writes_error_class_loop [OF assms(1,4) names_not_empty(4),
        of 0 cf "can_id cf AND CAN_EFF_MASK" 0] writes_counters [OF assms(1,4), of cf]]
    by (simp add: f_def g_def error_text_sel more_join_def names_not_empty)
  have eq: "snprintf_can_error_frame buf len cf (Some sep) = (f (buf, 0) \<bind> g) \<bind> (\<lambda>c. Some (fst c, []))"
    using assms(2) leD [OF assms(3)]
    by (simp add: snprintf_can_error_frame_def Let_def names_not_empty f_def g_def)
  obtain c where c: "f (buf, 0) \<bind> g = Some c" "holds buf (error_text cf sep) c"
    using writesD [OF w h] assms(5) by auto
  show ?thesis unfolding eq c(1) using c(2) by (simp add: holds_def)
qed

section \<open>The text fits, and has no terminator inside\<close>

lemma length_sep_join: "length (sep_join sep xs) \<le> sum_list (map (\<lambda>x. length x + length sep) xs)"
  by (induction sep xs rule: sep_join.induct) simp_all

lemma sum_sel_le:
  "sum_list (map h (sel i P f arr)) \<le> (sum_list (sel i (\<lambda>_. True) (\<lambda>i a. h (f i a)) arr) :: nat)"
  by (induction arr arbitrary: i) (auto simp: trans_le_add2)

lemma length_join_sel:
  "length (sep_join sep (sel i P f arr)) \<le>
     sum_list (sel i (\<lambda>_. True) (\<lambda>i a. length (f i a) + length sep) arr)"
  by (rule order_trans [OF length_sep_join sum_sel_le])

lemma length_udec_byte: "length (udec (unat (b :: u8))) \<le> 3"
  by (rule udec_length_bound) (simp_all add: less_trans [OF unat_u8_less])

lemma length_location: "n < 32 \<Longrightarrow> length (protocol_violation_locations ! n) \<le> 22"
proof -
  assume "n < 32"
  moreover have "list_all (\<lambda>s. length s \<le> 22) protocol_violation_locations" by code_simp
  ultimately show ?thesis by (simp add: list_all_length names_not_empty)
qed

lemma length_details_text:
  "length (details_text cf i) \<le> (if i = 1 then 12 else if i = 2 then 115 else if i = 3 then 166 else 0)"
proof -
  have c: "length (sep_join '','' (bit_names b controller_problems)) \<le> 113" for b :: u8
    using length_join_sel [of "'',''" 0 "bit b" "\<lambda>i a. a" controller_problems]
    by (simp add: bit_names_sel controller_problems_def)
  have t: "length (sep_join '','' (bit_names b protocol_violation_types)) \<le> 138" for b :: u8
    using length_join_sel [of "'',''" 0 "bit b" "\<lambda>i a. a" protocol_violation_types]
    by (simp add: bit_names_sel protocol_violation_types_def)
  show ?thesis
    using length_udec_byte [of "fr_data cf ! 0"] length_location [of "unat (fr_data cf ! 3)"]
      c [of "fr_data cf ! 1"] t [of "fr_data cf ! 2"]
    by (auto simp: details_text_def)
qed

lemma length_error_text: "length sep \<le> 2 \<Longrightarrow> length (error_text cf sep) \<le> 490"
proof -
  assume sep: "length sep \<le> 2"
  have "length (counter_text cf sep) \<le> 33"
    using sep length_udec_byte [of "fr_data cf ! 6"] length_udec_byte [of "fr_data cf ! 7"]
    by (simp add: counter_text_def)
  moreover have "length (sep_join sep
      (sel 0 (bit (can_id cf AND CAN_EFF_MASK)) (\<lambda>i a. a @ details_text cf i) error_classes)) \<le> 457"
    using sep length_join_sel [of sep 0 "bit (can_id cf AND CAN_EFF_MASK)" "\<lambda>i a. a @ details_text cf i" error_classes]
      length_details_text [of cf 0] length_details_text [of cf 1] length_details_text [of cf 2]
      length_details_text [of cf 3] length_details_text [of cf 4] length_details_text [of cf 5]
      length_details_text [of cf 6] length_details_text [of cf 7] length_details_text [of cf 8]
    by (simp add: error_classes_def eval_nat_numeral)
  ultimately show ?thesis by (simp add: error_text_sel)
qed

lemma no_nul_sep_join:
  "no_nul sep \<Longrightarrow> (\<And>x. x \<in> set xs \<Longrightarrow> no_nul x) \<Longrightarrow> no_nul (sep_join sep xs)"
  by (induction sep xs rule: sep_join.induct) simp_all

lemma no_nul_tables:
  "list_all no_nul controller_problems" "list_all no_nul protocol_violation_types"
  "list_all no_nul protocol_violation_locations" "list_all no_nul error_classes"
  by (simp_all add: controller_problems_def protocol_violation_types_def
      protocol_violation_locations_def error_classes_def)

lemma no_nul_names:
  "list_all no_nul arr \<Longrightarrow> no_nul (sep_join '','' (bit_names err arr))"
  by (rule no_nul_sep_join) (auto simp: bit_names_def list_all_length)

lemma no_nul_details [simp]: "no_nul (details_text cf i)"
proof -
  have "no_nul (protocol_violation_locations ! unat b)" if "unat (b :: u8) < 32" for b
    using that no_nul_tables(3) names_not_empty(7) by (simp add: list_all_length)
  then show ?thesis
    by (simp add: details_text_def no_nul_names no_nul_tables)
qed

lemma no_nul_error_text: "no_nul sep \<Longrightarrow> no_nul (error_text cf sep)"
proof -
  assume sep: "no_nul sep"
  have "no_nul (error_classes ! i)" if "i < 9" for i
    using that no_nul_tables(4) names_not_empty(8) by (simp add: list_all_length)
  then have "no_nul (sep_join sep (map (\<lambda>i. error_classes ! i @ details_text cf i)
      (filter (bit (can_id cf)) [0..<9])))"
    by (intro no_nul_sep_join [OF sep]) auto
  then show ?thesis using sep by (simp add: error_text_def counter_text_def)
qed

lemma c_string_overwrite: "no_nul s \<Longrightarrow> c_string (overwrite 0 (s @ [NUL]) buf) = s"
  by (simp add: c_string_def overwrite_def no_nul_def) (subst takeWhile_append2; auto)

lemma no_nul_overwrite: "no_nul s \<Longrightarrow> no_nul buf \<Longrightarrow> no_nul (overwrite pos s buf)"
  by (auto simp: overwrite_def no_nul_def dest: in_set_takeD in_set_dropD)

lemma no_nul_update: "no_nul buf \<Longrightarrow> c \<noteq> NUL \<Longrightarrow> no_nul (buf[i := c])"
  using set_update_subset_insert [of buf i c] by (auto simp: no_nul_def)

lemma no_nul_replicate [simp]: "no_nul (replicate n c) \<longleftrightarrow> n = 0 \<or> c \<noteq> NUL"
  by (auto simp: no_nul_def)

lemma no_nul_take: "no_nul s \<Longrightarrow> no_nul (take n s)"
  by (auto simp: no_nul_def dest: in_set_takeD)

lemma no_nul_concat_map: "(\<And>x. x \<in> set xs \<Longrightarrow> no_nul (f x)) \<Longrightarrow> no_nul (concat (map f xs))"
  by (auto simp: no_nul_def)

lemma char_of_nat_neq_NUL: "0 < n \<Longrightarrow> n < 256 \<Longrightarrow> char_of (n :: nat) \<noteq> NUL"
proof
  assume n: "0 < n" "n < 256" and "char_of n = NUL"
  then have "char_code (char_of n) = char_code NUL" by simp
  moreover have "char_code NUL = 0" by (simp add: char_code_def)
  ultimately show False using n by (simp only: char_code_char_of) simp
qed

lemma no_nul_long_id: "long_id cf view = (buf, off) \<Longrightarrow> no_nul buf"
  by (auto simp: long_id_def Let_def no_nul_overwrite split: if_splits)

lemma no_nul_long_len:
  assumes "no_nul buf"
  shows "len \<le> 8 \<Longrightarrow> no_nul (long_len_cc cf view len off buf)"
    and "len \<le> 64 \<Longrightarrow> no_nul (long_len_fd len off buf)"
proof -
  have hex: "hex_asc_upper ! n \<noteq> NUL" if "n < 16" for n
    using nat_less_16_cases [OF that] by (auto simp: hex_asc_upper_def)
  have "unat (of_nat len :: u8) < 16" if "len \<le> 8" using that by (simp add: unat_of_nat)
  then show "no_nul (long_len_cc cf view len off buf)" if "len \<le> 8"
    using that assms char_of_nat_neq_NUL [of "len + 48"]
    by (auto simp: long_len_cc_def Let_def raw_dlc_ok_def intro!: no_nul_update hex)
  have "len div 10 < 208" if "len \<le> 64" using that by linarith
  moreover have "len mod 10 < 208" by (rule less_trans [OF mod_less_divisor]) simp_all
  ultimately show "no_nul (long_len_fd len off buf)" if "len \<le> 64"
    using that assms char_of_nat_neq_NUL [of "len div 10 + 48"] char_of_nat_neq_NUL [of "len mod 10 + 48"]
    by (auto simp: long_len_fd_def intro!: no_nul_update)
qed

lemma no_nul_long_data: "no_nul (long_data d view len)"
proof -
  have "no_nul (put_bin_byte b)" for b by (auto simp: put_bin_byte_def no_nul_def)
  then show ?thesis by (auto simp: long_data_def Let_def intro!: no_nul_concat_map)
qed

lemma ascii_col_neq_NUL: "ascii_col b \<noteq> NUL"
proof -
  have "char_of_byte b = NUL \<Longrightarrow> b = 0"
    using byte_of_char_of_byte [of b] by (auto simp: byte_of_char_def char_code_def)
  then show ?thesis by (auto simp: ascii_col_def)
qed

lemma no_nul_long_ascii: "no_nul (long_ascii d view len dlen)"
  using ascii_col_neq_NUL by (fastforce simp: long_ascii_def Let_def rjust_def no_nul_def)

lemma no_nul_sprint_long: "maxdlen \<le> 64 \<Longrightarrow> no_nul (sprint_long_canframe cf view maxdlen)"
proof -
  assume m: "maxdlen \<le> 64"
  obtain buf off where io: "long_id cf view = (buf, off)" by fastforce
  define len where "len = (if unat (fr_len cf) > maxdlen then maxdlen else unat (fr_len cf))"
  have "maxdlen = 8 \<Longrightarrow> no_nul (long_len_cc cf view len off buf)" "no_nul (long_len_fd len off buf)"
    using no_nul_long_len [OF no_nul_long_id [OF io]] m by (auto simp: len_def)
  then show ?thesis
    by (auto simp: sprint_long_canframe_def Let_def io no_nul_take no_nul_long_data
        no_nul_long_ascii rjust_def simp flip: len_def)
qed

section \<open>Properties\<close>

text \<open>C12: given an object of at least 491 bytes and a separator of one or two characters,
  \<open>snprintf_can_error_frame\<close> never leaves the object and writes exactly the reference
  text, its terminator behind it and nothing else; the object is untouched when there is
  nothing to report.\<close>

theorem error_frame_text:
  assumes "491 \<le> len" "len \<le> length buf" "len < 2 ^ 64" "sep \<noteq> []" "length sep \<le> 2"
    and "can_id cf AND CAN_ERR_FLAG \<noteq> 0" "can_id cf AND CAN_EFF_MASK \<le> 0x200"
  shows "snprintf_can_error_frame buf len cf (Some sep) =
    Some (if error_text cf sep = [] then buf else overwrite 0 (error_text cf sep @ [NUL]) buf, [])"
  using assms length_error_text [of sep cf] by (intro error_frame_writes) (simp_all add: room_def)

theorem error_frame_text_witness:
  "snprintf_can_error_frame (replicate 675 CHR ''x'') 675
     (zero_frame\<lparr>can_id := 0x20000006, fr_data := [3, 0x0C] @ replicate 62 0\<rparr>) (Some '', '') =
   Some (overwrite 0 (error_text
     (zero_frame\<lparr>can_id := 0x20000006, fr_data := [3, 0x0C] @ replicate 62 0\<rparr>) '', '' @ [NUL])
       (replicate 675 CHR ''x''), [])"
proof -
  have "error_text (zero_frame\<lparr>can_id := 0x20000006, fr_data := [3, 0x0C] @ replicate 62 0\<rparr>) '', ''
      = ''lost-arbitration{at bit 3}, controller-problem{rx-error-warning,tx-error-warning}''"
    by code_simp
  then show ?thesis
    using error_frame_text [of 675 "replicate 675 CHR ''x''" "'', ''"
        "zero_frame\<lparr>can_id := 0x20000006, fr_data := [3, 0x0C] @ replicate 62 0\<rparr>"]
    by simp
qed

text \<open>in the error view \<open>fprint_long_canframe\<close> prints the long form of an error frame and
  the decoded text on the next line, and stays inside its local buffer; for a class outside the
  table, or when there is nothing to decode, the second line repeats the long form, which is
  what the buffer still holds.\<close>

lemma fprint_long_error_view:
  assumes "length stack = CL_LONGCFSZ" "maxdlen \<le> 64"
    and "view AND CANLIB_VIEW_ERROR \<noteq> 0" "can_id cf AND CAN_ERR_FLAG \<noteq> 0"
  shows "fprint_long_canframe stack stream cf eol view maxdlen =
    Some (stream @ sprint_long_canframe cf view maxdlen @ [LF, CHR 0x09] @
      (if can_id cf AND CAN_EFF_MASK \<le> 0x200 \<and> error_text cf [LF, CHR 0x09] \<noteq> []
       then error_text cf [LF, CHR 0x09] else sprint_long_canframe cf view maxdlen) @
      (case eol of None \<Rightarrow> [] | Some e \<Rightarrow> e))"
proof -
  let ?long = "sprint_long_canframe cf view maxdlen"
  let ?buf = "overwrite 0 (?long @ [NUL]) stack"
  have nn: "no_nul ?long" using no_nul_sprint_long [OF assms(2)] .
  have room: "room CL_LONGCFSZ ?buf"
    using sprint_long_canframe_length [OF assms(2), of cf view] assms(1)
    by (simp add: room_def overwrite_def)
  have et: "no_nul (error_text cf [LF, CHR 0x09])" by (rule no_nul_error_text) simp
  show ?thesis
  proof (cases "can_id cf AND CAN_EFF_MASK \<le> 0x200")
    case True
    then show ?thesis
      using assms(3,4) error_frame_writes [OF room assms(4) True, of "[LF, CHR 0x09]"]
        length_error_text [of "[LF, CHR 0x09]" cf]
      by (auto simp: fprint_long_canframe_def Let_def c_string_overwrite nn et)
  next
    case False
    then show ?thesis
      using assms(3,4)
      by (auto simp: fprint_long_canframe_def Let_def c_string_overwrite nn
          snprintf_can_error_frame_def names_not_empty leD not_le)
  qed
qed

end
