(* ===== verification/Std_Map.thy ===== *)
theory Std_Map
  imports Prelude "HOL-Library.Char_ord" "HOL-Library.List_Lexorder"
begin

text \<open>
  \<open>std::map\<close>: the ordered map the gateway keeps its frames, types, filters, settings and
  JSON objects in.  A map is the list of its entries in the order an iteration visits them;
  \<open>map_find\<close> is \<open>find\<close>, \<open>map_set\<close> the assignment through \<open>operator[]\<close> and
  \<open>map_insert\<close> the \<open>insert\<close> that leaves an existing entry alone.  Strings are ordered
  as \<open>std::string\<close> orders them, lexicographically by unsigned characters.  The locale
  \<open>ordered_map\<close> states what the clients rely on; it is interpreted on these lists.
\<close>

section \<open>Operations\<close>

type_synonym ('k, 'v) std_map = "('k \<times> 'v) list"

fun map_find :: "('k, 'v) std_map \<Rightarrow> 'k \<Rightarrow> 'v option" where
  "map_find [] k = None"
| "map_find ((k', v) # m) k = (if k = k' then Some v else map_find m k)"

fun map_set :: "('k::linorder, 'v) std_map \<Rightarrow> 'k \<Rightarrow> 'v \<Rightarrow> ('k, 'v) std_map" where
  "map_set [] k v = [(k, v)]"
| "map_set ((k', v') # m) k v =
     (if k = k' then (k, v) # m
      else if k < k' then (k, v) # (k', v') # m
      else (k', v') # map_set m k v)"

definition map_insert :: "('k::linorder, 'v) std_map \<Rightarrow> 'k \<Rightarrow> 'v \<Rightarrow> ('k, 'v) std_map" where
  "map_insert m k v = (case map_find m k of None \<Rightarrow> map_set m k v | Some _ \<Rightarrow> m)"

text \<open>The list initialiser of a map: entries whose key is already present are dropped.\<close>

definition map_init :: "('k::linorder \<times> 'v) list \<Rightarrow> ('k, 'v) std_map" where
  "map_init es = fold (\<lambda>(k, v) m. map_insert m k v) es []"

definition map_keys :: "('k, 'v) std_map \<Rightarrow> 'k list" where
  "map_keys m = map fst m"

definition map_wf :: "('k::linorder, 'v) std_map \<Rightarrow> bool" where
  "map_wf m \<longleftrightarrow> sorted_wrt (<) (map_keys m)"

section \<open>Laws\<close>

lemma map_find_set [simp]: "map_find (map_set m k v) j = (if j = k then Some v else map_find m j)"
  by (induction m k v rule: map_set.induct) auto

lemma set_map_keys_set [simp]: "set (map_keys (map_set m k v)) = insert k (set (map_keys m))"
  by (induction m k v rule: map_set.induct) (auto simp: map_keys_def)

lemma map_wf_Nil [simp]: "map_wf []"
  by (simp add: map_wf_def map_keys_def)

lemma map_wf_Cons [simp]: "map_wf ((k, v) # m) \<longleftrightarrow> (\<forall>j \<in> set (map_keys m). k < j) \<and> map_wf m"
  by (simp add: map_wf_def map_keys_def)

lemma map_keys_Cons [simp]: "map_keys ((k, v) # m) = k # map_keys m"
  by (simp add: map_keys_def)

lemma map_keys_Nil [simp]: "map_keys [] = []"
  by (simp add: map_keys_def)

lemma map_wf_set [simp]: "map_wf m \<Longrightarrow> map_wf (map_set m k v)"
proof (induction m k v rule: map_set.induct)
  case (2 k' v' m k v)
  then show ?case using less_trans [of k k'] by (cases k k' rule: linorder_cases) auto
qed simp

lemma map_find_None_iff: "map_find m k = None \<longleftrightarrow> k \<notin> set (map_keys m)"
  by (induction m k rule: map_find.induct) auto

lemma map_find_Some_in: "map_find m k = Some v \<Longrightarrow> (k, v) \<in> set m"
  by (induction m k rule: map_find.induct) (auto split: if_splits)

lemma map_in_find: "map_wf m \<Longrightarrow> (k, v) \<in> set m \<Longrightarrow> map_find m k = Some v"
  by (induction m) (force simp: map_keys_def)+

lemma map_wf_insert [simp]: "map_wf m \<Longrightarrow> map_wf (map_insert m k v)"
  by (simp add: map_insert_def split: option.split)

lemma map_find_insert:
  "map_find (map_insert m k v) j = (case map_find m j of Some w \<Rightarrow> Some w | None \<Rightarrow> if j = k then Some v else None)"
  by (auto simp: map_insert_def split: option.splits)

lemma map_eqI:
  assumes "map_wf m" "map_wf n" "\<And>k. map_find m k = map_find n k"
  shows "m = n"
  using assms
proof (induction m arbitrary: n)
  case Nil
  show ?case
  proof (cases n)
    case (Cons e n')
    with Nil.prems(3) [of "fst e"] show ?thesis by (cases e) simp
  qed simp
next
  case (Cons e m)
  obtain k v where e: "e = (k, v)" by fastforce
  show ?case
  proof (cases n)
    case Nil
    with Cons.prems(3) [of k] e show ?thesis by simp
  next
    case n: (Cons e' n')
    obtain k' v' where e': "e' = (k', v')" by fastforce
    have keys: "set (map_keys (e # m)) = set (map_keys n)"
      using Cons.prems(3) map_find_None_iff by (metis subsetI subset_antisym)
    have k: "k = k'"
    proof (rule ccontr)
      assume "k \<noteq> k'"
      then have "k \<in> set (map_keys n')" "k' \<in> set (map_keys m)"
        using keys n e e' by auto
      then have "k' < k" "k < k'" using Cons.prems(1,2) n e e' by auto
      then show False by simp
    qed
    have rest: "map_find m j = map_find n' j" for j
    proof (cases "j = k")
      case True
      then have "j \<notin> set (map_keys m)" "j \<notin> set (map_keys n')"
        using Cons.prems(1,2) n e e' k by auto
      then show ?thesis using map_find_None_iff by metis
    next
      case False
      then show ?thesis using Cons.prems(3) [of j] n e e' k by simp
    qed
    have "m = n'" using Cons.IH [of n'] Cons.prems(1,2) n e e' rest by simp
    moreover have "v = v'" using Cons.prems(3) [of k] n e e' k by simp
    ultimately show ?thesis using n e e' k by simp
  qed
qed

section \<open>The interface\<close>

text \<open>
  What a client of an ordered map relies on: a lookup behind an update, and that the keys come
  out strictly increasing, so that equal contents are equal listings.
\<close>

locale ordered_map =
  fixes lookup :: "'m \<Rightarrow> 'k::linorder \<Rightarrow> 'v option"
    and update :: "'m \<Rightarrow> 'k \<Rightarrow> 'v \<Rightarrow> 'm"
    and keys :: "'m \<Rightarrow> 'k list"
    and empty :: 'm
    and inv :: "'m \<Rightarrow> bool"
  assumes lookup_empty: "lookup empty k = None"
    and lookup_update: "inv m \<Longrightarrow> lookup (update m k v) j = (if j = k then Some v else lookup m j)"
    and inv_empty: "inv empty"
    and inv_update: "inv m \<Longrightarrow> inv (update m k v)"
    and keys_lookup: "inv m \<Longrightarrow> k \<in> set (keys m) \<longleftrightarrow> lookup m k \<noteq> None"
    and keys_sorted: "inv m \<Longrightarrow> sorted_wrt (<) (keys m)"
begin

definition build :: "('k \<times> 'v) list \<Rightarrow> 'm \<Rightarrow> 'm" where
  "build es m = fold (\<lambda>(k, v) m. update m k v) es m"

lemma inv_build: "inv m \<Longrightarrow> inv (build es m)"
  by (induction es arbitrary: m) (auto simp: build_def inv_update)

lemma lookup_build:
  "inv m \<Longrightarrow> lookup (build es m) k = (case map_of (rev es) k of Some v \<Rightarrow> Some v | None \<Rightarrow> lookup m k)"
proof (induction es arbitrary: m)
  case (Cons e es)
  obtain j v where e: "e = (j, v)" by fastforce
  have "lookup (build (e # es) m) k = lookup (build es (update m j v)) k"
    by (simp add: build_def e)
  then show ?case
    using Cons.IH [of "update m j v"] Cons.prems
    by (auto simp: e inv_update lookup_update map_add_def split: option.split)
qed (simp add: build_def)

lemma keys_update: "inv m \<Longrightarrow> set (keys (update m k v)) = insert k (set (keys m))"
  by (auto simp: keys_lookup inv_update lookup_update split: if_splits)

lemma keys_unique:
  assumes "inv m" "inv n" "\<And>k. lookup m k = None \<longleftrightarrow> lookup n k = None"
  shows "keys m = keys n"
proof -
  have "set (keys m) = set (keys n)" using assms by (auto simp: keys_lookup)
  moreover have "sorted_wrt (<) (keys m)" "sorted_wrt (<) (keys n)"
    using assms keys_sorted by auto
  ultimately show ?thesis by (simp add: strict_sorted_equal)
qed

end

interpretation std: ordered_map map_find map_set map_keys "[]" map_wf
proof unfold_locales
  show "sorted_wrt (<) (map_keys m)" if "map_wf m" for m :: "('a::linorder, 'b) std_map"
    using that by (simp add: map_wf_def)
  show "k \<in> set (map_keys m) \<longleftrightarrow> map_find m k \<noteq> None" for m :: "('a::linorder, 'b) std_map" and k
    using map_find_None_iff [of m k] by auto
qed simp_all

end
