(* ===== verification/Http_Text.thy ===== *)
theory Http_Text
  imports Std_Map
begin

text \<open>
  The text functions of the HTTP server (\<open>cpp-httplib/httplib.h\<close>): hexadecimal digits, UTF-8, percent encoding,
  splitting and trimming, query strings, header lines and ranges, and \<open>std::multimap\<close>, which holds parameters
  and headers.
\<close>

section \<open>Multimaps\<close>

text \<open>A list of the entries in the order of an iteration; an entry goes behind those with an equal key.\<close>

fun mm_insert :: "('k \<Rightarrow> 'k \<Rightarrow> bool) \<Rightarrow> 'k \<Rightarrow> 'v \<Rightarrow> ('k \<times> 'v) list \<Rightarrow> ('k \<times> 'v) list" where
  "mm_insert lt k v [] = [(k, v)]"
| "mm_insert lt k v (e # m) = (if lt k (fst e) then (k, v) # e # m else e # mm_insert lt k v m)"

definition mm_equal :: "('k \<Rightarrow> 'k \<Rightarrow> bool) \<Rightarrow> 'k \<Rightarrow> 'k \<Rightarrow> bool" where
  "mm_equal lt a b \<longleftrightarrow> \<not> lt a b \<and> \<not> lt b a"

definition mm_range :: "('k \<Rightarrow> 'k \<Rightarrow> bool) \<Rightarrow> 'k \<Rightarrow> ('k \<times> 'v) list \<Rightarrow> ('k \<times> 'v) list" where
  "mm_range lt k m = filter (\<lambda>e. mm_equal lt k (fst e)) m"

definition mm_erase :: "('k \<Rightarrow> 'k \<Rightarrow> bool) \<Rightarrow> 'k \<Rightarrow> ('k \<times> 'v) list \<Rightarrow> ('k \<times> 'v) list" where
  "mm_erase lt k m = filter (\<lambda>e. \<not> mm_equal lt k (fst e)) m"

type_synonym params = "(string \<times> string) list"

type_synonym headers = "(string \<times> string) list"

text \<open>Headers are ordered without regard to case.\<close>

definition ci :: "string \<Rightarrow> string \<Rightarrow> bool" where
  "ci s1 s2 \<longleftrightarrow> map tolower s1 < map tolower s2"

section \<open>Hexadecimal digits and UTF-8\<close>

definition char_at :: "string \<Rightarrow> nat \<Rightarrow> char" where
  "char_at s i = (if i < length s then s ! i else NUL)"

definition is_hex :: "char \<Rightarrow> nat option" where
  "is_hex c =
     (if isdigit c then Some (char_code c - 48)
      else if 65 \<le> char_code c \<and> char_code c \<le> 70 then Some (char_code c - 55)
      else if 97 \<le> char_code c \<and> char_code c \<le> 102 then Some (char_code c - 87) else None)"

fun hex_loop :: "string \<Rightarrow> nat \<Rightarrow> nat \<Rightarrow> nat \<Rightarrow> nat option" where
  "hex_loop s i 0 val = Some val"
| "hex_loop s i (Suc cnt) val =
     (if char_at s i = NUL then None
      else case is_hex (char_at s i) of None \<Rightarrow> None | Some v \<Rightarrow> hex_loop s (Suc i) cnt (val * 16 + v))"

definition from_hex_to_i :: "string \<Rightarrow> nat \<Rightarrow> nat \<Rightarrow> nat option" where
  "from_hex_to_i s i cnt = (if length s \<le> i then None else hex_loop s i cnt 0)"

definition to_utf8 :: "nat \<Rightarrow> string" where
  "to_utf8 code =
     (if code < 0x80 then [char_of code]
      else if code < 0x800 then [char_of (0xC0 + code div 64 mod 32), char_of (0x80 + code mod 64)]
      else if code < 0xD800
      then [char_of (0xE0 + code div 4096 mod 16), char_of (0x80 + code div 64 mod 64), char_of (0x80 + code mod 64)]
      else if code < 0xE000 then []
      else if code < 0x10000
      then [char_of (0xE0 + code div 4096 mod 16), char_of (0x80 + code div 64 mod 64), char_of (0x80 + code mod 64)]
      else if code < 0x110000
      then [char_of (0xF0 + code div 262144 mod 8), char_of (0x80 + code div 4096 mod 64),
        char_of (0x80 + code div 64 mod 64), char_of (0x80 + code mod 64)]
      else [])"

section \<open>Percent encoding\<close>

definition upper_hex :: "nat \<Rightarrow> char" where
  "upper_hex d = ''0123456789ABCDEF'' ! d"

definition percent_byte :: "char \<Rightarrow> string" where
  "percent_byte c = [CHR ''%'', upper_hex (char_code c div 16), upper_hex (char_code c mod 16)]"

definition isalnum :: "char \<Rightarrow> bool" where
  "isalnum c \<longleftrightarrow> isdigit c \<or> (65 \<le> char_code c \<and> char_code c \<le> 90) \<or> (97 \<le> char_code c \<and> char_code c \<le> 122)"

definition encode_query_param :: "string \<Rightarrow> string" where
  "encode_query_param value =
     concat (map (\<lambda>c. if isalnum c \<or> c \<in> set ''-_.!~*()'' \<or> c = CHR 0x27 then [c] else percent_byte c) value)"

text \<open>The loop ends at the first terminator, and \<open>%\<close> is copied.\<close>

definition encode_url :: "string \<Rightarrow> string" where
  "encode_url s =
     concat (map (\<lambda>c. if c \<in> {CHR '' '', CHR ''+'', CR, LF, CHR 0x27, CHR '','', CHR '';''} \<or> 128 \<le> char_code c
                      then percent_byte c else [c]) (takeWhile (\<lambda>c. c \<noteq> NUL) s))"

fun decode_url :: "bool \<Rightarrow> string \<Rightarrow> string" where
  "decode_url convert_plus_to_space [] = []"
| "decode_url convert_plus_to_space (c # s) =
     (if c = CHR ''%'' \<and> s \<noteq> [] then
        if hd s = CHR ''u'' then
          (case from_hex_to_i s 1 4 of
             Some val \<Rightarrow> to_utf8 val @ decode_url convert_plus_to_space (drop 5 s)
           | None \<Rightarrow> c # decode_url convert_plus_to_space s)
        else
          (case from_hex_to_i s 0 2 of
             Some val \<Rightarrow> char_of val # decode_url convert_plus_to_space (drop 2 s)
           | None \<Rightarrow> c # decode_url convert_plus_to_space s)
      else if convert_plus_to_space \<and> c = CHR ''+'' then CHR '' '' # decode_url convert_plus_to_space s
      else c # decode_url convert_plus_to_space s)"

section \<open>Splitting\<close>

definition is_space_or_tab :: "char \<Rightarrow> bool" where
  "is_space_or_tab c \<longleftrightarrow> c = CHR '' '' \<or> c = CHR 0x09"

function trim_front :: "string \<Rightarrow> nat \<Rightarrow> nat" where
  "trim_front s left = (if left < length s \<and> is_space_or_tab (s ! left) then trim_front s (Suc left) else left)"
  by auto

termination by (relation "measure (\<lambda>(s, left). length s - left)") auto

fun trim_back :: "string \<Rightarrow> nat \<Rightarrow> nat" where
  "trim_back s 0 = 0"
| "trim_back s (Suc right) = (if is_space_or_tab (s ! right) then trim_back s right else Suc right)"

declare trim_front.simps [simp del]

definition trim :: "string \<Rightarrow> nat \<Rightarrow> nat \<Rightarrow> nat \<times> nat" where
  "trim s left right = (trim_front s left, trim_back s right)"

definition trim_copy :: "string \<Rightarrow> string" where
  "trim_copy s = (case trim s 0 (length s) of (l, r) \<Rightarrow> take (r - l) (drop l s))"

text \<open>The calls of the function argument, in order.\<close>

definition split_piece :: "string \<Rightarrow> nat \<Rightarrow> nat \<Rightarrow> string list" where
  "split_piece s beg i = (case trim s beg i of (l, r) \<Rightarrow> if l < r then [take (r - l) (drop l s)] else [])"

function split_from :: "string \<Rightarrow> char \<Rightarrow> nat \<Rightarrow> nat \<Rightarrow> string list" where
  "split_from s d i beg =
     (if i < length s
      then if s ! i = d then split_piece s beg i @ split_from s d (Suc i) (Suc i) else split_from s d (Suc i) beg
      else if i \<noteq> 0 then split_piece s beg i else [])"
  by auto

termination by (relation "measure (\<lambda>(s, d, i, beg). length s - i)") auto

declare split_from.simps [simp del]

definition split :: "string \<Rightarrow> char \<Rightarrow> string list" where
  "split s d = split_from s d 0 0"

section \<open>Query strings\<close>

definition params_to_query_str :: "params \<Rightarrow> string" where
  "params_to_query_str params =
     concat (map (\<lambda>i. (if i \<noteq> 0 then ''&'' else []) @ fst (params ! i) @ ''='' @ encode_query_param (snd (params ! i)))
       [0..<length params])"

text \<open>A pair of one \<open>key=value\<close> text: the first piece is the key, the last of the others the value.\<close>

definition key_value :: "string \<Rightarrow> string \<times> string" where
  "key_value kv =
     (case split kv (CHR ''='') of
        [] \<Rightarrow> ([], [])
      | key # vals \<Rightarrow> (key, if vals = [] then [] else List.last vals))"

fun query_pieces :: "string list \<Rightarrow> string list \<Rightarrow> params \<Rightarrow> params" where
  "query_pieces cache [] params = params"
| "query_pieces cache (kv # pieces) params =
     (if kv \<in> set cache then query_pieces cache pieces params
      else query_pieces (kv # cache) pieces
        (case key_value kv of (key, val) \<Rightarrow>
           if key \<noteq> [] then mm_insert (<) (decode_url True key) (decode_url True val) params else params))"

definition parse_query_text :: "string \<Rightarrow> params \<Rightarrow> params" where
  "parse_query_text s params = query_pieces [] (split s (CHR ''&'')) params"

section \<open>Header lines\<close>

definition parse_header :: "string \<Rightarrow> (string \<times> string) option" where
  "parse_header line =
     (let line = rev (dropWhile is_space_or_tab (rev line));
          key = takeWhile (\<lambda>c. c \<noteq> CHR '':'') line;
          p = drop (length key) line
      in if p = [] then None
         else let val = dropWhile is_space_or_tab (tl p)
              in if val \<noteq> [] then Some (key, decode_url False val) else None)"

definition HEADER_MAX_LENGTH :: nat where "HEADER_MAX_LENGTH = 8192"

definition has_header :: "headers \<Rightarrow> string \<Rightarrow> bool" where
  "has_header headers key \<longleftrightarrow> mm_range ci key headers \<noteq> []"

text \<open>The value as a C string: \<open>def\<close>, or the first entry up to a terminator.\<close>

definition get_header_value :: "headers \<Rightarrow> string \<Rightarrow> string \<Rightarrow> string" where
  "get_header_value headers key def =
     (case mm_range ci key headers of [] \<Rightarrow> def | e # _ \<Rightarrow> takeWhile (\<lambda>c. c \<noteq> NUL) (snd e))"

definition has_crlf :: "string \<Rightarrow> bool" where
  "has_crlf s \<longleftrightarrow> CR \<in> set (takeWhile (\<lambda>c. c \<noteq> NUL) s) \<or> LF \<in> set (takeWhile (\<lambda>c. c \<noteq> NUL) s)"

definition set_header :: "string \<Rightarrow> string \<Rightarrow> headers \<Rightarrow> headers" where
  "set_header key val headers = (if \<not> has_crlf key \<and> \<not> has_crlf val then mm_insert ci key val headers else headers)"

section \<open>Numbers\<close>

text \<open>\<open>strtoull\<close> and \<open>strtoul\<close>: spaces, a sign, digits; too large is the greatest number, a minus sign negates it modulo
  \<open>2 ^ 64\<close>.  \<open>None\<close>: no digits, so the end pointer is the start.\<close>

fun digits_of :: "nat \<Rightarrow> string \<Rightarrow> nat list" where
  "digits_of base [] = []"
| "digits_of base (c # s) =
     (case is_hex c of None \<Rightarrow> [] | Some v \<Rightarrow> if v < base then v # digits_of base s else [])"

definition strtou :: "nat \<Rightarrow> string \<Rightarrow> u64 option" where
  "strtou base s =
     (let s = dropWhile isspace s;
          neg = (s \<noteq> [] \<and> hd s = CHR ''-'');
          s = (if s \<noteq> [] \<and> hd s \<in> set ''+-'' then tl s else s);
          s = (if base = 16 \<and> take 1 s = ''0'' \<and> take 1 (drop 1 s) \<in> {''x'', ''X''} \<and> digits_of base (drop 2 s) \<noteq> [] then drop 2 s else s);
          ds = digits_of base s;
          v = foldl (\<lambda>a d. a * base + d) 0 ds
      in if ds = [] then None
         else if 2 ^ 64 \<le> v then Some (- 1)
         else Some (if neg then - of_nat v else of_nat v))"

end
