(* ===== verification/Http_Multipart.thy ===== *)
theory Http_Multipart
  imports Http_Text
begin

text \<open>
  The parser of multipart forms (\<open>MultipartFormDataParser\<close> in \<open>cpp-httplib/httplib.h\<close>): a state machine that is
  fed with the pieces of a body.  Its two callbacks are arguments with a state of their own; the last section has
  those that the server uses, which collect the files of a request.
\<close>

section \<open>The entry of a form\<close>

record form_data =
  fd_name :: string
  fd_content :: string
  fd_filename :: string
  fd_content_type :: string

definition clear_file_info :: "form_data \<Rightarrow> form_data" where
  "clear_file_info f = f\<lparr>fd_name := [], fd_filename := [], fd_content_type := []\<rparr>"

text \<open>
  The regular expression of the disposition, without regard to case: \<open>Content-Disposition:\s*form-data;\s*name="(.*?)"\<close>,
  an optional \<open>;\s*filename="(.*?)"\<close>, and \<open>\s*\<close> up to the end.
\<close>

definition re_word :: "string \<Rightarrow> string \<Rightarrow> string option" where
  "re_word w s = (if map tolower (take (length w) s) = map tolower w then Some (drop (length w) s) else None)"

definition re_end :: "string \<Rightarrow> unit option" where
  "re_end s = (if list_all isspace s then Some () else None)"

fun re_quoted :: "(string \<Rightarrow> 'a option) \<Rightarrow> string \<Rightarrow> string \<Rightarrow> (string \<times> 'a) option" where
  "re_quoted k text [] = None"
| "re_quoted k text (c # s) =
     (case (if c = CHR 0x22 then k s else None) of
        Some x \<Rightarrow> Some (text, x)
      | None \<Rightarrow> if c = CR \<or> c = LF then None else re_quoted k (text @ [c]) s)"

definition re_filename :: "string \<Rightarrow> string option" where
  "re_filename s =
     (case (case re_word '';'' s of
              None \<Rightarrow> None
            | Some s \<Rightarrow> (case re_word (''filename='' @ [CHR 0x22]) (dropWhile isspace s) of
                          None \<Rightarrow> None | Some s \<Rightarrow> re_quoted re_end [] s)) of
        Some (f, _) \<Rightarrow> Some f
      | None \<Rightarrow> map_option (\<lambda>_. []) (re_end s))"

definition re_content_disposition :: "string \<Rightarrow> (string \<times> string) option" where
  "re_content_disposition s =
     (case re_word ''Content-Disposition:'' s of
        None \<Rightarrow> None
      | Some s \<Rightarrow> (case re_word ''form-data;'' (dropWhile isspace s) of
            None \<Rightarrow> None
          | Some s \<Rightarrow> (case re_word (''name='' @ [CHR 0x22]) (dropWhile isspace s) of
                None \<Rightarrow> None
              | Some s \<Rightarrow> re_quoted re_filename [] s)))"

definition start_with_case_ignore :: "string \<Rightarrow> string \<Rightarrow> bool" where
  "start_with_case_ignore a b \<longleftrightarrow> length b \<le> length a \<and> map tolower (take (length b) a) = map tolower b"

definition entry_header :: "string \<Rightarrow> form_data \<Rightarrow> form_data" where
  "entry_header header f =
     (if start_with_case_ignore header ''content-type:'' then f\<lparr>fd_content_type := trim_copy (drop 13 header)\<rparr>
      else case re_content_disposition header of
             Some (n, fn) \<Rightarrow> f\<lparr>fd_name := n, fd_filename := fn\<rparr>
           | None \<Rightarrow> f)"

section \<open>The parser\<close>

text \<open>The buffer is its content between the two positions.\<close>

record multipart_parser =
  mp_boundary :: string
  mp_state :: nat
  mp_is_valid :: bool
  mp_file :: form_data
  mp_buf :: string

definition new_multipart_parser :: "string \<Rightarrow> multipart_parser" where
  "new_multipart_parser boundary =
     \<lparr>mp_boundary = boundary, mp_state = 0, mp_is_valid = False,
      mp_file = \<lparr>fd_name = [], fd_content = [], fd_filename = [], fd_content_type = []\<rparr>, mp_buf = []\<rparr>"

definition buf_size :: "multipart_parser \<Rightarrow> nat" where
  "buf_size p = length (mp_buf p)"

definition buf_head :: "nat \<Rightarrow> multipart_parser \<Rightarrow> string" where
  "buf_head l p = take l (mp_buf p)"

definition buf_start_with :: "string \<Rightarrow> multipart_parser \<Rightarrow> bool" where
  "buf_start_with s p \<longleftrightarrow> length s \<le> buf_size p \<and> take (length s) (mp_buf p) = s"

text \<open>The offset of the first occurrence, or the size.\<close>

fun find_pos :: "string \<Rightarrow> string \<Rightarrow> nat" where
  "find_pos s [] = 0"
| "find_pos s (c # b) =
     (if c \<noteq> hd s then Suc (find_pos s b)
      else if length (c # b) < length s then length (c # b)
      else if take (length s) (c # b) = s then 0
      else Suc (find_pos s b))"

definition buf_find :: "string \<Rightarrow> multipart_parser \<Rightarrow> nat" where
  "buf_find s p = find_pos s (mp_buf p)"

definition buf_append :: "string \<Rightarrow> multipart_parser \<Rightarrow> multipart_parser" where
  "buf_append bs p = p\<lparr>mp_buf := mp_buf p @ bs\<rparr>"

definition buf_erase :: "nat \<Rightarrow> multipart_parser \<Rightarrow> multipart_parser" where
  "buf_erase n p = p\<lparr>mp_buf := drop n (mp_buf p)\<rparr>"

definition crlf :: string where "crlf = [CR, LF]"

definition dash :: string where "dash = ''--''"

type_synonym 'a content_callback = "string \<Rightarrow> 'a \<Rightarrow> bool \<times> 'a"

type_synonym 'a header_callback = "form_data \<Rightarrow> 'a \<Rightarrow> bool \<times> 'a"

text \<open>The loop over the header lines of an entry; \<open>pos\<close> is the end of the first one.\<close>

function entry_headers ::
    "'a header_callback \<Rightarrow> nat \<Rightarrow> multipart_parser \<Rightarrow> 'a \<Rightarrow> bool \<times> multipart_parser \<times> 'a" where
  "entry_headers header_callback pos p a =
     (if pos < buf_size p then
        if pos = 0 then
          (case header_callback (mp_file p) a of (ok, a) \<Rightarrow>
             if \<not> ok then (False, p\<lparr>mp_is_valid := False\<rparr>, a)
             else (True, (buf_erase (length crlf) p)\<lparr>mp_state := 3\<rparr>, a))
        else
          let p = p\<lparr>mp_file := entry_header (buf_head pos p) (mp_file p)\<rparr>;
              p = buf_erase (pos + length crlf) p
          in entry_headers header_callback (buf_find crlf p) p a
      else (True, p, a))"
  by auto

termination
  by (relation "measure (\<lambda>(cb, pos, p, a). buf_size p)") (auto simp: buf_size_def buf_erase_def)

declare entry_headers.simps [simp del]

text \<open>One turn of the loop: the result of the function, or \<open>None\<close> to go on.\<close>

definition parse_turn ::
    "'a content_callback \<Rightarrow> 'a header_callback \<Rightarrow> multipart_parser \<Rightarrow> 'a \<Rightarrow> bool option \<times> multipart_parser \<times> 'a" where
  "parse_turn content_callback header_callback p a =
     (if mp_state p = 0 then
        let pattern = dash @ mp_boundary p @ crlf
        in if buf_size p < length pattern then (Some True, p, a)
           else if \<not> buf_start_with pattern p then (Some False, p, a)
           else (None, (buf_erase (length pattern) p)\<lparr>mp_state := 1\<rparr>, a)
      else if mp_state p = 1 then (None, p\<lparr>mp_file := clear_file_info (mp_file p), mp_state := 2\<rparr>, a)
      else if mp_state p = 2 then
        let pos = buf_find crlf p
        in if HEADER_MAX_LENGTH < pos then (Some False, p, a)
           else (case entry_headers header_callback pos p a of (ok, p, a) \<Rightarrow>
                   (if \<not> ok then Some False else if mp_state p \<noteq> 3 then Some True else None, p, a))
      else if mp_state p = 3 then
        if buf_size p < length (crlf @ dash) then (Some True, p, a)
        else let pos = buf_find (crlf @ dash) p
             in (case content_callback (buf_head pos p) a of (ok, a) \<Rightarrow>
                   if \<not> ok then (Some False, p\<lparr>mp_is_valid := False\<rparr>, a)
                   else let p = buf_erase pos p; pattern = crlf @ dash @ mp_boundary p
                        in if buf_size p < length pattern then (Some True, p, a)
                           else let pos = buf_find pattern p; found = (pos < buf_size p)
                                in (case content_callback (buf_head (if found then pos else length pattern) p) a of (ok, a) \<Rightarrow>
                                      if \<not> ok then (Some False, p\<lparr>mp_is_valid := False\<rparr>, a)
                                      else if found then (None, (buf_erase (pos + length pattern) p)\<lparr>mp_state := 4\<rparr>, a)
                                      else (None, buf_erase (length pattern) p, a)))
      else if mp_state p = 4 then
        if buf_size p < length crlf then (Some True, p, a)
        else if buf_start_with crlf p then (None, (buf_erase (length crlf) p)\<lparr>mp_state := 1\<rparr>, a)
        else if buf_size p < length (dash @ crlf) then (Some True, p, a)
        else if buf_start_with (dash @ crlf) p
        then (None, (buf_erase (length (dash @ crlf)) p)\<lparr>mp_is_valid := True, mp_state := 5\<rparr>, a)
        else (Some True, p, a)
      else (Some False, p\<lparr>mp_is_valid := False\<rparr>, a))"


lemma entry_headers_smaller:
  "entry_headers hc pos p a = (ok, p', a') \<Longrightarrow> buf_size p' \<le> buf_size p \<and>
    (mp_state p \<noteq> 3 \<and> mp_state p' = 3 \<longrightarrow> buf_size p' < buf_size p)"
proof (induction hc pos p a rule: entry_headers.induct)
  case (1 hc pos p a)
  let ?q = "buf_erase (pos + length crlf) (p\<lparr>mp_file := entry_header (buf_head pos p) (mp_file p)\<rparr>)"
  consider "\<not> pos < buf_size p" | "pos < buf_size p" "pos = 0" | "pos < buf_size p" "pos \<noteq> 0" by blast
  then show ?case
  proof cases
    case 3
    then have "entry_headers hc (buf_find crlf ?q) ?q a = (ok, p', a')"
      using "1.prems" by (subst (asm) entry_headers.simps) (simp add: Let_def)
    from "1.IH" [OF 3 refl refl this]
    have "buf_size p' \<le> buf_size ?q" by blast
    moreover have "buf_size ?q < buf_size p" using 3 by (simp add: buf_size_def buf_erase_def)
    ultimately show ?thesis by simp
  next
    case 2
    then show ?thesis using "1.prems" by (subst (asm) entry_headers.simps)
        (auto simp: buf_size_def buf_erase_def crlf_def split: prod.splits if_splits)
  next
    case 1
    then show ?thesis using "1.prems" by (subst (asm) entry_headers.simps) auto
  qed
qed

definition turn_measure :: "multipart_parser \<Rightarrow> nat" where
  "turn_measure p = 2 * buf_size p + (if mp_state p = 1 then 1 else 0)"

lemma parse_turn_smaller:
  assumes "parse_turn cc hc p a = (None, p', a')" "0 < buf_size p"
  shows "turn_measure p' < turn_measure p"
proof -
  consider "mp_state p = 0" | "mp_state p = 1" | "mp_state p = 2" | "mp_state p = 3" | "mp_state p = 4"
    | "mp_state p > 4" by linarith
  then show ?thesis
  proof cases
    case 3
    obtain ok q b where e: "entry_headers hc (buf_find crlf p) p a = (ok, q, b)" by (rule prod_cases3)
    with assms 3 have "mp_state q = 3" "p' = q" by (auto simp: parse_turn_def Let_def split: if_splits)
    then have "buf_size q < buf_size p" using entry_headers_smaller [OF e] 3 by simp
    then show ?thesis using \<open>p' = q\<close> 3 \<open>mp_state q = 3\<close> by (simp add: turn_measure_def)
  next
    case 4
    then show ?thesis using assms
      by (auto simp: parse_turn_def Let_def turn_measure_def buf_size_def buf_erase_def crlf_def dash_def
          split: if_splits prod.splits)
  qed (use assms in \<open>auto simp: parse_turn_def Let_def turn_measure_def buf_size_def buf_erase_def crlf_def
      dash_def split: if_splits\<close>)
qed

function parse_loop ::
    "'a content_callback \<Rightarrow> 'a header_callback \<Rightarrow> multipart_parser \<Rightarrow> 'a \<Rightarrow> bool \<times> multipart_parser \<times> 'a" where
  "parse_loop content_callback header_callback p a =
     (if 0 < buf_size p
      then case parse_turn content_callback header_callback p a of
             (Some r, p, a) \<Rightarrow> (r, p, a)
           | (None, p, a) \<Rightarrow> parse_loop content_callback header_callback p a
      else (True, p, a))"
  by auto

termination
proof (relation "measure (\<lambda>(cc, hc, p, a). turn_measure p)", goal_cases)
  case (2 cc hc p a x pair p' a')
  then have "parse_turn cc hc p a = (None, p', a')" "0 < buf_size p" by simp_all
  from parse_turn_smaller [OF this] 2 show ?case by auto
qed simp

declare parse_loop.simps [simp del]

definition mp_parse ::
    "'a content_callback \<Rightarrow> 'a header_callback \<Rightarrow> string \<Rightarrow> multipart_parser \<Rightarrow> 'a \<Rightarrow> bool \<times> multipart_parser \<times> 'a" where
  "mp_parse content_callback header_callback bs p a =
     parse_loop content_callback header_callback (buf_append bs p) a"

section \<open>The files of a request\<close>

text \<open>The multimap by name, and the place of the entry that the content belongs to.\<close>

type_synonym form_files = "(string \<times> form_data) list \<times> nat"

definition add_file :: "form_files header_callback" where
  "add_file f a = (case a of (files, cur) \<Rightarrow>
     (True, mm_insert (<) (fd_name f) f files, length (takeWhile (\<lambda>e. \<not> fd_name f < fst e) files)))"

definition add_content :: "form_files content_callback" where
  "add_content bs a = (case a of (files, cur) \<Rightarrow>
     (True, files[cur := (case files ! cur of (k, f) \<Rightarrow> (k, f\<lparr>fd_content := fd_content f @ bs\<rparr>))], cur))"

definition form_parse :: "string \<Rightarrow> multipart_parser \<times> form_files \<Rightarrow> bool \<times> multipart_parser \<times> form_files" where
  "form_parse bs s = (case s of (p, a) \<Rightarrow> mp_parse add_content add_file bs p a)"

end
