(* ===== verification/Sha256.thy ===== *)
theory Sha256
  imports Prelude
begin

text \<open>
  The payload hash of the gateway, \<open>SHARED/hash-library/sha256.cpp\<close>: the streaming SHA-256
  with its 64 byte buffer.  The object is a record, each loop of \<open>add\<close> and of \<open>processBuffer\<close> a
  function, and the uninitialised second block of \<open>processBuffer\<close> an argument.
\<close>

section \<open>The block function\<close>

definition rotate32 :: "u32 \<Rightarrow> nat \<Rightarrow> u32" where
  "rotate32 a c = drop_bit c a OR push_bit (32 - c) a"

definition swap32 :: "u32 \<Rightarrow> u32" where
  "swap32 x =
     (drop_bit 24 x OR (drop_bit 8 x AND 0x0000FF00)) OR (push_bit 8 x AND 0x00FF0000) OR push_bit 24 x"

definition f1 :: "u32 \<Rightarrow> u32 \<Rightarrow> u32 \<Rightarrow> u32" where
  "f1 e f g =
     (let term1 = rotate32 e 6 XOR rotate32 e 11 XOR rotate32 e 25;
          term2 = (e AND f) XOR (NOT e AND g)
      in term1 + term2)"

definition f2 :: "u32 \<Rightarrow> u32 \<Rightarrow> u32 \<Rightarrow> u32" where
  "f2 a b c =
     (let term1 = rotate32 a 2 XOR rotate32 a 13 XOR rotate32 a 22;
          term2 = ((a OR b) AND c) OR (a AND b)
      in term1 + term2)"

type_synonym regs = "u32 \<times> u32 \<times> u32 \<times> u32 \<times> u32 \<times> u32 \<times> u32 \<times> u32"

text \<open>A 32 bit load on a little-endian machine.\<close>

definition load32 :: "u8 list \<Rightarrow> nat \<Rightarrow> u32" where
  "load32 p i =
     ucast (p ! (4 * i)) OR push_bit 8 (ucast (p ! (4 * i + 1))) OR
     push_bit 16 (ucast (p ! (4 * i + 2))) OR push_bit 24 (ucast (p ! (4 * i + 3)))"

text \<open>The constant each of the 64 rounds adds.\<close>

definition round_constants :: "u32 list" where
  "round_constants =
    [0x428A2F98, 0x71374491, 0xB5C0FBCF, 0xE9B5DBA5, 0x3956C25B, 0x59F111F1, 0x923F82A4, 0xAB1C5ED5,
     0xD807AA98, 0x12835B01, 0x243185BE, 0x550C7DC3, 0x72BE5D74, 0x80DEB1FE, 0x9BDC06A7, 0xC19BF174,
     0xE49B69C1, 0xEFBE4786, 0x0FC19DC6, 0x240CA1CC, 0x2DE92C6F, 0x4A7484AA, 0x5CB0A9DC, 0x76F988DA,
     0x983E5152, 0xA831C66D, 0xB00327C8, 0xBF597FC7, 0xC6E00BF3, 0xD5A79147, 0x06CA6351, 0x14292967,
     0x27B70A85, 0x2E1B2138, 0x4D2C6DFC, 0x53380D13, 0x650A7354, 0x766A0ABB, 0x81C2C92E, 0x92722C85,
     0xA2BFE8A1, 0xA81A664B, 0xC24B8B70, 0xC76C51A3, 0xD192E819, 0xD6990624, 0xF40E3585, 0x106AA070,
     0x19A4C116, 0x1E376C08, 0x2748774C, 0x34B0BCB5, 0x391C0CB3, 0x4ED8AA4A, 0x5B9CCA4F, 0x682E6FF3,
     0x748F82EE, 0x78A5636F, 0x84C87814, 0x8CC70208, 0x90BEFFFA, 0xA4506CEB, 0xBEF9A3F7, 0xC67178F2]"

text \<open>
  The next word of the message schedule, \<open>words[i]\<close> from the words before it, and one round.
  The source unrolls eight rounds at a time and renames the registers instead of moving them.
\<close>

definition next_word :: "u32 list \<Rightarrow> u32" where
  "next_word words =
     (let i = length words
      in words ! (i - 16) +
         (rotate32 (words ! (i - 15)) 7 XOR rotate32 (words ! (i - 15)) 18 XOR drop_bit 3 (words ! (i - 15))) +
         words ! (i - 7) +
         (rotate32 (words ! (i - 2)) 17 XOR rotate32 (words ! (i - 2)) 19 XOR drop_bit 10 (words ! (i - 2))))"

primrec extend_words :: "nat \<Rightarrow> u32 list \<Rightarrow> u32 list" where
  "extend_words 0 words = words"
| "extend_words (Suc n) words = extend_words n (words @ [next_word words])"

fun sha_round :: "u32 \<Rightarrow> u32 \<Rightarrow> regs \<Rightarrow> regs" where
  "sha_round k w (a, b, c, d, e, f, g, h) =
     (let x = h + f1 e f g + k + w;
          y = f2 a b c
      in (x + y, a, b, c, d + x, e, f, g))"

fun sha_rounds :: "u32 list \<Rightarrow> u32 list \<Rightarrow> regs \<Rightarrow> regs" where
  "sha_rounds (k # ks) (w # ws) r = sha_rounds ks ws (sha_round k w r)"
| "sha_rounds _ _ r = r"

fun add_regs :: "regs \<Rightarrow> regs \<Rightarrow> regs" where
  "add_regs (a, b, c, d, e, f, g, h) (a', b', c', d', e', f', g', h') =
     (a + a', b + b', c + c', d + d', e + e', f + f', g + g', h + h')"

definition process_block :: "u8 list \<Rightarrow> regs \<Rightarrow> regs" where
  "process_block block hash =
     (let words = extend_words 48 (map (\<lambda>i. swap32 (load32 block i)) [0..<16])
      in add_regs hash (sha_rounds round_constants words hash))"

section \<open>The object\<close>

record sha256_state =
  m_numBytes :: u64
  m_bufferSize :: nat
  m_buffer :: "u8 list"
  m_hash :: regs

definition BlockSize :: nat where
  "BlockSize = 64"

definition initial_hash :: regs where
  "initial_hash =
     (0x6A09E667, 0xBB67AE85, 0x3C6EF372, 0xA54FF53A, 0x510E527F, 0x9B05688C, 0x1F83D9AB, 0x5BE0CD19)"

definition sha_reset :: "sha256_state \<Rightarrow> sha256_state" where
  "sha_reset s = s\<lparr>m_numBytes := 0, m_bufferSize := 0, m_hash := initial_hash\<rparr>"

text \<open>\<open>m_buffer[m_bufferSize++] = *current++\<close>\<close>

definition push_byte :: "u8 \<Rightarrow> sha256_state \<Rightarrow> sha256_state" where
  "push_byte b s = s\<lparr>m_buffer := (m_buffer s)[m_bufferSize s := b], m_bufferSize := Suc (m_bufferSize s)\<rparr>"

fun fill_buffer :: "sha256_state \<Rightarrow> u8 list \<Rightarrow> sha256_state \<times> u8 list" where
  "fill_buffer s [] = (s, [])"
| "fill_buffer s (b # bs) =
     (if m_bufferSize s < BlockSize then fill_buffer (push_byte b s) bs else (s, b # bs))"

definition flush_full :: "sha256_state \<Rightarrow> sha256_state" where
  "flush_full s =
     (if m_bufferSize s = BlockSize
      then s\<lparr>m_hash := process_block (m_buffer s) (m_hash s), m_numBytes := m_numBytes s + 64, m_bufferSize := 0\<rparr>
      else s)"

function full_blocks :: "sha256_state \<Rightarrow> u8 list \<Rightarrow> sha256_state \<times> u8 list" where
  "full_blocks s bs =
     (if BlockSize \<le> length bs
      then full_blocks (s\<lparr>m_hash := process_block (take BlockSize bs) (m_hash s), m_numBytes := m_numBytes s + 64\<rparr>)
             (drop BlockSize bs)
      else (s, bs))"
  by pat_completeness auto

termination full_blocks
  by (relation "measure (\<lambda>(s, bs). length bs)") (auto simp: BlockSize_def)

declare full_blocks.simps [simp del]

definition sha_add :: "u8 list \<Rightarrow> sha256_state \<Rightarrow> sha256_state" where
  "sha_add bs s =
     (let (s, bs) = (if 0 < m_bufferSize s then fill_buffer s bs else (s, bs));
          s = flush_full s
      in if bs = [] then s
         else let (s, bs) = full_blocks s bs in fold push_byte bs s)"

definition padded_length :: "nat \<Rightarrow> nat" where
  "padded_length sz =
     (let paddedLength = sz * 8 + 1;
          lower11Bits = paddedLength mod 512;
          paddedLength = (if lower11Bits \<le> 448 then paddedLength + (448 - lower11Bits)
                          else paddedLength + (512 + 448 - lower11Bits))
      in paddedLength div 8)"

fun store_at :: "nat \<Rightarrow> u8 list \<Rightarrow> u8 list \<Rightarrow> u8 list" where
  "store_at i [] p = p"
| "store_at i (b # bs) p = store_at (Suc i) bs (p[i := b])"

definition msg_length_bytes :: "u64 \<Rightarrow> u8 list" where
  "msg_length_bytes msgBits =
     map (\<lambda>k. ucast (drop_bit k msgBits AND 0xFF)) [56, 48, 40, 32, 24, 16, 8, 0]"

text \<open>The local \<open>extra\<close> of \<open>processBuffer\<close> is not initialised; \<open>extra\<close> holds its bytes.\<close>

definition process_buffer :: "u8 list \<Rightarrow> sha256_state \<Rightarrow> sha256_state" where
  "process_buffer extra s =
     (let sz = m_bufferSize s;
          paddedLength = padded_length sz;
          buffer = (if sz < BlockSize then (m_buffer s)[sz := 128] else m_buffer s);
          extra = (if sz < BlockSize then extra else extra[0 := 128]);
          buffer = store_at (sz + 1) (replicate (BlockSize - (sz + 1)) 0) buffer;
          from = max (sz + 1) BlockSize;
          extra = store_at (from - BlockSize) (replicate (paddedLength - from) 0) extra;
          msgBits = 8 * (m_numBytes s + of_nat sz);
          buffer = (if paddedLength < BlockSize then store_at paddedLength (msg_length_bytes msgBits) buffer else buffer);
          extra = (if paddedLength < BlockSize then extra
                   else store_at (paddedLength - BlockSize) (msg_length_bytes msgBits) extra);
          hash = process_block buffer (m_hash s);
          hash = (if BlockSize < paddedLength then process_block extra hash else hash)
      in s\<lparr>m_buffer := buffer, m_hash := hash\<rparr>)"

definition be_bytes :: "u32 \<Rightarrow> u8 list" where
  "be_bytes w = map (\<lambda>k. ucast (drop_bit k w AND 0xFF)) [24, 16, 8, 0]"

fun reg_bytes :: "regs \<Rightarrow> u8 list" where
  "reg_bytes (a, b, c, d, e, f, g, h) = concat (map be_bytes [a, b, c, d, e, f, g, h])"

text \<open>\<open>getHash\<close> puts the padding into the buffer but restores the hash.\<close>

definition get_hash_raw :: "u8 list \<Rightarrow> sha256_state \<Rightarrow> u8 list \<times> sha256_state" where
  "get_hash_raw extra s =
     (let s' = process_buffer extra s in (reg_bytes (m_hash s'), s'\<lparr>m_hash := m_hash s\<rparr>))"

definition hex_pair :: "u8 \<Rightarrow> string" where
  "hex_pair b = [''0123456789abcdef'' ! unat (drop_bit 4 b AND 15), ''0123456789abcdef'' ! unat (b AND 15)]"

definition get_hash :: "u8 list \<Rightarrow> sha256_state \<Rightarrow> string \<times> sha256_state" where
  "get_hash extra s = (case get_hash_raw extra s of (raw, s) \<Rightarrow> (concat (map hex_pair raw), s))"

definition sha256_call :: "u8 list \<Rightarrow> u8 list \<Rightarrow> sha256_state \<Rightarrow> string \<times> sha256_state" where
  "sha256_call extra bs s = get_hash extra (sha_add bs (sha_reset s))"

end
