(* ===== verification/Sha256_Props.thy ===== *)
theory Sha256_Props
  imports Sha256
begin

text \<open>
  The streaming hash against the specification of SHA-256 in FIPS 180-4: the block function is
  written out again with the functions Ch, Maj and the four sigmas and with the recursive message
  schedule, the message is padded as a whole and cut into blocks.  However a message is cut into
  calls of \<open>add\<close>, \<open>getHash\<close> returns the digest of that specification.
\<close>

section \<open>The specification\<close>

definition Ch :: "u32 \<Rightarrow> u32 \<Rightarrow> u32 \<Rightarrow> u32" where
  "Ch x y z = (x AND y) XOR (NOT x AND z)"

definition Maj :: "u32 \<Rightarrow> u32 \<Rightarrow> u32 \<Rightarrow> u32" where
  "Maj x y z = (x AND y) XOR (x AND z) XOR (y AND z)"

definition Sigma0 :: "u32 \<Rightarrow> u32" where
  "Sigma0 x = word_rotr 2 x XOR word_rotr 13 x XOR word_rotr 22 x"

definition Sigma1 :: "u32 \<Rightarrow> u32" where
  "Sigma1 x = word_rotr 6 x XOR word_rotr 11 x XOR word_rotr 25 x"

definition sigma0 :: "u32 \<Rightarrow> u32" where
  "sigma0 x = word_rotr 7 x XOR word_rotr 18 x XOR drop_bit 3 x"

definition sigma1 :: "u32 \<Rightarrow> u32" where
  "sigma1 x = word_rotr 17 x XOR word_rotr 19 x XOR drop_bit 10 x"

fun schedule :: "u32 list \<Rightarrow> nat \<Rightarrow> u32" where
  "schedule m t =
     (if t < 16 then m ! t
      else sigma1 (schedule m (t - 2)) + schedule m (t - 7) + sigma0 (schedule m (t - 15)) + schedule m (t - 16))"

declare schedule.simps [simp del]

definition be_word :: "u8 list \<Rightarrow> nat \<Rightarrow> u32" where
  "be_word p i =
     push_bit 24 (ucast (p ! (4 * i))) OR push_bit 16 (ucast (p ! (4 * i + 1))) OR
     push_bit 8 (ucast (p ! (4 * i + 2))) OR ucast (p ! (4 * i + 3))"

fun fips_round :: "u32 \<Rightarrow> u32 \<Rightarrow> regs \<Rightarrow> regs" where
  "fips_round k w (a, b, c, d, e, f, g, h) =
     (let T1 = h + Sigma1 e + Ch e f g + k + w;
          T2 = Sigma0 a + Maj a b c
      in (T1 + T2, a, b, c, d + T1, e, f, g))"

definition fips_block :: "u8 list \<Rightarrow> regs \<Rightarrow> regs" where
  "fips_block block hash =
     (let m = map (be_word block) [0..<16]
      in add_regs hash (fold (\<lambda>t. fips_round (round_constants ! t) (schedule m t)) [0..<64] hash))"

function blocks64 :: "u8 list \<Rightarrow> u8 list list" where
  "blocks64 xs = (if xs = [] then [] else take 64 xs # blocks64 (drop 64 xs))"
  by pat_completeness auto

termination blocks64
  by (relation "measure length") auto

declare blocks64.simps [simp del]

definition be64 :: "nat \<Rightarrow> u8 list" where
  "be64 n = map (\<lambda>k. of_nat (n div 256 ^ k)) [7, 6, 5, 4, 3, 2, 1, 0]"

definition fips_pad :: "u8 list \<Rightarrow> u8 list" where
  "fips_pad msg = msg @ 0x80 # replicate ((119 - length msg mod 64) mod 64) 0 @ be64 (8 * length msg)"

definition fips_sha256 :: "u8 list \<Rightarrow> u8 list" where
  "fips_sha256 msg = reg_bytes (fold fips_block (blocks64 (fips_pad msg)) initial_hash)"

section \<open>The block function\<close>

lemma rotate32_rotr: "0 < n \<Longrightarrow> n < 32 \<Longrightarrow> rotate32 x n = word_rotr n x"
proof (rule word_eq_by_bits)
  fix i assume n: "0 < n" "n < 32" and i: "i < LENGTH(32)"
  show "bit (rotate32 x n) i \<longleftrightarrow> bit (word_rotr n x) i"
  proof (cases "i + n < 32")
    case True
    then show ?thesis using n i by (auto simp: rotate32_def bit_simps add.commute)
  next
    case False
    then have "(i + n) mod 32 = i + n - 32" using n i by (simp add: mod_if)
    moreover have "32 - n \<le> i" using False by simp
    moreover have "\<not> bit x (n + i)" using False by (auto dest: bit_imp_le_length)
    ultimately show ?thesis using False n i by (simp add: rotate32_def bit_simps add.commute)
  qed
qed

lemma f1_fips: "f1 e f g = Sigma1 e + Ch e f g"
  by (simp add: f1_def Sigma1_def Ch_def rotate32_rotr)

lemma f2_fips: "f2 a b c = Sigma0 a + Maj a b c"
proof -
  have "((a OR b) AND c) OR (a AND b) = Maj a b c"
    by (rule word_eq_by_bits) (auto simp: Maj_def bit_simps)
  then show ?thesis by (simp add: f2_def Sigma0_def rotate32_rotr)
qed

lemma sha_round_fips: "sha_round k w r = fips_round k w r"
proof -
  obtain a b c d e f g h where "r = (a, b, c, d, e, f, g, h)" by (metis surj_pair)
  then show ?thesis by (simp add: f1_fips f2_fips Let_def algebra_simps)
qed

lemma swap_masks: "(0x0000FF00 :: u32) = push_bit 8 (mask 8)" "(0x00FF0000 :: u32) = push_bit 16 (mask 8)"
  by (simp_all add: mask_eq_exp_minus_1 push_bit_eq_mult)

lemma byte_bit_out: "8 \<le> k \<Longrightarrow> \<not> bit (b :: u8) k"
  by (auto dest: bit_imp_le_length)

lemma swap_bytes:
  fixes b0 b1 b2 b3 :: u8
  shows "swap32 (ucast b0 OR push_bit 8 (ucast b1) OR push_bit 16 (ucast b2) OR push_bit 24 (ucast b3)) =
         push_bit 24 (ucast b0) OR push_bit 16 (ucast b1) OR push_bit 8 (ucast b2) OR ucast b3"
proof (rule word_eq_by_bits)
  fix i :: nat assume "i < LENGTH(32)"
  then consider "i < 8" | "8 \<le> i" "i < 16" | "16 \<le> i" "i < 24" | "24 \<le> i" "i < 32" by fastforce
  then show "bit (swap32 (ucast b0 OR push_bit 8 (ucast b1) OR push_bit 16 (ucast b2) OR push_bit 24 (ucast b3))) i =
      bit (push_bit 24 (ucast b0) OR push_bit 16 (ucast b1) OR push_bit 8 (ucast b2) OR ucast b3 :: u32) i"
    unfolding swap32_def swap_masks
    by cases (auto simp: bit_simps byte_bit_out)
qed

lemma swap_load: "swap32 (load32 p i) = be_word p i"
  unfolding load32_def be_word_def by (rule swap_bytes)

lemma next_word_schedule:
  assumes "16 \<le> length ws" "ws = map (schedule m) [0..<length ws]"
  shows "next_word ws = schedule m (length ws)"
proof -
  have nth: "ws ! j = schedule m j" if "j < length ws" for j
    by (subst assms(2)) (use that in simp)
  show ?thesis
    using assms(1)
    by (subst schedule.simps)
      (simp add: next_word_def Let_def nth rotate32_rotr sigma0_def sigma1_def algebra_simps)
qed

lemma extend_words_schedule:
  assumes "16 \<le> length ws" "ws = map (schedule m) [0..<length ws]"
  shows "extend_words n ws = map (schedule m) [0..<length ws + n]"
  using assms
proof (induction n arbitrary: ws)
  case (Suc n)
  have "ws @ [next_word ws] = map (schedule m) [0..<length (ws @ [next_word ws])]"
    using next_word_schedule [OF Suc.prems] Suc.prems(2) by simp
  then show ?case using Suc.IH [of "ws @ [next_word ws]"] Suc.prems(1) by simp
qed simp

lemma sha_rounds_fold:
  "length ks = n \<Longrightarrow> length ws = n \<Longrightarrow>
     sha_rounds ks ws r = fold (\<lambda>t. fips_round (ks ! t) (ws ! t)) [0..<n] r"
proof (induction ks arbitrary: ws n r)
  case (Cons k ks)
  obtain w ws' m where w: "ws = w # ws'" "n = Suc m" using Cons.prems by (cases ws; cases n) auto
  have "fold (\<lambda>t. fips_round ((k # ks) ! t) (ws ! t)) [0..<n] r =
      fold (\<lambda>t. fips_round (ks ! t) (ws' ! t)) [0..<m] (fips_round k w r)"
    unfolding w upt_conv_Cons [OF zero_less_Suc] map_Suc_upt [symmetric]
    by (simp add: fold_map comp_def)
  then show ?case using Cons by (simp add: w sha_round_fips)
qed simp

lemma process_block_fips: "process_block block hash = fips_block block hash"
proof -
  define m where "m = map (be_word block) [0..<16]"
  have "m = map (schedule m) [0..<length m]"
    by (rule nth_equalityI) (simp_all add: m_def schedule.simps)
  then have ext: "extend_words 48 m = map (schedule m) [0..<64]"
    using extend_words_schedule [of m m 48] by (simp add: m_def)
  have "sha_rounds round_constants (extend_words 48 m) hash =
      fold (\<lambda>t. fips_round (round_constants ! t) (map (schedule m) [0..<64] ! t)) [0..<64] hash"
    unfolding ext by (rule sha_rounds_fold) (simp_all add: round_constants_def)
  also have "\<dots> = fold (\<lambda>t. fips_round (round_constants ! t) (schedule m t)) [0..<64] hash"
    by (rule fold_cong) simp_all
  finally show ?thesis
    by (simp add: process_block_def fips_block_def swap_load Let_def m_def del: upt.simps cong: map_cong)
qed

section \<open>Absorbing the message\<close>

text \<open>
  What the object has taken in: whole blocks, already hashed, and the tail waiting in the buffer.
\<close>

definition absorbed :: "sha256_state \<Rightarrow> u8 list list \<Rightarrow> u8 list \<Rightarrow> bool" where
  "absorbed s blks tail \<longleftrightarrow>
     m_hash s = fold process_block blks initial_hash \<and> list_all (\<lambda>b. length b = 64) blks \<and>
     m_numBytes s = of_nat (64 * length blks) \<and> m_bufferSize s = length tail \<and>
     length (m_buffer s) = 64 \<and> length tail \<le> 64 \<and> take (length tail) (m_buffer s) = tail"

lemma absorbed_reset: "length (m_buffer s) = 64 \<Longrightarrow> absorbed (sha_reset s) [] []"
  by (simp add: absorbed_def sha_reset_def)

lemma absorbed_push:
  assumes "absorbed s blks tail" "length tail < 64"
  shows "absorbed (push_byte b s) blks (tail @ [b])"
proof -
  have "take (Suc (length tail)) ((m_buffer s)[length tail := b]) = tail @ [b]"
    using assms by (simp add: absorbed_def take_Suc_conv_app_nth)
  then show ?thesis using assms by (simp add: absorbed_def push_byte_def)
qed

lemma absorbed_pushes:
  "absorbed s blks tail \<Longrightarrow> length tail + length bs \<le> 64 \<Longrightarrow> absorbed (fold push_byte bs s) blks (tail @ bs)"
proof (induction bs arbitrary: s tail)
  case (Cons b bs)
  then show ?case using Cons.IH [of "push_byte b s" "tail @ [b]"] by (simp add: absorbed_push)
qed simp

lemma fill_buffer_fold:
  "absorbed s blks tail \<Longrightarrow>
     fill_buffer s bs = (fold push_byte (take (64 - length tail) bs) s, drop (64 - length tail) bs)"
proof (induction bs arbitrary: s tail)
  case (Cons b bs)
  show ?case
  proof (cases "length tail < 64")
    case True
    then have "64 - length tail = Suc (64 - length (tail @ [b]))" by simp
    then show ?thesis
      using True Cons.IH [OF absorbed_push [OF Cons.prems True, of b]] Cons.prems
      by (simp add: absorbed_def BlockSize_def)
  next
    case False
    then show ?thesis using Cons.prems by (simp add: absorbed_def BlockSize_def)
  qed
qed simp

lemma absorbed_flush:
  "absorbed s blks tail \<Longrightarrow> length tail = 64 \<Longrightarrow> absorbed (flush_full s) (blks @ [tail]) []"
  by (auto simp: absorbed_def flush_full_def BlockSize_def algebra_simps)

lemma flush_full_id: "m_bufferSize s \<noteq> 64 \<Longrightarrow> flush_full s = s"
  by (simp add: flush_full_def BlockSize_def)

lemma absorbed_full_blocks:
  assumes "absorbed s blks []"
  obtains new rest s' where "full_blocks s bs = (s', rest)" "absorbed s' (blks @ new) []"
    "concat new @ rest = bs" "length rest < 64"
  using assms
proof (induction s bs arbitrary: blks thesis rule: full_blocks.induct)
  case (1 s bs)
  show ?case
  proof (cases "64 \<le> length bs")
    case True
    let ?s = "s\<lparr>m_hash := process_block (take 64 bs) (m_hash s), m_numBytes := m_numBytes s + 64\<rparr>"
    have "absorbed ?s (blks @ [take 64 bs]) []"
      using "1.prems"(2) True by (simp add: absorbed_def algebra_simps)
    then obtain new rest s' where new: "full_blocks ?s (drop 64 bs) = (s', rest)"
      "absorbed s' ((blks @ [take 64 bs]) @ new) []" "concat new @ rest = drop 64 bs" "length rest < 64"
      using "1.IH" [unfolded BlockSize_def, OF True] by blast
    show ?thesis
      by (rule "1.prems"(1) [of s' rest "take 64 bs # new"])
        (use new True in \<open>simp_all add: full_blocks.simps [of s bs] BlockSize_def\<close>)
  next
    case False
    show ?thesis
      by (rule "1.prems"(1) [of s bs "[]"])
        (use False "1.prems"(2) in \<open>simp_all add: full_blocks.simps [of s bs] BlockSize_def\<close>)
  qed
qed

lemma absorbed_add_empty:
  assumes "absorbed s blks []" "bs \<noteq> []"
  obtains new tail' where "absorbed (let (s, bs) = full_blocks s bs in fold push_byte bs s) (blks @ new) tail'"
    "concat new @ tail' = bs" "length tail' < 64"
proof -
  obtain new rest s' where new: "full_blocks s bs = (s', rest)" "absorbed s' (blks @ new) []"
    "concat new @ rest = bs" "length rest < 64"
    by (rule absorbed_full_blocks [OF assms(1)])
  show thesis
    by (rule that [of new rest])
      (use new absorbed_pushes [OF new(2), of rest] in simp_all)
qed

text \<open>One call of \<open>add\<close> takes in exactly its bytes.\<close>

lemma absorbed_add:
  assumes "absorbed s blks tail" "length tail < 64"
  obtains blks' tail' where "absorbed (sha_add bs s) blks' tail'" "length tail' < 64"
    "concat blks' @ tail' = concat blks @ tail @ bs"
proof (cases "tail = []")
  case True
  then have e: "m_bufferSize s = 0" using assms by (simp add: absorbed_def)
  show thesis
  proof (cases "bs = []")
    case True
    show thesis
      by (rule that [of blks tail])
        (use assms True e in \<open>simp_all add: sha_add_def flush_full_id\<close>)
  next
    case False
    obtain new tail' where "absorbed (let (s, bs) = full_blocks s bs in fold push_byte bs s) (blks @ new) tail'"
        "concat new @ tail' = bs" "length tail' < 64"
      using absorbed_add_empty [of s blks bs] assms(1) True False by auto
    then show thesis
      using that [of "blks @ new" tail'] True False e by (simp add: sha_add_def flush_full_id)
  qed
next
  case False
  define t where "t = take (64 - length tail) bs"
  define u where "u = drop (64 - length tail) bs"
  have bs: "bs = t @ u" by (simp add: t_def u_def)
  have pos: "0 < m_bufferSize s" using False assms(1) by (simp add: absorbed_def)
  have fill: "fill_buffer s bs = (fold push_byte t s, u)"
    using fill_buffer_fold [OF assms(1)] by (simp add: t_def u_def)
  have abs: "absorbed (fold push_byte t s) blks (tail @ t)"
    by (rule absorbed_pushes [OF assms(1)]) (use assms(2) in \<open>simp add: t_def\<close>)
  show thesis
  proof (cases "length (tail @ t) = 64")
    case full: True
    note fl = absorbed_flush [OF abs full]
    show thesis
    proof (cases "u = []")
      case True
      show thesis
        by (rule that [of "blks @ [tail @ t]" "[]"])
          (use fl True bs pos fill in \<open>simp_all add: sha_add_def\<close>)
    next
      case False
      obtain new tail' where "absorbed (let (s, bs) = full_blocks (flush_full (fold push_byte t s)) u
            in fold push_byte bs s) ((blks @ [tail @ t]) @ new) tail'"
          "concat new @ tail' = u" "length tail' < 64"
        by (rule absorbed_add_empty [OF fl False])
      then show thesis
        using that [of "(blks @ [tail @ t]) @ new" tail'] False bs pos fill by (simp add: sha_add_def)
    qed
  next
    case part: False
    then have "u = []" using assms(2) by (auto simp: t_def u_def)
    moreover have "m_bufferSize (fold push_byte t s) \<noteq> 64"
      using abs part by (simp add: absorbed_def)
    moreover have "length (tail @ t) < 64" using abs part by (simp add: absorbed_def)
    ultimately show thesis
      using that [of blks "tail @ t"] abs bs pos fill by (simp add: sha_add_def flush_full_id)
  qed
qed

section \<open>Padding\<close>

lemma store_at_eq:
  "i + length bs \<le> length p \<Longrightarrow> store_at i bs p = take i p @ bs @ drop (i + length bs) p"
proof (induction bs arbitrary: i p)
  case (Cons b bs)
  have "store_at i (b # bs) p = store_at (Suc i) bs (p[i := b])" by simp
  also have "\<dots> = take (Suc i) (p[i := b]) @ bs @ drop (Suc i + length bs) (p[i := b])"
    using Cons.IH [of "Suc i" "p[i := b]"] Cons.prems by simp
  also have "\<dots> = take i p @ (b # bs) @ drop (i + length (b # bs)) p"
    using Cons.prems by (simp add: take_Suc_conv_app_nth drop_update_cancel)
  finally show ?case .
qed simp

lemma length_msg_length_bytes [simp]: "length (msg_length_bytes n) = 8"
  by (simp add: msg_length_bytes_def)

lemma padded_length_small: "n < 56 \<Longrightarrow> padded_length n = 56"
  by (simp add: padded_length_def Let_def)

lemma padded_length_large: "56 \<le> n \<Longrightarrow> n < 64 \<Longrightarrow> padded_length n = 120"
proof -
  assume "56 \<le> n" "n < 64"
  then have "n \<in> {56, 57, 58, 59, 60, 61, 62, 63}" by auto
  then show ?thesis by (auto simp: padded_length_def Let_def)
qed

lemma process_buffer_small:
  assumes "take (length tail) (m_buffer s) = tail" "m_bufferSize s = length tail" "length (m_buffer s) = 64"
    "length tail < 56"
  shows "m_hash (process_buffer extra s) =
    process_block (tail @ 128 # replicate (55 - length tail) 0 @
      msg_length_bytes (8 * (m_numBytes s + of_nat (length tail)))) (m_hash s)"
proof -
  define b1 where "b1 = (m_buffer s)[length tail := 128]"
  have b1: "length b1 = 64" "take (Suc (length tail)) b1 = tail @ [128]"
    using assms by (simp_all add: b1_def take_Suc_conv_app_nth)
  have b2: "store_at (Suc (length tail)) (replicate (64 - Suc (length tail)) 0) b1 =
      tail @ 128 # replicate (63 - length tail) 0"
    using b1 assms(4) by (simp add: store_at_eq)
  have "store_at 56 (msg_length_bytes n) (tail @ 128 # replicate (63 - length tail) 0) =
      tail @ 128 # replicate (55 - length tail) 0 @ msg_length_bytes n" for n
    using assms(4) by (simp add: store_at_eq take_Cons' min_def)
  then show ?thesis
    using assms padded_length_small [of "length tail"] b2
    by (simp add: process_buffer_def Let_def BlockSize_def b1_def [symmetric])
qed

lemma process_buffer_large:
  assumes "take (length tail) (m_buffer s) = tail" "m_bufferSize s = length tail" "length (m_buffer s) = 64"
    "56 \<le> length tail" "length tail < 64" "length extra = 64"
  shows "m_hash (process_buffer extra s) =
    process_block (replicate 56 0 @ msg_length_bytes (8 * (m_numBytes s + of_nat (length tail))))
      (process_block (tail @ 128 # replicate (63 - length tail) 0) (m_hash s))"
proof -
  define b1 where "b1 = (m_buffer s)[length tail := 128]"
  have b1: "length b1 = 64" "take (Suc (length tail)) b1 = tail @ [128]"
    using assms by (simp_all add: b1_def take_Suc_conv_app_nth)
  have b2: "store_at (Suc (length tail)) (replicate (64 - Suc (length tail)) 0) b1 =
      tail @ 128 # replicate (63 - length tail) 0"
    using b1 assms(5) by (simp add: store_at_eq)
  have e1: "store_at 0 (replicate 56 0) extra = replicate 56 0 @ drop 56 extra"
    using assms(6) by (simp add: store_at_eq)
  have e2: "store_at 56 (msg_length_bytes n) (replicate 56 0 @ drop 56 extra) =
      replicate 56 0 @ msg_length_bytes n" for n
    using assms(6) by (simp add: store_at_eq)
  have mx: "max (Suc (length tail)) 64 = 64" using assms(5) by simp
  show ?thesis
    using assms padded_length_large [of "length tail"] b2
    by (simp add: process_buffer_def Let_def BlockSize_def b1_def [symmetric] mx e1 e2)
qed

lemma blocks64_append:
  "list_all (\<lambda>b. length b = 64) blks \<Longrightarrow> blocks64 (concat blks @ x) = blks @ blocks64 x"
proof (induction blks)
  case (Cons b blks)
  then show ?case by (subst blocks64.simps) auto
qed simp

lemma blocks64_one: "length x = 64 \<Longrightarrow> blocks64 (x @ y) = x # blocks64 y"
  by (subst blocks64.simps) auto

lemma blocks64_Nil [simp]: "blocks64 [] = []"
  by (simp add: blocks64.simps)

lemma msg_length_be64: "msg_length_bytes (of_nat n) = be64 n"
proof -
  have "ucast (drop_bit (8 * k) (of_nat n :: u64) AND 0xFF) = (of_nat (n div 256 ^ k) :: u8)" if "k < 8" for k
  proof (rule word_eq_by_bits)
    fix i assume i: "i < LENGTH(8)"
    have ff: "(0xFF :: u64) = mask 8" by (simp add: mask_eq_exp_minus_1)
    have "bit (0xFF :: u64) i" using i by (simp only: ff bit_mask_iff) simp
    moreover have "n div 256 ^ k = drop_bit (8 * k) n"
      by (simp add: drop_bit_eq_div power_mult)
    ultimately show "bit (ucast (drop_bit (8 * k) (of_nat n :: u64) AND 0xFF) :: u8) i = bit (of_nat (n div 256 ^ k) :: u8) i"
      using i that by (simp add: bit_simps)
  qed
  from this [of 7] this [of 6] this [of 5] this [of 4] this [of 3] this [of 2] this [of 1] this [of 0]
  show ?thesis by (simp add: msg_length_bytes_def be64_def)
qed

lemma hash_of_absorbed:
  assumes abs: "absorbed s blks tail" and len: "length tail < 64" and extra: "length extra = 64"
  shows "m_hash (process_buffer extra s) =
    fold fips_block (blocks64 (fips_pad (concat blks @ tail))) initial_hash"
proof -
  have blks: "list_all (\<lambda>b. length b = 64) blks" using abs by (simp add: absorbed_def)
  have total: "length (concat blks @ tail) = 64 * length blks + length tail"
    using blks by (induction blks) auto
  then have md: "length (concat blks @ tail) mod 64 = length tail" using len by simp
  define n where "n = length (concat blks @ tail)"
  have bits: "8 * (m_numBytes s + of_nat (length tail)) = (of_nat (8 * n) :: u64)"
    using abs total by (simp add: absorbed_def n_def algebra_simps)
  have pad: "fips_pad (concat blks @ tail) =
      concat blks @ (tail @ 128 # replicate ((119 - length tail) mod 64) 0 @ be64 (8 * n))"
    unfolding fips_pad_def md by (simp add: n_def)
  have hash: "m_hash s = fold fips_block blks initial_hash"
    using abs by (simp add: absorbed_def process_block_fips [abs_def] fun_eq_iff)
  have l8: "length (be64 (8 * n)) = 8" by (simp add: be64_def)
  show ?thesis
  proof (cases "length tail < 56")
    case True
    then have "(119 - length tail) mod 64 = 55 - length tail" by (simp add: mod_if)
    then have "blocks64 (fips_pad (concat blks @ tail)) =
        blks @ [tail @ 128 # replicate (55 - length tail) 0 @ be64 (8 * n)]"
      unfolding pad blocks64_append [OF blks] using True l8 blocks64_one [of _ "[]"] by simp
    moreover have "m_hash (process_buffer extra s) = fips_block (tail @ 128 # replicate (55 - length tail) 0 @ be64 (8 * n)) (m_hash s)"
      using process_buffer_small [of tail s extra] abs True
      unfolding bits msg_length_be64 absorbed_def process_block_fips by simp
    ultimately show ?thesis by (simp add: hash)
  next
    case False
    then have "(119 - length tail) mod 64 = (63 - length tail) + 56" using len by simp
    then have rep: "tail @ 128 # replicate ((119 - length tail) mod 64) 0 @ be64 (8 * n) =
        (tail @ 128 # replicate (63 - length tail) 0) @ (replicate 56 0 @ be64 (8 * n))"
      by (simp only: replicate_add) simp
    have "blocks64 (fips_pad (concat blks @ tail)) =
        blks @ [tail @ 128 # replicate (63 - length tail) 0, replicate 56 0 @ be64 (8 * n)]"
      unfolding pad blocks64_append [OF blks] rep
      using False len l8 blocks64_one [of "tail @ 128 # replicate (63 - length tail) 0"]
        blocks64_one [of "replicate 56 0 @ be64 (8 * n)" "[]"] by simp
    moreover have "m_hash (process_buffer extra s) = fips_block (replicate 56 0 @ be64 (8 * n))
        (fips_block (tail @ 128 # replicate (63 - length tail) 0) (m_hash s))"
      using process_buffer_large [of tail s extra] abs False len extra
      unfolding bits msg_length_be64 absorbed_def process_block_fips by simp
    ultimately show ?thesis by (simp add: hash)
  qed
qed

lemma absorbed_chunks:
  "absorbed s blks tail \<Longrightarrow> length tail < 64 \<Longrightarrow>
     \<exists>blks' tail'. absorbed (fold sha_add chunks s) blks' tail' \<and> length tail' < 64 \<and>
       concat blks' @ tail' = concat blks @ tail @ concat chunks"
proof (induction chunks arbitrary: s blks tail)
  case (Cons c chunks)
  obtain b t where bt: "absorbed (sha_add c s) b t" "length t < 64" "concat b @ t = concat blks @ tail @ c"
    by (rule absorbed_add [OF Cons.prems])
  then show ?case using Cons.IH [OF bt(1,2)] by (metis append.assoc concat.simps(2) fold_simps(2))
qed fastforce

definition hex_string :: "u8 list \<Rightarrow> string" where
  "hex_string bs = concat (map hex_pair bs)"

lemma digest_of_chunks:
  assumes "length (m_buffer s) = 64" "length extra = 64"
  shows "fst (get_hash extra (fold sha_add chunks (sha_reset s))) = hex_string (fips_sha256 (concat chunks))"
proof -
  obtain blks tail where a: "absorbed (fold sha_add chunks (sha_reset s)) blks tail" "length tail < 64"
      "concat blks @ tail = concat chunks"
    using absorbed_chunks [OF absorbed_reset [OF assms(1)], of chunks] by auto
  show ?thesis
    using hash_of_absorbed [OF a(1,2) assms(2)] a(3)
    by (simp add: get_hash_def get_hash_raw_def Let_def fips_sha256_def hex_string_def)
qed

lemma length_store_at [simp]: "length (store_at i bs p) = length p"
  by (induction bs arbitrary: i p) simp_all

lemma length_process_buffer [simp]: "length (m_buffer (process_buffer extra s)) = length (m_buffer s)"
  by (simp add: process_buffer_def Let_def)

lemma length_buffer_call:
  assumes "length (m_buffer s) = 64"
  shows "length (m_buffer (snd (sha256_call extra bs s))) = 64"
proof -
  obtain blks tail where "absorbed (sha_add bs (sha_reset s)) blks tail"
    by (rule absorbed_add [OF absorbed_reset [OF assms], of bs]) (simp, rule that)
  then show ?thesis
    by (simp add: sha256_call_def get_hash_def get_hash_raw_def Let_def absorbed_def)
qed

text \<open>C26: SHA-256 is computed as FIPS 180-4 specifies, in whatever pieces the message arrives: after a reset
  and any sequence of add calls, getHash returns the hexadecimal digest of the concatenated pieces, whatever
  the buffer and the uninitialised second block held, and leaves the running hash value as it was.\<close>

theorem sha256_streaming:
  assumes "length (m_buffer s) = 64" "length extra = 64"
  shows "fst (get_hash extra (fold sha_add chunks (sha_reset s))) = hex_string (fips_sha256 (concat chunks)) \<and>
    m_hash (snd (get_hash extra (fold sha_add chunks (sha_reset s)))) = m_hash (fold sha_add chunks (sha_reset s))"
  using digest_of_chunks [OF assms] by (simp add: get_hash_def get_hash_raw_def Let_def)

theorem sha256_streaming_witness:
  "fst (get_hash (replicate 64 1) (fold sha_add [[97], [], [98, 99]] (sha_reset
     \<lparr>m_numBytes = 5, m_bufferSize = 3, m_buffer = replicate 64 7, m_hash = initial_hash\<rparr>))) =
   hex_string (fips_sha256 [97, 98, 99])"
  using sha256_streaming [of "\<lparr>m_numBytes = 5, m_bufferSize = 3, m_buffer = replicate 64 7, m_hash = initial_hash\<rparr>"
      "replicate 64 1" "[[97], [], [98, 99]]"]
  by simp

end
