(* ===== verification/Can_Message.thy ===== *)
theory Can_Message
  imports Std_Map Sha256_Props Can_Frame
begin

text \<open>
  The frames and messages of the gateway (\<open>can_message.h\<close>, \<open>SHARED/socketcan-cpp\<close>) and the
  socket wrapper.  A local object of C++ without an initialiser holds whatever its storage held
  before; \<open>stack\<close> carries these bytes, so that a statement proved for every \<open>stack\<close> does
  not rest on them.
\<close>

section \<open>Frames and messages\<close>

record CanFrame =
  f_id :: u32
  f_len :: u8
  f_flags :: u8
  f_data :: "u8 list"

datatype CONVERSATION_TYPE = C_NONE | C_RAW | C_INT | C_BYTE | C_STR | C_BOOL

definition conversation_code :: "CONVERSATION_TYPE \<Rightarrow> int" where
  "conversation_code t =
     (case t of C_NONE \<Rightarrow> 0 | C_RAW \<Rightarrow> 1 | C_INT \<Rightarrow> 2 | C_BYTE \<Rightarrow> 3 | C_STR \<Rightarrow> 4 | C_BOOL \<Rightarrow> 5)"

definition conversation_name :: "CONVERSATION_TYPE \<Rightarrow> string" where
  "conversation_name t =
     (case t of C_NONE \<Rightarrow> ''NONE'' | C_RAW \<Rightarrow> ''RAW'' | C_INT \<Rightarrow> ''INT'' | C_BYTE \<Rightarrow> ''BYTE''
      | C_STR \<Rightarrow> ''STR'' | C_BOOL \<Rightarrow> ''BOOL'')"

text \<open>
  \<open>MESSAGE_SEND\<close> gives its enumerators SEND and GOT the same value 2, so they are the same
  element of the type, and its name is that of the first of them.
\<close>

datatype MESSAGE_SEND = M_INVALID | M_SEND

abbreviation M_GOT :: MESSAGE_SEND where "M_GOT \<equiv> M_SEND"

definition message_send_code :: "MESSAGE_SEND \<Rightarrow> int" where
  "message_send_code r = (case r of M_INVALID \<Rightarrow> 0 | M_SEND \<Rightarrow> 2)"

definition message_send_name :: "MESSAGE_SEND \<Rightarrow> string" where
  "message_send_name r = (case r of M_INVALID \<Rightarrow> ''INVALID'' | M_SEND \<Rightarrow> ''SEND'')"

record CAN_MESSAGE =
  frame :: CanFrame
  sync_tick :: u64
  ts :: int
  hash :: string
  valid :: bool
  message_receieved :: MESSAGE_SEND
  c_type :: CONVERSATION_TYPE

record stack =
  st_message :: CAN_MESSAGE
  st_frame :: CanFrame
  st_extra :: "u8 list"

definition stack_ok :: "stack \<Rightarrow> bool" where
  "stack_ok st \<longleftrightarrow>
     length (f_data (st_frame st)) = 64 \<and> length (f_data (frame (st_message st))) = 64 \<and> length (st_extra st) = 64"

text \<open>The declarations \<open>CanFrame f;\<close> and \<open>CAN_MESSAGE m;\<close> with their default member initialisers.\<close>

definition new_frame :: "stack \<Rightarrow> CanFrame" where
  "new_frame st = (st_frame st)\<lparr>f_id := 0, f_len := 0, f_flags := 0\<rparr>"

definition new_message :: "stack \<Rightarrow> CAN_MESSAGE" where
  "new_message st = (st_message st)\<lparr>frame := (frame (st_message st))\<lparr>f_id := 0, f_len := 0, f_flags := 0\<rparr>,
     sync_tick := 0, hash := [], message_receieved := M_INVALID\<rparr>"

text \<open>Reading \<open>len\<close> bytes from \<open>data\<close>; \<open>None\<close> is a read behind the array.\<close>

definition frame_payload :: "CanFrame \<Rightarrow> u8 list option" where
  "frame_payload f =
     (if unat (f_len f) \<le> length (f_data f) then Some (take (unat (f_len f)) (f_data f)) else None)"

definition frame_ok :: "CanFrame \<Rightarrow> bool" where
  "frame_ok f \<longleftrightarrow> length (f_data f) = 64 \<and> unat (f_len f) \<le> 64"

lemma frame_ok_payload: "frame_ok f \<Longrightarrow> frame_payload f = Some (take (unat (f_len f)) (f_data f))"
  by (simp add: frame_ok_def frame_payload_def)

text \<open>The hash object of a component: only the length of its buffer matters between calls.\<close>

definition sha256_of :: "stack \<Rightarrow> u8 list \<Rightarrow> sha256_state \<Rightarrow> string \<times> sha256_state" where
  "sha256_of st bs s = sha256_call (st_extra st) bs s"

definition hasher_ok :: "sha256_state \<Rightarrow> bool" where
  "hasher_ok s \<longleftrightarrow> length (m_buffer s) = 64"

lemma sha256_of_digest:
  "stack_ok st \<Longrightarrow> hasher_ok s \<Longrightarrow> fst (sha256_of st bs s) = hex_string (fips_sha256 bs)"
  using digest_of_chunks [of s "st_extra st" "[bs]"]
  by (simp add: sha256_of_def sha256_call_def stack_ok_def hasher_ok_def)

lemma sha256_of_ok: "hasher_ok s \<Longrightarrow> hasher_ok (snd (sha256_of st bs s))"
  by (simp add: hasher_ok_def sha256_of_def length_buffer_call)

section \<open>The socket\<close>

datatype SocketMode = MODE_CAN_MTU | MODE_CANFD_MTU

definition mode_size :: "SocketMode \<Rightarrow> nat" where
  "mode_size m = (case m of MODE_CAN_MTU \<Rightarrow> nat CAN_MTU | MODE_CANFD_MTU \<Rightarrow> nat CANFD_MTU)"

datatype SocketCanStatus =
    STATUS_OK | STATUS_SOCKET_CREATE_ERROR | STATUS_INTERFACE_NAME_TO_IDX_ERROR | STATUS_MTU_ERROR
  | STATUS_CANFD_NOT_SUPPORTED | STATUS_ENABLE_FD_SUPPORT_ERROR | STATUS_WRITE_ERROR | STATUS_READ_ERROR
  | STATUS_BIND_ERROR

record SocketCan =
  m_socket :: int
  m_read_timeout_ms :: int
  m_interface :: string
  m_socket_mode :: SocketMode

text \<open>What the system calls of \<open>open\<close> answer.\<close>

record can_os =
  os_socket :: int
  os_ifindex :: "string \<Rightarrow> nat"
  os_mtu :: "nat option"
  os_enable_fd :: int
  os_bind :: int

definition IFNAMSIZ :: nat where "IFNAMSIZ = 16"

definition socket_open :: "can_os \<Rightarrow> string \<Rightarrow> int \<Rightarrow> SocketMode \<Rightarrow> SocketCan \<Rightarrow> SocketCanStatus \<times> SocketCan" where
  "socket_open os ifname timeout mode s =
     (let s = s\<lparr>m_interface := ifname, m_socket_mode := mode, m_read_timeout_ms := timeout,
                m_socket := os_socket os\<rparr>
      in if m_socket s < 0 then (STATUS_SOCKET_CREATE_ERROR, s)
         else if os_ifindex os (take (IFNAMSIZ - 1) ifname) = 0 then (STATUS_INTERFACE_NAME_TO_IDX_ERROR, s)
         else if mode = MODE_CANFD_MTU \<and> os_mtu os = None then (STATUS_MTU_ERROR, s)
         else if mode = MODE_CANFD_MTU \<and> os_mtu os \<noteq> Some (nat CANFD_MTU) then (STATUS_CANFD_NOT_SUPPORTED, s)
         else if mode = MODE_CANFD_MTU \<and> os_enable_fd os \<noteq> 0 then (STATUS_ENABLE_FD_SUPPORT_ERROR, s)
         else if os_bind os < 0 then (STATUS_BIND_ERROR, s)
         else (STATUS_OK, s))"

definition scpp_dlc2len :: "u8 list" where
  "scpp_dlc2len = [0, 1, 2, 3, 4, 5, 6, 7, 8, 12, 16, 20, 24, 32, 48, 64]"

definition can_dlc2len :: "u8 \<Rightarrow> u8" where
  "can_dlc2len can_dlc = scpp_dlc2len ! unat (can_dlc AND 0x0F)"

definition scpp_len2dlc :: "u8 list" where
  "scpp_len2dlc =
     [0, 1, 2, 3, 4, 5, 6, 7, 8,
      9, 9, 9, 9, 10, 10, 10, 10, 11, 11, 11, 11, 12, 12, 12, 12,
      13, 13, 13, 13, 13, 13, 13, 13,
      14, 14, 14, 14, 14, 14, 14, 14, 14, 14, 14, 14, 14, 14, 14, 14,
      15, 15, 15, 15, 15, 15, 15, 15, 15, 15, 15, 15, 15, 15, 15, 15]"

definition can_len2dlc :: "u8 \<Rightarrow> u8" where
  "can_len2dlc len = (if len > 64 then 0xF else scpp_len2dlc ! unat len)"

text \<open>
  \<open>write\<close> hands the system a \<open>canfd_frame\<close> and the number of bytes of it to send; \<open>None\<close> is a
  \<open>memcpy\<close> past an array.
\<close>

definition wire_frame :: "SocketMode \<Rightarrow> CanFrame \<Rightarrow> (canfd_frame \<times> nat) option" where
  "wire_frame mode msg =
     (case frame_payload msg of
        None \<Rightarrow> None
      | Some bytes \<Rightarrow>
          if 64 < length bytes then None
          else Some (\<lparr>can_id = f_id msg,
                      fr_len = (if mode = MODE_CANFD_MTU then can_dlc2len (can_len2dlc (f_len msg)) else f_len msg),
                      fr_flags = f_flags msg, res0 = 0, res1 = 0,
                      fr_data = bytes @ replicate (64 - length bytes) 0\<rparr>, mode_size mode))"

definition socket_write :: "SocketCan \<Rightarrow> CanFrame \<Rightarrow> int \<Rightarrow> (SocketCanStatus \<times> canfd_frame \<times> nat) option" where
  "socket_write s msg written =
     (case wire_frame (m_socket_mode s) msg of
        None \<Rightarrow> None
      | Some (f, n) \<Rightarrow> Some (if written \<noteq> int n then STATUS_WRITE_ERROR else STATUS_OK, f, n))"

text \<open>
  \<open>read\<close> with the byte count the system returned and the frame it left; the caller's frame keeps
  the data bytes behind the new length.
\<close>

definition socket_read :: "int \<Rightarrow> canfd_frame \<Rightarrow> CanFrame \<Rightarrow> (SocketCanStatus \<times> CanFrame) option" where
  "socket_read num_bytes f msg =
     (if num_bytes \<noteq> CAN_MTU \<and> num_bytes \<noteq> CANFD_MTU then Some (STATUS_READ_ERROR, msg)
      else if length (fr_data f) < unat (fr_len f) \<or> length (f_data msg) < unat (fr_len f) then None
      else Some (STATUS_OK,
        \<lparr>f_id = can_id f, f_len = fr_len f, f_flags = fr_flags f,
         f_data = take (unat (fr_len f)) (fr_data f) @ drop (unat (fr_len f)) (f_data msg)\<rparr>))"

definition socket_close :: "SocketCan \<Rightarrow> SocketCanStatus \<times> SocketCan" where
  "socket_close s = (STATUS_OK, s)"

text \<open>The wrapper carries its own copy of the length tables of can-utils.\<close>

lemma scpp_tables: "can_dlc2len d = can_fd_dlc2len d" "can_len2dlc l = can_fd_len2dlc l"
  by (simp_all add: can_dlc2len_def can_fd_dlc2len_def scpp_dlc2len_def dlc2len_def
      can_len2dlc_def can_fd_len2dlc_def scpp_len2dlc_def len2dlc_def)

lemma socket_read_ok:
  assumes "socket_read n f msg = Some (STATUS_OK, msg')" "frame_ok msg" "length (fr_data f) = 64"
  shows "frame_ok msg' \<and> f_id msg' = can_id f \<and> f_len msg' = fr_len f \<and>
    frame_payload msg' = Some (take (unat (fr_len f)) (fr_data f))"
  using assms by (auto simp: socket_read_def frame_ok_def frame_payload_def split: if_splits)

lemma socket_roundtrip:
  assumes "wire_frame m msg = Some (f, k)" "m = MODE_CAN_MTU" "frame_ok old" "frame_ok msg"
  shows "\<exists>new. socket_read (int k) f old = Some (STATUS_OK, new) \<and> f_id new = f_id msg \<and>
    f_len new = f_len msg \<and> frame_payload new = frame_payload msg"
  using assms
  by (auto simp: wire_frame_def socket_read_def mode_size_def frame_payload_def frame_ok_def
      split: option.splits if_splits)

end
