(* ===== verification/Can_Stores.thy ===== *)
theory Can_Stores
  imports Can_Message
begin

text \<open>
  The two stores of the gateway: the packet filter (\<open>can_id_filter.cpp\<close>) and the table of the
  latest frame of each identifier (\<open>can_hashtable.cpp\<close>).  Both are keyed by 16 bit identifiers.
\<close>

section \<open>The packet filter\<close>

record can_id_filter =
  filter_list :: "(u32, bool) std_map"
  invert :: bool

definition set_invert_filter :: "bool \<Rightarrow> can_id_filter \<Rightarrow> can_id_filter" where
  "set_invert_filter b f = f\<lparr>invert := b\<rparr>"

definition filter_init :: can_id_filter where
  "filter_init = \<lparr>filter_list = [], invert = False\<rparr>"

definition filter_with :: "bool \<Rightarrow> can_id_filter" where
  "filter_with b = set_invert_filter b filter_init"

definition set_filter :: "u16 \<Rightarrow> bool \<Rightarrow> can_id_filter \<Rightarrow> can_id_filter" where
  "set_filter id' allow f = f\<lparr>filter_list := map_set (filter_list f) (ucast id') allow\<rparr>"

definition filter_key_exists :: "u16 \<Rightarrow> can_id_filter \<Rightarrow> bool" where
  "filter_key_exists id' f = (map_find (filter_list f) (ucast id') \<noteq> None)"

definition check_message :: "u16 \<Rightarrow> can_id_filter \<Rightarrow> bool" where
  "check_message id' f =
     (if \<not> filter_key_exists id' f then invert f
      else case map_find (filter_list f) (ucast id') of Some b \<Rightarrow> b | None \<Rightarrow> False)"

definition filter_clear :: "can_id_filter \<Rightarrow> can_id_filter" where
  "filter_clear f = f\<lparr>filter_list := []\<rparr>"

lemma ucast_u16_u32 [simp]: "(ucast (a :: u16) :: u32) = ucast b \<longleftrightarrow> a = b"
  by (simp add: word_unat_eq_iff unsigned_ucast_eq take_bit_nat_eq_self_iff
      less_trans [OF unsigned_less [where ?'a = nat]] take_bit_nat_eq_self)

lemma check_set_filter:
  "check_message i (set_filter j b f) = (if i = j then b else check_message i f)"
  by (simp add: check_message_def filter_key_exists_def set_filter_def)

lemma check_set_invert:
  "check_message i (set_invert_filter b f) = (if filter_key_exists i f then check_message i f else b)"
  by (simp add: check_message_def filter_key_exists_def set_invert_filter_def)

lemma check_filter_init [simp]: "check_message i filter_init = False"
  by (simp add: check_message_def filter_key_exists_def filter_init_def)

section \<open>The frame table\<close>

record can_hashtable =
  mp :: "(u16, CAN_MESSAGE) std_map"
  table_sha :: sha256_state

definition table_get :: "stack \<Rightarrow> u16 \<Rightarrow> can_hashtable \<Rightarrow> CAN_MESSAGE" where
  "table_get st id' t =
     (case map_find (mp t) id' of
        None \<Rightarrow> (new_message st)\<lparr>valid := False\<rparr>
      | Some m \<Rightarrow> m\<lparr>valid := True\<rparr>)"

definition table_key_exists :: "u16 \<Rightarrow> can_hashtable \<Rightarrow> bool" where
  "table_key_exists id' t = (map_find (mp t) id' \<noteq> None)"

text \<open>
  \<open>put\<close> with \<open>DONT_WRITE_DUPLICATES\<close>: the key is the low half of the identifier, and an entry
  with the same payload hash is left alone.  \<open>None\<close> is a read behind the data bytes.
\<close>

definition table_put ::
  "stack \<Rightarrow> CanFrame \<Rightarrow> int \<Rightarrow> u64 \<Rightarrow> MESSAGE_SEND \<Rightarrow> can_hashtable \<Rightarrow> (CAN_MESSAGE \<times> can_hashtable) option" where
  "table_put st f timestamp tick rs t =
     (case frame_payload f of
        None \<Rightarrow> None
      | Some bytes \<Rightarrow>
          let (h, sha) = sha256_of st bytes (table_sha t);
              msg = (new_message st)\<lparr>frame := f, ts := timestamp, sync_tick := tick, message_receieved := rs, hash := h\<rparr>;
              t = t\<lparr>table_sha := sha\<rparr>;
              k = ucast (f_id f)
          in case map_find (mp t) k of
               Some old \<Rightarrow> Some (msg, if hash old \<noteq> h then t\<lparr>mp := map_set (mp t) k msg\<rparr> else t)
             | None \<Rightarrow> Some (msg, t\<lparr>mp := map_set (mp t) k msg\<rparr>))"

definition get_id_list :: "can_hashtable \<Rightarrow> int list" where
  "get_id_list t = map uint (map_keys (mp t))"

definition table_clear :: "can_hashtable \<Rightarrow> can_hashtable" where
  "table_clear t = t\<lparr>mp := []\<rparr>"

text \<open>
  What the table keeps: entries under the low half of their identifier, with the digest of
  their payload, in the order of a map.
\<close>

definition payload_digest :: "CanFrame \<Rightarrow> string" where
  "payload_digest f = hex_string (fips_sha256 (take (unat (f_len f)) (f_data f)))"

definition entry_ok :: "u16 \<times> CAN_MESSAGE \<Rightarrow> bool" where
  "entry_ok e \<longleftrightarrow> (case e of (k, m) \<Rightarrow>
     k = ucast (f_id (frame m)) \<and> frame_ok (frame m) \<and> hash m = payload_digest (frame m))"

definition table_wf :: "can_hashtable \<Rightarrow> bool" where
  "table_wf t \<longleftrightarrow> map_wf (mp t) \<and> hasher_ok (table_sha t) \<and> (\<forall>e \<in> set (mp t). entry_ok e)"

definition put_message :: "stack \<Rightarrow> CanFrame \<Rightarrow> int \<Rightarrow> u64 \<Rightarrow> MESSAGE_SEND \<Rightarrow> CAN_MESSAGE" where
  "put_message st f timestamp tick rs = (new_message st)\<lparr>frame := f, ts := timestamp, sync_tick := tick,
     message_receieved := rs, hash := payload_digest f\<rparr>"

text \<open>The specification of \<open>put\<close> on the contents of the table.\<close>

definition same_payload :: "CanFrame \<Rightarrow> CAN_MESSAGE option \<Rightarrow> bool" where
  "same_payload f e = (case e of None \<Rightarrow> False | Some m \<Rightarrow> hash m = payload_digest f)"

lemma table_put_eq:
  assumes "stack_ok st" "frame_ok f" "hasher_ok (table_sha t)"
  shows "\<exists>sha. table_put st f timestamp tick rs t =
    Some (put_message st f timestamp tick rs,
          t\<lparr>table_sha := sha, mp := if same_payload f (map_find (mp t) (ucast (f_id f))) then mp t
              else map_set (mp t) (ucast (f_id f)) (put_message st f timestamp tick rs)\<rparr>) \<and> hasher_ok sha"
proof -
  define bytes where "bytes = take (unat (f_len f)) (f_data f)"
  obtain h sha where h: "sha256_of st bytes (table_sha t) = (h, sha)" by fastforce
  have "h = payload_digest f" "hasher_ok sha"
    using sha256_of_digest [OF assms(1,3), of bytes] sha256_of_ok [OF assms(3), of st bytes] h
    by (simp_all add: payload_digest_def bytes_def)
  then show ?thesis
    using h frame_ok_payload [OF assms(2)]
    by (intro exI [of _ sha])
      (auto simp: table_put_def bytes_def put_message_def same_payload_def Let_def split: option.split)
qed

lemma map_set_entries: "e \<in> set (map_set m k v) \<Longrightarrow> e = (k, v) \<or> e \<in> set m"
  by (induction m k v rule: map_set.induct) (auto split: if_splits)

lemma entry_put: "frame_ok f \<Longrightarrow> entry_ok (ucast (f_id f), put_message st f timestamp tick rs)"
  by (simp add: entry_ok_def put_message_def)

lemma table_put_wf:
  assumes "stack_ok st" "frame_ok f" "table_wf t"
  obtains m t' where "table_put st f timestamp tick rs t = Some (m, t')" "m = put_message st f timestamp tick rs"
    "table_wf t'"
    "\<And>k. map_find (mp t') k = (if k = ucast (f_id f) \<and> \<not> same_payload f (map_find (mp t) k) then Some m else map_find (mp t) k)"
proof -
  obtain sha where sha: "table_put st f timestamp tick rs t =
      Some (put_message st f timestamp tick rs,
        t\<lparr>table_sha := sha, mp := if same_payload f (map_find (mp t) (ucast (f_id f))) then mp t
          else map_set (mp t) (ucast (f_id f)) (put_message st f timestamp tick rs)\<rparr>)" "hasher_ok sha"
    using table_put_eq [OF assms(1,2), of t timestamp tick rs] assms(3) by (auto simp only: table_wf_def)
  show thesis
    by (rule that [OF sha(1)])
      (use assms(2,3) sha(2) in \<open>auto simp: table_wf_def dest!: map_set_entries intro: entry_put\<close>)
qed

text \<open>\<open>get\<close> is the lookup with the flag set, and the listed identifiers are the stored keys.\<close>

lemma table_get_valid: "valid (table_get st k t) \<longleftrightarrow> map_find (mp t) k \<noteq> None"
  by (simp add: table_get_def split: option.split)

lemma get_id_list_spec: "table_wf t \<Longrightarrow> sorted_wrt (<) (get_id_list t) \<and> set (get_id_list t) = uint ` {k. table_key_exists k t}"
  using sorted_wrt_mono_rel [OF _ std.keys_sorted [of "mp t"], of "\<lambda>x y. uint x < uint y"]
  by (auto simp: get_id_list_def table_wf_def sorted_wrt_map table_key_exists_def std.keys_lookup word_less_def)

end
