(* ===== verification/Frame_Send_Queue.thy ===== *)
theory Frame_Send_Queue
  imports Can_Stores
begin

text \<open>
  The queue of frames to send (\<open>frame_send_queue.cpp\<close>): the REST threads enqueue, the main loop
  dequeues.  The locale \<open>fifo\<close> states the contract of a queue against its contents; it is
  interpreted on the queue of the code, and the draining of the queue is proved in it.
\<close>

section \<open>The interface\<close>

locale fifo =
  fixes push :: "'a \<Rightarrow> 'q \<Rightarrow> 'q"
    and pop :: "'q \<Rightarrow> ('a \<times> 'q) option"
    and content :: "'q \<Rightarrow> 'a list"
  assumes content_push: "content (push x q) = content q @ [x]"
    and pop_empty: "content q = [] \<Longrightarrow> pop q = None"
    and pop_front: "content q = x # xs \<Longrightarrow> \<exists>q'. pop q = Some (x, q') \<and> content q' = xs"
begin

fun drain :: "nat \<Rightarrow> 'q \<Rightarrow> 'a list \<times> 'q" where
  "drain 0 q = ([], q)"
| "drain (Suc n) q = (case pop q of None \<Rightarrow> ([], q) | Some (x, q') \<Rightarrow> (case drain n q' of (xs, q'') \<Rightarrow> (x # xs, q'')))"

lemma content_pushes: "content (fold push xs q) = content q @ xs"
  by (induction xs arbitrary: q) (simp_all add: content_push)

lemma drain_front: "drain n q = (xs, q') \<Longrightarrow> xs = take n (content q) \<and> content q' = drop n (content q)"
proof (induction n arbitrary: q xs q')
  case (Suc n)
  show ?case
  proof (cases "content q")
    case Nil
    then show ?thesis using Suc.prems by (simp add: pop_empty)
  next
    case (Cons x rest)
    obtain q1 where q1: "pop q = Some (x, q1)" "content q1 = rest" using pop_front [OF Cons] by blast
    obtain ys q2 where d: "drain n q1 = (ys, q2)" by fastforce
    then show ?thesis using Suc.IH [OF d] Suc.prems q1 Cons by simp
  qed
qed simp

text \<open>Whatever is put in comes out, once, in the order it went in.\<close>

lemma fifo_order:
  assumes "content q = []" "drain (length xs) (fold push xs q) = (ys, q')"
  shows "ys = xs \<and> content q' = []"
  using drain_front [OF assms(2)] content_pushes [of xs q] assms(1) by simp

end

section \<open>The queue\<close>

record frame_send_queue =
  message_queue :: "CAN_MESSAGE list"
  queue_sha :: sha256_state

text \<open>\<open>message_queued\<close> narrows the size to an \<open>int\<close>.\<close>

definition message_queued :: "frame_send_queue \<Rightarrow> int" where
  "message_queued q = sint (of_nat (length (message_queue q)) :: 32 word)"

definition push_message :: "CAN_MESSAGE \<Rightarrow> frame_send_queue \<Rightarrow> frame_send_queue" where
  "push_message m q = q\<lparr>message_queue := message_queue q @ [m]\<rparr>"

definition pop_message :: "frame_send_queue \<Rightarrow> (CAN_MESSAGE \<times> frame_send_queue) option" where
  "pop_message q =
     (case message_queue q of [] \<Rightarrow> None | m # ms \<Rightarrow> Some (m, q\<lparr>message_queue := ms\<rparr>))"

interpretation q: fifo push_message pop_message message_queue
  by unfold_locales (auto simp: push_message_def pop_message_def)

text \<open>\<open>None\<close> would be \<open>front\<close> of an empty queue, which the size check excludes.\<close>

definition dequeue :: "stack \<Rightarrow> frame_send_queue \<Rightarrow> (CAN_MESSAGE \<times> frame_send_queue) option" where
  "dequeue st q =
     (if 0 < message_queued q
      then case pop_message q of None \<Rightarrow> None | Some (m, q) \<Rightarrow> Some (m\<lparr>valid := True\<rparr>, q)
      else Some ((new_message st)\<lparr>valid := False\<rparr>, q))"

text \<open>The frame \<open>cf_to_write\<close>: the bytes go over the start of the uninitialised array.\<close>

definition frame_of_bytes :: "stack \<Rightarrow> u16 \<Rightarrow> u8 list \<Rightarrow> CanFrame" where
  "frame_of_bytes st id' bs = (new_frame st)\<lparr>f_id := ucast id', f_len := of_nat (length bs),
     f_data := bs @ drop (length bs) (f_data (st_frame st))\<rparr>"

definition queued_message :: "stack \<Rightarrow> CanFrame \<Rightarrow> string \<Rightarrow> CONVERSATION_TYPE \<Rightarrow> CAN_MESSAGE" where
  "queued_message st f h t = (new_message st)\<lparr>frame := f, message_receieved := M_SEND, hash := h, c_type := t\<rparr>"

definition int16_bytes :: "16 word \<Rightarrow> u8 list" where
  "int16_bytes v = [ucast (v AND 0x00FF), ucast (drop_bit 8 (v AND 0xff00))]"

definition enqueue_int16 :: "stack \<Rightarrow> u16 \<Rightarrow> 16 word \<Rightarrow> frame_send_queue \<Rightarrow> bool \<times> frame_send_queue" where
  "enqueue_int16 st id' v q =
     (let f = frame_of_bytes st id' (int16_bytes v);
          (h, sha) = sha256_of st (int16_bytes v) (queue_sha q)
      in (True, push_message (queued_message st f h C_INT) (q\<lparr>queue_sha := sha\<rparr>)))"

definition enqueue_bool :: "stack \<Rightarrow> u16 \<Rightarrow> bool \<Rightarrow> frame_send_queue \<Rightarrow> bool \<times> frame_send_queue" where
  "enqueue_bool st id' b q =
     (True, push_message (queued_message st (frame_of_bytes st id' [if b then 1 else 0]) [] C_BOOL) q)"

definition enqueue_bytes :: "stack \<Rightarrow> u16 \<Rightarrow> string \<Rightarrow> frame_send_queue \<Rightarrow> bool \<times> frame_send_queue" where
  "enqueue_bytes st id' s q =
     (True, push_message (queued_message st (frame_of_bytes st id' (map byte_of_char (take 64 s))) [] C_STR) q)"

definition enqueue_array :: "stack \<Rightarrow> u16 \<Rightarrow> u8 list \<Rightarrow> frame_send_queue \<Rightarrow> bool \<times> frame_send_queue" where
  "enqueue_array st id' bs q =
     (True, push_message (queued_message st (frame_of_bytes st id' (take 64 bs)) [] C_BYTE) q)"

section \<open>What is in the queue\<close>

definition queued_ok :: "CAN_MESSAGE \<Rightarrow> bool" where
  "queued_ok m \<longleftrightarrow> frame_ok (frame m) \<and> unat (f_id (frame m)) < 65536 \<and>
     message_receieved m = M_SEND \<and> (hash m = [] \<or> hash m = payload_digest (frame m)) \<and> c_type m \<noteq> C_NONE"

definition queue_wf :: "frame_send_queue \<Rightarrow> bool" where
  "queue_wf q \<longleftrightarrow> hasher_ok (queue_sha q) \<and> (\<forall>m \<in> set (message_queue q). queued_ok m)"

lemma unat_u16_to_u32: "unat (ucast (i :: u16) :: u32) = unat i"
  by (simp add: unsigned_ucast_eq take_bit_nat_eq_self_iff less_trans [OF unsigned_less [where ?'a = nat]])

lemma frame_of_bytes_ok:
  assumes "stack_ok st" "length bs \<le> 64"
  shows "frame_ok (frame_of_bytes st i bs) \<and> frame_payload (frame_of_bytes st i bs) = Some bs \<and>
    f_id (frame_of_bytes st i bs) = ucast i"
proof -
  have "unat (of_nat (length bs) :: u8) = length bs"
    by (rule unat_of_nat_small) (use assms(2) in simp)
  then show ?thesis
    using assms by (simp add: frame_of_bytes_def frame_ok_def frame_payload_def stack_ok_def)
qed

lemma queued_message_ok:
  assumes "stack_ok st" "length bs \<le> 64" "h = [] \<or> h = payload_digest (frame_of_bytes st i bs)" "t \<noteq> C_NONE"
  shows "queued_ok (queued_message st (frame_of_bytes st i bs) h t)"
proof -
  have "unat i < 65536" using unsigned_less [of i, where ?'a = nat] by simp
  then show ?thesis
    using assms frame_of_bytes_ok [OF assms(1,2), of i]
    by (simp add: queued_ok_def queued_message_def unat_u16_to_u32)
qed

lemma queue_wf_push: "queue_wf q \<Longrightarrow> queued_ok m \<Longrightarrow> queue_wf (push_message m q)"
  by (auto simp: queue_wf_def push_message_def)

lemma enqueue_wf:
  assumes "stack_ok st" "queue_wf q"
  shows "queue_wf (snd (enqueue_int16 st i v q))" "queue_wf (snd (enqueue_bool st i b q))"
    "queue_wf (snd (enqueue_bytes st i s q))" "queue_wf (snd (enqueue_array st i bs q))"
proof -
  obtain h sha where h: "sha256_of st (int16_bytes v) (queue_sha q) = (h, sha)" by fastforce
  have sha: "hasher_ok sha" "h = hex_string (fips_sha256 (int16_bytes v))"
    using sha256_of_ok [of "queue_sha q" st "int16_bytes v"] sha256_of_digest [OF assms(1), of "queue_sha q" "int16_bytes v"]
      h assms(2) by (simp_all add: queue_wf_def)
  have f: "frame_payload (frame_of_bytes st i (int16_bytes v)) = Some (int16_bytes v)"
    "frame_ok (frame_of_bytes st i (int16_bytes v))"
    using frame_of_bytes_ok [OF assms(1), of "int16_bytes v" i] by (simp_all add: int16_bytes_def)
  then have "h = payload_digest (frame_of_bytes st i (int16_bytes v))"
    using sha(2) by (simp add: payload_digest_def frame_ok_payload)
  then have "queued_ok (queued_message st (frame_of_bytes st i (int16_bytes v)) h C_INT)"
    by (intro queued_message_ok [OF assms(1)]) (simp_all add: int16_bytes_def)
  moreover have "queue_wf (q\<lparr>queue_sha := sha\<rparr>)" using assms(2) sha(1) by (simp add: queue_wf_def)
  ultimately show "queue_wf (snd (enqueue_int16 st i v q))"
    by (simp add: enqueue_int16_def h queue_wf_push)
qed (use assms in \<open>simp_all add: enqueue_bool_def enqueue_bytes_def enqueue_array_def queue_wf_push queued_message_ok\<close>)

lemma message_queued_pos:
  "length (message_queue q) < 2 ^ 31 \<Longrightarrow> message_queued q = int (length (message_queue q))"
  by (simp add: message_queued_def signed_of_nat signed_take_bit_int_eq_self)

lemma dequeue_Cons:
  assumes "message_queue q = m # ms" "length (message_queue q) < 2 ^ 31"
  shows "dequeue st q = Some (m\<lparr>valid := True\<rparr>, q\<lparr>message_queue := ms\<rparr>)"
  using assms message_queued_pos [of q] by (simp add: dequeue_def pop_message_def)

lemma dequeue_idle: "message_queued q \<le> 0 \<Longrightarrow> dequeue st q = Some ((new_message st)\<lparr>valid := False\<rparr>, q)"
  by (simp add: dequeue_def)

end
