(* ===== verification/Json11.thy ===== *)
theory Json11
  imports Std_Map "HOL-Library.Log_Nat"
begin

text \<open>
  The JSON library of the gateway, \<open>SHARED/json11/json11.cpp\<close>: the values, their accessors,
  \<open>dump\<close> and the recursive descent parser.  The parser's position in its input is the rest
  of the input that is still unread, the sticky \<open>failed\<close> flag with its first message is the
  left summand of the result, and the recursion carries fuel whose exhaustion is the separate
  result \<open>Out_of_fuel\<close>.
\<close>

section \<open>Doubles\<close>

text \<open>
  A \<open>double\<close> as \<open>strtod\<close> can produce it: sign, mantissa and binary exponent, or an
  infinity.  \<open>to_double s a b\<close> is the double nearest to \<open>a / b\<close>, ties to even.
\<close>

datatype double = Finite bool nat int | Infinite bool

definition div_round :: "nat \<Rightarrow> nat \<Rightarrow> nat" where
  "div_round a b =
     (let q = a div b; r = a mod b
      in if 2 * r < b \<or> (2 * r = b \<and> even q) then q else Suc q)"

definition scale_round :: "nat \<Rightarrow> nat \<Rightarrow> int \<Rightarrow> nat" where
  "scale_round a b e = (if 0 \<le> e then div_round a (b * 2 ^ nat e) else div_round (a * 2 ^ nat (- e)) b)"

definition to_double :: "bool \<Rightarrow> nat \<Rightarrow> nat \<Rightarrow> double" where
  "to_double s a b =
     (if a = 0 then Finite s 0 0
      else let l = int (floorlog 2 a) - int (floorlog 2 b);
               l = (if 0 \<le> l \<and> b * 2 ^ nat l \<le> a \<or> l < 0 \<and> b \<le> a * 2 ^ nat (- l) then l else l - 1);
               e = max (l - 52) (- 1074);
               m = scale_round a b e;
               (m, e) = (if m = 2 ^ 53 then (2 ^ 52, e + 1) else (m, e))
           in if 971 < e then Infinite s else Finite s m e)"

text \<open>The conversion to an integer truncates; infinities have no integer value.\<close>

fun double_trunc :: "double \<Rightarrow> int option" where
  "double_trunc (Infinite s) = None"
| "double_trunc (Finite s m e) =
     (let n = (if 0 \<le> e then m * 2 ^ nat e else m div 2 ^ nat (- e))
      in Some (if s then - int n else int n))"

section \<open>Values\<close>

datatype json =
    JNull
  | JInt int
  | JDouble double
  | JBool bool
  | JString string
  | JArray "json list"
  | JObject "(string, json) std_map"

definition is_null :: "json \<Rightarrow> bool" where
  "is_null v \<longleftrightarrow> v = JNull"

fun is_number :: "json \<Rightarrow> bool" where
  "is_number (JInt _) = True"
| "is_number (JDouble _) = True"
| "is_number _ = False"

fun is_bool :: "json \<Rightarrow> bool" where
  "is_bool (JBool _) = True"
| "is_bool _ = False"

fun is_string :: "json \<Rightarrow> bool" where
  "is_string (JString _) = True"
| "is_string _ = False"

fun is_array :: "json \<Rightarrow> bool" where
  "is_array (JArray _) = True"
| "is_array _ = False"

fun is_object :: "json \<Rightarrow> bool" where
  "is_object (JObject _) = True"
| "is_object _ = False"

text \<open>
  The accessors, with the neutral value for a value of another type.  The value of a number
  is only read behind a conversion to an integer type; \<open>None\<close> is a double whose
  integral part the target type cannot hold, where the conversion is undefined.
\<close>

definition in_int :: "int \<Rightarrow> int option" where
  "in_int k = (if - 2147483648 \<le> k \<and> k \<le> 2147483647 then Some k else None)"

definition in_uint :: "int \<Rightarrow> u32 option" where
  "in_uint k = (if 0 \<le> k \<and> k < 4294967296 then Some (word_of_int k) else None)"

fun int_value :: "json \<Rightarrow> int option" where
  "int_value (JInt k) = Some k"
| "int_value (JDouble d) = Option.bind (double_trunc d) in_int"
| "int_value _ = Some 0"

fun number_value_uint :: "json \<Rightarrow> u32 option" where
  "number_value_uint (JInt k) = in_uint k"
| "number_value_uint (JDouble d) = Option.bind (double_trunc d) in_uint"
| "number_value_uint _ = Some 0"

fun bool_value :: "json \<Rightarrow> bool" where
  "bool_value (JBool b) = b"
| "bool_value _ = False"

fun string_value :: "json \<Rightarrow> string" where
  "string_value (JString s) = s"
| "string_value _ = []"

fun array_items :: "json \<Rightarrow> json list" where
  "array_items (JArray vs) = vs"
| "array_items _ = []"

fun object_items :: "json \<Rightarrow> (string, json) std_map" where
  "object_items (JObject m) = m"
| "object_items _ = []"

definition obj_at :: "json \<Rightarrow> string \<Rightarrow> json" where
  "obj_at v k = (case map_find (object_items v) k of None \<Rightarrow> JNull | Some w \<Rightarrow> w)"

definition arr_at :: "json \<Rightarrow> nat \<Rightarrow> json" where
  "arr_at v i = (if i < length (array_items v) then array_items v ! i else JNull)"

section \<open>Serialisation\<close>

text \<open>\<open>%04x\<close>, and the bytes at \<open>value[i+1]\<close>, \<open>value[i+2]\<close>, which read the terminator at the end.\<close>

definition hex4 :: "nat \<Rightarrow> string" where
  "hex4 n = (let d = hex_digits n in replicate (4 - length d) (CHR ''0'') @ d)"

definition at_nul :: "string \<Rightarrow> nat \<Rightarrow> char" where
  "at_nul s i = (if i < length s then s ! i else NUL)"

fun dump_chars :: "string \<Rightarrow> string" where
  "dump_chars [] = []"
| "dump_chars (ch # s) =
     (if ch = CHR 0x5C then [CHR 0x5C, CHR 0x5C] @ dump_chars s
      else if ch = CHR 0x22 then [CHR 0x5C, CHR 0x22] @ dump_chars s
      else if ch = CHR 0x08 then [CHR 0x5C, CHR ''b''] @ dump_chars s
      else if ch = CHR 0x0C then [CHR 0x5C, CHR ''f''] @ dump_chars s
      else if ch = CHR 0x0A then [CHR 0x5C, CHR ''n''] @ dump_chars s
      else if ch = CHR 0x0D then [CHR 0x5C, CHR ''r''] @ dump_chars s
      else if ch = CHR 0x09 then [CHR 0x5C, CHR ''t''] @ dump_chars s
      else if char_code ch \<le> 0x1F then [CHR 0x5C, CHR ''u''] @ hex4 (char_code ch) @ dump_chars s
      else if ch = CHR 0xE2 \<and> at_nul s 0 = CHR 0x80 \<and> at_nul s 1 = CHR 0xA8
        then [CHR 0x5C, CHR ''u''] @ ''2028'' @ dump_chars (drop 2 s)
      else if ch = CHR 0xE2 \<and> at_nul s 0 = CHR 0x80 \<and> at_nul s 1 = CHR 0xA9
        then [CHR 0x5C, CHR ''u''] @ ''2029'' @ dump_chars (drop 2 s)
      else ch # dump_chars s)"

definition dump_string :: "string \<Rightarrow> string" where
  "dump_string s = [CHR 0x22] @ dump_chars s @ [CHR 0x22]"

fun sep_by :: "string list \<Rightarrow> string" where
  "sep_by [] = []"
| "sep_by [x] = x"
| "sep_by (x # xs) = x @ '', '' @ sep_by xs"

text \<open>
  \<open>%.17g\<close> of a finite double: the 17 significant decimal digits of its exact value, as a
  fixed-point number for decimal exponents from -4 to 16 and in scientific notation otherwise,
  without trailing zeros.
\<close>

definition strip_zeros :: "string \<Rightarrow> string" where
  "strip_zeros s = rev (dropWhile (\<lambda>c. c = CHR ''0'') (rev s))"

definition with_point :: "string \<Rightarrow> string \<Rightarrow> string" where
  "with_point a b = (let b = strip_zeros b in if b = [] then a else a @ ''.'' @ b)"

definition dec_round :: "nat \<Rightarrow> nat \<Rightarrow> int \<Rightarrow> nat" where
  "dec_round a b x = (if 0 \<le> x then div_round a (b * 10 ^ nat x) else div_round (a * 10 ^ nat (- x)) b)"

definition dec_exp :: "nat \<Rightarrow> nat \<Rightarrow> int" where
  "dec_exp a b =
     (let x = int (floorlog 10 a) - int (floorlog 10 b)
      in if 0 \<le> x \<and> b * 10 ^ nat x \<le> a \<or> x < 0 \<and> b \<le> a * 10 ^ nat (- x) then x else x - 1)"

definition pad2 :: "nat \<Rightarrow> string" where
  "pad2 n = (if n < 10 then CHR ''0'' # udec n else udec n)"

definition print17 :: "bool \<Rightarrow> nat \<Rightarrow> nat \<Rightarrow> string" where
  "print17 s a b =
     (if s then ''-'' else []) @
     (if a = 0 then ''0''
      else let x = dec_exp a b;
               d = dec_round a b (x - 16);
               (d, x) = (if d = 10 ^ 17 then (10 ^ 16, x + 1) else (d, x));
               ds = udec d
           in if x < - 4 \<or> 17 \<le> x
              then with_point (take 1 ds) (drop 1 ds) @ ''e'' @ (if x < 0 then ''-'' else ''+'') @ pad2 (nat \<bar>x\<bar>)
              else if 0 \<le> x then with_point (take (Suc (nat x)) ds) (drop (Suc (nat x)) ds)
              else with_point ''0'' (replicate (nat (- x) - 1) (CHR ''0'') @ ds))"

fun dump_double :: "double \<Rightarrow> string" where
  "dump_double (Infinite s) = ''null''"
| "dump_double (Finite s m e) =
     (if 0 \<le> e then print17 s (m * 2 ^ nat e) 1 else print17 s m (2 ^ nat (- e)))"

fun dump :: "json \<Rightarrow> string" where
  "dump JNull = ''null''"
| "dump (JInt k) = sdec k"
| "dump (JDouble d) = dump_double d"
| "dump (JBool b) = (if b then ''true'' else ''false'')"
| "dump (JString s) = dump_string s"
| "dump (JArray vs) = ''['' @ sep_by (map dump vs) @ '']''"
| "dump (JObject kvs) = ''{'' @ sep_by (map (\<lambda>(k, v). dump_string k @ '': '' @ dump v) kvs) @ ''}''"

section \<open>Parsing\<close>

datatype json_parse = STANDARD | COMMENTS

datatype parse_error = Failed string | Out_of_fuel

type_synonym 'a parsed = "parse_error + ('a \<times> string)"

text \<open>\<open>%d\<close> of a plain, signed \<open>char\<close>.\<close>

definition schar :: "char \<Rightarrow> int" where
  "schar c = (let n = int (char_code c) in if 128 \<le> n then n - 256 else n)"

definition esc :: "char \<Rightarrow> string" where
  "esc c =
     (if 0x20 \<le> char_code c \<and> char_code c \<le> 0x7F
      then [CHR 0x27, c, CHR 0x27] @ '' ('' @ sdec (schar c) @ '')''
      else ''('' @ sdec (schar c) @ '')'')"

definition is_ws :: "char \<Rightarrow> bool" where
  "is_ws c \<longleftrightarrow> c = CHR '' '' \<or> c = CR \<or> c = LF \<or> c = CHR 0x09"

definition consume_whitespace :: "string \<Rightarrow> string" where
  "consume_whitespace r = dropWhile is_ws r"

definition multi_line_end :: string where
  "multi_line_end = ''unexpected end of input inside multi-line comment''"

fun skip_multi_line :: "string \<Rightarrow> bool parsed" where
  "skip_multi_line (c # d # r) =
     (if c = CHR ''*'' \<and> d = CHR ''/'' then Inr (True, r) else skip_multi_line (d # r))"
| "skip_multi_line _ = Inl (Failed multi_line_end)"

fun consume_comment :: "string \<Rightarrow> bool parsed" where
  "consume_comment [] = Inr (False, [])"
| "consume_comment (c # r) =
     (if c \<noteq> CHR ''/'' then Inr (False, c # r)
      else case r of
             [] \<Rightarrow> Inl (Failed ''unexpected end of input after start of comment'')
           | d # r' \<Rightarrow>
               if d = CHR ''/'' then Inr (True, dropWhile (\<lambda>x. x \<noteq> LF) r')
               else if d = CHR ''*'' then skip_multi_line r'
               else Inl (Failed ''malformed comment''))"

lemma skip_multi_line_shorter: "skip_multi_line r = Inr (b, r') \<Longrightarrow> length r' < length r"
  by (induction r rule: skip_multi_line.induct) (auto split: if_splits)

lemma consume_comment_shorter:
  "consume_comment r = Inr (b, r') \<Longrightarrow> length r' < length r \<or> (\<not> b \<and> r' = r)"
  by (cases r rule: consume_comment.cases)
    (auto split: if_splits list.splits dest!: skip_multi_line_shorter intro: le_less_trans [OF length_dropWhile_le])

lemma consume_whitespace_le: "length (consume_whitespace r) \<le> length r"
  by (simp add: consume_whitespace_def length_dropWhile_le)

text \<open>The loop over comments runs on as long as it finds one, so the input shrinks.\<close>

function consume_comments :: "string \<Rightarrow> unit parsed" where
  "consume_comments r =
     (case consume_comment r of
        Inl e \<Rightarrow> Inl e
      | Inr (found, r') \<Rightarrow>
          if found then consume_comments (consume_whitespace r') else Inr ((), consume_whitespace r'))"
  by pat_completeness auto

termination consume_comments
proof (relation "measure length")
  fix r x found r'
  assume "consume_comment r = Inr x" "(found, r') = x" found
  then have "length r' < length r" using consume_comment_shorter [of r found r'] by auto
  then show "(consume_whitespace r', r) \<in> measure length"
    using consume_whitespace_le [of r'] by simp
qed simp

definition consume_garbage :: "json_parse \<Rightarrow> string \<Rightarrow> unit parsed" where
  "consume_garbage strategy r =
     (case strategy of
        STANDARD \<Rightarrow> Inr ((), consume_whitespace r)
      | COMMENTS \<Rightarrow> consume_comments (consume_whitespace r))"

definition get_next_token :: "json_parse \<Rightarrow> string \<Rightarrow> char parsed" where
  "get_next_token strategy r =
     (case consume_garbage strategy r of
        Inl e \<Rightarrow> Inl e
      | Inr (_, []) \<Rightarrow> Inl (Failed ''unexpected end of input'')
      | Inr (_, c # r') \<Rightarrow> Inr (c, r'))"

subsection \<open>Strings\<close>

definition utf8_bytes :: "nat \<Rightarrow> string" where
  "utf8_bytes pt =
     (if pt < 0x80 then [char_of pt]
      else if pt < 0x800 then [char_of (drop_bit 6 pt OR 0xC0), char_of ((pt AND 0x3F) OR 0x80)]
      else if pt < 0x10000 then
        [char_of (drop_bit 12 pt OR 0xE0), char_of ((drop_bit 6 pt AND 0x3F) OR 0x80), char_of ((pt AND 0x3F) OR 0x80)]
      else
        [char_of (drop_bit 18 pt OR 0xF0), char_of ((drop_bit 12 pt AND 0x3F) OR 0x80),
         char_of ((drop_bit 6 pt AND 0x3F) OR 0x80), char_of ((pt AND 0x3F) OR 0x80)])"

text \<open>The pending code point \<open>last_escaped_codepoint\<close>; \<open>None\<close> is its value \<open>-1\<close>.\<close>

definition encode_utf8 :: "nat option \<Rightarrow> string \<Rightarrow> string" where
  "encode_utf8 pt out = (case pt of None \<Rightarrow> out | Some p \<Rightarrow> out @ utf8_bytes p)"

definition hex_value :: "char \<Rightarrow> nat option" where
  "hex_value c =
     (if CHR ''a'' \<le> c \<and> c \<le> CHR ''f'' then Some (char_code c - 87)
      else if CHR ''A'' \<le> c \<and> c \<le> CHR ''F'' then Some (char_code c - 55)
      else if CHR ''0'' \<le> c \<and> c \<le> CHR ''9'' then Some (char_code c - 48)
      else None)"

fun strtol16 :: "string \<Rightarrow> nat \<Rightarrow> nat option" where
  "strtol16 [] acc = Some acc"
| "strtol16 (c # cs) acc = (case hex_value c of None \<Rightarrow> None | Some d \<Rightarrow> strtol16 cs (16 * acc + d))"

definition simple_escape :: "char \<Rightarrow> char option" where
  "simple_escape ch =
     (if ch = CHR ''b'' then Some (CHR 0x08)
      else if ch = CHR ''f'' then Some (CHR 0x0C)
      else if ch = CHR ''n'' then Some LF
      else if ch = CHR ''r'' then Some CR
      else if ch = CHR ''t'' then Some (CHR 0x09)
      else if ch = CHR 0x22 \<or> ch = CHR 0x5C \<or> ch = CHR ''/'' then Some ch
      else None)"

definition is_lead :: "nat option \<Rightarrow> bool" where
  "is_lead pt = (case pt of None \<Rightarrow> False | Some p \<Rightarrow> 0xD800 \<le> p \<and> p \<le> 0xDBFF)"

definition end_in_string :: parse_error where
  "end_in_string = Failed ''unexpected end of input in string''"

fun parse_string :: "string \<Rightarrow> nat option \<Rightarrow> string \<Rightarrow> string parsed" where
  "parse_string out lc [] = Inl end_in_string"
| "parse_string out lc (ch # r) =
     (if ch = CHR 0x22 then Inr (encode_utf8 lc out, r)
      else if char_code ch \<le> 0x1F then Inl (Failed (''unescaped '' @ esc ch @ '' in string''))
      else if ch \<noteq> CHR 0x5C then parse_string (encode_utf8 lc out @ [ch]) None r
      else case r of
             [] \<Rightarrow> Inl end_in_string
           | e # r' \<Rightarrow>
               if e = CHR ''u'' then
                 (if length (take 4 r') < 4 then Inl (Failed (''bad '' @ [CHR 0x5C] @ ''u escape: '' @ take 4 r'))
                  else case strtol16 (take 4 r') 0 of
                         None \<Rightarrow> Inl (Failed (''bad '' @ [CHR 0x5C] @ ''u escape: '' @ take 4 r'))
                       | Some cp \<Rightarrow>
                           if is_lead lc \<and> 0xDC00 \<le> cp \<and> cp \<le> 0xDFFF
                           then parse_string
                                  (encode_utf8 (Some ((push_bit 10 (the lc - 0xD800) OR (cp - 0xDC00)) + 0x10000)) out)
                                  None (drop 4 r')
                           else parse_string (encode_utf8 lc out) (Some cp) (drop 4 r'))
               else case simple_escape e of
                      None \<Rightarrow> Inl (Failed (''invalid escape character '' @ esc e))
                    | Some c \<Rightarrow> parse_string (encode_utf8 lc out @ [c]) None r')"

subsection \<open>Numbers\<close>

definition is_dig :: "char \<Rightarrow> bool" where
  "is_dig c \<longleftrightarrow> CHR ''0'' \<le> c \<and> c \<le> CHR ''9''"

definition skip_digits :: "string \<Rightarrow> string" where
  "skip_digits r = dropWhile is_dig r"

text \<open>
  \<open>atoi\<close> and \<open>strtod\<close> on the text of a number: sign, digits, fraction and exponent.  The text
  behind the number never extends it, since the parser has read as far as the grammar goes.
\<close>

definition atoi_number :: "string \<Rightarrow> int" where
  "atoi_number t =
     (if at_nul t 0 = CHR ''-'' then - int (dec_value (takeWhile is_dig (drop 1 t)))
      else int (dec_value (takeWhile is_dig t)))"

definition strtod_number :: "string \<Rightarrow> double" where
  "strtod_number t =
     (let neg = (at_nul t 0 = CHR ''-'');
          t = (if neg then drop 1 t else t);
          ip = takeWhile is_dig t;
          r = skip_digits t;
          fp = (if at_nul r 0 = CHR ''.'' then takeWhile is_dig (drop 1 r) else []);
          r = (if at_nul r 0 = CHR ''.'' then skip_digits (drop 1 r) else r);
          x = (if at_nul r 0 = CHR ''e'' \<or> at_nul r 0 = CHR ''E''
               then let s = at_nul r 1
                    in if s = CHR ''-'' then - int (dec_value (drop 2 r))
                       else if s = CHR ''+'' then int (dec_value (drop 2 r))
                       else int (dec_value (drop 1 r))
               else 0);
          k = x - int (length fp);
          n = dec_value (ip @ fp)
      in if 0 \<le> k then to_double neg (n * 10 ^ nat k) 1 else to_double neg n (10 ^ nat (- k)))"

definition number_fraction :: "string \<Rightarrow> string parsed" where
  "number_fraction r =
     (if at_nul r 0 = CHR ''.''
      then if is_dig (at_nul r 1) then Inr ([], skip_digits (drop 1 r))
           else Inl (Failed ''at least one digit required in fractional part'')
      else Inr ([], r))"

definition number_exponent :: "string \<Rightarrow> string parsed" where
  "number_exponent r =
     (if at_nul r 0 = CHR ''e'' \<or> at_nul r 0 = CHR ''E''
      then let r = drop 1 r;
               r = (if at_nul r 0 = CHR ''+'' \<or> at_nul r 0 = CHR ''-'' then drop 1 r else r)
           in if is_dig (at_nul r 0) then Inr ([], skip_digits r)
              else Inl (Failed ''at least one digit required in exponent'')
      else Inr ([], r))"

definition number_integer :: "string \<Rightarrow> string parsed" where
  "number_integer r =
     (if at_nul r 0 = CHR ''0''
      then if is_dig (at_nul r 1) then Inl (Failed ''leading 0s not permitted in numbers'')
           else Inr ([], drop 1 r)
      else if is_dig (at_nul r 0) then Inr ([], skip_digits r)
      else Inl (Failed (''invalid '' @ esc (at_nul r 0) @ '' in number'')))"

definition digits10 :: nat where
  "digits10 = 9"

definition parse_number :: "string \<Rightarrow> json parsed" where
  "parse_number r0 =
     (case number_integer (if at_nul r0 0 = CHR ''-'' then drop 1 r0 else r0) of
        Inl e \<Rightarrow> Inl e
      | Inr (_, r) \<Rightarrow>
          if at_nul r 0 \<noteq> CHR ''.'' \<and> at_nul r 0 \<noteq> CHR ''e'' \<and> at_nul r 0 \<noteq> CHR ''E''
             \<and> length r0 - length r \<le> digits10
          then Inr (JInt (atoi_number r0), r)
          else case number_fraction r of
                 Inl e \<Rightarrow> Inl e
               | Inr (_, r) \<Rightarrow>
                   case number_exponent r of
                     Inl e \<Rightarrow> Inl e
                   | Inr (_, r) \<Rightarrow> Inr (JDouble (strtod_number (take (length r0 - length r) r0)), r))"

definition expect :: "string \<Rightarrow> json \<Rightarrow> string \<Rightarrow> json parsed" where
  "expect expected res r =
     (if take (length expected) r = expected then Inr (res, drop (length expected) r)
      else Inl (Failed (''parse error: expected '' @ expected @ '', got '' @ take (length expected) r)))"

subsection \<open>Values\<close>

definition max_depth :: nat where
  "max_depth = 200"

definition got :: "string \<Rightarrow> char \<Rightarrow> parse_error" where
  "got what ch = Failed (''expected '' @ what @ '', got '' @ esc ch)"

definition quoted :: "char \<Rightarrow> string" where
  "quoted c = [CHR 0x27, c, CHR 0x27]"

text \<open>A parser step that runs when the one before it has not failed.\<close>

definition and_then :: "'a parsed \<Rightarrow> ('a \<Rightarrow> string \<Rightarrow> 'b parsed) \<Rightarrow> 'b parsed" where
  "and_then x f = (case x of Inl e \<Rightarrow> Inl e | Inr (v, r) \<Rightarrow> f v r)"

text \<open>
  The recursion of \<open>parse_json\<close>: a value at a nesting depth, one turn of the loop over the
  members of an object, entered with the token just read, and one turn of the loop over the
  elements of a list, entered with the token put back.  Each step is given the recursive call.
\<close>

datatype task =
    Value nat string
  | Members nat "(string, json) std_map" char string
  | Elements nat "json list" string

definition members_step ::
  "(task \<Rightarrow> json parsed) \<Rightarrow> json_parse \<Rightarrow> nat \<Rightarrow> (string, json) std_map \<Rightarrow> char \<Rightarrow> string \<Rightarrow> json parsed" where
  "members_step rc st depth kvs ch r =
     (if ch \<noteq> CHR 0x22 then Inl (got (quoted (CHR 0x22) @ '' in object'') ch)
      else and_then (parse_string [] None r) (\<lambda>key r.
        and_then (get_next_token st r) (\<lambda>ch r.
          if ch \<noteq> CHR '':'' then Inl (got (quoted (CHR '':'') @ '' in object'') ch)
          else and_then (rc (Value (Suc depth) r)) (\<lambda>v r.
            and_then (get_next_token st r) (\<lambda>ch r.
              if ch = CHR ''}'' then Inr (JObject (map_set kvs key v), r)
              else if ch \<noteq> CHR '','' then Inl (got (quoted (CHR '','') @ '' in object'') ch)
              else and_then (get_next_token st r) (\<lambda>ch r. rc (Members depth (map_set kvs key v) ch r)))))))"

definition elements_step ::
  "(task \<Rightarrow> json parsed) \<Rightarrow> json_parse \<Rightarrow> nat \<Rightarrow> json list \<Rightarrow> string \<Rightarrow> json parsed" where
  "elements_step rc st depth vs r =
     and_then (rc (Value (Suc depth) r)) (\<lambda>v r.
       and_then (get_next_token st r) (\<lambda>ch r.
         if ch = CHR '']'' then Inr (JArray (vs @ [v]), r)
         else if ch \<noteq> CHR '','' then Inl (got (quoted (CHR '','') @ '' in list'') ch)
         else and_then (get_next_token st r) (\<lambda>ch r. rc (Elements depth (vs @ [v]) (ch # r)))))"

definition value_step :: "(task \<Rightarrow> json parsed) \<Rightarrow> json_parse \<Rightarrow> nat \<Rightarrow> string \<Rightarrow> json parsed" where
  "value_step rc st depth r =
     (if max_depth < depth then Inl (Failed ''exceeded maximum nesting depth'')
      else and_then (get_next_token st r) (\<lambda>ch r.
        if ch = CHR ''-'' \<or> is_dig ch then parse_number (ch # r)
        else if ch = CHR ''t'' then expect ''true'' (JBool True) (ch # r)
        else if ch = CHR ''f'' then expect ''false'' (JBool False) (ch # r)
        else if ch = CHR ''n'' then expect ''null'' JNull (ch # r)
        else if ch = CHR 0x22 then and_then (parse_string [] None r) (\<lambda>s r. Inr (JString s, r))
        else if ch = CHR ''{'' then and_then (get_next_token st r) (\<lambda>ch r.
          if ch = CHR ''}'' then Inr (JObject [], r) else rc (Members depth [] ch r))
        else if ch = CHR ''['' then and_then (get_next_token st r) (\<lambda>ch r.
          if ch = CHR '']'' then Inr (JArray [], r) else rc (Elements depth [] (ch # r)))
        else Inl (got ''value'' ch)))"

primrec run_parser :: "nat \<Rightarrow> json_parse \<Rightarrow> task \<Rightarrow> json parsed" where
  "run_parser 0 st t = Inl Out_of_fuel"
| "run_parser (Suc n) st t =
     (case t of
        Value depth r \<Rightarrow> value_step (run_parser n st) st depth r
      | Members depth kvs ch r \<Rightarrow> members_step (run_parser n st) st depth kvs ch r
      | Elements depth vs r \<Rightarrow> elements_step (run_parser n st) st depth vs r)"

definition parse_json :: "nat \<Rightarrow> json_parse \<Rightarrow> nat \<Rightarrow> string \<Rightarrow> json parsed" where
  "parse_json n st depth r = run_parser n st (Value depth r)"

definition parse_fuel :: "string \<Rightarrow> nat" where
  "parse_fuel r = 2 * length r + 2"

definition parse :: "json_parse \<Rightarrow> string \<Rightarrow> parse_error + json" where
  "parse st s =
     (case parse_json (parse_fuel s) st 0 s of
        Inl e \<Rightarrow> Inl e
      | Inr (v, r) \<Rightarrow>
          (case consume_garbage st r of
             Inl e \<Rightarrow> Inl e
           | Inr (_, []) \<Rightarrow> Inr v
           | Inr (_, c # _) \<Rightarrow> Inl (Failed (''unexpected trailing '' @ esc c))))"

text \<open>The overload for C strings reads up to the first terminator.\<close>

definition parse_cstr :: "json_parse \<Rightarrow> string \<Rightarrow> parse_error + json" where
  "parse_cstr st s = parse st (takeWhile (\<lambda>c. c \<noteq> NUL) s)"

text \<open>\<open>parse_multi\<close>: the values read, and what is left unread at \<open>parser_stop_pos\<close>.\<close>

fun parse_multi_loop :: "nat \<Rightarrow> json_parse \<Rightarrow> string \<Rightarrow> string \<Rightarrow> json list \<Rightarrow> parse_error option \<times> json list \<times> string" where
  "parse_multi_loop 0 st stop r vs = (Some Out_of_fuel, vs, stop)"
| "parse_multi_loop (Suc n) st stop r vs =
     (if r = [] then (None, vs, stop)
      else case parse_json (parse_fuel r) st 0 r of
        Inl e \<Rightarrow> (Some e, vs @ [JNull], stop)
      | Inr (v, r) \<Rightarrow>
          (case consume_garbage st r of
             Inl e \<Rightarrow> (Some e, vs @ [v], stop)
           | Inr (_, r) \<Rightarrow> parse_multi_loop n st r r (vs @ [v])))"

definition parse_multi :: "json_parse \<Rightarrow> string \<Rightarrow> parse_error option \<times> json list \<times> nat" where
  "parse_multi st s =
     (case parse_multi_loop (Suc (length s)) st s s [] of (e, vs, stop) \<Rightarrow> (e, vs, length s - length stop))"

datatype json_type = T_NUL | T_NUMBER | T_BOOL | T_STRING | T_ARRAY | T_OBJECT

fun type_of_json :: "json \<Rightarrow> json_type" where
  "type_of_json JNull = T_NUL"
| "type_of_json (JInt _) = T_NUMBER"
| "type_of_json (JDouble _) = T_NUMBER"
| "type_of_json (JBool _) = T_BOOL"
| "type_of_json (JString _) = T_STRING"
| "type_of_json (JArray _) = T_ARRAY"
| "type_of_json (JObject _) = T_OBJECT"

fun has_shape_items :: "json \<Rightarrow> (string \<times> json_type) list \<Rightarrow> string option" where
  "has_shape_items v [] = None"
| "has_shape_items v ((k, t) # ts) =
     (case map_find (object_items v) k of
        None \<Rightarrow> Some (''bad type for '' @ k @ '' in '' @ dump v)
      | Some w \<Rightarrow> if type_of_json w \<noteq> t then Some (''bad type for '' @ k @ '' in '' @ dump v) else has_shape_items v ts)"

text \<open>\<open>None\<close> when the shape fits, otherwise the message left in \<open>err\<close>.\<close>

definition has_shape :: "json \<Rightarrow> (string \<times> json_type) list \<Rightarrow> string option" where
  "has_shape v ts = (if is_object v then has_shape_items v ts else Some (''expected JSON object, got '' @ dump v))"

end
