(* ===== verification/Json11_Props.thy ===== *)
theory Json11_Props
  imports Json11
begin

text \<open>
  The parser of json11 is total, within fuel linear in the input, and reads back what
  \<open>dump\<close> wrote.
\<close>

section \<open>Progress and totality\<close>

definition good :: "nat \<Rightarrow> 'a parsed \<Rightarrow> bool" where
  "good k x \<longleftrightarrow> (case x of Inl e \<Rightarrow> e \<noteq> Out_of_fuel | Inr (v, r) \<Rightarrow> length r < k)"

lemma good_Inr [simp]: "good k (Inr (v, r)) \<longleftrightarrow> length r < k"
  by (simp add: good_def)

lemma good_Failed [simp]: "good k (Inl (Failed m))"
  by (simp add: good_def)

lemma good_got [simp]: "good k (Inl (got w c))"
  by (simp add: got_def)

lemma good_and_then:
  assumes "good k x" "\<And>v r. length r < k \<Longrightarrow> good m (f v r)"
  shows "good m (and_then x f)"
proof (cases x)
  case (Inr p)
  with assms show ?thesis by (cases p) (simp add: and_then_def)
qed (use assms in \<open>simp add: and_then_def good_def\<close>)

lemma good_mono: "good k x \<Longrightarrow> k \<le> m \<Longrightarrow> good m x"
  by (auto simp: good_def split: sum.splits prod.splits)

lemma skip_multi_line_good: "good (length r) (skip_multi_line r)"
proof (cases "skip_multi_line r")
  case (Inl e)
  then show ?thesis
    by (induction r rule: skip_multi_line.induct) (auto simp: good_def split: if_splits)
next
  case (Inr p)
  then show ?thesis using skip_multi_line_shorter [of r "fst p" "snd p"] by (cases p) simp
qed

lemma consume_comment_error: "consume_comment r \<noteq> Inl Out_of_fuel"
proof (cases r)
  case (Cons c r')
  then show ?thesis
    using skip_multi_line_good [of "tl r'"] by (cases r') (auto simp: good_def split: sum.splits)
qed simp

lemma consume_comments_good: "good (Suc (length r)) (consume_comments r)"
proof (induction r rule: consume_comments.induct)
  case (1 r)
  show ?case
  proof (cases "consume_comment r")
    case (Inl e)
    then show ?thesis using consume_comment_error [of r] by (auto simp: good_def)
  next
    case (Inr p)
    obtain b r' where p: "p = (b, r')" by fastforce
    note short = consume_comment_shorter [of r b r', OF Inr [unfolded p]]
    show ?thesis
    proof (cases b)
      case True
      then have "good (Suc (length (consume_whitespace r'))) (consume_comments (consume_whitespace r'))"
        using "1" Inr p by blast
      moreover have "length (consume_whitespace r') \<le> length r"
        using short True consume_whitespace_le [of r'] by simp
      ultimately show ?thesis
        using Inr p True by (subst consume_comments.simps) (auto elim: good_mono)
    next
      case False
      then show ?thesis
        using short Inr p consume_whitespace_le [of r'] by (subst consume_comments.simps) auto
    qed
  qed
qed

declare consume_comments.simps [simp del]

lemma consume_garbage_good: "good (Suc (length r)) (consume_garbage st r)"
proof (cases st)
  case STANDARD
  then show ?thesis using consume_whitespace_le [of r] by (simp add: consume_garbage_def)
next
  case COMMENTS
  then show ?thesis
    using good_mono [OF consume_comments_good [of "consume_whitespace r"], of "Suc (length r)"]
      consume_whitespace_le [of r]
    by (simp add: consume_garbage_def)
qed

lemma get_next_token_good: "good (length r) (get_next_token st r)"
  using consume_garbage_good [of r st]
  by (auto simp: get_next_token_def good_def split: sum.splits prod.splits list.splits)

lemma parse_string_good: "good (length r) (parse_string out lc r)"
proof (induction out lc r rule: parse_string.induct)
  case (2 out lc ch r)
  show ?case
  proof (cases r)
    case Nil
    then show ?thesis by (simp add: end_in_string_def)
  next
    case (Cons e r')
    note IH = "2.IH"(1) "2.IH"(2-4) [OF _ _ _ Cons]
    note bound = IH [THEN good_mono [where m = "length (ch # r)"]]
    show ?thesis
      using bound by (simp add: Cons split: option.split)
  qed
qed (simp add: end_in_string_def)

lemma drop1_le: "length (drop 1 r) \<le> length r"
  by simp

lemma skip_digits_le: "length (skip_digits r) \<le> length r"
  by (simp add: skip_digits_def length_dropWhile_le)

lemma skip_digits_less: "is_dig (at_nul r 0) \<Longrightarrow> length (skip_digits r) < length r"
proof (cases r)
  case (Cons c r')
  assume "is_dig (at_nul r 0)"
  then show ?thesis using skip_digits_le [of r'] by (simp add: Cons at_nul_def skip_digits_def)
qed (simp add: at_nul_def is_dig_def less_eq_char_def)

lemma number_integer_good: "good (length r) (number_integer r)"
proof -
  have "at_nul r 0 = CHR ''0'' \<Longrightarrow> length (drop 1 r) < length r"
    by (cases r) (simp_all add: at_nul_def)
  then show ?thesis using skip_digits_less [of r] by (auto simp: number_integer_def)
qed

lemma number_fraction_good: "good (Suc (length r)) (number_fraction r)"
  using le_trans [OF skip_digits_le drop1_le, of r] by (simp add: number_fraction_def)

lemma number_exponent_good: "good (Suc (length r)) (number_exponent r)"
proof -
  have "length (skip_digits (drop 1 (drop 1 r))) \<le> length r" "length (skip_digits (drop 1 r)) \<le> length r"
    using skip_digits_le [of "drop 1 (drop 1 r)"] skip_digits_le [of "drop 1 r"] by simp_all
  then show ?thesis by (simp add: number_exponent_def Let_def)
qed

lemma parse_number_good: "good (length r0) (parse_number r0)"
proof -
  define r where "r = (if at_nul r0 0 = CHR ''-'' then drop 1 r0 else r0)"
  have "good (length r0) (number_integer r)"
    by (rule good_mono [OF number_integer_good]) (simp add: r_def)
  then show ?thesis
    using number_fraction_good number_exponent_good
    unfolding parse_number_def r_def [symmetric]
    by (fastforce simp: good_def split: sum.splits prod.splits)
qed

lemma expect_good: "expected \<noteq> [] \<Longrightarrow> good (length r) (expect expected res r)"
  by (cases r; cases expected) (auto simp: expect_def)

fun task_size :: "task \<Rightarrow> nat" where
  "task_size (Value d r) = length r"
| "task_size (Members d kvs ch r) = length r"
| "task_size (Elements d vs r) = length r"

fun task_need :: "task \<Rightarrow> nat" where
  "task_need (Value d r) = 2 * length r + 1"
| "task_need (Members d kvs ch r) = 2 * length r + 2"
| "task_need (Elements d vs r) = 2 * length r + 2"

lemma value_step_good:
  assumes rc: "\<And>t. task_need t < 2 * length r + 1 \<Longrightarrow> good (task_size t) (rc t)"
  shows "good (length r) (value_step rc st depth r)"
proof -
  have obj: "good (length r) (and_then (get_next_token st r1) (\<lambda>ch r.
          if ch = CHR ''}'' then Inr (JObject [], r) else rc (Members depth [] ch r)))"
    if "length r1 < length r" for r1 :: string
  proof (rule good_and_then [OF get_next_token_good])
    fix ch and r2 :: string assume "length r2 < length r1"
    then show "good (length r) (if ch = CHR ''}'' then Inr (JObject [], r2) else rc (Members depth [] ch r2))"
      using that good_mono [OF rc [of "Members depth [] ch r2"], of "length r"] by simp
  qed
  have arr: "good (length r) (and_then (get_next_token st r1) (\<lambda>ch r.
          if ch = CHR '']'' then Inr (JArray [], r) else rc (Elements depth [] (ch # r))))"
    if "length r1 < length r" for r1 :: string
  proof (rule good_and_then [OF get_next_token_good])
    fix ch and r2 :: string assume "length r2 < length r1"
    then show "good (length r) (if ch = CHR '']'' then Inr (JArray [], r2) else rc (Elements depth [] (ch # r2)))"
      using that good_mono [OF rc [of "Elements depth [] (ch # r2)"], of "length r"] by simp
  qed
  have str: "good (length r) (and_then (parse_string [] None r1) (\<lambda>s r. Inr (JString s, r)))"
    if "length r1 < length r" for r1 :: string
    by (rule good_and_then [OF parse_string_good]) (use that in simp)
  have num: "good (length r) (parse_number (ch # r1))" if "length r1 < length r" for ch and r1 :: string
    using that good_mono [OF parse_number_good, of "ch # r1" "length r"] by simp
  have lit: "good (length r) (expect ex v (ch # r1))" if "length r1 < length r" "ex \<noteq> []" for ex v ch and r1 :: string
    using that good_mono [OF expect_good, of ex "ch # r1" "length r"] by simp
  show ?thesis
    unfolding value_step_def
    by (auto intro!: good_and_then [OF get_next_token_good] obj arr str num lit)
qed

lemma members_step_good:
  assumes rc: "\<And>t. task_need t < 2 * length r + 2 \<Longrightarrow> good (task_size t) (rc t)"
  shows "good (length r) (members_step rc st depth kvs ch r)"
proof -
  have more: "good (length r) (and_then (get_next_token st r4) (\<lambda>ch r. rc (Members depth kvs' ch r)))"
    if "length r4 < length r" for r4 :: string and kvs'
  proof (rule good_and_then [OF get_next_token_good])
    fix ch and r5 :: string assume "length r5 < length r4"
    then show "good (length r) (rc (Members depth kvs' ch r5))"
      using that good_mono [OF rc [of "Members depth kvs' ch r5"], of "length r"] by simp
  qed
  have val: "good (length r2) (rc (Value (Suc depth) r2))" if "length r2 < length r" for r2 :: string
    using that rc [of "Value (Suc depth) r2"] by simp
  show ?thesis
    unfolding members_step_def
    by (auto intro!: good_and_then [OF parse_string_good] good_and_then [OF get_next_token_good]
        good_and_then [OF val] more dest: less_trans)
qed

lemma elements_step_good:
  assumes rc: "\<And>t. task_need t < 2 * length r + 2 \<Longrightarrow> good (task_size t) (rc t)"
  shows "good (length r) (elements_step rc st depth vs r)"
proof -
  have more: "good (length r) (and_then (get_next_token st r2) (\<lambda>ch r. rc (Elements depth vs' (ch # r))))"
    if "length r2 < length r" for r2 :: string and vs'
  proof (rule good_and_then [OF get_next_token_good])
    fix ch and r3 :: string assume "length r3 < length r2"
    then show "good (length r) (rc (Elements depth vs' (ch # r3)))"
      using that good_mono [OF rc [of "Elements depth vs' (ch # r3)"], of "length r"] by simp
  qed
  have val: "good (length r) (rc (Value (Suc depth) r))"
    using rc [of "Value (Suc depth) r"] by simp
  show ?thesis
    unfolding elements_step_def
    by (auto intro!: good_and_then [OF val] good_and_then [OF get_next_token_good] more dest: less_trans)
qed

lemma run_parser_good: "task_need t \<le> n \<Longrightarrow> good (task_size t) (run_parser n st t)"
proof (induction n arbitrary: t)
  case 0
  then show ?case by (cases t) simp_all
next
  case (Suc n)
  have rc: "good (task_size u) (run_parser n st u)" if "task_need u < task_need t" for u
    using Suc.IH [of u] Suc.prems that by simp
  show ?case
  proof (cases t)
    case (Value d r)
    then show ?thesis using rc by (simp add: value_step_good)
  next
    case (Members d kvs ch r)
    then show ?thesis using rc by (simp add: members_step_good)
  next
    case (Elements d vs r)
    then show ?thesis using rc by (simp add: elements_step_good)
  qed
qed

definition out_of_fuel :: "parse_error + 'a \<Rightarrow> bool" where
  "out_of_fuel x \<longleftrightarrow> x = Inl Out_of_fuel"

text \<open>C25: Json::parse always returns: in both strategies and for every input, the fuel of twice
  its length (plus two) is never exhausted, so the result is a value or one of the parser's own messages.\<close>

theorem json_parse_total: "\<not> out_of_fuel (parse st s)"
proof -
  have "good (length s) (parse_json (parse_fuel s) st 0 s)"
    using run_parser_good [of "Value 0 s" "parse_fuel s" st] by (simp add: parse_json_def parse_fuel_def)
  then show ?thesis
    using consume_garbage_good [of _ st]
    by (fastforce simp: parse_def good_def out_of_fuel_def split: sum.splits prod.splits list.splits)
qed

section \<open>Reading back what was written\<close>

text \<open>
  The values that survive: integers of at most nine characters (longer ones come back as
  doubles), any string, objects whose members are in the order of a map, nested no deeper than
  the parser allows.
\<close>

fun json_ok :: "nat \<Rightarrow> json \<Rightarrow> bool" where
  "json_ok d (JDouble _) = False"
| "json_ok d (JInt k) = (d \<le> max_depth \<and> - 99999999 \<le> k \<and> k \<le> 999999999)"
| "json_ok d (JArray vs) = (d \<le> max_depth \<and> list_all (json_ok (Suc d)) vs)"
| "json_ok d (JObject kvs) =
     (d \<le> max_depth \<and> map_wf kvs \<and> list_all (\<lambda>(k, v). json_ok (Suc d) v) kvs)"
| "json_ok d _ = (d \<le> max_depth)"

lemma json_ok_depth: "json_ok d v \<Longrightarrow> d \<le> max_depth"
  by (cases v) auto

text \<open>The first character of a value is a token: neither white space nor the start of a comment.\<close>

definition is_token :: "char \<Rightarrow> bool" where
  "is_token c \<longleftrightarrow> \<not> is_ws c \<and> c \<noteq> CHR ''/''"

lemma garbage_token: "is_token c \<Longrightarrow> consume_garbage st (c # r) = Inr ((), c # r)"
  by (cases st)
    (simp_all add: consume_garbage_def consume_whitespace_def is_token_def consume_comments.simps)

lemma next_token: "is_token c \<Longrightarrow> get_next_token st (c # r) = Inr (c, r)"
  by (simp add: get_next_token_def garbage_token)

lemma next_token_space: "is_token c \<Longrightarrow> get_next_token st (CHR '' '' # c # r) = Inr (c, r)"
proof -
  assume c: "is_token c"
  then have "consume_garbage st (CHR '' '' # c # r) = consume_garbage st (c # r)"
    by (cases st) (simp_all add: consume_garbage_def consume_whitespace_def is_ws_def)
  with c show ?thesis by (simp add: get_next_token_def garbage_token)
qed

subsection \<open>Strings\<close>

lemma hex4_small: "n \<le> 31 \<Longrightarrow> strtol16 (hex4 n) 0 = Some n \<and> length (hex4 n) = 4"
proof -
  assume "n \<le> 31"
  then have "n \<in> set [0..<32]" by simp
  moreover have "list_all (\<lambda>n. strtol16 (hex4 n) 0 = Some n \<and> length (hex4 n) = 4) [0..<32]"
    by code_simp
  ultimately show ?thesis by (simp add: list_all_iff)
qed

lemma take_hex4: "n \<le> 31 \<Longrightarrow> take 4 (hex4 n @ r) = hex4 n \<and> drop 4 (hex4 n @ r) = r"
  using hex4_small [of n] by simp

lemma utf8_separators:
  "utf8_bytes 0x2028 = [CHR 0xE2, CHR 0x80, CHR 0xA8]" "utf8_bytes 0x2029 = [CHR 0xE2, CHR 0x80, CHR 0xA9]"
  by (simp_all add: utf8_bytes_def) code_simp+

lemma strtol_separators: "strtol16 ''2028'' 0 = Some 0x2028" "strtol16 ''2029'' 0 = Some 0x2029"
  by (simp_all add: hex_value_def char_code_def less_eq_char_def)

lemma utf8_small: "char_code c \<le> 31 \<Longrightarrow> utf8_bytes (char_code c) = [c]"
  by (simp add: utf8_bytes_def) (simp add: char_code_def)

lemma at_nul_two:
  "at_nul s 0 = c \<and> at_nul s 1 = d \<Longrightarrow> c \<noteq> NUL \<Longrightarrow> d \<noteq> NUL \<Longrightarrow> s = c # d # drop 2 s"
  by (cases s; cases "tl s") (auto simp: at_nul_def split: if_splits)

lemma parse_escape_u:
  assumes "take 4 r = e" "length e = 4" "strtol16 e 0 = Some cp" "\<not> is_lead lc"
  shows "parse_string out lc (CHR 0x5C # CHR ''u'' # r) = parse_string (encode_utf8 lc out) (Some cp) (drop 4 r)"
  using assms by (auto simp: char_code_def)

lemma parse_escape_simple:
  assumes "simple_escape e = Some c" "e \<noteq> CHR ''u''"
  shows "parse_string out lc (CHR 0x5C # e # r) = parse_string (encode_utf8 lc out @ [c]) None r"
  using assms by (simp add: char_code_def)

lemma parse_plain:
  assumes "ch \<noteq> CHR 0x22" "31 < char_code ch" "ch \<noteq> CHR 0x5C"
  shows "parse_string out lc (ch # r) = parse_string (encode_utf8 lc out @ [ch]) None r"
  using assms by simp

lemmas parse_escape_2028 = parse_escape_u [where e = "''2028''" and cp = "0x2028"]
lemmas parse_escape_2029 = parse_escape_u [where e = "''2029''" and cp = "0x2029"]

declare parse_string.simps(2) [simp del]
declare dump_chars.simps(2) [simp del]

lemma encode_None [simp]: "encode_utf8 None out = out"
  by (simp add: encode_utf8_def)

lemma encode_Some: "encode_utf8 (Some p) out = out @ utf8_bytes p"
  by (simp add: encode_utf8_def)

lemma is_lead_None [simp]: "\<not> is_lead None"
  by (simp add: is_lead_def)

text \<open>The branches of the escaping loop, as a chain of guards.\<close>

lemma guard_cases:
  obtains (c1) a | (c2) b | (c3) c | (c4) d | (c5) e | (c6) f | (c7) g
    | (ctl) "\<not> a" "\<not> b" "\<not> c" "\<not> d" "\<not> e" "\<not> f" "\<not> g" x
    | (s8) "\<not> a" "\<not> b" "\<not> c" "\<not> d" "\<not> e" "\<not> f" "\<not> g" "\<not> x" y
    | (s9) "\<not> a" "\<not> b" "\<not> c" "\<not> d" "\<not> e" "\<not> f" "\<not> g" "\<not> x" z
    | (pl) "\<not> a" "\<not> b" "\<not> c" "\<not> d" "\<not> e" "\<not> f" "\<not> g" "\<not> x" "\<not> y" "\<not> z"
  by blast

lemma parse_dump_chars:
  "\<not> is_lead lc \<Longrightarrow> parse_string out lc (dump_chars s @ CHR 0x22 # r) = Inr (encode_utf8 lc out @ s, r)"
proof (induction s arbitrary: out lc rule: dump_chars.induct)
  case 1
  then show ?case by (simp add: parse_string.simps)
next
  case (2 ch s)
  note IH = "2.IH"
  consider
      (simple) e where "dump_chars (ch # s) = [CHR 0x5C, e] @ dump_chars s" "simple_escape e = Some ch" "e \<noteq> CHR ''u''"
        "\<And>out lc. \<not> is_lead lc \<Longrightarrow> parse_string out lc (dump_chars s @ CHR 0x22 # r) = Inr (encode_utf8 lc out @ s, r)"
    | (control) "dump_chars (ch # s) = [CHR 0x5C, CHR ''u''] @ hex4 (char_code ch) @ dump_chars s" "char_code ch \<le> 31"
        "\<And>out lc. \<not> is_lead lc \<Longrightarrow> parse_string out lc (dump_chars s @ CHR 0x22 # r) = Inr (encode_utf8 lc out @ s, r)"
    | (sep) t p where "dump_chars (ch # s) = [CHR 0x5C, CHR ''u''] @ t @ dump_chars (drop 2 s)"
        "length t = 4" "strtol16 t 0 = Some p" "\<not> is_lead (Some p)" "utf8_bytes p @ drop 2 s = ch # s"
        "\<And>out lc. \<not> is_lead lc \<Longrightarrow> parse_string out lc (dump_chars (drop 2 s) @ CHR 0x22 # r) = Inr (encode_utf8 lc out @ drop 2 s, r)"
    | (plain) "dump_chars (ch # s) = ch # dump_chars s" "ch \<noteq> CHR 0x22" "31 < char_code ch" "ch \<noteq> CHR 0x5C"
        "\<And>out lc. \<not> is_lead lc \<Longrightarrow> parse_string out lc (dump_chars s @ CHR 0x22 # r) = Inr (encode_utf8 lc out @ s, r)"
  proof -
    show thesis
    proof (cases rule: guard_cases [where
        a = "ch = CHR 0x5C"
        and b = "ch = CHR 0x22"
        and c = "ch = CHR 0x08"
        and d = "ch = CHR 0x0C"
        and e = "ch = CHR 0x0A"
        and f = "ch = CHR 0x0D"
        and g = "ch = CHR 0x09"
        and x = "char_code ch \<le> 31"
        and y = "ch = CHR 0xE2 \<and> at_nul s 0 = CHR 0x80 \<and> at_nul s 1 = CHR 0xA8"
        and z = "ch = CHR 0xE2 \<and> at_nul s 0 = CHR 0x80 \<and> at_nul s 1 = CHR 0xA9"])
      case c1
      show thesis
        by (rule simple [of "CHR 0x5C"]) (use IH(1) in \<open>simp_all add: c1 dump_chars.simps(2) simple_escape_def\<close>)
    next
      case c2
      show thesis
        by (rule simple [of "CHR 0x22"]) (use IH(2) in \<open>simp_all add: c2 dump_chars.simps(2) simple_escape_def\<close>)
    next
      case c3
      show thesis
        by (rule simple [of "CHR ''b''"]) (use IH(3) in \<open>simp_all add: c3 dump_chars.simps(2) simple_escape_def\<close>)
    next
      case c4
      show thesis
        by (rule simple [of "CHR ''f''"]) (use IH(4) in \<open>simp_all add: c4 dump_chars.simps(2) simple_escape_def\<close>)
    next
      case c5
      show thesis
        by (rule simple [of "CHR ''n''"]) (use IH(5) in \<open>simp_all add: c5 dump_chars.simps(2) simple_escape_def\<close>)
    next
      case c6
      show thesis
        by (rule simple [of "CHR ''r''"]) (use IH(6) in \<open>simp_all add: c6 dump_chars.simps(2) simple_escape_def\<close>)
    next
      case c7
      show thesis
        by (rule simple [of "CHR ''t''"]) (use IH(7) in \<open>simp_all add: c7 dump_chars.simps(2) simple_escape_def\<close>)
    next
      case ctl
      show thesis
        by (rule control) (use IH(8) ctl in \<open>simp_all add: dump_chars.simps(2)\<close>)
    next
      case s8
      note two = at_nul_two [OF conjunct2 [OF s8(9)]]
      show thesis
        by (rule sep [of "''2028''" "0x2028"])
          (use IH(9) s8 two in \<open>simp_all add: dump_chars.simps(2) utf8_separators is_lead_def strtol_separators del: strtol16.simps\<close>)
    next
      case s9
      note two = at_nul_two [OF conjunct2 [OF s9(9)]]
      show thesis
        by (rule sep [of "''2029''" "0x2029"])
          (use IH(10) s9 two in \<open>simp_all add: dump_chars.simps(2) utf8_separators is_lead_def strtol_separators del: strtol16.simps\<close>)
    next
      case pl
      show thesis
        by (rule plain) (use IH(11) pl in \<open>simp_all add: dump_chars.simps(2)\<close>)
    qed
  qed
  then show ?case
  proof cases
    case simple
    show ?thesis
      by (simp only: simple(1) append_Cons append_Nil parse_escape_simple [OF simple(2,3)])
        (simp add: simple(4))
  next
    case control
    show ?thesis
      using hex4_small [OF control(2)] take_hex4 [OF control(2)] "2.prems" control(2,3) utf8_small [OF control(2)]
      by (simp add: control(1) parse_escape_u [where e = "hex4 (char_code ch)" and cp = "char_code ch"]
          encode_Some is_lead_def)
  next
    case sep
    show ?thesis
      using sep "2.prems" by (simp add: parse_escape_u [where e = t and cp = p] encode_Some)
  next
    case plain
    show ?thesis
      by (simp add: plain(1) parse_plain [OF plain(2-4)] plain(5))
  qed
qed

subsection \<open>Numbers\<close>

definition number_end :: "string \<Rightarrow> bool" where
  "number_end r \<longleftrightarrow>
     \<not> is_dig (at_nul r 0) \<and> at_nul r 0 \<noteq> CHR ''.'' \<and> at_nul r 0 \<noteq> CHR ''e'' \<and> at_nul r 0 \<noteq> CHR ''E''"

lemma is_dig_isdigit: "is_dig c \<longleftrightarrow> isdigit c"
  by (simp add: is_dig_def isdigit_def less_eq_char_def char_code_def)

lemma is_dig_NUL [simp]: "\<not> is_dig NUL"
  by (simp add: is_dig_def less_eq_char_def)

lemma udec_all_dig: "\<forall>c \<in> set (udec n). is_dig c"
  using udec_digits by (simp add: is_dig_isdigit)

lemma not_dig_hd: "\<not> is_dig (at_nul r 0) \<Longrightarrow> takeWhile is_dig r = [] \<and> dropWhile is_dig r = r"
  by (cases r) (simp_all add: at_nul_def)

lemma take_digits: "\<not> is_dig (at_nul r 0) \<Longrightarrow> takeWhile is_dig (udec n @ r) = udec n"
  using udec_all_dig [of n] not_dig_hd [of r] by (simp add: takeWhile_append2)

lemma drop_digits: "\<not> is_dig (at_nul r 0) \<Longrightarrow> skip_digits (udec n @ r) = r"
  using udec_all_dig [of n] not_dig_hd [of r] by (simp add: skip_digits_def dropWhile_append2)

lemma udec_first: obtains c t where "udec n = c # t" "is_dig c" "0 < n \<Longrightarrow> c \<noteq> CHR ''0''"
proof -
  obtain c t where ct: "udec n = c # t" by (cases "udec n") auto
  have "c \<noteq> CHR ''0''" if "0 < n"
    using hd_udec [OF that] by (auto simp: ct char_code_def)
  with that ct udec_all_dig [of n] show thesis by auto
qed

lemma number_integer_udec:
  assumes "\<not> is_dig (at_nul r 0)"
  shows "number_integer (udec n @ r) = Inr ([], r)"
proof (cases "n = 0")
  case True
  have "udec 0 = [CHR ''0'']" by code_simp
  moreover have "at_nul (CHR ''0'' # r) 1 = at_nul r 0" by (cases r) (simp_all add: at_nul_def)
  ultimately show ?thesis using True assms by (simp add: number_integer_def at_nul_def)
next
  case False
  obtain c t where ct: "udec n = c # t" "is_dig c" "c \<noteq> CHR ''0''"
    using udec_first [of n] False by blast
  then have "at_nul (udec n @ r) 0 = c" by (simp add: at_nul_def)
  then show ?thesis using ct drop_digits [OF assms, of n] by (simp add: number_integer_def)
qed

lemma parse_number_sdec:
  assumes k: "- 99999999 \<le> k" "k \<le> 999999999" and r: "number_end r"
  shows "parse_number (sdec k @ r) = Inr (JInt k, r)"
proof -
  define n where "n = nat \<bar>k\<bar>"
  have r': "\<not> is_dig (at_nul r 0)" using r by (simp add: number_end_def)
  have minus: "\<not> is_dig (CHR ''-'')" by (simp add: is_dig_def less_eq_char_def)
  show ?thesis
  proof (cases "k < 0")
    case True
    then have s: "sdec k = CHR ''-'' # udec n" by (simp add: sdec_def n_def)
    have "length (udec n) \<le> 8" by (rule udec_length_bound) (use k True in \<open>simp_all add: n_def\<close>)
    then show ?thesis
      using r True
      by (simp add: s parse_number_def at_nul_def [of "_ # _"] number_integer_udec [OF r'] digits10_def
          atoi_number_def take_digits [OF r'] number_end_def n_def)
  next
    case False
    then have s: "sdec k = udec n" by (simp add: sdec_def n_def)
    obtain c t where ct: "udec n = c # t" "is_dig c" using udec_first [of n] by blast
    then have hd: "at_nul (udec n @ r) 0 \<noteq> CHR ''-''" using minus by (auto simp: at_nul_def)
    have "length (udec n) \<le> 9" by (rule udec_length_bound) (use k False in \<open>simp_all add: n_def\<close>)
    then show ?thesis
      using r hd False
      by (simp add: s parse_number_def number_integer_udec [OF r'] digits10_def
          atoi_number_def take_digits [OF r'] number_end_def n_def)
  qed
qed

lemma sdec_first: obtains c t where "sdec k = c # t" "c = CHR ''-'' \<or> is_dig c"
proof (cases "k < 0")
  case True
  then show thesis using that by (simp add: sdec_def)
next
  case False
  then show thesis using that udec_first [of "nat k"] by (metis sdec_def)
qed

lemma dig_token: "is_dig c \<Longrightarrow> is_token c \<and> c \<noteq> CHR '']''"
  by (auto simp: is_token_def is_ws_def is_dig_def less_eq_char_def)

subsection \<open>Values\<close>

lemma dump_first: "json_ok d v \<Longrightarrow> \<exists>c t. dump v = c # t \<and> is_token c \<and> c \<noteq> CHR '']''"
proof (cases v)
  case (JInt k)
  obtain c t where "sdec k = c # t" "c = CHR ''-'' \<or> is_dig c" by (rule sdec_first)
  then show ?thesis using dig_token [of c] by (auto simp: JInt is_token_def is_ws_def)
qed (auto simp: is_token_def is_ws_def dump_string_def)

lemma value_int:
  assumes "json_ok d (JInt k)" "number_end r" "get_next_token st r0 = get_next_token st (sdec k @ r)"
  shows "value_step rc st d r0 = Inr (JInt k, r)"
proof -
  obtain c t where ct: "sdec k = c # t" "c = CHR ''-'' \<or> is_dig c" by (rule sdec_first)
  then have "is_token c" using dig_token [of c] by (auto simp: is_token_def is_ws_def)
  then have "get_next_token st r0 = Inr (c, t @ r)" using assms(3) by (simp add: ct next_token)
  moreover have "parse_number (c # t @ r) = Inr (JInt k, r)"
    using parse_number_sdec [of k r] assms(1,2) by (simp add: ct)
  ultimately show ?thesis using ct(2) assms(1) by (simp add: value_step_def and_then_def)
qed

lemma token_chars [simp]:
  "is_token (CHR ''t'')" "is_token (CHR ''f'')" "is_token (CHR ''n'')" "is_token (CHR 0x22)"
  "is_token (CHR ''{'')" "is_token (CHR ''['')" "is_token (CHR ''}'')" "is_token (CHR '']'')"
  "is_token (CHR '','')" "is_token (CHR '':'')"
  by (simp_all add: is_token_def is_ws_def)

lemma not_dig_chars [simp]:
  "\<not> is_dig (CHR ''t'')" "\<not> is_dig (CHR ''f'')" "\<not> is_dig (CHR ''n'')" "\<not> is_dig (CHR 0x22)"
  "\<not> is_dig (CHR ''{'')" "\<not> is_dig (CHR ''['')"
  by (simp_all add: is_dig_def less_eq_char_def)

lemma value_atom:
  assumes "json_ok d v" "v = JNull \<or> v = JBool b \<or> v = JString s"
    "get_next_token st r0 = get_next_token st (dump v @ r)"
  shows "value_step rc st d r0 = Inr (v, r)"
  using assms
  by (auto simp: value_step_def and_then_def next_token expect_def dump_string_def parse_dump_chars)

lemma map_set_last: "(\<forall>j \<in> set (map_keys m). j < k) \<Longrightarrow> map_set m k v = m @ [(k, v)]"
  by (induction m k v rule: map_set.induct) (auto dest: less_asym)

lemma map_keys_append: "map_keys (m @ n) = map_keys m @ map_keys n"
  by (simp add: map_keys_def)

lemma map_wf_append_Cons:
  "map_wf (acc @ (k, v) # kvs) \<Longrightarrow> map_set acc k v = acc @ [(k, v)]"
  by (rule map_set_last) (auto simp: map_wf_def map_keys_append sorted_wrt_append)

text \<open>A value in the parser's input, directly or behind the space that \<open>dump\<close> puts after a separator.\<close>

definition reads_back :: "json_parse \<Rightarrow> json \<Rightarrow> bool" where
  "reads_back st v \<longleftrightarrow>
     (\<forall>n d r pre. json_ok d v \<longrightarrow> number_end r \<longrightarrow> pre \<in> {[], '' ''} \<longrightarrow>
        2 * length (pre @ dump v @ r) + 1 \<le> n \<longrightarrow> run_parser n st (Value d (pre @ dump v @ r)) = Inr (v, r))"

lemma reads_backD:
  assumes "reads_back st v" "json_ok d v" "number_end r" "pre \<in> {[], '' ''}" "2 * length (pre @ dump v @ r) + 1 \<le> n"
  shows "run_parser n st (Value d (pre @ dump v @ r)) = Inr (v, r)"
  using assms unfolding reads_back_def by blast

lemma number_end_chars [simp]:
  "number_end (CHR '','' # r)" "number_end (CHR '']'' # r)" "number_end (CHR ''}'' # r)" "number_end []"
  by (simp_all add: number_end_def at_nul_def is_dig_def less_eq_char_def)

lemma token_pre:
  assumes "json_ok d v" "pre \<in> {[], '' ''}"
  shows "get_next_token st (pre @ dump v @ r) = get_next_token st (dump v @ r)"
proof -
  obtain c t where "dump v = c # t" "is_token c" using dump_first [OF assms(1)] by blast
  then show ?thesis using assms(2) by (auto simp: next_token next_token_space)
qed

lemma run_elements:
  assumes "vs \<noteq> []" "\<forall>v \<in> set vs. reads_back st v \<and> json_ok (Suc d) v"
    "2 * length (sep_by (map dump vs) @ CHR '']'' # r) + 2 \<le> n"
  shows "run_parser n st (Elements d acc (sep_by (map dump vs) @ CHR '']'' # r)) = Inr (JArray (acc @ vs), r)"
  using assms
proof (induction vs arbitrary: acc n)
  case (Cons v vs)
  obtain m where n: "n = Suc m" using Cons.prems(3) by (cases n) auto
  have v: "reads_back st v" "json_ok (Suc d) v" using Cons.prems(2) by auto
  show ?case
  proof (cases vs)
    case Nil
    have "run_parser m st (Value (Suc d) ([] @ dump v @ CHR '']'' # r)) = Inr (v, CHR '']'' # r)"
      by (rule reads_backD [OF v]) (use Cons.prems(3) n Nil in auto)
    then show ?thesis by (simp add: n Nil elements_step_def and_then_def next_token)
  next
    case (Cons w ws)
    define rest where "rest = sep_by (map dump vs) @ CHR '']'' # r"
    have lay: "sep_by (map dump (v # vs)) @ CHR '']'' # r = dump v @ CHR '','' # CHR '' '' # rest"
      by (simp add: rest_def Cons)
    have len: "2 * length (dump v @ CHR '','' # CHR '' '' # rest) + 2 \<le> Suc m"
      using Cons.prems(3) n unfolding lay by simp
    obtain c t where ct: "rest = c # t" "is_token c"
    proof -
      obtain c t where "dump w = c # t" "is_token c"
        using dump_first [of "Suc d" w] Cons.prems(2) Cons by auto
      then show thesis using that by (cases ws) (auto simp: rest_def Cons)
    qed
    have "run_parser m st (Value (Suc d) ([] @ dump v @ CHR '','' # CHR '' '' # rest)) = Inr (v, CHR '','' # CHR '' '' # rest)"
      by (rule reads_backD [OF v]) (use len in auto)
    moreover have "run_parser m st (Elements d (acc @ [v]) rest) = Inr (JArray ((acc @ [v]) @ vs), r)"
      unfolding rest_def
      by (rule Cons.IH) (use Cons Cons.prems(2) len in \<open>auto simp: rest_def\<close>)
    moreover have "get_next_token st (CHR '' '' # rest) = Inr (c, t)"
      using ct by (simp add: next_token_space)
    ultimately show ?thesis
      unfolding lay by (simp add: n elements_step_def and_then_def next_token ct(1) [symmetric])
  qed
qed simp

definition member_text :: "string \<times> json \<Rightarrow> string" where
  "member_text kv = dump_string (fst kv) @ '': '' @ dump (snd kv)"

lemma member_text_first: "sep_by (map member_text (kv # kvs)) = CHR 0x22 # tl (sep_by (map member_text (kv # kvs)))"
  by (cases kvs) (simp_all add: member_text_def dump_string_def)

lemma run_members:
  assumes "kvs \<noteq> []" "\<forall>kv \<in> set kvs. reads_back st (snd kv) \<and> json_ok (Suc d) (snd kv)" "map_wf (acc @ kvs)"
    "2 * length (tl (sep_by (map member_text kvs)) @ CHR ''}'' # r) + 2 \<le> n"
  shows "run_parser n st (Members d acc (CHR 0x22) (tl (sep_by (map member_text kvs)) @ CHR ''}'' # r)) =
         Inr (JObject (acc @ kvs), r)"
  using assms
proof (induction kvs arbitrary: acc n)
  case (Cons kv kvs)
  obtain m where n: "n = Suc m" using Cons.prems(4) by (cases n) auto
  obtain k v where kv: "kv = (k, v)" by fastforce
  have v: "reads_back st v" "json_ok (Suc d) v" using Cons.prems(2) kv by auto
  have set: "map_set acc k v = acc @ [(k, v)]"
    by (rule map_wf_append_Cons) (use Cons.prems(3) kv in simp)
  define rest where "rest = (if kvs = [] then CHR ''}'' # r
    else CHR '','' # CHR '' '' # sep_by (map member_text kvs) @ CHR ''}'' # r)"
  have lay: "tl (sep_by (map member_text (kv # kvs))) @ CHR ''}'' # r =
      dump_chars k @ CHR 0x22 # CHR '':'' # '' '' @ dump v @ rest"
    by (cases kvs) (simp_all add: rest_def kv member_text_def dump_string_def)
  have len: "2 * length (dump_chars k @ CHR 0x22 # CHR '':'' # '' '' @ dump v @ rest) + 2 \<le> Suc m"
    using Cons.prems(4) n unfolding lay by simp
  have key: "parse_string [] None (dump_chars k @ CHR 0x22 # CHR '':'' # '' '' @ dump v @ rest) =
      Inr (k, CHR '':'' # '' '' @ dump v @ rest)"
    by (simp add: parse_dump_chars)
  have val: "run_parser m st (Value (Suc d) ('' '' @ dump v @ rest)) = Inr (v, rest)"
    by (rule reads_backD [OF v]) (use len in \<open>auto simp: rest_def\<close>)
  show ?case
  proof (cases kvs)
    case Nil
    have "run_parser m st (Value (Suc d) (CHR '' '' # dump v @ CHR ''}'' # r)) = Inr (v, CHR ''}'' # r)"
      using val by (simp add: rest_def Nil)
    then show ?thesis
      unfolding lay
      by (simp only: n run_parser.simps task.case members_step_def key and_then_def sum.case prod.case val)
        (simp add: Nil next_token and_then_def rest_def set kv)
  next
    case (Cons kv' kvs')
    have rest: "rest = CHR '','' # CHR '' '' # CHR 0x22 # tl (sep_by (map member_text kvs)) @ CHR ''}'' # r"
      using member_text_first [of kv' kvs'] by (simp add: rest_def Cons)
    have "run_parser m st (Members d (acc @ [(k, v)]) (CHR 0x22) (tl (sep_by (map member_text kvs)) @ CHR ''}'' # r)) =
        Inr (JObject ((acc @ [(k, v)]) @ kvs), r)"
      by (rule Cons.IH) (use Cons Cons.prems(2,3) len kv rest in auto)
    moreover have "run_parser m st (Value (Suc d) (CHR '' '' # dump v @ rest)) = Inr (v, rest)"
      using val by simp
    ultimately show ?thesis
      unfolding lay
      by (simp only: n run_parser.simps task.case members_step_def key and_then_def sum.case prod.case val)
        (simp add: next_token next_token_space and_then_def rest set kv)
  qed
qed simp

lemma value_array:
  assumes "json_ok d (JArray vs)" "\<forall>v \<in> set vs. reads_back st v" "2 * length (dump (JArray vs) @ r) + 1 \<le> Suc n"
    "get_next_token st r0 = get_next_token st (dump (JArray vs) @ r)"
  shows "value_step (run_parser n st) st d r0 = Inr (JArray vs, r)"
proof (cases vs)
  case Nil
  then show ?thesis using assms(1,4) by (simp add: value_step_def and_then_def next_token)
next
  case (Cons w ws)
  have w: "\<forall>v \<in> set vs. reads_back st v \<and> json_ok (Suc d) v"
    using assms(1,2) by (simp add: list_all_iff)
  obtain c t where ct: "dump w = c # t" "is_token c" "c \<noteq> CHR '']''"
    using dump_first [of "Suc d" w] w Cons by auto
  obtain u where u: "sep_by (map dump vs) @ CHR '']'' # r = c # u"
    using ct by (cases ws) (auto simp: Cons)
  have "run_parser n st (Elements d [] (sep_by (map dump vs) @ CHR '']'' # r)) = Inr (JArray ([] @ vs), r)"
    by (rule run_elements) (use w assms(3) Cons in auto)
  moreover have "get_next_token st r0 = Inr (CHR ''['', c # u)"
    using assms(4) u by (simp add: next_token)
  ultimately show ?thesis
    using u ct assms(1) by (simp add: value_step_def and_then_def next_token)
qed

lemma dump_object: "dump (JObject kvs) = ''{'' @ sep_by (map member_text kvs) @ ''}''"
proof -
  have "(\<lambda>(k, v). dump_string k @ '': '' @ dump v) = member_text"
    by (auto simp: member_text_def fun_eq_iff)
  then show ?thesis by simp
qed

lemma value_object:
  assumes "json_ok d (JObject kvs)" "\<forall>kv \<in> set kvs. reads_back st (snd kv)"
    "2 * length (dump (JObject kvs) @ r) + 1 \<le> Suc n"
    "get_next_token st r0 = get_next_token st (dump (JObject kvs) @ r)"
  shows "value_step (run_parser n st) st d r0 = Inr (JObject kvs, r)"
proof (cases kvs)
  case Nil
  then show ?thesis using assms(1,4) by (simp add: value_step_def and_then_def next_token)
next
  case (Cons kv kvs')
  have w: "\<forall>kv \<in> set kvs. reads_back st (snd kv) \<and> json_ok (Suc d) (snd kv)"
    using assms(1,2) by (auto simp: list_all_iff)
  define body where "body = tl (sep_by (map member_text kvs)) @ CHR ''}'' # r"
  have u: "dump (JObject kvs) @ r = CHR ''{'' # CHR 0x22 # body"
    using member_text_first [of kv kvs'] unfolding dump_object by (simp add: body_def Cons)
  have "2 * length body + 2 \<le> n" using assms(3) unfolding u by simp
  then have "run_parser n st (Members d [] (CHR 0x22) body) = Inr (JObject ([] @ kvs), r)"
    unfolding body_def by (intro run_members) (use w assms(1) Cons in auto)
  moreover have "get_next_token st r0 = Inr (CHR ''{'', CHR 0x22 # body)"
    using assms(4) unfolding u by (simp add: next_token)
  ultimately show ?thesis
    using assms(1) by (simp add: value_step_def and_then_def next_token)
qed

lemma reads_backI:
  assumes "\<And>d r r0 m. json_ok d v \<Longrightarrow> number_end r \<Longrightarrow> 2 * length (dump v @ r) + 1 \<le> Suc m \<Longrightarrow>
      get_next_token st r0 = get_next_token st (dump v @ r) \<Longrightarrow> value_step (run_parser m st) st d r0 = Inr (v, r)"
  shows "reads_back st v"
  unfolding reads_back_def
proof (intro allI impI)
  fix n d r pre
  assume a: "json_ok d v" "number_end r" "pre \<in> {[], '' ''}" "2 * length (pre @ dump v @ r) + 1 \<le> n"
  then obtain m where n: "n = Suc m" by (cases n) auto
  show "run_parser n st (Value d (pre @ dump v @ r)) = Inr (v, r)"
    unfolding n run_parser.simps task.case
    by (rule assms [OF a(1,2)]) (use a(4) n token_pre [OF a(1,3)] in auto)
qed

lemma reads_back_all: "reads_back st v"
proof (induction v)
  case (JArray vs)
  then have "\<forall>v \<in> set vs. reads_back st v" by blast
  then show ?case by (intro reads_backI value_array)
next
  case (JObject kvs)
  then have "\<forall>kv \<in> set kvs. reads_back st (snd kv)" by (auto intro: snds.intros)
  then show ?case by (intro reads_backI value_object)
next
  case (JDouble x)
  show ?case by (rule reads_backI) simp
next
  case JNull
  show ?case by (rule reads_backI) (rule value_atom; simp)
next
  case (JBool b)
  show ?case by (rule reads_backI) (rule value_atom [of _ _ b]; simp)
next
  case (JString s)
  show ?case by (rule reads_backI) (rule value_atom [of _ _ _ s]; simp)
next
  case (JInt k)
  show ?case by (rule reads_backI) (rule value_int; simp)
qed

lemma parse_dump:
  assumes "json_ok 0 v"
  shows "parse st (dump v) = Inr v"
proof -
  have "run_parser (parse_fuel (dump v)) st (Value 0 ([] @ dump v @ [])) = Inr (v, [])"
    by (rule reads_backD [OF reads_back_all assms]) (simp_all add: parse_fuel_def)
  moreover have "consume_garbage st [] = Inr ((), [])"
    by (cases st) (simp_all add: consume_garbage_def consume_whitespace_def consume_comments.simps)
  ultimately show ?thesis by (simp add: parse_def parse_json_def)
qed

text \<open>C24: Round trip: Json::parse, in either strategy, reads back exactly the value that Json::dump
  wrote, for every value built of null, booleans, arbitrary strings (control characters, quotes and the
  U+2028 and U+2029 separators included), integers of at most nine characters, arrays and objects,
  nested to at most the parser's depth limit.\<close>

theorem json_dump_parse:
  assumes "json_ok 0 v"
  shows "parse st (dump v) = Inr v"
  by (rule parse_dump [OF assms])

definition sample_json :: json where
  "sample_json = JObject [(''id'', JInt 42), (''payload'', JArray [JBool True, JNull, JString [CHR 0x22, CHR 0x07], JInt (- 5)])]"

lemma sample_json_ok: "json_ok 0 sample_json"
  by code_simp

theorem json_dump_parse_witness: "parse COMMENTS (dump sample_json) = Inr sample_json"
  by (rule json_dump_parse [OF sample_json_ok])

end
