(* ===== verification/Can_Frame_To_Json.thy ===== *)
theory Can_Frame_To_Json
  imports Frame_Send_Queue Json11_Props
begin

text \<open>
  The conversion of a frame to JSON (\<open>can_frame_to_json.cpp\<close>): the register of types by
  identifier and the document that the REST interface and Redis deliver.
\<close>

record can_frame_to_json =
  type_register :: "(u16, CONVERSATION_TYPE) std_map"
  json_sha :: sha256_state

definition register_conversion :: "u16 \<Rightarrow> CONVERSATION_TYPE \<Rightarrow> can_frame_to_json \<Rightarrow> can_frame_to_json" where
  "register_conversion id' t c = c\<lparr>type_register := map_set (type_register c) id' t\<rparr>"

definition conversion_key_exists :: "u16 \<Rightarrow> can_frame_to_json \<Rightarrow> bool" where
  "conversion_key_exists id' c = (map_find (type_register c) id' \<noteq> None)"

text \<open>\<open>operator[]\<close> inserts the value-initialised type NONE for an identifier without an entry.\<close>

definition registered_type :: "u16 \<Rightarrow> can_frame_to_json \<Rightarrow> CONVERSATION_TYPE \<times> can_frame_to_json" where
  "registered_type id' c =
     (case map_find (type_register c) id' of
        Some t \<Rightarrow> (t, c)
      | None \<Rightarrow> (C_NONE, register_conversion id' C_NONE c))"

definition frame_data_to_vector :: "CAN_MESSAGE \<Rightarrow> u8 list option" where
  "frame_data_to_vector m = frame_payload (frame m)"

definition s32_of :: "'a::len word \<Rightarrow> int" where
  "s32_of w = sint (ucast w :: 32 word)"

text \<open>
  The value under \<open>payload\<close>: for the types without a case it is \<open>Json::NUL\<close>, an enumerator whose
  value 0 is converted to a number.  \<open>data[0]\<close> and \<open>data[1]\<close> are read whatever the length is.
\<close>

definition payload_json :: "CONVERSATION_TYPE \<Rightarrow> CanFrame \<Rightarrow> json option" where
  "payload_json t f =
     (case t of
        C_INT \<Rightarrow> Option.bind (rd (f_data f) 1) (\<lambda>hi. Option.bind (rd (f_data f) 0) (\<lambda>lo.
                   Some (JInt (push_bit 8 (uint hi) OR uint lo))))
      | C_BOOL \<Rightarrow> Option.bind (rd (f_data f) 0) (\<lambda>b. Some (JBool (b \<noteq> 0)))
      | C_BYTE \<Rightarrow> Option.bind (rd (f_data f) 0) (\<lambda>b. Some (JInt (uint b)))
      | C_STR \<Rightarrow> Option.bind (frame_payload f) (\<lambda>bs. Some (JString (map char_of_byte bs)))
      | _ \<Rightarrow> Some (JInt 0))"

definition info_json :: "CONVERSATION_TYPE \<Rightarrow> CAN_MESSAGE \<Rightarrow> u8 list \<Rightarrow> string \<Rightarrow> json" where
  "info_json t m raw h =
     JObject (map_init
       [(''type'', JString (conversation_name t)),
        (''type_raw'', JInt (conversation_code t)),
        (''direction'', JString (message_send_name (message_receieved m))),
        (''direction_raw'', JInt (message_send_code (message_receieved m))),
        (''id'', JInt (s32_of (f_id (frame m)))),
        (''sync_tick'', JInt (s32_of (sync_tick m))),
        (''raw_length'', JInt (uint (f_len (frame m)))),
        (''raw_data'', JArray (map (\<lambda>b. JInt (uint b)) raw)),
        (''payload_hash'', JString h)])"

definition frame_json :: "CONVERSATION_TYPE \<Rightarrow> CAN_MESSAGE \<Rightarrow> u8 list \<Rightarrow> string \<Rightarrow> json \<Rightarrow> json" where
  "frame_json t m raw h p =
     JObject (map_init [(''info'', info_json t m raw h), (''parsed_data'', JObject (map_init [(''payload'', p)]))])"

definition effective_type :: "CONVERSATION_TYPE \<Rightarrow> CONVERSATION_TYPE" where
  "effective_type t = (if t = C_NONE then C_RAW else t)"

definition convert_frame :: "stack \<Rightarrow> CAN_MESSAGE \<Rightarrow> can_frame_to_json \<Rightarrow> (string \<times> can_frame_to_json) option" where
  "convert_frame st m c =
     (let (t, c) = registered_type (ucast (f_id (frame m))) c;
          t = effective_type t
      in case frame_payload (frame m) of
           None \<Rightarrow> None
         | Some bytes \<Rightarrow>
             let (h, sha) = (if hash m = [] then sha256_of st bytes (json_sha c) else (hash m, json_sha c));
                 c = c\<lparr>json_sha := sha\<rparr>
             in case frame_data_to_vector m of
                  None \<Rightarrow> None
                | Some raw \<Rightarrow>
                    (case payload_json t (frame m) of
                       None \<Rightarrow> None
                     | Some p \<Rightarrow> Some (dump (frame_json t m raw h p), c)))"

section \<open>What a conversion does\<close>

definition json_wf :: "can_frame_to_json \<Rightarrow> bool" where
  "json_wf c \<longleftrightarrow> map_wf (type_register c) \<and> hasher_ok (json_sha c)"

lemma registered_type_spec:
  "registered_type k c = (t, c') \<Longrightarrow>
     (case map_find (type_register c) k of None \<Rightarrow> t = C_NONE | Some u \<Rightarrow> t = u) \<and> json_sha c' = json_sha c \<and>
     (json_wf c \<longrightarrow> json_wf c') \<and>
     map_find (type_register c') j = (if j = k then Some t else map_find (type_register c) j)"
  by (auto simp: registered_type_def register_conversion_def json_wf_def split: option.splits)

lemma register_conversion_wf: "json_wf c \<Longrightarrow> json_wf (register_conversion k t c)"
  by (simp add: json_wf_def register_conversion_def)

text \<open>The document of a message whose payload hash is present or correct.\<close>

definition frame_document :: "CONVERSATION_TYPE \<Rightarrow> CAN_MESSAGE \<Rightarrow> json option" where
  "frame_document t m = map_option
     (frame_json t m (take (unat (f_len (frame m))) (f_data (frame m)))
        (if hash m = [] then payload_digest (frame m) else hash m))
     (payload_json t (frame m))"

lemma payload_json_Some: "frame_ok f \<Longrightarrow> payload_json t f \<noteq> None"
  by (cases t) (auto simp: payload_json_def frame_ok_def rd_def frame_payload_def)

lemma convert_frame_spec:
  assumes "stack_ok st" "frame_ok (frame m)" "json_wf c"
  defines "k \<equiv> ucast (f_id (frame m))"
  obtains d c' where "convert_frame st m c = Some (dump d, c')" "json_wf c'"
    "frame_document (effective_type (case map_find (type_register c) k of None \<Rightarrow> C_NONE | Some t \<Rightarrow> t)) m = Some d"
    "\<And>j. map_find (type_register c') j =
       (if j = k \<and> map_find (type_register c) k = None then Some C_NONE else map_find (type_register c) j)"
proof -
  obtain t c1 where r: "registered_type k c = (t, c1)" by fastforce
  note spec = registered_type_spec [OF r]
  have t: "t = (case map_find (type_register c) k of None \<Rightarrow> C_NONE | Some t \<Rightarrow> t)"
    using spec by (auto split: option.splits)
  have c1: "json_wf c1" "json_sha c1 = json_sha c" using spec assms(3) by auto
  obtain p where p: "payload_json (effective_type t) (frame m) = Some p"
    using payload_json_Some [OF assms(2)] by blast
  define bytes where "bytes = take (unat (f_len (frame m))) (f_data (frame m))"
  have pl: "frame_payload (frame m) = Some bytes" using frame_ok_payload [OF assms(2)] by (simp add: bytes_def)
  obtain h sha where h: "(if hash m = [] then sha256_of st bytes (json_sha c1) else (hash m, json_sha c1)) = (h, sha)"
    by fastforce
  have hok: "hasher_ok sha" "h = (if hash m = [] then payload_digest (frame m) else hash m)"
    using h c1(1) sha256_of_ok [of "json_sha c1" st bytes] sha256_of_digest [OF assms(1), of "json_sha c1" bytes]
    by (auto simp: json_wf_def payload_digest_def bytes_def split: if_splits)
  show thesis
  proof (rule that)
    show "convert_frame st m c = Some (dump (frame_json (effective_type t) m bytes h p), c1\<lparr>json_sha := sha\<rparr>)"
      unfolding convert_frame_def k_def [symmetric] r using pl p h
      by (simp add: frame_data_to_vector_def)
    show "json_wf (c1\<lparr>json_sha := sha\<rparr>)" using c1(1) hok(1) by (simp add: json_wf_def)
    show "frame_document (effective_type (case map_find (type_register c) k of None \<Rightarrow> C_NONE | Some t \<Rightarrow> t)) m =
        Some (frame_json (effective_type t) m bytes h p)"
      using p hok(2) by (simp add: frame_document_def t [symmetric] bytes_def)
    show "map_find (type_register (c1\<lparr>json_sha := sha\<rparr>)) j =
        (if j = k \<and> map_find (type_register c) k = None then Some C_NONE else map_find (type_register c) j)" for j
      using registered_type_spec [OF r, of j] t by (auto split: option.splits)
  qed
qed

section \<open>The document read back\<close>

text \<open>Integers of a document stay below the nine characters that json11 reads back as integers.\<close>

definition readable :: "CAN_MESSAGE \<Rightarrow> bool" where
  "readable m \<longleftrightarrow> unat (f_id (frame m)) \<le> 999999999 \<and> unat (sync_tick m) \<le> 999999999"

lemma neg_le_uint [simp]: "- numeral n \<le> uint (w :: 'a::len word)"
  by (rule order.trans [of _ 0]) simp_all

lemma s32_small: "unat (w :: 'a::len word) \<le> 999999999 \<Longrightarrow> s32_of w = uint w \<and> 0 \<le> uint w \<and> uint w \<le> 999999999"
proof -
  assume w: "unat w \<le> 999999999"
  then have "unat (ucast w :: 32 word) = unat w"
    by (simp add: unsigned_ucast_eq take_bit_nat_eq_self_iff)
  then have u: "uint (ucast w :: 32 word) = uint w" by (metis uint_nat)
  have "uint w \<le> 999999999" unfolding uint_nat using w by linarith
  moreover have "0 \<le> uint w" by simp
  ultimately show ?thesis
    unfolding s32_of_def sint_uint u signed_take_bit_int_eq_self_iff [symmetric]
    by (simp add: signed_take_bit_int_eq_self_iff)
qed

lemma int16_value_bound: "push_bit 8 (uint (hi :: u8)) OR uint (lo :: u8) < 65536"
proof -
  have "push_bit 8 (uint hi) OR uint lo < 2 ^ 16"
    by (rule OR_upper) (use uint_lt2p [of hi] uint_lt2p [of lo] in \<open>simp_all add: push_bit_eq_mult\<close>)
  then show ?thesis by simp
qed

lemma int16_value_nonneg: "0 \<le> push_bit 8 (uint (hi :: u8)) OR uint (lo :: u8)"
  by (simp add: push_bit_eq_mult)

text \<open>The range of the integers that come back as integers.\<close>

definition short_int :: "int \<Rightarrow> bool" where
  "short_int k \<longleftrightarrow> - 99999999 \<le> k \<and> k \<le> 999999999"

lemma json_ok_int: "json_ok d (JInt k) \<longleftrightarrow> d \<le> max_depth \<and> short_int k"
  by (simp add: short_int_def)

lemma short_byte: "short_int (uint (b :: u8))"
proof -
  have "0 \<le> uint b" "uint b < 256" using uint_ge_0 [of b] uint_lt2p [of b] by simp_all
  then show ?thesis unfolding short_int_def by linarith
qed

lemma short_int16: "short_int (push_bit 8 (uint (hi :: u8)) OR uint (lo :: u8))"
  unfolding short_int_def using int16_value_bound [of hi lo] int16_value_nonneg [of hi lo] by linarith

lemma payload_ok: "payload_json t f = Some p \<Longrightarrow> d \<le> max_depth \<Longrightarrow> json_ok d p"
  by (cases t) (auto simp: payload_json_def bind_eq_Some_conv json_ok_int short_byte short_int16
      simp del: json_ok.simps(2), simp_all add: short_int_def)

lemma map_init_values: "kv \<in> set (map_init es) \<Longrightarrow> snd kv \<in> snd ` set es"
proof -
  have "snd kv \<in> snd ` set m \<or> snd kv \<in> snd ` set es"
    if "kv \<in> set (fold (\<lambda>(k, v) m. map_insert m k v) es m)" for m :: "('a::linorder \<times> 'b) list"
    using that
  proof (induction es arbitrary: m)
    case (Cons e es)
    then show ?case
      by (cases e) (fastforce simp: map_insert_def split: option.splits dest!: Cons.IH dest: map_set_entries)
  qed auto
  from this [of "[]"] show "kv \<in> set (map_init es) \<Longrightarrow> ?thesis" by (simp add: map_init_def)
qed

lemma map_init_wf: "map_wf (map_init es)"
proof -
  have "map_wf m \<Longrightarrow> map_wf (fold (\<lambda>(k, v) m. map_insert m k v) es m)" for m :: "('a::linorder \<times> 'b) list"
    by (induction es arbitrary: m) auto
  from this [of "[]"] show ?thesis by (simp add: map_init_def)
qed

lemma object_ok: "d \<le> max_depth \<Longrightarrow> (\<And>v. v \<in> snd ` set es \<Longrightarrow> json_ok (Suc d) v) \<Longrightarrow> json_ok d (JObject (map_init es))"
  using map_init_values [of _ es] by (force simp: map_init_wf list_all_iff)

lemma info_ok:
  assumes "readable m"
  shows "json_ok 1 (info_json t m raw h)"
proof -
  have ids: "short_int (s32_of (f_id (frame m)))" "short_int (s32_of (sync_tick m))"
    using s32_small [of "f_id (frame m)"] s32_small [of "sync_tick m"] assms
    by (simp_all add: readable_def short_int_def)
  have codes: "short_int (conversation_code t)" "short_int (message_send_code r)" for r
    by (cases t; simp add: conversation_code_def short_int_def)
      (cases r; simp add: message_send_code_def short_int_def)
  have depth: "Suc 1 \<le> max_depth" "Suc (Suc 1) \<le> max_depth" by (simp_all add: max_depth_def)
  show ?thesis
    unfolding info_json_def
    by (rule object_ok)
      (use ids codes depth in \<open>auto simp: json_ok_int list_all_iff short_byte simp del: json_ok.simps(2)\<close>)
qed

lemma document_ok:
  assumes "frame_document t m = Some d" "readable m"
  shows "json_ok 0 d"
proof -
  obtain p raw h where p: "payload_json t (frame m) = Some p" "d = frame_json t m raw h p"
    using assms(1) by (auto simp: frame_document_def)
  have "json_ok 1 (JObject (map_init [(''payload'', p)]))"
    by (rule object_ok) (use payload_ok [OF p(1)] in \<open>auto simp: max_depth_def\<close>)
  then show ?thesis
    unfolding p(2) frame_json_def
    by (intro object_ok) (use info_ok [OF assms(2)] in auto)
qed

end
