(* ===== verification/Redis_Interface.thy ===== *)
theory Redis_Interface
  imports Can_Frame_To_Json
begin

text \<open>
  The connection to Redis (\<open>redis_interface.cpp\<close>): the main loop stores the JSON of a frame under
  its field in \<open>write_map\<close>, and a worker thread takes the whole map, writes it as one hash and
  publishes each field.  What the client library does with a command is not part of the model;
  the commands are its output.
\<close>

record redis_interface =
  frame_json_set :: bool
  enable_write :: bool
  redis_host :: string
  redis_port :: int
  hash_name :: string
  redis_field_prefix :: string
  write_map :: "(string, string) std_map"
  redis_thread_running :: bool
  redis_update_thread :: bool

definition redis_init :: "int \<Rightarrow> redis_interface" where
  "redis_init port =
     \<lparr>frame_json_set = False, enable_write = True, redis_host = [], redis_port = port, hash_name = ''CAN_FRAMES'',
      redis_field_prefix = [], write_map = [], redis_thread_running = False, redis_update_thread = False\<rparr>"

definition set_connection_details :: "string \<Rightarrow> int \<Rightarrow> redis_interface \<Rightarrow> redis_interface" where
  "set_connection_details host port r =
     (if host = [] then r
      else if port \<le> 0 \<or> 65536 < port then r
      else r\<lparr>redis_host := host, redis_port := port\<rparr>)"

text \<open>
  \<open>enable_service\<close>: the thread object lives on the stack of the call and is detached, so the
  later \<open>join\<close> through the kept pointer is undefined; \<open>None\<close> stands for it.  The flag that
  the worker tests is set after the worker has been started.
\<close>

definition redis_enable_service :: "bool \<Rightarrow> redis_interface \<Rightarrow> redis_interface option" where
  "redis_enable_service en r =
     (if en
      then Some (if redis_thread_running r then r
                 else r\<lparr>redis_update_thread := True, redis_thread_running := True\<rparr>)
      else if redis_update_thread r then None else Some r)"

definition set_field_prefix :: "string \<Rightarrow> redis_interface \<Rightarrow> redis_interface" where
  "set_field_prefix p r = r\<lparr>redis_field_prefix := p\<rparr>"

definition set_hash_name :: "string \<Rightarrow> redis_interface \<Rightarrow> redis_interface" where
  "set_hash_name n r = (if n = [] then r else r\<lparr>hash_name := n\<rparr>)"

definition enable_write_to_db :: "bool \<Rightarrow> redis_interface \<Rightarrow> redis_interface" where
  "enable_write_to_db en r = r\<lparr>enable_write := en\<rparr>"

definition set_can_to_json_instance :: "bool \<Rightarrow> redis_interface \<Rightarrow> redis_interface" where
  "set_can_to_json_instance present r = r\<lparr>frame_json_set := present\<rparr>"

text \<open>The key of a frame, and \<open>store_frame\<close> with the conversion it calls.\<close>

definition field_of :: "redis_interface \<Rightarrow> CanFrame \<Rightarrow> string" where
  "field_of r f = redis_field_prefix r @ udec (unat (f_id f))"

definition store_frame ::
  "stack \<Rightarrow> CAN_MESSAGE \<Rightarrow> can_frame_to_json \<Rightarrow> redis_interface \<Rightarrow> (can_frame_to_json \<times> redis_interface) option" where
  "store_frame st m c r =
     (if \<not> enable_write r then Some (c, r)
      else if \<not> frame_json_set r then Some (c, r)
      else case convert_frame st m c of
             None \<Rightarrow> None
           | Some (js, c) \<Rightarrow>
               Some (c, if js \<noteq> [] then r\<lparr>write_map := map_insert (write_map r) (field_of r (frame m)) js\<rparr> else r))"

text \<open>
  The worker copies the settings when it connects.  One turn: the map is copied and cleared under the lock, then written and its
  fields published.  The order in which an \<open>unordered_map\<close> is traversed is not specified; \<open>order\<close>
  is that order.
\<close>

datatype redis_command =
    Hmset string "(string \<times> string) list"
  | Publish string string

definition worker_connect :: "redis_interface \<Rightarrow> string \<times> string \<times> int" where
  "worker_connect r = (hash_name r, redis_host r, redis_port r)"

definition worker_flush ::
  "((string, string) std_map \<Rightarrow> (string \<times> string) list) \<Rightarrow> string \<Rightarrow> redis_interface \<Rightarrow> redis_command list \<times> redis_interface" where
  "worker_flush order hash_name_tmp r =
     (let write_map_tmp = write_map r;
          r' = r\<lparr>write_map := []\<rparr>
      in if 0 < length write_map_tmp
         then (Hmset hash_name_tmp (order write_map_tmp) #
                 map (\<lambda>(k, v). Publish hash_name_tmp k) (order write_map_tmp), r')
         else ([], r'))"

section \<open>Behaviour\<close>

definition redis_wf :: "redis_interface \<Rightarrow> bool" where
  "redis_wf r \<longleftrightarrow> map_wf (write_map r)"

lemma dump_not_Nil: "dump (frame_json t m raw h p) \<noteq> []"
  by (simp add: frame_json_def)

lemma store_frame_spec:
  assumes "stack_ok st" "frame_ok (frame m)" "json_wf c" "redis_wf r"
  obtains c' r' where "store_frame st m c r = Some (c', r')" "json_wf c'" "redis_wf r'"
    "enable_write r' = enable_write r" "frame_json_set r' = frame_json_set r"
    "\<And>j. map_find (type_register c) j \<noteq> None \<Longrightarrow> map_find (type_register c') j = map_find (type_register c) j"
proof (cases "enable_write r \<and> frame_json_set r")
  case True
  obtain d c' where c: "convert_frame st m c = Some (dump d, c')" "json_wf c'"
      "\<And>j. map_find (type_register c') j = (if j = ucast (f_id (frame m)) \<and> map_find (type_register c) (ucast (f_id (frame m))) = None
         then Some C_NONE else map_find (type_register c) j)"
    by (rule convert_frame_spec [OF assms(1-3)]) blast
  show thesis
    by (rule that [of c' "if dump d \<noteq> [] then r\<lparr>write_map := map_insert (write_map r) (field_of r (frame m)) (dump d)\<rparr> else r"])
      (use True c assms(4) in \<open>auto simp: store_frame_def redis_wf_def\<close>)
next
  case False
  show thesis
    by (rule that [of c r]) (use False assms in \<open>auto simp: store_frame_def\<close>)
qed

text \<open>
  Between two flushes only the first message of a field is kept: a field that is already
  waiting is not replaced.
\<close>

lemma store_frame_waiting:
  assumes "store_frame st m c r = Some (c', r')" "map_find (write_map r) k = Some js"
  shows "map_find (write_map r') k = Some js"
  using assms
  by (auto simp: store_frame_def map_find_insert split: if_splits option.splits)

lemma worker_flush_all: "worker_flush order hash_name_tmp r = (cmds, r') \<Longrightarrow> write_map r' = []"
  by (auto simp: worker_flush_def Let_def split: if_splits)

end
