(* ===== verification/Ini_Reader.thy ===== *)
theory Ini_Reader
  imports Std_Map
begin

text \<open>
  The INI parser behind the configuration (\<open>SHARED/inih/INIReader.h\<close>): lines as \<open>fgets\<close> delivers
  them into a 200 byte buffer, continuation lines, inline comments, and the map of values with
  lower case keys.  A C string is the characters before its terminator.
\<close>

section \<open>Strings\<close>

definition INI_MAX_LINE :: nat where "INI_MAX_LINE = 200"

definition MAX_SECTION :: nat where "MAX_SECTION = 50"

definition MAX_NAME :: nat where "MAX_NAME = 50"

definition rstrip :: "string \<Rightarrow> string" where
  "rstrip s = rev (dropWhile isspace (rev s))"

definition lskip :: "string \<Rightarrow> string" where
  "lskip s = dropWhile isspace s"

text \<open>
  \<open>find_chars_or_comment\<close> returns a pointer into the string: here the text before it and the
  text from it on.  Without \<open>chars\<close> only an inline comment ends the search.
\<close>

fun find_chars_or_comment :: "string option \<Rightarrow> bool \<Rightarrow> string \<Rightarrow> string \<times> string" where
  "find_chars_or_comment chars was_space [] = ([], [])"
| "find_chars_or_comment chars was_space (c # s) =
     (if (case chars of None \<Rightarrow> False | Some cs \<Rightarrow> c \<in> set cs) \<or> (was_space \<and> c = CHR '';'') then ([], c # s)
      else case find_chars_or_comment chars (isspace c) s of (a, b) \<Rightarrow> (c # a, b))"

definition strncpy0 :: "string \<Rightarrow> nat \<Rightarrow> string" where
  "strncpy0 src size' = take (size' - 1) src"

section \<open>The reader object\<close>

record ini_reader =
  ini_error :: int
  ini_values :: "(string, string) std_map"
  ini_sections :: "(string, unit) std_map"

definition MakeKey :: "string \<Rightarrow> string \<Rightarrow> string" where
  "MakeKey sect name = map tolower (sect @ ''='' @ name)"

definition value_at :: "ini_reader \<Rightarrow> string \<Rightarrow> string" where
  "value_at r k = (case map_find (ini_values r) k of None \<Rightarrow> [] | Some v \<Rightarrow> v)"

definition ValueHandler :: "string \<Rightarrow> string \<Rightarrow> string \<Rightarrow> ini_reader \<Rightarrow> ini_reader" where
  "ValueHandler sect name val r =
     (let key = MakeKey sect name;
          old = value_at r key;
          new = (if 0 < length old then old @ [LF] else old) @ val
      in r\<lparr>ini_values := map_set (ini_values r) key new, ini_sections := map_insert (ini_sections r) sect ()\<rparr>)"

definition ini_get :: "ini_reader \<Rightarrow> string \<Rightarrow> string \<Rightarrow> string \<Rightarrow> string" where
  "ini_get r sect name dflt = (case map_find (ini_values r) (MakeKey sect name) of Some v \<Rightarrow> v | None \<Rightarrow> dflt)"

text \<open>\<open>GetBoolean\<close>; the numeric getters are not used by the gateway.\<close>

definition ini_get_boolean :: "ini_reader \<Rightarrow> string \<Rightarrow> string \<Rightarrow> bool \<Rightarrow> bool" where
  "ini_get_boolean r sect name dflt =
     (let v = map tolower (ini_get r sect name [])
      in if v \<in> {''true'', ''yes'', ''on'', ''1''} then True
         else if v \<in> {''false'', ''no'', ''off'', ''0''} then False
         else dflt)"

section \<open>Parsing\<close>

record ini_state =
  i_section :: string
  i_prev_name :: string
  i_lineno :: nat
  i_error :: nat
  i_reader :: ini_reader

definition set_error :: "ini_state \<Rightarrow> ini_state" where
  "set_error s = (if i_error s = 0 then s\<lparr>i_error := i_lineno s\<rparr> else s)"

definition BOM :: string where
  "BOM = [CHR 0xEF, CHR 0xBB, CHR 0xBF]"

text \<open>\<open>fgets\<close>: at most \<open>n\<close> characters, up to and including a line feed; then the rest.\<close>

fun fgets :: "nat \<Rightarrow> string \<Rightarrow> string \<times> string" where
  "fgets n [] = ([], [])"
| "fgets 0 s = ([], s)"
| "fgets (Suc n) (c # s) = (if c = LF then ([c], s) else case fgets n s of (a, b) \<Rightarrow> (c # a, b))"

lemma fgets_rest: "fgets n s = (a, b) \<Longrightarrow> length b = length s - length a \<and> length a \<le> length s"
  by (induction n s arbitrary: a b rule: fgets.induct) (auto split: if_splits prod.splits)

lemma fgets_progress: "fgets (Suc n) (c # s) = (a, b) \<Longrightarrow> length b < length (c # s)"
  by (auto split: if_splits prod.splits dest: fgets_rest)

text \<open>One line of the file; \<open>moved\<close> says that the text starts behind the start of the buffer.\<close>

definition ini_pair :: "string \<Rightarrow> ini_state \<Rightarrow> ini_state" where
  "ini_pair start s =
     (case find_chars_or_comment (Some ''=:'') False start of
        (a, []) \<Rightarrow> set_error s
      | (a, c # b) \<Rightarrow>
          if c = CHR ''='' \<or> c = CHR '':''
          then let name = rstrip a;
                   val = rstrip (fst (find_chars_or_comment None False (lskip b)))
               in s\<lparr>i_prev_name := strncpy0 name MAX_NAME, i_reader := ValueHandler (i_section s) name val (i_reader s)\<rparr>
          else set_error s)"

definition ini_section :: "string \<Rightarrow> ini_state \<Rightarrow> ini_state" where
  "ini_section start s =
     (case find_chars_or_comment (Some '']'') False (drop 1 start) of
        (a, c # b) \<Rightarrow> if c = CHR '']'' then s\<lparr>i_section := strncpy0 a MAX_SECTION, i_prev_name := []\<rparr> else set_error s
      | (a, []) \<Rightarrow> set_error s)"

definition ini_line :: "string \<Rightarrow> ini_state \<Rightarrow> ini_state" where
  "ini_line line s =
     (let s = s\<lparr>i_lineno := Suc (i_lineno s)\<rparr>;
          line = takeWhile (\<lambda>c. c \<noteq> NUL) line;
          bom = (i_lineno s = 1 \<and> take 3 line = BOM);
          stripped = rstrip (if bom then drop 3 line else line);
          start = lskip stripped;
          moved = (bom \<or> length start < length stripped)
      in case start of
           [] \<Rightarrow> s
         | c # cs \<Rightarrow>
             if c = CHR '';'' \<or> c = CHR ''#'' then s
             else if i_prev_name s \<noteq> [] \<and> moved
             then s\<lparr>i_reader := ValueHandler (i_section s) (i_prev_name s)
                      (rstrip (fst (find_chars_or_comment None False start))) (i_reader s)\<rparr>
             else if c = CHR ''['' then ini_section start s
             else ini_pair start s)"

function ini_lines :: "string \<Rightarrow> ini_state \<Rightarrow> ini_state" where
  "ini_lines content s =
     (if content = [] then s
      else case fgets (INI_MAX_LINE - 1) content of (line, rest) \<Rightarrow> ini_lines rest (ini_line line s))"
  by pat_completeness auto

lemma fgets_line_progress:
  "content \<noteq> [] \<Longrightarrow> (line, rest) = fgets (INI_MAX_LINE - 1) content \<Longrightarrow> length rest < length content"
proof -
  assume a: "content \<noteq> []" "(line, rest) = fgets (INI_MAX_LINE - 1) content"
  obtain c cs where "content = c # cs" using a(1) by (cases content) auto
  moreover have "INI_MAX_LINE - 1 = Suc 198" by (simp add: INI_MAX_LINE_def)
  ultimately show ?thesis using fgets_progress [of 198 c cs line rest] a(2) by simp
qed

termination ini_lines
  by (relation "measure (\<lambda>(content, s). length content)") (auto intro: fgets_line_progress)

declare ini_lines.simps [simp del]

definition ini_empty :: ini_reader where
  "ini_empty = \<lparr>ini_error = 0, ini_values = [], ini_sections = []\<rparr>"

definition ini_parse_stream :: "string \<Rightarrow> ini_reader \<Rightarrow> int \<times> ini_reader" where
  "ini_parse_stream content r =
     (let s = ini_lines content \<lparr>i_section = [], i_prev_name = [], i_lineno = 0, i_error = 0, i_reader = r\<rparr>
      in (int (i_error s), i_reader s))"

text \<open>The constructor from a file name: \<open>None\<close> is a file that cannot be opened.\<close>

definition ini_open :: "string option \<Rightarrow> ini_reader" where
  "ini_open file =
     (case file of
        None \<Rightarrow> ini_empty\<lparr>ini_error := - 1\<rparr>
      | Some content \<Rightarrow> (case ini_parse_stream content ini_empty of (e, r) \<Rightarrow> r\<lparr>ini_error := e\<rparr>))"

end
