(* ===== verification/Config_Parser.thy ===== *)
theory Config_Parser
  imports Ini_Reader Json11
begin

text \<open>
  The configuration (\<open>config_parser.cpp\<close>): the settings, their typed access, their defaults, and
  writing them to and loading them from an INI file.  The file system is the function from paths
  to contents and the set of paths that can be opened for writing.
\<close>

section \<open>Entries\<close>

datatype CFG_ENTRY =
    CAN_SOCKET_IF_NAME | CAN_DISABLE_PACKET_FILTER
  | REST_WEBSERVER_ENABLE | REST_WEBSERVER_BIND_PORT | REST_WEBSERVER_BIND_HOST
  | REDIS_ENABLE | REDIS_HOST | REDIS_PORT | REDIS_FIELD_PREFIX | REDIS_ENABLE_WRITE | REDIS_HASH_NAME

text \<open>\<open>magic_enum::enum_values\<close> lists the entries in the order of the enumeration.\<close>

definition entries :: "CFG_ENTRY list" where
  "entries =
     [CAN_SOCKET_IF_NAME, CAN_DISABLE_PACKET_FILTER,
      REST_WEBSERVER_ENABLE, REST_WEBSERVER_BIND_PORT, REST_WEBSERVER_BIND_HOST,
      REDIS_ENABLE, REDIS_HOST, REDIS_PORT, REDIS_FIELD_PREFIX, REDIS_ENABLE_WRITE, REDIS_HASH_NAME]"

definition entry_code :: "CFG_ENTRY \<Rightarrow> nat" where
  "entry_code e =
     (case e of CAN_SOCKET_IF_NAME \<Rightarrow> 0 | CAN_DISABLE_PACKET_FILTER \<Rightarrow> 1
      | REST_WEBSERVER_ENABLE \<Rightarrow> 2 | REST_WEBSERVER_BIND_PORT \<Rightarrow> 3 | REST_WEBSERVER_BIND_HOST \<Rightarrow> 4
      | REDIS_ENABLE \<Rightarrow> 5 | REDIS_HOST \<Rightarrow> 6 | REDIS_PORT \<Rightarrow> 7 | REDIS_FIELD_PREFIX \<Rightarrow> 8
      | REDIS_ENABLE_WRITE \<Rightarrow> 9 | REDIS_HASH_NAME \<Rightarrow> 10)"

definition enum_name :: "CFG_ENTRY \<Rightarrow> string" where
  "enum_name e =
     (case e of CAN_SOCKET_IF_NAME \<Rightarrow> ''CAN_SOCKET_IF_NAME''
      | CAN_DISABLE_PACKET_FILTER \<Rightarrow> ''CAN_DISABLE_PACKET_FILTER''
      | REST_WEBSERVER_ENABLE \<Rightarrow> ''REST_WEBSERVER_ENABLE''
      | REST_WEBSERVER_BIND_PORT \<Rightarrow> ''REST_WEBSERVER_BIND_PORT''
      | REST_WEBSERVER_BIND_HOST \<Rightarrow> ''REST_WEBSERVER_BIND_HOST''
      | REDIS_ENABLE \<Rightarrow> ''REDIS_ENABLE'' | REDIS_HOST \<Rightarrow> ''REDIS_HOST'' | REDIS_PORT \<Rightarrow> ''REDIS_PORT''
      | REDIS_FIELD_PREFIX \<Rightarrow> ''REDIS_FIELD_PREFIX'' | REDIS_ENABLE_WRITE \<Rightarrow> ''REDIS_ENABLE_WRITE''
      | REDIS_HASH_NAME \<Rightarrow> ''REDIS_HASH_NAME'')"

text \<open>The entries are the keys of a map, in the order of their values.\<close>

instantiation CFG_ENTRY :: linorder
begin

definition less_eq_CFG_ENTRY :: "CFG_ENTRY \<Rightarrow> CFG_ENTRY \<Rightarrow> bool" where
  "less_eq_CFG_ENTRY a b \<longleftrightarrow> entry_code a \<le> entry_code b"

definition less_CFG_ENTRY :: "CFG_ENTRY \<Rightarrow> CFG_ENTRY \<Rightarrow> bool" where
  "less_CFG_ENTRY a b \<longleftrightarrow> entry_code a < entry_code b"

instance
proof
  fix a b :: CFG_ENTRY
  show "a = b" if "a \<le> b" "b \<le> a"
    using that by (cases a; cases b; simp add: less_eq_CFG_ENTRY_def entry_code_def)
qed (auto simp: less_eq_CFG_ENTRY_def less_CFG_ENTRY_def)

end

section \<open>The object\<close>

record config_parser =
  config_store :: "(CFG_ENTRY, string) std_map"
  cfg_loaded_success :: bool
  reader :: ini_reader

definition config_init :: config_parser where
  "config_init = \<lparr>config_store = [], cfg_loaded_success = False, reader = ini_empty\<rparr>"

record file_system =
  files :: "string \<Rightarrow> string option"
  writable :: "string \<Rightarrow> bool"

definition INI_SETTINGS_CATEGORY_TOKEN :: string where
  "INI_SETTINGS_CATEGORY_TOKEN = ''SETTINGS''"

text \<open>\<open>operator[]\<close> on the store inserts an empty string for an entry without a value.\<close>

definition store_at_entry :: "CFG_ENTRY \<Rightarrow> config_parser \<Rightarrow> string \<times> config_parser" where
  "store_at_entry e c =
     (case map_find (config_store c) e of
        Some v \<Rightarrow> (v, c)
      | None \<Rightarrow> ([], c\<lparr>config_store := map_set (config_store c) e []\<rparr>))"

definition cfg_get :: "CFG_ENTRY \<Rightarrow> config_parser \<Rightarrow> string \<times> config_parser" where
  "cfg_get e c = (if \<not> cfg_loaded_success c then ([], c) else store_at_entry e c)"

definition configLoaded :: "config_parser \<Rightarrow> bool" where
  "configLoaded c = cfg_loaded_success c"

text \<open>\<open>atoi\<close>: white space, a sign, digits; \<open>None\<close> when the value does not fit an \<open>int\<close>.\<close>

definition atoi :: "string \<Rightarrow> int option" where
  "atoi s =
     (let s = dropWhile isspace (takeWhile (\<lambda>c. c \<noteq> NUL) s);
          neg = (s \<noteq> [] \<and> hd s = CHR ''-'');
          digits = takeWhile isdigit (if s \<noteq> [] \<and> (hd s = CHR ''-'' \<or> hd s = CHR ''+'') then tl s else s);
          n = int (dec_value digits);
          k = (if neg then - n else n)
      in if - 2147483648 \<le> k \<and> k \<le> 2147483647 then Some k else None)"

text \<open>\<open>getInt\<close> and \<open>getBool\<close> give the value when the entry has one, \<open>None\<close> inside otherwise.\<close>

definition getInt :: "CFG_ENTRY \<Rightarrow> config_parser \<Rightarrow> int option option" where
  "getInt e c =
     (let v = fst (cfg_get e c)
      in if v \<noteq> [] then map_option Some (atoi v) else Some None)"

definition getBool :: "CFG_ENTRY \<Rightarrow> config_parser \<Rightarrow> bool option option" where
  "getBool e c =
     (let v = fst (cfg_get e c)
      in if v \<noteq> []
         then if v = ''true'' \<or> v = ''TRUE'' \<or> v = ''True'' then Some (Some True)
              else if v = ''false'' \<or> v = ''FALSE'' \<or> v = ''False'' then Some (Some False)
              else case atoi v of None \<Rightarrow> None | Some ret \<Rightarrow> if 0 < ret then Some (Some True) else Some (Some False)
         else Some None)"

definition getInt_nocheck :: "CFG_ENTRY \<Rightarrow> config_parser \<Rightarrow> int option" where
  "getInt_nocheck e c = map_option (\<lambda>r. case r of None \<Rightarrow> 0 | Some k \<Rightarrow> k) (getInt e c)"

definition getBool_nocheck :: "CFG_ENTRY \<Rightarrow> config_parser \<Rightarrow> bool option" where
  "getBool_nocheck e c = map_option (\<lambda>r. case r of None \<Rightarrow> False | Some b \<Rightarrow> b) (getBool e c)"

definition cfg_put :: "CFG_ENTRY \<Rightarrow> string \<Rightarrow> config_parser \<Rightarrow> config_parser" where
  "cfg_put e v c = c\<lparr>config_store := map_set (config_store c) e v\<rparr>"

definition defaults :: "(CFG_ENTRY \<times> string) list" where
  "defaults =
     [(CAN_SOCKET_IF_NAME, ''can0''), (CAN_DISABLE_PACKET_FILTER, ''1''),
      (REST_WEBSERVER_ENABLE, ''1''), (REST_WEBSERVER_BIND_PORT, ''4242''), (REST_WEBSERVER_BIND_HOST, ''0.0.0.0''),
      (REDIS_ENABLE, ''1''), (REDIS_HOST, ''127.0.0.1''), (REDIS_PORT, ''6379''), (REDIS_FIELD_PREFIX, []),
      (REDIS_HASH_NAME, ''CAN''), (REDIS_ENABLE_WRITE, ''1'')]"

definition loadDefaults :: "config_parser \<Rightarrow> config_parser" where
  "loadDefaults c = fold (\<lambda>(e, v). cfg_put e v) defaults c"

text \<open>The entries in turn, each read through \<open>operator[]\<close>.\<close>

fun read_entries :: "CFG_ENTRY list \<Rightarrow> config_parser \<Rightarrow> (CFG_ENTRY \<times> string) list \<times> config_parser" where
  "read_entries [] c = ([], c)"
| "read_entries (e # es) c =
     (case store_at_entry e c of (v, c) \<Rightarrow> case read_entries es c of (vs, c) \<Rightarrow> ((e, v) # vs, c))"

definition toJson :: "config_parser \<Rightarrow> string \<times> config_parser" where
  "toJson c =
     (case read_entries entries c of
        (vs, c) \<Rightarrow>
          (dump (JObject (map_set [] INI_SETTINGS_CATEGORY_TOKEN
             (JObject (fold (\<lambda>(e, v) m. map_set m (enum_name e) (JString v)) vs [])))), c))"

definition INIFILE_COMMENTS :: string where
  "INIFILE_COMMENTS =
     ''# ENABLE_PACKET_FILTER '' @ [LF] @ ''# CAN_FILTER_<ID>=1'' @ [LF] @ ''# DISABLE_PACKET_FILTER=0'' @ [LF] @
     ''# CAN_FILTER_<ID>=0'' @ [LF] @ ''# AUTO_TYPE_CONVERSION '' @ [LF] @ ''# CAN_CONVERSION_<ID>=INT'' @ [LF] @
     ''# CAN_CONVERSION_<ID>=STR'' @ [LF] @ ''# CAN_CONVERSION_<ID>=BOOL'' @ [LF] @ ''# CAN_CONVERSION_<ID>=BYTE'' @ [LF] @ [LF]"

definition ini_header :: string where
  "ini_header = INIFILE_COMMENTS @ [LF] @ ''['' @ INI_SETTINGS_CATEGORY_TOKEN @ '']'' @ [LF]"

definition entry_line :: "CFG_ENTRY \<times> string \<Rightarrow> string" where
  "entry_line ev = enum_name (fst ev) @ ''='' @ snd ev @ [LF]"

definition writeConfigFile :: "string \<Rightarrow> config_parser \<times> file_system \<Rightarrow> bool \<times> config_parser \<times> file_system" where
  "writeConfigFile path = (\<lambda>(c, fs).
     if \<not> writable fs path then (False, c, fs)
     else case read_entries entries c of
            (vs, c) \<Rightarrow> (True, c, fs\<lparr>files := (files fs)(path := Some (ini_header @ concat (map entry_line vs)))\<rparr>))"

definition cfg_set :: "CFG_ENTRY \<Rightarrow> string \<Rightarrow> string \<Rightarrow> config_parser \<times> file_system \<Rightarrow> config_parser \<times> file_system" where
  "cfg_set e v path = (\<lambda>(c, fs).
     let c = cfg_put e v c
     in if path \<noteq> [] then snd (writeConfigFile path (c, fs)) else (c, fs))"

definition setInt :: "CFG_ENTRY \<Rightarrow> int \<Rightarrow> string \<Rightarrow> config_parser \<times> file_system \<Rightarrow> config_parser \<times> file_system" where
  "setInt e k path = cfg_set e (sdec k) path"

definition loadConfigFile :: "string \<Rightarrow> config_parser \<times> file_system \<Rightarrow> bool \<times> config_parser \<times> file_system" where
  "loadConfigFile path = (\<lambda>(c, fs).
     let c = c\<lparr>reader := ini_open (files fs path)\<rparr>
     in if ini_error (reader c) \<noteq> 0 then (False, c, fs)
        else (True, (fold (\<lambda>e c. cfg_put e (ini_get (reader c) INI_SETTINGS_CATEGORY_TOKEN (enum_name e) []) c) entries c)
                      \<lparr>cfg_loaded_success := True\<rparr>, fs))"

definition createConfigFile :: "string \<Rightarrow> bool \<Rightarrow> config_parser \<times> file_system \<Rightarrow> bool \<times> config_parser \<times> file_system" where
  "createConfigFile path load_directly s =
     (case writeConfigFile path s of
        (_, s) \<Rightarrow> if load_directly then loadConfigFile path s else (True, s))"

text \<open>\<open>loadFromJson\<close> on an object and on a text.\<close>

definition load_json_entry :: "(string, json) std_map \<Rightarrow> CFG_ENTRY \<Rightarrow> config_parser \<Rightarrow> config_parser" where
  "load_json_entry settings e c =
     (case map_find settings (enum_name e) of
        Some v \<Rightarrow> if is_string v \<and> \<not> is_null v then cfg_put e (string_value v) c else c
      | None \<Rightarrow> c)"

definition loadFromJson_obj :: "(string, json) std_map \<Rightarrow> bool \<Rightarrow> config_parser \<Rightarrow> bool \<times> config_parser" where
  "loadFromJson_obj obj load_only_user_data c =
     (let c = (if \<not> load_only_user_data
               then case map_find obj INI_SETTINGS_CATEGORY_TOKEN of
                      Some v \<Rightarrow> if \<not> is_null v \<and> is_object v then fold (load_json_entry (object_items v)) entries c else c
                    | None \<Rightarrow> c
               else c)
      in (True, c\<lparr>cfg_loaded_success := True\<rparr>))"

definition loadFromJson :: "string \<Rightarrow> bool \<Rightarrow> config_parser \<Rightarrow> bool \<times> config_parser" where
  "loadFromJson js load_only_user_data c =
     (if js = [] then (False, c)
      else case parse_cstr STANDARD js of
             Inl _ \<Rightarrow> (False, c)
           | Inr v \<Rightarrow> loadFromJson_obj (object_items v) load_only_user_data c)"

definition get_raw_config_map :: "config_parser \<Rightarrow> (string, string) std_map" where
  "get_raw_config_map c = ini_values (reader c)"

end
