(* ===== verification/Rest_Api.thy ===== *)
theory Rest_Api
  imports Redis_Interface Config_Parser
begin

text \<open>
  The REST interface (\<open>rest_api.cpp\<close>): the routes with their handlers, and the part of the HTTP
  server (\<open>cpp-httplib/httplib.h\<close>) that turns what a handler leaves into the answer that is sent.
  \<open>None\<close> is undefined behaviour of the handler: a number that its integer type cannot hold.
\<close>

section \<open>The server object\<close>

record rest_api =
  rest_thread_running :: bool
  rest_port :: int
  rest_host :: string
  rest_update_thread :: bool

definition rest_init :: rest_api where
  "rest_init = \<lparr>rest_thread_running = False, rest_port = 4242, rest_host = ''0.0.0.0'', rest_update_thread = False\<rparr>"

definition set_bind_settings :: "string \<Rightarrow> int \<Rightarrow> rest_api \<Rightarrow> rest_api" where
  "set_bind_settings bind_host p r =
     (let r = r\<lparr>rest_port := if p \<le> 0 \<or> 65536 < p then 4242 else p\<rparr>
      in r\<lparr>rest_host := if bind_host = [] then ''127.0.0.0'' else bind_host\<rparr>)"

definition rest_enable_service :: "bool \<Rightarrow> rest_api \<Rightarrow> rest_api option" where
  "rest_enable_service en r =
     (if en
      then Some (if rest_thread_running r then r
                 else r\<lparr>rest_update_thread := True, rest_thread_running := True\<rparr>)
      else if rest_update_thread r then None else Some r)"

section \<open>Requests and responses\<close>

datatype request = Get string | Post string string

record response =
  status :: int
  body :: string
  content_type :: string

definition new_response :: response where
  "new_response = \<lparr>status = - 1, body = [], content_type = []\<rparr>"

definition set_json :: "json \<Rightarrow> response \<Rightarrow> response" where
  "set_json v res = res\<lparr>body := dump v, content_type := ''application/json''\<rparr>"

definition obj :: "(string \<times> json) list \<Rightarrow> json" where
  "obj es = JObject (map_init es)"

text \<open>What the handlers share with the main loop.\<close>

record shared =
  sh_table :: can_hashtable
  sh_json :: can_frame_to_json
  sh_queue :: frame_send_queue
  sh_config :: config_parser

section \<open>Handlers\<close>

definition root_handler :: "string \<Rightarrow> response \<Rightarrow> response" where
  "root_handler version res = set_json (obj
     [(''version'', JString version), (''version'', JString ''/version''), (''list'', JString ''/list''),
      (''send'', JString ''/send''), (''receive'', JString ''/receive''), (''types'', JString ''/types''),
      (''config'', JString ''/config'')]) (res\<lparr>status := 200\<rparr>)"

definition types_handler :: "response \<Rightarrow> response" where
  "types_handler res = set_json (obj
     [(''NONE'', JString ''0''), (''RAW'', JString ''1''), (''INT'', JString ''2''), (''BYTE'', JString ''3'')])
     (res\<lparr>status := 200\<rparr>)"

definition version_handler :: "string \<Rightarrow> response \<Rightarrow> response" where
  "version_handler version res = set_json (obj [(''version'', JString version)]) (res\<lparr>status := 200\<rparr>)"

definition config_handler :: "shared \<Rightarrow> response \<Rightarrow> response \<times> shared" where
  "config_handler sh res =
     (case toJson (sh_config sh) of
        (js, c) \<Rightarrow> (res\<lparr>status := 200, body := js, content_type := ''application/json''\<rparr>, sh\<lparr>sh_config := c\<rparr>))"

text \<open>The bytes of an array payload: a number contributes its \<open>bool_value\<close>, which is always false.\<close>

definition array_byte :: "json \<Rightarrow> u8 list" where
  "array_byte v =
     (if is_bool v then [if bool_value v then 1 else 0]
      else if is_number v then [if bool_value v then 1 else 0]
      else if is_string v
      then [if 0 < length (string_value v) then byte_of_char (string_value v ! 0) else 0]
      else [])"

definition send_payload :: "stack \<Rightarrow> u16 \<Rightarrow> json \<Rightarrow> frame_send_queue \<Rightarrow> frame_send_queue option" where
  "send_payload st id' p q =
     (if is_number p then map_option (\<lambda>k. snd (enqueue_int16 st id' (word_of_int k) q)) (int_value p)
      else if is_string p then Some (snd (enqueue_bytes st id' (string_value p) q))
      else if is_bool p then Some (snd (enqueue_bool st id' (bool_value p) q))
      else if is_array p then Some (snd (enqueue_array st id' (concat (map array_byte (array_items p))) q))
      else Some q)"

definition send_error :: "string \<Rightarrow> response \<Rightarrow> response" where
  "send_error msg res = set_json (obj [(''error'', JString msg)]) (res\<lparr>status := 500\<rparr>)"

definition has_number_id :: "json \<Rightarrow> bool" where
  "has_number_id doc \<longleftrightarrow>
     (case map_find (object_items doc) ''id'' of None \<Rightarrow> False | Some v \<Rightarrow> \<not> is_null v \<and> is_number v)"

definition has_payload :: "json \<Rightarrow> bool" where
  "has_payload doc \<longleftrightarrow>
     (case map_find (object_items doc) ''payload'' of None \<Rightarrow> False | Some v \<Rightarrow> \<not> is_null v)"

definition send_handler :: "stack \<Rightarrow> string \<Rightarrow> shared \<Rightarrow> response \<Rightarrow> (response \<times> shared) option" where
  "send_handler st text' sh res =
     (if text' = [] then Some (send_error ''post body empty'' res, sh)
      else case parse_cstr STANDARD text' of
        Inl _ \<Rightarrow> Some (send_error ''json parse failed'' res, sh)
      | Inr doc \<Rightarrow>
          if has_number_id doc \<and> has_payload doc
          then case number_value_uint (obj_at doc ''id'') of
                 None \<Rightarrow> None
               | Some i \<Rightarrow>
                   (case send_payload st (ucast i) (obj_at doc ''payload'') (sh_queue sh) of
                      None \<Rightarrow> None
                    | Some q \<Rightarrow> Some (set_json (obj [(''send_status'', JString ''ok'')]) res, sh\<lparr>sh_queue := q\<rparr>))
          else Some (send_error ''no json field: id or payload'' res, sh))"

text \<open>\<open>/receive/(\d+)\<close>, with the digits the expression has matched.\<close>

definition receive_handler :: "stack \<Rightarrow> string \<Rightarrow> shared \<Rightarrow> response \<Rightarrow> (response \<times> shared) option" where
  "receive_handler st digits sh res =
     (case atoi digits of
        None \<Rightarrow> None
      | Some conv_id \<Rightarrow>
          let res = res\<lparr>status := 200\<rparr>;
              msg = table_get st (word_of_int conv_id) (sh_table sh)
          in if valid msg
             then case convert_frame st msg (sh_json sh) of
                    None \<Rightarrow> None
                  | Some (js, c) \<Rightarrow> Some (res\<lparr>body := js, content_type := ''application/json''\<rparr>, sh\<lparr>sh_json := c\<rparr>)
             else Some (set_json (obj [(''valid'', JBool False)]) res, sh))"

definition list_handler :: "shared \<Rightarrow> response \<Rightarrow> response" where
  "list_handler sh res = set_json (obj [(''can_frame_ids'', JArray (map JInt (get_id_list (sh_table sh))))]) res"

definition error_handler :: "response \<Rightarrow> response" where
  "error_handler res = (let res = res\<lparr>status := 404\<rparr> in set_json (obj [(''error'', JInt (status res))]) res)"

definition exception_handler :: "response \<Rightarrow> response" where
  "exception_handler res = (let res = res\<lparr>status := 500\<rparr> in set_json (obj [(''exception'', JInt (status res))]) res)"

section \<open>Routing and the answer\<close>

definition receive_path :: "string \<Rightarrow> string option" where
  "receive_path p =
     (let d = drop (length ''/receive/'') p
      in if take (length ''/receive/'') p = ''/receive/'' \<and> d \<noteq> [] \<and> list_all isdigit d then Some d else None)"

text \<open>\<open>dispatch_request\<close>: the handler of the first pattern that matches; the flag says whether one did.\<close>

definition dispatch_request :: "stack \<Rightarrow> string \<Rightarrow> request \<Rightarrow> shared \<Rightarrow> response \<Rightarrow> (bool \<times> response \<times> shared) option" where
  "dispatch_request st version req sh res =
     (case req of
        Get p \<Rightarrow>
          if p = ''/'' then Some (True, root_handler version res, sh)
          else if p = ''/types'' then Some (True, types_handler res, sh)
          else if p = ''/version'' then Some (True, version_handler version res, sh)
          else if p = ''/config'' then Some (True, config_handler sh res)
          else (case receive_path p of
                  Some d \<Rightarrow> map_option (Pair True) (receive_handler st d sh res)
                | None \<Rightarrow> if p = ''/list'' then Some (True, list_handler sh res, sh) else Some (False, res, sh))
      | Post p text' \<Rightarrow>
          if p = ''/send'' then map_option (Pair True) (send_handler st text' sh res) else Some (False, res, sh))"

definition write_response :: "response \<Rightarrow> response" where
  "write_response res = (if 400 \<le> status res then error_handler res else res)"

definition process_request :: "stack \<Rightarrow> string \<Rightarrow> request \<Rightarrow> shared \<Rightarrow> (response \<times> shared) option" where
  "process_request st version req sh =
     (case dispatch_request st version req sh new_response of
        None \<Rightarrow> None
      | Some (routed, res, sh) \<Rightarrow>
          let res = (if status res = - 1 then res\<lparr>status := if routed then 200 else 404\<rparr> else res)
          in Some (write_response res, sh))"

end
