(* ===== verification/Http_Text_Props.thy ===== *)
theory Http_Text_Props
  imports Http_Text
begin

text \<open>
  What the text functions of the HTTP server compute: splitting is cutting and stripping, percent encoding is
  undone by decoding, and a query string gives back the parameters it was made of.
\<close>

section \<open>Cutting and stripping\<close>

fun cut_at :: "char \<Rightarrow> string \<Rightarrow> string list" where
  "cut_at d [] = [[]]"
| "cut_at d (c # s) = (if c = d then [] # cut_at d s else (case cut_at d s of [] \<Rightarrow> [[c]] | p # ps \<Rightarrow> (c # p) # ps))"

definition strip :: "string \<Rightarrow> string" where
  "strip s = rev (dropWhile is_space_or_tab (rev (dropWhile is_space_or_tab s)))"

definition nonempty :: "string \<Rightarrow> string list" where
  "nonempty p = (if p = [] then [] else [p])"

lemma cut_not_nil [simp]: "cut_at d s \<noteq> []"
  by (induction s) (auto split: list.splits)

lemma cut_word: "d \<notin> set a \<Longrightarrow> cut_at d a = [a]"
  by (induction a) auto

lemma cut_append: "d \<notin> set a \<Longrightarrow> cut_at d (a @ d # b) = a # cut_at d b"
  by (induction a) auto

lemma trim_front_eq: "trim_front s l = (if l < length s then l + length (takeWhile is_space_or_tab (drop l s)) else l)"
proof (induction s l rule: trim_front.induct)
  case (1 s left)
  show ?case
  proof (cases "left < length s \<and> is_space_or_tab (s ! left)")
    case True
    then have "drop left s = s ! left # drop (Suc left) s" by (simp add: Cons_nth_drop_Suc)
    then show ?thesis using 1 True by (subst trim_front.simps) auto
  next
    case False
    then show ?thesis
      by (subst trim_front.simps) (auto simp: Cons_nth_drop_Suc [symmetric])
  qed
qed

lemma trim_back_eq: "r \<le> length s \<Longrightarrow> trim_back s r = length (dropWhile is_space_or_tab (rev (take r s)))"
  by (induction r) (auto simp: take_Suc_conv_app_nth)

lemma dropWhile_rev_length:
  "length (dropWhile P (rev (a @ b))) =
    (if list_all P b then length (dropWhile P (rev a)) else length a + length (dropWhile P (rev b)))"
proof (cases "list_all P b")
  case True
  then have "dropWhile P (rev b @ rev a) = dropWhile P (rev a)" by (intro dropWhile_append2) (auto simp: list_all_iff)
  then show ?thesis using True by simp
next
  case False
  then obtain x where "x \<in> set (rev b)" "\<not> P x" by (auto simp: list_all_iff)
  then have "dropWhile P (rev b @ rev a) = dropWhile P (rev b) @ rev a" by (rule dropWhile_append1)
  then show ?thesis using False by simp
qed

lemma drop_parts: "s = a @ b \<Longrightarrow> drop (length a) s = b"
  by simp

lemma split_piece_strip:
  assumes "beg \<le> i" "i \<le> length s"
  shows "split_piece s beg i = nonempty (strip (take (i - beg) (drop beg s)))"
proof -
  let ?p = "take (i - beg) (drop beg s)"
  let ?w = "takeWhile is_space_or_tab ?p"
  have s: "take i s = take beg s @ ?p" using assms by (metis le_add_diff_inverse take_add)
  have d: "drop beg s = ?p @ drop i s" using assms
    by (metis append_take_drop_id drop_drop le_add_diff_inverse2)
  have r: "trim_back s i = length (dropWhile is_space_or_tab (rev (take beg s @ ?p)))"
    using assms by (simp add: trim_back_eq s)
  show ?thesis
  proof (cases "list_all is_space_or_tab ?p")
    case True
    then have "strip ?p = []" by (auto simp: strip_def list_all_iff dest: set_dropWhileD)
    have "trim_back s i \<le> beg" using True assms unfolding r dropWhile_rev_length
      by (simp add: le_trans [OF length_dropWhile_le])
    moreover have "beg \<le> trim_front s beg" by (simp add: trim_front_eq)
    ultimately show ?thesis using \<open>strip ?p = []\<close> by (simp add: split_piece_def trim_def nonempty_def)
  next
    case False
    then have "beg < length s" using assms by (cases "beg < length s") auto
    have w: "takeWhile is_space_or_tab (drop beg s) = ?w"
      using False by (subst d) (auto simp: list_all_iff takeWhile_append1)
    have l: "trim_front s beg = beg + length ?w" using \<open>beg < length s\<close> by (simp add: trim_front_eq w)
    have r': "trim_back s i = beg + length (dropWhile is_space_or_tab (rev ?p))"
      using False assms unfolding r dropWhile_rev_length by simp
    let ?q = "dropWhile is_space_or_tab ?p"
    have p: "?p = ?w @ ?q" by simp
    have q: "?q \<noteq> []" "\<not> list_all is_space_or_tab ?q" using False
      by (auto simp: list_all_iff) (metis hd_dropWhile hd_in_set dropWhile_eq_Nil_conv)
    have "length (dropWhile is_space_or_tab (rev ?p)) = length ?w + length (dropWhile is_space_or_tab (rev ?q))"
      using q(2) by (subst p, subst dropWhile_rev_length) simp
    then have len: "trim_back s i - trim_front s beg = length (strip ?p)" by (simp add: l r' strip_def)
    have pos: "strip ?p \<noteq> []" using q by (auto simp: strip_def list_all_iff)
    have "take (length (strip ?p)) ?q = strip ?p"
      unfolding strip_def
      by (metis append_take_drop_id dropWhile_eq_drop length_rev rev_drop rev_rev_ident length_drop)
    moreover have "drop (trim_front s beg) s = ?q @ drop i s"
    proof -
      have "drop beg s = ?w @ ?q @ drop i s" using d p by (metis append.assoc)
      then have "drop (length ?w) (drop beg s) = ?q @ drop i s" by (rule drop_parts)
      then show ?thesis by (simp add: l add.commute)
    qed
    moreover have "length (strip ?p) \<le> length ?q"
      unfolding strip_def by (metis length_dropWhile_le length_rev)
    ultimately have "take (trim_back s i - trim_front s beg) (drop (trim_front s beg) s) = strip ?p"
      by (simp add: len)
    moreover have "trim_front s beg < trim_back s i" using len pos by (metis length_0_conv zero_less_diff neq0_conv)
    ultimately show ?thesis using pos by (simp add: split_piece_def trim_def nonempty_def)
  qed
qed


lemma split_from_cut:
  assumes "beg \<le> i" "i \<le> length s" "d \<notin> set (take (i - beg) (drop beg s))" "i = 0 \<longrightarrow> beg = 0"
  shows "split_from s d i beg = concat (map (\<lambda>p. nonempty (strip p)) (cut_at d (drop beg s)))"
  using assms
proof (induction s d i beg rule: split_from.induct)
  case (1 s d i beg)
  have d: "drop beg s = take (i - beg) (drop beg s) @ drop i s" using "1.prems"
    by (metis append_take_drop_id drop_drop le_add_diff_inverse2)
  show ?case
  proof (cases "i < length s")
    case True
    then have ds: "drop i s = s ! i # drop (Suc i) s" by (simp add: Cons_nth_drop_Suc)
    show ?thesis
    proof (cases "s ! i = d")
      case at: True
      have "cut_at d (drop beg s) = take (i - beg) (drop beg s) # cut_at d (drop (Suc i) s)"
        using "1.prems"(3) at by (subst d, subst ds) (simp add: cut_append)
      moreover have "split_from s d (Suc i) (Suc i) = concat (map (\<lambda>p. nonempty (strip p)) (cut_at d (drop (Suc i) s)))"
        using "1.IH"(1) [OF True at] True by simp
      ultimately show ?thesis using True at "1.prems"
        by (subst split_from.simps) (simp add: split_piece_strip)
    next
      case other: False
      have "Suc i - beg = Suc (i - beg)" using "1.prems" by simp
      moreover have "drop beg s ! (i - beg) = s ! i" "i - beg < length (drop beg s)" using "1.prems" True by simp_all
      ultimately have "d \<notin> set (take (Suc i - beg) (drop beg s))"
        using "1.prems"(3) other by (simp add: take_Suc_conv_app_nth)
      then show ?thesis using "1.IH"(2) [OF True other] "1.prems" True other
        by (subst split_from.simps) simp
    qed
  next
    case False
    then have i: "i = length s" using "1.prems" by simp
    have "cut_at d (drop beg s) = [take (i - beg) (drop beg s)]"
      using "1.prems"(3) by (subst d) (simp add: i cut_word)
    then show ?thesis using "1.prems" False
      by (subst split_from.simps) (auto simp: split_piece_strip strip_def nonempty_def i)
  qed
qed

lemma split_cut: "split s d = concat (map (\<lambda>p. nonempty (strip p)) (cut_at d s))"
  unfolding split_def by (subst split_from_cut) simp_all

text \<open>Words without the separator and without blanks come back.\<close>

lemma strip_id: "list_all (\<lambda>c. \<not> is_space_or_tab c) s \<Longrightarrow> strip s = s"
proof -
  assume "list_all (\<lambda>c. \<not> is_space_or_tab c) s"
  then have "list_all (\<lambda>c. \<not> is_space_or_tab c) (rev s)" by simp
  moreover have "dropWhile P xs = xs" if "list_all (\<lambda>c. \<not> P c) xs" for P and xs :: string
    using that by (cases xs) auto
  ultimately show ?thesis using \<open>list_all _ s\<close> by (simp add: strip_def)
qed

fun joined :: "char \<Rightarrow> string list \<Rightarrow> string" where
  "joined d [] = []"
| "joined d [w] = w"
| "joined d (w # ws) = w @ d # joined d ws"

lemma cut_joined: "\<lbrakk>ws \<noteq> []; \<forall>w\<in>set ws. d \<notin> set w\<rbrakk> \<Longrightarrow> cut_at d (joined d ws) = ws"
  by (induction d ws rule: joined.induct) (auto simp: cut_word cut_append)

lemma split_joined:
  assumes "\<forall>w\<in>set ws. w \<noteq> [] \<and> d \<notin> set w \<and> list_all (\<lambda>c. \<not> is_space_or_tab c) w"
  shows "split (joined d ws) d = ws"
proof (cases "ws = []")
  case True
  then show ?thesis by (simp add: split_cut strip_def nonempty_def)
next
  case False
  then have "split (joined d ws) d = concat (map (\<lambda>p. nonempty (strip p)) ws)"
    using assms by (simp add: split_cut cut_joined)
  also have "map (\<lambda>p. nonempty (strip p)) ws = map (\<lambda>w. [w]) ws"
    using assms by (auto simp: strip_id nonempty_def)
  finally show ?thesis by simp
qed

section \<open>Percent encoding\<close>

lemma is_hex_upper_hex: "d < 16 \<Longrightarrow> is_hex (upper_hex d) = Some d \<and> upper_hex d \<noteq> NUL \<and> upper_hex d \<noteq> CHR ''u''"
proof -
  assume "d < 16"
  then have "d \<in> set [0..<16]" by simp
  moreover have "\<forall>d\<in>set [0..<16]. is_hex (upper_hex d) = Some d \<and> upper_hex d \<noteq> NUL \<and> upper_hex d \<noteq> CHR ''u''"
    by code_simp
  ultimately show ?thesis by blast
qed

lemma decode_percent_byte: "decode_url b (percent_byte c @ s) = c # decode_url b s"
proof -
  have "char_code c < 256" by (simp add: char_code_def)
  then have "char_code c div 16 < 16" "char_code c mod 16 < 16" by (simp_all add: less_mult_imp_div_less)
  note h = is_hex_upper_hex [OF this(1)] is_hex_upper_hex [OF this(2)]
  have "from_hex_to_i (upper_hex (char_code c div 16) # upper_hex (char_code c mod 16) # s) 0 2 = Some (char_code c)"
    using h by (simp add: from_hex_to_i_def numeral_2_eq_2 char_at_def)
  moreover have "char_of (char_code c) = c" by (simp add: char_code_def)
  ultimately show ?thesis using h by (simp add: percent_byte_def)
qed

lemma decode_plain: "c \<notin> {CHR ''%'', CHR ''+''} \<Longrightarrow> decode_url b (c # s) = c # decode_url b s"
  by simp


definition unreserved :: "char \<Rightarrow> bool" where
  "unreserved c \<longleftrightarrow> isalnum c \<or> c \<in> set ''-_.!~*()'' \<or> c = CHR 0x27"

lemma encode_query_param_simps [simp]:
  "encode_query_param [] = []"
  "encode_query_param (c # s) = (if unreserved c then [c] else percent_byte c) @ encode_query_param s"
  by (auto simp: encode_query_param_def unreserved_def)

definition separators :: "char set" where
  "separators = {CHR ''%'', CHR ''+'', CHR ''='', CHR ''&'', CHR '' '', CHR 0x09, CHR ''?'', CR, LF, NUL}"

lemma unreserved_separators: "c \<in> separators \<Longrightarrow> \<not> unreserved c"
proof -
  have "\<forall>c\<in>set (map char_of [37, 43, 61, 38, 32, 9, 63, 13, 10, 0::nat]). \<not> unreserved c" by code_simp
  then have "\<forall>c\<in>separators. \<not> unreserved c" by (simp add: separators_def char_of_def bit_Suc_0_iff)
  then show "c \<in> separators \<Longrightarrow> \<not> unreserved c" by blast
qed

lemma upper_hex_separators: "d < 16 \<Longrightarrow> upper_hex d \<notin> separators"
proof -
  assume "d < 16"
  then have "d \<in> set [0..<16]" by simp
  moreover have "\<forall>d\<in>set [0..<16]. upper_hex d \<notin> separators" by code_simp
  ultimately show ?thesis by blast
qed

lemma decode_encode: "decode_url b (encode_query_param s) = s"
proof (induction s)
  case (Cons c s)
  show ?case
  proof (cases "unreserved c")
    case True
    then have "c \<notin> {CHR ''%'', CHR ''+''}" using unreserved_separators by (auto simp: separators_def)
    then show ?thesis using True Cons decode_plain by simp
  next
    case False
    then show ?thesis using Cons by (simp add: decode_percent_byte del: decode_url.simps(2))
  qed
qed simp

lemma encode_query_param_chars: "set (encode_query_param s) \<inter> separators \<subseteq> {CHR ''%''}"
proof (induction s)
  case (Cons c s)
  have "char_code c div 16 < 16" "char_code c mod 16 < 16"
    by (simp_all add: less_mult_imp_div_less)
  then have "set (percent_byte c) \<inter> separators \<subseteq> {CHR ''%''}"
    using upper_hex_separators by (auto simp: percent_byte_def)
  then show ?case using Cons unreserved_separators by auto
qed simp

section \<open>Query strings\<close>

text \<open>The keys that need no encoding.\<close>

definition plain_key :: "string \<Rightarrow> bool" where
  "plain_key k \<longleftrightarrow> k \<noteq> [] \<and> set k \<inter> separators = {}"

definition pair_text :: "string \<times> string \<Rightarrow> string" where
  "pair_text p = fst p @ ''='' @ encode_query_param (snd p)"

lemma concat_map_upt_Suc: "concat (map f [0..<Suc n]) = f 0 @ concat (map (\<lambda>i. f (Suc i)) [0..<n])"
  by (simp add: upt_conv_Cons map_Suc_upt [symmetric] comp_def del: upt_Suc)

lemma joined_Cons: "joined d (w # ws) = w @ concat (map (\<lambda>v. d # v) ws)"
  by (induction ws arbitrary: w) auto

lemma params_to_query_str_joined: "params_to_query_str ps = joined (CHR ''&'') (map pair_text ps)"
proof (cases ps)
  case (Cons p qs)
  have "concat (map (\<lambda>i. ''&'' @ pair_text (qs ! i)) [0..<length qs]) = concat (map (\<lambda>v. CHR ''&'' # v) (map pair_text qs))"
    by (rule arg_cong [where f = concat]) (simp add: map_equality_iff)
  then show ?thesis
    by (simp add: params_to_query_str_def Cons concat_map_upt_Suc joined_Cons pair_text_def del: upt_Suc)
qed (simp add: params_to_query_str_def)

lemma pair_text_chars:
  assumes "plain_key (fst p)"
  shows "pair_text p \<noteq> []" "CHR ''&'' \<notin> set (pair_text p)" "list_all (\<lambda>c. \<not> is_space_or_tab c) (pair_text p)"
  using assms encode_query_param_chars [of "snd p"]
  by (auto simp: pair_text_def plain_key_def separators_def list_all_iff is_space_or_tab_def)

lemma key_value_pair_text:
  assumes "plain_key (fst p)"
  shows "key_value (pair_text p) = (fst p, encode_query_param (snd p))"
proof -
  have k: "CHR ''='' \<notin> set (fst p)" "list_all (\<lambda>c. \<not> is_space_or_tab c) (fst p)" "fst p \<noteq> []"
    using assms by (auto simp: plain_key_def separators_def list_all_iff is_space_or_tab_def)
  have v: "CHR ''='' \<notin> set (encode_query_param (snd p))" "list_all (\<lambda>c. \<not> is_space_or_tab c) (encode_query_param (snd p))"
    using encode_query_param_chars [of "snd p"]
    by (auto simp: separators_def list_all_iff is_space_or_tab_def)
  have "split (pair_text p) (CHR ''='') = fst p # nonempty (encode_query_param (snd p))"
    using k v by (simp add: split_cut pair_text_def cut_append cut_word strip_id) (simp add: nonempty_def)
  then show ?thesis by (simp add: key_value_def nonempty_def)
qed

lemma decode_plain_key: "set k \<inter> separators = {} \<Longrightarrow> decode_url True k = k"
  by (induction k) (auto simp: separators_def)

lemma pair_text_inject: "\<lbrakk>plain_key (fst p); plain_key (fst q); pair_text p = pair_text q\<rbrakk> \<Longrightarrow> p = q"
  using key_value_pair_text by (metis decode_encode prod.collapse prod.inject)

lemma mm_insert_last:
  fixes m :: "(string \<times> 'v) list"
  shows "\<forall>e\<in>set m. fst e \<le> k \<Longrightarrow> mm_insert (<) k v m = m @ [(k, v)]"
  by (induction m) auto

lemma query_pieces_append:
  assumes "\<forall>p\<in>set ps. plain_key (fst p)" "distinct ps" "set (map pair_text ps) \<inter> set cache = {}"
    "sorted (map fst (params @ ps))"
  shows "query_pieces cache (map pair_text ps) params = params @ ps"
  using assms
proof (induction ps arbitrary: cache params)
  case (Cons p ps)
  have p: "fst p \<noteq> []" "decode_url True (fst p) = fst p"
    using Cons.prems(1) by (auto simp: plain_key_def decode_plain_key)
  have "mm_insert (<) (fst p) (snd p) params = params @ [p]"
    using Cons.prems(4) by (subst mm_insert_last) (simp_all add: sorted_append)
  moreover have "pair_text p \<notin> set (map pair_text ps)"
  proof
    assume "pair_text p \<in> set (map pair_text ps)"
    then obtain q where q: "q \<in> set ps" "pair_text p = pair_text q" by auto
    have "plain_key (fst p)" "plain_key (fst q)" using Cons.prems(1) q(1) by simp_all
    then have "p = q" using q(2) by (rule pair_text_inject)
    then show False using Cons.prems(2) q(1) by simp
  qed
  then have "query_pieces (pair_text p # cache) (map pair_text ps) (params @ [p]) = (params @ [p]) @ ps"
    using Cons.prems by (intro Cons.IH) auto
  ultimately show ?case using Cons.prems(1,3) p
    by (simp add: key_value_pair_text decode_encode)
qed simp


text \<open>C28:
  A query string that is made of parameters whose keys need no encoding, in the order of the multimap and without a
  pair that occurs twice, is parsed into exactly these parameters, whatever bytes the values hold; every
  percent-encoded byte string decodes to itself.
\<close>

theorem query_roundtrip:
  assumes "\<forall>p\<in>set ps. plain_key (fst p)" "distinct ps" "sorted (map fst ps)"
  shows "parse_query_text (params_to_query_str ps) [] = ps \<and> decode_url plus_to_space (encode_query_param bytes) = bytes"
proof -
  have "split (params_to_query_str ps) (CHR ''&'') = map pair_text ps"
    unfolding params_to_query_str_joined using assms(1) by (intro split_joined) (simp add: pair_text_chars)
  moreover have "query_pieces [] (map pair_text ps) [] = [] @ ps" using assms by (intro query_pieces_append) simp_all
  ultimately show ?thesis by (simp add: parse_query_text_def decode_encode)
qed

theorem query_roundtrip_witness:
  "params_to_query_str [(''id'', ''1 &=%''), (''id'', []), (''q-1'', [CR, LF, char_of (200 :: nat)])] =
     ''id=1%20%26%3D%25&id=&q-1=%0D%0A%C8'' \<and>
   parse_query_text ''id=1%20%26%3D%25&id=&q-1=%0D%0A%C8'' [] =
     [(''id'', ''1 &=%''), (''id'', []), (''q-1'', [CR, LF, char_of (200 :: nat)])]"
proof -
  let ?ps = "[(''id'', ''1 &=%''), (''id'', []), (''q-1'', [CR, LF, char_of (200 :: nat)])]"
  have t: "params_to_query_str ?ps = ''id=1%20%26%3D%25&id=&q-1=%0D%0A%C8''" by code_simp
  have "\<forall>p\<in>set ?ps. plain_key (fst p)" "distinct ?ps" "sorted (map fst ?ps)" by code_simp+
  from query_roundtrip [OF this] show ?thesis unfolding t by blast
qed

end
