(* ===== verification/Http_Stream_Props.thy ===== *)
theory Http_Stream_Props
  imports Http_Server Http_Text_Props
begin

text \<open>
  Reading from a connection: what the lines, headers and bodies are that the server reads, as functions of the bytes that
  arrive and not of the segments they arrive in.
\<close>

section \<open>The bytes of a stream\<close>

text \<open>
  \<open>stream_at p x R c s\<close>: the next bytes are \<open>p\<close>, the bytes \<open>x\<close> behind them have arrived in the same segment and
  are in the buffer, and \<open>R\<close> are the segments after that.  In \<open>arriving\<close> the segment may still be on its way.
\<close>

definition stream_at :: "string \<Rightarrow> string \<Rightarrow> string list \<Rightarrow> bool \<Rightarrow> socket_stream \<Rightarrow> bool" where
  "stream_at p x R c s \<longleftrightarrow> sk_closed (ss_sock s) = c \<and>
     (\<exists>S. sk_segments (ss_sock s) = S @ R \<and> [] \<notin> set S \<and> ss_buff s @ concat S = p @ x \<and> (x \<noteq> [] \<longrightarrow> S = []))"

definition arriving :: "string \<Rightarrow> string \<Rightarrow> string list \<Rightarrow> bool \<Rightarrow> socket_stream \<Rightarrow> bool" where
  "arriving p x R c s \<longleftrightarrow> stream_at p x R c s \<or>
     sk_closed (ss_sock s) = c \<and> ss_buff s = [] \<and> sk_segments (ss_sock s) = (p @ x) # R \<and> length (p @ x) \<le> read_buff_size"

lemma stream_at_arriving: "stream_at p x R c s \<Longrightarrow> arriving p x R c s"
  by (simp add: arriving_def)

lemma stream_atI:
  "\<lbrakk>sk_segments (ss_sock s) = S @ R; [] \<notin> set S; ss_buff s @ concat S = p @ x; x \<noteq> [] \<Longrightarrow> S = []; sk_closed (ss_sock s) = c\<rbrakk> \<Longrightarrow>
    stream_at p x R c s"
  by (auto simp: stream_at_def)

lemma stream_at_rest: "stream_at [] x R c s \<Longrightarrow> sk_segments (ss_sock s) = R \<and> sk_closed (ss_sock s) = c"
proof -
  assume "stream_at [] x R c s"
  then obtain S where S: "sk_segments (ss_sock s) = S @ R" "[] \<notin> set S" "ss_buff s @ concat S = x" "x \<noteq> [] \<longrightarrow> S = []"
      "sk_closed (ss_sock s) = c" by (auto simp: stream_at_def)
  then have "S = []" by (cases S) auto
  then show ?thesis using S by simp
qed

lemma read_buffered:
  assumes "stream_at p x R c s" "ss_buff s \<noteq> []" "p \<noteq> []" "0 < n" "x = [] \<or> n \<le> length p"
  shows "\<exists>k s'. 0 < k \<and> k \<le> n \<and> k \<le> length p \<and> stream_read n s = (int k, take k p, s') \<and> stream_at (drop k p) x R c s'"
proof -
  obtain S where S: "sk_segments (ss_sock s) = S @ R" "[] \<notin> set S" "ss_buff s @ concat S = p @ x" "x \<noteq> [] \<longrightarrow> S = []"
      "sk_closed (ss_sock s) = c" using assms(1) by (auto simp: stream_at_def)
  let ?k = "min n (length (ss_buff s))"
  have k: "?k \<le> length p"
  proof (cases "x = []")
    case True
    then have "length (ss_buff s) \<le> length p" using S(3) by (metis append_Nil2 le_add1 length_append)
    then show ?thesis by simp
  qed (use assms(5) in simp)
  have "take ?k p = take ?k (p @ x)" using k by simp
  also have "\<dots> = take n (ss_buff s)" unfolding S(3) [symmetric] by (simp add: min_def)
  finally have t: "take n (ss_buff s) = take ?k p" ..
  have "drop n (ss_buff s) @ concat S = drop ?k (ss_buff s @ concat S)" by (simp add: min_def)
  then have d: "drop n (ss_buff s) @ concat S = drop ?k p @ x" using k by (simp add: S(3))
  have "stream_read n s = (int ?k, take ?k p, s\<lparr>ss_buff := drop n (ss_buff s)\<rparr>)"
    using assms(2) k by (simp add: stream_read_def t min.commute)
  moreover have "stream_at (drop ?k p) x R c (s\<lparr>ss_buff := drop n (ss_buff s)\<rparr>)"
    using S d by (intro stream_atI [where S = S]) auto
  moreover have "0 < ?k" "?k \<le> n" using assms(2,4) by auto
  ultimately show ?thesis using k by blast
qed

lemma read_segment:
  assumes "ss_buff s = []" "sk_segments (ss_sock s) = seg # segs" "seg \<noteq> []" "0 < n"
  shows "\<exists>m. 0 < m \<and> m \<le> length seg \<and> m \<le> max n read_buff_size \<and>
    stream_read n s = (int (min n m), take n (take m seg),
      \<lparr>ss_buff = drop n (take m seg), ss_sock = (ss_sock s)\<lparr>sk_segments := (if m < length seg then drop m seg # segs else segs)\<rparr>\<rparr>) \<and>
    (length seg \<le> read_buff_size \<longrightarrow> n < read_buff_size \<longrightarrow> m = length seg)"
proof (cases "n < read_buff_size")
  case True
  let ?m = "min (length seg) read_buff_size"
  have "0 < ?m" using assms(3) by (auto simp: read_buff_size_def)
  moreover have "stream_read n s = (int (min n ?m), take n (take ?m seg),
      \<lparr>ss_buff = drop n (take ?m seg), ss_sock = (ss_sock s)\<lparr>sk_segments := (if ?m < length seg then drop ?m seg # segs else segs)\<rparr>\<rparr>)"
    using assms True
    by (cases "length seg \<le> read_buff_size"; cases "?m \<le> n") (auto simp: stream_read_def recv_def min_def)
  ultimately show ?thesis by (intro exI [of _ ?m]) auto
next
  case False
  let ?m = "min (length seg) n"
  have "0 < ?m" using assms(3,4) by auto
  moreover have "stream_read n s = (int (min n ?m), take n (take ?m seg),
      \<lparr>ss_buff = drop n (take ?m seg), ss_sock = (ss_sock s)\<lparr>sk_segments := (if ?m < length seg then drop ?m seg # segs else segs)\<rparr>\<rparr>)"
    using assms False
    by (cases "length seg \<le> n") (auto simp: stream_read_def recv_def min_def)
  ultimately show ?thesis using False by (intro exI [of _ ?m]) auto
qed


lemma read_arriving:
  assumes "arriving p x R c s" "p \<noteq> []" "0 < n" "x = [] \<or> n \<le> length p"
  shows "\<exists>k s'. 0 < k \<and> k \<le> n \<and> k \<le> length p \<and> stream_read n s = (int k, take k p, s') \<and> stream_at (drop k p) x R c s'"
proof (cases "stream_at p x R c s \<and> ss_buff s \<noteq> []")
  case True
  then show ?thesis using read_buffered assms(2-4) by blast
next
  case False
  define whole where "whole \<longleftrightarrow> \<not> stream_at p x R c s"
  obtain S where S: "sk_segments (ss_sock s) = S @ R" "[] \<notin> set S" "ss_buff s = []" "concat S = p @ x" "sk_closed (ss_sock s) = c"
      "x \<noteq> [] \<longrightarrow> whole" "whole \<longrightarrow> S = [p @ x] \<and> length (p @ x) \<le> read_buff_size"
  proof (cases whole)
    case True
    then show thesis using assms(1,2) by (intro that [of "[p @ x]"]) (auto simp: arriving_def whole_def)
  next
    case w: False
    then have "ss_buff s = []" using False by (simp add: whole_def)
    moreover obtain S where "sk_segments (ss_sock s) = S @ R" "[] \<notin> set S" "ss_buff s @ concat S = p @ x"
        "x \<noteq> [] \<longrightarrow> S = []" "sk_closed (ss_sock s) = c" using w by (auto simp: stream_at_def whole_def)
    moreover from this have "x = []" using assms(2) \<open>ss_buff s = []\<close> by (cases "S = []") auto
    ultimately show thesis using w by (intro that [of S]) auto
  qed
  obtain seg S' where seg: "S = seg # S'" "seg \<noteq> []" using S(2,4) assms(2) by (cases S) auto
  have "sk_segments (ss_sock s) = seg # (S' @ R)" using S(1) seg by simp
  from read_segment [OF S(3) this seg(2) assms(3)]
  obtain m where m: "0 < m" "m \<le> length seg"
      "stream_read n s = (int (min n m), take n (take m seg), \<lparr>ss_buff = drop n (take m seg),
         ss_sock = (ss_sock s)\<lparr>sk_segments := (if m < length seg then drop m seg # (S' @ R) else S' @ R)\<rparr>\<rparr>)"
      "length seg \<le> read_buff_size \<longrightarrow> n < read_buff_size \<longrightarrow> m = length seg" by blast
  let ?k = "min n m"
  let ?S = "if m < length seg then drop m seg # S' else S'"
  have all: "x \<noteq> [] \<Longrightarrow> m = length seg \<and> S' = [] \<and> seg = p @ x"
  proof -
    assume x: "x \<noteq> []"
    then have w: "S = [p @ x]" "length (p @ x) \<le> read_buff_size" using S(6,7) by auto
    moreover have "length p < read_buff_size" using w(2) x by (cases x) auto
    ultimately show ?thesis using m(4) assms(4) x seg by auto
  qed
  have k: "?k \<le> length p"
  proof (cases "x = []")
    case True
    then have "m \<le> length (concat S)" using m(2) seg by simp
    then show ?thesis using S(4) True by simp
  qed (use assms(4) in auto)
  have "concat S = take m seg @ concat ?S" using seg(1) m(2) by auto
  then have px: "p @ x = take m seg @ concat ?S" by (simp add: S(4))
  have "take ?k p = take ?k (p @ x)" using k by simp
  also have "\<dots> = take n (take m seg)" unfolding px using m(2) by (simp add: min_def)
  finally have t: "take n (take m seg) = take ?k p" ..
  have "drop n (take m seg) @ concat ?S = drop ?k (take m seg @ concat ?S)" using m(2) by (simp add: min_def)
  then have d: "drop n (take m seg) @ concat ?S = drop ?k p @ x" using k px by (metis drop_append diff_is_0_eq drop0)
  let ?s = "\<lparr>ss_buff = drop n (take m seg), ss_sock = (ss_sock s)\<lparr>sk_segments := ?S @ R\<rparr>\<rparr>"
  have "stream_at (drop ?k p) x R c ?s"
  proof (rule stream_atI [where S = ?S])
    show "[] \<notin> set ?S" using S(2) seg(1) by auto
    show "x \<noteq> [] \<Longrightarrow> ?S = []" using all by simp
  qed (use d S(5) in simp_all)
  moreover have "stream_read n s = (int ?k, take ?k p, ?s)" using m(3) t by (simp split: if_splits)
  moreover have "0 < ?k" "?k \<le> n" using m(1) assms(3) by auto
  ultimately show ?thesis using k by blast
qed

lemma read_at_end:
  assumes "stream_at [] [] [] c s"
  shows "stream_read n s = (if c then 0 else -1, [], s)"
proof -
  have "sk_segments (ss_sock s) = []" "sk_closed (ss_sock s) = c" "ss_buff s = []"
    using stream_at_rest [OF assms] assms by (auto simp: stream_at_def)
  then show ?thesis by (simp add: stream_read_def recv_def)
qed


section \<open>Lines\<close>

definition lr_ok :: "line_reader \<Rightarrow> bool" where
  "lr_ok r \<longleftrightarrow> (lr_glowable r \<noteq> [] \<longrightarrow> lr_size r - 1 \<le> length (lr_fixed r))"

lemma lr_append_ok [simp]: "lr_ok r \<Longrightarrow> lr_ok (lr_append b r)"
  by (auto simp: lr_ok_def lr_append_def)

lemma lr_ptr_append [simp]: "lr_ok r \<Longrightarrow> lr_ptr (lr_append b r) = lr_ptr r @ [b]"
  by (auto simp: lr_ok_def lr_append_def lr_ptr_def)

lemma lr_start_ok [simp]: "lr_ok (lr_start n)" "lr_ptr (lr_start n) = []"
  by (simp_all add: lr_ok_def lr_start_def lr_ptr_def)

text \<open>One byte of a line.\<close>

lemma getline_loop_byte:
  assumes "arriving (b # p) x R c s"
  shows "\<exists>s'. stream_at p x R c s' \<and> getline_loop r i s =
    (if b = LF then (Some (lr_ptr (lr_append b r)), s') else getline_loop (lr_append b r) (Suc i) s')"
proof -
  from read_arriving [OF assms, of 1]
  obtain k s' where k: "0 < k" "k \<le> 1" "stream_read 1 s = (int k, take k (b # p), s')" "stream_at (drop k (b # p)) x R c s'"
    by auto
  then have "k = 1" by simp
  with k show ?thesis by (intro exI [of _ s'] conjI) (simp, subst getline_loop.simps, simp)
qed

lemma getline_loop_line:
  "\<lbrakk>arriving (w @ LF # q) x R c s; LF \<notin> set w; lr_ok r\<rbrakk> \<Longrightarrow>
    \<exists>s'. getline_loop r i s = (Some (lr_ptr r @ w @ [LF]), s') \<and> stream_at q x R c s'"
proof (induction w arbitrary: r i s)
  case Nil
  then show ?case using getline_loop_byte [of LF q x R c s r i] by auto
next
  case (Cons b w)
  from getline_loop_byte [of b "w @ LF # q" x R c s r i] Cons.prems obtain s1
    where s1: "stream_at (w @ LF # q) x R c s1" "getline_loop r i s = getline_loop (lr_append b r) (Suc i) s1" by auto
  then show ?case using Cons.IH [OF stream_at_arriving [OF s1(1)], of "lr_append b r" "Suc i"] Cons.prems by auto
qed

lemma getline_line:
  "\<lbrakk>arriving (w @ LF # q) x R c s; LF \<notin> set w\<rbrakk> \<Longrightarrow> \<exists>s'. getline n s = (Some (w @ [LF]), s') \<and> stream_at q x R c s'"
  using getline_loop_line [of w q x R c s "lr_start n" 0] by (simp add: getline_def)

lemma getline_loop_end:
  "\<lbrakk>stream_at w [] [] c s; LF \<notin> set w; lr_ok r\<rbrakk> \<Longrightarrow>
    \<exists>s'. getline_loop r i s = (if c \<and> (i \<noteq> 0 \<or> w \<noteq> []) then Some (lr_ptr r @ w) else None, s') \<and> stream_at [] [] [] c s'"
proof (induction w arbitrary: r i s)
  case Nil
  show ?case by (rule exI [of _ s]) (use Nil read_at_end [OF Nil(1)] in \<open>subst getline_loop.simps, simp\<close>)
next
  case (Cons b w)
  from getline_loop_byte [OF stream_at_arriving [OF Cons.prems(1)], of r i] Cons.prems obtain s1
    where s1: "stream_at w [] [] c s1" "getline_loop r i s = getline_loop (lr_append b r) (Suc i) s1" by auto
  then show ?case using Cons.IH [OF s1(1), of "lr_append b r" "Suc i"] Cons.prems by auto
qed

section \<open>Two streams with the same bytes\<close>

definition same_bytes :: "socket_stream \<Rightarrow> socket_stream \<Rightarrow> bool" where
  "same_bytes s t \<longleftrightarrow> (\<exists>p c. stream_at p [] [] c s \<and> stream_at p [] [] c t)"

lemma same_bytesI: "\<lbrakk>stream_at p [] [] c s; stream_at p [] [] c t\<rbrakk> \<Longrightarrow> same_bytes s t"
  by (auto simp: same_bytes_def)

lemma getline_same:
  assumes "same_bytes s t"
  shows "\<exists>line s' t'. getline n s = (line, s') \<and> getline n t = (line, t') \<and> same_bytes s' t'"
proof -
  obtain p c where p: "stream_at p [] [] c s" "stream_at p [] [] c t" using assms by (auto simp: same_bytes_def)
  show ?thesis
  proof (cases "LF \<in> set p")
    case True
    then obtain w q where w: "p = w @ LF # q" "LF \<notin> set w" by (auto dest: split_list_first)
    note a = p [unfolded w(1), THEN stream_at_arriving]
    from getline_line [OF a(1) w(2)] getline_line [OF a(2) w(2)] show ?thesis by (blast intro: same_bytesI)
  next
    case False
    from getline_loop_end [OF p(1) False lr_start_ok(1), of n 0] getline_loop_end [OF p(2) False lr_start_ok(1), of n 0]
    show ?thesis unfolding getline_def by (blast intro: same_bytesI)
  qed
qed

lemma read_headers_same:
  assumes "same_bytes s t"
  shows "\<exists>ok h s' t'. read_headers s headers = (ok, h, s') \<and> read_headers t headers = (ok, h, t') \<and> same_bytes s' t'"
  using assms
proof (induction s headers arbitrary: t rule: read_headers.induct)
  case (1 s headers)
  obtain line s' t' where l: "getline 2048 s = (line, s')" "getline 2048 t = (line, t')" "same_bytes s' t'"
    using getline_same [OF "1.prems"] by blast
  show ?case
  proof (cases line)
    case None
    then show ?thesis using l by (subst (1 2) read_headers.simps) auto
  next
    case (Some w)
    note gs = l(1) [unfolded Some] and gt = l(2) [unfolded Some]
    let ?h = "case parse_header (take (length w - 2) w) of None \<Rightarrow> headers | Some (key, val) \<Rightarrow> mm_insert ci key val headers"
    consider "\<not> end_with_crlf w" | "end_with_crlf w" "length w = 2" | "end_with_crlf w" "length w \<noteq> 2" "HEADER_MAX_LENGTH < length w"
      | "end_with_crlf w" "length w \<noteq> 2" "\<not> HEADER_MAX_LENGTH < length w" by blast
    then show ?thesis
    proof cases
      case 1
      then show ?thesis using "1.IH"(2) [OF gs [symmetric] refl 1 l(3)] gs gt by (subst (1 2) read_headers.simps) simp
    next
      case 4
      then show ?thesis using "1.IH"(1) [OF gs [symmetric] refl 4 l(3)] gs gt by (subst (1 2) read_headers.simps) simp
    qed (use gs gt l(3) in \<open>subst (1 2) read_headers.simps, auto\<close>)+
  qed
qed


section \<open>Bodies\<close>

text \<open>A receiver that takes everything, and for which it does not matter in which pieces the bytes come.\<close>

locale receiver =
  fixes out :: "'a receiver"
  assumes accepts: "fst (out bs a)"
    and out_append: "snd (out (bs @ cs) a) = snd (out cs (snd (out bs a)))"
begin

definition feed :: "string \<Rightarrow> 'a \<Rightarrow> 'a" where
  "feed bs a = (if bs = [] then a else snd (out bs a))"

lemma out_feed: "bs \<noteq> [] \<Longrightarrow> out bs a = (True, feed bs a)"
  using accepts [of bs a] by (cases "out bs a") (simp add: feed_def)

lemma feed_append: "feed (bs @ cs) a = feed cs (feed bs a)"
  using out_append [of "[]" cs a] by (auto simp: feed_def out_append)

lemma read_content_with_length_at:
  "\<lbrakk>arriving p x R c s; r < len; len - r \<le> length p\<rbrakk> \<Longrightarrow>
    \<exists>s'. read_content_with_length out len r a s = (True, feed (take (len - r) p) a, s') \<and> stream_at (drop (len - r) p) x R c s'"
proof (induction "len - r" arbitrary: p r a s rule: less_induct)
  case less
  let ?n = "min (len - r) RECV_BUFSIZ"
  have n: "0 < ?n" "?n \<le> length p" "p \<noteq> []" using less.prems by (auto simp: RECV_BUFSIZ_def)
  obtain k s1 where k: "0 < k" "k \<le> ?n" "k \<le> length p" "stream_read ?n s = (int k, take k p, s1)" "stream_at (drop k p) x R c s1"
    using read_arriving [OF less.prems(1) n(3,1)] n(2) by blast
  have o: "out (take k p) a = (True, feed (take k p) a)" using k n(3) by (intro out_feed) simp
  have step: "read_content_with_length out len r a s = read_content_with_length out len (r + k) (feed (take k p) a) s1"
    using less.prems(2) k(1,4) o by (subst read_content_with_length.simps) simp
  have sum: "take (len - r) p = take k p @ take (len - (r + k)) (drop k p)" "drop (len - r) p = drop (len - (r + k)) (drop k p)"
  proof -
    have "len - r = k + (len - (r + k))" using k(2) less.prems(2) by auto
    then show "take (len - r) p = take k p @ take (len - (r + k)) (drop k p)" "drop (len - r) p = drop (len - (r + k)) (drop k p)"
      by (metis take_add) (metis \<open>len - r = k + (len - (r + k))\<close> add.commute drop_drop)
  qed
  show ?case
  proof (cases "r + k < len")
    case True
    have "\<exists>s'. read_content_with_length out len (r + k) (feed (take k p) a) s1 =
        (True, feed (take (len - (r + k)) (drop k p)) (feed (take k p) a), s') \<and> stream_at (drop (len - (r + k)) (drop k p)) x R c s'"
      using less.prems k True by (intro less.hyps stream_at_arriving) auto
    then show ?thesis unfolding step sum feed_append .
  next
    case False
    then have "len = r + k" using k(2) less.prems(2) by auto
    then show ?thesis using k(5) unfolding step by (subst read_content_with_length.simps) simp
  qed
qed

lemma read_content_with_length_short:
  "\<lbrakk>stream_at p [] [] c s; length p < len - r\<rbrakk> \<Longrightarrow>
    \<exists>s'. read_content_with_length out len r a s = (False, feed p a, s') \<and> stream_at [] [] [] c s'"
proof (induction "length p" arbitrary: p r a s rule: less_induct)
  case less
  show ?case
  proof (cases "p = []")
    case True
    then show ?thesis using less.prems read_at_end [of c s]
      by (intro exI [of _ s]) (subst read_content_with_length.simps, simp add: feed_def)
  next
    case False
    let ?n = "min (len - r) RECV_BUFSIZ"
    have n: "0 < ?n" using less.prems(2) by (auto simp: RECV_BUFSIZ_def)
    obtain k s1 where k: "0 < k" "k \<le> ?n" "k \<le> length p" "stream_read ?n s = (int k, take k p, s1)" "stream_at (drop k p) [] [] c s1"
      using read_arriving [OF stream_at_arriving [OF less.prems(1)] False n] by blast
    have o: "out (take k p) a = (True, feed (take k p) a)" using k False by (intro out_feed) simp
    have step: "read_content_with_length out len r a s = read_content_with_length out len (r + k) (feed (take k p) a) s1"
      using n k(1,4) o by (subst read_content_with_length.simps) simp
    have "\<exists>s'. read_content_with_length out len (r + k) (feed (take k p) a) s1 = (False, feed (drop k p) (feed (take k p) a), s') \<and>
        stream_at [] [] [] c s'"
      using less.prems(2) k False by (intro less.hyps [OF _ k(5)]) auto
    then show ?thesis unfolding step feed_append [symmetric] by simp
  qed
qed

lemma read_content_with_length_same:
  assumes "same_bytes s t"
  shows "\<exists>ok b s' t'. read_content_with_length out len r a s = (ok, b, s') \<and>
    read_content_with_length out len r a t = (ok, b, t') \<and> same_bytes s' t'"
proof -
  obtain p c where p: "stream_at p [] [] c s" "stream_at p [] [] c t" using assms by (auto simp: same_bytes_def)
  consider "len \<le> r" | "r < len" "len - r \<le> length p" | "length p < len - r" by linarith
  then show ?thesis
  proof cases
    case 1
    then show ?thesis using assms by (subst (1 2) read_content_with_length.simps) auto
  next
    case 2
    note q = p [THEN stream_at_arriving]
    from read_content_with_length_at [OF q(1) 2, of a] read_content_with_length_at [OF q(2) 2, of a]
    show ?thesis by (blast intro: same_bytesI)
  next
    case 3
    from read_content_with_length_short [OF p(1) 3, of a] read_content_with_length_short [OF p(2) 3, of a]
    show ?thesis by (blast intro: same_bytesI)
  qed
qed

lemma read_content_without_length_at:
  "stream_at p [] [] c s \<Longrightarrow>
    \<exists>s'. read_content_without_length out a s = (c, feed p a, s') \<and> stream_at [] [] [] c s'"
proof (induction "length p" arbitrary: p a s rule: less_induct)
  case less
  show ?case
  proof (cases "p = []")
    case True
    then show ?thesis using less.prems read_at_end [of c s]
      by (intro exI [of _ s]) (subst read_content_without_length.simps, simp add: feed_def)
  next
    case False
    have n: "0 < RECV_BUFSIZ" by (simp add: RECV_BUFSIZ_def)
    obtain k s1 where k: "0 < k" "k \<le> length p" "stream_read RECV_BUFSIZ s = (int k, take k p, s1)" "stream_at (drop k p) [] [] c s1"
      using read_arriving [OF stream_at_arriving [OF less.prems] False n] by blast
    have o: "out (take k p) a = (True, feed (take k p) a)" using k False by (intro out_feed) simp
    have step: "read_content_without_length out a s = read_content_without_length out (feed (take k p) a) s1"
      using k(1,3) o by (subst read_content_without_length.simps) simp
    have "\<exists>s'. read_content_without_length out (feed (take k p) a) s1 = (c, feed (drop k p) (feed (take k p) a), s') \<and>
        stream_at [] [] [] c s'"
      using k False by (intro less.hyps [OF _ k(4)]) auto
    then show ?thesis unfolding step feed_append [symmetric] by simp
  qed
qed

lemma read_content_without_length_same:
  assumes "same_bytes s t"
  shows "\<exists>ok b s' t'. read_content_without_length out a s = (ok, b, s') \<and>
    read_content_without_length out a t = (ok, b, t') \<and> same_bytes s' t'"
proof -
  obtain p c where p: "stream_at p [] [] c s" "stream_at p [] [] c t" using assms by (auto simp: same_bytes_def)
  from read_content_without_length_at [OF p(1), of a] read_content_without_length_at [OF p(2), of a]
  show ?thesis by (blast intro: same_bytesI)
qed

lemma read_chunks_same:
  "same_bytes s t \<Longrightarrow> \<exists>ok b s' t'. read_chunks out line a s = (ok, b, s') \<and> read_chunks out line a t = (ok, b, t') \<and> same_bytes s' t'"
proof (induction "stream_size s" arbitrary: line a s t rule: less_induct)
  case less
  obtain lo s1 t1 where g1: "getline 16 s = (lo, s1)" "getline 16 t = (lo, t1)" "same_bytes s1 t1"
    using getline_same [OF less.prems] by blast
  show ?case
  proof (cases "strtou 16 (c_str line)")
    case None
    then show ?thesis using less.prems by (subst (1 2) read_chunks.simps) auto
  next
    case (Some n)
    note n = Some
    consider "n = - 1" | "n = 0" | "n \<noteq> - 1" "n \<noteq> 0" by blast
    then show ?thesis
    proof cases
      case 1
      then show ?thesis using n less.prems by (subst (1 2) read_chunks.simps) auto
    next
      case 2
      then show ?thesis using n g1 by (subst (1 2) read_chunks.simps) (auto split: option.splits)
    next
      case 3
      obtain ok b s2 t2 where r: "read_content_with_length out (unat n) 0 a s = (ok, b, s2)"
          "read_content_with_length out (unat n) 0 a t = (ok, b, t2)" "same_bytes s2 t2"
        using read_content_with_length_same [OF less.prems] by blast
      obtain l3 s3 t3 where g3: "getline 16 s2 = (l3, s3)" "getline 16 t2 = (l3, t3)" "same_bytes s3 t3"
        using getline_same [OF r(3)] by blast
      obtain l4 s4 t4 where g4: "getline 16 s3 = (l4, s4)" "getline 16 t3 = (l4, t4)" "same_bytes s4 t4"
        using getline_same [OF g3(3)] by blast
      note eqs = n r(1,2) g3(1,2) g4(1,2)
      consider (fail) "\<not> ok \<or> l3 = None" | (stop) w where "ok" "l3 = Some w" "c_str w \<noteq> [CR, LF]"
        | (none) w where "ok" "l3 = Some w" "c_str w = [CR, LF]" "l4 = None"
        | (more) w v where "ok" "l3 = Some w" "c_str w = [CR, LF]" "l4 = Some v" by (cases l3; cases l4) auto
      then show ?thesis
      proof cases
        case more
        have "stream_size s4 < stream_size s"
          using read_content_with_length_le [OF r(1)] getline_smaller [of 16 s2 w s3] getline_smaller [of 16 s3 v s4] g3(1) g4(1) more
          by simp
        from less.hyps [OF this g4(3), of v b] show ?thesis
          using 3 eqs more by (subst (1 2) read_chunks.simps) auto
      qed (use 3 eqs r(3) g3(3) g4(3) in \<open>subst (1 2) read_chunks.simps, auto\<close>)+
    qed
  qed
qed

lemma read_content_data_same:
  assumes "same_bytes s t"
  shows "\<exists>st b s' t'. read_content_data headers out a s = (st, b, s') \<and> read_content_data headers out a t = (st, b, t') \<and> same_bytes s' t'"
proof -
  obtain lo s1 t1 where g: "getline 16 s = (lo, s1)" "getline 16 t = (lo, t1)" "same_bytes s1 t1"
    using getline_same [OF assms] by blast
  have chunked: "\<exists>ok b s' t'. read_content_chunked out a s = (ok, b, s') \<and> read_content_chunked out a t = (ok, b, t') \<and> same_bytes s' t'"
    using g read_chunks_same [OF g(3)] by (cases lo) (auto simp: read_content_chunked_def)
  have max: "\<not> payload_max_length < n" for n by (simp add: payload_max_length_def not_less)
  let ?enc = "get_header_value headers ''Content-Encoding'' []"
  consider "?enc = ''gzip'' \<or> ?enc = ''deflate'' \<or> has_infix ''br'' ?enc"
    | "\<not> (?enc = ''gzip'' \<or> ?enc = ''deflate'' \<or> has_infix ''br'' ?enc)" by blast
  then show ?thesis
  proof cases
    case 1
    then show ?thesis using assms by (auto simp: read_content_data_def Let_def)
  next
    case 2
    then show ?thesis
      using assms chunked read_content_without_length_same [OF assms, of a]
        read_content_with_length_same [OF assms, of "unat (content_length headers)" 0 a] max
      by (simp add: read_content_data_def Let_def) (auto split: if_splits)
  qed
qed

end

interpretation body: receiver "\<lambda>bs text. (True, text @ bs)"
  by unfold_locales simp_all

end
