(* ===== verification/Can2rest.thy ===== *)
theory Can2rest
  imports Rest_Api
begin

text \<open>
  The gateway itself (\<open>can2rest.cpp\<close>): the set-up from the configuration, the main loop, and the
  steps of the REST and Redis threads beside it.  The state is the global objects of the source
  with \<open>fr\<close>, and a log of the frames handed to the socket.  A step of a thread is one handler or
  one flush: the objects they share are guarded by locks, and only the main loop takes from the queue.
\<close>

section \<open>State\<close>

record gateway =
  g_shared :: shared
  g_filter :: can_id_filter
  g_redis :: redis_interface
  g_api :: rest_api
  g_socket :: SocketCan
  g_sync :: u32
  g_fr :: CanFrame
  g_wire :: "(canfd_frame \<times> nat) list"

definition SYNC_FRAME_ID :: u32 where "SYNC_FRAME_ID = 42"

section \<open>Set-up\<close>

definition cmdOptionExists :: "string list \<Rightarrow> string \<Rightarrow> bool" where
  "cmdOptionExists argv opt \<longleftrightarrow> opt \<in> set argv"

text \<open>
  \<open>regex_search\<close> with \<open>([a-zA-Z])*=can_filter_(\d)*\<close>: both ends may be empty, so a key matches when
  it contains the middle.
\<close>

fun contains :: "string \<Rightarrow> string \<Rightarrow> bool" where
  "contains p [] = (p = [])"
| "contains p (c # s) = (take (length p) (c # s) = p \<or> contains p s)"

definition filter_token :: string where "filter_token = ''=can_filter_''"

definition conversion_token :: string where "conversion_token = ''=can_conversion_''"

text \<open>\<open>substr(find_last_of("_") + 1)\<close>\<close>

definition last_token :: "string \<Rightarrow> string" where
  "last_token s = rev (takeWhile (\<lambda>c. c \<noteq> CHR ''_'') (rev s))"

definition filter_entry :: "string \<times> string \<Rightarrow> can_id_filter \<Rightarrow> can_id_filter option" where
  "filter_entry kv f =
     (if contains filter_token (fst kv) \<and> last_token (fst kv) \<noteq> []
      then case (atoi (last_token (fst kv)), atoi (snd kv)) of
             (Some i, Some b) \<Rightarrow> Some (set_filter (word_of_int i) (b \<noteq> 0) f)
           | _ \<Rightarrow> None
      else Some f)"

fun setup_filter :: "(string \<times> string) list \<Rightarrow> can_id_filter \<Rightarrow> can_id_filter option" where
  "setup_filter [] f = Some f"
| "setup_filter (kv # kvs) f = Option.bind (filter_entry kv f) (setup_filter kvs)"

definition conversion_of :: "string \<Rightarrow> CONVERSATION_TYPE" where
  "conversion_of v =
     (if v = ''INT'' \<or> v = ''int'' then C_INT
      else if v = ''STR'' \<or> v = ''str'' then C_STR
      else if v = ''BOOL'' \<or> v = ''bool'' then C_BOOL
      else if v = ''BYTE'' \<or> v = ''byte'' then C_BYTE
      else C_RAW)"

definition conversion_entry :: "string \<times> string \<Rightarrow> can_frame_to_json \<Rightarrow> can_frame_to_json option" where
  "conversion_entry kv c =
     (if contains conversion_token (fst kv) \<and> last_token (fst kv) \<noteq> []
      then map_option (\<lambda>i. register_conversion (word_of_int i) (conversion_of (snd kv)) c) (atoi (last_token (fst kv)))
      else Some c)"

fun setup_conversions :: "(string \<times> string) list \<Rightarrow> can_frame_to_json \<Rightarrow> can_frame_to_json option" where
  "setup_conversions [] c = Some c"
| "setup_conversions (kv # kvs) c = Option.bind (conversion_entry kv c) (setup_conversions kvs)"

definition load_config :: "string list \<Rightarrow> string \<Rightarrow> config_parser \<times> file_system \<Rightarrow> config_parser \<times> file_system" where
  "load_config argv path s =
     (case loadConfigFile path s of
        (ok, c, fs) \<Rightarrow>
          if \<not> ok \<or> cmdOptionExists argv ''-writeconfig''
          then snd (createConfigFile path True (loadDefaults c, fs))
          else (c, fs))"

text \<open>The part of \<open>main\<close> between the configuration and the loop; \<open>None\<close> is undefined behaviour.\<close>

definition setup_redis :: "config_parser \<Rightarrow> int \<Rightarrow> redis_interface \<Rightarrow> redis_interface option" where
  "setup_redis c port r =
     (let r = set_connection_details (fst (cfg_get REDIS_HOST c)) port r;
          r = set_field_prefix (fst (cfg_get REDIS_FIELD_PREFIX c)) r;
          r = set_hash_name (fst (cfg_get REDIS_HASH_NAME c)) r;
          r = enable_write_to_db True r;
          r = set_can_to_json_instance True r
      in Option.bind (getBool_nocheck REDIS_ENABLE c) (\<lambda>en. redis_enable_service en r))"

definition setup_gateway :: "config_parser \<Rightarrow> gateway \<Rightarrow> gateway option" where
  "setup_gateway c g =
     Option.bind (getBool_nocheck REST_WEBSERVER_ENABLE c) (\<lambda>inv.
     Option.bind (setup_filter (get_raw_config_map c) (set_invert_filter inv (g_filter g))) (\<lambda>flt.
     Option.bind (setup_conversions (get_raw_config_map c) (register_conversion 200 C_INT (sh_json (g_shared g)))) (\<lambda>conv.
     Option.bind (getInt_nocheck REST_WEBSERVER_BIND_PORT c) (\<lambda>port.
     Option.bind (rest_enable_service inv (set_bind_settings (fst (cfg_get REST_WEBSERVER_BIND_HOST c)) port (g_api g))) (\<lambda>api.
     Option.bind (getInt_nocheck REDIS_PORT c) (\<lambda>rport.
     Option.bind (setup_redis c rport (g_redis g)) (\<lambda>red.
       Some (g\<lparr>g_filter := flt, g_shared := (g_shared g)\<lparr>sh_json := conv, sh_config := c\<rparr>, g_api := api, g_redis := red\<rparr>))))))))"

text \<open>The socket is opened last; without it \<open>main\<close> returns 1.\<close>

definition open_can :: "can_os \<Rightarrow> config_parser \<Rightarrow> gateway \<Rightarrow> bool \<times> gateway" where
  "open_can os c g =
     (let can_if = fst (cfg_get CAN_SOCKET_IF_NAME c)
      in if can_if = [] then (False, g)
         else case socket_open os can_if 3 MODE_CAN_MTU (g_socket g) of
                (st, s) \<Rightarrow> (st = STATUS_OK, g\<lparr>g_socket := s\<rparr>))"

text \<open>
  The global objects before \<open>main\<close>.  What their constructors leave open is a parameter: the bytes of
  the hash buffers and of \<open>fr\<close>, the socket mode and the Redis port.
\<close>

definition new_sha256 :: "stack \<Rightarrow> sha256_state" where
  "new_sha256 st = sha_reset \<lparr>m_numBytes = 0, m_bufferSize = 0, m_buffer = st_extra st, m_hash = initial_hash\<rparr>"

definition gateway_start :: "stack \<Rightarrow> SocketMode \<Rightarrow> int \<Rightarrow> gateway" where
  "gateway_start st mode port =
     \<lparr>g_shared = \<lparr>sh_table = \<lparr>mp = [], table_sha = new_sha256 st\<rparr>,
                   sh_json = \<lparr>type_register = [], json_sha = new_sha256 st\<rparr>,
                   sh_queue = \<lparr>message_queue = [], queue_sha = new_sha256 st\<rparr>,
                   sh_config = config_init\<rparr>,
      g_filter = filter_init, g_redis = redis_init port, g_api = rest_init,
      g_socket = \<lparr>m_socket = - 1, m_read_timeout_ms = 3, m_interface = [], m_socket_mode = mode\<rparr>,
      g_sync = 0, g_fr = new_frame st, g_wire = []\<rparr>"

text \<open>
  \<open>cleanup\<close> and \<open>main\<close> up to its loop: it exits with a status, or goes into the loop with the
  objects as they then are.
\<close>

definition cleanup :: "gateway \<Rightarrow> gateway option" where
  "cleanup g = map_option (\<lambda>api. g\<lparr>g_socket := snd (socket_close (g_socket g)), g_api := api\<rparr>)
     (rest_enable_service False (g_api g))"

datatype outcome = Exits int | Loops gateway

definition can2rest_main :: "can_os \<Rightarrow> string list \<Rightarrow> file_system \<Rightarrow> gateway \<Rightarrow> outcome option" where
  "can2rest_main os argv fs g =
     (if cmdOptionExists argv ''-help'' then Some (Exits 0)
      else if cmdOptionExists argv ''-version'' then Some (Exits 0)
      else case load_config argv ''./can2rest_config.ini'' (sh_config (g_shared g), fs) of
        (c, fs) \<Rightarrow> Option.bind (setup_gateway c g) (\<lambda>g.
          case open_can os c g of
            (True, g) \<Rightarrow> Some (Loops g)
          | (False, g) \<Rightarrow> map_option (\<lambda>g. Exits 1) (cleanup g)))"

section \<open>The main loop\<close>

definition put_shared :: "stack \<Rightarrow> CanFrame \<Rightarrow> int \<Rightarrow> u32 \<Rightarrow> MESSAGE_SEND \<Rightarrow> shared \<Rightarrow> (CAN_MESSAGE \<times> shared) option" where
  "put_shared st f now sync rs sh =
     map_option (\<lambda>(m, t). (m, sh\<lparr>sh_table := t\<rparr>)) (table_put st f now (ucast sync) rs (sh_table sh))"

definition store_redis :: "stack \<Rightarrow> CAN_MESSAGE \<Rightarrow> gateway \<Rightarrow> gateway option" where
  "store_redis st m g =
     map_option (\<lambda>(c, r). g\<lparr>g_shared := (g_shared g)\<lparr>sh_json := c\<rparr>, g_redis := r\<rparr>)
       (store_frame st m (sh_json (g_shared g)) (g_redis g))"

definition sync_update :: "CanFrame \<Rightarrow> u32 \<Rightarrow> u32 option" where
  "sync_update f sync =
     (if f_id f = SYNC_FRAME_ID
      then Option.bind (rd (f_data f) 1) (\<lambda>hi. Option.bind (rd (f_data f) 0) (\<lambda>lo.
             let i = push_bit 8 (ucast hi) OR ucast lo in Some ((if sync < i then i else sync) + 1)))
      else Some (sync + 1))"

text \<open>The body of the inner loop, for the frame just read into \<open>fr\<close>.\<close>

definition receive_frame :: "stack \<Rightarrow> int \<Rightarrow> gateway \<Rightarrow> gateway option" where
  "receive_frame st now g =
     (let f = g_fr g
      in if check_message (ucast (f_id f)) (g_filter g)
         then Option.bind (put_shared st f now (g_sync g) M_GOT (g_shared g)) (\<lambda>(m, sh).
              Option.bind (store_redis st m (g\<lparr>g_shared := sh\<rparr>)) (\<lambda>g.
              Option.bind (sync_update f (g_sync g)) (\<lambda>sync. Some (g\<lparr>g_sync := sync\<rparr>))))
         else Some g)"

text \<open>\<open>while (sockat_can.read(fr) == STATUS_OK)\<close>, one turn; the flag says whether it goes on.\<close>

definition read_turn :: "stack \<Rightarrow> int \<Rightarrow> int \<Rightarrow> canfd_frame \<Rightarrow> gateway \<Rightarrow> (bool \<times> gateway) option" where
  "read_turn st now num_bytes cf g =
     Option.bind (socket_read num_bytes cf (g_fr g)) (\<lambda>(status, f).
       let g = g\<lparr>g_fr := f\<rparr>
       in if status = STATUS_OK then map_option (Pair True) (receive_frame st now g) else Some (False, g))"

text \<open>The part behind the inner loop: one frame of the queue is sent, registered and stored.\<close>

definition register_if_new :: "u16 \<Rightarrow> CONVERSATION_TYPE \<Rightarrow> can_frame_to_json \<Rightarrow> can_frame_to_json" where
  "register_if_new k t c = (if \<not> conversion_key_exists k c then register_conversion k t c else c)"

definition send_turn :: "stack \<Rightarrow> int \<Rightarrow> int \<Rightarrow> gateway \<Rightarrow> gateway option" where
  "send_turn st now written g =
     (if 0 < message_queued (sh_queue (g_shared g))
      then Option.bind (dequeue st (sh_queue (g_shared g))) (\<lambda>(msg, q).
        let g = g\<lparr>g_shared := (g_shared g)\<lparr>sh_queue := q\<rparr>\<rparr>
        in if valid msg
           then Option.bind (socket_write (g_socket g) (frame msg) written) (\<lambda>(status, w).
                let g = g\<lparr>g_wire := g_wire g @ [w],
                          g_shared := (g_shared g)\<lparr>sh_json := register_if_new (ucast (f_id (frame msg))) (c_type msg) (sh_json (g_shared g))\<rparr>\<rparr>
                in Option.bind (put_shared st (frame msg) now (g_sync g) (message_receieved msg) (g_shared g)) (\<lambda>(m, sh).
                   store_redis st msg (g\<lparr>g_shared := sh\<rparr>)))
           else Some g)
      else Some g)"

section \<open>Steps\<close>

datatype event =
    Read stack int int canfd_frame
  | Send stack int int
  | Request stack string request
  | Flush

definition rest_step :: "stack \<Rightarrow> string \<Rightarrow> request \<Rightarrow> gateway \<Rightarrow> gateway option" where
  "rest_step st version req g =
     map_option (\<lambda>(res, sh). g\<lparr>g_shared := sh\<rparr>) (process_request st version req (g_shared g))"

fun handle :: "event \<Rightarrow> gateway \<Rightarrow> gateway option" where
  "handle (Read st now n cf) g = map_option snd (read_turn st now n cf g)"
| "handle (Send st now w) g = send_turn st now w g"
| "handle (Request st v req) g = rest_step st v req g"
| "handle Flush g = Some (g\<lparr>g_redis := (g_redis g)\<lparr>write_map := []\<rparr>\<rparr>)"

fun run :: "event list \<Rightarrow> gateway \<Rightarrow> gateway option" where
  "run [] g = Some g"
| "run (e # es) g = Option.bind (handle e g) (run es)"

text \<open>
  What the system promises of an event: a frame the kernel delivers has at most 64 bytes, and a
  request carries numbers that fit their C++ types.
\<close>

definition request_ok :: "request \<Rightarrow> bool" where
  "request_ok req =
     (case req of
        Get p \<Rightarrow> (case receive_path p of Some d \<Rightarrow> atoi d \<noteq> None | None \<Rightarrow> True)
      | Post p text' \<Rightarrow>
          (case parse_cstr STANDARD text' of
             Inl _ \<Rightarrow> True
           | Inr doc \<Rightarrow> number_value_uint (obj_at doc ''id'') \<noteq> None \<and>
               (is_number (obj_at doc ''payload'') \<longrightarrow> int_value (obj_at doc ''payload'') \<noteq> None)))"

fun event_ok :: "event \<Rightarrow> bool" where
  "event_ok (Read st now n cf) \<longleftrightarrow> stack_ok st \<and> length (fr_data cf) = 64 \<and> unat (fr_len cf) \<le> 64"
| "event_ok (Send st now w) \<longleftrightarrow> stack_ok st"
| "event_ok (Request st v req) \<longleftrightarrow> stack_ok st \<and> request_ok req"
| "event_ok Flush \<longleftrightarrow> True"

inductive step :: "gateway \<Rightarrow> gateway \<Rightarrow> bool" where
  step: "event_ok e \<Longrightarrow> handle e g = Some g' \<Longrightarrow> step g g'"

inductive reachable :: "gateway \<Rightarrow> gateway \<Rightarrow> bool" for g0 where
  start: "reachable g0 g0"
| more: "reachable g0 g \<Longrightarrow> step g g' \<Longrightarrow> reachable g0 g'"

inductive_cases stepE: "step g g'"

end
