(* ===== verification/Can2rest_Props.thy ===== *)
theory Can2rest_Props
  imports Can2rest
begin

text \<open>
  What holds of the gateway in every state it can reach, whatever the order in which frames,
  requests and turns of the threads come, and what a client of the REST interface gets.
\<close>

section \<open>The shared objects\<close>

definition shared_inv :: "shared \<Rightarrow> bool" where
  "shared_inv sh \<longleftrightarrow> table_wf (sh_table sh) \<and> json_wf (sh_json sh) \<and> queue_wf (sh_queue sh)"

lemma shared_inv_table: "shared_inv sh \<Longrightarrow> table_wf t \<Longrightarrow> shared_inv (sh\<lparr>sh_table := t\<rparr>)"
  by (simp add: shared_inv_def)

lemma shared_inv_json: "shared_inv sh \<Longrightarrow> json_wf c \<Longrightarrow> shared_inv (sh\<lparr>sh_json := c\<rparr>)"
  by (simp add: shared_inv_def)

lemma shared_inv_queue: "shared_inv sh \<Longrightarrow> queue_wf q \<Longrightarrow> shared_inv (sh\<lparr>sh_queue := q\<rparr>)"
  by (simp add: shared_inv_def)

lemma shared_inv_config [simp]: "shared_inv (sh\<lparr>sh_config := c\<rparr>) = shared_inv sh"
  by (simp add: shared_inv_def)

text \<open>What a request may do to them: extend the queue by a message and refresh the type register.\<close>

definition request_effect :: "shared \<Rightarrow> shared \<Rightarrow> bool" where
  "request_effect sh sh' \<longleftrightarrow> shared_inv sh' \<and> sh_table sh' = sh_table sh \<and>
     (\<exists>new. message_queue (sh_queue sh') = message_queue (sh_queue sh) @ new \<and> length new \<le> 1)"

lemma request_effect_refl: "shared_inv sh \<Longrightarrow> request_effect sh sh"
  by (auto simp: request_effect_def)

lemma enqueue_queue:
  "\<exists>m. message_queue (snd (enqueue_int16 st i v q)) = message_queue q @ [m]"
  "\<exists>m. message_queue (snd (enqueue_bool st i b q)) = message_queue q @ [m]"
  "\<exists>m. message_queue (snd (enqueue_bytes st i s q)) = message_queue q @ [m]"
  "\<exists>m. message_queue (snd (enqueue_array st i bs q)) = message_queue q @ [m]"
  by (auto simp: enqueue_int16_def enqueue_bool_def enqueue_bytes_def enqueue_array_def push_message_def
      Let_def split: prod.split)

lemma send_payload_effect:
  assumes "stack_ok st" "queue_wf q" "is_number p \<longrightarrow> int_value p \<noteq> None"
  obtains q' new where "send_payload st i p q = Some q'" "queue_wf q'"
    "message_queue q' = message_queue q @ new" "length new \<le> 1"
proof (cases "is_number p \<or> is_string p \<or> is_bool p \<or> is_array p")
  case True
  have "\<exists>q'. send_payload st i p q = Some q' \<and> queue_wf q' \<and> (\<exists>m. message_queue q' = message_queue q @ [m])"
    using True assms enqueue_queue enqueue_wf [OF assms(1,2)]
    by (auto simp: send_payload_def)
  then show thesis using that by fastforce
next
  case False
  then show thesis using that [of q "[]"] assms(2) by (simp add: send_payload_def)
qed

lemma send_handler_effect:
  assumes "stack_ok st" "shared_inv sh" "request_ok (Post ''/send'' text')"
  obtains res' sh' where "send_handler st text' sh res = Some (res', sh')" "request_effect sh sh'"
proof (cases "text' = []")
  case True
  then show thesis using that request_effect_refl [OF assms(2)] by (simp add: send_handler_def)
next
  case False
  show thesis
  proof (cases "parse_cstr STANDARD text'")
    case (Inl e)
    then show thesis using that request_effect_refl [OF assms(2)] False by (simp add: send_handler_def)
  next
    case (Inr doc)
    show thesis
    proof (cases "has_number_id doc \<and> has_payload doc")
      case True
      obtain i where i: "number_value_uint (obj_at doc ''id'') = Some i"
        using assms(3) Inr by (auto simp: request_ok_def)
      obtain q' new where q': "send_payload st (ucast i) (obj_at doc ''payload'') (sh_queue sh) = Some q'" "queue_wf q'"
          "message_queue q' = message_queue (sh_queue sh) @ new" "length new \<le> 1"
        by (rule send_payload_effect [OF assms(1)])
          (use assms(2,3) Inr in \<open>auto simp: request_ok_def shared_inv_def\<close>)
      show thesis
        by (rule that [of "set_json (obj [(''send_status'', JString ''ok'')]) res" "sh\<lparr>sh_queue := q'\<rparr>"])
          (use False Inr True i q' shared_inv_queue [OF assms(2) q'(2)] in
            \<open>auto simp: send_handler_def request_effect_def\<close>)
    next
      case nofield: False
      then show thesis
        using that request_effect_refl [OF assms(2)] False Inr by (auto simp: send_handler_def)
    qed
  qed
qed

lemma table_get_ok:
  assumes "table_wf t" "valid (table_get st k t)"
  shows "frame_ok (frame (table_get st k t)) \<and> k = ucast (f_id (frame (table_get st k t))) \<and>
    hash (table_get st k t) = payload_digest (frame (table_get st k t))"
proof -
  obtain m where m: "map_find (mp t) k = Some m" using assms(2) by (auto simp: table_get_valid)
  then have "entry_ok (k, m)" using assms(1) map_find_Some_in by (fastforce simp: table_wf_def)
  then show ?thesis using m by (simp add: table_get_def entry_ok_def)
qed

lemma receive_handler_effect:
  assumes "stack_ok st" "shared_inv sh" "atoi digits \<noteq> None"
  obtains res' sh' where "receive_handler st digits sh res = Some (res', sh')" "request_effect sh sh'"
proof -
  obtain k where k: "atoi digits = Some k" using assms(3) by blast
  define m where "m = table_get st (word_of_int k) (sh_table sh)"
  show thesis
  proof (cases "valid m")
    case True
    then have "frame_ok (frame m)"
      using table_get_ok [of "sh_table sh" st "word_of_int k"] assms(2) by (simp add: m_def shared_inv_def)
    then obtain d c' where c: "convert_frame st m (sh_json sh) = Some (dump d, c')" "json_wf c'"
      by (rule convert_frame_spec [OF assms(1)]) (use assms(2) in \<open>auto simp: shared_inv_def\<close>)
    show thesis
      by (rule that [of "res\<lparr>status := 200, body := dump d, content_type := ''application/json''\<rparr>" "sh\<lparr>sh_json := c'\<rparr>"])
        (use k True c shared_inv_json [OF assms(2) c(2)] in
          \<open>auto simp: receive_handler_def m_def [symmetric] Let_def request_effect_def\<close>)
  next
    case False
    then show thesis
      using that k request_effect_refl [OF assms(2)] by (auto simp: receive_handler_def m_def [symmetric] Let_def)
  qed
qed

lemma dispatch_effect:
  assumes "stack_ok st" "shared_inv sh" "request_ok req"
  obtains routed res' sh' where "dispatch_request st version req sh res = Some (routed, res', sh')" "request_effect sh sh'"
proof (cases req)
  case (Get p)
  show thesis
  proof (cases "receive_path p")
    case None
    obtain rc shc where cfg: "config_handler sh res = (rc, shc)" "request_effect sh shc"
      using assms(2) by (cases "toJson (sh_config sh)") (auto simp: config_handler_def request_effect_def)
    have "\<exists>x. dispatch_request st version req sh res = Some x \<and> request_effect sh (snd (snd x))"
      using cfg request_effect_refl [OF assms(2)] by (simp add: dispatch_request_def Get None) blast
    then show thesis using that by auto
  next
    case (Some d)
    have "take (length ''/receive/'') p = ''/receive/''" "d = drop (length ''/receive/'') p"
      using Some unfolding receive_path_def Let_def by (simp_all split: if_splits)
    then have p: "p = ''/receive/'' @ d" by (metis append_take_drop_id)
    obtain res' sh' where "receive_handler st d sh res = Some (res', sh')" "request_effect sh sh'"
      by (rule receive_handler_effect [OF assms(1,2)]) (use assms(3) Get Some in \<open>auto simp: request_ok_def\<close>)
    then show thesis using that Get Some by (simp add: dispatch_request_def p)
  qed
next
  case (Post p text')
  show thesis
  proof (cases "p = ''/send''")
    case True
    obtain res' sh' where "send_handler st text' sh res = Some (res', sh')" "request_effect sh sh'"
      by (rule send_handler_effect [OF assms(1,2)]) (use assms(3) Post True in auto)
    then show thesis using that Post True by (simp add: dispatch_request_def)
  next
    case False
    then show thesis using that Post request_effect_refl [OF assms(2)] by (simp add: dispatch_request_def)
  qed
qed

lemma process_request_effect:
  assumes "stack_ok st" "shared_inv sh" "request_ok req"
  obtains res sh' where "process_request st version req sh = Some (res, sh')" "request_effect sh sh'"
proof -
  obtain routed res' sh' where "dispatch_request st version req sh new_response = Some (routed, res', sh')"
      "request_effect sh sh'"
    by (rule dispatch_effect [OF assms])
  then show thesis using that by (auto simp: process_request_def Let_def)
qed

section \<open>The invariant\<close>

definition wire_ids :: "gateway \<Rightarrow> u16 set" where
  "wire_ids g = (\<lambda>w. ucast (can_id (fst w))) ` set (g_wire g)"

definition wire_ok :: "canfd_frame \<times> nat \<Rightarrow> bool" where
  "wire_ok w \<longleftrightarrow> unat (can_id (fst w)) < 65536 \<and> unat (fr_len (fst w)) \<le> 64 \<and> length (fr_data (fst w)) = 64 \<and> 
     snd w = 16"

definition socket_ok :: "gateway \<Rightarrow> bool" where
  "socket_ok g \<longleftrightarrow> m_socket_mode (g_socket g) = MODE_CAN_MTU"

definition gateway_inv :: "gateway \<Rightarrow> bool" where
  "gateway_inv g \<longleftrightarrow> shared_inv (g_shared g) \<and> redis_wf (g_redis g) \<and> frame_ok (g_fr g) \<and> socket_ok g \<and>
     (\<forall>w \<in> set (g_wire g). wire_ok w) \<and>
     (\<forall>k. table_key_exists k (sh_table (g_shared g)) \<longrightarrow> check_message k (g_filter g) \<or> k \<in> wire_ids g)"

lemma put_shared_spec:
  assumes "stack_ok st" "frame_ok f" "shared_inv sh"
  obtains m t' where "put_shared st f now sync rs sh = Some (m, sh\<lparr>sh_table := t'\<rparr>)" "table_wf t'"
    "m = put_message st f now (ucast sync) rs"
    "\<And>k. map_find (mp t') k = (if k = ucast (f_id f) \<and> \<not> same_payload f (map_find (mp (sh_table sh)) k)
       then Some m else map_find (mp (sh_table sh)) k)"
proof -
  obtain m t' where t: "table_put st f now (ucast sync) rs (sh_table sh) = Some (m, t')"
      "m = put_message st f now (ucast sync) rs" "table_wf t'"
      "\<And>k. map_find (mp t') k = (if k = ucast (f_id f) \<and> \<not> same_payload f (map_find (mp (sh_table sh)) k)
         then Some m else map_find (mp (sh_table sh)) k)"
    by (rule table_put_wf [OF assms(1,2), of "sh_table sh" now "ucast sync" rs])
      (use assms(3) in \<open>auto simp: shared_inv_def\<close>)
  show thesis by (rule that [of m t']) (use t in \<open>simp_all add: put_shared_def\<close>)
qed

lemma store_redis_spec:
  assumes "stack_ok st" "frame_ok (frame m)" "shared_inv (g_shared g)" "redis_wf (g_redis g)"
  obtains c r where "store_redis st m g = Some (g\<lparr>g_shared := (g_shared g)\<lparr>sh_json := c\<rparr>, g_redis := r\<rparr>)"
    "json_wf c" "redis_wf r"
    "\<And>j. map_find (type_register (sh_json (g_shared g))) j \<noteq> None \<Longrightarrow>
       map_find (type_register c) j = map_find (type_register (sh_json (g_shared g))) j"
proof -
  obtain c r where "store_frame st m (sh_json (g_shared g)) (g_redis g) = Some (c, r)" "json_wf c" "redis_wf r"
      "\<And>j. map_find (type_register (sh_json (g_shared g))) j \<noteq> None \<Longrightarrow>
         map_find (type_register c) j = map_find (type_register (sh_json (g_shared g))) j"
    by (rule store_frame_spec [OF assms(1,2), of "sh_json (g_shared g)" "g_redis g"])
      (use assms(3,4) in \<open>auto simp: shared_inv_def\<close>)
  then show thesis using that by (simp add: store_redis_def)
qed

lemma sync_update_Some: "frame_ok f \<Longrightarrow> sync_update f sync \<noteq> None"
  by (auto simp: sync_update_def rd_def frame_ok_def Let_def)

definition stored_digest :: "u16 \<Rightarrow> gateway \<Rightarrow> string option" where
  "stored_digest k g = map_option hash (map_find (mp (sh_table (g_shared g))) k)"

lemma receive_frame_inv:
  assumes "stack_ok st" "gateway_inv g"
  obtains g' where "receive_frame st now g = Some g'" "gateway_inv g'"
    "sh_queue (g_shared g') = sh_queue (g_shared g)" "g_wire g' = g_wire g"
    "check_message (ucast (f_id (g_fr g))) (g_filter g) \<Longrightarrow>
       stored_digest (ucast (f_id (g_fr g))) g' = Some (payload_digest (g_fr g))"
proof (cases "check_message (ucast (f_id (g_fr g))) (g_filter g)")
  case True
  have f: "frame_ok (g_fr g)" and sh: "shared_inv (g_shared g)" and rd: "redis_wf (g_redis g)"
    using assms(2) by (simp_all add: gateway_inv_def)
  obtain m t' where put: "put_shared st (g_fr g) now (g_sync g) M_GOT (g_shared g) = Some (m, (g_shared g)\<lparr>sh_table := t'\<rparr>)"
      "table_wf t'" "m = put_message st (g_fr g) now (ucast (g_sync g)) M_GOT"
      "\<And>k. map_find (mp t') k = (if k = ucast (f_id (g_fr g)) \<and> \<not> same_payload (g_fr g) (map_find (mp (sh_table (g_shared g))) k)
         then Some m else map_find (mp (sh_table (g_shared g))) k)"
    by (rule put_shared_spec [OF assms(1) f sh, where now = now and sync = "g_sync g" and rs = M_GOT]) (rule that)
  obtain c r where red: "store_redis st m (g\<lparr>g_shared := (g_shared g)\<lparr>sh_table := t'\<rparr>\<rparr>) =
      Some (g\<lparr>g_shared := (g_shared g)\<lparr>sh_table := t', sh_json := c\<rparr>, g_redis := r\<rparr>)" "json_wf c" "redis_wf r"
    by (rule store_redis_spec [OF assms(1), of m "g\<lparr>g_shared := (g_shared g)\<lparr>sh_table := t'\<rparr>\<rparr>"])
      (use put f rd sh in \<open>auto simp: put_message_def shared_inv_table\<close>)
  obtain sync where sync: "sync_update (g_fr g) (g_sync g) = Some sync" using sync_update_Some [OF f] by blast
  show thesis
  proof (rule that)
    show "receive_frame st now g = Some (g\<lparr>g_shared := (g_shared g)\<lparr>sh_table := t', sh_json := c\<rparr>, g_redis := r, g_sync := sync\<rparr>)"
      using True put(1) red(1) sync by (simp add: receive_frame_def)
    show "gateway_inv (g\<lparr>g_shared := (g_shared g)\<lparr>sh_table := t', sh_json := c\<rparr>, g_redis := r, g_sync := sync\<rparr>)"
      using assms(2) True put(2,4) red(2,3)
      by (auto simp: gateway_inv_def shared_inv_def socket_ok_def wire_ids_def table_key_exists_def)
    show "stored_digest (ucast (f_id (g_fr g))) (g\<lparr>g_shared := (g_shared g)\<lparr>sh_table := t', sh_json := c\<rparr>, g_redis := r, g_sync := sync\<rparr>)
        = Some (payload_digest (g_fr g))"
      using put(3) put(4) [of "ucast (f_id (g_fr g))"]
      by (auto simp: stored_digest_def same_payload_def put_message_def split: option.splits)
  qed simp_all
next
  case False
  then show thesis using that [of g] assms(2) by (simp add: receive_frame_def)
qed

lemma read_turn_inv:
  assumes "event_ok (Read st now n cf)" "gateway_inv g"
  obtains b g' where "read_turn st now n cf g = Some (b, g')" "gateway_inv g'"
    "sh_queue (g_shared g') = sh_queue (g_shared g)" "g_wire g' = g_wire g"
    "n \<in> {CAN_MTU, CANFD_MTU} \<Longrightarrow> check_message (ucast (can_id cf)) (g_filter g) \<Longrightarrow>
       stored_digest (ucast (can_id cf)) g' = Some (hex_string (fips_sha256 (take (unat (fr_len cf)) (fr_data cf))))"
proof -
  have f: "frame_ok (g_fr g)" using assms(2) by (simp add: gateway_inv_def)
  have "socket_read n cf (g_fr g) \<noteq> None"
    using f assms(1) by (simp add: socket_read_def frame_ok_def)
  then obtain status fr where rd: "socket_read n cf (g_fr g) = Some (status, fr)" by fastforce
  have "frame_ok fr" using rd f assms(1) by (auto simp: socket_read_def frame_ok_def split: if_splits)
  then have inv: "gateway_inv (g\<lparr>g_fr := fr\<rparr>)"
    using assms(2) by (simp add: gateway_inv_def socket_ok_def wire_ids_def)
  show thesis
  proof (cases "status = STATUS_OK")
    case True
    obtain g' where "receive_frame st now (g\<lparr>g_fr := fr\<rparr>) = Some g'" "gateway_inv g'"
        "sh_queue (g_shared g') = sh_queue (g_shared g)" "g_wire g' = g_wire g"
        "check_message (ucast (f_id fr)) (g_filter g) \<Longrightarrow>
           stored_digest (ucast (f_id fr)) g' = Some (payload_digest fr)"
      by (rule receive_frame_inv [OF _ inv, of st now]) (use assms(1) in auto)
    moreover have "f_id fr = can_id cf" "payload_digest fr = hex_string (fips_sha256 (take (unat (fr_len cf)) (fr_data cf)))"
      using rd True f assms(1) by (auto simp: socket_read_def payload_digest_def split: if_splits)
    ultimately show thesis using that [of True g'] rd True by (simp add: read_turn_def)
  next
    case False
    then have "n \<notin> {CAN_MTU, CANFD_MTU}" using rd by (auto simp: socket_read_def split: if_splits)
    then show thesis using that [of False "g\<lparr>g_fr := fr\<rparr>"] rd inv False by (simp add: read_turn_def)
  qed
qed

definition wire_of :: "CAN_MESSAGE \<Rightarrow> canfd_frame \<times> nat" where
  "wire_of m = the (wire_frame MODE_CAN_MTU (frame m))"

lemma wire_of_queued:
  assumes "queued_ok m"
  shows "wire_frame MODE_CAN_MTU (frame m) = Some (wire_of m) \<and> wire_ok (wire_of m) \<and>
    (ucast (can_id (fst (wire_of m))) :: u16) = ucast (f_id (frame m))"
proof -
  have f: "frame_ok (frame m)" "unat (f_id (frame m)) < 65536" using assms by (simp_all add: queued_ok_def)
  then obtain w where w: "wire_frame MODE_CAN_MTU (frame m) = Some w"
    by (auto simp: wire_frame_def frame_payload_def frame_ok_def)
  then have "wire_ok w \<and> can_id (fst w) = f_id (frame m)"
    using f by (auto simp: wire_frame_def frame_payload_def frame_ok_def wire_ok_def mode_size_def split: if_splits)
  then show ?thesis using w by (simp add: wire_of_def)
qed

lemma message_queued_nonempty: "0 < message_queued q \<Longrightarrow> message_queue q \<noteq> []"
  by (auto simp: message_queued_def)

lemma register_if_new_wf: "json_wf c \<Longrightarrow> json_wf (register_if_new k t c)"
  by (simp add: register_if_new_def register_conversion_wf)

lemma send_turn_sends:
  assumes "stack_ok st" "gateway_inv g" "0 < message_queued (sh_queue (g_shared g))"
    "message_queue (sh_queue (g_shared g)) = m # ms"
  obtains g' where "send_turn st now written g = Some g'" "gateway_inv g'"
    "message_queue (sh_queue (g_shared g')) = ms" "g_wire g' = g_wire g @ [wire_of m]"
    "\<And>k. map_find (mp (sh_table (g_shared g'))) k =
       (if k = ucast (f_id (frame m)) \<and> \<not> same_payload (frame m) (map_find (mp (sh_table (g_shared g))) k)
        then Some (put_message st (frame m) now (ucast (g_sync g)) (message_receieved m))
        else map_find (mp (sh_table (g_shared g))) k)"
    "map_find (type_register (sh_json (g_shared g'))) (ucast (f_id (frame m))) =
       Some (case map_find (type_register (sh_json (g_shared g))) (ucast (f_id (frame m))) of None \<Rightarrow> c_type m | Some t \<Rightarrow> t)"
proof -
  define q where "q = (sh_queue (g_shared g))\<lparr>message_queue := ms\<rparr>"
  define m' where "m' = m\<lparr>valid := True\<rparr>"
  define sh1 where "sh1 = (g_shared g)\<lparr>sh_queue := q,
      sh_json := register_if_new (ucast (f_id (frame m))) (c_type m) (sh_json (g_shared g))\<rparr>"
  have sh: "shared_inv (g_shared g)" and rd: "redis_wf (g_redis g)" and mode: "m_socket_mode (g_socket g) = MODE_CAN_MTU"
    using assms(2) by (simp_all add: gateway_inv_def socket_ok_def)
  have m: "queued_ok m" "queue_wf q"
    using sh assms(4) by (simp_all add: shared_inv_def queue_wf_def q_def)
  have deq: "dequeue st (sh_queue (g_shared g)) = Some (m', q)"
    using assms(3,4) by (simp add: dequeue_def pop_message_def m'_def q_def)
  have f: "frame_ok (frame m)" using m by (simp add: queued_ok_def)
  note w = wire_of_queued [OF m(1)]
  have sh1: "shared_inv sh1"
    using sh m(2) by (simp add: sh1_def shared_inv_def register_if_new_wf)
  obtain p t' where put: "put_shared st (frame m) now (g_sync g) (message_receieved m) sh1 = Some (p, sh1\<lparr>sh_table := t'\<rparr>)"
      "table_wf t'" "p = put_message st (frame m) now (ucast (g_sync g)) (message_receieved m)"
      "\<And>k. map_find (mp t') k = (if k = ucast (f_id (frame m)) \<and> \<not> same_payload (frame m) (map_find (mp (sh_table sh1)) k)
         then Some p else map_find (mp (sh_table sh1)) k)"
    by (rule put_shared_spec [OF assms(1) f sh1, where now = now and sync = "g_sync g" and rs = "message_receieved m"]) (rule that)
  let ?g = "g\<lparr>g_wire := g_wire g @ [wire_of m], g_shared := sh1\<lparr>sh_table := t'\<rparr>\<rparr>"
  obtain c r where red: "store_redis st m' ?g = Some (?g\<lparr>g_shared := (g_shared ?g)\<lparr>sh_json := c\<rparr>, g_redis := r\<rparr>)"
      "json_wf c" "redis_wf r"
      "\<And>j. map_find (type_register (sh_json (g_shared ?g))) j \<noteq> None \<Longrightarrow>
         map_find (type_register c) j = map_find (type_register (sh_json (g_shared ?g))) j"
    by (rule store_redis_spec [OF assms(1), of m' ?g])
      (use f rd shared_inv_table [OF sh1 put(2)] in \<open>auto simp: m'_def\<close>)
  have types: "map_find (type_register (sh_json sh1)) (ucast (f_id (frame m))) =
      Some (case map_find (type_register (sh_json (g_shared g))) (ucast (f_id (frame m))) of None \<Rightarrow> c_type m | Some t \<Rightarrow> t)"
    by (auto simp: sh1_def register_if_new_def conversion_key_exists_def register_conversion_def split: option.split)
  show thesis
  proof (rule that)
    show "send_turn st now written g = Some (?g\<lparr>g_shared := (g_shared ?g)\<lparr>sh_json := c\<rparr>, g_redis := r\<rparr>)"
      using assms(3) deq put(1) red(1) w mode
      by (cases "wire_of m") (simp add: send_turn_def m'_def Let_def socket_write_def sh1_def)
    show "gateway_inv (?g\<lparr>g_shared := (g_shared ?g)\<lparr>sh_json := c\<rparr>, g_redis := r\<rparr>)"
      using assms(2) put(2,4) red(2,3) w m(2)
      by (auto simp: gateway_inv_def shared_inv_def socket_ok_def wire_ids_def table_key_exists_def sh1_def)
    show "message_queue (sh_queue (g_shared (?g\<lparr>g_shared := (g_shared ?g)\<lparr>sh_json := c\<rparr>, g_redis := r\<rparr>))) = ms"
      by (simp add: sh1_def q_def)
    show "map_find (type_register (sh_json (g_shared (?g\<lparr>g_shared := (g_shared ?g)\<lparr>sh_json := c\<rparr>, g_redis := r\<rparr>))))
        (ucast (f_id (frame m))) =
      Some (case map_find (type_register (sh_json (g_shared g))) (ucast (f_id (frame m))) of None \<Rightarrow> c_type m | Some t \<Rightarrow> t)"
      using red(4) [of "ucast (f_id (frame m))"] types by simp
    show "map_find (mp (sh_table (g_shared (?g\<lparr>g_shared := (g_shared ?g)\<lparr>sh_json := c\<rparr>, g_redis := r\<rparr>)))) k =
       (if k = ucast (f_id (frame m)) \<and> \<not> same_payload (frame m) (map_find (mp (sh_table (g_shared g))) k)
        then Some (put_message st (frame m) now (ucast (g_sync g)) (message_receieved m))
        else map_find (mp (sh_table (g_shared g))) k)" for k
      using put(3) put(4) [of k] by (auto simp: sh1_def)
  qed simp
qed

lemma send_turn_idle: "message_queued (sh_queue (g_shared g)) \<le> 0 \<Longrightarrow> send_turn st now written g = Some g"
  by (simp add: send_turn_def)

text \<open>Every event is served, without undefined behaviour, and keeps the invariant.\<close>

lemma handle_inv:
  assumes "event_ok e" "gateway_inv g"
  obtains g' where "handle e g = Some g'" "gateway_inv g'"
proof (cases e)
  case (Read st now n cf)
  obtain b g' where "read_turn st now n cf g = Some (b, g')" "gateway_inv g'"
    by (rule read_turn_inv [OF _ assms(2), of st now n cf]) (use assms(1) Read in auto)
  then show thesis using that Read by simp
next
  case (Send st now w)
  then have st: "stack_ok st" using assms(1) by simp
  show thesis
  proof (cases "0 < message_queued (sh_queue (g_shared g))")
    case True
    then obtain m ms where "message_queue (sh_queue (g_shared g)) = m # ms"
      using message_queued_nonempty by (cases "message_queue (sh_queue (g_shared g))") auto
    then obtain g' where "send_turn st now w g = Some g'" "gateway_inv g'"
      by (rule send_turn_sends [OF st assms(2) True]) auto
    then show thesis using that Send by simp
  next
    case False
    then show thesis using that [of g] Send assms(2) by (simp add: send_turn_idle)
  qed
next
  case (Request st v req)
  obtain res sh' where r: "process_request st v req (g_shared g) = Some (res, sh')" "request_effect (g_shared g) sh'"
    by (rule process_request_effect [of st "g_shared g" req v])
      (use assms Request in \<open>auto simp: gateway_inv_def\<close>)
  show thesis
    by (rule that [of "g\<lparr>g_shared := sh'\<rparr>"])
      (use r assms(2) Request in \<open>auto simp: rest_step_def gateway_inv_def request_effect_def socket_ok_def wire_ids_def\<close>)
next
  case Flush
  then show thesis
    using that [of "g\<lparr>g_redis := (g_redis g)\<lparr>write_map := []\<rparr>\<rparr>"] assms(2)
    by (simp add: gateway_inv_def redis_wf_def socket_ok_def wire_ids_def)
qed

lemma reachable_inv: "reachable g0 g \<Longrightarrow> gateway_inv g0 \<Longrightarrow> gateway_inv g"
proof (induction rule: reachable.induct)
  case (more g g')
  from more.hyps(2) obtain e where e: "event_ok e" "handle e g = Some g'" by (rule stepE)
  obtain g2 where "handle e g = Some g2" "gateway_inv g2" by (rule handle_inv [OF e(1) more.IH [OF more.prems]])
  then show ?case using e(2) by simp
qed simp

end
