(* ===== verification/Gateway_Props.thy ===== *)
theory Gateway_Props
  imports Can2rest_Props
begin

text \<open>
  What the gateway as a whole promises: from the set-up by \<open>main\<close> on, for every schedule of
  frames, requests and turns of the loop and of the Redis worker.
\<close>

section \<open>The set-up\<close>

lemma setup_conversions_wf: "setup_conversions kvs c = Some c' \<Longrightarrow> json_wf c \<Longrightarrow> json_wf c'"
proof (induction kvs arbitrary: c)
  case (Cons kv kvs)
  then obtain c1 where "conversion_entry kv c = Some c1" "setup_conversions kvs c1 = Some c'"
    by (auto simp: bind_eq_Some_conv)
  then show ?case
    using Cons.IH Cons.prems(2) register_conversion_wf by (auto simp: conversion_entry_def split: if_splits)
qed simp

text \<open>The entries of the configuration that set a filter, in their order.\<close>

definition filter_settings :: "(string \<times> string) list \<Rightarrow> (u16 \<times> bool) list" where
  "filter_settings kvs =
     map (\<lambda>(k, v). (word_of_int (the (atoi (last_token k))), the (atoi v) \<noteq> 0))
       (filter (\<lambda>(k, v). contains filter_token k \<and> last_token k \<noteq> []) kvs)"

lemma setup_filter_settings:
  "setup_filter kvs f = Some f' \<Longrightarrow> f' = fold (\<lambda>(i, b). set_filter i b) (filter_settings kvs) f"
proof (induction kvs arbitrary: f)
  case (Cons kv kvs)
  then obtain f1 where f1: "filter_entry kv f = Some f1" "setup_filter kvs f1 = Some f'"
    by (auto simp: bind_eq_Some_conv)
  then show ?case
    using Cons.IH [OF f1(2)]
    by (auto simp: filter_entry_def filter_settings_def split: if_splits option.splits prod.splits)
qed (simp add: filter_settings_def)

lemma check_fold_filter:
  "check_message i (fold (\<lambda>(i, b). set_filter i b) es f) =
     (case map_of (rev es) i of Some b \<Rightarrow> b | None \<Rightarrow> check_message i f)"
  by (induction es arbitrary: f) (auto simp: check_set_filter map_add_def split: option.split)

lemma setup_redis_spec:
  "setup_redis c port r = Some red \<Longrightarrow> write_map red = write_map r \<and> enable_write red \<and> frame_json_set red"
  by (auto simp: setup_redis_def bind_eq_Some_conv Let_def set_connection_details_def set_field_prefix_def
      set_hash_name_def enable_write_to_db_def set_can_to_json_instance_def redis_enable_service_def split: if_splits)

lemma rest_enable_thread:
  "rest_enable_service en (set_bind_settings host p r) = Some api \<Longrightarrow>
   rest_update_thread r = rest_thread_running r \<longrightarrow> en \<longrightarrow> rest_update_thread api"
  by (auto simp: rest_enable_service_def set_bind_settings_def Let_def split: if_splits)

lemma setup_gateway_spec:
  assumes "setup_gateway c g = Some g'"
  obtains en flt conv api red where
    "g' = g\<lparr>g_filter := flt, g_shared := (g_shared g)\<lparr>sh_json := conv, sh_config := c\<rparr>, g_api := api, g_redis := red\<rparr>"
    "getBool_nocheck REST_WEBSERVER_ENABLE c = Some en"
    "setup_filter (get_raw_config_map c) (set_invert_filter en (g_filter g)) = Some flt"
    "setup_conversions (get_raw_config_map c) (register_conversion 200 C_INT (sh_json (g_shared g))) = Some conv"
    "rest_update_thread (g_api g) = rest_thread_running (g_api g) \<longrightarrow> en \<longrightarrow> rest_update_thread api"
    "write_map red = write_map (g_redis g)" "enable_write red" "frame_json_set red"
  using assms rest_enable_thread setup_redis_spec
  by (auto simp: setup_gateway_def bind_eq_Some_conv intro: that)

lemma open_can_spec:
  assumes "open_can os c g = (b, g')"
  obtains s where "g' = g\<lparr>g_socket := s\<rparr>" "b \<Longrightarrow> m_socket_mode s = MODE_CAN_MTU"
  using assms that [of "g_socket g"]
  by (auto simp: open_can_def socket_open_def Let_def split: if_splits intro: that)

lemma main_loops:
  assumes "can2rest_main os argv fs g0 = Some (Loops g)"
    "load_config argv ''./can2rest_config.ini'' (sh_config (g_shared g0), fs) = (c, fs')"
  obtains g1 where "setup_gateway c g0 = Some g1" "open_can os c g1 = (True, g)"
proof -
  obtain g1 where g1: "setup_gateway c g0 = Some g1"
      "(case open_can os c g1 of (True, g) \<Rightarrow> Some (Loops g) | (False, g) \<Rightarrow> map_option (\<lambda>g. Exits 1) (cleanup g)) = Some (Loops g)"
    using assms by (auto simp: can2rest_main_def bind_eq_Some_conv split: if_splits)
  then show thesis using that by (cases "open_can os c g1") (auto split: bool.splits)
qed

lemma main_spec:
  assumes "can2rest_main os argv fs (gateway_start st mode port) = Some (Loops g)" "stack_ok st"
  obtains c en where "gateway_inv g" "g_wire g = []" "message_queue (sh_queue (g_shared g)) = []"
    "enable_write (g_redis g)" "frame_json_set (g_redis g)"
    "c = fst (load_config argv ''./can2rest_config.ini'' (config_init, fs))"
    "getBool_nocheck REST_WEBSERVER_ENABLE c = Some en"
    "setup_filter (get_raw_config_map c) (set_invert_filter en filter_init) = Some (g_filter g)"
proof -
  obtain c fs' where c: "load_config argv ''./can2rest_config.ini'' (config_init, fs) = (c, fs')" by fastforce
  obtain g1 where g1: "setup_gateway c (gateway_start st mode port) = Some g1" "open_can os c g1 = (True, g)"
    by (rule main_loops [OF assms(1), of c fs']) (simp_all add: c gateway_start_def)
  obtain s where s: "g = g1\<lparr>g_socket := s\<rparr>" "m_socket_mode s = MODE_CAN_MTU"
    by (rule open_can_spec [OF g1(2)]) simp
  have sha: "hasher_ok (new_sha256 st)"
    using assms(2) by (simp add: hasher_ok_def new_sha256_def sha_reset_def stack_ok_def)
  have fr: "frame_ok (new_frame st)" using assms(2) by (simp add: frame_ok_def new_frame_def stack_ok_def)
  show thesis
  proof (rule setup_gateway_spec [OF g1(1)])
    fix en flt conv api red
    assume a: "g1 = (gateway_start st mode port)\<lparr>g_filter := flt,
        g_shared := (g_shared (gateway_start st mode port))\<lparr>sh_json := conv, sh_config := c\<rparr>, g_api := api, g_redis := red\<rparr>"
      "getBool_nocheck REST_WEBSERVER_ENABLE c = Some en"
      "setup_filter (get_raw_config_map c) (set_invert_filter en (g_filter (gateway_start st mode port))) = Some flt"
      "setup_conversions (get_raw_config_map c)
         (register_conversion 200 C_INT (sh_json (g_shared (gateway_start st mode port)))) = Some conv"
      "write_map red = write_map (g_redis (gateway_start st mode port))" "enable_write red" "frame_json_set red"
    have "json_wf conv"
      by (rule setup_conversions_wf [OF a(4) register_conversion_wf]) (simp add: gateway_start_def json_wf_def sha)
    then have "gateway_inv g"
      using s a(1,5) sha fr
      by (simp add: gateway_inv_def gateway_start_def shared_inv_def table_wf_def queue_wf_def redis_wf_def
          redis_init_def socket_ok_def table_key_exists_def)
    then show thesis
      by (rule that [of c en]) (use s a c in \<open>simp_all add: gateway_start_def\<close>)
  qed
qed


section \<open>Schedules\<close>

lemma run_inv:
  assumes "\<forall>e \<in> set es. event_ok e" "gateway_inv g"
  obtains g' where "run es g = Some g'" "gateway_inv g'"
  using assms
proof (induction es arbitrary: g thesis)
  case (Cons e es)
  obtain g1 where g1: "handle e g = Some g1" "gateway_inv g1"
    by (rule handle_inv [OF _ Cons.prems(3), of e]) (use Cons.prems(2) in auto)
  obtain g' where "run es g1 = Some g'" "gateway_inv g'"
    by (rule Cons.IH [OF _ _ g1(2)]) (use Cons.prems(2) in auto)
  then show ?case using Cons.prems(1) g1(1) by simp
qed simp

abbreviation queue_of :: "gateway \<Rightarrow> CAN_MESSAGE list" where
  "queue_of g \<equiv> message_queue (sh_queue (g_shared g))"

fun is_send :: "event \<Rightarrow> bool" where
  "is_send (Send st now w) = True"
| "is_send _ = False"

text \<open>What an event does to the queue and to the wire.\<close>

definition queue_effect :: "event \<Rightarrow> gateway \<Rightarrow> gateway \<Rightarrow> CAN_MESSAGE list \<Rightarrow> CAN_MESSAGE list \<Rightarrow> bool" where
  "queue_effect e g g' sent new \<longleftrightarrow>
     g_wire g' = g_wire g @ map wire_of sent \<and> sent @ queue_of g' = queue_of g @ new \<and> length new \<le> 1 \<and>
     (\<forall>m \<in> set sent. queued_ok m) \<and> (is_send e \<and> queue_of g \<noteq> [] \<longrightarrow> length sent = 1)"

lemma handle_queue:
  assumes "event_ok e" "gateway_inv g" "length (queue_of g) < 2 ^ 31"
  obtains g' sent new where "handle e g = Some g'" "gateway_inv g'" "queue_effect e g g' sent new"
proof (cases e)
  case (Read st now n cf)
  obtain b g' where "read_turn st now n cf g = Some (b, g')" "gateway_inv g'"
      "sh_queue (g_shared g') = sh_queue (g_shared g)" "g_wire g' = g_wire g"
    by (rule read_turn_inv [OF _ assms(2), of st now n cf]) (use assms(1) Read in auto)
  then show thesis using that [of g' "[]" "[]"] Read by (simp add: queue_effect_def)
next
  case (Send st now w)
  then have st: "stack_ok st" using assms(1) by simp
  show thesis
  proof (cases "queue_of g")
    case Nil
    then have "send_turn st now w g = Some g" using message_queued_pos [of "sh_queue (g_shared g)"] by (intro send_turn_idle) simp
    then show thesis using that [of g "[]" "[]"] Send Nil assms(2) by (simp add: queue_effect_def)
  next
    case (Cons m ms)
    have pos: "0 < message_queued (sh_queue (g_shared g))"
      using message_queued_pos [OF assms(3)] Cons by simp
    obtain g' where "send_turn st now w g = Some g'" "gateway_inv g'" "queue_of g' = ms" "g_wire g' = g_wire g @ [wire_of m]"
      by (rule send_turn_sends [OF st assms(2) pos Cons])
    moreover have "queued_ok m" using assms(2) Cons by (simp add: gateway_inv_def shared_inv_def queue_wf_def)
    ultimately show thesis using that [of g' "[m]" "[]"] Send Cons by (simp add: queue_effect_def)
  qed
next
  case (Request st v req)
  obtain res sh' where r: "process_request st v req (g_shared g) = Some (res, sh')" "request_effect (g_shared g) sh'"
    by (rule process_request_effect [of st "g_shared g" req v])
      (use assms Request in \<open>auto simp: gateway_inv_def\<close>)
  obtain g' where g': "handle e g = Some g'" "gateway_inv g'" by (rule handle_inv [OF assms(1,2)])
  then have "g' = g\<lparr>g_shared := sh'\<rparr>" using r(1) Request by (simp add: rest_step_def)
  moreover obtain new where "message_queue (sh_queue sh') = queue_of g @ new" "length new \<le> 1"
    using r(2) by (auto simp: request_effect_def)
  ultimately show thesis using that [OF g', of "[]" new] Request by (simp add: queue_effect_def)
next
  case Flush
  obtain g' where g': "handle e g = Some g'" "gateway_inv g'" by (rule handle_inv [OF assms(1,2)])
  then show thesis using that [OF g', of "[]" "[]"] Flush by (auto simp: queue_effect_def)
qed

lemma run_queue:
  assumes "\<forall>e \<in> set es. event_ok e" "gateway_inv g" "length (queue_of g) + length es < 2 ^ 31"
  shows "\<exists>g' sent new. run es g = Some g' \<and> gateway_inv g' \<and> g_wire g' = g_wire g @ map wire_of sent \<and>
    sent @ queue_of g' = queue_of g @ new \<and>
    min (length (filter is_send es)) (length (queue_of g)) \<le> length sent \<and> (\<forall>m \<in> set sent. queued_ok m)"
  using assms
proof (induction es arbitrary: g)
  case (Cons e es)
  obtain g1 s1 n1 where g1: "handle e g = Some g1" "gateway_inv g1" "queue_effect e g g1 s1 n1"
    by (rule handle_queue [of e g]) (use Cons.prems in auto)
  have len: "length s1 + length (queue_of g1) = length (queue_of g) + length n1" "length n1 \<le> 1"
    using g1(3) by (auto simp: queue_effect_def dest: arg_cong [where f = length])
  obtain g' s2 n2 where g': "run es g1 = Some g'" "gateway_inv g'" "g_wire g' = g_wire g1 @ map wire_of s2"
      "s2 @ queue_of g' = queue_of g1 @ n2" "min (length (filter is_send es)) (length (queue_of g1)) \<le> length s2"
      "\<forall>m \<in> set s2. queued_ok m"
    using Cons.IH [OF _ g1(2)] Cons.prems len by auto
  have "(s1 @ s2) @ queue_of g' = queue_of g @ n1 @ n2"
    using g'(4) g1(3) by (simp add: queue_effect_def)
  moreover have "min (length (filter is_send (e # es))) (length (queue_of g)) \<le> length (s1 @ s2)"
    using g'(5) len(1) g1(3) by (auto simp: queue_effect_def split: if_splits)
  ultimately show ?case
    using g1(1,3) g'(1-3,6) by (intro exI [of _ g'] exI [of _ "s1 @ s2"] exI [of _ "n1 @ n2"]) (auto simp: queue_effect_def)
qed auto


section \<open>Answers of the REST interface\<close>

text \<open>The requests that are served.\<close>

definition served :: "request \<Rightarrow> bool" where
  "served req =
     (case req of
        Get p \<Rightarrow> p \<in> {''/'', ''/types'', ''/version'', ''/config'', ''/list''} \<or> receive_path p \<noteq> None
      | Post p text' \<Rightarrow> p = ''/send'' \<and> text' \<noteq> [] \<and>
          (case parse_cstr STANDARD text' of Inl _ \<Rightarrow> False | Inr doc \<Rightarrow> has_number_id doc \<and> has_payload doc))"

definition error_answer :: response where
  "error_answer = \<lparr>status = 404, body = ''{'' @ [CHR 0x22] @ ''error'' @ [CHR 0x22] @ '': 404}'', content_type = ''application/json''\<rparr>"

lemma error_handler_answer: "error_handler res = error_answer"
proof -
  have "dump (obj [(''error'', JInt 404)]) = body error_answer" by code_simp
  then show ?thesis
    by (simp add: error_handler_def set_json_def Let_def error_answer_def)
qed

lemma dispatch_served:
  assumes "dispatch_request st v req sh new_response = Some (routed, res, sh')"
  shows "served req \<and> routed \<and> (status res = 200 \<or> status res = - 1) \<or>
    \<not> served req \<and> sh' = sh \<and> (status res = 500 \<or> \<not> routed \<and> status res = - 1)"
proof (cases req)
  case (Get p)
  then show ?thesis
    using assms
    by (auto simp: dispatch_request_def served_def new_response_def root_handler_def types_handler_def
        version_handler_def config_handler_def list_handler_def set_json_def receive_handler_def Let_def
        split: if_splits option.splits prod.splits)
next
  case (Post p text')
  then show ?thesis
    using assms
    by (auto simp: dispatch_request_def served_def new_response_def send_handler_def send_error_def set_json_def
        split: if_splits option.splits sum.splits)
qed

lemma process_request_served:
  assumes "process_request st v req sh = Some (res, sh')"
  shows "if served req then status res = 200 else res = error_answer \<and> sh' = sh"
proof -
  obtain routed r where d: "dispatch_request st v req sh new_response = Some (routed, r, sh')"
      "res = write_response (if status r = - 1 then r\<lparr>status := if routed then 200 else 404\<rparr> else r)"
    using assms by (auto simp: process_request_def Let_def split: option.splits)
  show ?thesis
    using dispatch_served [OF d(1)] d(2) by (auto simp: write_response_def error_handler_answer)
qed


section \<open>What is read back\<close>

lemma map_find_init: "map_find (map_init es) (k :: 'k::linorder) = map_of es k"
proof -
  have "map_find (fold (\<lambda>(k, v) m. map_insert m k v) es m) k =
      (case map_find m k of Some v \<Rightarrow> Some v | None \<Rightarrow> map_of es k)" for m
    by (induction es arbitrary: m) (auto simp: map_find_insert split: option.split)
  from this [of "[]"] show ?thesis by (simp add: map_init_def)
qed

lemma obj_at_init: "obj_at (JObject (map_init es)) k = (case map_of es k of None \<Rightarrow> JNull | Some v \<Rightarrow> v)"
  by (simp add: obj_at_def map_find_init)

text \<open>The fields of the document of a frame.\<close>

lemma document_fields:
  assumes "frame_document t m = Some d"
  shows "obj_at (obj_at d ''info'') ''raw_data'' =
      JArray (map (\<lambda>b. JInt (uint b)) (take (unat (f_len (frame m))) (f_data (frame m))))"
    "obj_at (obj_at d ''info'') ''id'' = JInt (s32_of (f_id (frame m)))"
    "obj_at (obj_at d ''info'') ''type'' = JString (conversation_name t)"
    "payload_json t (frame m) = Some (obj_at (obj_at d ''parsed_data'') ''payload'')"
    "obj_at (obj_at d ''info'') ''payload_hash'' = JString (if hash m = [] then payload_digest (frame m) else hash m)"
  using assms by (auto simp: frame_document_def frame_json_def info_json_def obj_at_init)

lemma frame_document_valid: "frame_document t (m\<lparr>valid := b\<rparr>) = frame_document t m"
  unfolding frame_document_def by (rule arg_cong2 [where f = map_option]) (simp_all add: fun_eq_iff frame_json_def info_json_def)

lemma isdigit_no_space: "isdigit c \<Longrightarrow> \<not> isspace c \<and> c \<noteq> NUL \<and> c \<noteq> CHR ''-'' \<and> c \<noteq> CHR ''+''"
  by (auto simp: isdigit_def isspace_def char_code_def)

lemma udec_hd: "udec n = c # cs \<Longrightarrow> isdigit c"
  using udec_digits [of c n] by simp

lemma takeWhile_udec: "(\<And>c. isdigit c \<Longrightarrow> P c) \<Longrightarrow> takeWhile P (udec n) = udec n"
  using udec_digits by (auto simp: takeWhile_eq_all_conv)

lemma atoi_udec:
  assumes "n < 2147483648"
  shows "atoi (udec n) = Some (int n)"
proof -
  obtain c cs where u: "udec n = c # cs" by (cases "udec n") auto
  then have c: "\<not> isspace c" "c \<noteq> CHR ''-''" "c \<noteq> CHR ''+''" using isdigit_no_space udec_hd by auto
  have t: "takeWhile (\<lambda>c. c \<noteq> NUL) (udec n) = udec n" "takeWhile isdigit (udec n) = udec n"
    by (rule takeWhile_udec; use isdigit_no_space in blast)+
  have "dropWhile isspace (udec n) = udec n" "hd (udec n) = c" by (simp_all add: u c)
  then show ?thesis
    unfolding atoi_def Let_def t(1) using c assms by (simp del: takeWhile_eq_all_conv add: t(2))
qed

lemma receive_path_udec: "receive_path (''/receive/'' @ udec n) = Some (udec n)"
  by (auto simp: receive_path_def list_all_iff udec_digits)

lemma receive_not_fixed: "''/receive/'' @ s \<notin> {''/'', ''/types'', ''/version'', ''/config''}"
  by simp

text \<open>\<open>GET /receive\<close> with the number of an identifier.\<close>

lemma receive_answer:
  assumes "stack_ok st" "shared_inv sh"
    "process_request st v (Get (''/receive/'' @ udec (unat (k :: u16)))) sh = Some (res, sh')"
  shows "status res = 200 \<and>
    (case map_find (mp (sh_table sh)) k of
       None \<Rightarrow> body res = dump (obj [(''valid'', JBool False)])
     | Some m \<Rightarrow> \<exists>d. body res = dump d \<and>
         frame_document (effective_type (case map_find (type_register (sh_json sh)) k of None \<Rightarrow> C_NONE | Some t \<Rightarrow> t)) m = Some d)"
proof -
  have k: "unat k < 2147483648" using unsigned_less [of k, where ?'a = nat] by simp
  obtain routed r where d: "dispatch_request st v (Get (''/receive/'' @ udec (unat k))) sh new_response = Some (routed, r, sh')"
      "res = write_response (if status r = - 1 then r\<lparr>status := if routed then 200 else 404\<rparr> else r)"
    using assms(3) by (auto simp: process_request_def Let_def split: option.splits)
  have h: "receive_handler st (udec (unat k)) sh new_response = Some (r, sh')" "routed"
    using d(1) receive_path_udec by (auto simp: dispatch_request_def)
  have w: "(word_of_int (int (unat k)) :: u16) = k" by simp
  show ?thesis
  proof (cases "map_find (mp (sh_table sh)) k")
    case None
    then show ?thesis
      using h d(2) by (auto simp: receive_handler_def atoi_udec [OF k] Let_def table_get_def w set_json_def write_response_def)
  next
    case (Some m)
    have ok: "frame_ok (frame (m\<lparr>valid := True\<rparr>))" "k = ucast (f_id (frame m))"
      using table_get_ok [of "sh_table sh" st k] assms(2) Some by (simp_all add: table_get_def shared_inv_def)
    obtain dj c' where c: "convert_frame st (m\<lparr>valid := True\<rparr>) (sh_json sh) = Some (dump dj, c')"
        "frame_document (effective_type (case map_find (type_register (sh_json sh)) (ucast (f_id (frame (m\<lparr>valid := True\<rparr>)))) of
           None \<Rightarrow> C_NONE | Some t \<Rightarrow> t)) (m\<lparr>valid := True\<rparr>) = Some dj"
      by (rule convert_frame_spec [OF assms(1) ok(1), of "sh_json sh"]) (use assms(2) in \<open>auto simp: shared_inv_def\<close>)
    have "table_get st k (sh_table sh) = m\<lparr>valid := True\<rparr>" by (simp add: table_get_def Some)
    then have "r = new_response\<lparr>status := 200, body := dump dj, content_type := ''application/json''\<rparr>"
      using h(1) c(1) by (simp add: receive_handler_def atoi_udec [OF k] Let_def w)
    moreover have "k = ucast (f_id (frame m))" using ok(2) by simp
    ultimately show ?thesis
      using d(2) c(2) Some by (simp add: write_response_def frame_document_valid)
  qed
qed


section \<open>Sending and reading back\<close>

lemma int16_value: "push_bit 8 (uint (ucast (drop_bit 8 (w AND 0xff00)) :: u8)) OR uint (ucast (w AND 0x00FF) :: u8) = uint (w :: 16 word)"
proof (rule bit_eqI)
  fix n
  have a: "(0xff :: 16 word) = mask 8" "(0xff00 :: 16 word) = push_bit 8 (mask 8)" by (simp_all add: mask_eq_exp_minus_1)
  show "bit (push_bit 8 (uint (ucast (drop_bit 8 (w AND 0xff00)) :: u8)) OR uint (ucast (w AND 0x00FF) :: u8)) n = bit (uint w) n"
  proof (cases "n < 16")
    case True
    then have "n - 8 < 8" "n < 8 \<or> 8 + (n - 8) = n" by auto
    then show ?thesis using True unfolding a by (auto simp: bit_simps)
  next
    case False
    then have "\<not> bit w n" using bit_imp_le_length [of w n] by auto
    then show ?thesis using False unfolding a by (auto simp: bit_simps)
  qed
qed
lemma payload_int16:
  assumes "f_data f = int16_bytes w @ xs"
  shows "payload_json C_INT f = Some (JInt (uint w))"
proof -
  have "rd (f_data f) 1 = Some (ucast (drop_bit 8 (w AND 0xff00)))" "rd (f_data f) 0 = Some (ucast (w AND 0x00FF))"
    by (simp_all only: assms) (simp_all add: int16_bytes_def rd_def)
  then show ?thesis by (simp only: payload_json_def CONVERSATION_TYPE.case bind.bind_lunit int16_value)
qed

lemma hex4_no_nul: "n \<le> 0x1F \<Longrightarrow> NUL \<notin> set (hex4 n)"
proof -
  have "list_all (\<lambda>n. NUL \<notin> set (hex4 n)) [0..<32]" by code_simp
  then show "n \<le> 0x1F \<Longrightarrow> ?thesis" by (simp add: list_all_iff)
qed

lemma not_in_if: "(b \<Longrightarrow> c \<notin> set x) \<Longrightarrow> (\<not> b \<Longrightarrow> c \<notin> set y) \<Longrightarrow> c \<notin> set (if b then x else y)"
  by simp

lemma dump_chars_no_nul: "NUL \<notin> set (dump_chars s)"
proof (induction s rule: length_induct)
  case (1 s)
  show ?case
  proof (cases s)
    case (Cons ch r)
    have ih: "NUL \<notin> set (dump_chars r)" "NUL \<notin> set (dump_chars (drop 2 r))" using 1 Cons by auto
    have c: "\<not> char_code ch \<le> 0x1F \<Longrightarrow> NUL \<noteq> ch" by (auto simp: char_code_def)
    show ?thesis
      unfolding Cons dump_chars.simps by (intro not_in_if) (simp_all add: ih hex4_no_nul c)
  qed simp
qed

lemma dump_string_no_nul: "NUL \<notin> set (dump_string s)"
  by (simp add: dump_string_def dump_chars_no_nul)

lemma sep_by_no_nul: "\<forall>x \<in> set xs. NUL \<notin> set x \<Longrightarrow> NUL \<notin> set (sep_by xs)"
  by (induction xs rule: sep_by.induct) auto

lemma udec_nul_free: "NUL \<notin> set (udec n)"
  using udec_digits isdigit_no_space by blast

lemma dump_no_nul: "json_ok d v \<Longrightarrow> NUL \<notin> set (dump v)"
proof (induction v arbitrary: d)
  case (JArray vs)
  then have "NUL \<notin> set (sep_by (map dump vs))" by (intro sep_by_no_nul) (auto simp: list_all_iff)
  then show ?case by simp
next
  case (JObject kvs)
  then have "NUL \<notin> set (sep_by (map (\<lambda>(k, v). dump_string k @ '': '' @ dump v) kvs))"
    by (intro sep_by_no_nul) (fastforce simp: list_all_iff dump_string_no_nul)
  then show ?case by simp
next
  case (JInt k)
  then show ?case by (simp add: sdec_def udec_nul_free)
next
  case (JString s)
  then show ?case by (simp add: dump_string_no_nul)
qed simp_all

lemma parse_cstr_dump: "json_ok 0 v \<Longrightarrow> parse_cstr st (dump v) = Inr v"
proof -
  assume v: "json_ok 0 v"
  have "takeWhile (\<lambda>c. c \<noteq> NUL) (dump v) = dump v"
    unfolding takeWhile_eq_all_conv using dump_no_nul [OF v] by blast
  then show ?thesis unfolding parse_cstr_def by (simp only: parse_dump [OF v])
qed

text \<open>
  The type a payload is sent as, and the value a later conversion of the frame gives: integers
  keep 16 bits and come back without their sign, strings are cut at the 64 bytes of a frame.
\<close>

fun sent_as :: "json \<Rightarrow> (CONVERSATION_TYPE \<times> json) option" where
  "sent_as (JInt k) = Some (C_INT, JInt (k mod 65536))"
| "sent_as (JBool b) = Some (C_BOOL, JBool b)"
| "sent_as (JString s) = Some (C_STR, JString (take 64 s))"
| "sent_as _ = None"

lemma frame_of_bytes_data: "f_data (frame_of_bytes st i bs) = bs @ drop (length bs) (f_data (st_frame st))"
  by (simp add: frame_of_bytes_def)

lemma send_payload_message:
  assumes "stack_ok st" "sent_as p = Some (t, back)"
  obtains q' m where "send_payload st i p q = Some q'" "message_queue q' = message_queue q @ [m]"
    "f_id (frame m) = ucast i" "c_type m = t" "t \<noteq> C_NONE" "payload_json t (frame m) = Some back"
proof (cases p)
  case (JInt k)
  show thesis
  proof (rule that)
    show "send_payload st i p q = Some (snd (enqueue_int16 st i (word_of_int k) q))"
      by (simp add: send_payload_def JInt)
    show "message_queue (snd (enqueue_int16 st i (word_of_int k) q)) = message_queue q @ [queued_message st
        (frame_of_bytes st i (int16_bytes (word_of_int k))) (fst (sha256_of st (int16_bytes (word_of_int k)) (queue_sha q))) C_INT]"
      by (simp add: enqueue_int16_def push_message_def Let_def split: prod.split)
    show "payload_json t (frame (queued_message st
        (frame_of_bytes st i (int16_bytes (word_of_int k))) (fst (sha256_of st (int16_bytes (word_of_int k)) (queue_sha q))) C_INT)) = Some back"
      using assms(2) payload_int16 [OF frame_of_bytes_data, of st i "word_of_int k"]
      by (auto simp: JInt queued_message_def uint_word_of_int)
  qed (use assms(2) in \<open>simp_all add: queued_message_def frame_of_bytes_def JInt\<close>)
next
  case (JBool b)
  show thesis
    by (rule that [of "snd (enqueue_bool st i b q)" "queued_message st (frame_of_bytes st i [if b then 1 else 0]) [] C_BOOL"])
      (use assms(2) in \<open>auto simp: send_payload_def JBool enqueue_bool_def push_message_def queued_message_def
         frame_of_bytes_def payload_json_def rd_def\<close>)
next
  case (JString s)
  have "frame_payload (frame_of_bytes st i (map byte_of_char (take 64 s))) = Some (map byte_of_char (take 64 s))"
    using frame_of_bytes_ok [OF assms(1), of "map byte_of_char (take 64 s)" i] by simp
  then show thesis
    by (intro that [of "snd (enqueue_bytes st i s q)" "queued_message st (frame_of_bytes st i (map byte_of_char (take 64 s))) [] C_STR"])
      (use assms(2) in \<open>simp_all add: send_payload_def JString enqueue_bytes_def push_message_def queued_message_def
         payload_json_def o_def, simp_all add: frame_of_bytes_def\<close>)
qed (use assms(2) in simp_all)


text \<open>The request that sends a payload, and what it leaves.\<close>

definition send_document :: "u16 \<Rightarrow> json \<Rightarrow> json" where
  "send_document i p = JObject [(''id'', JInt (uint i)), (''payload'', p)]"

definition send_request :: "u16 \<Rightarrow> json \<Rightarrow> request" where
  "send_request i p = Post ''/send'' (dump (send_document i p))"

lemma uint_u16: "0 \<le> uint (i :: u16)" "uint (i :: u16) < 65536"
  using uint_lt2p [of i] by simp_all

lemma send_document_ok: "json_ok 1 p \<Longrightarrow> json_ok 0 (send_document i p)"
  using uint_u16 [of i] by (simp add: send_document_def max_depth_def map_wf_Cons)

lemma sent_as_value:
  "sent_as p = Some (t, back) \<Longrightarrow> \<not> is_null p \<and> (is_number p \<longrightarrow> int_value p \<noteq> None)"
  by (cases p) (auto simp: is_null_def)

lemma send_document_fields:
  "obj_at (send_document i p) ''id'' = JInt (uint i)" "obj_at (send_document i p) ''payload'' = p"
  "has_number_id (send_document i p)" "\<not> is_null p \<Longrightarrow> has_payload (send_document i p)"
  by (simp_all add: send_document_def obj_at_def has_number_id_def has_payload_def is_null_def)

lemma number_u16: "number_value_uint (JInt (uint (i :: u16))) = Some (ucast i)"
  using uint_u16 [of i] by (simp add: in_uint_def)

lemma u16_in_u32: "ucast (ucast (i :: u16) :: u32) = i"
  by (rule bit_word_eqI) (auto simp: bit_simps)

lemma send_request_ok:
  assumes "json_ok 1 p" "sent_as p = Some (t, back)"
  shows "request_ok (send_request i p)"
  using parse_cstr_dump [OF send_document_ok [OF assms(1)], of STANDARD i] sent_as_value [OF assms(2)]
  by (simp add: request_ok_def send_request_def send_document_fields number_u16 del: number_value_uint.simps)

lemma send_request_step:
  assumes "stack_ok st" "json_ok 1 p" "sent_as p = Some (t, back)"
  obtains q' m where
    "handle (Request st v (send_request i p)) g = Some (g\<lparr>g_shared := (g_shared g)\<lparr>sh_queue := q'\<rparr>\<rparr>)"
    "message_queue q' = queue_of g @ [m]" "f_id (frame m) = ucast i" "c_type m = t" "t \<noteq> C_NONE"
    "payload_json t (frame m) = Some back"
proof -
  obtain q' m where m: "send_payload st i p (sh_queue (g_shared g)) = Some q'" "message_queue q' = queue_of g @ [m]"
      "f_id (frame m) = ucast i" "c_type m = t" "t \<noteq> C_NONE" "payload_json t (frame m) = Some back"
    by (rule send_payload_message [OF assms(1,3)])
  have p: "parse_cstr STANDARD (dump (send_document i p)) = Inr (send_document i p)"
    by (rule parse_cstr_dump [OF send_document_ok [OF assms(2)]])
  have d: "dump (send_document i p) \<noteq> []" by (simp add: send_document_def)
  have h: "send_handler st (dump (send_document i p)) (g_shared g) new_response =
      Some (set_json (obj [(''send_status'', JString ''ok'')]) new_response, (g_shared g)\<lparr>sh_queue := q'\<rparr>)"
    using sent_as_value [OF assms(3)] p d m(1) unfolding send_handler_def
    by (simp add: send_document_fields number_u16 u16_in_u32 del: number_value_uint.simps)
  show thesis
    by (rule that [of q' m]) (use m(2-) h in \<open>simp_all add: rest_step_def process_request_def dispatch_request_def
       send_request_def Let_def\<close>)
qed

lemma send_receive:
  assumes "gateway_inv g" "queue_of g = []" "stack_ok st1" "stack_ok st2" "stack_ok st3"
    "json_ok 1 p" "sent_as p = Some (t, back)" "unat (g_sync g) \<le> 999999999"
    "map_find (mp (sh_table (g_shared g))) i = None"
    "map_find (type_register (sh_json (g_shared g))) i \<in> {None, Some t}"
  shows "\<exists>g' res sh' d. run [Request st1 v (send_request i p), Send st2 now w] g = Some g' \<and>
    process_request st3 v (Get (''/receive/'' @ udec (unat i))) (g_shared g') = Some (res, sh') \<and> status res = 200 \<and>
    parse STANDARD (body res) = Inr d \<and> obj_at (obj_at d ''parsed_data'') ''payload'' = back"
proof -
  obtain q' m where m: "handle (Request st1 v (send_request i p)) g = Some (g\<lparr>g_shared := (g_shared g)\<lparr>sh_queue := q'\<rparr>\<rparr>)"
      "message_queue q' = [m]" "f_id (frame m) = ucast i" "c_type m = t" "t \<noteq> C_NONE" "payload_json t (frame m) = Some back"
    using assms(2) send_request_step [OF assms(3,6,7), of v i g] by (metis append_Nil)
  define g1 where "g1 = g\<lparr>g_shared := (g_shared g)\<lparr>sh_queue := q'\<rparr>\<rparr>"
  have ok1: "event_ok (Request st1 v (send_request i p))" using assms(3) send_request_ok [OF assms(6,7)] by simp
  have inv1: "gateway_inv g1"
    using handle_inv [OF ok1 assms(1)] m(1) by (metis g1_def option.inject)
  have q1: "queue_of g1 = [m]" "0 < message_queued (sh_queue (g_shared g1))"
    using m(2) by (simp_all add: g1_def message_queued_pos)
  have key: "ucast (f_id (frame m)) = i" by (simp add: m(3) u16_in_u32)
  obtain g2 where g2: "send_turn st2 now w g1 = Some g2" "gateway_inv g2"
      "map_find (mp (sh_table (g_shared g2))) i = Some (put_message st2 (frame m) now (ucast (g_sync g1)) (message_receieved m))"
      "map_find (type_register (sh_json (g_shared g2))) i = Some t"
    by (rule send_turn_sends [OF assms(4) inv1 q1(2,1), of now w])
      (use assms(9,10) in \<open>auto simp: key g1_def same_payload_def m(4) split: option.splits\<close>)
  have sh: "shared_inv (g_shared g2)" using g2(2) by (simp add: gateway_inv_def)
  have "unat i < 2147483648" using unsigned_less [of i, where ?'a = nat] by simp
  then have "request_ok (Get (''/receive/'' @ udec (unat i)))"
    by (simp add: request_ok_def receive_path_udec atoi_udec del: append_Cons)
  then obtain res sh' where r: "process_request st3 v (Get (''/receive/'' @ udec (unat i))) (g_shared g2) = Some (res, sh')"
    using process_request_effect [OF assms(5) sh] by metis
  define m2 where "m2 = put_message st2 (frame m) now (ucast (g_sync g1)) (message_receieved m)"
  have a: "status res = 200" "\<exists>d. body res = dump d \<and> frame_document t m2 = Some d"
    using receive_answer [OF assms(5) sh r] g2(3,4) m(5) by (simp_all add: effective_type_def m2_def)
  then obtain d where d: "body res = dump d" "frame_document t m2 = Some d" by blast
  have "readable m2"
    using assms(8) unsigned_less [of i, where ?'a = nat]
    by (simp add: readable_def m2_def put_message_def m(3) unat_u16_to_u32 g1_def unsigned_ucast_eq take_bit_nat_eq_self_iff
        take_bit_nat_eq_self less_trans [OF unsigned_less [where ?'a = nat]])
  then have "parse STANDARD (body res) = Inr d" using parse_dump [OF document_ok [OF d(2)]] d(1) by simp
  moreover have "obj_at (obj_at d ''parsed_data'') ''payload'' = back"
    using document_fields(4) [OF d(2)] m(6) by (simp add: m2_def put_message_def)
  ultimately show ?thesis
    using m(1) g2(1) r a(1) by (auto simp: g1_def)
qed


text \<open>What waits for Redis stays until the next flush.\<close>

lemma store_redis_waiting:
  "store_redis st m g = Some g' \<Longrightarrow> map_find (write_map (g_redis g)) k = Some js \<Longrightarrow>
   map_find (write_map (g_redis g')) k = Some js"
  by (auto simp: store_redis_def dest: store_frame_waiting)

lemma handle_waiting:
  assumes "handle e g = Some g'" "e \<noteq> Flush" "map_find (write_map (g_redis g)) k = Some js"
  shows "map_find (write_map (g_redis g')) k = Some js"
proof (cases e)
  case (Read st now n cf)
  have "receive_frame st now g1 = Some g2 \<Longrightarrow> map_find (write_map (g_redis g1)) k = Some js \<Longrightarrow>
      map_find (write_map (g_redis g2)) k = Some js" for g1 g2
    by (auto simp: receive_frame_def Let_def bind_eq_Some_conv split: if_splits dest!: store_redis_waiting)
  then show ?thesis
    using assms Read by (auto simp: read_turn_def Let_def bind_eq_Some_conv split: if_splits)
next
  case (Send st now w)
  then show ?thesis
    using assms by (auto simp: send_turn_def Let_def bind_eq_Some_conv split: if_splits dest!: store_redis_waiting)
next
  case (Request st v req)
  then show ?thesis using assms by (auto simp: rest_step_def)
qed (use assms(2) in simp)

lemma run_waiting:
  "run es g = Some g' \<Longrightarrow> Flush \<notin> set es \<Longrightarrow> map_find (write_map (g_redis g)) k = Some js \<Longrightarrow>
   map_find (write_map (g_redis g')) k = Some js"
proof (induction es arbitrary: g)
  case (Cons e es)
  then obtain g1 where "handle e g = Some g1" "run es g1 = Some g'" by (auto simp: bind_eq_Some_conv)
  then show ?case using Cons handle_waiting [of e g g1] by auto
qed simp

text \<open>
  With the REST interface switched on, a CAN interface that cannot be opened leads to the
  \<open>join\<close> of a thread object that no longer exists.
\<close>

lemma open_failure_undefined:
  assumes "load_config argv ''./can2rest_config.ini'' (config_init, fs) = (c, fs')"
    "\<not> cmdOptionExists argv ''-help''" "\<not> cmdOptionExists argv ''-version''"
    "setup_gateway c (gateway_start st mode port) = Some g" "open_can os c g = (False, g')"
    "getBool_nocheck REST_WEBSERVER_ENABLE c = Some True"
  shows "can2rest_main os argv fs (gateway_start st mode port) = None"
proof -
  obtain s where s: "g' = g\<lparr>g_socket := s\<rparr>" by (rule open_can_spec [OF assms(5)])
  obtain flt conv api red where
    "g = (gateway_start st mode port)\<lparr>g_filter := flt,
       g_shared := (g_shared (gateway_start st mode port))\<lparr>sh_json := conv, sh_config := c\<rparr>, g_api := api, g_redis := red\<rparr>"
    "rest_update_thread api"
    by (rule setup_gateway_spec [OF assms(4)]) (use assms(6) in \<open>auto simp: gateway_start_def rest_init_def\<close>)
  then have "cleanup g' = None" using s by (simp add: cleanup_def rest_enable_service_def)
  moreover have "sh_config (g_shared (gateway_start st mode port)) = config_init" by (simp add: gateway_start_def)
  ultimately show ?thesis using assms by (simp add: can2rest_main_def)
qed


section \<open>A gateway to try things on\<close>

definition zero_frame :: CanFrame where
  "zero_frame = \<lparr>f_id = 0, f_len = 0, f_flags = 0, f_data = replicate 64 0\<rparr>"

definition sample_stack :: stack where
  "sample_stack = \<lparr>st_message = \<lparr>frame = zero_frame, sync_tick = 0, ts = 0, hash = [], valid = False,
     message_receieved = M_INVALID, c_type = C_NONE\<rparr>, st_frame = zero_frame, st_extra = replicate 64 0\<rparr>"

definition sample_os :: can_os where
  "sample_os = \<lparr>os_socket = 3, os_ifindex = (\<lambda>_. 1), os_mtu = None, os_enable_fd = 0, os_bind = 0\<rparr>"

definition sample_config :: string where
  "sample_config = ''[SETTINGS]'' @ [LF] @ ''CAN_SOCKET_IF_NAME=c'' @ [LF] @ ''REST_WEBSERVER_ENABLE=1'' @ [LF] @
     ''CAN_FILTER_9=0'' @ [LF]"

definition sample_main :: "outcome option" where
  "sample_main = can2rest_main sample_os [''can2rest''] \<lparr>files = (\<lambda>_. Some sample_config), writable = (\<lambda>_. True)\<rparr>
     (gateway_start sample_stack MODE_CAN_MTU 0)"

definition sample_gateway :: gateway where
  "sample_gateway = (case sample_main of Some (Loops g) \<Rightarrow> g | _ \<Rightarrow> gateway_start sample_stack MODE_CAN_MTU 0)"

lemma sample_stack_ok: "stack_ok sample_stack"
  by (simp add: stack_ok_def sample_stack_def zero_frame_def)

lemma sample_evaluated:
  "case sample_main of Some (Loops g) \<Rightarrow> check_message 7 (g_filter g) \<and> \<not> check_message 9 (g_filter g) | _ \<Rightarrow> False"
  by code_simp

lemma sample_looping: obtains g where "sample_main = Some (Loops g)" "check_message 7 (g_filter g)"
  using sample_evaluated by (auto split: option.splits outcome.splits)

lemma sample_loops: "sample_main = Some (Loops sample_gateway)"
proof -
  obtain g where g: "sample_main = Some (Loops g)" by (rule sample_looping)
  show ?thesis unfolding sample_gateway_def g by (simp only: option.case outcome.case)
qed

lemma sample_admitted: "check_message 7 (g_filter sample_gateway)"
proof -
  obtain g where g: "sample_main = Some (Loops g)" "check_message 7 (g_filter g)" by (rule sample_looping)
  show ?thesis unfolding sample_gateway_def g(1) using g(2) by (simp only: option.case outcome.case)
qed

definition sample_frame :: canfd_frame where
  "sample_frame = \<lparr>can_id = 7, fr_len = 2, fr_flags = 0, res0 = 0, res1 = 0, fr_data = [1, 2] @ replicate 62 0\<rparr>"

abbreviation sample_read :: event where
  "sample_read \<equiv> Read sample_stack 0 16 sample_frame"

lemma sample_read_ok: "event_ok sample_read"
  by (simp add: sample_stack_ok sample_frame_def)

lemma sample_facts:
  "gateway_inv sample_gateway" "g_wire sample_gateway = []" "queue_of sample_gateway = []"
  by (rule main_spec [OF sample_loops [unfolded sample_main_def] sample_stack_ok], assumption)+

lemma sample_received:
  obtains g' where "handle sample_read sample_gateway = Some g'" "gateway_inv g'"
    "stored_digest 7 g' = Some (hex_string (fips_sha256 [1, 2]))"
proof -
  have n: "(16 :: int) \<in> {CAN_MTU, CANFD_MTU}" by simp
  have t: "take (unat (fr_len sample_frame)) (fr_data sample_frame) = [1, 2]" "ucast (can_id sample_frame) = (7 :: u16)"
    by (simp_all add: sample_frame_def)
  obtain b g' where "read_turn sample_stack 0 16 sample_frame sample_gateway = Some (b, g')" "gateway_inv g'"
      "stored_digest 7 g' = Some (hex_string (fips_sha256 [1, 2]))"
    by (rule read_turn_inv [OF sample_read_ok sample_facts(1), unfolded t]) (use n sample_admitted in auto)
  then show thesis using that by simp
qed


section \<open>The promises\<close>



text \<open>C2: In every state the running gateway reaches, an entry of the frame table stands under the low 16 bits
  of its frame's identifier, carries the SHA-256 digest of its payload and at most 64 bytes, and its
  identifier was either admitted by the packet filter or sent by the gateway itself.\<close>

theorem gateway_invariant:
  assumes "can2rest_main os argv fs (gateway_start st mode port) = Some (Loops g0)" "stack_ok st"
    "reachable g0 g" "map_find (mp (sh_table (g_shared g))) k = Some m"
  shows "k = ucast (f_id (frame m)) \<and> unat (f_len (frame m)) \<le> 64 \<and>
    hash m = hex_string (fips_sha256 (take (unat (f_len (frame m))) (f_data (frame m)))) \<and>
    (check_message k (g_filter g) \<or> (\<exists>cf n. (cf, n) \<in> set (g_wire g) \<and> k = ucast (can_id cf)))"
proof -
  have g: "gateway_inv g"
    by (rule reachable_inv [OF assms(3)]) (rule main_spec [OF assms(1,2)])
  then have "entry_ok (k, m)"
    using assms(4) map_find_Some_in by (fastforce simp: gateway_inv_def shared_inv_def table_wf_def)
  moreover have "check_message k (g_filter g) \<or> k \<in> wire_ids g"
    using g assms(4) by (auto simp: gateway_inv_def table_key_exists_def)
  ultimately show ?thesis
    by (auto simp: entry_ok_def frame_ok_def payload_digest_def wire_ids_def)
qed

theorem gateway_invariant_witness:
  "\<exists>(g :: gateway) m. map_find (mp (sh_table (g_shared g))) 7 = Some m \<and> ucast (f_id (frame m)) = (7 :: u16) \<and>
     hash m = hex_string (fips_sha256 [1, 2])"
proof -
  obtain g' where g': "handle sample_read sample_gateway = Some g'" "stored_digest 7 g' = Some (hex_string (fips_sha256 [1, 2]))"
    by (rule sample_received)
  then obtain m where m: "map_find (mp (sh_table (g_shared g'))) 7 = Some m" "hash m = hex_string (fips_sha256 [1, 2])"
    by (auto simp: stored_digest_def)
  have "reachable sample_gateway g'"
    by (rule reachable.more [OF reachable.start step.step [OF sample_read_ok g'(1)]])
  then show ?thesis
    using gateway_invariant [OF sample_loops [unfolded sample_main_def] sample_stack_ok _ m(1)] m
    by (intro exI [of _ g'] exI [of _ m]) simp
qed



lemma sample_queued:
  obtains g m where "reachable sample_gateway g" "queue_of g = [m]" "g_wire g = []"
proof -
  have s: "sent_as (JBool True) = Some (C_BOOL, JBool True)" "json_ok 1 (JBool True)"
    by (simp_all add: max_depth_def)
  obtain q' m where q: "handle (Request sample_stack [] (send_request 5 (JBool True))) sample_gateway =
      Some (sample_gateway\<lparr>g_shared := (g_shared sample_gateway)\<lparr>sh_queue := q'\<rparr>\<rparr>)"
      "message_queue q' = queue_of sample_gateway @ [m]"
    by (rule send_request_step [OF sample_stack_ok s(2,1)])
  have ok: "event_ok (Request sample_stack [] (send_request 5 (JBool True)))"
    using send_request_ok [OF s(2,1)] by (simp add: sample_stack_ok)
  show thesis
    by (rule that [OF reachable.more [OF reachable.start step.step [OF ok q(1)]], of m])
      (simp_all add: q(2) sample_facts)
qed


text \<open>C3: What POST /send queues can be read with GET /receive: for an identifier the gateway holds no frame of,
  a request with an integer, boolean or string payload followed by a turn of the loop makes the next GET answer
  200 with a document whose payload is the value sent, cut to 16 bits or to 64 bytes, provided the identifier is
  not registered with another type and the tick counter has at most nine digits.\<close>

theorem send_then_receive:
  assumes "can2rest_main os argv fs (gateway_start st mode port) = Some (Loops g0)" "stack_ok st"
    "reachable g0 g" "queue_of g = []" "stack_ok st1" "stack_ok st2" "stack_ok st3"
    "json_ok 1 p" "sent_as p = Some (t, back)" "unat (g_sync g) \<le> 999999999"
    "map_find (mp (sh_table (g_shared g))) i = None"
    "map_find (type_register (sh_json (g_shared g))) i \<in> {None, Some t}"
  shows "\<exists>g' res sh' d. run [Request st1 v (send_request i p), Send st2 now w] g = Some g' \<and>
    process_request st3 v (Get (''/receive/'' @ udec (unat i))) (g_shared g') = Some (res, sh') \<and> status res = 200 \<and>
    parse STANDARD (body res) = Inr d \<and> obj_at (obj_at d ''parsed_data'') ''payload'' = back"
proof -
  have "gateway_inv g"
    by (rule reachable_inv [OF assms(3)]) (rule main_spec [OF assms(1,2)])
  then show ?thesis by (rule send_receive [OF _ assms(4-12)])
qed

lemma sample_evaluated_state:
  "case sample_main of Some (Loops g) \<Rightarrow> g_sync g = 0 \<and> mp (sh_table (g_shared g)) = [] \<and>
     map_find (type_register (sh_json (g_shared g))) 5 = None | _ \<Rightarrow> False"
  by code_simp

lemma sample_state:
  "g_sync sample_gateway = 0" "mp (sh_table (g_shared sample_gateway)) = []"
  "map_find (type_register (sh_json (g_shared sample_gateway))) 5 = None"
  using sample_evaluated_state unfolding sample_loops by simp_all

theorem send_then_receive_witness:
  "\<exists>(g :: gateway) res sh' d.
     process_request sample_stack [] (Get ''/receive/5'') (g_shared g) = Some (res, sh') \<and> status res = 200 \<and>
     parse STANDARD (body res) = Inr d \<and> obj_at (obj_at d ''parsed_data'') ''payload'' = JInt 65534"
proof -
  have p: "sent_as (JInt (- 2)) = Some (C_INT, JInt 65534)" "json_ok 1 (JInt (- 2))" by (simp_all add: max_depth_def)
  have u: "''/receive/'' @ udec (unat (5 :: u16)) = ''/receive/5''" by code_simp
  show ?thesis
    using send_then_receive [OF sample_loops [unfolded sample_main_def] sample_stack_ok reachable.start
        sample_facts(3) sample_stack_ok sample_stack_ok sample_stack_ok p(2,1), of 5 "[]" 0 16, unfolded u]
      sample_state by auto
qed


text \<open>C7: The packet filter that main sets up: an identifier is admitted according to the last entry of the
  configuration that names it, in the order of the keys, and an identifier without an entry exactly when the
  REST interface is switched on.\<close>

theorem configured_filter:
  assumes "can2rest_main os argv fs (gateway_start st mode port) = Some (Loops g)" "stack_ok st"
    "load_config argv ''./can2rest_config.ini'' (config_init, fs) = (c, fs')"
  shows "check_message i (g_filter g) =
    (case map_of (rev (filter_settings (get_raw_config_map c))) i of
       Some b \<Rightarrow> b | None \<Rightarrow> getBool_nocheck REST_WEBSERVER_ENABLE c = Some True)"
proof -
  obtain en where en: "getBool_nocheck REST_WEBSERVER_ENABLE c = Some en"
      "setup_filter (get_raw_config_map c) (set_invert_filter en filter_init) = Some (g_filter g)"
    by (rule main_spec [OF assms(1,2)]) (use assms(3) in auto)
  have "check_message i (set_invert_filter en filter_init) = en"
    by (simp add: check_message_def filter_key_exists_def set_invert_filter_def filter_init_def)
  then show ?thesis
    using en(1) check_fold_filter [of i] setup_filter_settings [OF en(2)] by (auto split: option.splits)
qed

theorem configured_filter_witness:
  "check_message 9 (g_filter sample_gateway) = False \<and> check_message 8 (g_filter sample_gateway) = True"
proof -
  define c where "c = fst (load_config [''can2rest''] ''./can2rest_config.ini''
    (config_init, \<lparr>files = (\<lambda>_. Some sample_config), writable = (\<lambda>_. True)\<rparr>))"
  have "filter_settings (get_raw_config_map c) = [(9, False)]" "getBool_nocheck REST_WEBSERVER_ENABLE c = Some True"
    unfolding c_def by code_simp+
  then show ?thesis
    using configured_filter [OF sample_loops [unfolded sample_main_def] sample_stack_ok surjective_pairing]
    by (simp add: c_def)
qed

text \<open>C5: GET /receive answers with the latest payload: after a frame that the filter admits has been read, the
  answer for its identifier is 200 with a document that carries the SHA-256 digest of the received bytes and
  the stored data bytes, for every stored frame whose identifier and tick have at most nine digits.\<close>

theorem receive_latest:
  assumes "can2rest_main os argv fs (gateway_start st mode port) = Some (Loops g0)" "stack_ok st"
    "reachable g0 g" "event_ok (Read st1 now n cf)" "n \<in> {CAN_MTU, CANFD_MTU}"
    "check_message (ucast (can_id cf)) (g_filter g)" "stack_ok st2"
  shows "\<exists>g' m res sh'. run [Read st1 now n cf] g = Some g' \<and>
    map_find (mp (sh_table (g_shared g'))) (ucast (can_id cf)) = Some m \<and>
    process_request st2 v (Get (''/receive/'' @ udec (unat (ucast (can_id cf) :: u16)))) (g_shared g') = Some (res, sh') \<and>
    status res = 200 \<and>
    (readable m \<longrightarrow> (\<exists>d. parse STANDARD (body res) = Inr d \<and>
       obj_at (obj_at d ''info'') ''payload_hash'' = JString (hex_string (fips_sha256 (take (unat (fr_len cf)) (fr_data cf)))) \<and>
       obj_at (obj_at d ''info'') ''raw_data'' =
         JArray (map (\<lambda>b. JInt (uint b)) (take (unat (f_len (frame m))) (f_data (frame m))))))"
proof -
  define k where "k = (ucast (can_id cf) :: u16)"
  have g: "gateway_inv g"
    by (rule reachable_inv [OF assms(3)]) (rule main_spec [OF assms(1,2)])
  obtain b g' where g': "read_turn st1 now n cf g = Some (b, g')" "gateway_inv g'"
      "stored_digest k g' = Some (hex_string (fips_sha256 (take (unat (fr_len cf)) (fr_data cf))))"
    by (rule read_turn_inv [OF assms(4) g]) (use assms(5,6) in \<open>auto simp: k_def\<close>)
  obtain m where m: "map_find (mp (sh_table (g_shared g'))) k = Some m"
      "hash m = hex_string (fips_sha256 (take (unat (fr_len cf)) (fr_data cf)))"
    using g'(3) by (auto simp: stored_digest_def)
  have sh: "shared_inv (g_shared g')" using g'(2) by (simp add: gateway_inv_def)
  have "table_get st2 k (sh_table (g_shared g')) = m\<lparr>valid := True\<rparr>" by (simp add: table_get_def m(1))
  then have h: "hash m = payload_digest (frame m)"
    using table_get_ok [of "sh_table (g_shared g')" st2 k] sh by (simp add: shared_inv_def)
  have "unat k < 2147483648" using unsigned_less [of k, where ?'a = nat] by simp
  then have "request_ok (Get (''/receive/'' @ udec (unat k)))"
    by (simp add: request_ok_def receive_path_udec atoi_udec del: append_Cons)
  then obtain res sh' where r: "process_request st2 v (Get (''/receive/'' @ udec (unat k))) (g_shared g') = Some (res, sh')"
    using process_request_effect [OF assms(7) sh] by metis
  obtain t d where d: "status res = 200" "body res = dump d" "frame_document t m = Some d"
    using receive_answer [OF assms(7) sh r] m(1) by auto
  have "readable m \<Longrightarrow> parse STANDARD (body res) = Inr d"
    using parse_dump [OF document_ok [OF d(3)]] d(2) by simp
  then show ?thesis
    using g'(1) m r d(1) h document_fields(1,5) [OF d(3)] by (intro exI [of _ g'] exI [of _ m]) (auto simp: k_def)
qed

theorem receive_latest_witness:
  "\<exists>(g :: gateway) res sh'. process_request sample_stack [] (Get ''/receive/7'') (g_shared g) = Some (res, sh') \<and> status res = 200"
proof -
  have k: "(ucast (can_id sample_frame) :: u16) = 7" by (simp add: sample_frame_def)
  have u: "''/receive/'' @ udec (unat (7 :: u16)) = ''/receive/7''" by code_simp
  show ?thesis
    using receive_latest [OF sample_loops [unfolded sample_main_def] sample_stack_ok reachable.start sample_read_ok _ _
        sample_stack_ok, of "[]", unfolded k u] sample_admitted by auto
qed

text \<open>A message that waits for Redis is not replaced: until the next flush no event, in particular no later
  frame of the same field, changes the text that is stored under the field.\<close>

lemma redis_first_kept:
  assumes "run es g = Some g'" "Flush \<notin> set es" "map_find (write_map (g_redis g)) k = Some js"
  shows "map_find (write_map (g_redis g')) k = Some js"
  by (rule run_waiting [OF assms])



end
