(* ===== verification/Http_Requests.thy ===== *)
theory Http_Requests
  imports Http_Stream_Props Gateway_Props
begin

text \<open>
  Requests that a client sends one after the other are answered in order, with the texts of the answers that the handlers of
  the REST interface give to the decoded path and the body.
\<close>

section \<open>Well-formed requests\<close>

text \<open>A request with a target, further headers, and the body of a POST request.\<close>

record client_request =
  cr_target :: string
  cr_headers :: headers
  cr_post :: "string option"

definition as_request :: "client_request \<Rightarrow> request" where
  "as_request r =
     (case cr_post r of None \<Rightarrow> Get (decode_url False (cr_target r)) | Some b \<Rightarrow> Post (decode_url False (cr_target r)) b)"

definition header_text :: "headers \<Rightarrow> string" where
  "header_text hs = concat (map (\<lambda>(k, v). k @ '': '' @ v @ [CR, LF]) hs) @ [CR, LF]"

definition sent_headers :: "client_request \<Rightarrow> headers" where
  "sent_headers r = cr_headers r @ (case cr_post r of None \<Rightarrow> [] | Some b \<Rightarrow> [(''Content-Length'', udec (length b))])"

definition request_line :: "client_request \<Rightarrow> string" where
  "request_line r = (if cr_post r = None then ''GET'' else ''POST'') @ CHR '' '' # cr_target r @ CHR '' '' # ''HTTP/1.1''"

definition request_text :: "client_request \<Rightarrow> string" where
  "request_text r = request_line r @ [CR, LF] @ header_text (sent_headers r) @ (case cr_post r of None \<Rightarrow> [] | Some b \<Rightarrow> b)"

text \<open>Headers that the server stores as they are, and that do not ask for anything special.\<close>

definition plain_header :: "string \<times> string \<Rightarrow> bool" where
  "plain_header h \<longleftrightarrow> set (fst h) \<inter> {CHR '':'', CR, LF} = {} \<and> set (snd h) \<inter> {CHR ''%'', CR, LF} = {} \<and>
     snd h \<noteq> [] \<and> strip (snd h) = snd h \<and> length (fst h) + length (snd h) + 4 \<le> HEADER_MAX_LENGTH"

definition special_headers :: "string list" where
  "special_headers = [''Connection'', ''Range'', ''Expect'', ''Transfer-Encoding'', ''Content-Encoding'', ''Content-Length'']"

definition well_formed :: "client_request \<Rightarrow> bool" where
  "well_formed r \<longleftrightarrow>
     cr_target r \<noteq> [] \<and> set (cr_target r) \<inter> {CHR '' '', CHR 0x09, CHR ''?'', CR, LF, NUL} = {} \<and>
     length (request_line r) + 2 \<le> REQUEST_URI_MAX_LENGTH \<and>
     (\<forall>h\<in>set (cr_headers r). plain_header h \<and> (\<forall>k\<in>set special_headers. map tolower (fst h) \<noteq> map tolower k) \<and>
        (map tolower (fst h) = ''content-type'' \<longrightarrow> take 19 (c_str (snd h)) \<noteq> ''multipart/form-data'')) \<and>
     (case cr_post r of None \<Rightarrow> True | Some b \<Rightarrow> length b \<le> REQUEST_URI_MAX_LENGTH)"

section \<open>Header lines\<close>

lemma strip_ends:
  assumes "strip v = v" "v \<noteq> []"
  shows "\<not> is_space_or_tab (hd v)" "\<not> is_space_or_tab (List.last v)"
proof -
  let ?w = "dropWhile is_space_or_tab v"
  have v: "v = rev (dropWhile is_space_or_tab (rev ?w))" using assms(1) by (simp add: strip_def)
  then have "length v \<le> length ?w" by (metis length_dropWhile_le length_rev)
  moreover have w: "takeWhile is_space_or_tab v @ ?w = v" by simp
  ultimately have "length (takeWhile is_space_or_tab v) = 0" by (metis add_le_same_cancel2 le_zero_eq length_append)
  then have "dropWhile is_space_or_tab v = v" using w by simp
  then show "\<not> is_space_or_tab (hd v)" using assms(2) by (metis hd_dropWhile)
  have "dropWhile is_space_or_tab (rev v) = rev v" using v \<open>dropWhile is_space_or_tab v = v\<close> by (metis rev_rev_ident)
  then show "\<not> is_space_or_tab (List.last v)" using assms(2) by (metis hd_dropWhile hd_rev rev_is_Nil_conv)
qed

lemma decode_no_percent: "CHR ''%'' \<notin> set v \<Longrightarrow> decode_url False v = v"
  by (induction v) auto

lemma parse_header_line:
  assumes "plain_header (k, v)"
  shows "parse_header (k @ '': '' @ v) = Some (k, v)"
proof -
  have v: "v \<noteq> []" "\<not> is_space_or_tab (hd v)" "\<not> is_space_or_tab (List.last v)" "CHR ''%'' \<notin> set v" "CHR '':'' \<notin> set k"
    using assms strip_ends [of v] by (auto simp: plain_header_def)
  obtain w b where w: "v = w @ [b]" using v(1) by (cases v rule: rev_cases) auto
  have "dropWhile is_space_or_tab (rev (k @ '': '' @ v)) = rev (k @ '': '' @ v)" using v(3) by (simp add: w)
  moreover have "takeWhile (\<lambda>c. c \<noteq> CHR '':'') (k @ '': '' @ v) = k" using v(5) by (subst takeWhile_append2) auto
  moreover have "dropWhile is_space_or_tab ('' '' @ v) = v" using v(1,2) by (cases v) (auto simp: is_space_or_tab_def)
  ultimately show ?thesis using v(1,4) by (simp add: parse_header_def Let_def decode_no_percent)
qed

lemma read_headers_text:
  "\<lbrakk>arriving (header_text hs @ q) x R c s; \<forall>h\<in>set hs. plain_header h\<rbrakk> \<Longrightarrow>
    \<exists>s'. read_headers s headers = (True, fold (\<lambda>(k, v). mm_insert ci k v) hs headers, s') \<and> stream_at q x R c s'"
proof (induction hs arbitrary: s headers)
  case Nil
  then have "arriving ([CR] @ LF # q) x R c s" by (simp add: header_text_def)
  from getline_line [OF this, of 2048] obtain s' where "getline 2048 s = (Some [CR, LF], s')" "stream_at q x R c s'" by auto
  then show ?case by (subst read_headers.simps) (simp add: end_with_crlf_def)
next
  case (Cons h hs)
  obtain k v where h: "h = (k, v)" by (rule prod.exhaust)
  have p: "plain_header (k, v)" using Cons.prems(2) h by simp
  let ?w = "(k @ '': '' @ v) @ [CR]"
  have "LF \<notin> set ?w" using p by (auto simp: plain_header_def)
  moreover have "arriving (?w @ LF # (header_text hs @ q)) x R c s" using Cons.prems(1) by (simp add: header_text_def h)
  ultimately obtain s1 where s1: "getline 2048 s = (Some (?w @ [LF]), s1)" "stream_at (header_text hs @ q) x R c s1"
    using getline_line by blast
  have "read_headers s headers = read_headers s1 (mm_insert ci k v headers)"
    using s1(1) p parse_header_line [OF p]
    by (subst read_headers.simps) (simp add: end_with_crlf_def plain_header_def)
  then show ?case using Cons.IH [OF stream_at_arriving [OF s1(2)]] Cons.prems(2) by (simp add: h)
qed


section \<open>The request line\<close>

definition method_of :: "client_request \<Rightarrow> string" where
  "method_of r = (if cr_post r = None then ''GET'' else ''POST'')"

lemma request_line_joined: "request_line r = joined (CHR '' '') [method_of r, cr_target r, ''HTTP/1.1'']"
  by (simp add: request_line_def method_of_def)

lemma request_line_chars: "well_formed r \<Longrightarrow> NUL \<notin> set (request_line r) \<and> LF \<notin> set (request_line r)"
  by (auto simp: well_formed_def request_line_def)

lemma parse_request_line_text:
  assumes "well_formed r"
  shows "parse_request_line (request_line r @ [CR, LF]) new_request =
    (True, new_request\<lparr>hq_method := method_of r, hq_target := cr_target r, hq_version := ''HTTP/1.1'',
       hq_path := decode_url False (cr_target r)\<rparr>)"
proof -
  let ?l = "request_line r"
  have t: "cr_target r \<noteq> []" "set (cr_target r) \<inter> {CHR '' '', CHR 0x09, CHR ''?'', CR, LF, NUL} = {}"
    using assms by (simp_all add: well_formed_def)
  have m: "method_of r \<in> {''GET'', ''POST''}" by (simp add: method_of_def)
  have nul: "takeWhile (\<lambda>c. c \<noteq> NUL) (?l @ [CR, LF]) = ?l @ [CR, LF]"
    using request_line_chars [OF assms] by (auto simp: takeWhile_eq_all_conv)
  have words: "split ?l (CHR '' '') = [method_of r, cr_target r, ''HTTP/1.1'']"
    unfolding request_line_joined using t m
    by (intro split_joined) (auto simp: list_all_iff is_space_or_tab_def)
  have target: "split (cr_target r) (CHR ''?'') = [cr_target r]"
    using split_joined [of "[cr_target r]" "CHR ''?''"] t by (auto simp: list_all_iff is_space_or_tab_def)
  have "method_of r \<in> methods" using m by (auto simp: methods_def)
  then show ?thesis
    by (simp add: parse_request_line_def nul end_with_crlf_def words request_words_def target request_target_def new_request_def Let_def)
qed

section \<open>Looking up headers\<close>

lemma mm_equal_ci: "mm_equal ci a b \<longleftrightarrow> map tolower a = map tolower b"
  by (auto simp: mm_equal_def ci_def)

lemma mm_range_none: "\<forall>e\<in>set m. \<not> mm_equal lt key (fst e) \<Longrightarrow> mm_range lt key m = []"
  by (auto simp: mm_range_def)

lemma mm_range_insert_other: "\<not> mm_equal lt key k \<Longrightarrow> mm_range lt key (mm_insert lt k v m) = mm_range lt key m"
  by (induction m) (auto simp: mm_range_def)

lemma mm_range_insert_first: "\<lbrakk>mm_range lt k m = []; mm_equal lt k k\<rbrakk> \<Longrightarrow> mm_range lt k (mm_insert lt k v m) = [(k, v)]"
  by (induction m) (auto simp: mm_range_def split: if_splits)

lemma mm_range_set_header: "\<not> mm_equal ci key k \<Longrightarrow> mm_range ci key (set_header k v m) = mm_range ci key m"
  by (simp add: set_header_def mm_range_insert_other)

lemma set_mm_insert [simp]: "set (mm_insert lt k v m) = insert (k, v) (set m)"
  by (induction m) auto

definition stored :: "headers \<Rightarrow> headers" where
  "stored hs = fold (\<lambda>(k, v). mm_insert ci k v) hs []"

lemma set_fold_insert: "set (fold (\<lambda>(k, v). mm_insert ci k v) hs m) = set hs \<union> set m"
  by (induction hs arbitrary: m) auto

lemma set_stored [simp]: "set (stored hs) = set hs"
  by (simp add: stored_def set_fold_insert)

text \<open>What the server sees of the headers of a well-formed request, with those that it adds itself.\<close>

definition with_remote :: "string \<times> nat \<Rightarrow> headers \<Rightarrow> headers" where
  "with_remote remote h = set_header ''REMOTE_PORT'' (udec (snd remote)) (set_header ''REMOTE_ADDR'' (fst remote) h)"

lemma mm_range_remote:
  assumes "key \<in> set (''Content-Type'' # special_headers)"
  shows "mm_range ci key (with_remote remote h) = mm_range ci key h"
proof -
  have "\<forall>key\<in>set (''Content-Type'' # special_headers). \<not> mm_equal ci key ''REMOTE_PORT'' \<and> \<not> mm_equal ci key ''REMOTE_ADDR''"
    by code_simp
  then show ?thesis using assms by (auto simp: with_remote_def mm_range_set_header)
qed

lemma special_distinct:
  "\<forall>key\<in>set special_headers. key \<noteq> ''Content-Length'' \<longrightarrow> \<not> mm_equal ci key ''Content-Length''"
  by code_simp

lemma special_not_type: "map tolower ''Content-Length'' \<noteq> map tolower ''Content-Type''" "map tolower ''Content-Type'' = ''content-type''"
  by code_simp+

lemma special_absent:
  assumes "well_formed r" "key \<in> set special_headers" "key \<noteq> ''Content-Length'' \<or> cr_post r = None"
  shows "mm_range ci key (stored (sent_headers r)) = []"
proof (rule mm_range_none)
  have "\<not> mm_equal ci key (fst h)" if "h \<in> set (cr_headers r)" for h
    using assms(1,2) that unfolding mm_equal_ci well_formed_def by metis
  then show "\<forall>e\<in>set (stored (sent_headers r)). \<not> mm_equal ci key (fst e)"
    using assms(2,3) special_distinct by (auto simp: sent_headers_def split: option.splits)
qed

lemma length_present:
  assumes "well_formed r" "cr_post r = Some b"
  shows "mm_range ci ''Content-Length'' (stored (sent_headers r)) = [(''Content-Length'', udec (length b))]"
proof -
  have "stored (sent_headers r) = mm_insert ci ''Content-Length'' (udec (length b)) (stored (cr_headers r))"
    using assms(2) by (simp add: stored_def sent_headers_def)
  moreover have "mm_range ci ''Content-Length'' (stored (cr_headers r)) = []"
  proof (rule mm_range_none)
    have "''Content-Length'' \<in> set special_headers" by (simp add: special_headers_def)
    then have "\<not> mm_equal ci ''Content-Length'' (fst h)" if "h \<in> set (cr_headers r)" for h
      using assms(1) that unfolding mm_equal_ci well_formed_def by metis
    then show "\<forall>e\<in>set (stored (cr_headers r)). \<not> mm_equal ci ''Content-Length'' (fst e)" by simp
  qed
  ultimately show ?thesis by (simp add: mm_range_insert_first mm_equal_ci)
qed

lemma no_form:
  assumes "well_formed r" "mm_range ci ''Content-Type'' h = mm_range ci ''Content-Type'' (stored (sent_headers r))"
  shows "\<not> is_multipart_form_data h"
proof (cases "mm_range ci ''Content-Type'' (stored (sent_headers r))")
  case (Cons e es)
  then have "e \<in> set (mm_range ci ''Content-Type'' (stored (sent_headers r)))" by simp
  then have "e \<in> set (sent_headers r)" "mm_equal ci ''Content-Type'' (fst e)" by (simp_all add: mm_range_def)
  then have "e \<in> set (cr_headers r)" "map tolower (fst e) = ''content-type''"
    using special_not_type by (auto simp: mm_equal_ci sent_headers_def split: option.splits)
  then have "take 19 (c_str (snd e)) \<noteq> ''multipart/form-data''" using assms(1) by (auto simp: well_formed_def)
  then show ?thesis using Cons assms(2) by (simp add: is_multipart_form_data_def get_header_value_def c_str_def)
qed (use assms(2) in \<open>simp add: is_multipart_form_data_def get_header_value_def\<close>)


section \<open>The body\<close>

lemma isdigit_is_hex: "isdigit c \<Longrightarrow> is_hex c = Some (char_code c - 48) \<and> char_code c - 48 < 10"
  by (auto simp: is_hex_def isdigit_def)

lemma digits_of_udec: "digits_of 10 (udec n) = map (\<lambda>c. char_code c - 48) (udec n)"
proof -
  have "digits_of 10 ds = map (\<lambda>c. char_code c - 48) ds" if "\<forall>c\<in>set ds. isdigit c" for ds
    using that by (induction ds) (auto simp: isdigit_is_hex)
  then show ?thesis using udec_digits by blast
qed

lemma foldl_dec_value: "foldl (\<lambda>a d. a * 10 + d) a (map (\<lambda>c. char_code c - 48) ds) = a * 10 ^ length ds + dec_value ds"
  by (induction ds arbitrary: a) (simp_all add: algebra_simps)

lemma strtou_udec: "n < 2 ^ 64 \<Longrightarrow> strtou 10 (udec n) = Some (of_nat n)"
proof -
  assume n: "n < 2 ^ 64"
  obtain c ds where u: "udec n = c # ds" by (cases "udec n") (auto dest: arg_cong [where f = "\<lambda>x. x = []"])
  have c: "isdigit c" using udec_digits [of c n] by (simp add: u)
  then have s: "\<not> isspace c" "c \<noteq> CHR ''-''" "c \<notin> set ''+-''" by (auto simp: isspace_def isdigit_def char_code_def)
  have "dropWhile isspace (udec n) = udec n" "hd (udec n) = c" using s by (simp_all add: u)
  moreover have "foldl (\<lambda>a d. a * 10 + d) 0 (digits_of 10 (udec n)) = n" "digits_of 10 (udec n) \<noteq> []"
    by (simp_all only: digits_of_udec foldl_dec_value dec_value_udec) simp_all
  ultimately show ?thesis using n s by (simp add: strtou_def Let_def)
qed

lemma c_str_udec: "c_str (udec n) = udec n"
proof -
  have "NUL \<notin> set (udec n)" using udec_digits [of NUL n] by (auto simp: isdigit_def char_code_def)
  then show ?thesis by (auto simp: c_str_def takeWhile_eq_all_conv)
qed

lemma get_header_value_none: "mm_range ci key h = [] \<Longrightarrow> get_header_value h key d = d"
  by (simp add: get_header_value_def)

lemma no_infix: "p \<noteq> [] \<Longrightarrow> \<not> has_infix p []"
  by simp

lemma server_read_content_text:
  assumes "well_formed r" "cr_post r = Some b" "hq_method req = ''POST''" "hq_body req = []"
    "hq_headers req = with_remote remote (stored (sent_headers r))" "stream_at b x R c s"
  shows "\<exists>params s'. server_read_content req s = (None, req\<lparr>hq_body := b, hq_params := params\<rparr>, s') \<and> stream_at [] x R c s'"
proof -
  let ?h = "hq_headers req"
  have sp: "key \<in> set (''Content-Type'' # special_headers) \<Longrightarrow> mm_range ci key ?h = mm_range ci key (stored (sent_headers r))" for key
    unfolding assms(5) by (rule mm_range_remote)
  have none: "mm_range ci ''Transfer-Encoding'' ?h = []" "mm_range ci ''Content-Encoding'' ?h = []"
    using special_absent [OF assms(1)] sp by (auto simp: special_headers_def)
  have len: "mm_range ci ''Content-Length'' ?h = [(''Content-Length'', udec (length b))]"
    using length_present [OF assms(1,2)] sp by (simp add: special_headers_def)
  have short: "length b \<le> REQUEST_URI_MAX_LENGTH" using assms(1,2) by (simp add: well_formed_def)
  then have small: "length b < 2 ^ 64" by (simp add: REQUEST_URI_MAX_LENGTH_def)
  have cl: "content_length ?h = of_nat (length b)" using small by (simp add: content_length_def len strtou_udec c_str_udec)
  have ul: "unat (content_length ?h) = length b" using small by (simp add: cl unat_of_nat_small)
  have form: "\<not> is_multipart_form_data ?h" using sp by (intro no_form [OF assms(1)]) simp
  have chunked: "\<not> is_chunked_transfer_encoding ?h"
    by (simp add: is_chunked_transfer_encoding_def strcasecmp_eq_def get_header_value_none none)
  have "\<exists>s'. read_content_data ?h (\<lambda>bs text. (True, text @ bs)) [] s = (None, b, s') \<and> stream_at [] x R c s'"
  proof (cases "b = []")
    case True
    then show ?thesis using chunked len cl assms(6)
      by (intro exI [of _ s]) (simp add: read_content_data_def get_header_value_none none has_header_def Let_def)
  next
    case False
    have "\<exists>s'. read_content_with_length (\<lambda>bs text. (True, text @ bs)) (length b) 0 [] s = (True, b, s') \<and> stream_at [] x R c s'"
      using body.read_content_with_length_at [OF stream_at_arriving [OF assms(6)], of 0 "length b" "[]"] False
      by (simp add: body.feed_def)
    moreover have "\<not> payload_max_length < content_length ?h" by (simp add: payload_max_length_def not_less)
    moreover have "0 < content_length ?h" using ul False by (metis length_0_conv unat_eq_zero word_neq_0_conv)
    ultimately show ?thesis using chunked len
      by (auto simp: read_content_data_def get_header_value_none none has_header_def Let_def ul)
  qed
  then obtain s' where s': "read_content_data ?h (\<lambda>bs text. (True, text @ bs)) [] s = (None, b, s')" "stream_at [] x R c s'" by blast
  let ?req = "req\<lparr>hq_body := b\<rparr>"
  have "server_read_content req s = (None, ?req\<lparr>hq_params := (if take 33 (get_header_value ?h ''Content-Type'' []) = ''application/x-www-form-urlencoded''
      then parse_query_text b (hq_params req) else hq_params req)\<rparr>, s')"
    using s'(1) form short assms(3,4) by (simp add: server_read_content_def Let_def)
  then show ?thesis using s'(2) by blast
qed


section \<open>The answer\<close>

text \<open>The text of an answer of the REST interface on a connection that is closed or kept.\<close>

definition answer_text :: "bool \<Rightarrow> response \<Rightarrow> string" where
  "answer_text close res =
     ''HTTP/1.1 '' @ sdec (status res) @ '' '' @ status_message (status res) @ [CR, LF] @
     (if close then ''Connection: close'' @ [CR, LF] else []) @
     ''Content-Length: '' @ udec (length (body res)) @ [CR, LF] @
     ''Content-Type: '' @ content_type res @ [CR, LF] @
     (if close then [] else ''Keep-Alive: timeout=5, max=5'' @ [CR, LF]) @ [CR, LF] @ body res"

definition json_type :: string where "json_type = ''application/json''"

lemma dispatch_json:
  "dispatch_request st version req sh new_response = Some (routed, res, sh') \<Longrightarrow>
    (if routed then content_type res = json_type else res = new_response)"
  by (auto simp: dispatch_request_def root_handler_def types_handler_def version_handler_def config_handler_def
      receive_handler_def send_handler_def list_handler_def send_error_def set_json_def json_type_def Let_def
      split: request.splits if_splits option.splits prod.splits sum.splits)

lemma udec_line: "\<not> has_crlf (udec n)"
  using udec_digits [of CR n] udec_digits [of LF n]
  by (auto simp: has_crlf_def isdigit_def char_code_def dest!: set_takeWhileD)

lemma header_names:
  "ci ''Content-Length'' ''Content-Type''" "\<not> ci ''Content-Type'' ''Content-Length''"
  "ci ''Connection'' ''Content-Length''" "ci ''Connection'' ''Content-Type''" "\<not> ci ''Content-Length'' ''Connection''"
  "\<not> ci ''Keep-Alive'' ''Content-Length''" "\<not> ci ''Keep-Alive'' ''Content-Type''" "ci ''Content-Type'' ''Keep-Alive''"
  "ci ''Content-Length'' ''Keep-Alive''"
  "\<not> ci ''Content-Type'' ''Connection''" "\<not> ci ''Content-Type'' ''Content-Type''" "\<not> ci ''Content-Length'' ''Content-Length''"
  by code_simp+

lemma header_texts:
  "\<not> has_crlf ''Content-Length''" "\<not> has_crlf ''Content-Type''" "\<not> has_crlf ''Connection''" "\<not> has_crlf ''Keep-Alive''"
  "\<not> has_crlf ''close''" "\<not> has_crlf json_type" "\<not> has_crlf ''0''" "\<not> has_crlf ''timeout=5, max=5''"
  "udec KEEPALIVE_TIMEOUT_SECOND = ''5''" "udec KEEPALIVE_MAX_COUNT = ''5''"
  by code_simp+

lemma c_str_texts:
  "c_str ''Content-Length'' = ''Content-Length''" "c_str ''Content-Type'' = ''Content-Type''" "c_str ''Connection'' = ''Connection''"
  "c_str ''Keep-Alive'' = ''Keep-Alive''" "c_str ''close'' = ''close''" "c_str json_type = json_type" "c_str ''0'' = ''0''"
  "c_str ''timeout=5, max=5'' = ''timeout=5, max=5''"
  by code_simp+

lemma error_body: "error_handler res = \<lparr>status = 404, body = ''{'' @ [CHR 0x22] @ ''error'' @ [CHR 0x22] @ '': 404}'', content_type = json_type\<rparr>"
proof -
  have "error_handler res = error_handler new_response" by (simp add: error_handler_def set_json_def)
  also have "error_handler new_response = \<lparr>status = 404, body = ''{'' @ [CHR 0x22] @ ''error'' @ [CHR 0x22] @ '': 404}'', content_type = json_type\<rparr>"
    by code_simp
  finally show ?thesis .
qed

text \<open>A body with its headers, before the connection header.\<close>

lemma write_body:
  assumes "hq_ranges req = []" "get_header_value (hq_headers req) ''Connection'' [] \<noteq> ''close''" "hq_method req \<noteq> ''HEAD''"
    "hr_headers res = [(''Content-Type'', json_type)]"
  shows "(let res = apply_ranges boundary (hq_ranges req) res;
          res = (if close \<or> get_header_value (hq_headers req) ''Connection'' [] = ''close''
                 then add_header ''Connection'' ''close'' res
                 else add_header ''Keep-Alive'' (''timeout='' @ udec KEEPALIVE_TIMEOUT_SECOND @ '', max='' @ udec KEEPALIVE_MAX_COUNT) res);
          res = (if \<not> has_header (hr_headers res) ''Content-Type'' \<and> hr_body res \<noteq> []
                 then add_header ''Content-Type'' ''text/plain'' res else res);
          res = (if \<not> has_header (hr_headers res) ''Content-Length'' \<and> hr_body res = []
                 then add_header ''Content-Length'' ''0'' res else res);
          res = (if \<not> has_header (hr_headers res) ''Accept-Ranges'' \<and> hq_method req = ''HEAD''
                 then add_header ''Accept-Ranges'' ''bytes'' res else res)
      in ''HTTP/1.1 '' @ sdec (hr_status res) @ '' '' @ status_message (hr_status res) @ [CR, LF] @
         write_headers (hr_headers res) @ (if hq_method req \<noteq> ''HEAD'' then hr_body res else [])) =
    answer_text close \<lparr>status = hr_status res, body = hr_body res, content_type = json_type\<rparr>"
proof (cases "hr_body res = []")
  case True
  have "udec 0 = ''0''" by code_simp
  then show ?thesis using assms True
    by (cases close) (simp_all add: apply_ranges_def Let_def add_header_def set_header_def header_names header_texts
        has_header_def mm_range_def mm_equal_def write_headers_def c_str_texts answer_text_def)
next
  case False
  then show ?thesis using assms
    by (cases close) (simp_all add: apply_ranges_def Let_def add_header_def set_header_def header_names header_texts udec_line
        has_header_def mm_range_def mm_equal_def write_headers_def c_str_texts c_str_udec answer_text_def)
qed

lemma write_response_core_text:
  assumes "hq_ranges req = []" "get_header_value (hq_headers req) ''Connection'' [] \<noteq> ''close''" "hq_method req \<noteq> ''HEAD''"
    "hr_headers res = [(''Content-Type'', json_type)] \<or> 400 \<le> hr_status res \<and> hr_headers res = []" "need \<or> 400 \<le> hr_status res"
  shows "write_response_core boundary close req res need =
    answer_text close (write_response \<lparr>status = hr_status res, body = hr_body res, content_type = json_type\<rparr>)"
proof (cases "400 \<le> hr_status res")
  case True
  have "hr_headers (run_error_handler res) = [(''Content-Type'', json_type)]"
    using assms(4) by (auto simp: run_error_handler_def error_body set_content_def set_header_def mm_erase_def mm_equal_def
        header_names header_texts Let_def)
  note w = write_body [OF assms(1-3) this, of boundary close]
  have "write_response_core boundary close req res need =
      answer_text close \<lparr>status = hr_status (run_error_handler res), body = hr_body (run_error_handler res), content_type = json_type\<rparr>"
    unfolding w [symmetric] write_response_core_def using True by (simp only: Let_def simp_thms if_True)
  then show ?thesis using True
    by (simp add: write_response_def run_error_handler_def error_body set_content_def Let_def)
next
  case False
  then have h: "hr_headers res = [(''Content-Type'', json_type)]" "need" using assms(4,5) by auto
  have "write_response_core boundary close req res need =
      answer_text close \<lparr>status = hr_status res, body = hr_body res, content_type = json_type\<rparr>"
    unfolding write_body [OF assms(1-3) h(1), of boundary close, symmetric] write_response_core_def
    using False h(2) by (simp only: Let_def simp_thms if_True if_False)
  then show ?thesis using False by (simp add: write_response_def)
qed


section \<open>A well-formed request\<close>

lemma answer_of_dispatch:
  assumes "hq_ranges req = []" "get_header_value (hq_headers req) ''Connection'' [] \<noteq> ''close''" "hq_method req \<noteq> ''HEAD''"
    "dispatch_request st version q sh new_response = Some (routed, r, sh')"
    "handled_response (routed, r, sh') http_new_response = (routed, res, sh')"
  shows "\<exists>a. process_request st version q sh = Some (a, sh') \<and>
    write_response_core boundary close req
      (if hr_status res = - 1 then res\<lparr>hr_status := (if routed then (if hq_ranges req = [] then 200 else 206) else 404)\<rparr> else res) routed =
    answer_text close a"
proof -
  let ?res = "if hr_status res = - 1 then res\<lparr>hr_status := (if routed then (if hq_ranges req = [] then 200 else 206) else 404)\<rparr> else res"
  let ?r = "if status r = - 1 then r\<lparr>status := if routed then 200 else 404\<rparr> else r"
  have p: "process_request st version q sh = Some (write_response ?r, sh')"
    using assms(4) by (simp add: process_request_def Let_def)
  have "write_response_core boundary close req ?res routed = answer_text close (write_response ?r)"
  proof (cases routed)
    case True
    then have ct: "content_type r = json_type" using dispatch_json [OF assms(4)] by simp
    have res: "res = \<lparr>hr_status = status r, hr_headers = [(''Content-Type'', json_type)], hr_body = body r\<rparr>"
      using assms(5) True ct by (simp add: handled_response_def set_content_def http_new_response_def mm_erase_def
          set_header_def header_texts)
    have "write_response_core boundary close req ?res routed = answer_text close
        (write_response \<lparr>status = hr_status ?res, body = hr_body ?res, content_type = json_type\<rparr>)"
      by (rule write_response_core_text [OF assms(1-3)]) (use res True in simp_all)
    also have "\<lparr>status = hr_status ?res, body = hr_body ?res, content_type = json_type\<rparr> = ?r"
      using res ct True assms(1) by (cases r) simp
    finally show ?thesis .
  next
    case False
    then have res: "res = http_new_response" "r = new_response"
      using assms(5) dispatch_json [OF assms(4)] by (simp_all add: handled_response_def)
    have "write_response_core boundary close req ?res routed = answer_text close
        (write_response \<lparr>status = hr_status ?res, body = hr_body ?res, content_type = json_type\<rparr>)"
      by (rule write_response_core_text [OF assms(1-3)]) (use res False in \<open>simp_all add: http_new_response_def\<close>)
    then show ?thesis using False res
      by (simp add: http_new_response_def new_response_def write_response_def error_body)
  qed
  with p show ?thesis by blast
qed

text \<open>What is left of the request when its handler is called.\<close>

lemma routing_text:
  assumes "well_formed r" "hq_method req = method_of r" "hq_path req = decode_url False (cr_target r)" "hq_body req = []"
    "hq_headers req = with_remote remote (stored (sent_headers r))"
    "stream_at (case cr_post r of None \<Rightarrow> [] | Some b \<Rightarrow> b) x R c s"
  shows "\<exists>req' s'. stream_at [] x R c s' \<and> hq_ranges req' = hq_ranges req \<and> hq_headers req' = hq_headers req \<and>
    hq_method req' = hq_method req \<and>
    routing st version req s sh = map_option (\<lambda>d. case handled_response d http_new_response of (routed, res, sh) \<Rightarrow> (routed, res, req', s', sh))
      (dispatch_request st version (as_request r) sh new_response)"
proof (cases "cr_post r")
  case None
  then show ?thesis using assms
    by (intro exI [of _ req] exI [of _ s])
      (simp add: routing_def expect_content_def method_of_def regular_handler_def as_request_def option.map_comp comp_def split_beta)
next
  case (Some b)
  have "stream_at b x R c s" using assms(6) Some by simp
  from server_read_content_text [OF assms(1) Some _ assms(4,5) this] obtain params s'
    where s': "server_read_content req s = (None, req\<lparr>hq_body := b, hq_params := params\<rparr>, s')" "stream_at [] x R c s'"
    using assms(2) Some by (auto simp: method_of_def)
  then show ?thesis using assms(2,3) Some
    by (intro exI [of _ "req\<lparr>hq_body := b, hq_params := params\<rparr>"] exI [of _ s'])
      (simp add: routing_def expect_content_def method_of_def regular_handler_def as_request_def option.map_comp comp_def split_beta)
qed

lemma sent_plain:
  assumes "well_formed r"
  shows "\<forall>h\<in>set (sent_headers r). plain_header h"
proof -
  have "plain_header (''Content-Length'', udec (length b))" if "cr_post r = Some b" for b
  proof -
    have "length b < 10 ^ 4" using assms that by (simp add: well_formed_def REQUEST_URI_MAX_LENGTH_def)
    then have "length (udec (length b)) \<le> 4" by (rule udec_length_bound) simp
    moreover have "\<forall>c\<in>{CHR ''%'', CR, LF, CHR '' '', CHR 0x09}. \<not> isdigit c" by code_simp
    then have "\<forall>c\<in>set (udec (length b)). c \<notin> {CHR ''%'', CR, LF, CHR '' '', CHR 0x09}"
      using udec_digits by blast
    then have "set (udec (length b)) \<inter> {CHR ''%'', CR, LF} = {}" "list_all (\<lambda>c. \<not> is_space_or_tab c) (udec (length b))"
      by (auto simp: list_all_iff is_space_or_tab_def)
    ultimately show ?thesis using strip_id [of "udec (length b)"] by (simp add: plain_header_def HEADER_MAX_LENGTH_def)
  qed
  then show ?thesis using assms by (auto simp: sent_headers_def well_formed_def split: option.splits)
qed

lemma request_read:
  assumes "well_formed r" "arriving (request_text r) x R c s"
  shows "\<exists>s1 s2. getline 2048 s = (Some (request_line r @ [CR, LF]), s1) \<and>
    read_headers s1 [] = (True, stored (sent_headers r), s2) \<and>
    stream_at (case cr_post r of None \<Rightarrow> [] | Some b \<Rightarrow> b) x R c s2"
proof -
  let ?line = "request_line r @ [CR]"
  let ?rest = "case cr_post r of None \<Rightarrow> [] | Some b \<Rightarrow> b"
  have "arriving (?line @ LF # header_text (sent_headers r) @ ?rest) x R c s" "LF \<notin> set ?line"
    using assms(2) request_line_chars [OF assms(1)] by (simp_all add: request_text_def)
  then obtain s1 where s1: "getline 2048 s = (Some (?line @ [LF]), s1)" "stream_at (header_text (sent_headers r) @ ?rest) x R c s1"
    using getline_line by blast
  from read_headers_text [OF stream_at_arriving [OF s1(2)] sent_plain [OF assms(1)], of "[]"] s1(1)
  show ?thesis by (auto simp: stored_def)
qed

lemma request_served:
  assumes "well_formed r" "arriving (request_text r) x R c s"
  shows "case process_request st version (as_request r) sh of
      None \<Rightarrow> http_process_request st version boundary remote close s sh = None
    | Some (res, sh') \<Rightarrow> \<exists>s'. stream_at [] x R c s' \<and>
        http_process_request st version boundary remote close s sh = Some (True, False, answer_text close res, s', sh')"
proof -
  let ?h = "stored (sent_headers r)"
  obtain s1 s2 where s1: "getline 2048 s = (Some (request_line r @ [CR, LF]), s1)" and s2: "read_headers s1 [] = (True, ?h, s2)"
      "stream_at (case cr_post r of None \<Rightarrow> [] | Some b \<Rightarrow> b) x R c s2"
    using request_read [OF assms] by blast
  have short: "\<not> REQUEST_URI_MAX_LENGTH < length (request_line r @ [CR, LF])" using assms(1) by (simp add: well_formed_def)
  have absent: "mm_range ci k ?h = []" if "k \<in> {''Connection'', ''Range'', ''Expect''}" for k
    using special_absent [OF assms(1), of k] that by (auto simp: special_headers_def)
  have absent': "mm_range ci k (with_remote remote ?h) = []" if "k \<in> {''Connection'', ''Range'', ''Expect''}" for k
    using absent [OF that] mm_range_remote [of k remote ?h] that by (auto simp: special_headers_def)
  let ?req = "new_request\<lparr>hq_method := method_of r, hq_target := cr_target r, hq_version := ''HTTP/1.1'',
      hq_path := decode_url False (cr_target r), hq_headers := with_remote remote ?h, hq_ranges := []\<rparr>"
  let ?d = "dispatch_request st version (as_request r) sh new_response"
  obtain req' s' where r': "stream_at [] x R c s'" "hq_ranges req' = []" "hq_headers req' = with_remote remote ?h" "hq_method req' = method_of r"
      "routing st version ?req s2 sh = map_option (\<lambda>d. case handled_response d http_new_response of (routed, res, sh) \<Rightarrow> (routed, res, req', s', sh)) ?d"
    using routing_text [OF assms(1), of ?req remote x R c s2 st version sh] s2(2) by (auto simp: new_request_def)
  have "http_process_request st version boundary remote close s sh = serve_request st version boundary remote close
      (new_request\<lparr>hq_method := method_of r, hq_target := cr_target r, hq_version := ''HTTP/1.1'',
         hq_path := decode_url False (cr_target r), hq_headers := ?h\<rparr>) s2 sh"
    using s1 s2(1) short parse_request_line_text [OF assms(1)] by (simp add: http_process_request_def Let_def)
  also have "\<dots> =
      (case routing st version ?req s2 sh of
         None \<Rightarrow> None
       | Some (routed, res, req, strm, sh) \<Rightarrow>
           Some (True, False, write_response_core boundary close req
             (if hr_status res = - 1 then res\<lparr>hr_status := (if routed then (if hq_ranges req = [] then 200 else 206) else 404)\<rparr> else res) routed, strm, sh))"
    using absent absent'
    by (simp add: serve_request_def get_header_value_none has_header_def with_remote_def [symmetric] new_request_def Let_def
        split: option.split prod.split)
  finally have serve: "http_process_request st version boundary remote close s sh = \<dots>" .
  show ?thesis
  proof (cases ?d)
    case None
    then show ?thesis unfolding serve r'(5) by (simp add: process_request_def)
  next
    case (Some d)
    obtain routed a sh' where d: "d = (routed, a, sh')" by (rule prod_cases3)
    obtain res where h: "handled_response (routed, a, sh') http_new_response = (routed, res, sh')" by (simp add: handled_response_def)
    have "get_header_value (hq_headers req') ''Connection'' [] \<noteq> ''close''" "hq_method req' \<noteq> ''HEAD''"
      using absent' r'(3,4) by (simp_all add: get_header_value_none method_of_def)
    from answer_of_dispatch [OF r'(2) this Some [unfolded d] h, of boundary close] obtain b
      where b: "process_request st version (as_request r) sh = Some (b, sh')" "write_response_core boundary close req'
        (if hr_status res = - 1 then res\<lparr>hr_status := (if routed then (if hq_ranges req' = [] then 200 else 206) else 404)\<rparr> else res) routed = answer_text close b"
      by blast
    show ?thesis unfolding serve r'(5) Some d b(1) using b(2) r'(1) h by simp
  qed
qed


section \<open>A connection\<close>

text \<open>The answers to a list of requests, the last of which the connection allows for is marked.\<close>

fun answers :: "stack \<Rightarrow> string \<Rightarrow> nat \<Rightarrow> client_request list \<Rightarrow> shared \<Rightarrow> (string \<times> shared) option" where
  "answers st version n [] sh = Some ([], sh)"
| "answers st version 0 (r # rs) sh = Some ([], sh)"
| "answers st version (Suc n) (r # rs) sh =
     (case process_request st version (as_request r) sh of
        None \<Rightarrow> None
      | Some (res, sh) \<Rightarrow> map_option (\<lambda>(out, sh). (answer_text (n = 0) res @ out, sh)) (answers st version n rs sh))"

text \<open>
  The segments of a request.  Bytes behind it may only come in the same segment, of at most the size of the read buffer.
\<close>

definition sent_as :: "client_request \<Rightarrow> string \<Rightarrow> string list \<Rightarrow> bool" where
  "sent_as r extra segs \<longleftrightarrow> [] \<notin> set segs \<and> concat segs = request_text r @ extra \<and>
     (extra \<noteq> [] \<longrightarrow> length segs = 1 \<and> length (request_text r @ extra) \<le> read_buff_size)"

lemma sent_arriving:
  assumes "sent_as r x segs"
  shows "arriving (request_text r) x R c (new_stream \<lparr>sk_segments = segs @ R, sk_closed = c\<rparr>)"
proof (cases "x = []")
  case True
  then show ?thesis using assms
    by (intro stream_at_arriving stream_atI [where S = segs]) (simp_all add: sent_as_def new_stream_def)
next
  case False
  then obtain seg where "segs = [seg]" using assms by (auto simp: sent_as_def length_Suc_conv)
  then show ?thesis using assms False by (simp add: arriving_def sent_as_def new_stream_def)
qed

lemma sent_not_nil: "sent_as r x segs \<Longrightarrow> segs \<noteq> []"
  by (auto simp: sent_as_def request_text_def)

lemma process_server_socket_answers:
  "\<forall>(r, x, segs)\<in>set sends. well_formed r \<and> sent_as r x segs \<Longrightarrow>
    process_server_socket st version boundary remote n \<lparr>sk_segments = concat (map (\<lambda>(r, x, segs). segs) sends), sk_closed = c\<rparr> sh =
    answers st version n (map fst sends) sh"
proof (induction sends arbitrary: n sh)
  case Nil
  let ?s = "\<lparr>sk_segments = [], sk_closed = c\<rparr>"
  have "stream_at [] [] [] c (new_stream ?s)" by (rule stream_atI [where S = "[]"]) (simp_all add: new_stream_def)
  from getline_loop_end [OF this _ lr_start_ok(1), of 2048 0]
  obtain s' where "getline 2048 (new_stream ?s) = (None, s')" by (auto simp: getline_def)
  then show ?case by (cases n) (simp_all add: http_process_request_def)
next
  case (Cons e sends)
  obtain r x segs where e: "e = (r, x, segs)" by (rule prod_cases3)
  let ?R = "concat (map (\<lambda>(r, x, segs). segs) sends)"
  let ?s = "\<lparr>sk_segments = segs @ ?R, sk_closed = c\<rparr>"
  have w: "well_formed r" "sent_as r x segs" using Cons.prems e by auto
  have k: "keep_alive ?s" using sent_not_nil [OF w(2)] by (simp add: keep_alive_def)
  show ?case
  proof (cases n)
    case (Suc m)
    note served = request_served [OF w(1) sent_arriving [OF w(2), of ?R c], where st = st and version = version and sh = sh and boundary = boundary and remote = remote and close = "m = 0"]
    show ?thesis
    proof (cases "process_request st version (as_request r) sh")
      case None
      then show ?thesis using served k e Suc by simp
    next
      case (Some p)
      obtain res sh' where p: "p = (res, sh')" by (rule prod.exhaust)
      from served [unfolded Some p] obtain s' where s': "stream_at [] x ?R c s'"
          "http_process_request st version boundary remote (m = 0) (new_stream ?s) sh = Some (True, False, answer_text (m = 0) res, s', sh')"
        by auto
      have "ss_sock s' = \<lparr>sk_segments = ?R, sk_closed = c\<rparr>" using stream_at_rest [OF s'(1)] by (cases "ss_sock s'") simp
      then show ?thesis using s'(2) k e Suc Some p Cons.IH [of m sh'] Cons.prems by simp
    qed
  qed (simp add: e)
qed

text \<open>C30:
  Well-formed requests that come one after the other, each in its own segments, are answered in order: the bytes written
  are the texts of the answers that the handlers give to the decoded path and the body, up to the fifth, which closes the
  connection.  The bytes behind a request in its segment are lost with the stream of that request, so of
  requests that a client sends in one segment only the first is answered.
\<close>

theorem requests_answered:
  assumes "\<forall>(r, extra, segs)\<in>set sends. well_formed r \<and> sent_as r extra segs"
  shows "process_and_close_socket st version boundary remote
      \<lparr>sk_segments = concat (map (\<lambda>(r, extra, segs). segs) sends), sk_closed = at_end\<rparr> sh =
    answers st version KEEPALIVE_MAX_COUNT (map fst sends) sh"
  using process_server_socket_answers [OF assms] by (simp add: process_and_close_socket_def)


definition types_request :: client_request where
  "types_request = \<lparr>cr_target = ''/types'', cr_headers = [(''Host'', ''gw'')], cr_post = None\<rparr>"

definition not_found :: response where
  "not_found = \<lparr>status = 404, body = ''{'' @ [CHR 0x22] @ ''error'' @ [CHR 0x22] @ '': 404}'', content_type = json_type\<rparr>"

definition bad_request :: client_request where
  "bad_request = \<lparr>cr_target = ''/s%65nt'', cr_headers = [], cr_post = Some ''{}''\<rparr>"

theorem requests_answered_witness:
  "process_and_close_socket sample_stack ''1'' ''b'' (''10.0.0.1'', 4711)
      \<lparr>sk_segments = [request_text types_request @ request_text types_request,
         ''POST '', ''/s%65nt HTTP/1.1'' @ crlf @ ''Content-Length: 2'' @ crlf @ crlf, ''{}''],
       sk_closed = True\<rparr> (g_shared sample_gateway) =
    Some (answer_text False \<lparr>status = 200, body = body (types_handler new_response), content_type = json_type\<rparr> @
      answer_text False not_found, g_shared sample_gateway)"
proof -
  let ?a = "[request_text types_request @ request_text types_request]"
  let ?b = "[''POST '', ''/s%65nt HTTP/1.1'' @ crlf @ ''Content-Length: 2'' @ crlf @ crlf, ''{}'']"
  let ?sends = "[(types_request, request_text types_request, ?a), (bad_request, [], ?b)]"
  let ?sh = "g_shared sample_gateway"
  have "well_formed types_request" "well_formed bad_request" by code_simp+
  moreover have "sent_as types_request (request_text types_request) ?a" by code_simp
  moreover have "sent_as bad_request [] ?b" by code_simp
  ultimately have "\<forall>(r, extra, segs)\<in>set ?sends. well_formed r \<and> sent_as r extra segs" by simp
  note served = requests_answered [OF this, where st = sample_stack and version = "''1''" and boundary = "''b''"
      and remote = "(''10.0.0.1'', 4711)" and at_end = True and sh = ?sh]
  have segs: "concat (map (\<lambda>(r, extra, segs). segs) ?sends) = ?a @ ?b" by simp
  have p: "as_request types_request = Get ''/types''" "as_request bad_request = Post ''/sent'' ''{}''" by code_simp+
  have "process_request sample_stack ''1'' (Get ''/types'') ?sh =
      Some (\<lparr>status = 200, body = body (types_handler new_response), content_type = json_type\<rparr>, ?sh)"
    by (simp add: process_request_def dispatch_request_def types_handler_def set_json_def write_response_def json_type_def new_response_def)
  moreover have "process_request sample_stack ''1'' (Post ''/sent'' ''{}'') ?sh = Some (not_found, ?sh)"
    by (simp add: process_request_def dispatch_request_def write_response_def new_response_def error_body not_found_def)
  ultimately have "answers sample_stack ''1'' KEEPALIVE_MAX_COUNT (map fst ?sends) ?sh =
      Some (answer_text False \<lparr>status = 200, body = body (types_handler new_response), content_type = json_type\<rparr> @
        answer_text False not_found, ?sh)"
    by (simp add: KEEPALIVE_MAX_COUNT_def numeral_eq_Suc p del: append.simps)
  with served show ?thesis unfolding segs by simp
qed

end
