(* ===== verification/Http_Server_Props.thy ===== *)
theory Http_Server_Props
  imports Http_Requests
begin

text \<open>
  The server on any bytes: the answer depends on the bytes of a request and not on the segments they arrive in.
\<close>

section \<open>Segments do not matter\<close>

text \<open>The request declares a form.\<close>

definition declares_form :: "socket_stream \<Rightarrow> bool" where
  "declares_form strm =
     (case getline 2048 strm of
        (None, _) \<Rightarrow> False
      | (Some _, strm) \<Rightarrow> (case read_headers strm [] of (_, h, _) \<Rightarrow> is_multipart_form_data h))"

lemma server_read_content_same:
  assumes "same_bytes s t" "\<not> is_multipart_form_data (hq_headers req)"
  shows "\<exists>st req' s' t'. server_read_content req s = (st, req', s') \<and> server_read_content req t = (st, req', t') \<and> same_bytes s' t'"
proof -
  obtain st b s' t' where "read_content_data (hq_headers req) (\<lambda>bs text. (True, text @ bs)) (hq_body req) s = (st, b, s')"
      "read_content_data (hq_headers req) (\<lambda>bs text. (True, text @ bs)) (hq_body req) t = (st, b, t')" "same_bytes s' t'"
    using body.read_content_data_same [OF assms(1)] by blast
  then show ?thesis using assms
    by (cases st) (auto simp: server_read_content_def Let_def split: prod.splits)
qed

definition same_result ::
    "(bool \<times> http_response \<times> http_request \<times> socket_stream \<times> shared) option \<Rightarrow>
     (bool \<times> http_response \<times> http_request \<times> socket_stream \<times> shared) option \<Rightarrow> bool" where
  "same_result x y \<longleftrightarrow>
     (case (x, y) of
        (None, None) \<Rightarrow> True
      | (Some (r, res, req, s, sh), Some (r', res', req', t, sh')) \<Rightarrow>
          r = r' \<and> res = res' \<and> req = req' \<and> sh = sh' \<and> same_bytes s t
      | _ \<Rightarrow> False)"

lemma routing_same:
  assumes "same_bytes s t" "\<not> is_multipart_form_data (hq_headers req)"
  shows "same_result (routing st version req s sh) (routing st version req t sh)"
proof -
  obtain x req' s' t' where "(if expect_content req then server_read_content req s else (None, req, s)) = (x, req', s')"
      "(if expect_content req then server_read_content req t else (None, req, t)) = (x, req', t')" "same_bytes s' t'"
    using server_read_content_same [OF assms] assms(1) by (cases "expect_content req") auto
  then show ?thesis
    by (cases x; cases "regular_handler st version req' sh http_new_response")
      (auto simp: routing_def same_result_def)
qed

text \<open>What the client and the rest of the program see of a request.\<close>

definition outcome_of ::
    "(bool \<times> bool \<times> string \<times> socket_stream \<times> shared) option \<Rightarrow> (bool \<times> bool \<times> string \<times> string \<times> shared) option" where
  "outcome_of r = map_option (\<lambda>(ret, closes, written, strm, sh). (ret, closes, written, pending strm, sh)) r"

lemma same_pending: "same_bytes s t \<Longrightarrow> pending s = pending t"
  by (auto simp: same_bytes_def stream_at_def pending_def)

lemma serve_request_same:
  assumes "same_bytes s t" "\<not> is_multipart_form_data (hq_headers req)"
  shows "outcome_of (serve_request st version boundary remote close req s sh) =
    outcome_of (serve_request st version boundary remote close req t sh)"
proof -
  let ?h = "set_header ''REMOTE_PORT'' (udec (snd remote)) (set_header ''REMOTE_ADDR'' (fst remote) (hq_headers req))"
  have "\<not> mm_equal ci ''Content-Type'' ''REMOTE_PORT'' \<and> \<not> mm_equal ci ''Content-Type'' ''REMOTE_ADDR''" by code_simp
  then have f: "\<not> is_multipart_form_data ?h"
    using assms(2) by (simp add: is_multipart_form_data_def get_header_value_def mm_range_set_header)
  let ?r = "if has_header ?h ''Range'' then parse_range_header (get_header_value ?h ''Range'' []) [] else (True, [])"
  obtain ok ranges where r: "?r = (ok, ranges)" by (rule prod.exhaust)
  let ?req = "req\<lparr>hq_headers := ?h, hq_ranges := ranges\<rparr>"
  have "same_result (routing st version ?req s sh) (routing st version ?req t sh)"
    using f by (intro routing_same assms(1)) simp
  then show ?thesis
    using assms(1) r
    by (cases ok; cases "routing st version ?req s sh"; cases "routing st version ?req t sh")
      (auto simp: serve_request_def outcome_of_def same_result_def same_pending Let_def)
qed

lemma http_process_request_same:
  assumes "same_bytes s t" "\<not> declares_form s"
  shows "outcome_of (http_process_request st version boundary remote close s sh) =
    outcome_of (http_process_request st version boundary remote close t sh)"
proof -
  obtain lo s1 t1 where l: "getline 2048 s = (lo, s1)" "getline 2048 t = (lo, t1)" "same_bytes s1 t1"
    using getline_same [OF assms(1)] by blast
  obtain ok h s2 t2 where h: "read_headers s1 [] = (ok, h, s2)" "read_headers t1 [] = (ok, h, t2)" "same_bytes s2 t2"
    using read_headers_same [OF l(3)] by blast
  show ?thesis
  proof (cases lo)
    case None
    then show ?thesis using l by (simp add: http_process_request_def outcome_of_def same_pending)
  next
    case (Some line)
    have f: "\<not> is_multipart_form_data h" using assms(2) l(1) h(1) Some by (simp add: declares_form_def)
    obtain line_ok req where p: "parse_request_line line new_request = (line_ok, req)" by (rule prod.exhaust)
    have "outcome_of (serve_request st version boundary remote close (req\<lparr>hq_headers := h\<rparr>) s2 sh) =
        outcome_of (serve_request st version boundary remote close (req\<lparr>hq_headers := h\<rparr>) t2 sh)"
      using f by (intro serve_request_same h(3)) simp
    then show ?thesis using l h Some p
      by (cases line_ok; cases ok) (auto simp: http_process_request_def Let_def outcome_of_def same_pending)
  qed
qed


lemma new_stream_at: "[] \<notin> set (sk_segments s) \<Longrightarrow> stream_at (concat (sk_segments s)) [] [] (sk_closed s) (new_stream s)"
  by (rule stream_atI [where S = "sk_segments s"]) (simp_all add: new_stream_def)

text \<open>C31:
  What the server answers to a request, whether it goes on, and what the handlers leave behind depend on the bytes of the
  connection and not on the segments they arrive in, for every byte sequence, malformed or cut off, and every kind of
  body, except for requests with a multipart form.
\<close>

theorem answer_independent_of_segments:
  assumes "concat (sk_segments s) = concat (sk_segments t)" "sk_closed s = sk_closed t"
    "[] \<notin> set (sk_segments s)" "[] \<notin> set (sk_segments t)" "\<not> declares_form (new_stream s)"
  shows "outcome_of (http_process_request st version boundary remote close (new_stream s) sh) =
    outcome_of (http_process_request st version boundary remote close (new_stream t) sh)"
proof -
  have "same_bytes (new_stream s) (new_stream t)"
    using new_stream_at [OF assms(3)] new_stream_at [OF assms(4)] unfolding assms(1,2) by (rule same_bytesI)
  then show ?thesis using assms(5) by (rule http_process_request_same)
qed

lemma well_formed_no_form:
  assumes "well_formed r" "arriving (request_text r) x R c s"
  shows "\<not> declares_form s"
  using request_read [OF assms] no_form [OF assms(1) refl] by (auto simp: declares_form_def)

theorem answer_independent_of_segments_witness:
  "outcome_of (http_process_request sample_stack ''1'' ''b'' (''10.0.0.1'', 4711) False
     (new_stream \<lparr>sk_segments = [take 7 (request_text bad_request), drop 7 (request_text bad_request)], sk_closed = False\<rparr>)
     (g_shared sample_gateway)) =
   outcome_of (http_process_request sample_stack ''1'' ''b'' (''10.0.0.1'', 4711) False
     (new_stream \<lparr>sk_segments = [request_text bad_request], sk_closed = False\<rparr>) (g_shared sample_gateway))"
proof (rule answer_independent_of_segments)
  let ?segs = "[take 7 (request_text bad_request), drop 7 (request_text bad_request)]"
  have "sent_as bad_request [] ?segs" "well_formed bad_request" by code_simp+
  from well_formed_no_form [OF this(2) sent_arriving [OF this(1), of "[]" False]]
  show "\<not> declares_form (new_stream \<lparr>sk_segments = ?segs, sk_closed = False\<rparr>)" by simp
qed (simp_all, code_simp+)

end
