(* ===== verification/Http_Range_Props.thy ===== *)
theory Http_Range_Props
  imports Http_Server Http_Text_Props
begin

text \<open>
  Ranges: the text of a \<open>Range\<close> header is parsed into its bounds, and the answer has the bytes between them.
\<close>

section \<open>The text of a range\<close>

definition bound_text :: "nat option \<Rightarrow> string" where
  "bound_text b = (case b of None \<Rightarrow> [] | Some n \<Rightarrow> udec n)"

definition range_text :: "nat option \<Rightarrow> nat option \<Rightarrow> string" where
  "range_text first final = ''bytes='' @ bound_text first @ ''-'' @ bound_text final"

definition bound :: "nat option \<Rightarrow> int" where
  "bound b = (case b of None \<Rightarrow> - 1 | Some n \<Rightarrow> int n)"

definition bounds_ok :: "nat option \<Rightarrow> nat option \<Rightarrow> bool" where
  "bounds_ok first final \<longleftrightarrow> (\<forall>n\<in>set_option first \<union> set_option final. n < 2 ^ 63) \<and>
     (case (first, final) of (Some a, Some b) \<Rightarrow> a \<le> b | _ \<Rightarrow> True)"

lemma bound_digits: "c \<in> set (bound_text b) \<Longrightarrow> isdigit c"
  by (auto simp: bound_text_def udec_digits split: option.splits)

lemma not_digits: "\<not> isdigit (CHR ''-'')" "\<not> isdigit (CHR '','')" "\<not> isdigit (CHR '' '')" "\<not> isdigit (CHR 0x09)"
  "\<not> isspace (CHR ''-'')" "\<not> is_space_or_tab (CHR ''-'')"
  by code_simp+

lemma digit_not_space: "isdigit c \<Longrightarrow> \<not> isspace c \<and> \<not> is_space_or_tab c"
proof -
  assume "isdigit c"
  moreover have "\<not> isspace c" using \<open>isdigit c\<close> by (auto simp: isdigit_def isspace_def)
  ultimately show ?thesis using not_digits by (auto simp: is_space_or_tab_def)
qed

lemma range_token_text: "range_token (bound_text f @ CHR ''-'' # bound_text l) = Some (bound_text f, bound_text l)"
proof -
  have "takeWhile isdigit (bound_text f @ CHR ''-'' # bound_text l) = bound_text f"
    using not_digits bound_digits by (subst takeWhile_append2) auto
  then show ?thesis using bound_digits by (auto simp: range_token_def Let_def list_all_iff)
qed

lemma range_foldl:
  "\<forall>c\<in>set ds. isdigit c \<Longrightarrow> foldl (\<lambda>a c. a * 10 + (int (char_code c) - 48)) k ds = k * 10 ^ length ds + int (dec_value ds)"
proof (induction ds arbitrary: k)
  case (Cons c ds)
  define d where "d = char_code c - 48"
  have "int (char_code c) - 48 = int d" using Cons.prems by (auto simp: d_def isdigit_def)
  then have "foldl (\<lambda>a c. a * 10 + (int (char_code c) - 48)) k (c # ds) = (k * 10 + int d) * 10 ^ length ds + int (dec_value ds)"
    using Cons by simp
  then show ?case by (simp add: d_def [symmetric] algebra_simps)
qed simp

lemma range_number_text: "\<forall>n\<in>set_option b. n < 2 ^ 63 \<Longrightarrow> range_number (bound_text b) = Some (bound b)"
  by (cases b) (simp_all add: range_number_def bound_text_def bound_def range_foldl udec_digits)

lemma comma_parts_word: "CHR '','' \<notin> set t \<Longrightarrow> comma_parts t = [t]"
  by (induction t) auto

lemma parse_range_text:
  assumes "bounds_ok first final"
  shows "parse_range_header (range_text first final) ranges = (True, ranges @ [(bound first, bound final)])"
proof -
  let ?t = "bound_text first @ CHR ''-'' # bound_text final"
  have digits: "\<forall>c\<in>set ?t. c = CHR ''-'' \<or> isdigit c" using bound_digits by auto
  then have comma: "CHR '','' \<notin> set ?t" using not_digits by auto
  have spaces: "\<forall>c\<in>set ?t. \<not> isspace c \<and> \<not> is_space_or_tab c"
    using digits digit_not_space not_digits(5,6) by metis
  then have blank: "list_all (\<lambda>c. \<not> is_space_or_tab c) ?t" by (simp only: list_all_iff, blast)
  have trimmed: "dropWhile isspace ?t = ?t" using spaces by (cases "bound_text first") auto
  have m: "range_header_match (range_text first final) = Some ?t"
    using comma_parts_word [OF comma] by (simp add: range_header_match_def range_text_def range_token_text Let_def)
  have "split ?t (CHR '','') = [?t]" using comma blank by (simp add: split_cut cut_word strip_id nonempty_def)
  moreover have "range_number (bound_text first) = Some (bound first)" "range_number (bound_text final) = Some (bound final)"
    using assms by (auto simp: bounds_ok_def intro!: range_number_text)
  moreover have "\<not> (bound first \<noteq> - 1 \<and> bound final \<noteq> - 1 \<and> bound first > bound final)"
    using assms by (auto simp: bounds_ok_def bound_def split: option.splits)
  ultimately show ?thesis using trimmed
    by (auto simp: parse_range_header_def m range_token_text)
qed

section \<open>The bytes of a range\<close>

definition range_start :: "nat option \<Rightarrow> nat option \<Rightarrow> nat \<Rightarrow> nat" where
  "range_start first final n =
     (case first of Some a \<Rightarrow> a | None \<Rightarrow> (case final of Some k \<Rightarrow> n - k | None \<Rightarrow> 0))"

definition range_bytes :: "nat option \<Rightarrow> nat option \<Rightarrow> string \<Rightarrow> string" where
  "range_bytes first final text =
     (case (first, final) of
        (Some a, Some b) \<Rightarrow> take (Suc b - a) (drop a text)
      | _ \<Rightarrow> drop (range_start first final (length text)) text)"

lemma unat_of_int: "\<lbrakk>0 \<le> j; j < 2 ^ 63\<rbrakk> \<Longrightarrow> unat (of_int j :: u64) = nat j \<and> unat (of_int j + 1 :: u64) = Suc (nat j)"
proof -
  assume j: "0 \<le> j" "j < 2 ^ 63"
  then obtain m where m: "j = int m" "m < 2 ^ 63" by (metis nat_less_numeral_power_cancel_iff zero_le_imp_eq_int nat_int)
  have "(of_int j + 1 :: u64) = of_nat (Suc m)" by (simp add: m(1))
  then have "unat (of_int j + 1 :: u64) = Suc m" using m(2) by (simp only:) (rule unat_of_nat_small, simp)
  moreover have "unat (of_int j :: u64) = m" using m by (simp add: unat_of_nat_small)
  ultimately show ?thesis by (simp add: m(1))
qed

lemma offset_and_length:
  assumes "bounds_ok first final" "0 < n" "n < 2 ^ 63"
  shows "\<exists>offset len. get_range_offset_and_length (bound first, bound final) n = (offset, len) \<and>
    unat offset = range_start first final n \<and>
    (range_start first final n < n \<longrightarrow>
      unat len = (case (first, final) of (Some a, Some b) \<Rightarrow> Suc b - a | _ \<Rightarrow> n - range_start first final n))"
proof (cases first; cases final)
  assume "first = None" "final = None"
  then show ?thesis using assms by (simp add: get_range_offset_and_length_def bound_def range_start_def unat_of_nat_small)
next
  fix a assume f: "first = Some a" "final = None"
  have a: "a < 2 ^ 63" using assms(1) f by (simp add: bounds_ok_def)
  have "unat (of_int (int n - 1 - int a) + 1 :: u64) = n - a" if "a < n"
    using unat_of_int [of "int n - 1 - int a"] assms(3) that by (simp add: nat_diff_distrib)
  then show ?thesis using f a unat_of_int [of "int a"]
    by (simp add: get_range_offset_and_length_def bound_def range_start_def)
next
  fix k assume f: "first = None" "final = Some k"
  have m: "max 0 (int n - int k) = int (n - k)" by simp
  have "unat (of_int (int n - 1 - int (n - k)) + 1 :: u64) = n - (n - k)" if "n - k < n"
    using unat_of_int [of "int n - 1 - int (n - k)"] assms(3) that by (simp add: nat_diff_distrib)
  moreover have "unat (of_int (int (n - k)) :: u64) = n - k" using unat_of_int [of "int (n - k)"] assms(3) by simp
  ultimately show ?thesis using f assms(2)
    by (simp add: get_range_offset_and_length_def bound_def range_start_def m Let_def del: of_nat_diff of_int_of_nat_eq)
next
  fix a b assume f: "first = Some a" "final = Some b"
  have ab: "a \<le> b" "b < 2 ^ 63" using assms(1) f by (simp_all add: bounds_ok_def)
  have "unat (of_int (int b - int a) + 1 :: u64) = Suc b - a"
    using unat_of_int [of "int b - int a"] ab by (simp add: nat_diff_distrib)
  then show ?thesis using f ab unat_of_int [of "int a"]
    by (simp add: get_range_offset_and_length_def bound_def range_start_def)
qed

text \<open>C32:
  A range header of one range, open or closed, or a suffix, is parsed into its bounds; the answer has the bytes of the
  body between them, up to the end of the body, or status 416 and no body when the range begins behind it.
\<close>

theorem range_served:
  assumes "bounds_ok first final" "hr_body res \<noteq> []" "length (hr_body res) < 2 ^ 63"
  shows "\<exists>r res'. parse_range_header (range_text first final) [] = (True, [r]) \<and> apply_ranges boundary [r] res = res' \<and>
    (hr_body res', hr_status res') =
      (if range_start first final (length (hr_body res)) < length (hr_body res)
       then (range_bytes first final (hr_body res), hr_status res) else ([], 416))"
proof -
  let ?n = "length (hr_body res)"
  obtain offset len where o: "get_range_offset_and_length (bound first, bound final) ?n = (offset, len)"
      "unat offset = range_start first final ?n"
      "range_start first final ?n < ?n \<Longrightarrow>
        unat len = (case (first, final) of (Some a, Some b) \<Rightarrow> Suc b - a | _ \<Rightarrow> ?n - range_start first final ?n)"
    using offset_and_length [OF assms(1) _ assms(3)] assms(2) by auto
  have "take (unat len) (drop (unat offset) (hr_body res)) = range_bytes first final (hr_body res)"
    if "range_start first final ?n < ?n"
    using o(2) o(3) [OF that] by (auto simp: range_bytes_def range_start_def split: option.splits)
  then show ?thesis
    using parse_range_text [OF assms(1), of "[]"] assms(2) o(1,2)
    by (intro exI [of _ "(bound first, bound final)"] exI conjI)
      (auto simp: apply_ranges_def Let_def substr_def add_header_def)
qed

theorem range_served_witness:
  "\<exists>r res'. parse_range_header ''bytes=1-99'' [] = (True, [r]) \<and>
    apply_ranges ''b'' [r] \<lparr>hr_status = 206, hr_headers = [], hr_body = ''abcd''\<rparr> = res' \<and>
    (hr_body res', hr_status res') = (''bcd'', 206)"
proof -
  have "bounds_ok (Some 1) (Some 99)" by (simp add: bounds_ok_def)
  from range_served [OF this, of "\<lparr>hr_status = 206, hr_headers = [], hr_body = ''abcd''\<rparr>" "''b''"]
  obtain r res' where "parse_range_header (range_text (Some 1) (Some 99)) [] = (True, [r])"
      "apply_ranges ''b'' [r] \<lparr>hr_status = 206, hr_headers = [], hr_body = ''abcd''\<rparr> = res'"
      "(hr_body res', hr_status res') = (''bcd'', 206)" by (auto simp: range_start_def range_bytes_def)
  moreover have "range_text (Some 1) (Some 99) = ''bytes=1-99''" by code_simp
  ultimately show ?thesis by auto
qed

end
