(* ===== verification/Http_Multipart_Props.thy ===== *)
theory Http_Multipart_Props
  imports Http_Multipart Http_Text_Props "HOL-Library.Sublist"
begin

text \<open>
  The multipart parser on the text of a form: every part comes back with its name, file name, type and content, and
  the form is complete, when the text arrives in one piece.
\<close>

section \<open>The text of a form\<close>

definition quoted :: "string \<Rightarrow> string" where
  "quoted s = CHR 0x22 # s @ [CHR 0x22]"

definition disposition :: "form_data \<Rightarrow> string" where
  "disposition f = ''Content-Disposition: form-data; name='' @ quoted (fd_name f) @
     (if fd_filename f = [] then [] else ''; filename='' @ quoted (fd_filename f))"

definition part_text :: "form_data \<Rightarrow> string" where
  "part_text f = disposition f @ crlf @
     (if fd_content_type f = [] then [] else ''Content-Type: '' @ fd_content_type f @ crlf) @ crlf @ fd_content f"

definition form_text :: "string \<Rightarrow> form_data list \<Rightarrow> string" where
  "form_text boundary fs =
     dash @ boundary @ concat (map (\<lambda>f. crlf @ part_text f @ crlf @ dash @ boundary) fs) @ dash @ crlf"

definition quotable :: "string \<Rightarrow> bool" where
  "quotable s \<longleftrightarrow> set s \<inter> {CHR 0x22, CR, LF} = {}"

text \<open>What a client has to keep to: the boundary must not occur in the content.\<close>

definition sendable_part :: "string \<Rightarrow> form_data \<Rightarrow> bool" where
  "sendable_part boundary f \<longleftrightarrow>
     quotable (fd_name f) \<and> quotable (fd_filename f) \<and> CR \<notin> set (fd_content_type f) \<and>
     strip (fd_content_type f) = fd_content_type f \<and> length (disposition f) \<le> HEADER_MAX_LENGTH \<and>
     \<not> sublist (crlf @ dash @ boundary) (fd_content f)"

section \<open>Searching\<close>

lemma find_pos_first:
  assumes "CR \<notin> set t" "\<not> sublist (CR # t) a"
  shows "find_pos (CR # t) (a @ CR # t @ r) = length a"
  using assms(2)
proof (induction a)
  case (Cons x a)
  have a: "\<not> sublist (CR # t) a" using Cons.prems by (auto dest: sublist_Cons_right [THEN iffD2, OF disjI2])
  have "take (length (CR # t)) (x # a @ CR # t @ r) \<noteq> CR # t"
  proof
    assume eq: "take (length (CR # t)) (x # a @ CR # t @ r) = CR # t"
    show False
    proof (cases "length t \<le> length a")
      case True
      then have "take (length (CR # t)) (x # a) = CR # t" using eq by simp
      then have "sublist (CR # t) (x # a)" by (metis prefix_imp_sublist take_is_prefix)
      then show False using Cons.prems by simp
    next
      case False
      then have "t ! length a = (CR # t @ r) ! 0" using eq
        by (metis (no_types, lifting) append_eq_conv_conj append_take_drop_id length_Cons list.inject not_le
            nth_append nth_append_length nth_take take_Suc_Cons nth_Cons_0)
      then have "CR \<in> set t" using False by (metis not_le nth_Cons_0 nth_mem)
      then show False using assms(1) by simp
    qed
  qed
  then show ?case using Cons.IH [OF a] by simp
qed simp

lemma find_pos_le: "s \<noteq> [] \<Longrightarrow> find_pos s (a @ s @ r) \<le> length a"
proof (induction a)
  case Nil
  then show ?case by (cases s) auto
qed (cases s; auto)

lemma find_crlf: "CR \<notin> set a \<Longrightarrow> find_pos crlf (a @ CR # LF # r) = length a"
proof -
  assume "CR \<notin> set a"
  then have "\<not> sublist [CR, LF] a" by (auto simp: sublist_def)
  then show ?thesis using find_pos_first [of "[LF]" a r] by (simp add: crlf_def)
qed

section \<open>Header lines\<close>

lemma trim_copy_strip: "trim_copy s = strip s"
proof -
  have "split_piece s 0 (length s) = nonempty (strip s)" by (simp add: split_piece_strip)
  then show ?thesis
    by (cases "trim s 0 (length s)") (auto simp: trim_copy_def split_piece_def nonempty_def split: if_splits)
qed

lemma re_quoted_text:
  "\<lbrakk>quotable s; k r = Some x\<rbrakk> \<Longrightarrow> re_quoted k t (s @ CHR 0x22 # r) = Some (t @ s, x)"
  by (induction s arbitrary: t) (auto simp: quotable_def)

lemma re_word_prefix: "re_word w (w @ s) = Some s"
  by (simp add: re_word_def)

lemma isspace_letters:
  "isspace (CHR '' '')" "\<not> isspace (CHR ''f'')" "\<not> isspace (CHR ''n'')" "\<not> isspace (CHR 0x22)"
  by code_simp+

lemma dropWhile_word:
  "dropWhile isspace ('' '' @ ''form-data;'' @ s) = ''form-data;'' @ s"
  "dropWhile isspace ('' '' @ (''name='' @ [CHR 0x22]) @ s) = (''name='' @ [CHR 0x22]) @ s"
  "dropWhile isspace ('' '' @ (''filename='' @ [CHR 0x22]) @ s) = (''filename='' @ [CHR 0x22]) @ s"
  using isspace_letters by simp_all

definition filename_text :: "string \<Rightarrow> string" where
  "filename_text s = (if s = [] then [] else '';'' @ '' '' @ (''filename='' @ [CHR 0x22]) @ s @ CHR 0x22 # [])"

lemma re_filename_text: "quotable s \<Longrightarrow> re_filename (filename_text s) = Some s"
proof (cases "s = []")
  case True
  then show ?thesis by (simp add: re_filename_def filename_text_def re_word_def re_end_def)
next
  case False
  assume "quotable s"
  moreover have "re_end [] = Some ()" by (simp add: re_end_def)
  ultimately have "re_quoted re_end [] (s @ CHR 0x22 # []) = Some ([] @ s, ())" by (rule re_quoted_text)
  with False show ?thesis
    unfolding re_filename_def filename_text_def if_not_P [OF False] re_word_prefix option.case dropWhile_word
    by simp
qed

lemma disposition_words:
  "disposition f = ''Content-Disposition:'' @ '' '' @ ''form-data;'' @ '' '' @ (''name='' @ [CHR 0x22]) @ fd_name f @
     CHR 0x22 # filename_text (fd_filename f)"
  by (simp add: disposition_def quoted_def filename_text_def)

lemma re_content_disposition_text:
  assumes "quotable (fd_name f)" "quotable (fd_filename f)"
  shows "re_content_disposition (disposition f) = Some (fd_name f, fd_filename f)"
proof -
  have "re_quoted re_filename [] (fd_name f @ CHR 0x22 # filename_text (fd_filename f)) = Some ([] @ fd_name f, fd_filename f)"
    using assms(1) re_filename_text [OF assms(2)] by (rule re_quoted_text)
  then show ?thesis
    unfolding re_content_disposition_def disposition_words re_word_prefix option.case dropWhile_word by simp
qed

lemma tolower_letters:
  "tolower CHR ''C'' = CHR ''c''" "tolower CHR ''T'' = CHR ''t''" "tolower CHR ''D'' = CHR ''d''" "tolower CHR ''c'' = CHR ''c''"
  "tolower CHR ''t'' = CHR ''t''"
  by code_simp+

lemma entry_header_disposition:
  "\<lbrakk>quotable (fd_name f); quotable (fd_filename f)\<rbrakk> \<Longrightarrow>
    entry_header (disposition f) g = g\<lparr>fd_name := fd_name f, fd_filename := fd_filename f\<rparr>"
  by (simp add: entry_header_def re_content_disposition_text)
    (simp add: start_with_case_ignore_def disposition_words tolower_letters)

lemma entry_header_type:
  "strip t = t \<Longrightarrow> entry_header (''Content-Type: '' @ t) g = g\<lparr>fd_content_type := t\<rparr>"
  by (simp add: entry_header_def start_with_case_ignore_def trim_copy_strip tolower_letters) (simp add: strip_def is_space_or_tab_def)


section \<open>One part\<close>

abbreviation parser_at :: "string \<Rightarrow> nat \<Rightarrow> form_data \<Rightarrow> string \<Rightarrow> multipart_parser" where
  "parser_at B st f buf \<equiv> \<lparr>mp_boundary = B, mp_state = st, mp_is_valid = False, mp_file = f, mp_buf = buf\<rparr>"

lemmas buffer_defs = buf_size_def buf_head_def buf_start_with_def buf_find_def buf_append_def buf_erase_def

lemma entry_headers_line:
  assumes "line \<noteq> []" "CR \<notin> set line"
  shows "entry_headers hc (find_pos crlf (line @ crlf @ r)) (parser_at B 2 f (line @ crlf @ r)) a =
    entry_headers hc (find_pos crlf r) (parser_at B 2 (entry_header line f) r) a"
  using assms find_crlf [OF assms(2), of r]
  by (subst entry_headers.simps) (simp add: Let_def buffer_defs crlf_def)

lemma entry_headers_end:
  "hc f a = (True, a') \<Longrightarrow>
    entry_headers hc (find_pos crlf (crlf @ r)) (parser_at B 2 f (crlf @ r)) a = (True, parser_at B 3 f r, a')"
  using find_crlf [of "[]" r] by (subst entry_headers.simps) (simp add: buffer_defs crlf_def)

lemma no_CR_disposition: "\<lbrakk>quotable (fd_name g); quotable (fd_filename g)\<rbrakk> \<Longrightarrow> CR \<notin> set (disposition g)"
  by (auto simp: disposition_def quoted_def quotable_def)

definition part_headers :: "form_data \<Rightarrow> string" where
  "part_headers f = disposition f @ crlf @
     (if fd_content_type f = [] then [] else (''Content-Type: '' @ fd_content_type f) @ crlf) @ crlf"

lemma part_text_headers: "part_text f = part_headers f @ fd_content f"
  by (simp add: part_text_def part_headers_def)

lemma turn_headers:
  assumes "sendable_part B g" "fd_content f = []" "hc (g\<lparr>fd_content := []\<rparr>) a = (True, a')"
  shows "parse_turn cc hc (parser_at B 2 (clear_file_info f) (part_headers g @ r)) a =
    (None, parser_at B 3 (g\<lparr>fd_content := []\<rparr>) r, a')"
proof -
  note ok = assms(1) [unfolded sendable_part_def]
  let ?buf = "part_headers g @ r"
  let ?f1 = "(clear_file_info f)\<lparr>fd_name := fd_name g, fd_filename := fd_filename g\<rparr>"
  have q: "quotable (fd_name g)" "quotable (fd_filename g)" using ok by blast+
  then have "CR \<notin> set (disposition g)" by (rule no_CR_disposition)
  moreover have "disposition g \<noteq> []" by (simp add: disposition_def)
  ultimately have d: "disposition g \<noteq> []" "CR \<notin> set (disposition g)" by blast+
  let ?rest = "(if fd_content_type g = [] then [] else (''Content-Type: '' @ fd_content_type g) @ crlf) @ crlf @ r"
  have buf: "?buf = disposition g @ crlf @ ?rest" by (simp add: part_headers_def)
  have pos: "find_pos crlf ?buf = length (disposition g)"
    unfolding buf using find_crlf [OF d(2), of ?rest] by (simp only: crlf_def append.simps)
  have "entry_headers hc (find_pos crlf ?buf) (parser_at B 2 (clear_file_info f) ?buf) a =
      entry_headers hc (find_pos crlf ?rest) (parser_at B 2 ?f1 ?rest) a"
    unfolding buf entry_headers_line [OF d] entry_header_disposition [OF q] ..
  also have "\<dots> = (True, parser_at B 3 (g\<lparr>fd_content := []\<rparr>) r, a')"
  proof (cases "fd_content_type g = []")
    case True
    then have "?f1 = g\<lparr>fd_content := []\<rparr>" using assms(2) by (simp add: clear_file_info_def)
    moreover have "?rest = crlf @ r" using True by simp
    ultimately show ?thesis using entry_headers_end [of hc, OF assms(3), of r B] by (simp only:)
  next
    case False
    let ?line = "''Content-Type: '' @ fd_content_type g"
    have line: "?line \<noteq> []" "CR \<notin> set ?line" using ok by simp_all
    have "entry_header ?line ?f1 = g\<lparr>fd_content := []\<rparr>"
      using assms(2) ok by (subst entry_header_type) (simp_all add: clear_file_info_def)
    moreover have "?rest = ?line @ crlf @ crlf @ r" using False by simp
    ultimately show ?thesis
      using entry_headers_line [OF line, of hc "crlf @ r" B ?f1 a] entry_headers_end [of hc, OF assms(3), of r B] by (simp only:)
  qed
  finally have "entry_headers hc (length (disposition g)) (parser_at B 2 (clear_file_info f) ?buf) a =
      (True, parser_at B 3 (g\<lparr>fd_content := []\<rparr>) r, a')" by (simp only: pos)
  moreover have "length (disposition g) \<le> HEADER_MAX_LENGTH" using ok by blast
  ultimately show ?thesis using pos by (simp add: parse_turn_def Let_def buf_find_def)
qed

lemma mm_insert_split:
  "mm_insert lt k v m = takeWhile (\<lambda>e. \<not> lt k (fst e)) m @ (k, v) # dropWhile (\<lambda>e. \<not> lt k (fst e)) m"
  by (induction m) auto

lemma add_file_content:
  assumes "add_file (g\<lparr>fd_content := []\<rparr>) (files, cur) = (True, a)"
  shows "\<exists>cur'. add_content (fd_content g) a = (True, mm_insert (<) (fd_name g) g files, cur')"
  using assms
  by (auto simp: add_file_def add_content_def mm_insert_split nth_append list_update_append)

lemma add_content_append:
  assumes "snd a < length (fst a)"
  shows "add_content (s @ t) a = add_content t (snd (add_content s a))"
  using assms by (cases a) (simp add: add_content_def split_beta)

lemma add_file_cur: "add_file g a = (True, b) \<Longrightarrow> snd b < length (fst b)"
  by (cases a) (auto simp: add_file_def mm_insert_split)

lemma turn_body_found:
  assumes "find_pos (crlf @ dash) buf = pos" "length (crlf @ dash) \<le> length buf" "take pos buf = c1"
    "drop pos buf = c2 @ pattern @ r" "pattern = crlf @ dash @ B" "find_pos pattern (c2 @ pattern @ r) = length c2"
    "cc c1 a = (True, b)" "cc c2 b = (True, b')"
  shows "parse_turn cc hc (parser_at B 3 f buf) a = (None, parser_at B 4 f r, b')"
proof -
  have "crlf \<noteq> []" by (simp add: crlf_def)
  moreover have "pattern \<noteq> []" "length pattern = length crlf + (length dash + length B)" by (simp_all add: assms(5) crlf_def)
  ultimately show ?thesis
    using assms(1-4,6-) by (simp add: parse_turn_def Let_def buffer_defs not_less [symmetric] assms(5) [symmetric] del: append_assoc)
qed

lemma turn_body:
  assumes "CR \<notin> set B" "\<not> sublist (crlf @ dash @ B) c" "snd a < length (fst a)"
  shows "parse_turn add_content hc (parser_at B 3 f (c @ crlf @ dash @ B @ r)) a =
    (None, parser_at B 4 f r, snd (add_content c a))"
proof -
  let ?buf = "c @ crlf @ dash @ B @ r"
  let ?pos = "find_pos (crlf @ dash) ?buf"
  let ?c1 = "take ?pos c" let ?c2 = "drop ?pos c"
  have le: "?pos \<le> length c" using find_pos_le [of "crlf @ dash" c "B @ r"] by (simp add: crlf_def)
  have drop: "drop ?pos ?buf = ?c2 @ (crlf @ dash @ B) @ r" and take: "take ?pos ?buf = ?c1" using le by simp_all
  have "\<not> sublist (crlf @ dash @ B) ?c2" using assms(2) by (metis sublist_drop sublist_order.order.trans)
  then have pos2: "find_pos (crlf @ dash @ B) (?c2 @ (crlf @ dash @ B) @ r) = length ?c2"
    using find_pos_first [of "LF # dash @ B" ?c2 r] assms(1) by (simp add: crlf_def dash_def)
  obtain b where b: "add_content ?c1 a = (True, b)" by (cases a) (simp add: add_content_def split_beta)
  obtain b' where b': "add_content ?c2 b = (True, b')" by (cases b) (simp add: add_content_def split_beta)
  have "snd (add_content c a) = b'"
    using add_content_append [OF assms(3), of ?c1 ?c2] b b' by simp
  moreover have "length (crlf @ dash) \<le> length ?buf" by simp
  ultimately show ?thesis
    using turn_body_found [OF refl _ take drop refl pos2 b b'] by simp
qed


section \<open>A whole form\<close>

lemma parse_loop_step:
  "\<lbrakk>parse_turn cc hc p a = (None, p', a'); mp_buf p \<noteq> []\<rbrakk> \<Longrightarrow> parse_loop cc hc p a = parse_loop cc hc p' a'"
  by (subst parse_loop.simps) (simp add: buf_size_def)

lemma crlf_not_nil: "crlf @ s \<noteq> []" and dash_not_nil: "dash @ s \<noteq> []"
  by (simp_all add: crlf_def dash_def)

lemma turn_boundary:
  "parse_turn cc hc (parser_at B 0 f (dash @ B @ crlf @ r)) a = (None, parser_at B 1 f r, a)"
  by (simp add: parse_turn_def Let_def buffer_defs)

lemma turn_new: "parse_turn cc hc (parser_at B 1 f r) a = (None, parser_at B 2 (clear_file_info f) r, a)"
  by (simp add: parse_turn_def)

lemma turn_next: "parse_turn cc hc (parser_at B 4 f (crlf @ r)) a = (None, parser_at B 1 f r, a)"
  by (simp add: parse_turn_def buffer_defs)

lemma turn_last:
  "parse_turn cc hc (parser_at B 4 f (dash @ crlf)) a = (None, (parser_at B 5 f [])\<lparr>mp_is_valid := True\<rparr>, a)"
  by (simp add: parse_turn_def buffer_defs crlf_def dash_def)

lemma parse_part:
  assumes "CR \<notin> set B" "sendable_part B g" "fd_content f = []"
  shows "\<exists>cur'. parse_loop add_content add_file (parser_at B 1 f (part_text g @ crlf @ dash @ B @ r)) (files, cur) =
    parse_loop add_content add_file (parser_at B 4 (g\<lparr>fd_content := []\<rparr>) r) (mm_insert (<) (fd_name g) g files, cur')"
proof -
  let ?loop = "parse_loop add_content add_file"
  let ?body = "fd_content g @ crlf @ dash @ B @ r"
  let ?text = "part_headers g @ ?body"
  obtain a where a: "add_file (g\<lparr>fd_content := []\<rparr>) (files, cur) = (True, a)" by (simp add: add_file_def)
  obtain cur' where c: "add_content (fd_content g) a = (True, mm_insert (<) (fd_name g) g files, cur')"
    using add_file_content [OF a] by blast
  have s: "\<not> sublist (crlf @ dash @ B) (fd_content g)" using assms(2) unfolding sendable_part_def by blast
  have ne: "?text \<noteq> []" by (simp add: part_headers_def disposition_def)
  have "?loop (parser_at B 1 f ?text) (files, cur) = ?loop (parser_at B 2 (clear_file_info f) ?text) (files, cur)"
    using turn_new ne by (intro parse_loop_step) simp_all
  also have "\<dots> = ?loop (parser_at B 3 (g\<lparr>fd_content := []\<rparr>) ?body) a"
    by (rule parse_loop_step [OF turn_headers [of B g f add_file, OF assms(2,3) a]]) (use ne in simp)
  also have "\<dots> = ?loop (parser_at B 4 (g\<lparr>fd_content := []\<rparr>) r) (snd (add_content (fd_content g) a))"
    by (rule parse_loop_step [OF turn_body [OF assms(1) s add_file_cur [OF a]]]) (simp add: crlf_def)
  finally show ?thesis unfolding c part_text_headers by auto
qed

lemma parse_parts:
  assumes "CR \<notin> set B" "\<forall>g\<in>set fs. sendable_part B g" "fd_content f = []"
  shows "\<exists>f' cur'. parse_loop add_content add_file
      (parser_at B 4 f (concat (map (\<lambda>g. crlf @ part_text g @ crlf @ dash @ B) fs) @ dash @ crlf)) (files, cur) =
    (True, (parser_at B 5 f' [])\<lparr>mp_is_valid := True\<rparr>, fold (\<lambda>g. mm_insert (<) (fd_name g) g) fs files, cur')"
  using assms(2,3)
proof (induction fs arbitrary: f files cur)
  case Nil
  have "parse_loop add_content add_file (parser_at B 4 f (dash @ crlf)) (files, cur) =
      (True, (parser_at B 5 f [])\<lparr>mp_is_valid := True\<rparr>, files, cur)"
    by (subst parse_loop_step [OF turn_last]) (simp add: dash_def, subst parse_loop.simps, simp add: buf_size_def)
  then show ?case by auto
next
  case (Cons g fs)
  let ?r = "concat (map (\<lambda>g. crlf @ part_text g @ crlf @ dash @ B) fs) @ dash @ crlf"
  have "parse_loop add_content add_file (parser_at B 4 f (crlf @ part_text g @ crlf @ dash @ B @ ?r)) (files, cur) =
      parse_loop add_content add_file (parser_at B 1 f (part_text g @ crlf @ dash @ B @ ?r)) (files, cur)"
    by (rule parse_loop_step [OF turn_next]) (simp add: crlf_def)
  moreover obtain cur' where "parse_loop add_content add_file (parser_at B 1 f (part_text g @ crlf @ dash @ B @ ?r)) (files, cur) =
      parse_loop add_content add_file (parser_at B 4 (g\<lparr>fd_content := []\<rparr>) ?r) (mm_insert (<) (fd_name g) g files, cur')"
    using parse_part [OF assms(1) _ Cons.prems(2), of g ?r files cur] Cons.prems(1) by auto
  moreover have "\<exists>f' cur''. parse_loop add_content add_file (parser_at B 4 (g\<lparr>fd_content := []\<rparr>) ?r) (mm_insert (<) (fd_name g) g files, cur') =
      (True, (parser_at B 5 f' [])\<lparr>mp_is_valid := True\<rparr>, fold (\<lambda>g. mm_insert (<) (fd_name g) g) fs (mm_insert (<) (fd_name g) g files), cur'')"
    using Cons.prems by (intro Cons.IH) simp_all
  ultimately show ?case by (simp del: mm_insert.simps)
qed

text \<open>C29:
  A form with at least one part that arrives in one piece is accepted and complete, and the files of the request are its
  parts with their names, file names, types and contents, in the order of the multimap, provided that the boundary
  does not occur in a content and the names have no quote and no line end.
\<close>

theorem form_roundtrip:
  assumes "fs \<noteq> []" "CR \<notin> set boundary" "\<forall>g\<in>set fs. sendable_part boundary g"
  shows "\<exists>p cur. form_parse (form_text boundary fs) (new_multipart_parser boundary, [], 0) =
      (True, p, fold (\<lambda>g. mm_insert (<) (fd_name g) g) fs [], cur) \<and> mp_is_valid p \<and> mp_buf p = []"
proof -
  obtain g gs where fs: "fs = g # gs" using assms(1) by (cases fs) auto
  let ?f = "\<lparr>fd_name = [], fd_content = [], fd_filename = [], fd_content_type = []\<rparr>"
  let ?r = "concat (map (\<lambda>g. crlf @ part_text g @ crlf @ dash @ boundary) gs) @ dash @ crlf"
  let ?text = "part_text g @ crlf @ dash @ boundary @ ?r"
  have "form_parse (form_text boundary fs) (new_multipart_parser boundary, [], 0) =
      parse_loop add_content add_file (parser_at boundary 0 ?f (dash @ boundary @ crlf @ ?text)) ([], 0)"
    by (simp add: form_parse_def mp_parse_def new_multipart_parser_def buf_append_def form_text_def fs)
  also have "\<dots> = parse_loop add_content add_file (parser_at boundary 1 ?f ?text) ([], 0)"
    by (rule parse_loop_step [OF turn_boundary]) (simp add: dash_def)
  finally have start: "form_parse (form_text boundary fs) (new_multipart_parser boundary, [], 0) = \<dots>" .
  obtain cur where "parse_loop add_content add_file (parser_at boundary 1 ?f ?text) ([], 0) =
      parse_loop add_content add_file (parser_at boundary 4 (g\<lparr>fd_content := []\<rparr>) ?r) (mm_insert (<) (fd_name g) g [], cur)"
    using parse_part [of boundary g ?f ?r "[]" 0] assms by (auto simp: fs)
  moreover obtain f' cur' where "parse_loop add_content add_file (parser_at boundary 4 (g\<lparr>fd_content := []\<rparr>) ?r) (mm_insert (<) (fd_name g) g [], cur) =
      (True, (parser_at boundary 5 f' [])\<lparr>mp_is_valid := True\<rparr>, fold (\<lambda>g. mm_insert (<) (fd_name g) g) gs (mm_insert (<) (fd_name g) g []), cur')"
    using parse_parts [of boundary gs "g\<lparr>fd_content := []\<rparr>" "mm_insert (<) (fd_name g) g []" cur] assms by (auto simp: fs)
  ultimately show ?thesis using start by (auto simp: fs)
qed

theorem form_roundtrip_witness:
  "\<exists>p cur. form_parse (form_text ''XyZ'' [\<lparr>fd_name = ''b'', fd_content = [CR, LF] @ ''--X'', fd_filename = ''f.txt'', fd_content_type = ''text/plain''\<rparr>,
        \<lparr>fd_name = ''a'', fd_content = [], fd_filename = [], fd_content_type = []\<rparr>]) (new_multipart_parser ''XyZ'', [], 0) =
      (True, p, [(''a'', \<lparr>fd_name = ''a'', fd_content = [], fd_filename = [], fd_content_type = []\<rparr>),
         (''b'', \<lparr>fd_name = ''b'', fd_content = [CR, LF] @ ''--X'', fd_filename = ''f.txt'', fd_content_type = ''text/plain''\<rparr>)], cur) \<and>
      mp_is_valid p \<and> mp_buf p = []"
proof -
  let ?g = "\<lparr>fd_name = ''b'', fd_content = [CR, LF] @ ''--X'', fd_filename = ''f.txt'', fd_content_type = ''text/plain''\<rparr>"
  let ?h = "\<lparr>fd_name = ''a'', fd_content = [], fd_filename = [], fd_content_type = []\<rparr>"
  have p: "sendable_part ''XyZ'' ?g" "sendable_part ''XyZ'' ?h" by code_simp+
  have i: "fold (\<lambda>g. mm_insert (<) (fd_name g) g) [?g, ?h] [] = [(''a'', ?h), (''b'', ?g)]" by code_simp
  have "[?g, ?h] \<noteq> []" "CR \<notin> set ''XyZ''" "\<forall>g\<in>set [?g, ?h]. sendable_part ''XyZ'' g" using p by simp_all
  from form_roundtrip [OF this] show ?thesis unfolding i .
qed


text \<open>In two pieces that meet inside a delimiter the same form is not complete: its end is taken for content.\<close>

definition split_form :: string where
  "split_form = form_text ''B'' [\<lparr>fd_name = ''a'', fd_content = ''xy'', fd_filename = [], fd_content_type = []\<rparr>]"

lemma split_form_rejected:
  "case form_parse (take 53 split_form) (new_multipart_parser ''B'', [], 0) of (ok, s) \<Rightarrow>
     ok \<and> (case form_parse (drop 53 split_form) s of (ok, p, files, cur) \<Rightarrow>
       ok \<and> \<not> mp_is_valid p \<and> map (fd_content \<circ> snd) files = [''xy'' @ crlf @ ''--B--'' @ crlf] )"
  by code_simp

end
