(* ===== verification/Can_Length.thy ===== *)
theory Can_Length
  imports Can_Frame
begin

text \<open>
  The length of a frame on the bus, from \<^verbatim>\<open>libs/can-utils/canframelen.c\<close>: the
  table-driven CRC-15, the bitmap of the frame, the search for stuff bits and the three modes of
  \<open>can_frame_length\<close>.  Accesses to the 16 byte bitmap are checked: \<open>None\<close> is an access
  outside it, and also a search for stuff bits that never ends.

  The reference is the CAN standard's own formulation: the frame as a sequence of bits
  (\<open>frame_bits\<close>), the bit-serial CRC register (\<open>crc15\<close>) and bit stuffing one bit at a
  time (\<open>stuff_count\<close>).
\<close>

unbundle bit_operations_syntax

section \<open>The CRC\<close>

type_synonym crc_t = u16

definition crc_table :: "crc_t list" where
  "crc_table =
     [0x0000, 0x4599, 0x4eab, 0x0b32, 0x58cf, 0x1d56, 0x1664, 0x53fd, 0x7407, 0x319e, 0x3aac, 0x7f35,
      0x2cc8, 0x6951, 0x6263, 0x27fa, 0x2d97, 0x680e, 0x633c, 0x26a5, 0x7558, 0x30c1, 0x3bf3, 0x7e6a,
      0x5990, 0x1c09, 0x173b, 0x52a2, 0x015f, 0x44c6, 0x4ff4, 0x0a6d, 0x5b2e, 0x1eb7, 0x1585, 0x501c,
      0x03e1, 0x4678, 0x4d4a, 0x08d3, 0x2f29, 0x6ab0, 0x6182, 0x241b, 0x77e6, 0x327f, 0x394d, 0x7cd4,
      0x76b9, 0x3320, 0x3812, 0x7d8b, 0x2e76, 0x6bef, 0x60dd, 0x2544, 0x02be, 0x4727, 0x4c15, 0x098c,
      0x5a71, 0x1fe8, 0x14da, 0x5143, 0x73c5, 0x365c, 0x3d6e, 0x78f7, 0x2b0a, 0x6e93, 0x65a1, 0x2038,
      0x07c2, 0x425b, 0x4969, 0x0cf0, 0x5f0d, 0x1a94, 0x11a6, 0x543f, 0x5e52, 0x1bcb, 0x10f9, 0x5560,
      0x069d, 0x4304, 0x4836, 0x0daf, 0x2a55, 0x6fcc, 0x64fe, 0x2167, 0x729a, 0x3703, 0x3c31, 0x79a8,
      0x28eb, 0x6d72, 0x6640, 0x23d9, 0x7024, 0x35bd, 0x3e8f, 0x7b16, 0x5cec, 0x1975, 0x1247, 0x57de,
      0x0423, 0x41ba, 0x4a88, 0x0f11, 0x057c, 0x40e5, 0x4bd7, 0x0e4e, 0x5db3, 0x182a, 0x1318, 0x5681,
      0x717b, 0x34e2, 0x3fd0, 0x7a49, 0x29b4, 0x6c2d, 0x671f, 0x2286, 0x2213, 0x678a, 0x6cb8, 0x2921,
      0x7adc, 0x3f45, 0x3477, 0x71ee, 0x5614, 0x138d, 0x18bf, 0x5d26, 0x0edb, 0x4b42, 0x4070, 0x05e9,
      0x0f84, 0x4a1d, 0x412f, 0x04b6, 0x574b, 0x12d2, 0x19e0, 0x5c79, 0x7b83, 0x3e1a, 0x3528, 0x70b1,
      0x234c, 0x66d5, 0x6de7, 0x287e, 0x793d, 0x3ca4, 0x3796, 0x720f, 0x21f2, 0x646b, 0x6f59, 0x2ac0,
      0x0d3a, 0x48a3, 0x4391, 0x0608, 0x55f5, 0x106c, 0x1b5e, 0x5ec7, 0x54aa, 0x1133, 0x1a01, 0x5f98,
      0x0c65, 0x49fc, 0x42ce, 0x0757, 0x20ad, 0x6534, 0x6e06, 0x2b9f, 0x7862, 0x3dfb, 0x36c9, 0x7350,
      0x51d6, 0x144f, 0x1f7d, 0x5ae4, 0x0919, 0x4c80, 0x47b2, 0x022b, 0x25d1, 0x6048, 0x6b7a, 0x2ee3,
      0x7d1e, 0x3887, 0x33b5, 0x762c, 0x7c41, 0x39d8, 0x32ea, 0x7773, 0x248e, 0x6117, 0x6a25, 0x2fbc,
      0x0846, 0x4ddf, 0x46ed, 0x0374, 0x5089, 0x1510, 0x1e22, 0x5bbb, 0x0af8, 0x4f61, 0x4453, 0x01ca,
      0x5237, 0x17ae, 0x1c9c, 0x5905, 0x7eff, 0x3b66, 0x3054, 0x75cd, 0x2630, 0x63a9, 0x689b, 0x2d02,
      0x276f, 0x62f6, 0x69c4, 0x2c5d, 0x7fa0, 0x3a39, 0x310b, 0x7492, 0x5368, 0x16f1, 0x1dc3, 0x585a,
      0x0ba7, 0x4e3e, 0x450c, 0x0095]"

fun crc_update_bytewise :: "crc_t \<Rightarrow> u8 list \<Rightarrow> crc_t" where
  "crc_update_bytewise crc [] = crc AND 0x7fff"
| "crc_update_bytewise crc (d # data) =
     (let tbl_idx = unat ((drop_bit 7 crc XOR ucast d) AND 0xff) in
      crc_update_bytewise ((crc_table ! tbl_idx XOR push_bit 8 crc) AND 0x7fff) data)"

fun crc_bit_loop :: "crc_t \<Rightarrow> u8 \<Rightarrow> u8 \<Rightarrow> nat \<Rightarrow> crc_t" where
  "crc_bit_loop crc data i 0 = crc AND 0x7fff"
| "crc_bit_loop crc data i (Suc bits) =
     (let b = (crc AND 0x4000 \<noteq> 0);
          b = (if data AND i \<noteq> 0 then \<not> b else b);
          crc = push_bit 1 crc;
          crc = (if b then crc XOR 0x4599 else crc)
      in crc_bit_loop crc data (drop_bit 1 i) bits)"

definition crc_update_bitwise :: "crc_t \<Rightarrow> u8 \<Rightarrow> nat \<Rightarrow> crc_t" where
  "crc_update_bitwise crc data bits = crc_bit_loop crc data 0x80 bits"

text \<open>Reading \<open>n\<close> bytes at an index, and writing bytes at an index.\<close>

definition rd_bytes :: "u8 list \<Rightarrow> nat \<Rightarrow> nat \<Rightarrow> u8 list option" where
  "rd_bytes buf i n = (if i + n \<le> length buf then Some (take n (drop i buf)) else None)"

definition wr_bytes :: "u8 list \<Rightarrow> nat \<Rightarrow> u8 list \<Rightarrow> u8 list option" where
  "wr_bytes buf i bs = (if i + length bs \<le> length buf then Some (overwrite i bs buf) else None)"

definition calc_bitmap_crc :: "u8 list \<Rightarrow> nat \<Rightarrow> nat \<Rightarrow> crc_t option" where
  "calc_bitmap_crc bitmap start end = do {
     (crc, start) \<leftarrow>
       (if start mod 8 \<noteq> 0 then do {
          b \<leftarrow> rd bitmap (start div 8);
          Some (crc_update_bitwise 0 (push_bit (start mod 8) b) (8 - start mod 8),
                start + (8 - start mod 8))
        } else Some (0, start));
     bs \<leftarrow> rd_bytes bitmap (start div 8) (unat (of_nat end - of_nat start :: u32) div 8);
     b \<leftarrow> rd bitmap (end div 8);
     Some (crc_update_bitwise (crc_update_bytewise crc bs) b (end mod 8))
   }"

section \<open>Stuff bits\<close>

text \<open>The leading zeros of a 5 bit number.\<close>

definition clz :: "nat list" where
  "clz = [5, 4, 3, 3, 2, 2, 2, 2, 1, 1, 1, 1, 1, 1, 1, 1,
          0, 0, 0, 0, 0, 0, 0, 0, 0, 0, 0, 0, 0, 0, 0, 0]"

partial_function (option) count_stuffed ::
    "u8 list \<Rightarrow> nat \<Rightarrow> u32 \<Rightarrow> u32 \<Rightarrow> nat \<Rightarrow> nat \<Rightarrow> nat option" where
  "count_stuffed bitmap end msk lookfor i stuffed =
     (if i < end then do {
        b0 \<leftarrow> rd bitmap (i div 8);
        b1 \<leftarrow> rd bitmap (i div 8 + 1);
        let bits = drop_bit (16 - 5 - i mod 8) (push_bit 8 (ucast b0) OR ucast b1);
            lookfor = (if lookfor \<noteq> 0 then 0 else msk);
            change = (bits AND msk) XOR lookfor
        in if change \<noteq> 0
           then count_stuffed bitmap end 0x1f lookfor (i + clz ! unat change) stuffed
           else
             let i = i + (if msk = 0x1f then 5 else 4) in
             if i \<le> end then count_stuffed bitmap end 0x1e lookfor i (Suc stuffed)
             else count_stuffed bitmap end msk lookfor i stuffed
      } else Some stuffed)"

declare count_stuffed.simps [code]

section \<open>The exact length\<close>

text \<open>The bytes in front of the data, for an extended and a base frame.\<close>

definition eff_header :: "canfd_frame \<Rightarrow> u8 list" where
  "eff_header frame =
     (let cid = can_id frame in
      [ucast (drop_bit 23 (cid AND CAN_EFF_MASK)),
       ucast (push_bit 3 (drop_bit 18 cid AND 0x3f) OR push_bit 1 3 OR (drop_bit 17 cid AND 0x01)),
       ucast (drop_bit 9 cid AND 0xff),
       ucast (drop_bit 1 cid AND 0xff),
       ucast (push_bit 7 (cid AND 0x1) OR push_bit 6 (if cid AND CAN_RTR_FLAG \<noteq> 0 then 1 else 0) OR
              push_bit 4 0 OR ucast (fr_len frame AND 0xf))])"

definition sff_header :: "canfd_frame \<Rightarrow> u8 list" where
  "sff_header frame =
     (let cid = can_id frame in
      [ucast (drop_bit 9 (cid AND CAN_SFF_MASK)),
       ucast (drop_bit 1 cid AND 0xff),
       ucast ((push_bit 7 cid AND 0xff) OR push_bit 6 (if cid AND CAN_RTR_FLAG \<noteq> 0 then 1 else 0) OR
              push_bit 4 0 OR ucast (fr_len frame AND 0xf))])"

definition cfl_exact :: "canfd_frame \<Rightarrow> nat option" where
  "cfl_exact frame =
     (let bitmap = replicate 16 0; n = unat (fr_len frame);
          (hdr, start, end) =
            (if can_id frame AND CAN_EFF_FLAG \<noteq> 0 then (eff_header frame, 1, 40 + 8 * n)
             else (sff_header frame, 5, 24 + 8 * n))
      in do {
        bitmap \<leftarrow> wr_bytes bitmap 0 hdr;
        bytes \<leftarrow> rd_bytes (fr_data frame) 0 n;
        bitmap \<leftarrow> wr_bytes bitmap (length hdr) bytes;
        crc \<leftarrow> calc_bitmap_crc bitmap start end;
        let crc_be = push_bit 1 crc;
        bitmap \<leftarrow> wr_bytes bitmap (end div 8) [ucast (drop_bit 8 crc_be), ucast crc_be];
        let end = end + 15;
        stuffed \<leftarrow> count_stuffed bitmap end 0x1f 0 start 0;
        Some (end - start + stuffed + 3 + 7 + 3)
      })"

section \<open>The length by mode\<close>

datatype cfl_mode = CFL_NO_BITSTUFFING | CFL_WORSTCASE | CFL_EXACT

abbreviation (input) CANFD_BRS :: u8 where "CANFD_BRS \<equiv> 0x01"

definition dbitrate_unstuffed :: "canfd_frame \<Rightarrow> nat" where
  "dbitrate_unstuffed frame =
     1 + 1 + 4 + (if unat (fr_len frame) \<ge> 16 then 21 else 17) + unat (fr_len frame) * 8"

definition can_frame_dbitrate_length :: "canfd_frame \<Rightarrow> cfl_mode \<Rightarrow> int \<Rightarrow> nat" where
  "can_frame_dbitrate_length frame mode mtu =
     (if mtu \<noteq> CANFD_MTU \<or> fr_flags frame AND CANFD_BRS = 0 then 0
      else (case mode of
              CFL_NO_BITSTUFFING \<Rightarrow> dbitrate_unstuffed frame
            | CFL_WORSTCASE \<Rightarrow> dbitrate_unstuffed frame * 5 div 4
            | CFL_EXACT \<Rightarrow> 0))"

definition fd_unstuffed :: "canfd_frame \<Rightarrow> nat" where
  "fd_unstuffed frame =
     1 + (if can_id frame AND CAN_EFF_FLAG \<noteq> 0 then 29 else 11) +
     (if unat (fr_len frame) \<ge> 16 then 21 else 17) + 5 + 12 + unat (fr_len frame) * 8"

definition can_frame_length :: "canfd_frame \<Rightarrow> cfl_mode \<Rightarrow> int \<Rightarrow> nat option" where
  "can_frame_length frame mode mtu =
     (let eff = (can_id frame AND CAN_EFF_FLAG \<noteq> 0); len = unat (fr_len frame) in
      if mtu = CANFD_MTU then
        (case mode of
           CFL_NO_BITSTUFFING \<Rightarrow> Some (fd_unstuffed frame)
         | CFL_WORSTCASE \<Rightarrow> Some (fd_unstuffed frame * 5 div 4)
         | CFL_EXACT \<Rightarrow> Some 0)
      else if mtu \<noteq> CAN_MTU then Some 0
      else
        (case mode of
           CFL_NO_BITSTUFFING \<Rightarrow> Some ((if eff then 67 else 47) + len * 8)
         | CFL_WORSTCASE \<Rightarrow> Some ((if eff then 80 else 55) + len * 10)
         | CFL_EXACT \<Rightarrow> cfl_exact frame))"

section \<open>The standard's formulation\<close>

text \<open>The register of the bit-serial CRC, 15 bits wide.\<close>

definition crc15_step :: "crc_t \<Rightarrow> bool \<Rightarrow> crc_t" where
  "crc15_step crc b =
     take_bit 15 (if bit crc 14 \<noteq> b then push_bit 1 crc XOR 0x4599 else push_bit 1 crc)"

definition crc15 :: "bool list \<Rightarrow> crc_t" where
  "crc15 bs = foldl crc15_step 0 bs"

text \<open>
  Bit stuffing: after five equal bits the transmitter inserts the complement, which starts the
  next run.  \<open>prev\<close> and \<open>run\<close> are the last bit on the bus and how often it has been seen.
\<close>

fun stuff_count :: "bool \<Rightarrow> nat \<Rightarrow> bool list \<Rightarrow> nat" where
  "stuff_count prev run [] = 0"
| "stuff_count prev run (b # bs) =
     (let run = (if b = prev then Suc run else 1) in
      if run = 5 then Suc (stuff_count (\<not> b) 1 bs) else stuff_count b run bs)"

text \<open>The frame from the start bit to the last data bit, most significant bits first.\<close>

definition msb_bits :: "nat \<Rightarrow> 'w::len word \<Rightarrow> bool list" where
  "msb_bits n w = map (bit w) (rev [0..<n])"

definition frame_bits :: "canfd_frame \<Rightarrow> bool list" where
  "frame_bits frame =
     (let cid = can_id frame; rtr = bit cid 30 in
      [False] @
      (if bit cid 31
       then msb_bits 11 (drop_bit 18 cid) @ [True, True] @ msb_bits 18 cid @ [rtr, False, False]
       else msb_bits 11 cid @ [rtr, False, False]) @
      msb_bits 4 (fr_len frame) @
      concat (map (msb_bits 8) (take (unat (fr_len frame)) (fr_data frame))))"

definition bus_bits :: "canfd_frame \<Rightarrow> bool list" where
  "bus_bits frame = frame_bits frame @ msb_bits 15 (crc15 (frame_bits frame))"

end
