(* ===== verification/Can_Length_Props.thy ===== *)
theory Can_Length_Props
  imports Can_Length
begin

text \<open>
  The table-driven CRC is the bit-serial CRC, the windowed search for stuff bits is stuffing one
  bit at a time, and so the exact length of a classic frame is the number of its bits on the bus,
  between the unstuffed length and the worst case.
\<close>

unbundle bit_operations_syntax

section \<open>The table, by nibbles\<close>

definition crc_byte :: "crc_t \<Rightarrow> u8 \<Rightarrow> crc_t" where
  "crc_byte c d = foldl crc15_step c (msb_bits 8 d)"

text \<open>
  The CRC is linear, so the table is determined by the entries of the low and of the high
  nibble.
\<close>

definition crc_lo :: "crc_t list" where
  "crc_lo = [0x0000, 0x4599, 0x4eab, 0x0b32, 0x58cf, 0x1d56, 0x1664, 0x53fd, 0x7407, 0x319e, 0x3aac, 0x7f35, 0x2cc8, 0x6951, 0x6263, 0x27fa]"

definition crc_hi :: "crc_t list" where
  "crc_hi = [0x0000, 0x2d97, 0x5b2e, 0x76b9, 0x73c5, 0x5e52, 0x28eb, 0x057c, 0x2213, 0x0f84, 0x793d, 0x54aa, 0x51d6, 0x7c41, 0x0af8, 0x276f]"

lemma crc_table_split: "crc_table = concat (map (\<lambda>h. map (\<lambda>l. h XOR l) crc_lo) crc_hi)"
  by (simp add: crc_table_def crc_lo_def crc_hi_def)

lemma msb_bits_8: "msb_bits 8 d = [bit d 7, bit d 6, bit d 5, bit d 4, bit d 3, bit d 2, bit d 1, bit d 0]"
  by (simp add: msb_bits_def upt_rec) (simp add: numeral_eq_Suc)

lemmas crc_byte_eval = crc_byte_def msb_bits_8 crc15_step_def

definition nibbles :: "u8 list" where
  "nibbles = [0, 1, 2, 3, 4, 5, 6, 7, 8, 9, 10, 11, 12, 13, 14, 15]"

lemma crc_lo_eq: "crc_lo = map (crc_byte 0) nibbles"
  by (simp add: crc_lo_def nibbles_def crc_byte_eval)

text \<open>
  The remaining entries are sums the register keeps at zero; each is a function of the nibble,
  evaluated at the sixteen values.
\<close>

definition crc_hi_sum :: "u8 \<Rightarrow> crc_t" where
  "crc_hi_sum x = crc_byte 0 (push_bit 4 x)"

definition shift_lo_sum :: "u8 \<Rightarrow> crc_t" where
  "shift_lo_sum x = crc_byte (push_bit 7 (ucast x)) x"

definition shift_hi_sum :: "u8 \<Rightarrow> crc_t" where
  "shift_hi_sum x = crc_byte (push_bit 11 (ucast x)) (push_bit 4 x)"

definition zero_lo_sum :: "u8 \<Rightarrow> crc_t" where
  "zero_lo_sum x = crc_byte (ucast x) 0 XOR push_bit 8 (ucast x)"

definition zero_hi_sum :: "u8 \<Rightarrow> crc_t" where
  "zero_hi_sum x = crc_byte (push_bit 4 (ucast x)) 0 XOR push_bit 12 (ucast x)"

lemma crc_hi_eq: "crc_hi = map crc_hi_sum nibbles"
  by (simp add: crc_hi_def nibbles_def crc_hi_sum_def crc_byte_eval)

lemma replicate_zeros:
  "replicate 16 (0 :: crc_t) = [0, 0, 0, 0, 0, 0, 0, 0, 0, 0, 0, 0, 0, 0, 0, 0]"
  "replicate 8 (0 :: crc_t) = [0, 0, 0, 0, 0, 0, 0, 0]"
  by (simp_all add: numeral_eq_Suc)

lemmas crc_sum_eval = replicate_zeros nibbles_def crc_byte_eval

lemma crc_sums:
  "map shift_lo_sum nibbles = replicate 16 0"
  "map shift_hi_sum nibbles = replicate 16 0"
  "map zero_lo_sum nibbles = replicate 16 0"
  "map zero_hi_sum (take 8 nibbles) = replicate 8 0"
  by (simp add: shift_lo_sum_def crc_sum_eval)
    (simp add: shift_hi_sum_def crc_sum_eval, simp add: zero_lo_sum_def crc_sum_eval,
     simp add: zero_hi_sum_def crc_sum_eval)

lemma length_nibbles: "length nibbles = 16"
  by (simp add: nibbles_def)

lemma nibbles_nth: "unat x < 16 \<Longrightarrow> nibbles ! unat x = x"
proof -
  assume "unat x < 16"
  moreover have "list_all (\<lambda>n. nibbles ! n = of_nat n) [0..<16]" by code_simp
  ultimately have "nibbles ! unat x = of_nat (unat x)" by (simp add: list_all_iff)
  then show ?thesis by simp
qed

lemma nibble_sum:
  assumes "map f (take n nibbles) = replicate n 0" "n \<le> 16" "unat x < n"
  shows "f x = (0 :: crc_t)"
proof -
  have "map f (take n nibbles) ! unat x = f (nibbles ! unat x)"
    using assms(2,3) by (simp add: nibbles_def)
  then show ?thesis using assms nibbles_nth [of x] by simp
qed

declare push_bit_Suc [simp del] drop_bit_Suc [simp del] One_nat_def [simp del]

section \<open>The bitwise CRC\<close>

lemma and_7fff: "(c :: u16) AND 0x7fff = take_bit 15 c"
  by (simp add: take_bit_eq_mask mask_eq_decr_exp)

lemma and_4000: "(c :: u16) AND 0x4000 \<noteq> 0 \<longleftrightarrow> bit c 14"
  using and_exp_eq_0_iff_not_bit [of c 14] by simp

lemma take_bit_push: "take_bit 15 (push_bit 1 (take_bit 15 c)) = take_bit 15 (push_bit 1 (c :: u16))"
  by (rule bit_word_eqI) (auto simp: bit_take_bit_iff bit_push_bit_iff)

lemma crc15_step_take_bit:
  "crc15_step (take_bit 15 c) b = take_bit 15 (if bit c 14 \<noteq> b then push_bit 1 c XOR 0x4599 else push_bit 1 c)"
  by (simp add: crc15_step_def bit_take_bit_iff take_bit_xor take_bit_push)

lemma crc15_step_15 [simp]: "take_bit 15 (crc15_step c b) = crc15_step c b"
  by (simp add: crc15_step_def)

lemma crc15_fold_15: "take_bit 15 c = c \<Longrightarrow> take_bit 15 (foldl crc15_step c bs) = foldl crc15_step c bs"
  by (induction bs arbitrary: c) simp_all

lemma rev_upt_Cons: "n \<le> k \<Longrightarrow> rev [k - n..<Suc k] = k # rev [k - n..<k]"
  by simp

lemma crc_bit_loop_fold:
  "n \<le> Suc k \<Longrightarrow> k < 8 \<Longrightarrow>
     crc_bit_loop c d (push_bit k 1) n = foldl crc15_step (take_bit 15 c) (map (bit d) (rev [Suc k - n..<Suc k]))"
proof (induction n arbitrary: c k)
  case 0
  then show ?case by (simp add: and_7fff)
next
  case (Suc n)
  have m: "d AND push_bit k 1 \<noteq> 0 \<longleftrightarrow> bit d k"
    using and_exp_eq_0_iff_not_bit [of d k] by (simp add: push_bit_eq_mult)
  let ?c = "if bit c 14 \<noteq> bit d k then push_bit 1 c XOR 0x4599 else push_bit 1 c"
  have step: "crc_bit_loop c d (push_bit k 1) (Suc n) = crc_bit_loop ?c d (drop_bit 1 (push_bit k 1)) n"
    by (simp add: Let_def m and_4000 del: push_bit_of_1)
  show ?case
  proof (cases k)
    case 0
    with Suc.prems have "n = 0" by simp
    with 0 step show ?thesis by (simp add: crc15_step_take_bit and_7fff)
  next
    case (Suc j)
    have "drop_bit 1 (push_bit (Suc j) 1 :: u8) = push_bit j 1"
      using Suc Suc.prems
      by (intro bit_word_eqI)
        (auto simp: bit_push_bit_iff bit_drop_bit_eq bit_1_iff simp del: push_bit_of_1)
    then show ?thesis
      using Suc.IH [of j ?c] step Suc Suc.prems rev_upt_Cons [of n "Suc j"]
      by (simp add: crc15_step_take_bit del: upt_Suc push_bit_of_1)
  qed
qed

lemma crc_update_bitwise_fold:
  "n \<le> 8 \<Longrightarrow> take_bit 15 c = c \<Longrightarrow>
     crc_update_bitwise c d n = foldl crc15_step c (map (bit d) (rev [8 - n..<8]))"
  using crc_bit_loop_fold [of n 7 c d] by (simp add: crc_update_bitwise_def del: upt_Suc)

section \<open>The table\<close>

lemma crc15_step_xor:
  "crc15_step (a XOR b) (x \<noteq> y) = crc15_step a x XOR crc15_step b y"
  by (rule bit_word_eqI)
    (auto simp: crc15_step_def bit_xor_iff bit_take_bit_iff bit_push_bit_iff)

lemma crc15_fold_xor:
  "foldl crc15_step (a XOR b) (map (\<lambda>i. f i \<noteq> g i) is) =
     foldl crc15_step a (map f is) XOR foldl crc15_step b (map g is)"
proof (induction "is" arbitrary: a b)
  case (Cons i "is")
  then show ?case using crc15_step_xor [of a b "f i" "g i"] by simp
qed simp

lemma crc_byte_xor: "crc_byte (a XOR b) (d XOR e) = crc_byte a d XOR crc_byte b e"
proof -
  have "msb_bits 8 (d XOR e) = map (\<lambda>i. bit d i \<noteq> bit e i) (rev [0..<8])"
    by (auto simp: msb_bits_def bit_xor_iff)
  then show ?thesis by (simp only: crc_byte_def crc15_fold_xor msb_bits_def)
qed

lemma nth_concat_blocks:
  "(\<And>xs. xs \<in> set xss \<Longrightarrow> length xs = n) \<Longrightarrow> i < length xss \<Longrightarrow> j < n \<Longrightarrow>
     concat xss ! (n * i + j) = xss ! i ! j"
proof (induction xss arbitrary: i)
  case (Cons xs xss)
  then show ?case
    by (cases i) (auto simp: nth_append algebra_simps)
qed simp

section \<open>One byte at a time\<close>

lemma nibble_split: "(x :: u8) = take_bit 4 x XOR push_bit 4 (drop_bit 4 x)"
  by (rule bit_word_eqI) (auto simp: bit_xor_iff bit_take_bit_iff bit_push_bit_iff bit_drop_bit_eq)

lemma unat_nibbles: "unat (take_bit 4 (x :: u8)) < 16" "unat (drop_bit 4 (x :: u8)) < 16"
proof -
  show "unat (take_bit 4 x) < 16"
    using take_bit_nat_less_exp [of 4 "unat x"] by (simp add: unsigned_take_bit_eq)
  show "unat (drop_bit 4 x) < 16"
    using unat_u8_less [of x] by (simp add: unat_drop_bit_eq drop_bit_nat_def less_mult_imp_div_less)
qed

lemma unat_by_nibbles: "unat (x :: u8) = 16 * unat (drop_bit 4 x) + unat (take_bit 4 x)"
  by (simp add: unat_drop_bit_eq drop_bit_nat_def unsigned_take_bit_eq take_bit_nat_def)

lemma crc_byte_nibbles:
  "crc_byte (a XOR b) x = crc_byte a (take_bit 4 x) XOR crc_byte b (push_bit 4 (drop_bit 4 x))"
  using crc_byte_xor [of a b "take_bit 4 x" "push_bit 4 (drop_bit 4 x)"]
  by (simp flip: nibble_split)

lemma crc_table_nth: "crc_table ! unat x = crc_byte 0 x"
proof -
  let ?l = "take_bit 4 x" and ?h = "drop_bit 4 x"
  have len: "length crc_lo = 16" "length crc_hi = 16" "length nibbles = 16"
    by (simp_all add: crc_lo_def crc_hi_def nibbles_def)
  have "crc_table ! unat x = crc_hi ! unat ?h XOR crc_lo ! unat ?l"
    using unat_nibbles [of x] len unfolding crc_table_split unat_by_nibbles [of x]
    by (subst nth_concat_blocks) auto
  also have "\<dots> = crc_byte 0 (push_bit 4 ?h) XOR crc_byte 0 ?l"
    using unat_nibbles [of x] len by (simp add: crc_lo_eq crc_hi_eq nibbles_nth crc_hi_sum_def)
  finally show ?thesis using crc_byte_nibbles [of 0 0 x] by (simp add: xor.commute)
qed

lemma ucast_nibbles:
  "push_bit n (ucast x :: u16) = push_bit n (ucast (take_bit 4 (x :: u8))) XOR push_bit (n + 4) (ucast (drop_bit 4 x))"
proof -
  have "(ucast x :: u16) = ucast (take_bit 4 x) XOR push_bit 4 (ucast (drop_bit 4 x))"
    by (rule bit_word_eqI)
      (auto simp: bit_xor_iff bit_take_bit_iff bit_push_bit_iff bit_drop_bit_eq bit_ucast_iff)
  then show ?thesis by (metis push_bit_xor push_bit_push_bit)
qed

lemma crc_byte_shift: "crc_byte (push_bit 7 (ucast x)) x = 0"
  using crc_byte_nibbles [of "push_bit 7 (ucast (take_bit 4 x))" "push_bit 11 (ucast (drop_bit 4 x))" x]
    ucast_nibbles [of 7 x] nibble_sum [of shift_lo_sum 16, OF _ _ unat_nibbles(1) [of x]]
    nibble_sum [of shift_hi_sum 16, OF _ _ unat_nibbles(2) [of x]] crc_sums length_nibbles
  by (simp add: shift_lo_sum_def shift_hi_sum_def)

lemma unat_ucast_u16 [simp]: "unat (ucast (x :: u8) :: u16) = unat x"
  by (simp add: unsigned_ucast_eq take_bit_nat_eq_self_iff less_trans [OF unat_u8_less])

lemma xor_eq_0_iff_word: "(a :: 'w::len word) XOR b = 0 \<longleftrightarrow> a = b"
  by (metis xor.left_neutral xor.assoc xor_self_eq)

lemma crc_byte_zero:
  assumes "unat (x :: u8) < 128"
  shows "crc_byte (ucast x) 0 = push_bit 8 (ucast x)"
proof -
  have h: "unat (drop_bit 4 x) < 8"
    using assms by (simp add: unat_drop_bit_eq drop_bit_nat_def less_mult_imp_div_less)
  have "crc_byte (push_bit 4 (ucast (drop_bit 4 x))) 0 = push_bit 12 (ucast (drop_bit 4 x))"
    using nibble_sum [OF crc_sums(4) _ h] by (simp add: zero_hi_sum_def xor_eq_0_iff_word)
  moreover have "crc_byte (ucast (take_bit 4 x)) 0 = push_bit 8 (ucast (take_bit 4 x))"
    using nibble_sum [of zero_lo_sum 16, OF _ _ unat_nibbles(1) [of x]] crc_sums length_nibbles
    by (simp add: zero_lo_sum_def xor_eq_0_iff_word)
  ultimately show ?thesis
    using crc_byte_xor [of "ucast (take_bit 4 x)" "push_bit 4 (ucast (drop_bit 4 x))" 0 0]
      ucast_nibbles [of 0 x] ucast_nibbles [of 8 x]
    by simp
qed

text \<open>The step of \<open>crc_update_bytewise\<close> is eight steps of the register.\<close>

lemma crc_bytewise_step:
  assumes "take_bit 15 c = c"
  shows "(crc_table ! unat ((drop_bit 7 c XOR ucast d) AND 0xff) XOR push_bit 8 c) AND 0x7fff = crc_byte c d"
proof -
  let ?h = "ucast (drop_bit 7 c) :: u8" and ?l = "ucast (take_bit 7 c) :: u8"
  have l: "unat ?l < 128"
    using take_bit_nat_less_exp [of 7 "unat c"]
    by (simp add: unsigned_ucast_eq unsigned_take_bit_eq take_bit_nat_less_eq_self)
  have ul: "(ucast ?l :: u16) = take_bit 7 c"
    by (rule bit_word_eqI) (auto simp: bit_ucast_iff bit_take_bit_iff)
  have "n < 15" if "bit c n" for n using that assms by (metis bit_take_bit_iff)
  then have c: "c = push_bit 7 (ucast ?h) XOR (0 XOR ucast ?l)"
    unfolding ul
    by (intro bit_word_eqI)
      (fastforce simp: bit_xor_iff bit_push_bit_iff bit_ucast_iff bit_drop_bit_eq bit_take_bit_iff)
  have "crc_byte c d = crc_byte (push_bit 7 (ucast ?h) XOR (0 XOR ucast ?l)) (?h XOR ((?h XOR d) XOR 0))"
    using c by (simp add: xor.assoc [symmetric])
  also have "\<dots> = crc_byte 0 (?h XOR d) XOR push_bit 8 (ucast ?l)"
    by (simp only: crc_byte_xor crc_byte_shift crc_byte_zero [OF l]) simp
  finally have cb: "crc_byte c d = crc_byte 0 (?h XOR d) XOR push_bit 8 (take_bit 7 c)"
    by (simp only: ul)
  have "(drop_bit 7 c XOR ucast d) AND 0xff = take_bit 8 (drop_bit 7 c XOR ucast d)"
    by (simp add: take_bit_eq_mask mask_eq_decr_exp)
  also have "\<dots> = ucast (?h XOR d)"
    by (rule bit_word_eqI)
      (auto simp: bit_xor_iff bit_ucast_iff bit_take_bit_iff bit_drop_bit_eq dest: bit_imp_le_length)
  finally have idx: "unat ((drop_bit 7 c XOR ucast d) AND 0xff) = unat (?h XOR d)"
    by (simp add: unat_ucast_u16)
  have 15: "take_bit 15 (crc_byte 0 (?h XOR d)) = crc_byte 0 (?h XOR d)"
    unfolding crc_byte_def by (rule crc15_fold_15) simp
  have "take_bit 15 (push_bit 8 c) = push_bit 8 (take_bit 7 c)"
    by (rule bit_word_eqI) (auto simp: bit_take_bit_iff bit_push_bit_iff)
  then show ?thesis unfolding idx crc_table_nth and_7fff take_bit_xor 15 cb by simp
qed

lemma crc_byte_15: "take_bit 15 c = c \<Longrightarrow> take_bit 15 (crc_byte c d) = crc_byte c d"
  unfolding crc_byte_def by (rule crc15_fold_15)

lemma crc_update_bytewise_fold:
  "take_bit 15 c = c \<Longrightarrow>
     crc_update_bytewise c bs = foldl crc15_step c (concat (map (msb_bits 8) bs))"
proof (induction bs arbitrary: c)
  case (Cons d bs)
  then show ?case
    using crc_bytewise_step [OF Cons.prems, of d] Cons.IH [OF crc_byte_15 [OF Cons.prems]]
    by (simp add: Let_def crc_byte_def)
qed (simp add: and_7fff)

section \<open>The CRC of a stretch of the bitmap\<close>

definition bitat :: "u8 list \<Rightarrow> nat \<Rightarrow> bool" where
  "bitat bm j = bit (bm ! (j div 8)) (7 - j mod 8)"

lemma rev_upt_eq: "rev [a..<b] = map (\<lambda>j. a + b - 1 - j) [a..<b]"
  by (rule nth_equalityI) (auto simp: rev_nth)

lemma upt_split: "i \<le> j \<Longrightarrow> j \<le> k \<Longrightarrow> [i..<k] = [i..<j] @ [j..<k]"
  using upt_add_eq_append [of i j "k - j"] by simp

lemma div_mod_offset: "(k :: nat) < 8 \<Longrightarrow> (8 * q + k) div 8 = q \<and> (8 * q + k) mod 8 = k"
  by simp

lemma bitat_head:
  assumes "r = start mod 8"
  shows "map (bit (push_bit r (bm ! (start div 8)))) (rev [r..<8]) = map (bitat bm) [start..<start + (8 - r)]"
proof (rule nth_equalityI)
  fix i assume "i < length (map (bit (push_bit r (bm ! (start div 8)))) (rev [r..<8]))"
  then have i: "i < 8 - r" by simp
  have "(start + i) div 8 = start div 8 \<and> (start + i) mod 8 = r + i"
    using div_mod_offset [of "r + i" "start div 8"] i assms by (simp flip: add.assoc)
  then show "map (bit (push_bit r (bm ! (start div 8)))) (rev [r..<8]) ! i =
      map (bitat bm) [start..<start + (8 - r)] ! i"
    using i by (auto simp: rev_upt_eq bitat_def bit_push_bit_iff add.commute)
qed simp

lemma bitat_byte: "msb_bits 8 (bm ! k) = map (bitat bm) [8 * k..<8 * k + 8]"
  using bitat_head [of 0 "8 * k" bm] by (simp add: msb_bits_def del: upt_conv_Cons)

lemma bitat_bytes:
  "q + n \<le> length bm \<Longrightarrow>
     concat (map (msb_bits 8) (take n (drop q bm))) = map (bitat bm) [8 * q..<8 * (q + n)]"
proof (induction n)
  case (Suc n)
  have "[8 * q..<8 * (q + Suc n)] = [8 * q..<8 * (q + n)] @ [8 * (q + n)..<8 * (q + n) + 8]"
    using upt_add_eq_append [of "8 * q" "8 * (q + n)" 8] by (simp add: algebra_simps)
  then show ?case
    using Suc by (simp add: take_Suc_conv_app_nth bitat_byte del: upt_Suc)
qed simp

lemma bitat_tail:
  "map (bit (bm ! (e div 8))) (rev [8 - e mod 8..<8]) = map (bitat bm) [8 * (e div 8)..<e]"
proof (rule nth_equalityI)
  show len: "length (map (bit (bm ! (e div 8))) (rev [8 - e mod 8..<8])) =
      length (map (bitat bm) [8 * (e div 8)..<e])"
    by (simp add: minus_mult_div_eq_mod)
  fix i assume "i < length (map (bit (bm ! (e div 8))) (rev [8 - e mod 8..<8]))"
  then have i: "i < e mod 8" by (simp add: less_imp_le)
  moreover have "8 * (e div 8) + i < e" using i by (metis add_less_cancel_left mult_div_mod_eq)
  moreover have "8 - e mod 8 + 8 - 1 - (8 - e mod 8 + i) = 7 - i" by simp
  ultimately show "map (bit (bm ! (e div 8))) (rev [8 - e mod 8..<8]) ! i =
      map (bitat bm) [8 * (e div 8)..<e] ! i"
    using div_mod_offset [of i "e div 8"] by (simp add: rev_upt_eq bitat_def)
qed

lemma calc_bitmap_crc_fold:
  assumes "8 * ((start + 7) div 8) \<le> end" "end div 8 < length bm" "end < 2 ^ 32"
  shows "calc_bitmap_crc bm start end = Some (crc15 (map (bitat bm) [start..<end]))"
proof -
  define s' where "s' = 8 * ((start + 7) div 8)"
  define crc where "crc = crc15 (map (bitat bm) [start..<s'])"
  have s: "start \<le> s'" "s' \<le> end" "s' div 8 \<le> end div 8"
    using assms(1) by (simp_all add: s'_def)
  have first: "(if start mod 8 \<noteq> 0 then do {
          b \<leftarrow> rd bm (start div 8);
          Some (crc_update_bitwise 0 (push_bit (start mod 8) b) (8 - start mod 8),
                start + (8 - start mod 8))
        } else Some (0, start)) = Some (crc, s')"
  proof (cases "start mod 8 = 0")
    case True
    then have "s' = start" by (auto simp: s'_def)
    with True show ?thesis by (simp add: crc_def crc15_def)
  next
    case False
    then have e: "s' = start + (8 - start mod 8)" 
    proof -
      have "start + 7 = 8 * (start div 8 + 1) + (start mod 8 - 1)"
        using False mult_div_mod_eq [of 8 start] by (cases "start mod 8") simp_all
      then have "(start + 7) div 8 = start div 8 + 1"
        using div_mod_offset [of "start mod 8 - 1" "start div 8 + 1"] by (simp add: less_imp_diff_less)
      then have "s' = 8 * (start div 8) + 8" by (simp add: s'_def)
      moreover have "start mod 8 < 8" by simp
      ultimately show ?thesis using mult_div_mod_eq [of 8 start] by linarith
    qed
    have "start div 8 < length bm" using s assms(2) by (meson div_le_mono le_less_trans le_trans)
    with False e show ?thesis
      using crc_update_bitwise_fold [of "8 - start mod 8" 0 "push_bit (start mod 8) (bm ! (start div 8))"]
        bitat_head [of "start mod 8" start bm]
      by (simp add: rd_def crc_def crc15_def)
  qed
  have "unat (of_nat end - of_nat s' :: u32) = end - s'"
    using s(2) assms(3) by (simp flip: of_nat_diff) (subst unat_of_nat_small; simp)
  then have n: "unat (of_nat end - of_nat s' :: u32) div 8 = end div 8 - s' div 8"
    by (simp add: s'_def)
  have crc: "take_bit 15 crc = crc" by (simp add: crc_def crc15_def crc15_fold_15)
  have split: "[start..<end] = [start..<s'] @ [s'..<8 * (end div 8)] @ [8 * (end div 8)..<end]"
  proof -
    have "s' \<le> 8 * (end div 8)" using s by (simp add: s'_def)
    then show ?thesis
      using s upt_split [of start s' "end"] upt_split [of s' "8 * (end div 8)" "end"]
      by simp
  qed
  have mid: "crc_update_bytewise crc (take (end div 8 - s' div 8) (drop (s' div 8) bm)) =
      foldl crc15_step crc (map (bitat bm) [s'..<8 * (end div 8)])"
  proof -
    have "s' div 8 + (end div 8 - s' div 8) = end div 8" "8 * (s' div 8) = s'" using s by (simp_all add: s'_def)
    with bitat_bytes [of "s' div 8" "end div 8 - s' div 8" bm] assms(2) show ?thesis
      by (simp only: crc_update_bytewise_fold [OF crc])
  qed
  show ?thesis
    using first n s assms(2) mid crc15_fold_15 [OF crc] bitat_tail [of bm "end"]
      crc_update_bitwise_fold [of "end mod 8" _ "bm ! (end div 8)"]
    by (simp add: calc_bitmap_crc_def rd_bytes_def rd_def crc15_def split crc_def)
qed

section \<open>Stuff bits\<close>

declare One_nat_def [simp]

text \<open>The five bits the search looks at.\<close>

definition window :: "u8 list \<Rightarrow> nat \<Rightarrow> u32" where
  "window bm i = drop_bit (16 - 5 - i mod 8) (push_bit 8 (ucast (bm ! (i div 8))) OR ucast (bm ! (i div 8 + 1)))"

lemma bit_window:
  assumes "t < 5"
  shows "bit (window bm i) (4 - t) = bitat bm (i + t)"
proof -
  define q r where "q = i div 8" and "r = i mod 8"
  have i: "i = 8 * q + r" and r: "r < 8" by (simp_all add: q_def r_def)
  have w: "bit (window bm i) (4 - t) =
      bit (push_bit 8 (ucast (bm ! q)) OR ucast (bm ! (q + 1)) :: u32) (15 - (r + t))"
    using assms r unfolding window_def bit_drop_bit_eq comp_def q_def [symmetric] r_def [symmetric]
    by (auto intro!: arg_cong [of _ _ "bit _"])
  show ?thesis
  proof (cases "r + t < 8")
    case True
    have b: "bitat bm (i + t) = bit (bm ! q) (7 - (r + t))"
      using div_mod_offset [OF True, of q] unfolding i bitat_def add.assoc by simp
    have e: "15 - (r + t) = 8 + (7 - (r + t))" using True by simp
    show ?thesis unfolding w b e
      by (auto simp: bit_or_iff bit_push_bit_iff bit_ucast_iff dest: bit_imp_le_length)
  next
    case False
    define k where "k = r + t - 8"
    have k: "k < 8" "r + t = 8 + k" using False r assms by (auto simp: k_def)
    have "bitat bm (8 * (q + 1) + k) = bit (bm ! (q + 1)) (7 - k)"
      unfolding bitat_def using div_mod_offset [OF k(1), of "q + 1"] by simp
    moreover have "i + t = 8 * (q + 1) + k" using k i by simp
    ultimately have b: "bitat bm (i + t) = bit (bm ! (q + 1)) (7 - k)" by simp
    have e: "15 - (r + t) = 7 - k" using k by simp
    show ?thesis unfolding w b e by (auto simp: bit_or_iff bit_push_bit_iff bit_ucast_iff)
  qed
qed

lemma clz_table:
  "list_all (\<lambda>c. clz ! c \<le> 5 \<and> list_all (\<lambda>t. \<not> bit (of_nat c :: u32) (4 - t)) [0..<clz ! c] \<and>
     (c \<noteq> 0 \<longrightarrow> clz ! c < 5 \<and> bit (of_nat c :: u32) (4 - clz ! c)) \<and>
     (\<not> bit (of_nat c :: u32) 0 \<longrightarrow> c \<noteq> 0 \<longrightarrow> clz ! c < 4)) [0..<32]"
  by code_simp

lemma clz_props:
  assumes "unat (c :: u32) < 32" "c \<noteq> 0"
  shows "clz ! unat c < 5" "\<And>t. t < clz ! unat c \<Longrightarrow> \<not> bit c (4 - t)"
    "bit c (4 - clz ! unat c)" "\<not> bit c 0 \<Longrightarrow> clz ! unat c < 4"
proof -
  have "c \<noteq> 0 \<Longrightarrow> unat c \<noteq> 0" by (simp add: unat_eq_0)
  then show "clz ! unat c < 5" "\<And>t. t < clz ! unat c \<Longrightarrow> \<not> bit c (4 - t)"
    "bit c (4 - clz ! unat c)" "\<not> bit c 0 \<Longrightarrow> clz ! unat c < 4"
    using bspec [OF clz_table [unfolded list_all_iff set_upt], of "unat c"] assms by auto
qed

text \<open>Runs of equal bits in the reference.\<close>

lemma stuff_count_run0: "stuff_count p 0 bs = stuff_count q 0 bs"
  by (cases bs) (auto simp: Let_def)

lemma stuff_count_short:
  "r + k < 5 \<Longrightarrow> stuff_count v r (replicate k v @ bs) = stuff_count v (r + k) bs"
  by (induction k arbitrary: r) (simp_all add: Let_def)

lemma stuff_count_flip:
  "r < 5 \<Longrightarrow> bs = [] \<or> hd bs = (\<not> v) \<Longrightarrow> stuff_count v r bs = stuff_count w 0 bs"
  by (cases bs) (auto simp: Let_def)

lemma stuff_count_full:
  assumes "r + k = 5" "0 < k"
  shows "stuff_count v r (replicate k v @ bs) = Suc (stuff_count (\<not> v) 1 bs)"
proof -
  obtain j where "k = Suc j" using assms(2) by (cases k) auto
  then show ?thesis
    using stuff_count_short [of r j v "v # bs"] assms(1) by (simp add: Let_def replicate_app_Cons_same)
qed

lemma stuff_count_bound:
  "0 < r \<Longrightarrow> r < 5 \<Longrightarrow> Suc (4 * stuff_count p r bs) \<le> length bs + r"
proof (induction p r bs rule: stuff_count.induct)
  case (2 p r b bs)
  then show ?case
    using "2.IH"(1) [OF refl] "2.IH"(2) [OF refl] by (auto simp: Let_def split: if_splits)
qed simp

lemma stuff_count_worst: "bs \<noteq> [] \<Longrightarrow> Suc (4 * stuff_count p 0 bs) \<le> length bs"
  using stuff_count_bound [of 1] by (cases bs) (auto simp: Let_def)

lemma map_upt_run:
  assumes "\<And>t. t < k \<Longrightarrow> f (i + t) = v" "i + k \<le> n"
  shows "map f [i..<n] = replicate k v @ map f [i + k..<n]"
proof -
  have "map f [i..<i + k] = replicate k v"
    using assms(1) by (intro nth_equalityI) auto
  then show ?thesis using upt_split [of i "i + k" n] assms(2) by simp
qed

text \<open>
  The search starts a run with the mask \<open>0x1f\<close>, or continues behind a stuff bit with the
  mask \<open>0x1e\<close>, when one bit of the run is already on the bus.
\<close>

definition search_mask :: "nat \<Rightarrow> u32" where
  "search_mask r = (if r = 0 then 0x1f else 0x1e)"

lemma bit_search_mask: "r < 2 \<Longrightarrow> bit (search_mask r) n \<longleftrightarrow> r \<le> n \<and> n < 5"
proof -
  assume r: "r < 2"
  have "search_mask r = push_bit r (mask (5 - r))"
    using r by (cases "r = 0") (auto simp: search_mask_def mask_eq_decr_exp push_bit_eq_mult less_2_cases_iff)
  then show ?thesis using r by (auto simp: bit_push_bit_iff bit_mask_iff)
qed

lemma search_change:
  assumes "r < 2" "change = (w AND search_mask r) XOR (if v then search_mask r else 0)"
  shows "unat change < 32"
    and "\<And>t. t < 5 - r \<Longrightarrow> bit change (4 - t) = (bit w (4 - t) \<noteq> v)"
    and "\<And>t. bit change t \<Longrightarrow> r \<le> t \<and> t < 5"
proof -
  have b: "bit change t \<longleftrightarrow> r \<le> t \<and> t < 5 \<and> bit w t \<noteq> v" for t
    using assms by (auto simp: bit_xor_iff bit_and_iff bit_search_mask)
  show "bit change (4 - t) = (bit w (4 - t) \<noteq> v)" if "t < 5 - r" for t
    using that unfolding b by linarith
  show "r \<le> t \<and> t < 5" if "bit change t" for t using that unfolding b by simp
  have "take_bit 5 change = change"
    by (rule bit_word_eqI) (auto simp: bit_take_bit_iff b)
  then have "take_bit 5 (unat change) = unat change" by (metis unsigned_take_bit_eq)
  then show "unat change < 32" by (simp add: take_bit_nat_eq_self_iff)
qed

lemma search_run:
  assumes r: "r < 2" and ch: "change = (window bm i AND search_mask r) XOR (if v then search_mask r else 0)"
    and nz: "change \<noteq> 0"
  defines "k \<equiv> clz ! unat change"
  shows "r + k < 5" "\<And>t. t < k \<Longrightarrow> bitat bm (i + t) = v" "bitat bm (i + k) \<noteq> v"
proof -
  note c = search_change [OF r ch] and z = clz_props [OF search_change(1) [OF r ch] nz, folded k_def]
  have "\<not> bit change 0" if "r = 1" using c(3) [of 0] that by auto
  then show rk: "r + k < 5" using z(1,4) r by (cases "r = 0") auto
  show "bitat bm (i + t) = v" if "t < k" for t
  proof -
    have "t < 5 - r" "t < 5" using that rk by auto
    with that c(2) z(2) bit_window [of t bm i] show ?thesis by blast
  qed
  show "bitat bm (i + k) \<noteq> v"
  proof -
    have "k < 5 - r" "k < 5" using rk by auto
    with c(2) z(3) bit_window [of k bm i] show ?thesis by blast
  qed
qed

lemma search_full:
  assumes "r < 2" "(window bm i AND search_mask r) XOR (if v then search_mask r else 0) = 0" "t < 5 - r"
  shows "bitat bm (i + t) = v"
  using search_change(2) [OF assms(1) refl assms(3), of "window bm i" v] bit_window [of t bm i] assms(2,3)
  by auto

lemma stuff_count_run:
  assumes "\<And>t. t < k \<Longrightarrow> f (i + t) = v" "r + k < 5" "i + k < n \<Longrightarrow> f (i + k) \<noteq> v"
  shows "stuff_count v r (map f [i..<n]) = stuff_count w 0 (map f [i + k..<n])"
proof (cases "i + k \<le> n")
  case True
  have "stuff_count v r (map f [i..<n]) = stuff_count v (r + k) (map f [i + k..<n])"
    using map_upt_run [of k f i v n] assms(1,2) True by (simp add: stuff_count_short)
  also have "\<dots> = stuff_count w 0 (map f [i + k..<n])"
    using assms(2,3) True by (intro stuff_count_flip) (auto simp: hd_map)
  finally show ?thesis .
next
  case False
  then have "map f [i..<n] = replicate (n - i) v"
    using assms(1) by (intro nth_equalityI) auto
  then show ?thesis using stuff_count_short [of r "n - i" v "[]"] assms(2) False by simp
qed

lemma count_stuffed_end: "\<not> i < end \<Longrightarrow> count_stuffed bm end msk lookfor i stuffed = Some stuffed"
  by (subst count_stuffed.simps) simp

lemma count_stuffed_correct:
  assumes "end = 0 \<or> (end - 1) div 8 + 1 < length bm" "r < 2"
  shows "count_stuffed bm end (search_mask r) lookfor i stuffed =
    Some (stuffed + stuff_count (lookfor = 0) r (map (bitat bm) [i..<end]))"
  using assms(2)
proof (induction "2 * (end - i) + (if bitat bm i = (lookfor = 0) then 0 else 1)"
    arbitrary: r lookfor i stuffed rule: less_induct)
  case less
  show ?case
  proof (cases "i < end")
    case False
    then show ?thesis by (simp add: count_stuffed_end)
  next
    case True
    have m0: "search_mask r \<noteq> 0" "search_mask r = 0x1f \<longleftrightarrow> r = 0" by (auto simp: search_mask_def)
    have "i div 8 \<le> (end - 1) div 8" using True by (intro div_le_mono) simp
    then have rd: "rd bm (i div 8) = Some (bm ! (i div 8))" "rd bm (i div 8 + 1) = Some (bm ! (i div 8 + 1))"
      using assms(1) True by (auto simp: rd_def)
    define v where "v = (lookfor = 0)"
    define lf where "lf = (if v then search_mask r else 0)"
    define change where "change = (window bm i AND search_mask r) XOR lf"
    have lf: "(lf = 0) = (\<not> v)" using m0 by (simp add: lf_def)
    have step: "count_stuffed bm end (search_mask r) lookfor i stuffed =
      (if change \<noteq> 0 then count_stuffed bm end (search_mask 0) lf (i + clz ! unat change) stuffed
       else if i + (5 - r) \<le> end
       then count_stuffed bm end (search_mask 1) lf (i + (5 - r)) (Suc stuffed)
       else Some stuffed)"
    proof -
      have "(if lookfor \<noteq> 0 then 0 else search_mask r) = lf" "(if search_mask r = 0x1f then 5 else 4) = 5 - r"
        using m0 less.prems by (auto simp: lf_def v_def)
      then show ?thesis
        using True
        by (subst count_stuffed.simps)
          (simp only: if_True rd bind.bind_lunit Let_def window_def [symmetric] change_def [symmetric],
            auto simp: search_mask_def count_stuffed_end)
    qed
    show ?thesis
    proof (cases "change = 0")
      case False
      define k where "k = clz ! unat change"
      note run = search_run [OF less.prems change_def [unfolded lf_def] False, folded k_def]
      have "2 * (end - (i + k)) + (if bitat bm (i + k) = (lf = 0) then 0 else 1)
          < 2 * (end - i) + (if bitat bm i = v then 0 else 1)"
        using run(3) lf True by (cases "k = 0") auto
      from less.hyps [OF this [unfolded v_def], of 0 stuffed] show ?thesis
        using step False stuff_count_run [of k "bitat bm" i v r "end" "\<not> v"] run lf
        by (simp add: k_def v_def)
    next
      case eq: True
      note full = search_full [OF less.prems eq [unfolded change_def lf_def]]
      show ?thesis
      proof (cases "i + (5 - r) \<le> end")
        case False
        then show ?thesis
          using step eq stuff_count_run [of "end - i" "bitat bm" i v r "end" v] full less.prems True
          by (auto simp: v_def)
      next
        case le: True
        have "2 * (end - (i + (5 - r))) + (if bitat bm (i + (5 - r)) = (lf = 0) then 0 else 1)
            < 2 * (end - i) + (if bitat bm i = v then 0 else (1 :: nat))"
          using le less.prems by auto
        from less.hyps [OF this [unfolded v_def], of 1 "Suc stuffed"] show ?thesis
          using step eq le stuff_count_full [of r "5 - r" v "map (bitat bm) [i + (5 - r)..<end]"]
            map_upt_run [of "5 - r" "bitat bm" i v "end"] full less.prems lf
          by (simp add: v_def)
      qed
    qed
  qed
qed

section \<open>The bits of the frame\<close>

lemma id_bits: "(cid :: u32) AND 0x80000000 \<noteq> 0 \<longleftrightarrow> bit cid 31" "cid AND 0x40000000 \<noteq> 0 \<longleftrightarrow> bit cid 30"
  using and_exp_eq_0_iff_not_bit [of cid 31] and_exp_eq_0_iff_not_bit [of cid 30] by simp_all

lemma length_msb_bits [simp]: "length (msb_bits n w) = n"
  by (simp add: msb_bits_def)

lemma msb_bits_Suc: "msb_bits (Suc n) w = bit w n # msb_bits n w"
  by (simp add: msb_bits_def)

lemma masks_u32:
  "(x :: u32) AND 0x1FFFFFFF = take_bit 29 x" "x AND 0x7FF = take_bit 11 x" "x AND 0x3f = take_bit 6 x"
  "x AND 0xff = take_bit 8 x" "x AND 1 = take_bit 1 x" "(y :: u8) AND 0xf = take_bit 4 y"
  by (simp_all add: take_bit_eq_mask mask_eq_decr_exp)

lemma bit_6: "bit (6 :: u32) n \<longleftrightarrow> n = 1 \<or> n = 2"
proof -
  have "(6 :: u32) = push_bit 1 (mask 2)" by (simp add: mask_eq_decr_exp)
  then have "bit (6 :: u32) n \<longleftrightarrow> bit (push_bit 1 (mask 2) :: u32) n" by simp
  also have "\<dots> \<longleftrightarrow> n = 1 \<or> n = 2" unfolding bit_push_bit_iff bit_mask_iff by auto
  finally show ?thesis .
qed

lemma msb_bits_numeral [simp]:
  "msb_bits (numeral k) w = bit w (pred_numeral k) # msb_bits (pred_numeral k) w"
  "msb_bits (Suc 0) w = [bit w 0]" "msb_bits 0 w = []"
  by (simp_all add: numeral_eq_Suc msb_bits_Suc) (simp_all add: msb_bits_def)

lemmas header_bits = bit_ucast_iff bit_drop_bit_eq bit_take_bit_iff bit_or_iff bit_push_bit_iff bit_6 bit_1_iff

lemma eff_header_bits:
  "drop 1 (concat (map (msb_bits 8) (eff_header f))) =
     [False] @ msb_bits 11 (drop_bit 18 (can_id f)) @ [True, True] @ msb_bits 18 (can_id f) @
     [bit (can_id f) 30, False, False] @ msb_bits 4 (fr_len f)"
  unfolding eff_header_def Let_def masks_u32 id_bits
  by (cases "bit (can_id f) 30")
    (simp_all add: header_bits, simp_all add: numeral_2_eq_2 numeral_3_eq_3 bit_iff_odd_drop_bit)

lemma sff_header_bits:
  "drop 5 (concat (map (msb_bits 8) (sff_header f))) =
     [False] @ msb_bits 11 (can_id f) @ [bit (can_id f) 30, False, False] @ msb_bits 4 (fr_len f)"
  unfolding sff_header_def Let_def masks_u32 id_bits
  by (cases "bit (can_id f) 30")
    (simp_all add: header_bits, simp_all add: numeral_2_eq_2 numeral_3_eq_3 bit_iff_odd_drop_bit)

lemma crc_bits:
  "take_bit 15 c = c \<Longrightarrow>
   take 15 (concat (map (msb_bits 8) [ucast (drop_bit 8 (push_bit 1 (c :: u16))) :: u8, ucast (push_bit 1 c)])) = msb_bits 15 c"
  by (simp add: header_bits)

lemma bitat_prefix:
  "start \<le> 8 * length xs \<Longrightarrow>
     map (bitat (xs @ ys)) [start..<8 * length xs] = drop start (concat (map (msb_bits 8) xs))"
  using bitat_bytes [of 0 "length xs" "xs @ ys"] by (simp add: drop_map)

text \<open>The bitmap before and behind the CRC, for a header that starts at bit \<open>start\<close>.\<close>

lemma cfl_exact_bitmap:
  assumes hdr: "if bit (can_id f) 31 then hdr = eff_header f \<and> start = 1 else hdr = sff_header f \<and> start = 5"
    and n: "n = unat (fr_len f)" "n \<le> 8" "n \<le> length (fr_data f)"
  defines "bytes \<equiv> take n (fr_data f)"
  defines "crc \<equiv> crc15 (frame_bits f)"
  shows "map (bitat (hdr @ bytes @ ys)) [start..<8 * (length hdr + n)] = frame_bits f"
    and "map (bitat (hdr @ bytes @ [ucast (drop_bit 8 (push_bit 1 crc)), ucast (push_bit 1 crc)] @ ys))
      [start..<8 * (length hdr + n) + 15] = bus_bits f"
proof -
  have len: "length (hdr @ bytes) = length hdr + n" "start \<le> 8 * length hdr"
    using hdr n by (auto simp: bytes_def sff_header_def eff_header_def Let_def split: if_splits)
  have fb: "drop start (concat (map (msb_bits 8) (hdr @ bytes))) = frame_bits f"
  proof (cases "bit (can_id f) 31")
    case True
    then show ?thesis using hdr eff_header_bits [of f] n(1)
      by (simp add: frame_bits_def bytes_def Let_def length_concat comp_def eff_header_def)
  next
    case False
    then show ?thesis using hdr sff_header_bits [of f] n(1)
      by (simp add: frame_bits_def bytes_def Let_def length_concat comp_def sff_header_def)
  qed
  show 1: "map (bitat (hdr @ bytes @ ys)) [start..<8 * (length hdr + n)] = frame_bits f" for ys
    using bitat_prefix [of start "hdr @ bytes" ys] fb len by simp
  let ?c = "[ucast (drop_bit 8 (push_bit 1 crc)), ucast (push_bit 1 crc)] :: u8 list"
  have "concat (map (msb_bits 8) ?c) =
      map (bitat (hdr @ bytes @ ?c @ ys)) [8 * (length hdr + n)..<8 * (length hdr + n) + 16]"
    using bitat_bytes [of "length hdr + n" 2 "hdr @ bytes @ ?c @ ys"] len by (simp add: algebra_simps)
  then have "map (bitat (hdr @ bytes @ ?c @ ys)) [8 * (length hdr + n)..<8 * (length hdr + n) + 15] =
      take 15 (concat (map (msb_bits 8) ?c))"
    by (simp add: take_map del: msb_bits_numeral)
  moreover have "take_bit 15 crc = crc" by (simp add: crc_def crc15_def crc15_fold_15)
  ultimately have "map (bitat (hdr @ bytes @ ?c @ ys)) [8 * (length hdr + n)..<8 * (length hdr + n) + 15] =
      msb_bits 15 crc"
    using crc_bits [of crc] by simp
  then show "map (bitat (hdr @ bytes @ ?c @ ys)) [start..<8 * (length hdr + n) + 15] = bus_bits f"
    using 1 [of "?c @ ys"] upt_split [of start "8 * (length hdr + n)" "8 * (length hdr + n) + 15"] len(2)
    by (simp add: bus_bits_def crc_def)
qed

lemma wr_bytes_zeros:
  "length xs + length bs \<le> 16 \<Longrightarrow>
     wr_bytes (xs @ replicate (16 - length xs) 0) (length xs) bs =
       Some ((xs @ bs) @ replicate (16 - length (xs @ bs)) 0)"
  by (simp add: wr_bytes_def overwrite_def)

lemma cfl_exact_correct:
  assumes "fr_len f \<le> 8" "unat (fr_len f) \<le> length (fr_data f)"
  shows "cfl_exact f = Some (length (bus_bits f) + stuff_count False 0 (bus_bits f) + 13)"
proof -
  define n where "n = unat (fr_len f)"
  define hdr where "hdr = (if bit (can_id f) 31 then eff_header f else sff_header f)"
  define start :: nat where "start = (if bit (can_id f) 31 then 1 else 5)"
  define e where "e = 8 * (length hdr + n)"
  have n: "n \<le> 8" "n \<le> length (fr_data f)" using assms by (simp_all add: n_def word_le_nat_alt)
  have len: "length hdr = (if bit (can_id f) 31 then 5 else 3)"
    by (simp add: hdr_def eff_header_def sff_header_def Let_def)
  have hs: "if bit (can_id f) 31 then hdr = eff_header f \<and> start = 1 else hdr = sff_header f \<and> start = 5"
    by (simp add: hdr_def start_def)
  let ?bytes = "take n (fr_data f)"
  note bits = cfl_exact_bitmap [OF hs n_def n]
  define crc where "crc = crc15 (frame_bits f)"
  let ?c = "[ucast (drop_bit 8 (push_bit 1 crc)), ucast (push_bit 1 crc)] :: u8 list"
  let ?bm = "hdr @ ?bytes @ ?c @ replicate (14 - length hdr - n) 0"
  have 1: "calc_bitmap_crc (hdr @ ?bytes @ ys) start e = Some crc"
    if "length (hdr @ ?bytes @ ys) = 16" for ys
  proof -
    have "8 * ((start + 7) div 8) \<le> e" "e div 8 < 16" "e < 2 ^ 32"
      using n len by (auto simp: start_def e_def)
    then show ?thesis
      using calc_bitmap_crc_fold [of start e "hdr @ ?bytes @ ys"] bits(1) [of ys] that
      by (simp add: crc_def e_def)
  qed
  have "(e + 15 - 1) div 8 + 1 < length ?bm" using n len by (simp add: e_def)
  then have 2: "count_stuffed ?bm (e + 15) 0x1f 0 start 0 = Some (stuff_count False 0 (bus_bits f))"
    using count_stuffed_correct [of "e + 15" ?bm 0 0 start 0] bits(2) stuff_count_run0 [of True _ False]
    by (simp add: search_mask_def crc_def e_def)
  have "length (bus_bits f) = e + 15 - start"
    using arg_cong [OF bits(2) [of "[]"], of length] by (simp add: e_def)
  then show ?thesis
    using 1 [of "replicate (16 - length hdr - n) 0"] 2 n len
      wr_bytes_zeros [of "[]" hdr] wr_bytes_zeros [of hdr ?bytes] wr_bytes_zeros [of "hdr @ ?bytes" ?c]
    by (cases "bit (can_id f) 31")
      (simp_all add: cfl_exact_def Let_def id_bits rd_bytes_def start_def hdr_def e_def flip: n_def)
qed

section \<open>Properties\<close>

lemma length_bus_bits:
  assumes "fr_len f \<le> 8" "unat (fr_len f) \<le> length (fr_data f)"
  shows "length (bus_bits f) = (if bit (can_id f) 31 then 54 else 34) + 8 * unat (fr_len f)"
proof -
  have "length (concat (map (msb_bits 8) (take (unat (fr_len f)) (fr_data f)))) = 8 * unat (fr_len f)"
    using assms(2) by (simp add: length_concat comp_def sum_list_triv)
  then show ?thesis using assms by (simp add: bus_bits_def frame_bits_def Let_def del: msb_bits_numeral)
qed





text \<open>for a classic frame the exact length lies between the unstuffed length and the worst
  case.\<close>

lemma exact_length_bounds:
  assumes "fr_len f \<le> 8" "unat (fr_len f) \<le> length (fr_data f)"
  shows "\<exists>lo n hi. can_frame_length f CFL_NO_BITSTUFFING CAN_MTU = Some lo \<and>
     can_frame_length f CFL_EXACT CAN_MTU = Some n \<and>
     can_frame_length f CFL_WORSTCASE CAN_MTU = Some hi \<and> lo \<le> n \<and> n \<le> hi"
proof -
  have "bus_bits f \<noteq> []" using length_bus_bits [OF assms] by (auto split: if_splits)
  from stuff_count_worst [OF this, of False] show ?thesis
    using cfl_exact_correct [OF assms] length_bus_bits [OF assms]
    by (auto simp: can_frame_length_def Let_def id_bits split: if_splits)
qed

end
