(* ===== verification/Redis_Reader.thy ===== *)
theory Redis_Reader
  imports Prelude
begin

text \<open>
  The incremental reply parser of \<^verbatim>\<open>libs/hiredis/read.c\<close> with the reply constructors
  of \<^verbatim>\<open>libs/hiredis/hiredis.c\<close>.  The reader's buffer, cursor, task stack and error state
  are a record; reply objects live in a store, a list indexed by their addresses, because the
  constructors write the new object into a slot of its parent.  A freed object is \<open>None\<close>.

  Two pieces of the C library are arguments: \<open>alloc n\<close> says whether a request for \<open>n\<close>
  bytes or elements succeeds, and \<open>strtod_ok s\<close> whether \<open>strtod\<close> consumes all of \<open>s\<close>
  and gives a finite value (the reply keeps the text of a double, which is what the model
  stores).  A buffer that has been released (a NULL pointer) is the empty list: it is released
  only together with the error flag, and every entry point tests that flag first.
\<close>

section \<open>Constants\<close>

abbreviation (input) REDIS_ERR_PROTOCOL :: int where "REDIS_ERR_PROTOCOL \<equiv> 4"
abbreviation (input) REDIS_ERR_OOM :: int where "REDIS_ERR_OOM \<equiv> 5"

abbreviation (input) REDIS_REPLY_STRING :: int where "REDIS_REPLY_STRING \<equiv> 1"
abbreviation (input) REDIS_REPLY_ARRAY :: int where "REDIS_REPLY_ARRAY \<equiv> 2"
abbreviation (input) REDIS_REPLY_INTEGER :: int where "REDIS_REPLY_INTEGER \<equiv> 3"
abbreviation (input) REDIS_REPLY_NIL :: int where "REDIS_REPLY_NIL \<equiv> 4"
abbreviation (input) REDIS_REPLY_STATUS :: int where "REDIS_REPLY_STATUS \<equiv> 5"
abbreviation (input) REDIS_REPLY_ERROR :: int where "REDIS_REPLY_ERROR \<equiv> 6"
abbreviation (input) REDIS_REPLY_DOUBLE :: int where "REDIS_REPLY_DOUBLE \<equiv> 7"
abbreviation (input) REDIS_REPLY_BOOL :: int where "REDIS_REPLY_BOOL \<equiv> 8"
abbreviation (input) REDIS_REPLY_MAP :: int where "REDIS_REPLY_MAP \<equiv> 9"
abbreviation (input) REDIS_REPLY_SET :: int where "REDIS_REPLY_SET \<equiv> 10"
abbreviation (input) REDIS_REPLY_PUSH :: int where "REDIS_REPLY_PUSH \<equiv> 12"
abbreviation (input) REDIS_REPLY_BIGNUM :: int where "REDIS_REPLY_BIGNUM \<equiv> 13"
abbreviation (input) REDIS_REPLY_VERB :: int where "REDIS_REPLY_VERB \<equiv> 14"

abbreviation (input) LLONG_MAX :: int where "LLONG_MAX \<equiv> 9223372036854775807"
abbreviation (input) ULLONG_MAX :: nat where "ULLONG_MAX \<equiv> 18446744073709551615"
abbreviation (input) REDIS_READER_STACK_SIZE :: nat where "REDIS_READER_STACK_SIZE \<equiv> 9"
abbreviation (input) REDIS_READER_MAX_BUF :: nat where "REDIS_READER_MAX_BUF \<equiv> 16384"
abbreviation (input) REDIS_READER_MAX_ARRAY_ELEMENTS :: int where
  "REDIS_READER_MAX_ARRAY_ELEMENTS \<equiv> 4294967295"

section \<open>State\<close>

record redisReply =
  rp_type :: int
  rp_integer :: int
  rp_str :: "string option"
  rp_vtype :: string
  rp_element :: "nat option list"

text \<open>\<open>t_parent\<close> is the index of the parent in the task stack.\<close>

record redisReadTask =
  t_type :: int
  t_elements :: int
  t_idx :: int
  t_obj :: "nat option"
  t_parent :: "nat option"

record redisReader =
  rd_err :: int
  rd_errstr :: string
  rd_buf :: string
  rd_pos :: nat
  rd_len :: nat
  rd_maxbuf :: nat
  rd_maxelements :: int
  rd_task :: "redisReadTask list"
  rd_ridx :: int
  rd_reply :: "nat option"
  rd_heap :: "redisReply option list"

definition zero_task :: redisReadTask where
  "zero_task = \<lparr>t_type = 0, t_elements = 0, t_idx = 0, t_obj = None, t_parent = None\<rparr>"

definition redisReaderCreate :: redisReader where
  "redisReaderCreate =
     \<lparr>rd_err = 0, rd_errstr = [], rd_buf = [], rd_pos = 0, rd_len = 0,
      rd_maxbuf = REDIS_READER_MAX_BUF, rd_maxelements = REDIS_READER_MAX_ARRAY_ELEMENTS,
      rd_task = replicate REDIS_READER_STACK_SIZE zero_task, rd_ridx = -1, rd_reply = None,
      rd_heap = []\<rparr>"

section \<open>Reply objects\<close>

definition createReplyObject :: "int \<Rightarrow> redisReply" where
  "createReplyObject type = \<lparr>rp_type = type, rp_integer = 0, rp_str = None, rp_vtype = [], rp_element = []\<rparr>"

text \<open>
  \<open>freeReplyObject\<close> frees the elements, then the object; \<open>fuel\<close> bounds the depth of the
  recursion and the number of objects in the store is enough, since every element was allocated
  behind its parent.
\<close>

fun freeReplyObject :: "nat \<Rightarrow> redisReply option list \<Rightarrow> nat option \<Rightarrow> redisReply option list" where
  "freeReplyObject fuel h None = h"
| "freeReplyObject 0 h (Some a) = h"
| "freeReplyObject (Suc fuel) h (Some a) =
     (if a < length h then
        (case h ! a of
           None \<Rightarrow> h
         | Some r \<Rightarrow> (foldl (freeReplyObject fuel) h (rp_element r))[a := None])
      else h)"

text \<open>The common end of the constructors: the new object is stored, and entered in its parent.\<close>

definition task_parent_obj :: "redisReader \<Rightarrow> redisReadTask \<Rightarrow> nat option" where
  "task_parent_obj r task =
     (case t_parent task of None \<Rightarrow> None | Some p \<Rightarrow> t_obj (rd_task r ! p))"

definition set_element :: "redisReply option list \<Rightarrow> nat \<Rightarrow> nat \<Rightarrow> nat \<Rightarrow> redisReply option list" where
  "set_element h a i b =
     h[a := map_option (\<lambda>p. p\<lparr>rp_element := (rp_element p)[i := Some b]\<rparr>) (h ! a)]"

definition link_object :: "redisReader \<Rightarrow> redisReadTask \<Rightarrow> redisReply \<Rightarrow> redisReader \<times> nat" where
  "link_object r task ob =
     (let a = length (rd_heap r);
          h = (case task_parent_obj r task of
                 None \<Rightarrow> rd_heap r
               | Some p \<Rightarrow> set_element (rd_heap r) p (nat (t_idx task)) a)
      in (r\<lparr>rd_heap := h @ [Some ob]\<rparr>, a))"

definition createStringObject ::
    "(nat \<Rightarrow> bool) \<Rightarrow> redisReader \<Rightarrow> redisReadTask \<Rightarrow> string \<Rightarrow> (redisReader \<times> nat) option" where
  "createStringObject alloc r task str =
     (let len = length str; ob = createReplyObject (t_type task) in
      if \<not> alloc 1 then None
      else if t_type task = REDIS_REPLY_VERB then
        (if alloc (len - 4 + 1)
         then Some (link_object r task (ob\<lparr>rp_vtype := take 3 str, rp_str := Some (drop 4 str)\<rparr>))
         else None)
      else if alloc (len + 1) then Some (link_object r task (ob\<lparr>rp_str := Some str\<rparr>))
      else None)"

definition createArrayObject ::
    "(nat \<Rightarrow> bool) \<Rightarrow> redisReader \<Rightarrow> redisReadTask \<Rightarrow> nat \<Rightarrow> (redisReader \<times> nat) option" where
  "createArrayObject alloc r task elements =
     (if alloc 1 \<and> (elements > 0 \<longrightarrow> alloc elements)
      then Some (link_object r task ((createReplyObject (t_type task))\<lparr>rp_element := replicate elements None\<rparr>))
      else None)"

definition createIntegerObject ::
    "(nat \<Rightarrow> bool) \<Rightarrow> redisReader \<Rightarrow> redisReadTask \<Rightarrow> int \<Rightarrow> (redisReader \<times> nat) option" where
  "createIntegerObject alloc r task value =
     (if alloc 1
      then Some (link_object r task ((createReplyObject REDIS_REPLY_INTEGER)\<lparr>rp_integer := value\<rparr>))
      else None)"

definition createDoubleObject ::
    "(nat \<Rightarrow> bool) \<Rightarrow> redisReader \<Rightarrow> redisReadTask \<Rightarrow> string \<Rightarrow> (redisReader \<times> nat) option" where
  "createDoubleObject alloc r task str =
     (if alloc 1 \<and> alloc (length str + 1)
      then Some (link_object r task ((createReplyObject REDIS_REPLY_DOUBLE)\<lparr>rp_str := Some str\<rparr>))
      else None)"

definition createNilObject ::
    "(nat \<Rightarrow> bool) \<Rightarrow> redisReader \<Rightarrow> redisReadTask \<Rightarrow> (redisReader \<times> nat) option" where
  "createNilObject alloc r task =
     (if alloc 1 then Some (link_object r task (createReplyObject REDIS_REPLY_NIL)) else None)"

definition createBoolObject ::
    "(nat \<Rightarrow> bool) \<Rightarrow> redisReader \<Rightarrow> redisReadTask \<Rightarrow> bool \<Rightarrow> (redisReader \<times> nat) option" where
  "createBoolObject alloc r task bval =
     (if alloc 1
      then Some (link_object r task ((createReplyObject REDIS_REPLY_BOOL)\<lparr>rp_integer := of_bool bval\<rparr>))
      else None)"

text \<open>
  \<open>redisReaderCreateWithFunctions\<close>: the reader, its buffer, the stack and each of its tasks are
  allocated; \<open>redisReaderFree\<close> releases the reply that is still being built.
\<close>

definition redisReaderCreateWithFunctions :: "(nat \<Rightarrow> bool) \<Rightarrow> redisReader option" where
  "redisReaderCreateWithFunctions alloc =
     (if alloc 1 \<and> alloc 0 \<and> alloc REDIS_READER_STACK_SIZE then Some redisReaderCreate else None)"

definition redisReaderFree :: "redisReader \<Rightarrow> redisReply option list" where
  "redisReaderFree r = freeReplyObject (length (rd_heap r)) (rd_heap r) (rd_reply r)"

section \<open>Errors\<close>

definition redisReaderSetError :: "redisReader \<Rightarrow> int \<Rightarrow> string \<Rightarrow> redisReader" where
  "redisReaderSetError r type str =
     r\<lparr>rd_heap := freeReplyObject (length (rd_heap r)) (rd_heap r) (rd_reply r),
       rd_reply := None, rd_buf := [], rd_pos := 0, rd_len := 0, rd_ridx := -1,
       rd_err := type, rd_errstr := take 127 str\<rparr>"

definition chrtos :: "char \<Rightarrow> string" where
  "chrtos byte =
     (if byte = CHR 0x5C \<or> byte = CHR 0x22 then [CHR 0x22, CHR 0x5C, byte, CHR 0x22]
      else if byte = LF then [CHR 0x22, CHR 0x5C, CHR ''n'', CHR 0x22]
      else if byte = CR then [CHR 0x22, CHR 0x5C, CHR ''r'', CHR 0x22]
      else if byte = CHR 0x09 then [CHR 0x22, CHR 0x5C, CHR ''t'', CHR 0x22]
      else if byte = CHR 0x07 then [CHR 0x22, CHR 0x5C, CHR ''a'', CHR 0x22]
      else if byte = CHR 0x08 then [CHR 0x22, CHR 0x5C, CHR ''b'', CHR 0x22]
      else if isprint byte then [CHR 0x22, byte, CHR 0x22]
      else [CHR 0x22, CHR 0x5C, CHR ''x'', ''0123456789abcdef'' ! (char_code byte div 16),
            ''0123456789abcdef'' ! (char_code byte mod 16), CHR 0x22])"

definition redisReaderSetErrorProtocolByte :: "redisReader \<Rightarrow> char \<Rightarrow> redisReader" where
  "redisReaderSetErrorProtocolByte r byte =
     redisReaderSetError r REDIS_ERR_PROTOCOL
       (take 127 (''Protocol error, got '' @ take 7 (chrtos byte) @ '' as reply type byte''))"

definition redisReaderSetErrorOOM :: "redisReader \<Rightarrow> redisReader" where
  "redisReaderSetErrorOOM r = redisReaderSetError r REDIS_ERR_OOM ''Out of memory''"

section \<open>Reading\<close>

text \<open>\<open>readBytes\<close> with the offset of the bytes in place of the pointer.\<close>

definition readBytes :: "redisReader \<Rightarrow> nat \<Rightarrow> (nat \<times> redisReader) option" where
  "readBytes r bytes =
     (if rd_len r - rd_pos r \<ge> bytes then Some (rd_pos r, r\<lparr>rd_pos := rd_pos r + bytes\<rparr>) else None)"

fun memchr :: "string \<Rightarrow> char \<Rightarrow> nat \<Rightarrow> nat option" where
  "memchr s c 0 = None"
| "memchr [] c (Suc n) = None"
| "memchr (x # s) c (Suc n) = (if x = c then Some 0 else map_option Suc (memchr s c n))"

lemma memchr_bound: "memchr s c n = Some k \<Longrightarrow> k < n \<and> k < length s"
  by (induction s c n arbitrary: k rule: memchr.induct) (auto split: if_splits)

text \<open>
  The loop of \<open>seekNewline\<close>: \<open>s\<close> is what is left of the buffer, \<open>len\<close> how many
  characters may be a carriage return; the result is an offset in \<open>s\<close>.
\<close>

function seek_loop :: "string \<Rightarrow> nat \<Rightarrow> nat option" where
  "seek_loop s len =
     (case memchr s CR len of
        None \<Rightarrow> None
      | Some k \<Rightarrow>
          if s ! (k + 1) = LF then Some k
          else map_option (\<lambda>j. k + 1 + j) (seek_loop (drop (k + 1) s) (len - (k + 1))))"
  by pat_completeness auto
termination by (relation "measure snd") (auto dest: memchr_bound)

declare seek_loop.simps [simp del]

definition seekNewline :: "string \<Rightarrow> nat \<Rightarrow> nat option" where
  "seekNewline s len = (if len < 2 then None else seek_loop s (len - 1))"

text \<open>\<open>string2ll\<close> on the \<open>slen\<close> characters it may read.\<close>

fun digits_loop :: "nat \<Rightarrow> string \<Rightarrow> (nat \<times> string) option" where
  "digits_loop v [] = Some (v, [])"
| "digits_loop v (c # p) =
     (if isdigit c then
        if v > ULLONG_MAX div 10 then None
        else if v * 10 > ULLONG_MAX - (char_code c - 48) then None
        else digits_loop (v * 10 + (char_code c - 48)) p
      else Some (v, c # p))"

definition string2ll :: "string \<Rightarrow> int option" where
  "string2ll s =
     (if s = [] then None
      else if s = ''0'' then Some 0
      else
        let negative = (hd s = CHR ''-''); p = (if negative then tl s else s) in
        if p = [] then None
        else if 49 \<le> char_code (hd p) \<and> char_code (hd p) \<le> 57 then
          (case digits_loop (char_code (hd p) - 48) (tl p) of
             None \<Rightarrow> None
           | Some (v, rest) \<Rightarrow>
               if rest \<noteq> [] then None
               else if negative then (if v > 9223372036854775808 then None else Some (- int v))
               else (if int v > LLONG_MAX then None else Some (int v)))
        else None)"

definition readLine :: "redisReader \<Rightarrow> (string \<times> redisReader) option" where
  "readLine r =
     (let p = drop (rd_pos r) (rd_buf r) in
      case seekNewline p (rd_len r - rd_pos r) of
        None \<Rightarrow> None
      | Some len \<Rightarrow> Some (take len p, r\<lparr>rd_pos := rd_pos r + len + 2\<rparr>))"

section \<open>The task stack\<close>

abbreviation cur_task :: "redisReader \<Rightarrow> redisReadTask" where
  "cur_task r \<equiv> rd_task r ! nat (rd_ridx r)"

definition upd_task :: "(redisReadTask \<Rightarrow> redisReadTask) \<Rightarrow> redisReader \<Rightarrow> redisReader" where
  "upd_task f r = r\<lparr>rd_task := (rd_task r)[nat (rd_ridx r) := f (cur_task r)]\<rparr>"

function moveToNextTask :: "redisReader \<Rightarrow> redisReader" where
  "moveToNextTask r =
     (if rd_ridx r \<ge> 0 then
        if rd_ridx r = 0 then r\<lparr>rd_ridx := -1\<rparr>
        else
          let cur = cur_task r; prv = rd_task r ! nat (rd_ridx r - 1) in
          if t_idx cur = t_elements prv - 1 then moveToNextTask (r\<lparr>rd_ridx := rd_ridx r - 1\<rparr>)
          else upd_task (\<lambda>t. t\<lparr>t_type := -1, t_elements := -1, t_idx := t_idx t + 1\<rparr>) r
      else r)"
  by pat_completeness auto
termination by (relation "measure (\<lambda>r. nat (rd_ridx r))") auto

declare moveToNextTask.simps [simp del]

section \<open>Items\<close>

text \<open>The end of each item: an object that could not be created is an error, the root is kept.\<close>

definition finish_item :: "redisReader \<Rightarrow> (redisReader \<times> nat) option \<Rightarrow> bool \<times> redisReader" where
  "finish_item r c =
     (case c of
        None \<Rightarrow> (False, redisReaderSetErrorOOM r)
      | Some (r, a) \<Rightarrow>
          let r = (if rd_ridx r = 0 then r\<lparr>rd_reply := Some a\<rparr> else r) in (True, moveToNextTask r))"

abbreviation (input) protocol_error :: "redisReader \<Rightarrow> string \<Rightarrow> bool \<times> redisReader" where
  "protocol_error r msg \<equiv> (False, redisReaderSetError r REDIS_ERR_PROTOCOL msg)"

definition to_lower_char :: "char \<Rightarrow> char" where
  "to_lower_char c = (if 65 \<le> char_code c \<and> char_code c \<le> 90 then char_of (char_code c + 32) else c)"

definition bignum_ok :: "string \<Rightarrow> bool" where
  "bignum_ok p = list_all isdigit (case p of c # q \<Rightarrow> if c = CHR ''-'' then q else p | [] \<Rightarrow> [])"

definition processLineItem ::
    "(nat \<Rightarrow> bool) \<Rightarrow> (string \<Rightarrow> bool) \<Rightarrow> redisReader \<Rightarrow> bool \<times> redisReader" where
  "processLineItem alloc strtod_ok r =
     (case readLine r of
        None \<Rightarrow> (False, r)
      | Some (p, r) \<Rightarrow>
          let cur = cur_task r; len = length p in
          if t_type cur = REDIS_REPLY_INTEGER then
            (case string2ll p of
               None \<Rightarrow> protocol_error r ''Bad integer value''
             | Some v \<Rightarrow> finish_item r (createIntegerObject alloc r cur v))
          else if t_type cur = REDIS_REPLY_DOUBLE then
            if len \<ge> 326 then protocol_error r ''Double value is too large''
            else if (len = 3 \<and> map to_lower_char (takeWhile (\<lambda>c. c \<noteq> NUL) p) = ''inf'') \<or>
                    (len = 4 \<and> map to_lower_char (takeWhile (\<lambda>c. c \<noteq> NUL) p) = ''-inf'') \<or>
                    (p \<noteq> [] \<and> hd p \<noteq> NUL \<and> strtod_ok p)
            then finish_item r (createDoubleObject alloc r cur p)
            else protocol_error r ''Bad double value''
          else if t_type cur = REDIS_REPLY_NIL then
            if len \<noteq> 0 then protocol_error r ''Bad nil value''
            else finish_item r (createNilObject alloc r cur)
          else if t_type cur = REDIS_REPLY_BOOL then
            if len \<noteq> 1 \<or> hd p \<notin> {CHR ''t'', CHR ''T'', CHR ''f'', CHR ''F'', NUL}
            then protocol_error r ''Bad bool value''
            else finish_item r (createBoolObject alloc r cur (hd p = CHR ''t'' \<or> hd p = CHR ''T''))
          else if t_type cur = REDIS_REPLY_BIGNUM then
            if bignum_ok p then finish_item r (createStringObject alloc r cur p)
            else protocol_error r ''Bad bignum value''
          else
            if CR \<in> set p \<or> LF \<in> set p then protocol_error r ''Bad simple string value''
            else finish_item r (createStringObject alloc r cur p))"

definition processBulkItem :: "(nat \<Rightarrow> bool) \<Rightarrow> redisReader \<Rightarrow> bool \<times> redisReader" where
  "processBulkItem alloc r =
     (let cur = cur_task r; p = drop (rd_pos r) (rd_buf r) in
      case seekNewline p (rd_len r - rd_pos r) of
        None \<Rightarrow> (False, r)
      | Some s \<Rightarrow>
          (case string2ll (take s p) of
             None \<Rightarrow> protocol_error r ''Bad bulk string length''
           | Some len \<Rightarrow>
               if len < -1 then protocol_error r ''Bulk string length out of range''
               else if len = -1 then
                 finish_item (r\<lparr>rd_pos := rd_pos r + (s + 2)\<rparr>)
                   (createNilObject alloc (r\<lparr>rd_pos := rd_pos r + (s + 2)\<rparr>) cur)
               else
                 let bytelen = s + 2 + nat len + 2 in
                 if rd_pos r + bytelen \<le> rd_len r then
                   if t_type cur = REDIS_REPLY_VERB \<and> (len < 4 \<or> p ! (s + 5) \<noteq> CHR '':'')
                   then protocol_error r
                     ''Verbatim string 4 bytes of content type are missing or incorrectly encoded.''
                   else
                     finish_item (r\<lparr>rd_pos := rd_pos r + bytelen\<rparr>)
                       (createStringObject alloc (r\<lparr>rd_pos := rd_pos r + bytelen\<rparr>) cur
                         (take (nat len) (drop (s + 2) p)))
                 else (False, r)))"

definition redisReaderGrow :: "(nat \<Rightarrow> bool) \<Rightarrow> redisReader \<Rightarrow> bool \<times> redisReader" where
  "redisReaderGrow alloc r =
     (let newlen = length (rd_task r) + REDIS_READER_STACK_SIZE in
      if alloc newlen \<and> alloc 1
      then (True, r\<lparr>rd_task := rd_task r @ replicate REDIS_READER_STACK_SIZE zero_task\<rparr>)
      else (False, redisReaderSetErrorOOM r))"

text \<open>\<open>processAggregateItem\<close> behind the test for a full stack.\<close>

definition fresh_task :: "int \<Rightarrow> nat option \<Rightarrow> redisReadTask" where
  "fresh_task idx parent = \<lparr>t_type = -1, t_elements = -1, t_idx = idx, t_obj = None, t_parent = parent\<rparr>"

definition push_task :: "redisReader \<Rightarrow> int \<Rightarrow> nat \<Rightarrow> redisReader" where
  "push_task r elements a =
     (let r = upd_task (\<lambda>t. t\<lparr>t_elements := elements, t_obj := Some a\<rparr>) r;
          k = nat (rd_ridx r)
      in r\<lparr>rd_ridx := rd_ridx r + 1, rd_task := (rd_task r)[Suc k := fresh_task 0 (Some k)]\<rparr>)"

definition aggregate_body :: "(nat \<Rightarrow> bool) \<Rightarrow> redisReader \<Rightarrow> bool \<times> redisReader" where
  "aggregate_body alloc r =
     (case readLine r of
        None \<Rightarrow> (False, r)
      | Some (p, r) \<Rightarrow>
          (case string2ll p of
             None \<Rightarrow> protocol_error r ''Bad multi-bulk length''
           | Some elements \<Rightarrow>
               let cur = cur_task r; root = (rd_ridx r = 0) in
               if elements < -1 \<or> (rd_maxelements r > 0 \<and> elements > rd_maxelements r)
               then protocol_error r ''Multi-bulk length out of range''
               else if elements = -1 then
                 (case createNilObject alloc r cur of
                    None \<Rightarrow> (False, redisReaderSetErrorOOM r)
                  | Some (r, a) \<Rightarrow>
                      let r = moveToNextTask r in
                      (True, if root then r\<lparr>rd_reply := Some a\<rparr> else r))
               else
                 let elements = (if t_type cur = REDIS_REPLY_MAP then elements * 2 else elements) in
                 (case createArrayObject alloc r cur (nat elements) of
                    None \<Rightarrow> (False, redisReaderSetErrorOOM r)
                  | Some (r, a) \<Rightarrow>
                      let r = (if elements > 0 then push_task r elements a else moveToNextTask r) in
                      (True, if root then r\<lparr>rd_reply := Some a\<rparr> else r))))"

definition processAggregateItem :: "(nat \<Rightarrow> bool) \<Rightarrow> redisReader \<Rightarrow> bool \<times> redisReader" where
  "processAggregateItem alloc r =
     (let (ok, r) = (if rd_ridx r = int (length (rd_task r)) - 1 then redisReaderGrow alloc r
                     else (True, r))
      in if ok then aggregate_body alloc r else (False, r))"

definition type_of_byte :: "char \<Rightarrow> int option" where
  "type_of_byte c =
     (if c = CHR ''-'' then Some REDIS_REPLY_ERROR
      else if c = CHR ''+'' then Some REDIS_REPLY_STATUS
      else if c = CHR '':'' then Some REDIS_REPLY_INTEGER
      else if c = CHR '','' then Some REDIS_REPLY_DOUBLE
      else if c = CHR ''_'' then Some REDIS_REPLY_NIL
      else if c = CHR ''$'' then Some REDIS_REPLY_STRING
      else if c = CHR ''*'' then Some REDIS_REPLY_ARRAY
      else if c = CHR ''%'' then Some REDIS_REPLY_MAP
      else if c = CHR ''~'' then Some REDIS_REPLY_SET
      else if c = CHR ''#'' then Some REDIS_REPLY_BOOL
      else if c = CHR ''='' then Some REDIS_REPLY_VERB
      else if c = CHR ''>'' then Some REDIS_REPLY_PUSH
      else if c = CHR ''('' then Some REDIS_REPLY_BIGNUM
      else None)"

text \<open>The item once its type is known.\<close>

definition process_typed ::
    "(nat \<Rightarrow> bool) \<Rightarrow> (string \<Rightarrow> bool) \<Rightarrow> redisReader \<Rightarrow> bool \<times> redisReader" where
  "process_typed alloc strtod_ok r =
     (let type = t_type (cur_task r) in
      if type \<in> {REDIS_REPLY_ERROR, REDIS_REPLY_STATUS, REDIS_REPLY_INTEGER, REDIS_REPLY_DOUBLE,
                 REDIS_REPLY_NIL, REDIS_REPLY_BOOL, REDIS_REPLY_BIGNUM}
      then processLineItem alloc strtod_ok r
      else if type \<in> {REDIS_REPLY_STRING, REDIS_REPLY_VERB} then processBulkItem alloc r
      else if type \<in> {REDIS_REPLY_ARRAY, REDIS_REPLY_MAP, REDIS_REPLY_SET, REDIS_REPLY_PUSH}
      then processAggregateItem alloc r
      else (False, r))"

definition processItem ::
    "(nat \<Rightarrow> bool) \<Rightarrow> (string \<Rightarrow> bool) \<Rightarrow> redisReader \<Rightarrow> bool \<times> redisReader" where
  "processItem alloc strtod_ok r =
     (if t_type (cur_task r) < 0 then
        (case readBytes r 1 of
           None \<Rightarrow> (False, r)
         | Some (p, r) \<Rightarrow>
             (case type_of_byte (rd_buf r ! p) of
                None \<Rightarrow> (False, redisReaderSetErrorProtocolByte r (rd_buf r ! p))
              | Some type \<Rightarrow> process_typed alloc strtod_ok (upd_task (\<lambda>t. t\<lparr>t_type := type\<rparr>) r)))
      else process_typed alloc strtod_ok r)"

section \<open>Every item consumes input\<close>

lemma memchr_Some: "memchr s c n = Some k \<Longrightarrow> k < length s \<and> s ! k = c"
  by (induction s c n arbitrary: k rule: memchr.induct) (auto split: if_splits)

lemma seek_loop_bound: "seek_loop s len = Some k \<Longrightarrow> k < len"
proof (induction s len arbitrary: k rule: seek_loop.induct)
  case (1 s len)
  from "1.prems" obtain j where j: "memchr s CR len = Some j"
    by (subst (asm) seek_loop.simps) (auto split: option.splits)
  show ?case
  proof (cases "s ! (j + 1) = LF")
    case True
    with "1.prems" j memchr_bound [OF j] show ?thesis by (simp add: seek_loop.simps)
  next
    case False
    with "1.prems" j obtain i where
      "seek_loop (drop (j + 1) s) (len - (j + 1)) = Some i" "k = j + 1 + i"
      by (subst (asm) seek_loop.simps) (auto split: if_splits)
    with "1.IH" [OF j False] show ?thesis by auto
  qed
qed

lemma seekNewline_bound: "seekNewline s len = Some k \<Longrightarrow> k + 2 \<le> len"
  using seek_loop_bound by (fastforce simp: seekNewline_def split: if_splits)

text \<open>The fields that only \<open>redisReaderSetError\<close> and the cursor change.\<close>

definition progress :: "redisReader \<Rightarrow> bool \<times> redisReader \<Rightarrow> bool" where
  "progress r res \<longleftrightarrow> fst res \<longrightarrow>
     rd_len (snd res) = rd_len r \<and> rd_pos r < rd_pos (snd res) \<and> rd_pos (snd res) \<le> rd_len r"

lemma moveToNextTask_fields [simp]:
  "rd_pos (moveToNextTask r) = rd_pos r \<and> rd_len (moveToNextTask r) = rd_len r \<and>
   rd_buf (moveToNextTask r) = rd_buf r \<and> rd_heap (moveToNextTask r) = rd_heap r \<and>
   rd_reply (moveToNextTask r) = rd_reply r \<and> rd_err (moveToNextTask r) = rd_err r \<and>
   rd_errstr (moveToNextTask r) = rd_errstr r \<and> rd_maxbuf (moveToNextTask r) = rd_maxbuf r \<and>
   rd_maxelements (moveToNextTask r) = rd_maxelements r"
proof (induction r rule: moveToNextTask.induct)
  case (1 r)
  then show ?case by (subst (1 2 3 4 5 6 7 8 9) moveToNextTask.simps) (simp add: Let_def upd_task_def)
qed

lemmas create_defs = createStringObject_def createArrayObject_def createIntegerObject_def
  createDoubleObject_def createNilObject_def createBoolObject_def

definition created :: "redisReader \<Rightarrow> (redisReader \<times> nat) option \<Rightarrow> bool" where
  "created r c \<longleftrightarrow> (\<forall>r' a. c = Some (r', a) \<longrightarrow> rd_pos r' = rd_pos r \<and> rd_len r' = rd_len r)"

lemma created_link [simp]: "created r (Some (link_object r task ob))"
  by (auto simp: created_def link_object_def Let_def)

lemma created_None [simp]: "created r None"
  by (simp add: created_def)

lemma created_objects [simp]:
  "created r (createStringObject alloc r task str)" "created r (createArrayObject alloc r task n)"
  "created r (createIntegerObject alloc r task v)" "created r (createDoubleObject alloc r task str)"
  "created r (createNilObject alloc r task)" "created r (createBoolObject alloc r task b)"
  by (simp_all add: create_defs Let_def)

lemma progress_False [simp]: "progress r (False, r')"
  by (simp add: progress_def)

lemma progress_finish:
  assumes "created r' c" "rd_len r' = rd_len r" "rd_pos r < rd_pos r'" "rd_pos r' \<le> rd_len r"
  shows "progress r (finish_item r' c)"
proof (cases c)
  case None
  then show ?thesis by (simp add: finish_item_def)
next
  case (Some ra)
  obtain r'' a where ra: "ra = (r'', a)" by (cases ra)
  with Some assms(1) have "rd_len r'' = rd_len r'" "rd_pos r'' = rd_pos r'" by (simp_all add: created_def)
  with Some ra assms(2-) show ?thesis by (simp add: finish_item_def progress_def Let_def)
qed

lemma progress_weaken:
  "progress r' res \<Longrightarrow> rd_len r' = rd_len r \<Longrightarrow> rd_pos r \<le> rd_pos r' \<Longrightarrow> progress r res"
  by (auto simp: progress_def)

text \<open>Rules that take a handler apart along its branches.\<close>

lemma progress_if:
  "(c \<Longrightarrow> progress r a) \<Longrightarrow> (\<not> c \<Longrightarrow> progress r b) \<Longrightarrow> progress r (if c then a else b)"
  by simp

lemma progress_option:
  "progress r a \<Longrightarrow> (\<And>x. o' = Some x \<Longrightarrow> progress r (f x)) \<Longrightarrow>
     progress r (case o' of None \<Rightarrow> a | Some x \<Rightarrow> f x)"
  by (cases o') simp_all

lemma progress_created:
  assumes "created r' c"
    and "\<And>r'' a. rd_len r'' = rd_len r' \<Longrightarrow> rd_pos r'' = rd_pos r' \<Longrightarrow> progress r (f r'' a)"
  shows "progress r (case c of None \<Rightarrow> (False, e) | Some (r'', a) \<Rightarrow> f r'' a)"
  using assms by (auto simp: created_def split: option.splits)

lemma readLine_progress:
  "readLine r = Some (p, r') \<Longrightarrow>
     rd_len r' = rd_len r \<and> rd_pos r < rd_pos r' \<and> rd_pos r' \<le> rd_len r \<and> rd_task r' = rd_task r \<and>
     rd_ridx r' = rd_ridx r"
  by (auto simp: readLine_def Let_def split: option.splits dest!: seekNewline_bound)

lemma progress_readLine:
  assumes "\<And>p r'. rd_len r' = rd_len r \<Longrightarrow> rd_pos r < rd_pos r' \<Longrightarrow> rd_pos r' \<le> rd_len r \<Longrightarrow>
      progress r (f p r')"
  shows "progress r (case readLine r of None \<Rightarrow> (False, r) | Some (p, r') \<Rightarrow> f p r')"
  using assms by (auto split: option.splits dest!: readLine_progress)

lemma progress_line: "progress r (processLineItem alloc strtod_ok r)"
  unfolding processLineItem_def Let_def
  by (rule progress_readLine) (intro progress_if progress_option progress_finish progress_False; simp)

lemma progress_bulk: "progress r (processBulkItem alloc r)"
  unfolding processBulkItem_def Let_def
  by (intro progress_if progress_option progress_finish progress_False) (auto dest!: seekNewline_bound)

lemma push_task_fields [simp]:
  "rd_pos (push_task r e a) = rd_pos r" "rd_len (push_task r e a) = rd_len r"
  by (simp_all add: push_task_def upd_task_def Let_def)

lemma progress_True: "rd_len r' = rd_len r \<Longrightarrow> rd_pos r < rd_pos r' \<Longrightarrow> rd_pos r' \<le> rd_len r \<Longrightarrow> progress r (True, r')"
  by (simp add: progress_def)

lemma progress_aggregate_body: "progress r (aggregate_body alloc r)"
  unfolding aggregate_body_def Let_def
  by (rule progress_readLine)
    (intro progress_if progress_created [OF created_objects(2)] progress_created [OF created_objects(5)]
      progress_option progress_True progress_False; simp)

lemma progress_aggregate: "progress r (processAggregateItem alloc r)"
  using progress_weaken [OF progress_aggregate_body [of "r\<lparr>rd_task := rd_task r @ replicate 9 zero_task\<rparr>" alloc], of r]
    progress_aggregate_body [of r alloc]
  by (simp add: processAggregateItem_def redisReaderGrow_def Let_def)

lemma progress_typed: "progress r (process_typed alloc strtod_ok r)"
  by (simp add: process_typed_def Let_def progress_line progress_bulk progress_aggregate)

lemma processItem_progress: "progress r (processItem alloc strtod_ok r)"
proof (cases "t_type (cur_task r) < 0")
  case True
  have "progress r (process_typed alloc strtod_ok (upd_task f r'))" if "readBytes r 1 = Some (p, r')" for p r' f
    by (rule progress_weaken [OF progress_typed])
      (use that in \<open>auto simp: readBytes_def upd_task_def split: if_splits\<close>)
  with True show ?thesis by (auto simp: processItem_def split: option.splits)
qed (simp add: processItem_def progress_typed)

section \<open>Entry points\<close>

text \<open>The loop of \<open>redisReaderGetReply\<close>.\<close>

function process_items :: "(nat \<Rightarrow> bool) \<Rightarrow> (string \<Rightarrow> bool) \<Rightarrow> redisReader \<Rightarrow> redisReader" where
  "process_items alloc strtod_ok r =
     (if rd_ridx r \<ge> 0 then
        let (ok, r') = processItem alloc strtod_ok r in
        if ok then process_items alloc strtod_ok r' else r'
      else r)"
  by pat_completeness auto
termination
proof (relation "measure (\<lambda>(alloc, strtod_ok, r). rd_len r - rd_pos r)", goal_cases)
  case (2 alloc strtod_ok r res ok r')
  then have "processItem alloc strtod_ok r = (True, r')" by simp
  then show ?case using processItem_progress [of r alloc strtod_ok] by (simp add: progress_def diff_less_mono2)
qed simp

declare process_items.simps [simp del]

text \<open>\<open>redisReaderFeed\<close>; \<open>avail\<close> is the spare room of the buffer, \<open>sdsavail\<close>.\<close>

definition redisReaderFeed ::
    "(nat \<Rightarrow> bool) \<Rightarrow> nat \<Rightarrow> redisReader \<Rightarrow> string \<Rightarrow> bool \<times> redisReader" where
  "redisReaderFeed alloc avail r buf =
     (if rd_err r \<noteq> 0 then (False, r)
      else if buf = [] then (True, r)
      else
        let reset = (rd_len r = 0 \<and> rd_maxbuf r \<noteq> 0 \<and> avail > rd_maxbuf r) in
        if reset \<and> \<not> alloc 0 then (False, redisReaderSetErrorOOM r)
        else
          let r = (if reset then r\<lparr>rd_buf := [], rd_pos := 0\<rparr> else r) in
          if \<not> alloc (length (rd_buf r) + length buf) then (False, redisReaderSetErrorOOM r)
          else
            let newbuf = rd_buf r @ buf in
            (True, r\<lparr>rd_buf := newbuf, rd_len := length newbuf\<rparr>))"

text \<open>\<open>redisReaderGetReply\<close> with a target for the reply.\<close>

definition start_root :: "redisReader \<Rightarrow> redisReader" where
  "start_root r =
     (if rd_ridx r = -1 then r\<lparr>rd_task := (rd_task r)[0 := fresh_task (-1) None], rd_ridx := 0\<rparr> else r)"

definition discard_input :: "redisReader \<Rightarrow> redisReader" where
  "discard_input r =
     (if rd_pos r \<ge> 1024
      then let buf = drop (rd_pos r) (rd_buf r) in r\<lparr>rd_buf := buf, rd_pos := 0, rd_len := length buf\<rparr>
      else r)"

definition redisReaderGetReply ::
    "(nat \<Rightarrow> bool) \<Rightarrow> (string \<Rightarrow> bool) \<Rightarrow> redisReader \<Rightarrow> bool \<times> nat option \<times> redisReader" where
  "redisReaderGetReply alloc strtod_ok r =
     (if rd_err r \<noteq> 0 then (False, None, r)
      else if rd_len r = 0 then (True, None, r)
      else
        let r = process_items alloc strtod_ok (start_root r) in
        if rd_err r \<noteq> 0 then (False, None, r)
        else
          let r = discard_input r in
          if rd_ridx r = -1 then (True, rd_reply r, r\<lparr>rd_reply := None\<rparr>)
          else (True, None, r))"

end
