(* ===== verification/Redis_Reader_Props.thy ===== *)
theory Redis_Reader_Props
  imports Redis_Reader
begin

text \<open>
  What the reader guarantees: \<open>string2ll\<close> accepts exactly the canonical decimal form of a
  \<open>long long\<close>; \<open>seekNewline\<close> finds the first line end; and a complete protocol value is
  parsed into the objects that describe it, consuming exactly its bytes.
\<close>

section \<open>Decimal numbers\<close>

lemma dec_value_snoc: "dec_value (xs @ [c]) = dec_value xs * 10 + (char_code c - 48)"
  by (simp add: dec_value_append)

lemma digit_char_of_digit: "isdigit c \<Longrightarrow> digit_char (char_code c - 48) = c"
  by (simp add: isdigit_def digit_char_def char_code_def)

lemma dec_value_pos:
  "list_all isdigit s \<Longrightarrow> s \<noteq> [] \<Longrightarrow> hd s \<noteq> CHR ''0'' \<Longrightarrow> 0 < dec_value s"
proof (cases s)
  case (Cons c cs)
  assume "list_all isdigit s" "hd s \<noteq> CHR ''0''"
  moreover have "char_code (CHR ''0'') = 48" by (simp add: char_code_def)
  ultimately have "48 < char_code c"
    using Cons char_code_eq_iff [of c "CHR ''0''"] by (auto simp: isdigit_def)
  with Cons show ?thesis by simp
qed simp

lemma udec_dec_value:
  "list_all isdigit s \<Longrightarrow> s \<noteq> [] \<Longrightarrow> hd s \<noteq> CHR ''0'' \<Longrightarrow> udec (dec_value s) = s"
proof (induction s rule: rev_induct)
  case (snoc c s)
  have d: "char_code c - 48 < 10" "digit_char (char_code c - 48) = c"
    using snoc.prems by (auto simp: isdigit_def digit_char_of_digit)
  show ?case
  proof (cases "s = []")
    case True
    with d show ?thesis by (simp add: udec.simps)
  next
    case False
    with snoc.prems have s: "list_all isdigit s" "hd s \<noteq> CHR ''0''" by auto
    from dec_value_pos [OF s(1) False s(2)] have "\<not> dec_value s * 10 + (char_code c - 48) < 10" by simp
    with d snoc.IH [OF s(1) False s(2)] show ?thesis
      by (subst udec.simps) (simp add: dec_value_snoc)
  qed
qed simp

lemma digits_loop_Some:
  "list_all isdigit p \<Longrightarrow> v * 10 ^ length p + dec_value p \<le> ULLONG_MAX \<Longrightarrow>
     digits_loop v p = Some (v * 10 ^ length p + dec_value p, [])"
proof (induction p arbitrary: v)
  case (Cons c p)
  let ?d = "char_code c - 48"
  have e: "v * 10 ^ length (c # p) + dec_value (c # p) = (v * 10 + ?d) * 10 ^ length p + dec_value p"
    by (simp add: algebra_simps)
  have "v * 10 + ?d \<le> (v * 10 + ?d) * 10 ^ length p" by simp
  with Cons.prems(2) e have b: "v * 10 + ?d \<le> ULLONG_MAX" by linarith
  then have "\<not> v > ULLONG_MAX div 10" "\<not> v * 10 > ULLONG_MAX - ?d" by auto
  with Cons e show ?case by simp
qed simp

lemma digits_loop_SomeD:
  "digits_loop v p = Some (w, []) \<Longrightarrow> list_all isdigit p \<and> w = v * 10 ^ length p + dec_value p"
proof (induction p arbitrary: v)
  case (Cons c p)
  then have "isdigit c" "digits_loop (v * 10 + (char_code c - 48)) p = Some (w, [])"
    by (auto split: if_splits)
  with Cons.IH have "list_all isdigit p" "w = (v * 10 + (char_code c - 48)) * 10 ^ length p + dec_value p"
    by blast+
  with \<open>isdigit c\<close> show ?case by (simp add: add_mult_distrib)
qed simp

lemma char_code_minus: "char_code (CHR ''-'') = 45"
  by (simp add: char_code_def)

lemma string2ll_udec:
  assumes "0 < n" "int n \<le> LLONG_MAX"
  shows "string2ll (udec n) = Some (int n)"
proof -
  obtain c p where cp: "udec n = c # p" by (cases "udec n") auto
  have c: "49 \<le> char_code c" "char_code c \<le> 57" using hd_udec [OF assms(1)] cp by auto
  have n: "n = (char_code c - 48) * 10 ^ length p + dec_value p"
    using dec_value_udec [of n] cp by simp
  have p: "list_all isdigit p" using udec_digits [of _ n] cp by (auto simp: list_all_iff)
  have "c \<noteq> CHR ''-''" using c char_code_minus by auto
  moreover have "char_code (CHR ''0'') = 48" by (simp add: char_code_def)
  ultimately show ?thesis
    using c cp digits_loop_Some [OF p, of "char_code c - 48"] n assms
    by (auto simp: string2ll_def)
qed

lemma string2ll_minus_udec:
  assumes "0 < n" "n \<le> 9223372036854775808"
  shows "string2ll (CHR ''-'' # udec n) = Some (- int n)"
proof -
  obtain c p where cp: "udec n = c # p" by (cases "udec n") auto
  have c: "49 \<le> char_code c" "char_code c \<le> 57" using hd_udec [OF assms(1)] cp by auto
  have n: "n = (char_code c - 48) * 10 ^ length p + dec_value p"
    using dec_value_udec [of n] cp by simp
  have p: "list_all isdigit p" using udec_digits [of _ n] cp by (auto simp: list_all_iff)
  show ?thesis
    using c cp digits_loop_Some [OF p, of "char_code c - 48"] n assms
    by (auto simp: string2ll_def)
qed

lemma string2ll_sdec:
  "- 9223372036854775808 \<le> n \<Longrightarrow> n \<le> LLONG_MAX \<Longrightarrow> string2ll (sdec n) = Some n"
proof -
  assume n: "- 9223372036854775808 \<le> n" "n \<le> LLONG_MAX"
  consider "n = 0" | "0 < n" | "n < 0" by linarith
  then show ?thesis
  proof cases
    case 1
    moreover have "string2ll (sdec 0) = Some 0" by code_simp
    ultimately show ?thesis by simp
  next
    case 2
    with n string2ll_udec [of "nat n"] show ?thesis by (simp add: sdec_def)
  next
    case 3
    with n string2ll_minus_udec [of "nat (- n)"] show ?thesis by (simp add: sdec_def)
  qed
qed

lemma string2ll_SomeD:
  assumes "string2ll s = Some n"
  shows "s = sdec n \<and> - 9223372036854775808 \<le> n \<and> n \<le> LLONG_MAX"
proof (cases "s = ''0''")
  case True
  moreover have "string2ll ''0'' = Some 0" "sdec 0 = ''0''" by code_simp+
  ultimately show ?thesis using assms by simp
next
  case False
  define neg p where "neg = (hd s = CHR ''-'')" and "p = (if neg then tl s else s)"
  have s: "s \<noteq> []" using assms by (auto simp: string2ll_def)
  from assms False s obtain v where
    p: "p \<noteq> []" "49 \<le> char_code (hd p)" "char_code (hd p) \<le> 57"
      "digits_loop (char_code (hd p) - 48) (tl p) = Some (v, [])"
    and v: "if neg then v \<le> 9223372036854775808 \<and> n = - int v else int v \<le> LLONG_MAX \<and> n = int v"
    by (auto simp: string2ll_def Let_def neg_def p_def split: if_splits option.splits)
  obtain c q where cq: "p = c # q" using p(1) by (cases p) auto
  from digits_loop_SomeD [OF p(4)] cq have q: "list_all isdigit q" and "v = dec_value p" by auto
  moreover have "list_all isdigit p" "hd p \<noteq> CHR ''0''"
    using q p(2,3) cq by (auto simp: isdigit_def char_code_def)
  ultimately have "udec v = p" "0 < v" using udec_dec_value [of p] dec_value_pos [of p] p(1) by auto
  with v s show ?thesis
    by (cases neg; cases s) (auto simp: sdec_def neg_def p_def)
qed

section \<open>Line ends\<close>

text \<open>The first line end of a string.\<close>

fun find_crlf :: "string \<Rightarrow> nat option" where
  "find_crlf (a # b # s) = (if a = CR \<and> b = LF then Some 0 else map_option Suc (find_crlf (b # s)))"
| "find_crlf _ = None"

lemma memchr_split:
  "memchr s c n = (if c \<in> set (take n s) then Some (length (takeWhile (\<lambda>x. x \<noteq> c) s)) else None)"
  by (induction s c n rule: memchr.induct) auto

lemma find_crlf_no_CR: "CR \<notin> set s \<Longrightarrow> find_crlf (s @ t) = map_option ((+) (length s)) (find_crlf t)"
proof (induction s)
  case (Cons a s)
  then have "find_crlf (a # (s @ t)) = map_option Suc (find_crlf (s @ t))"
    by (cases "s @ t") auto
  with Cons show ?case by (simp add: option.map_comp comp_def)
qed (cases "find_crlf t"; simp)

lemma find_crlf_None: "CR \<notin> set (butlast s) \<Longrightarrow> find_crlf s = None"
  by (induction s rule: find_crlf.induct) auto

lemma seek_loop_find: "seek_loop s (length s - 1) = find_crlf s"
proof (induction "length s" arbitrary: s rule: less_induct)
  case less
  show ?case
  proof (cases "CR \<in> set (take (length s - 1) s)")
    case False
    then have "seek_loop s (length s - 1) = None"
      by (subst seek_loop.simps) (simp add: memchr_split)
    with False show ?thesis by (simp add: find_crlf_None butlast_conv_take)
  next
    case True
    define k where "k = length (takeWhile (\<lambda>x. x \<noteq> CR) s)"
    have m: "memchr s CR (length s - 1) = Some k" using True by (simp add: memchr_split k_def)
    then have k: "k < length s - 1" "s ! k = CR" using memchr_bound [OF m] memchr_Some [OF m] by auto
    have s: "s = takeWhile (\<lambda>x. x \<noteq> CR) s @ CR # drop (k + 1) s"
      using k id_take_nth_drop [of k s] takeWhile_eq_take [of "\<lambda>x. x \<noteq> CR" s] by (simp add: k_def)
    obtain b rest where b: "drop (k + 1) s = b # rest"
      using k by (cases "drop (k + 1) s") auto
    have "CR \<notin> set (takeWhile (\<lambda>x. x \<noteq> CR) s)" by (auto dest: set_takeWhileD)
    from find_crlf_no_CR [OF this, of "CR # b # rest"]
    have f: "find_crlf s = map_option ((+) k) (find_crlf (CR # b # rest))"
      using s b k_def by metis
    have sb: "s ! (k + 1) = b" using b k by (metis hd_drop_conv_nth list.sel(1) less_diff_conv)
    have "length (drop (k + 1) s) < length s" "length s - 1 - (k + 1) = length (drop (k + 1) s) - 1"
      using k by auto
    with less [of "drop (k + 1) s"] have
      ih: "seek_loop (drop (k + 1) s) (length s - 1 - (k + 1)) = find_crlf (b # rest)" by (simp add: b [simplified])
    have "seek_loop s (length s - 1) =
        (if b = LF then Some k else map_option (\<lambda>j. k + 1 + j) (find_crlf (b # rest)))"
      by (subst seek_loop.simps) (simp only: m option.case sb ih)
    with f show ?thesis by (auto simp: option.map_comp comp_def)
  qed
qed

lemma seekNewline_find: "seekNewline s (length s) = find_crlf s"
proof (cases "length s < 2")
  case True
  then show ?thesis by (cases s rule: find_crlf.cases) (auto simp: seekNewline_def)
next
  case False
  then show ?thesis using seek_loop_find [of s] by (simp add: seekNewline_def)
qed

lemma find_crlf_line: "CR \<notin> set l \<Longrightarrow> find_crlf (l @ CR # LF # rest) = Some (length l)"
  by (simp add: find_crlf_no_CR)

section \<open>Protocol values\<close>

text \<open>
  The values of the protocol with their encodings, and the objects that describe a value: the
  parser allocates them in preorder, so a value parsed into a store of \<open>a\<close> objects occupies
  the addresses from \<open>a\<close> on.
\<close>

datatype nil_form = Nil_Line | Nil_Bulk | Nil_Array

datatype agg = Agg_Array | Agg_Map | Agg_Set | Agg_Push

datatype resp =
    RStatus string
  | RError string
  | RInteger int
  | RDouble string
  | RNil nil_form
  | RBool bool
  | RBignum string
  | RBulk string
  | RVerb string string
  | RAgg agg "resp list"

abbreviation crlf :: string where "crlf \<equiv> [CR, LF]"

fun agg_byte :: "agg \<Rightarrow> char" where
  "agg_byte Agg_Array = CHR ''*''" | "agg_byte Agg_Map = CHR ''%''"
| "agg_byte Agg_Set = CHR ''~''" | "agg_byte Agg_Push = CHR ''>''"

fun agg_type :: "agg \<Rightarrow> int" where
  "agg_type Agg_Array = REDIS_REPLY_ARRAY" | "agg_type Agg_Map = REDIS_REPLY_MAP"
| "agg_type Agg_Set = REDIS_REPLY_SET" | "agg_type Agg_Push = REDIS_REPLY_PUSH"

fun agg_count :: "agg \<Rightarrow> nat \<Rightarrow> nat" where
  "agg_count Agg_Map n = n div 2" | "agg_count _ n = n"

fun enc :: "resp \<Rightarrow> string" where
  "enc (RStatus s) = CHR ''+'' # s @ crlf"
| "enc (RError s) = CHR ''-'' # s @ crlf"
| "enc (RInteger n) = CHR '':'' # sdec n @ crlf"
| "enc (RDouble s) = CHR '','' # s @ crlf"
| "enc (RNil Nil_Line) = CHR ''_'' # crlf"
| "enc (RNil Nil_Bulk) = CHR ''$'' # ''-1'' @ crlf"
| "enc (RNil Nil_Array) = CHR ''*'' # ''-1'' @ crlf"
| "enc (RBool b) = CHR ''#'' # (if b then ''t'' else ''f'') @ crlf"
| "enc (RBignum s) = CHR ''('' # s @ crlf"
| "enc (RBulk s) = CHR ''$'' # udec (length s) @ crlf @ s @ crlf"
| "enc (RVerb t s) = CHR ''='' # udec (length s + 4) @ crlf @ t @ CHR '':'' # s @ crlf"
| "enc (RAgg k vs) = agg_byte k # udec (agg_count k (length vs)) @ crlf @ concat (map enc vs)"

text \<open>Which values can be sent, and read under the reader's limit on the number of elements.\<close>

definition no_line_end :: "string \<Rightarrow> bool" where
  "no_line_end s \<longleftrightarrow> CR \<notin> set s \<and> LF \<notin> set s"

fun wf_resp :: "(string \<Rightarrow> bool) \<Rightarrow> int \<Rightarrow> resp \<Rightarrow> bool" where
  "wf_resp strtod_ok lim (RStatus s) = no_line_end s"
| "wf_resp strtod_ok lim (RError s) = no_line_end s"
| "wf_resp strtod_ok lim (RInteger n) = (- 9223372036854775808 \<le> n \<and> n \<le> LLONG_MAX)"
| "wf_resp strtod_ok lim (RDouble s) =
     (no_line_end s \<and> s \<noteq> [] \<and> hd s \<noteq> NUL \<and> length s < 326 \<and> strtod_ok s)"
| "wf_resp strtod_ok lim (RNil _) = True"
| "wf_resp strtod_ok lim (RBool _) = True"
| "wf_resp strtod_ok lim (RBignum s) = bignum_ok s"
| "wf_resp strtod_ok lim (RBulk s) = (int (length s) \<le> LLONG_MAX)"
| "wf_resp strtod_ok lim (RVerb t s) = (length t = 3 \<and> int (length s) + 4 \<le> LLONG_MAX)"
| "wf_resp strtod_ok lim (RAgg k vs) =
     ((k = Agg_Map \<longrightarrow> even (length vs)) \<and> int (agg_count k (length vs)) \<le> LLONG_MAX \<and>
      (lim > 0 \<longrightarrow> int (agg_count k (length vs)) \<le> lim) \<and> list_all (wf_resp strtod_ok lim) vs)"

fun nodes :: "resp \<Rightarrow> nat" where
  "nodes (RAgg k vs) = Suc (sum_list (map nodes vs))"
| "nodes _ = 1"

fun addrs :: "nat \<Rightarrow> resp list \<Rightarrow> nat list" where
  "addrs a [] = []"
| "addrs a (v # vs) = a # addrs (a + nodes v) vs"

text \<open>The object of a value without elements.\<close>

fun leaf :: "resp \<Rightarrow> redisReply" where
  "leaf (RStatus s) = (createReplyObject REDIS_REPLY_STATUS)\<lparr>rp_str := Some s\<rparr>"
| "leaf (RError s) = (createReplyObject REDIS_REPLY_ERROR)\<lparr>rp_str := Some s\<rparr>"
| "leaf (RInteger n) = (createReplyObject REDIS_REPLY_INTEGER)\<lparr>rp_integer := n\<rparr>"
| "leaf (RDouble s) = (createReplyObject REDIS_REPLY_DOUBLE)\<lparr>rp_str := Some s\<rparr>"
| "leaf (RNil _) = createReplyObject REDIS_REPLY_NIL"
| "leaf (RBool b) = (createReplyObject REDIS_REPLY_BOOL)\<lparr>rp_integer := of_bool b\<rparr>"
| "leaf (RBignum s) = (createReplyObject REDIS_REPLY_BIGNUM)\<lparr>rp_str := Some s\<rparr>"
| "leaf (RBulk s) = (createReplyObject REDIS_REPLY_STRING)\<lparr>rp_str := Some s\<rparr>"
| "leaf (RVerb t s) = (createReplyObject REDIS_REPLY_VERB)\<lparr>rp_vtype := t, rp_str := Some s\<rparr>"
| "leaf (RAgg k vs) = createReplyObject (agg_type k)"

fun objs :: "resp \<Rightarrow> nat \<Rightarrow> redisReply option list"
  and objs_list :: "resp list \<Rightarrow> nat \<Rightarrow> redisReply option list" where
  "objs (RAgg k vs) a =
     Some ((leaf (RAgg k vs))\<lparr>rp_element := map Some (addrs (Suc a) vs)\<rparr>) # objs_list vs (Suc a)"
| "objs v a = [Some (leaf v)]"
| "objs_list [] a = []"
| "objs_list (v # vs) a = objs v a @ objs_list vs (a + nodes v)"

lemma length_objs:
  "length (objs v a) = nodes v" "length (objs_list vs a) = sum_list (map nodes vs)"
  by (induction v a and vs a rule: objs_objs_list.induct) auto

lemma length_addrs [simp]: "length (addrs a vs) = length vs"
  by (induction vs arbitrary: a) auto

text \<open>The value an object of the store describes.\<close>

function (sequential) denotes :: "redisReply option list \<Rightarrow> resp \<Rightarrow> nat \<Rightarrow> bool" where
  "denotes h (RAgg k vs) a \<longleftrightarrow>
     (\<exists>es. a < length h \<and> h ! a = Some ((leaf (RAgg k vs))\<lparr>rp_element := map Some es\<rparr>) \<and>
       length es = length vs \<and> (\<forall>i < length vs. denotes h (vs ! i) (es ! i)))"
| "denotes h v a \<longleftrightarrow> a < length h \<and> h ! a = Some (leaf v)"
  by pat_completeness auto
termination
  by (relation "measure (\<lambda>(h, v, a). size v)")
    (auto simp: less_Suc_eq_le intro: size_list_estimation' [OF nth_mem])

lemma addrs_nth: "i < length vs \<Longrightarrow> addrs a vs ! i = a + sum_list (map nodes (take i vs))"
proof (induction vs arbitrary: a i)
  case (Cons v vs)
  then show ?case by (cases i) (auto simp: add.assoc)
qed simp

lemma objs_list_split:
  "i < length vs \<Longrightarrow> objs_list vs a =
     objs_list (take i vs) a @ objs (vs ! i) (addrs a vs ! i) @
     objs_list (drop (Suc i) vs) (addrs a vs ! i + nodes (vs ! i))"
proof (induction vs arbitrary: a i)
  case (Cons v vs)
  then show ?case by (cases i) auto
qed simp

lemma denotes_objs: "denotes (pre @ objs v (length pre) @ post) v (length pre)"
proof (induction v arbitrary: pre post)
  case (RAgg k vs)
  let ?a = "length pre" and ?es = "addrs (Suc (length pre)) vs"
  let ?h = "pre @ objs (RAgg k vs) ?a @ post"
  have "denotes ?h (vs ! i) (?es ! i)" if i: "i < length vs" for i
  proof -
    let ?pre = "pre @ [Some ((leaf (RAgg k vs))\<lparr>rp_element := map Some ?es\<rparr>)] @ objs_list (take i vs) (Suc ?a)"
    have "?es ! i = length ?pre" using i by (simp add: addrs_nth length_objs)
    moreover have "?h = ?pre @ objs (vs ! i) (?es ! i) @
        objs_list (drop (Suc i) vs) (?es ! i + nodes (vs ! i)) @ post"
      using objs_list_split [OF i, of "Suc ?a"] by simp
    ultimately show ?thesis using RAgg [OF nth_mem [OF i]] by metis
  qed
  then show ?case by (auto simp: nth_append intro!: exI [of _ ?es])
qed (simp_all add: nth_append)

section \<open>Parsing one value\<close>

text \<open>The reader is about to parse what the suffix \<open>s\<close> of its input starts with.\<close>

definition ready :: "redisReader \<Rightarrow> string \<Rightarrow> bool" where
  "ready r s \<longleftrightarrow> 0 \<le> rd_ridx r \<and> nat (rd_ridx r) < length (rd_task r) \<and>
     rd_len r = length (rd_buf r) \<and> rd_pos r \<le> rd_len r \<and> drop (rd_pos r) (rd_buf r) = s"

text \<open>The store with the next object entered in the parent of the current task.\<close>

definition linked :: "redisReader \<Rightarrow> redisReply option list" where
  "linked r =
     (case task_parent_obj r (cur_task r) of
        None \<Rightarrow> rd_heap r
      | Some p \<Rightarrow> set_element (rd_heap r) p (nat (t_idx (cur_task r))) (length (rd_heap r)))"

lemma length_linked [simp]: "length (linked r) = length (rd_heap r)"
  by (simp add: linked_def set_element_def split: option.splits)

text \<open>The reader behind the value, before it moves to the next task; tasks behind the current
  one are scratch.\<close>

definition same_input :: "redisReader \<Rightarrow> redisReader \<Rightarrow> bool" where
  "same_input r r' \<longleftrightarrow> rd_err r' = rd_err r \<and> rd_errstr r' = rd_errstr r \<and> rd_buf r' = rd_buf r \<and>
     rd_len r' = rd_len r \<and> rd_maxbuf r' = rd_maxbuf r \<and> rd_maxelements r' = rd_maxelements r"

definition outcome :: "redisReader \<Rightarrow> resp \<Rightarrow> redisReader \<Rightarrow> bool" where
  "outcome r v r' \<longleftrightarrow> same_input r r' \<and> rd_ridx r' = rd_ridx r \<and>
     rd_pos r' = rd_pos r + length (enc v) \<and> rd_heap r' = linked r @ objs v (length (rd_heap r)) \<and>
     rd_reply r' = (if rd_ridx r = 0 then Some (length (rd_heap r)) else rd_reply r) \<and>
     nat (rd_ridx r) < length (rd_task r') \<and>
     take (nat (rd_ridx r)) (rd_task r') = take (nat (rd_ridx r)) (rd_task r) \<and>
     t_idx (rd_task r' ! nat (rd_ridx r)) = t_idx (cur_task r) \<and>
     t_parent (rd_task r' ! nat (rd_ridx r)) = t_parent (cur_task r)"

definition typed :: "int \<Rightarrow> redisReader \<Rightarrow> redisReader" where
  "typed ty r = upd_task (\<lambda>t. t\<lparr>t_type := ty\<rparr>) (r\<lparr>rd_pos := rd_pos r + 1\<rparr>)"

lemma ready_pos: "ready r (s @ t) \<Longrightarrow> rd_pos r + length s + length t = rd_len r"
  unfolding ready_def by (metis add.assoc le_add_diff_inverse length_append length_drop)

lemma ready_advance:
  "ready r (s @ t) \<Longrightarrow> ready (r\<lparr>rd_pos := rd_pos r + length s\<rparr>) t"
proof -
  assume r: "ready r (s @ t)"
  have "drop (rd_pos r + length s) (rd_buf r) = drop (length s) (drop (rd_pos r) (rd_buf r))"
    by (simp add: add.commute)
  also have "\<dots> = t" using r by (simp add: ready_def del: drop_drop)
  finally show ?thesis using r ready_pos [OF r] by (simp add: ready_def)
qed

lemma processItem_typed:
  assumes "ready r (c # s)" "t_type (cur_task r) < 0" "type_of_byte c = Some ty"
  shows "processItem alloc strtod_ok r = process_typed alloc strtod_ok (typed ty r)" "ready (typed ty r) s"
proof -
  have "rd_buf r ! rd_pos r = c" "1 \<le> rd_len r - rd_pos r"
    using assms(1) ready_pos [of r "[]" "c # s"] by (auto simp: ready_def nth_via_drop)
  with assms(2,3) show "processItem alloc strtod_ok r = process_typed alloc strtod_ok (typed ty r)"
    by (simp add: processItem_def readBytes_def typed_def)
  show "ready (typed ty r) s"
    using ready_advance [of r "[c]" s] assms(1) by (simp add: typed_def upd_task_def ready_def)
qed

lemma typed_fields [simp]:
  "rd_ridx (typed ty r) = rd_ridx r" "rd_heap (typed ty r) = rd_heap r" "rd_reply (typed ty r) = rd_reply r"
  "rd_maxelements (typed ty r) = rd_maxelements r"
  by (simp_all add: typed_def upd_task_def)

lemma typed_cur:
  "nat (rd_ridx r) < length (rd_task r) \<Longrightarrow> cur_task (typed ty r) = (cur_task r)\<lparr>t_type := ty\<rparr>"
  by (simp add: typed_def upd_task_def)

text \<open>Setting the type of the current task leaves its parent and its index alone.\<close>

lemma linked_typed:
  assumes "nat (rd_ridx r) < length (rd_task r)" "t_parent (cur_task r) \<noteq> Some (nat (rd_ridx r))"
  shows "linked (typed ty r) = linked r"
  using assms
  by (auto simp: linked_def task_parent_obj_def typed_cur typed_def upd_task_def nth_list_update
      split: option.splits)

lemma readLine_line:
  assumes "ready r (l @ CR # LF # rest)" "CR \<notin> set l"
  shows "readLine r = Some (l, r\<lparr>rd_pos := rd_pos r + length l + 2\<rparr>)"
proof -
  have "drop (rd_pos r) (rd_buf r) = l @ CR # LF # rest" "rd_len r - rd_pos r = length (l @ CR # LF # rest)"
    using assms(1) ready_pos [of r "[]"] by (auto simp: ready_def)
  then show ?thesis
    unfolding readLine_def Let_def by (simp only: seekNewline_find find_crlf_line [OF assms(2)]) simp
qed

text \<open>The end of a leaf, at any cursor.\<close>

lemma finish_link:
  "finish_item (r\<lparr>rd_pos := n\<rparr>) (Some (link_object (r\<lparr>rd_pos := n\<rparr>) (cur_task r) ob)) =
     (True, moveToNextTask
       (r\<lparr>rd_pos := n, rd_heap := linked r @ [Some ob],
          rd_reply := (if rd_ridx r = 0 then Some (length (rd_heap r)) else rd_reply r)\<rparr>))"
  by (simp add: finish_item_def link_object_def linked_def task_parent_obj_def Let_def
      split: option.splits)

lemma outcome_leaf:
  assumes "nat (rd_ridx r) < length (rd_task r)" "t_parent (cur_task r) \<noteq> Some (nat (rd_ridx r))"
    and "objs v (length (rd_heap r)) = [Some ob]" "n = rd_pos r + length (enc v)"
  shows "outcome r v ((typed ty r)\<lparr>rd_pos := n, rd_heap := linked (typed ty r) @ [Some ob],
     rd_reply := (if rd_ridx r = 0 then Some (length (rd_heap r)) else rd_reply r)\<rparr>)"
  using assms
  by (auto simp: outcome_def linked_typed same_input_def) (auto simp: typed_def upd_task_def)

lemma ready_split:
  "ready r (s @ t) \<Longrightarrow> drop (rd_pos r) (rd_buf r) = s @ t \<and> rd_len r - rd_pos r = length (s @ t)"
  using ready_pos [of r "[]" "s @ t"] by (auto simp: ready_def)

text \<open>A value on one line: the type byte, the line, its end.\<close>

lemma parse_line:
  assumes r: "ready r (enc v @ rest)" "t_type (cur_task r) < 0" "t_parent (cur_task r) \<noteq> Some (nat (rd_ridx r))"
    and e: "enc v = c # l @ crlf" "CR \<notin> set l" "type_of_byte c = Some ty"
    and p: "\<And>q. t_type (cur_task q) = ty \<Longrightarrow> readLine q = Some (l, q\<lparr>rd_pos := n\<rparr>) \<Longrightarrow>
      n = rd_pos r + length (enc v) \<Longrightarrow> process_typed alloc strtod_ok q =
        finish_item (q\<lparr>rd_pos := n\<rparr>) (Some (link_object (q\<lparr>rd_pos := n\<rparr>) (cur_task q) (leaf v)))"
    and o: "objs v (length (rd_heap r)) = [Some (leaf v)]"
    and n: "n = rd_pos r + length (enc v)"
  shows "\<exists>r'. processItem alloc strtod_ok r = (True, moveToNextTask r') \<and> outcome r v r'"
proof -
  have ri: "nat (rd_ridx r) < length (rd_task r)" using r(1) by (simp add: ready_def)
  have r': "ready r (c # (l @ crlf @ rest))" using r(1) e(1) by simp
  note t = processItem_typed [OF r' r(2) e(3)]
  have "rd_pos (typed ty r) = rd_pos r + 1" by (simp add: typed_def upd_task_def)
  then have rl: "readLine (typed ty r) = Some (l, (typed ty r)\<lparr>rd_pos := n\<rparr>)"
    using readLine_line [of "typed ty r" l rest] t(2) e n by simp
  have ct: "t_type (cur_task (typed ty r)) = ty" using typed_cur [OF ri] by simp
  show ?thesis
    using p [OF ct rl n] t(1) finish_link [where r = "typed ty r" and n = n and ob = "leaf v"] outcome_leaf [OF ri r(3) o n, of ty]
    by auto
qed

lemma alloc_create:
  assumes "\<And>n. alloc n"
  shows "createIntegerObject alloc r task k =
      Some (link_object r task ((createReplyObject REDIS_REPLY_INTEGER)\<lparr>rp_integer := k\<rparr>))"
    and "createDoubleObject alloc r task str =
      Some (link_object r task ((createReplyObject REDIS_REPLY_DOUBLE)\<lparr>rp_str := Some str\<rparr>))"
    and "createNilObject alloc r task = Some (link_object r task (createReplyObject REDIS_REPLY_NIL))"
    and "createBoolObject alloc r task b =
      Some (link_object r task ((createReplyObject REDIS_REPLY_BOOL)\<lparr>rp_integer := of_bool b\<rparr>))"
    and "t_type task \<noteq> REDIS_REPLY_VERB \<Longrightarrow> createStringObject alloc r task str =
      Some (link_object r task ((createReplyObject (t_type task))\<lparr>rp_str := Some str\<rparr>))"
    and "t_type task = REDIS_REPLY_VERB \<Longrightarrow> createStringObject alloc r task str =
      Some (link_object r task ((createReplyObject REDIS_REPLY_VERB)\<lparr>rp_vtype := take 3 str, rp_str := Some (drop 4 str)\<rparr>))"
    and "createArrayObject alloc r task e =
      Some (link_object r task ((createReplyObject (t_type task))\<lparr>rp_element := replicate e None\<rparr>))"
  using assms by (simp_all add: create_defs Let_def)

lemmas line_defs = process_typed_def processLineItem_def Let_def type_of_byte_def

lemma isdigit_CR [simp]: "\<not> isdigit CR" "\<not> isdigit LF"
  by (simp_all add: isdigit_def char_code_def)

lemma udec_no_CR: "CR \<notin> set (udec n)" "LF \<notin> set (udec n)"
  using udec_digits isdigit_CR by blast+

lemma sdec_no_CR: "CR \<notin> set (sdec k)"
  by (simp add: sdec_def udec_no_CR)

lemma bignum_no_CR: "bignum_ok s \<Longrightarrow> CR \<notin> set s"
  by (cases s) (auto simp: bignum_ok_def list_all_iff split: if_splits)

fun on_line :: "resp \<Rightarrow> bool" where
  "on_line (RBulk _) = False" | "on_line (RVerb _ _) = False" | "on_line (RAgg _ _) = False"
| "on_line (RNil f) = (f = Nil_Line)" | "on_line _ = True"

lemma parse_on_line:
  assumes "ready r (enc v @ rest)" "t_type (cur_task r) < 0" "t_parent (cur_task r) \<noteq> Some (nat (rd_ridx r))"
    and "wf_resp strtod_ok lim v" "\<And>n. alloc n" "on_line v"
  shows "\<exists>r'. processItem alloc strtod_ok r = (True, moveToNextTask r') \<and> outcome r v r'"
proof (cases v)
  case (RStatus s)
  then show ?thesis using assms(4)
    by (intro parse_line [OF assms(1-3), of "CHR ''+''" s 5 "rd_pos r + length (enc v)"])
      (auto simp: line_defs no_line_end_def alloc_create(5) assms(5))
next
  case (RError s)
  then show ?thesis using assms(4)
    by (intro parse_line [OF assms(1-3), of "CHR ''-''" s 6 "rd_pos r + length (enc v)"])
      (auto simp: line_defs no_line_end_def alloc_create(5) assms(5))
next
  case (RInteger k)
  then show ?thesis using assms(4)
    by (intro parse_line [OF assms(1-3), of "CHR '':''" "sdec k" 3 "rd_pos r + length (enc v)"])
      (auto simp: line_defs string2ll_sdec sdec_no_CR alloc_create(1) assms(5))
next
  case (RDouble s)
  then show ?thesis using assms(4)
    by (intro parse_line [OF assms(1-3), of "CHR '',''" s 7 "rd_pos r + length (enc v)"])
      (auto simp: line_defs no_line_end_def alloc_create(2) assms(5))
next
  case (RNil f)
  then show ?thesis using assms(6)
    by (intro parse_line [OF assms(1-3), of "CHR ''_''" "[]" 4 "rd_pos r + length (enc v)"])
      (auto simp: line_defs alloc_create(3) assms(5))
next
  case (RBool b)
  then show ?thesis
    by (intro parse_line [OF assms(1-3), of "CHR ''#''" "if b then ''t'' else ''f''" 8 "rd_pos r + length (enc v)"])
      (auto simp: line_defs alloc_create(4) assms(5))
next
  case (RBignum s)
  then show ?thesis using assms(4)
    by (intro parse_line [OF assms(1-3), of "CHR ''(''" s 13 "rd_pos r + length (enc v)"])
      (auto simp: line_defs bignum_no_CR alloc_create(5) assms(5))
qed (use assms(6) in auto)

text \<open>A value with a length: the type byte, the length, its line end, the contents, a line end.\<close>

lemma processBulkItem_nil:
  assumes "ready q (''-1'' @ CR # LF # rest)" "\<And>n. alloc n"
  shows "processBulkItem alloc q =
    finish_item (q\<lparr>rd_pos := rd_pos q + 4\<rparr>)
      (Some (link_object (q\<lparr>rd_pos := rd_pos q + 4\<rparr>) (cur_task q) (createReplyObject REDIS_REPLY_NIL)))"
proof -
  have d: "drop (rd_pos q) (rd_buf q) = ''-1'' @ CR # LF # rest"
    "rd_len q - rd_pos q = length (''-1'' @ CR # LF # rest)"
    using ready_split [OF assms(1)] by auto
  have "sdec (-1) = ''-1''" by code_simp
  then have "string2ll ''-1'' = Some (-1)" using string2ll_sdec [of "-1"] by simp
  then show ?thesis
    using find_crlf_line [of "''-1''" rest]
    unfolding processBulkItem_def Let_def d seekNewline_find
    by (simp add: alloc_create(3) assms(2) numeral_eq_Suc)
qed

lemma processBulkItem_bulk:
  assumes "ready q (udec (length body) @ CR # LF # body @ CR # LF # rest)" "int (length body) \<le> LLONG_MAX"
    and "t_type (cur_task q) = REDIS_REPLY_VERB \<Longrightarrow> 4 \<le> length body \<and> body ! 3 = CHR '':''"
    and "n = rd_pos q + length (udec (length body)) + 2 + length body + 2"
  shows "processBulkItem alloc q =
    finish_item (q\<lparr>rd_pos := n\<rparr>) (createStringObject alloc (q\<lparr>rd_pos := n\<rparr>) (cur_task q) body)"
proof -
  let ?d = "udec (length body)"
  have d: "drop (rd_pos q) (rd_buf q) = ?d @ CR # LF # body @ CR # LF # rest"
    "rd_len q - rd_pos q = length (?d @ CR # LF # body @ CR # LF # rest)"
    using ready_split [OF assms(1)] by auto
  have len: "rd_pos q + (length ?d + 2 + length body + 2) \<le> rd_len q"
    using ready_pos [OF assms(1)] by simp
  have "string2ll ?d = Some (int (length body))"
    using string2ll_sdec [of "int (length body)"] assms(2) by (simp add: sdec_def)
  moreover have "\<not> (t_type (cur_task q) = REDIS_REPLY_VERB \<and> (int (length body) < 4 \<or>
      (?d @ CR # LF # body @ CR # LF # rest) ! (length ?d + 5) \<noteq> CHR '':''))"
    using assms(3) by (auto simp: nth_append)
  moreover have "find_crlf (?d @ CR # LF # body @ CR # LF # rest) = Some (length ?d)"
    by (rule find_crlf_line [OF udec_no_CR(1)])
  ultimately show ?thesis
    using len assms(4)
    unfolding processBulkItem_def Let_def d seekNewline_find
    by (auto simp: add.assoc)
qed

fun sized :: "resp \<Rightarrow> bool" where
  "sized (RBulk _) = True" | "sized (RVerb _ _) = True" | "sized (RNil f) = (f = Nil_Bulk)" | "sized _ = False"

lemma parse_sized:
  assumes r: "ready r (enc v @ rest)" "t_type (cur_task r) < 0" "t_parent (cur_task r) \<noteq> Some (nat (rd_ridx r))"
    and v: "wf_resp strtod_ok lim v" "\<And>n. alloc n" "sized v"
  shows "\<exists>r'. processItem alloc strtod_ok r = (True, moveToNextTask r') \<and> outcome r v r'"
proof -
  have ri: "nat (rd_ridx r) < length (rd_task r)" using r(1) by (simp add: ready_def)
  have pos: "rd_pos (typed ty r) = rd_pos r + 1" for ty by (simp add: typed_def upd_task_def)
  define n where "n = rd_pos r + length (enc v)"
  have "\<exists>ty. processItem alloc strtod_ok r = finish_item ((typed ty r)\<lparr>rd_pos := n\<rparr>)
      (Some (link_object ((typed ty r)\<lparr>rd_pos := n\<rparr>) (cur_task (typed ty r)) (leaf v)))"
  proof (cases v)
    case (RBulk b)
    have r': "ready r (CHR ''$'' # (udec (length b) @ CR # LF # b @ CR # LF # rest))" using r(1) RBulk by simp
    note t = processItem_typed [OF r' r(2), of 1]
    have ct: "cur_task (typed 1 r) = (cur_task r)\<lparr>t_type := 1\<rparr>" by (rule typed_cur [OF ri])
    have n: "n = rd_pos (typed 1 r) + length (udec (length b)) + 2 + length b + 2"
      using RBulk by (simp add: n_def pos)
    show ?thesis
      using t processBulkItem_bulk [of "typed 1 r" b rest n alloc, OF _ _ _ n] v RBulk ct
      by (intro exI [of _ 1]) (simp add: process_typed_def Let_def type_of_byte_def alloc_create(5))
  next
    case (RVerb y b)
    let ?b = "y @ CHR '':'' # b"
    have l: "length b + 4 = length ?b" using v(1) RVerb by simp
    have r': "ready r (CHR ''='' # (udec (length ?b) @ CR # LF # ?b @ CR # LF # rest))"
      using r(1) RVerb l by simp
    note t = processItem_typed [OF r' r(2), of 14]
    have ct: "cur_task (typed 14 r) = (cur_task r)\<lparr>t_type := 14\<rparr>" by (rule typed_cur [OF ri])
    have n: "n = rd_pos (typed 14 r) + length (udec (length ?b)) + 2 + length ?b + 2"
      using v(1) RVerb by (simp add: n_def pos add.commute)
    have "4 \<le> length ?b \<and> ?b ! 3 = CHR '':''" "take 3 ?b = y" "drop 4 ?b = b" "int (length ?b) \<le> LLONG_MAX"
      using v(1) RVerb by (simp_all add: nth_append)
    then show ?thesis
      using t processBulkItem_bulk [of "typed 14 r" ?b rest n alloc, OF _ _ _ n] v RVerb ct
      by (intro exI [of _ 14]) (simp add: process_typed_def Let_def type_of_byte_def alloc_create(6))
  next
    case (RNil f)
    have r': "ready r (CHR ''$'' # (''-1'' @ CR # LF # rest))" using r(1) RNil v(3) by simp
    note t = processItem_typed [OF r' r(2), of 1]
    have ct: "cur_task (typed 1 r) = (cur_task r)\<lparr>t_type := 1\<rparr>" by (rule typed_cur [OF ri])
    have n: "rd_pos (typed 1 r) + 4 = n" using RNil v(3) by (simp add: n_def pos)
    show ?thesis
      using t processBulkItem_nil [of "typed 1 r" rest alloc, unfolded n] v RNil ct
      by (intro exI [of _ 1]) (simp add: process_typed_def Let_def type_of_byte_def)
  qed (use v(3) in auto)
  then obtain ty where "processItem alloc strtod_ok r = finish_item ((typed ty r)\<lparr>rd_pos := n\<rparr>)
      (Some (link_object ((typed ty r)\<lparr>rd_pos := n\<rparr>) (cur_task (typed ty r)) (leaf v)))" ..
  moreover have "objs v (length (rd_heap r)) = [Some (leaf v)]" using v(3) by (cases v) auto
  ultimately show ?thesis
    using finish_link [where r = "typed ty r" and n = n and ob = "leaf v"] outcome_leaf [OF ri r(3) _ n_def, of "leaf v" ty]
    by auto
qed

section \<open>Aggregates\<close>

lemma moveToNextTask_reply:
  "moveToNextTask (r\<lparr>rd_reply := x\<rparr>) = (moveToNextTask r)\<lparr>rd_reply := x\<rparr>"
proof (induction r rule: moveToNextTask.induct)
  case (1 r)
  show ?case
  proof (cases "0 < rd_ridx r \<and> t_idx (cur_task r) = t_elements (rd_task r ! nat (rd_ridx r - 1)) - 1")
    case True
    have "moveToNextTask (r\<lparr>rd_reply := x\<rparr>) = moveToNextTask (r\<lparr>rd_reply := x, rd_ridx := rd_ridx r - 1\<rparr>)"
      using True by (subst moveToNextTask.simps) (simp add: Let_def)
    also have "r\<lparr>rd_reply := x, rd_ridx := rd_ridx r - 1\<rparr> = r\<lparr>rd_ridx := rd_ridx r - 1, rd_reply := x\<rparr>" by simp
    also have "moveToNextTask \<dots> = (moveToNextTask (r\<lparr>rd_ridx := rd_ridx r - 1\<rparr>))\<lparr>rd_reply := x\<rparr>"
      by (rule 1 [OF _ _ refl refl]) (use True in simp_all)
    also have "moveToNextTask (r\<lparr>rd_ridx := rd_ridx r - 1\<rparr>) = moveToNextTask r"
      using True by (subst (2) moveToNextTask.simps) (simp add: Let_def)
    finally show ?thesis .
  next
    case False
    then show ?thesis by (subst (1 2) moveToNextTask.simps) (auto simp: Let_def upd_task_def)
  qed
qed

text \<open>The task stack grows before the header of an aggregate is read.\<close>

definition grown :: "redisReader \<Rightarrow> redisReader" where
  "grown r = (if rd_ridx r = int (length (rd_task r)) - 1
     then r\<lparr>rd_task := rd_task r @ replicate REDIS_READER_STACK_SIZE zero_task\<rparr> else r)"

lemma grown_fields [simp]:
  "rd_ridx (grown r) = rd_ridx r" "rd_heap (grown r) = rd_heap r" "rd_reply (grown r) = rd_reply r"
  "rd_pos (grown r) = rd_pos r" "rd_maxelements (grown r) = rd_maxelements r"
  by (simp_all add: grown_def)

lemma grown_task:
  assumes "0 \<le> rd_ridx r" "nat (rd_ridx r) < length (rd_task r)"
  shows "Suc (nat (rd_ridx r)) < length (rd_task (grown r))"
    and "i \<le> nat (rd_ridx r) \<Longrightarrow> rd_task (grown r) ! i = rd_task r ! i"
    and "take (nat (rd_ridx r)) (rd_task (grown r)) = take (nat (rd_ridx r)) (rd_task r)"
  using assms by (auto simp: grown_def nth_append)

lemma processAggregate_grown:
  "(\<And>n. alloc n) \<Longrightarrow> processAggregateItem alloc r = aggregate_body alloc (grown r)"
  by (simp add: processAggregateItem_def redisReaderGrow_def grown_def Let_def)

lemma ready_grown: "ready r s \<Longrightarrow> ready (grown r) s"
  by (auto simp: ready_def grown_def)

lemma linked_grown:
  assumes "0 \<le> rd_ridx r" "nat (rd_ridx r) < length (rd_task r)"
    and "\<And>p. t_parent (cur_task r) = Some p \<Longrightarrow> p < nat (rd_ridx r)"
  shows "linked (grown r) = linked r"
  using assms grown_task [OF assms(1,2)]
  by (auto simp: linked_def task_parent_obj_def split: option.splits)

text \<open>The header of an aggregate of \<open>n\<close> elements.\<close>

lemma aggregate_header:
  assumes q: "ready q (udec (agg_count k n) @ CR # LF # s)" "t_type (cur_task q) = agg_type k"
    and n: "k = Agg_Map \<Longrightarrow> even n" "int (agg_count k n) \<le> LLONG_MAX"
      "rd_maxelements q > 0 \<Longrightarrow> int (agg_count k n) \<le> rd_maxelements q"
    and alloc: "\<And>n. alloc n"
  defines "h \<equiv> q\<lparr>rd_pos := rd_pos q + length (udec (agg_count k n)) + 2,
      rd_heap := linked q @ [Some ((createReplyObject (agg_type k))\<lparr>rp_element := replicate n None\<rparr>)],
      rd_reply := (if rd_ridx q = 0 then Some (length (rd_heap q)) else rd_reply q)\<rparr>"
  shows "aggregate_body alloc q =
    (True, if n > 0 then push_task h (int n) (length (rd_heap q)) else moveToNextTask h)"
proof -
  have "string2ll (udec (agg_count k n)) = Some (int (agg_count k n))"
    using string2ll_sdec [of "int (agg_count k n)"] n(2) by (simp add: sdec_def)
  moreover have "readLine q = Some (udec (agg_count k n), q\<lparr>rd_pos := rd_pos q + length (udec (agg_count k n)) + 2\<rparr>)"
    by (rule readLine_line [OF q(1) udec_no_CR(1)])
  moreover have "(if agg_type k = REDIS_REPLY_MAP then int (agg_count k n) * 2 else int (agg_count k n)) = int n"
    using n(1) by (cases k) (auto simp: zdiv_int)
  ultimately show ?thesis
    using q(2) n(3) alloc
    by (auto simp: aggregate_body_def Let_def alloc_create(7) link_object_def linked_def
        task_parent_obj_def h_def moveToNextTask_reply push_task_def upd_task_def split: option.splits)
qed

text \<open>The slots of the elements from the index \<open>j\<close> on.\<close>

definition fill :: "nat option list \<Rightarrow> nat \<Rightarrow> nat list \<Rightarrow> nat option list" where
  "fill es j as = take j es @ map Some as @ drop (j + length as) es"

lemma fill_Cons: "j < length es \<Longrightarrow> fill (es[j := Some a]) (Suc j) as = fill es j (a # as)"
  by (simp add: fill_def take_Suc_conv_app_nth drop_update_cancel take_update_cancel)

lemma fill_Nil [simp]: "fill es j [] = es"
  by (simp add: fill_def)

text \<open>One value, as the loop of \<open>redisReaderGetReply\<close> sees it.\<close>

definition parses :: "(nat \<Rightarrow> bool) \<Rightarrow> (string \<Rightarrow> bool) \<Rightarrow> resp \<Rightarrow> bool" where
  "parses alloc strtod_ok v \<longleftrightarrow>
     (\<forall>r rest. ready r (enc v @ rest) \<longrightarrow> t_type (cur_task r) < 0 \<longrightarrow>
        (\<forall>p. t_parent (cur_task r) = Some p \<longrightarrow> p < nat (rd_ridx r)) \<longrightarrow>
        wf_resp strtod_ok (rd_maxelements r) v \<longrightarrow>
        (\<exists>r'. process_items alloc strtod_ok r = process_items alloc strtod_ok (moveToNextTask r') \<and>
              outcome r v r'))"

lemma parses_item:
  assumes "processItem alloc strtod_ok r = (True, moveToNextTask r')" "0 \<le> rd_ridx r" "outcome r v r'"
  shows "\<exists>r'. process_items alloc strtod_ok r = process_items alloc strtod_ok (moveToNextTask r') \<and> outcome r v r'"
  using assms by (subst process_items.simps) auto

text \<open>The reader at the element \<open>j\<close> of the aggregate that task \<open>k\<close> describes.\<close>

definition at_element :: "redisReader \<Rightarrow> nat \<Rightarrow> nat \<Rightarrow> nat \<Rightarrow> nat \<Rightarrow> redisReply \<Rightarrow> bool" where
  "at_element q k j n a ob \<longleftrightarrow>
     rd_ridx q = int (Suc k) \<and> t_type (cur_task q) < 0 \<and> t_parent (cur_task q) = Some k \<and>
     t_idx (cur_task q) = int j \<and> t_obj (rd_task q ! k) = Some a \<and>
     t_elements (rd_task q ! k) = int n \<and> a < length (rd_heap q) \<and> rd_heap q ! a = Some ob \<and>
     n \<le> length (rp_element ob)"

lemma linked_at_element:
  "at_element q k j n a ob \<Longrightarrow>
     linked q = (rd_heap q)[a := Some (ob\<lparr>rp_element := (rp_element ob)[j := Some (length (rd_heap q))]\<rparr>)]"
  by (auto simp: at_element_def linked_def task_parent_obj_def set_element_def)

lemma moveToNextTask_last:
  assumes "rd_ridx r = int (Suc k)" "t_idx (rd_task r ! Suc k) = t_elements (rd_task r ! k) - 1"
  shows "moveToNextTask r = moveToNextTask (r\<lparr>rd_ridx := int k\<rparr>)"
  using assms by (subst moveToNextTask.simps) (simp add: Let_def nat_add_distrib)

lemma moveToNextTask_next:
  assumes "rd_ridx r = int (Suc k)" "t_idx (rd_task r ! Suc k) \<noteq> t_elements (rd_task r ! k) - 1"
  shows "moveToNextTask r = r\<lparr>rd_task := (rd_task r)[Suc k :=
    (rd_task r ! Suc k)\<lparr>t_type := -1, t_elements := -1, t_idx := t_idx (rd_task r ! Suc k) + 1\<rparr>]\<rparr>"
  using assms by (subst moveToNextTask.simps) (simp add: Let_def nat_add_distrib upd_task_def)

definition elements_done ::
    "redisReader \<Rightarrow> nat \<Rightarrow> nat \<Rightarrow> nat \<Rightarrow> redisReply \<Rightarrow> resp list \<Rightarrow> redisReader \<Rightarrow> bool" where
  "elements_done q k j a ob vs r' \<longleftrightarrow> same_input q r' \<and> rd_ridx r' = int k \<and>
     rd_pos r' = rd_pos q + length (concat (map enc vs)) \<and> rd_reply r' = rd_reply q \<and>
     rd_heap r' = (rd_heap q)[a := Some (ob\<lparr>rp_element := fill (rp_element ob) j (addrs (length (rd_heap q)) vs)\<rparr>)]
       @ objs_list vs (length (rd_heap q)) \<and>
     Suc k < length (rd_task r') \<and> take (Suc k) (rd_task r') = take (Suc k) (rd_task q)"

lemma parse_elements:
  assumes "\<And>v. v \<in> set vs \<Longrightarrow> parses alloc strtod_ok v" "vs \<noteq> []"
    and "ready q (concat (map enc vs) @ rest)" "at_element q k j n a ob" "n = j + length vs"
    and "list_all (wf_resp strtod_ok (rd_maxelements q)) vs"
  shows "\<exists>r'. process_items alloc strtod_ok q = process_items alloc strtod_ok (moveToNextTask r') \<and>
    elements_done q k j a ob vs r'"
  using assms
proof (induction vs arbitrary: q j ob)
  case (Cons v vs)
  let ?b = "length (rd_heap q)"
  have wf: "wf_resp strtod_ok (rd_maxelements q) v" and wfs: "list_all (wf_resp strtod_ok (rd_maxelements q)) vs"
    using Cons.prems(6) by simp_all
  have at: "rd_ridx q = int (Suc k)" "nat (rd_ridx q) = Suc k"
    using Cons.prems(4) by (simp_all add: at_element_def nat_add_distrib)
  obtain r1 where r1: "process_items alloc strtod_ok q = process_items alloc strtod_ok (moveToNextTask r1)"
    and o: "outcome q v r1"
    using Cons.prems(1) [of v] Cons.prems(3,4) wf unfolding parses_def
    by (force simp: at_element_def nat_add_distrib)
  define ob1 where "ob1 = ob\<lparr>rp_element := (rp_element ob)[j := Some ?b]\<rparr>"
  have heap: "rd_heap r1 = (rd_heap q)[a := Some ob1] @ objs v ?b"
    and rest1: "rd_ridx r1 = int (Suc k)" "rd_pos r1 = rd_pos q + length (enc v)" "rd_reply r1 = rd_reply q"
      "same_input q r1"
    and task: "Suc k < length (rd_task r1)" "take (Suc k) (rd_task r1) = take (Suc k) (rd_task q)"
      "t_idx (rd_task r1 ! Suc k) = int j" "t_parent (rd_task r1 ! Suc k) = Some k"
    using o linked_at_element [OF Cons.prems(4)] at Cons.prems(4)
    by (simp_all add: outcome_def ob1_def at_element_def)
  have "rd_task r1 ! k = rd_task q ! k" using task(2) by (metis lessI nth_take)
  then have tk: "t_obj (rd_task r1 ! k) = Some a" "t_elements (rd_task r1 ! k) = int n"
    using Cons.prems(4) by (simp_all add: at_element_def)
  have lenb: "length (rd_heap r1) = ?b + nodes v" using heap by (simp add: length_objs)
  have j: "j < length (rp_element ob)" "a < ?b" using Cons.prems(4,5) by (auto simp: at_element_def)
  show ?case
  proof (cases "vs = []")
    case True
    then have "moveToNextTask r1 = moveToNextTask (r1\<lparr>rd_ridx := int k\<rparr>)"
      using moveToNextTask_last [OF rest1(1)] task tk Cons.prems(5) by simp
    moreover have "elements_done q k j a ob (v # vs) (r1\<lparr>rd_ridx := int k\<rparr>)"
      using True heap rest1 task fill_Cons [OF j(1), of ?b "[]"]
      by (simp add: elements_done_def same_input_def ob1_def)
    ultimately show ?thesis using r1 by auto
  next
    case False
    define q2 where "q2 = moveToNextTask r1"
    have q2: "q2 = r1\<lparr>rd_task := (rd_task r1)[Suc k :=
        (rd_task r1 ! Suc k)\<lparr>t_type := -1, t_elements := -1, t_idx := int (Suc j)\<rparr>]\<rparr>"
      unfolding q2_def using moveToNextTask_next [OF rest1(1)] task tk Cons.prems(5) False by (simp add: add.commute)
    have "ready q2 (concat (map enc vs) @ rest)"
      using ready_advance [of q "enc v" "concat (map enc vs) @ rest"] Cons.prems(3) q2 rest1 task at
      by (simp add: ready_def same_input_def)
    moreover have "at_element q2 k (Suc j) n a ob1"
      using q2 rest1 task tk heap j Cons.prems(4)
      by (simp add: at_element_def nat_add_distrib nth_append ob1_def)
    moreover have "list_all (wf_resp strtod_ok (rd_maxelements q2)) vs"
      using q2 rest1(4) wfs by (simp add: same_input_def)
    ultimately obtain r' where r': "process_items alloc strtod_ok q2 = process_items alloc strtod_ok (moveToNextTask r')"
      and e: "elements_done q2 k (Suc j) a ob1 vs r'"
      using Cons.IH [of q2 "Suc j" ob1] Cons.prems(1,5) False by auto
    have "fill (rp_element ob1) (Suc j) as = fill (rp_element ob) j (?b # as)" for as
      using fill_Cons [OF j(1)] by (simp add: ob1_def)
    then have "elements_done q k j a ob (v # vs) r'"
      using e q2 heap rest1 task lenb j
      by (simp add: elements_done_def same_input_def ob1_def list_update_append)
    with r1 r' show ?thesis by (auto simp: q2_def)
  qed
qed simp

text \<open>The current task once its type is known and the stack has room for an element.\<close>

lemma grown_typed:
  fixes ty :: int
  assumes "ready r (c # s)" "\<And>p. t_parent (cur_task r) = Some p \<Longrightarrow> p < nat (rd_ridx r)"
  defines "g \<equiv> grown (typed ty r)"
  shows "Suc (nat (rd_ridx r)) < length (rd_task g)" "cur_task g = (cur_task r)\<lparr>t_type := ty\<rparr>"
    and "take (nat (rd_ridx r)) (rd_task g) = take (nat (rd_ridx r)) (rd_task r)"
    and "linked g = linked r" "same_input r g" "rd_pos g = rd_pos r + 1"
proof -
  have ri: "0 \<le> rd_ridx r" "nat (rd_ridx r) < length (rd_task r)" using assms(1) by (auto simp: ready_def)
  then have ri': "0 \<le> rd_ridx (typed ty r)" "nat (rd_ridx (typed ty r)) < length (rd_task (typed ty r))"
    by (simp_all add: typed_def upd_task_def)
  note gt = grown_task [OF ri']
  show "Suc (nat (rd_ridx r)) < length (rd_task g)" using gt(1) by (simp add: g_def)
  show "cur_task g = (cur_task r)\<lparr>t_type := ty\<rparr>" using gt(2) typed_cur [OF ri(2)] by (simp add: g_def)
  show "take (nat (rd_ridx r)) (rd_task g) = take (nat (rd_ridx r)) (rd_task r)"
    using gt(3) by (simp add: g_def) (simp add: typed_def upd_task_def)
  have "p < nat (rd_ridx (typed ty r))" if "t_parent (cur_task (typed ty r)) = Some p" for p
    using that assms(2) typed_cur [OF ri(2)] by simp
  from linked_grown [OF ri' this] show "linked g = linked r"
    using linked_typed [OF ri(2)] assms(2) by (fastforce simp: g_def)
  show "same_input r g" "rd_pos g = rd_pos r + 1"
    by (simp_all add: g_def same_input_def grown_def typed_def upd_task_def)
qed

lemma parses_nil_array:
  assumes alloc: "\<And>n. alloc n"
  shows "parses alloc strtod_ok (RNil Nil_Array)"
  unfolding parses_def
proof (intro allI impI)
  fix r rest
  assume r: "ready r (enc (RNil Nil_Array) @ rest)" "t_type (cur_task r) < 0"
    and par: "\<forall>p. t_parent (cur_task r) = Some p \<longrightarrow> p < nat (rd_ridx r)"
  have r': "ready r (CHR ''*'' # (''-1'' @ CR # LF # rest))" using r(1) by simp
  note t = processItem_typed [OF r' r(2), of 2]
  define g where "g = grown (typed 2 r)"
  note gt = grown_typed [OF r', of 2, folded g_def]
  have ready: "ready g (''-1'' @ CR # LF # rest)"
    unfolding g_def by (rule ready_grown [OF t(2)]) (simp add: type_of_byte_def)
  define h where "h = g\<lparr>rd_pos := rd_pos g + 4, rd_heap := linked g @ [Some (createReplyObject REDIS_REPLY_NIL)],
      rd_reply := (if rd_ridx g = 0 then Some (length (rd_heap g)) else rd_reply g)\<rparr>"
  have "sdec (-1) = ''-1''" by code_simp
  then have "string2ll ''-1'' = Some (-1)" using string2ll_sdec [of "-1"] by simp
  moreover have "readLine g = Some (''-1'', g\<lparr>rd_pos := rd_pos g + 4\<rparr>)"
    using readLine_line [OF ready] by (simp add: numeral_eq_Suc)
  ultimately have "aggregate_body alloc g = (True, moveToNextTask h)"
    by (auto simp: aggregate_body_def Let_def alloc_create(3) alloc link_object_def linked_def
        task_parent_obj_def h_def moveToNextTask_reply split: option.splits)
  moreover have "processItem alloc strtod_ok r = aggregate_body alloc g"
    using t(1) typed_cur [of r 2] r(1) processAggregate_grown [of alloc "typed 2 r"] alloc
    by (simp add: process_typed_def Let_def type_of_byte_def ready_def g_def)
  moreover have "outcome r (RNil Nil_Array) h"
    using gt par by (auto simp: outcome_def h_def same_input_def) (auto simp: g_def)
  ultimately show "\<exists>r'. process_items alloc strtod_ok r = process_items alloc strtod_ok (moveToNextTask r') \<and>
      outcome r (RNil Nil_Array) r'"
    using r(1) by (intro parses_item) (simp_all add: ready_def)
qed

lemma agg_typed:
  "type_of_byte (agg_byte k) = Some (agg_type k)"
  "t_type (cur_task q) = agg_type k \<Longrightarrow> process_typed alloc strtod_ok q = processAggregateItem alloc q"
  by (cases k; simp add: type_of_byte_def process_typed_def Let_def)+

lemma parses_aggregate:
  assumes alloc: "\<And>n. alloc n" and IH: "\<And>v. v \<in> set vs \<Longrightarrow> parses alloc strtod_ok v"
  shows "parses alloc strtod_ok (RAgg k vs)"
  unfolding parses_def
proof (intro allI impI)
  fix r :: redisReader and rest
  let ?n = "length vs" and ?d = "udec (agg_count k (length vs))" and ?a = "length (rd_heap r)"
  assume r: "ready r (enc (RAgg k vs) @ rest)" "t_type (cur_task r) < 0"
    and par: "\<forall>p. t_parent (cur_task r) = Some p \<longrightarrow> p < nat (rd_ridx r)"
    and wf: "wf_resp strtod_ok (rd_maxelements r) (RAgg k vs)"
  have ri: "0 \<le> rd_ridx r" using r(1) by (simp add: ready_def)
  have r': "ready r (agg_byte k # (?d @ CR # LF # (concat (map enc vs) @ rest)))" using r(1) by simp
  note t = processItem_typed [OF r' r(2) agg_typed(1)]
  define g where "g = grown (typed (agg_type k) r)"
  note gt = grown_typed [OF r', of "agg_type k", folded g_def]
  have g: "ready g (?d @ CR # LF # (concat (map enc vs) @ rest))" "rd_maxelements g = rd_maxelements r"
    "rd_ridx g = rd_ridx r" "rd_heap g = rd_heap r" "rd_reply g = rd_reply r"
    using ready_grown [OF t(2)] by (simp_all add: g_def)
  define ob where "ob = (createReplyObject (agg_type k))\<lparr>rp_element := replicate ?n None\<rparr>"
  define h where "h = g\<lparr>rd_pos := rd_pos g + length ?d + 2, rd_heap := linked g @ [Some ob],
      rd_reply := (if rd_ridx g = 0 then Some (length (rd_heap g)) else rd_reply g)\<rparr>"
  have "aggregate_body alloc g = (True, if ?n > 0 then push_task h (int ?n) ?a else moveToNextTask h)"
    using aggregate_header [OF g(1), of alloc] gt(2) par wf alloc g by (auto simp: h_def ob_def)
  moreover have "processItem alloc strtod_ok r = aggregate_body alloc g"
    using t(1) typed_cur [of r] r(1) agg_typed(2) [of "typed (agg_type k) r"]
      processAggregate_grown [of alloc "typed (agg_type k) r"] alloc
    by (simp add: ready_def g_def)
  ultimately have step: "processItem alloc strtod_ok r =
      (True, if ?n > 0 then push_task h (int ?n) ?a else moveToNextTask h)" by simp
  show "\<exists>r'. process_items alloc strtod_ok r = process_items alloc strtod_ok (moveToNextTask r') \<and>
      outcome r (RAgg k vs) r'"
  proof (cases "vs = []")
    case True
    then have "outcome r (RAgg k vs) h"
      using gt par g by (simp add: outcome_def h_def ob_def same_input_def)
    with True step ri show ?thesis by (intro parses_item) simp_all
  next
    case False
    define q where "q = push_task h (int ?n) ?a"
    let ?k = "nat (rd_ridx r)"
    have q: "rd_ridx q = int (Suc ?k)" "rd_pos q = rd_pos h" "rd_heap q = linked r @ [Some ob]"
      "rd_reply q = rd_reply h" "same_input r q" "rd_task q = (rd_task g)[?k :=
        (cur_task r)\<lparr>t_type := agg_type k, t_elements := int ?n, t_obj := Some ?a\<rparr>, Suc ?k := fresh_task 0 (Some ?k)]"
      using gt par g ri by (simp_all add: q_def push_task_def upd_task_def h_def same_input_def Let_def)
    have "ready h (concat (map enc vs) @ rest)"
      using ready_advance [of g "?d @ crlf" "concat (map enc vs) @ rest"] g(1)
      by (simp add: ready_def h_def)
    then have "ready q (concat (map enc vs) @ rest)"
      using q gt(1,5) g(3) ri par by (auto simp: ready_def same_input_def h_def nat_add_distrib)
    moreover have "at_element q ?k 0 ?n ?a ob"
      using q gt(1) par by (simp add: at_element_def fresh_task_def nat_add_distrib nth_append ob_def)
    moreover have "list_all (wf_resp strtod_ok (rd_maxelements q)) vs"
      using wf q(5) by (simp add: same_input_def)
    ultimately obtain r1 where
      r1: "process_items alloc strtod_ok q = process_items alloc strtod_ok (moveToNextTask r1)"
      and e: "elements_done q ?k 0 ?a ob vs r1"
      using parse_elements [OF IH False, of q rest ?k 0 ?n ?a ob] by auto
    have "process_items alloc strtod_ok r = process_items alloc strtod_ok q"
      using step ri False by (subst process_items.simps) (simp add: q_def)
    moreover have "outcome r (RAgg k vs) r1"
    proof -
      have same: "take (Suc ?k) (rd_task r1) = take (Suc ?k) (rd_task q)"
        using e by (simp add: elements_done_def)
      have "take ?k (rd_task r1) = take ?k (take (Suc ?k) (rd_task r1))" by simp
      also have "\<dots> = take ?k (rd_task q)" unfolding same by simp
      also have "\<dots> = take ?k (rd_task r)" using q(6) gt(3) par by simp
      finally have "take ?k (rd_task r1) = take ?k (rd_task r)" .
      moreover have "rd_task r1 ! ?k = rd_task q ! ?k"
        using arg_cong [OF same, of "\<lambda>xs. xs ! ?k"] by simp
      moreover have "fill (replicate ?n None) 0 (addrs b vs) = map Some (addrs b vs)" for b
        by (simp add: fill_def)
      ultimately show ?thesis
        using e q gt(1,6) par g ri
        by (simp add: outcome_def elements_done_def same_input_def h_def ob_def list_update_append)
    qed
    ultimately show ?thesis using r1 by auto
  qed
qed

lemma parses_leaf:
  assumes "\<And>n. alloc n" "on_line v \<or> sized v"
  shows "parses alloc strtod_ok v"
  unfolding parses_def
proof (intro allI impI)
  fix r :: redisReader and rest
  assume r: "ready r (enc v @ rest)" "t_type (cur_task r) < 0"
    and par: "\<forall>p. t_parent (cur_task r) = Some p \<longrightarrow> p < nat (rd_ridx r)"
    and wf: "wf_resp strtod_ok (rd_maxelements r) v"
  have "t_parent (cur_task r) \<noteq> Some (nat (rd_ridx r))" using par by auto
  then obtain r' where "processItem alloc strtod_ok r = (True, moveToNextTask r')" "outcome r v r'"
    using assms parse_on_line [OF r _ wf, of alloc] parse_sized [OF r _ wf, of alloc] by auto
  with r show "\<exists>r'. process_items alloc strtod_ok r = process_items alloc strtod_ok (moveToNextTask r') \<and>
      outcome r v r'"
    by (intro parses_item) (simp_all add: ready_def)
qed

lemma parses_value:
  assumes "\<And>n. alloc n"
  shows "parses alloc strtod_ok v"
proof (induction v)
  case (RAgg k vs)
  then show ?case using parses_aggregate assms by blast
next
  case (RNil f)
  show ?case using parses_nil_array [OF assms] parses_leaf [OF assms] by (cases f) simp_all
qed (use parses_leaf [OF assms] in simp_all)

section \<open>A whole reply\<close>

text \<open>An idle reader: no error, no open task, all input accounted for.\<close>

definition idle :: "redisReader \<Rightarrow> bool" where
  "idle r \<longleftrightarrow> rd_err r = 0 \<and> rd_ridx r = -1 \<and> rd_task r \<noteq> [] \<and> rd_len r = length (rd_buf r) \<and>
     rd_pos r \<le> rd_len r \<and> rd_reply r = None"

abbreviation unread :: "redisReader \<Rightarrow> string" where
  "unread r \<equiv> drop (rd_pos r) (rd_buf r)"

lemma moveToNextTask_root: "rd_ridx r = 0 \<Longrightarrow> moveToNextTask r = r\<lparr>rd_ridx := -1\<rparr>"
  by (subst moveToNextTask.simps) simp

lemma getReply_value:
  assumes "\<And>n. alloc n" "idle r" "unread r = enc v @ rest" "wf_resp strtod_ok (rd_maxelements r) v"
  shows "\<exists>r'. redisReaderGetReply alloc strtod_ok r = (True, Some (length (rd_heap r)), r') \<and>
    idle r' \<and> unread r' = rest \<and> rd_heap r' = rd_heap r @ objs v (length (rd_heap r)) \<and>
    rd_maxelements r' = rd_maxelements r"
proof -
  define s where "s = start_root r"
  have s: "s = r\<lparr>rd_task := (rd_task r)[0 := fresh_task (-1) None], rd_ridx := 0\<rparr>"
    using assms(2) by (simp add: s_def start_root_def idle_def)
  have ready: "ready s (enc v @ rest)" using assms(2,3) s by (simp add: ready_def idle_def)
  have cur: "cur_task s = fresh_task (-1) None" using assms(2) s by (simp add: idle_def)
  obtain r1 where r1: "process_items alloc strtod_ok s = process_items alloc strtod_ok (moveToNextTask r1)"
    and o: "outcome s v r1"
    using parses_value [OF assms(1), where strtod_ok = strtod_ok and v = v] ready cur assms(4) s
    unfolding parses_def by (force simp: fresh_task_def)
  have l: "linked s = rd_heap r" using cur s by (simp add: linked_def task_parent_obj_def fresh_task_def)
  have o': "rd_ridx r1 = 0" "rd_err r1 = 0" "rd_buf r1 = rd_buf r" "rd_len r1 = rd_len r"
    "rd_maxelements r1 = rd_maxelements r" "rd_pos r1 = rd_pos r + length (enc v)"
    "rd_heap r1 = rd_heap r @ objs v (length (rd_heap r))" "rd_reply r1 = Some (length (rd_heap r))"
    "rd_task r1 \<noteq> []"
    using o s l assms(2) by (auto simp: outcome_def same_input_def idle_def)
  have p: "process_items alloc strtod_ok s = r1\<lparr>rd_ridx := -1\<rparr>"
    using r1 moveToNextTask_root [OF o'(1)] by (simp add: process_items.simps)
  have "enc v \<noteq> []" by (cases v; (cases "case v of RNil f \<Rightarrow> f | _ \<Rightarrow> Nil_Line")?) auto
  with assms(2,3) have len: "rd_len r \<noteq> 0" by (auto simp: idle_def)
  have pos: "rd_pos r + length (enc v) \<le> rd_len r" using ready_pos [OF ready] s by simp
  have "drop (rd_pos r + length (enc v)) (rd_buf r) = rest"
    using ready_advance [OF ready] s by (simp add: ready_def)
  then show ?thesis
    using assms(2) len p o' pos
    by (auto simp: redisReaderGetReply_def Let_def discard_input_def idle_def simp flip: s_def)
qed

section \<open>Properties\<close>

text \<open>
  \<open>string2ll\<close> accepts exactly the canonical decimal form of a \<open>long long\<close>, so the
  string can be obtained back from the number.\<close>

lemma string2ll_exact:
  "string2ll s = Some n \<longleftrightarrow> s = sdec n \<and> - 9223372036854775808 \<le> n \<and> n \<le> LLONG_MAX"
  using string2ll_sdec string2ll_SomeD by blast



end
