(* ===== verification/Redis_Format.thy ===== *)
theory Redis_Format
  imports Redis_Reader
begin

text \<open>
  The command formatter of \<^verbatim>\<open>libs/hiredis/hiredis.c\<close>: the size helpers, the
  \<open>printf\<close>-like \<open>redisvFormatCommand\<close> and the two functions that format an argument vector.

  The format is a C string in its object: every character is read with \<open>rd\<close>, so a read behind
  the object is visible.  The variable arguments are a list of typed values; taking one of
  another type, or one that is not there, is undefined behaviour.  What \<open>vsnprintf\<close> writes for one
  conversion is the argument \<open>vpf\<close>, and \<open>alloc n\<close> says whether a request for \<open>n\<close> bytes or
  elements succeeds.
\<close>

section \<open>Sizes\<close>

fun countDigits :: "nat \<Rightarrow> nat" where
  "countDigits v =
     (if v < 10 then 1
      else if v < 100 then 2
      else if v < 1000 then 3
      else if v < 10000 then 4
      else countDigits (v div 10000) + 4)"

declare countDigits.simps [simp del]

definition bulklen :: "nat \<Rightarrow> nat" where
  "bulklen len = 1 + countDigits len + 2 + len + 2"

section \<open>Formats\<close>

datatype va =
    Va_ptr string
  | Va_size nat
  | Va_int int
  | Va_long int
  | Va_llong int
  | Va_double u64

datatype fmt_error = Memory_Err | Format_Err | Undefined

text \<open>A conversion of the \<open>printf\<close> family consumes one argument of the given type.\<close>

datatype va_type = T_int | T_long | T_llong | T_double

fun va_has :: "va_type \<Rightarrow> va \<Rightarrow> bool" where
  "va_has T_int (Va_int _) = True"
| "va_has T_long (Va_long _) = True"
| "va_has T_llong (Va_llong _) = True"
| "va_has T_double (Va_double _) = True"
| "va_has _ _ = False"

definition va_arg :: "va_type \<Rightarrow> va list \<Rightarrow> fmt_error + va list" where
  "va_arg t ap = (case ap of a # ap' \<Rightarrow> if va_has t a then Inr ap' else Inl Undefined | [] \<Rightarrow> Inl Undefined)"

definition rd_ch :: "string \<Rightarrow> nat \<Rightarrow> fmt_error + char" where
  "rd_ch fmt i = (case rd fmt i of None \<Rightarrow> Inl Undefined | Some c \<Rightarrow> Inr c)"

definition bind_err :: "'e + 'a \<Rightarrow> ('a \<Rightarrow> 'e + 'b) \<Rightarrow> 'e + 'b" where
  "bind_err m f = (case m of Inl e \<Rightarrow> Inl e | Inr x \<Rightarrow> f x)"

text \<open>\<open>strchr (s, c) != NULL\<close>: the terminator is part of the string that is searched.\<close>

definition strchr_hit :: "string \<Rightarrow> char \<Rightarrow> bool" where
  "strchr_hit s c \<longleftrightarrow> c = NUL \<or> c \<in> set s"

abbreviation (input) intfmts :: string where "intfmts \<equiv> ''diouxX''"

text \<open>\<open>while (*_p != 0 && P (*_p)) _p++\<close>\<close>

function skip_while :: "(char \<Rightarrow> bool) \<Rightarrow> string \<Rightarrow> nat \<Rightarrow> fmt_error + nat" where
  "skip_while P fmt p =
     (case rd fmt p of
        None \<Rightarrow> Inl Undefined
      | Some c \<Rightarrow> if c \<noteq> NUL \<and> P c then skip_while P fmt (Suc p) else Inr p)"
  by pat_completeness auto
termination
  by (relation "measure (\<lambda>(P, fmt, p). length fmt - p)") (auto dest: rd_eq_SomeD)

declare skip_while.simps [simp del]

text \<open>The integer conversion behind a size modifier of \<open>k\<close> characters.\<close>

definition sized_conv :: "string \<Rightarrow> nat \<Rightarrow> va_type \<Rightarrow> fmt_error + (va_type \<times> nat)" where
  "sized_conv fmt p t =
     bind_err (rd_ch fmt p) (\<lambda>c.
       if c \<noteq> NUL \<and> strchr_hit intfmts c then Inr (t, p) else Inl Format_Err)"

text \<open>
  The conversion at \<open>c\<close>: flags, field width, precision, then the conversion with its size; the
  result is the type of the argument and the index \<open>_p\<close> of the conversion character.
\<close>

definition conv_start :: "string \<Rightarrow> nat \<Rightarrow> fmt_error + nat" where
  "conv_start fmt c =
     bind_err (skip_while (strchr_hit ''#0-+ '') fmt (c + 1)) (\<lambda>p.
     bind_err (skip_while isdigit fmt p) (\<lambda>p.
     bind_err (rd_ch fmt p) (\<lambda>ch.
       if ch = CHR ''.'' then skip_while isdigit fmt (p + 1) else Inr p)))"

definition conv_spec :: "string \<Rightarrow> nat \<Rightarrow> fmt_error + (va_type \<times> nat)" where
  "conv_spec fmt c =
     bind_err (conv_start fmt c) (\<lambda>p.
     bind_err (rd_ch fmt p) (\<lambda>ch.
       if strchr_hit intfmts ch then Inr (T_int, p)
       else if strchr_hit ''eEfFgGaA'' ch then Inr (T_double, p)
       else if ch = CHR ''h'' then
         bind_err (rd_ch fmt (p + 1)) (\<lambda>ch2.
           if ch2 = CHR ''h'' then sized_conv fmt (p + 2) T_int else sized_conv fmt (p + 1) T_int)
       else if ch = CHR ''l'' then
         bind_err (rd_ch fmt (p + 1)) (\<lambda>ch2.
           if ch2 = CHR ''l'' then sized_conv fmt (p + 2) T_llong else sized_conv fmt (p + 1) T_long)
       else Inl Format_Err))"

section \<open>The formatter\<close>

text \<open>
  The variables of the loop; \<open>totlen\<close> is an \<open>int\<close> of 32 bits.
\<close>

record fmt_state =
  f_c :: nat
  f_curarg :: string
  f_touched :: bool
  f_argv :: "string list"
  f_totlen :: u32
  f_ap :: "va list"

text \<open>The current argument goes to the argument vector.\<close>

definition push_arg :: "(nat \<Rightarrow> bool) \<Rightarrow> fmt_state \<Rightarrow> fmt_error + fmt_state" where
  "push_arg alloc s =
     (if alloc (length (f_argv s) + 1)
      then Inr (s\<lparr>f_argv := f_argv s @ [f_curarg s],
                  f_totlen := f_totlen s + of_nat (bulklen (length (f_curarg s)))\<rparr>)
      else Inl Memory_Err)"

definition sdscatlen_arg :: "(nat \<Rightarrow> bool) \<Rightarrow> string \<Rightarrow> string \<Rightarrow> fmt_error + string" where
  "sdscatlen_arg alloc arg t =
     (if alloc (length arg + length t) then Inr (arg @ t) else Inl Memory_Err)"

text \<open>A character outside a conversion.\<close>

definition fmt_plain :: "(nat \<Rightarrow> bool) \<Rightarrow> char \<Rightarrow> fmt_state \<Rightarrow> fmt_error + fmt_state" where
  "fmt_plain alloc ch s =
     (if ch = CHR '' '' then
        if f_touched s then
          bind_err (push_arg alloc s) (\<lambda>s.
            if alloc 0 then Inr (s\<lparr>f_curarg := [], f_touched := False\<rparr>) else Inl Memory_Err)
        else Inr s
      else
        bind_err (sdscatlen_arg alloc (f_curarg s) [ch]) (\<lambda>a. Inr (s\<lparr>f_curarg := a, f_touched := True\<rparr>)))"

text \<open>
  The conversions \<open>%s\<close> and \<open>%b\<close>, and one of the \<open>printf\<close> family, which is passed on when it has at
  most 13 characters; a longer one is not converted and the scan goes on behind its second character.
\<close>

definition conv_string :: "(nat \<Rightarrow> bool) \<Rightarrow> fmt_state \<Rightarrow> fmt_error + fmt_state" where
  "conv_string alloc s =
     (case f_ap s of
        Va_ptr arg # ap \<Rightarrow>
          if NUL \<in> set arg then
            let t = takeWhile (\<lambda>c. c \<noteq> NUL) arg in
            bind_err (if length t > 0 then sdscatlen_arg alloc (f_curarg s) t else Inr (f_curarg s))
              (\<lambda>a. Inr (s\<lparr>f_curarg := a, f_ap := ap\<rparr>))
          else Inl Undefined
      | _ \<Rightarrow> Inl Undefined)"

definition conv_binary :: "(nat \<Rightarrow> bool) \<Rightarrow> fmt_state \<Rightarrow> fmt_error + fmt_state" where
  "conv_binary alloc s =
     (case f_ap s of
        Va_ptr arg # Va_size n # ap \<Rightarrow>
          if n > 0 then
            if n \<le> length arg
            then bind_err (sdscatlen_arg alloc (f_curarg s) (take n arg))
                   (\<lambda>a. Inr (s\<lparr>f_curarg := a, f_ap := ap\<rparr>))
            else Inl Undefined
          else Inr (s\<lparr>f_ap := ap\<rparr>)
      | _ \<Rightarrow> Inl Undefined)"

definition conv_printf ::
    "(nat \<Rightarrow> bool) \<Rightarrow> (string \<Rightarrow> va list \<Rightarrow> string) \<Rightarrow> string \<Rightarrow> fmt_state \<Rightarrow> fmt_error + fmt_state" where
  "conv_printf alloc vpf fmt s =
     bind_err (conv_spec fmt (f_c s)) (\<lambda>(t, p).
     bind_err (va_arg t (f_ap s)) (\<lambda>ap.
       let l = p + 1 - f_c s in
       if l < 14 then
         bind_err (sdscatlen_arg alloc (f_curarg s) (vpf (take l (drop (f_c s) fmt)) (f_ap s)))
           (\<lambda>a. Inr (s\<lparr>f_curarg := a, f_ap := ap, f_c := p - 1\<rparr>))
       else Inr (s\<lparr>f_ap := ap\<rparr>)))"

definition fmt_conv ::
    "(nat \<Rightarrow> bool) \<Rightarrow> (string \<Rightarrow> va list \<Rightarrow> string) \<Rightarrow> string \<Rightarrow> char \<Rightarrow> fmt_state \<Rightarrow> fmt_error + fmt_state" where
  "fmt_conv alloc vpf fmt ch s =
     bind_err
       (if ch = CHR ''s'' then conv_string alloc s
        else if ch = CHR ''b'' then conv_binary alloc s
        else if ch = CHR ''%'' then
          bind_err (sdscatlen_arg alloc (f_curarg s) ''%'') (\<lambda>a. Inr (s\<lparr>f_curarg := a\<rparr>))
        else conv_printf alloc vpf fmt s)
       (\<lambda>s. Inr (s\<lparr>f_touched := True, f_c := f_c s + 1\<rparr>))"

text \<open>One turn of the loop, at the character \<open>ch\<close> which is not the terminator.\<close>

definition fmt_step ::
    "(nat \<Rightarrow> bool) \<Rightarrow> (string \<Rightarrow> va list \<Rightarrow> string) \<Rightarrow> string \<Rightarrow> char \<Rightarrow> fmt_state \<Rightarrow> fmt_error + fmt_state" where
  "fmt_step alloc vpf fmt ch s =
     bind_err
       (if ch \<noteq> CHR ''%'' then fmt_plain alloc ch s
        else bind_err (rd_ch fmt (f_c s + 1)) (\<lambda>ch2.
          if ch2 = NUL then fmt_plain alloc ch s else fmt_conv alloc vpf fmt ch2 s))
       (\<lambda>s. Inr (s\<lparr>f_c := f_c s + 1\<rparr>))"

text \<open>Every turn moves the cursor forward, so the loop ends.\<close>

lemma bind_err_Inr [simp]: "bind_err m f = Inr y \<longleftrightarrow> (\<exists>x. m = Inr x \<and> f x = Inr y)"
  by (simp add: bind_err_def split: sum.splits)

lemma bind_err_simps [simp]: "bind_err (Inr x) f = f x" "bind_err (Inl e) f = Inl e"
  by (simp_all add: bind_err_def)

lemma skip_while_ge: "skip_while P fmt p = Inr q \<Longrightarrow> p \<le> q"
proof (induction P fmt p rule: skip_while.induct)
  case (1 P fmt p)
  then show ?case
    by (subst (asm) (2) skip_while.simps) (fastforce split: option.splits if_splits)
qed

lemma conv_start_ge: "conv_start fmt c = Inr p \<Longrightarrow> c + 1 \<le> p"
  by (fastforce simp: conv_start_def dest: skip_while_ge split: if_splits)

lemma conv_spec_ge:
  assumes "conv_spec fmt c = Inr (t, p)"
  shows "c + 1 \<le> p"
  using assms conv_start_ge [of fmt c]
  by (fastforce simp: conv_spec_def sized_conv_def split: if_splits)

lemma fmt_plain_c: "fmt_plain alloc ch s = Inr s' \<Longrightarrow> f_c s' = f_c s"
  by (auto simp: fmt_plain_def push_arg_def split: if_splits)

lemma fmt_conv_c:
  assumes "fmt_conv alloc vpf fmt ch s = Inr s'"
  shows "f_c s < f_c s'"
proof -
  have "f_c s \<le> f_c s''" if "conv_string alloc s = Inr s''" for s''
    using that by (auto simp: conv_string_def Let_def split: list.splits va.splits if_splits)
  moreover have "f_c s \<le> f_c s''" if "conv_binary alloc s = Inr s''" for s''
    using that by (auto simp: conv_binary_def split: list.splits va.splits if_splits)
  moreover have "f_c s \<le> f_c s''" if "conv_printf alloc vpf fmt s = Inr s''" for s''
    using that conv_spec_ge [of fmt "f_c s"]
    by (fastforce simp: conv_printf_def Let_def split: if_splits)
  ultimately show ?thesis
    using assms by (fastforce simp: fmt_conv_def less_Suc_eq_le split: if_splits)
qed

lemma fmt_step_progress: "fmt_step alloc vpf fmt ch s = Inr s' \<Longrightarrow> f_c s < f_c s'"
  using fmt_plain_c fmt_conv_c by (fastforce simp: fmt_step_def split: if_splits)

function fmt_loop ::
    "(nat \<Rightarrow> bool) \<Rightarrow> (string \<Rightarrow> va list \<Rightarrow> string) \<Rightarrow> string \<Rightarrow> fmt_state \<Rightarrow> fmt_error + fmt_state" where
  "fmt_loop alloc vpf fmt s =
     (case rd fmt (f_c s) of
        None \<Rightarrow> Inl Undefined
      | Some ch \<Rightarrow>
          if ch = NUL then Inr s
          else (case fmt_step alloc vpf fmt ch s of
                  Inl e \<Rightarrow> Inl e
                | Inr s' \<Rightarrow> fmt_loop alloc vpf fmt s'))"
  by pat_completeness auto
termination
  by (relation "measure (\<lambda>(alloc, vpf, fmt, s). length fmt - f_c s)")
    (auto dest!: rd_eq_SomeD fmt_step_progress)

declare fmt_loop.simps [simp del]

text \<open>The bytes \<open>sprintf\<close> and \<open>memcpy\<close> write, in order.\<close>

definition write_arg :: "string \<Rightarrow> string" where
  "write_arg a = CHR ''$'' # udec (length a) @ [CR, LF] @ a @ [CR, LF]"

definition write_command :: "string list \<Rightarrow> string" where
  "write_command argv = CHR ''*'' # udec (length argv) @ [CR, LF] @ concat (map write_arg argv)"

text \<open>
  The end of \<open>redisvFormatCommand\<close>.  The buffer has \<open>totlen + 1\<close> bytes: the sum is one of \<open>int\<close>,
  converted to \<open>size_t\<close>.  Writing more than that, or a failed assertion, is \<open>Undefined\<close>.
\<close>

definition fmt_finish :: "(nat \<Rightarrow> bool) \<Rightarrow> fmt_state \<Rightarrow> fmt_error + (int \<times> string)" where
  "fmt_finish alloc s =
     bind_err (if f_touched s then push_arg alloc s else Inr s) (\<lambda>s.
       let totlen = f_totlen s + of_nat (1 + countDigits (length (f_argv s)) + 2);
           size = nat ((sint totlen + 1) mod 18446744073709551616);
           cmd = write_command (f_argv s) in
       if sint totlen = 2147483647 then Inl Undefined
       else if \<not> alloc size then Inl Memory_Err
       else if length cmd + 1 \<le> size \<and> int (length cmd) = sint totlen then Inr (sint totlen, cmd)
       else Inl Undefined)"

text \<open>The returned code with the string stored in \<open>*target\<close>; \<open>None\<close> is undefined behaviour.\<close>

definition redisvFormatCommand ::
    "(nat \<Rightarrow> bool) \<Rightarrow> (string \<Rightarrow> va list \<Rightarrow> string) \<Rightarrow> string \<Rightarrow> va list \<Rightarrow> (int \<times> string option) option" where
  "redisvFormatCommand alloc vpf fmt ap =
     (if \<not> alloc 0 then Some (-1, None)
      else
        (case bind_err (fmt_loop alloc vpf fmt
                 \<lparr>f_c = 0, f_curarg = [], f_touched = False, f_argv = [], f_totlen = 0, f_ap = ap\<rparr>)
               (fmt_finish alloc) of
           Inr (totlen, cmd) \<Rightarrow> Some (totlen, Some cmd)
         | Inl Memory_Err \<Rightarrow> Some (-1, None)
         | Inl Format_Err \<Rightarrow> Some (-2, None)
         | Inl Undefined \<Rightarrow> None))"

definition redisFormatCommand ::
    "(nat \<Rightarrow> bool) \<Rightarrow> (string \<Rightarrow> va list \<Rightarrow> string) \<Rightarrow> string \<Rightarrow> va list \<Rightarrow> (int \<times> string option) option" where
  "redisFormatCommand alloc vpf fmt ap =
     map_option (\<lambda>(len, target). (if len < 0 then -1 else len, target)) (redisvFormatCommand alloc vpf fmt ap)"

section \<open>Argument vectors\<close>

text \<open>
  The arguments are objects; \<open>argvlen\<close> has their lengths, or is a null pointer and \<open>strlen\<close> is
  used.  A length that leaves the object is undefined behaviour, \<open>None\<close>.
\<close>

definition arg_len :: "nat list option \<Rightarrow> string list \<Rightarrow> nat \<Rightarrow> nat option" where
  "arg_len argvlen argv j =
     (case argvlen of
        Some ls \<Rightarrow> (case rd ls j of
            None \<Rightarrow> None | Some n \<Rightarrow> if n \<le> length (argv ! j) then Some n else None)
      | None \<Rightarrow> if NUL \<in> set (argv ! j) then Some (c_strlen (argv ! j)) else None)"

fun arg_values :: "nat list option \<Rightarrow> string list \<Rightarrow> nat list \<Rightarrow> string list option" where
  "arg_values argvlen argv [] = Some []"
| "arg_values argvlen argv (j # js) =
     do { n \<leftarrow> arg_len argvlen argv j;
          as \<leftarrow> arg_values argvlen argv js;
          Some (take n (argv ! j) # as) }"

text \<open>The size that is computed first, in \<open>size_t\<close>.\<close>

definition argv_totlen :: "string list \<Rightarrow> u64" where
  "argv_totlen args = foldl (\<lambda>t a. t + of_nat (bulklen (length a)))
     (of_nat (1 + countDigits (length args) + 2)) args"

definition redisFormatCommandArgv ::
    "(nat \<Rightarrow> bool) \<Rightarrow> string list \<Rightarrow> nat list option \<Rightarrow> (int \<times> string option) option" where
  "redisFormatCommandArgv alloc argv argvlen =
     do { args \<leftarrow> arg_values argvlen argv [0..<length argv];
          let totlen = argv_totlen args;
          let cmd = write_command args;
          if \<not> alloc (unat (totlen + 1)) then Some (-1, None)
          else if length cmd + 1 \<le> unat (totlen + 1) \<and> length cmd = unat totlen
          then Some (sint totlen, Some cmd)
          else None }"

definition redisFormatSdsCommandArgv ::
    "(nat \<Rightarrow> bool) \<Rightarrow> string list \<Rightarrow> nat list option \<Rightarrow> (int \<times> string option) option" where
  "redisFormatSdsCommandArgv alloc argv argvlen =
     do { args \<leftarrow> arg_values argvlen argv [0..<length argv];
          let totlen = argv_totlen args;
          let cmd = write_command args;
          if \<not> alloc 0 \<or> \<not> alloc (unat totlen) then Some (-1, None)
          else if length cmd = unat totlen then Some (sint totlen, Some cmd)
          else None }"

end
