(* ===== verification/Redis_Format_Props.thy ===== *)
theory Redis_Format_Props
  imports Redis_Format Redis_Reader_Props
begin

text \<open>
  Correctness of the command formatter: the computed sizes are the sizes of what is written,
  an argument vector becomes the array of bulk strings that the reply reader reads back, and the
  \<open>printf\<close>-like function splits its format at the spaces of the format only, whatever the
  interpolated arguments contain.
\<close>

section \<open>Sizes\<close>

lemma length_udec_step: "\<not> n < 10 \<Longrightarrow> length (udec n) = Suc (length (udec (n div 10)))"
  by (subst udec.simps) simp

lemma length_udec_small: "n < 10 \<Longrightarrow> length (udec n) = 1"
  by (subst udec.simps) simp

lemma countDigits_udec: "countDigits n = length (udec n)"
proof (induction n rule: countDigits.induct)
  case (1 v)
  show ?case
  proof (cases "v < 10000")
    case True
    then show ?thesis
      by (subst countDigits.simps)
        (auto simp: length_udec_small length_udec_step div_mult2_eq [symmetric] numeral_eq_Suc [of "num.One"])
  next
    case False
    then have "length (udec v) = 4 + length (udec (v div 10000))"
      by (simp add: length_udec_step div_mult2_eq [symmetric])
    with False 1 show ?thesis by (subst countDigits.simps) simp
  qed
qed

lemma length_write_arg: "length (write_arg a) = bulklen (length a)"
  by (simp add: write_arg_def bulklen_def countDigits_udec)

lemma length_write_command:
  "length (write_command args) = 3 + countDigits (length args) + sum_list (map (bulklen \<circ> length) args)"
  by (simp add: write_command_def countDigits_udec length_concat comp_def length_write_arg)

text \<open>What is written is the wire form of an array of bulk strings.\<close>

lemma write_command_enc: "write_command args = enc (RAgg Agg_Array (map RBulk args))"
proof -
  have "write_arg = enc \<circ> RBulk" by (simp add: fun_eq_iff write_arg_def)
  then show ?thesis by (simp add: write_command_def)
qed

lemma length_args_le: "a \<in> set args \<Longrightarrow> length a \<le> length (write_command args)"
proof -
  assume "a \<in> set args"
  then have "bulklen (length a) \<le> sum_list (map (bulklen \<circ> length) args)"
    by (induction args) auto
  then show ?thesis by (simp add: length_write_command bulklen_def)
qed

lemma length_argv_le: "length args \<le> length (write_command args)"
proof -
  have "length args \<le> sum_list (map (bulklen \<circ> length) args)"
    by (induction args) (auto simp: bulklen_def)
  then show ?thesis by (simp add: length_write_command)
qed

lemma wf_resp_argv:
  assumes "length (write_command args) < 2 ^ 63" "lim > 0 \<longrightarrow> int (length args) \<le> lim"
  shows "wf_resp strtod_ok lim (RAgg Agg_Array (map RBulk args))"
proof -
  have "int (length a) \<le> LLONG_MAX" if "a \<in> set args" for a
    using length_args_le [OF that] assms(1) by simp
  then show ?thesis
    using assms length_argv_le [of args] by (auto simp: list_all_iff)
qed

section \<open>Argument vectors\<close>

lemma argv_totlen_eq: "argv_totlen args = of_nat (length (write_command args))"
proof -
  have "foldl (\<lambda>t a. t + of_nat (bulklen (length a))) w args = w + of_nat (sum_list (map (bulklen \<circ> length) args))"
    for w :: u64 by (induction args arbitrary: w) (simp_all add: algebra_simps)
  then show ?thesis by (simp add: argv_totlen_def length_write_command algebra_simps)
qed

lemma argv_totlen_small:
  assumes "length (write_command args) < 2 ^ 63"
  shows "unat (argv_totlen args) = length (write_command args)"
    and "unat (argv_totlen args + 1) = length (write_command args) + 1"
    and "sint (argv_totlen args) = int (length (write_command args))"
proof -
  show u: "unat (argv_totlen args) = length (write_command args)"
    using assms by (simp add: argv_totlen_eq unat_of_nat_small)
  have "argv_totlen args + 1 = of_nat (length (write_command args) + 1)"
    by (simp add: argv_totlen_eq)
  then show "unat (argv_totlen args + 1) = length (write_command args) + 1"
    using assms by (simp only:) (subst unat_of_nat_small; simp)
  show "sint (argv_totlen args) = int (length (write_command args))"
    using assms by (simp add: argv_totlen_eq signed_of_nat signed_take_bit_int_eq_self)
qed

lemma formatArgv_value:
  assumes "\<And>n. alloc n" "arg_values argvlen argv [0..<length argv] = Some args"
    and "length (write_command args) < 2 ^ 63"
  shows "redisFormatCommandArgv alloc argv argvlen =
      Some (int (length (write_command args)), Some (write_command args))"
    and "redisFormatSdsCommandArgv alloc argv argvlen =
      Some (int (length (write_command args)), Some (write_command args))"
  using assms argv_totlen_small [OF assms(3)]
  by (simp_all add: redisFormatCommandArgv_def redisFormatSdsCommandArgv_def Let_def)

section \<open>Formats\<close>

text \<open>
  A well-formed format as a list of tokens: characters, spaces, the escaped percent sign, and the
  conversions with their arguments.  A conversion of the \<open>printf\<close> family has flags, a width, a
  precision (with its dot, or empty), a size and a conversion character.
\<close>

datatype tok =
    Lit char
  | Space
  | Percent
  | Str string
  | Bin string
  | Conv string string string string char va

fun size_type :: "string \<Rightarrow> char \<Rightarrow> va_type option" where
  "size_type sz c =
     (if c \<in> set ''diouxX'' then
        if sz \<in> {[], ''h'', ''hh''} then Some T_int
        else if sz = ''l'' then Some T_long
        else if sz = ''ll'' then Some T_llong
        else None
      else if c \<in> set ''eEfFgGaA'' \<and> sz = [] then Some T_double
      else None)"

definition conv_text :: "string \<Rightarrow> string \<Rightarrow> string \<Rightarrow> string \<Rightarrow> char \<Rightarrow> string" where
  "conv_text fl wd pr sz c = CHR ''%'' # fl @ wd @ pr @ sz @ [c]"

fun wf_tok :: "tok \<Rightarrow> bool" where
  "wf_tok (Lit c) \<longleftrightarrow> c \<notin> {NUL, CHR '' '', CHR ''%''}"
| "wf_tok Space \<longleftrightarrow> True"
| "wf_tok Percent \<longleftrightarrow> True"
| "wf_tok (Str s) \<longleftrightarrow> no_nul s"
| "wf_tok (Bin b) \<longleftrightarrow> True"
| "wf_tok (Conv fl wd pr sz c v) \<longleftrightarrow>
     set fl \<subseteq> set ''#0-+ '' \<and> list_all isdigit wd \<and> (wd \<noteq> [] \<longrightarrow> hd wd \<noteq> CHR ''0'') \<and>
     (pr = [] \<or> hd pr = CHR ''.'' \<and> list_all isdigit (tl pr)) \<and>
     (case size_type sz c of None \<Rightarrow> False | Some t \<Rightarrow> va_has t v) \<and>
     length (conv_text fl wd pr sz c) < 14"

fun tok_fmt :: "tok \<Rightarrow> string" where
  "tok_fmt (Lit c) = [c]"
| "tok_fmt Space = '' ''"
| "tok_fmt Percent = ''%%''"
| "tok_fmt (Str s) = ''%s''"
| "tok_fmt (Bin b) = ''%b''"
| "tok_fmt (Conv fl wd pr sz c v) = conv_text fl wd pr sz c"

fun tok_args :: "tok \<Rightarrow> va list" where
  "tok_args (Str s) = [Va_ptr (s @ [NUL])]"
| "tok_args (Bin b) = [Va_ptr b, Va_size (length b)]"
| "tok_args (Conv fl wd pr sz c v) = [v]"
| "tok_args _ = []"

text \<open>The text a token adds to its word; \<open>pr1\<close> is the output of \<open>printf\<close> for one argument.\<close>

fun tok_text :: "(string \<Rightarrow> va \<Rightarrow> string) \<Rightarrow> tok \<Rightarrow> string" where
  "tok_text pr1 (Lit c) = [c]"
| "tok_text pr1 Space = []"
| "tok_text pr1 Percent = ''%''"
| "tok_text pr1 (Str s) = s"
| "tok_text pr1 (Bin b) = b"
| "tok_text pr1 (Conv fl wd pr sz c v) = pr1 (conv_text fl wd pr sz c) v"

text \<open>The words of a format: only its own spaces separate them.\<close>

abbreviation word_list :: "string option \<Rightarrow> string list" where
  "word_list cur \<equiv> (case cur of None \<Rightarrow> [] | Some a \<Rightarrow> [a])"

abbreviation word_text :: "string option \<Rightarrow> string" where
  "word_text cur \<equiv> (case cur of None \<Rightarrow> [] | Some a \<Rightarrow> a)"

fun fmt_words :: "(string \<Rightarrow> va \<Rightarrow> string) \<Rightarrow> string option \<Rightarrow> tok list \<Rightarrow> string list" where
  "fmt_words pr1 cur [] = word_list cur"
| "fmt_words pr1 cur (t # ts) =
     (if t = Space then word_list cur @ fmt_words pr1 None ts
      else fmt_words pr1 (Some (word_text cur @ tok_text pr1 t)) ts)"

abbreviation vpf_of :: "(string \<Rightarrow> va \<Rightarrow> string) \<Rightarrow> string \<Rightarrow> va list \<Rightarrow> string" where
  "vpf_of pr1 \<equiv> (\<lambda>f ap. pr1 f (hd ap))"

lemma skip_while_run:
  assumes "\<And>c. c \<in> set run \<Longrightarrow> c \<noteq> NUL \<and> P c" "c = NUL \<or> \<not> P c" "p = length pre"
  shows "skip_while P (pre @ run @ c # rest) p = Inr (p + length run)"
  using assms
proof (induction run arbitrary: pre p)
  case Nil
  then show ?case by (subst skip_while.simps) auto
next
  case (Cons d run)
  have "skip_while P ((pre @ [d]) @ run @ c # rest) (Suc p) = Inr (Suc p + length run)"
    by (rule Cons.IH) (use Cons.prems in auto)
  then show ?case using Cons.prems by (subst skip_while.simps) simp
qed

lemma isdigit_chars: "isdigit c \<Longrightarrow> c \<noteq> NUL \<and> c \<noteq> CHR ''.''"
  by (auto simp: isdigit_def char_code_def)

lemma flag_chars: "strchr_hit ''#0-+ '' c \<longleftrightarrow> c = NUL \<or> c \<in> set ''#0-+ ''"
  by (simp add: strchr_hit_def)

lemma digit_no_flag: "isdigit c \<Longrightarrow> c \<noteq> CHR ''0'' \<Longrightarrow> c \<notin> set ''#0-+ ''"
  by (auto simp: isdigit_def char_code_def)

lemma rd_ch_at: "p = length pre \<Longrightarrow> rd_ch (pre @ c # rest) p = Inr c"
  by (simp add: rd_ch_def)

lemma rd_ch_next: "p = Suc (length pre) \<Longrightarrow> rd_ch (pre @ b # c # rest) p = Inr c"
  using rd_ch_at [of p "pre @ [b]"] by simp

abbreviation stops :: "char \<Rightarrow> bool" where
  "stops e \<equiv> \<not> isdigit e \<and> e \<noteq> CHR ''.'' \<and> e \<notin> set ''#0-+ ''"

lemma conv_start_run:
  assumes "set fl \<subseteq> set ''#0-+ ''" "list_all isdigit wd" "wd \<noteq> [] \<longrightarrow> hd wd \<noteq> CHR ''0''"
    and "pr = [] \<or> hd pr = CHR ''.'' \<and> list_all isdigit (tl pr)" "stops e"
  shows "conv_start (pre @ CHR ''%'' # fl @ wd @ pr @ e # rest) (length pre) =
    Inr (length pre + 1 + length fl + length wd + length pr)"
proof -
  let ?p = "length pre + 1 + length fl"
  obtain d ds where d: "wd @ pr @ e # rest = d # ds" "d = NUL \<or> d \<notin> set ''#0-+ ''"
    using assms digit_no_flag [of "hd wd"]
    by (cases wd; cases pr) (auto simp: list_all_iff)
  have run: "c \<noteq> NUL \<and> strchr_hit ''#0-+ '' c" if "c \<in> set fl" for c
    using that assms(1) by (auto simp: strchr_hit_def)
  have fl: "skip_while (strchr_hit ''#0-+ '') (pre @ CHR ''%'' # fl @ wd @ pr @ e # rest) (length pre + 1) = Inr ?p"
    using skip_while_run [where run = fl and P = "strchr_hit ''#0-+ ''" and c = d and rest = ds and
        pre = "pre @ ''%''" and p = "length pre + 1", OF run] d
    by (auto simp: strchr_hit_def)
  obtain d2 ds2 where d2: "pr @ e # rest = d2 # ds2" "\<not> isdigit d2"
    using assms by (cases pr) (auto simp: isdigit_def char_code_def)
  have wd: "skip_while isdigit (pre @ CHR ''%'' # fl @ wd @ pr @ e # rest) ?p = Inr (?p + length wd)"
    using skip_while_run [where run = wd and P = isdigit and c = d2 and rest = ds2 and
        pre = "pre @ ''%'' @ fl" and p = ?p] d2 assms(2) isdigit_chars
    by (auto simp: list_all_iff)
  let ?q = "?p + length wd"
  show ?thesis
  proof (cases pr)
    case Nil
    have "rd_ch ((pre @ ''%'' @ fl @ wd) @ e # rest) ?q = Inr e" by (rule rd_ch_at) simp
    with Nil fl wd assms(5) show ?thesis by (simp add: conv_start_def)
  next
    case (Cons b ps)
    then have b: "b = CHR ''.''" "list_all isdigit ps" using assms(4) by auto
    have "rd_ch ((pre @ ''%'' @ fl @ wd) @ b # ps @ e # rest) ?q = Inr b" by (rule rd_ch_at) simp
    moreover have "skip_while isdigit ((pre @ ''%'' @ fl @ wd @ [b]) @ ps @ e # rest) (?q + 1) = Inr (?q + 1 + length ps)"
      by (rule skip_while_run) (use b assms(5) isdigit_chars in \<open>auto simp: list_all_iff\<close>)
    ultimately show ?thesis using Cons fl wd b by (simp add: conv_start_def)
  qed
qed

lemma size_type_cases:
  assumes "size_type sz c = Some t"
  obtains "c \<in> set ''diouxX''" "sz = []" "t = T_int"
  | "c \<in> set ''diouxX''" "sz = ''h''" "t = T_int"
  | "c \<in> set ''diouxX''" "sz = ''hh''" "t = T_int"
  | "c \<in> set ''diouxX''" "sz = ''l''" "t = T_long"
  | "c \<in> set ''diouxX''" "sz = ''ll''" "t = T_llong"
  | "c \<in> set ''eEfFgGaA''" "sz = []" "t = T_double"
  using assms unfolding size_type.simps
  by (simp only: insert_iff empty_iff split: if_split_asm) auto

lemma stops_conv:
  "c \<in> set ''diouxXeEfFgGaAhl'' \<Longrightarrow> stops c \<and> c \<noteq> NUL"
  by (auto simp: isdigit_def char_code_def)

lemma conv_spec_conv:
  assumes "wf_tok (Conv fl wd pr sz c v)"
  obtains t where "size_type sz c = Some t" "va_has t v"
    and "conv_spec (pre @ conv_text fl wd pr sz c @ rest) (length pre) =
      Inr (t, length pre + length (conv_text fl wd pr sz c) - 1)"
proof -
  from assms obtain t where t: "size_type sz c = Some t" "va_has t v" by (auto split: option.splits)
  let ?h = "pre @ CHR ''%'' # fl @ wd @ pr" and ?p = "length pre + 1 + length fl + length wd + length pr"
  have start: "conv_start (?h @ e # es) (length pre) = Inr ?p" if "stops e" for e es
    using conv_start_run [of fl wd pr e pre es] assms that by simp
  have p: "?p = length ?h" by simp
  have sized: "sized_conv (xs @ c # rest) n t' = Inr (t', n)" if "c \<in> set intfmts" "n = length xs" for xs n t'
    using that rd_ch_at [OF that(2), of c rest] by (auto simp: sized_conv_def strchr_hit_def)
  have hl: "stops (CHR ''h'')" "stops (CHR ''l'')" "\<not> strchr_hit intfmts (CHR ''h'')"
    "\<not> strchr_hit intfmts (CHR ''l'')" "\<not> strchr_hit ''eEfFgGaA'' (CHR ''h'')" "\<not> strchr_hit ''eEfFgGaA'' (CHR ''l'')"
    by (simp_all add: isdigit_def char_code_def strchr_hit_def)
  have "conv_spec (?h @ sz @ c # rest) (length pre) = Inr (t, ?p + length sz)" using t(1)
  proof (cases rule: size_type_cases)
    case 1
    have "c \<in> set ''diouxXeEfFgGaAhl''" using 1(1) by auto
    from conjunct1 [OF stops_conv [OF this]] have "stops c" .
    moreover have "strchr_hit intfmts c" using 1(1) by (simp only: strchr_hit_def simp_thms)
    ultimately show ?thesis using start [of c rest] rd_ch_at [OF p, of c rest] 1(2,3)
      by (simp add: conv_spec_def)
  next
    case 2
    have "c \<noteq> CHR ''h''" using 2(1) by auto
    with 2 show ?thesis using start [OF hl(1), of "c # rest"] rd_ch_at [OF p, of "CHR ''h''" "c # rest"]
        rd_ch_next [of "?p + 1" ?h "CHR ''h''" c rest] sized [OF 2(1), of "?p + 1" "?h @ ''h''"]
      by (simp add: conv_spec_def hl(3-6) del: set_simps)
  next
    case 3
    then show ?thesis using start [OF hl(1), of "CHR ''h'' # c # rest"]
        rd_ch_at [OF p, of "CHR ''h''" "CHR ''h'' # c # rest"]
        rd_ch_next [of "?p + 1" ?h "CHR ''h''" "CHR ''h''" "c # rest"]
        sized [OF 3(1), of "?p + 2" "?h @ ''hh''"]
      by (simp add: conv_spec_def hl(3-6) del: set_simps)
  next
    case 4
    have "c \<noteq> CHR ''l''" using 4(1) by auto
    with 4 show ?thesis using start [OF hl(2), of "c # rest"] rd_ch_at [OF p, of "CHR ''l''" "c # rest"]
        rd_ch_next [of "?p + 1" ?h "CHR ''l''" c rest] sized [OF 4(1), of "?p + 1" "?h @ ''l''"]
      by (simp add: conv_spec_def hl(3-6) del: set_simps)
  next
    case 5
    then show ?thesis using start [OF hl(2), of "CHR ''l'' # c # rest"]
        rd_ch_at [OF p, of "CHR ''l''" "CHR ''l'' # c # rest"]
        rd_ch_next [of "?p + 1" ?h "CHR ''l''" "CHR ''l''" "c # rest"]
        sized [OF 5(1), of "?p + 2" "?h @ ''ll''"]
      by (simp add: conv_spec_def hl(3-6) del: set_simps)
  next
    case 6
    have "c \<in> set ''diouxXeEfFgGaAhl''" using 6(1) by auto
    from conjunct1 [OF stops_conv [OF this]] have "stops c" .
    moreover have "\<not> strchr_hit intfmts c"
      using 6(1) by (simp add: strchr_hit_def) (elim disjE; simp)
    moreover have "strchr_hit ''eEfFgGaA'' c" using 6(1) by (simp only: strchr_hit_def simp_thms)
    ultimately show ?thesis using start [of c rest] rd_ch_at [OF p, of c rest] 6(2,3)
      by (simp add: conv_spec_def)
  qed
  with t show ?thesis by (intro that) (simp_all add: conv_text_def)
qed

lemma takeWhile_cstr: "no_nul s \<Longrightarrow> takeWhile (\<lambda>c. c \<noteq> NUL) (s @ [NUL]) = s"
  by (subst takeWhile_append2) (auto simp: no_nul_def)

lemma conv_printf_conv:
  assumes "\<And>n. alloc n" "wf_tok (Conv fl wd pr sz c v)" "f_c s = length pre" "f_ap s = v # ap"
  defines "ct \<equiv> conv_text fl wd pr sz c"
  shows "conv_printf alloc (vpf_of pr1) (pre @ ct @ rest) s =
    Inr (s\<lparr>f_curarg := f_curarg s @ pr1 ct v, f_ap := ap, f_c := length pre + length ct - 2\<rparr>)"
proof -
  obtain t where t: "va_has t v" "conv_spec (pre @ ct @ rest) (length pre) = Inr (t, length pre + length ct - 1)"
    using conv_spec_conv [OF assms(2), of pre rest] unfolding ct_def by metis
  have "2 \<le> length ct" "length ct < 14" using assms(2) by (simp_all add: ct_def conv_text_def)
  with t assms(1,3,4) show ?thesis
    by (simp add: conv_printf_def va_arg_def sdscatlen_arg_def Let_def numeral_2_eq_2)
qed

lemma conv_second:
  assumes "wf_tok (Conv fl wd pr sz c v)"
  obtains d ds where "conv_text fl wd pr sz c = CHR ''%'' # d # ds" "d \<notin> {NUL, CHR ''s'', CHR ''b'', CHR ''%''}"
proof -
  have conv: "c \<in> set ''diouxXeEfFgGaA''" "sz \<noteq> [] \<Longrightarrow> hd sz \<in> {CHR ''h'', CHR ''l''}"
    using assms by (auto split: option.splits elim!: size_type_cases simp del: size_type.simps)
  have digit: "isdigit d \<Longrightarrow> d \<notin> {NUL, CHR ''s'', CHR ''b'', CHR ''%''}" for d
    by (auto simp: isdigit_def char_code_def)
  consider (fl) d ds where "fl = d # ds" | (wd) d ds where "fl = []" "wd = d # ds"
    | (pr) d ds where "fl = []" "wd = []" "pr = d # ds" | (sz) d ds where "fl = []" "wd = []" "pr = []" "sz = d # ds"
    | (c) "fl = []" "wd = []" "pr = []" "sz = []"
    by (cases fl; cases wd; cases pr; cases sz) auto
  then show thesis
  proof cases
    case fl
    then show thesis using assms by (intro that [of d "ds @ wd @ pr @ sz @ [c]"]) (auto simp: conv_text_def)
  next
    case wd
    then show thesis using assms digit [of d] by (intro that [of d "ds @ pr @ sz @ [c]"]) (auto simp: conv_text_def)
  next
    case pr
    then show thesis using assms by (intro that [of d "ds @ sz @ [c]"]) (auto simp: conv_text_def)
  next
    case sz
    then show thesis using conv(2) by (intro that [of d "ds @ [c]"]) (auto simp: conv_text_def)
  next
    case c
    then show thesis using conv(1) by (intro that [of c "[]"]) (auto simp: conv_text_def)
  qed
qed

lemma fmt_step_tok:
  assumes "\<And>n. alloc n" "wf_tok t" "t \<noteq> Space" "f_c s = length pre" "f_ap s = tok_args t @ ap"
  shows "fmt_step alloc (vpf_of pr1) (pre @ tok_fmt t @ rest) (hd (tok_fmt t)) s =
    Inr (s\<lparr>f_c := length pre + length (tok_fmt t), f_curarg := f_curarg s @ tok_text pr1 t,
           f_touched := True, f_ap := ap\<rparr>)"
proof (cases t)
  case (Conv fl wd pr sz c v)
  obtain d ds where d: "conv_text fl wd pr sz c = CHR ''%'' # d # ds" "d \<notin> {NUL, CHR ''s'', CHR ''b'', CHR ''%''}"
    using conv_second assms(2) Conv by blast
  have "rd_ch (pre @ CHR ''%'' # d # ds @ rest) (length pre + 1) = Inr d" by (rule rd_ch_next) simp
  moreover have "conv_printf alloc (vpf_of pr1) (pre @ CHR ''%'' # d # ds @ rest) s =
      Inr (s\<lparr>f_curarg := f_curarg s @ pr1 (CHR ''%'' # d # ds) v, f_ap := ap, f_c := length pre + length ds\<rparr>)"
    using conv_printf_conv [of alloc fl wd pr sz c v s pre ap pr1 rest] assms Conv d(1) by simp
  ultimately show ?thesis
    using assms d Conv by (simp add: fmt_step_def fmt_conv_def)
next
  case (Lit c)
  then show ?thesis using assms by (simp add: fmt_step_def fmt_plain_def sdscatlen_arg_def)
next
  case Percent
  have "rd_ch (pre @ ''%%'' @ rest) (length pre + 1) = Inr (CHR ''%'')" using rd_ch_next [of "length pre + 1" pre] by simp
  then show ?thesis using assms Percent by (simp add: fmt_step_def fmt_conv_def sdscatlen_arg_def)
next
  case (Str b)
  have "rd_ch (pre @ ''%s'' @ rest) (length pre + 1) = Inr (CHR ''s'')" using rd_ch_next [of "length pre + 1" pre] by simp
  then show ?thesis using assms Str
    by (auto simp: fmt_step_def fmt_conv_def conv_string_def sdscatlen_arg_def takeWhile_cstr Let_def)
next
  case (Bin b)
  have "rd_ch (pre @ ''%b'' @ rest) (length pre + 1) = Inr (CHR ''b'')" using rd_ch_next [of "length pre + 1" pre] by simp
  then show ?thesis using assms Bin
    by (auto simp: fmt_step_def fmt_conv_def conv_binary_def sdscatlen_arg_def)
qed (use assms in simp)

definition argv_sizes :: "string list \<Rightarrow> u32" where
  "argv_sizes args = of_nat (sum_list (map (bulklen \<circ> length) args))"

lemma argv_sizes_snoc: "argv_sizes (args @ [a]) = argv_sizes args + of_nat (bulklen (length a))"
  by (simp add: argv_sizes_def)

lemma fmt_finish_value:
  assumes "\<And>n. alloc n" "f_touched s \<longleftrightarrow> cur \<noteq> None" "f_curarg s = word_text cur"
    and "f_totlen s = argv_sizes (f_argv s)" "args = f_argv s @ word_list cur"
    and "length (write_command args) < 2147483647"
  shows "fmt_finish alloc s = Inr (int (length (write_command args)), write_command args)"
proof -
  have tot: "sint (argv_sizes args + of_nat (1 + countDigits (length args) + 2)) = int (length (write_command args))"
  proof -
    have "argv_sizes args + of_nat (1 + countDigits (length args) + 2) = of_nat (length (write_command args))"
      by (simp add: argv_sizes_def length_write_command)
    then show ?thesis using assms(6) by (simp only: signed_of_nat) (simp add: signed_take_bit_int_eq_self)
  qed
  have "(if f_touched s then push_arg alloc s else Inr s) =
      Inr (s\<lparr>f_argv := args, f_totlen := argv_sizes args\<rparr>)"
    using assms(1-5) by (cases cur) (auto simp: push_arg_def argv_sizes_snoc)
  then show ?thesis
    using assms(1,6) tot by (simp add: fmt_finish_def Let_def)
qed


text \<open>The words read so far, the last of them open.\<close>

definition fmt_words_at :: "fmt_state \<Rightarrow> string list \<Rightarrow> string option \<Rightarrow> bool" where
  "fmt_words_at s args cur \<longleftrightarrow> f_argv s = args \<and> (f_touched s \<longleftrightarrow> cur \<noteq> None) \<and> f_curarg s = word_text cur \<and>
     f_totlen s = argv_sizes (f_argv s)"

lemma fmt_loop_tokens:
  fixes rest :: string
  assumes "\<And>n. alloc n" "list_all wf_tok ts" "f_c s = length pre" "f_ap s = concat (map tok_args ts) @ ap"
    and "fmt_words_at s args cur"
  defines "fmt \<equiv> pre @ concat (map tok_fmt ts) @ rest"
  obtains s' args' cur' where "fmt_loop alloc (vpf_of pr1) fmt s = fmt_loop alloc (vpf_of pr1) fmt s'"
    and "f_c s' = length (pre @ concat (map tok_fmt ts))" "f_ap s' = ap" "fmt_words_at s' args' cur'"
    and "args' @ word_list cur' = args @ fmt_words pr1 cur ts"
  unfolding fmt_def using assms(2-5)
proof (induction ts arbitrary: thesis pre s args cur)
  case Nil
  then show ?case by simp
next
  case (Cons t ts)
  let ?fmt = "pre @ tok_fmt t @ concat (map tok_fmt ts) @ rest"
  have "tok_fmt t \<noteq> []" "hd (tok_fmt t) \<noteq> NUL"
    using Cons.prems(2) by (cases t; auto simp: conv_text_def)+
  then have loop: "fmt_loop alloc (vpf_of pr1) ?fmt s =
      (case fmt_step alloc (vpf_of pr1) ?fmt (hd (tok_fmt t)) s of
         Inl e \<Rightarrow> Inl e | Inr s' \<Rightarrow> fmt_loop alloc (vpf_of pr1) ?fmt s')"
    using Cons.prems(3) by (subst fmt_loop.simps) (cases "tok_fmt t"; simp)
  show ?case
  proof (cases "t = Space")
    case True
    define s' where "s' = (if f_touched s then s\<lparr>f_argv := f_argv s @ [f_curarg s],
        f_totlen := f_totlen s + of_nat (bulklen (length (f_curarg s))), f_curarg := [], f_touched := False\<rparr> else s)
        \<lparr>f_c := f_c s + 1\<rparr>"
    have "fmt_step alloc (vpf_of pr1) ?fmt (hd (tok_fmt t)) s = Inr s'"
      using True assms(1) by (simp add: fmt_step_def fmt_plain_def push_arg_def s'_def)
    moreover have "fmt_words_at s' (args @ word_list cur) None"
      using Cons.prems(5) by (auto simp: fmt_words_at_def s'_def argv_sizes_snoc split: option.splits)
    moreover have "f_c s' = length (pre @ '' '')" "f_ap s' = f_ap s"
      using Cons.prems(3) by (simp_all add: s'_def)
    ultimately show ?thesis
      using Cons.IH [where pre = "pre @ '' ''" and s = s' and cur = None and args = "args @ word_list cur"]
        Cons.prems True loop by (fastforce simp: add.assoc)
  next
    case False
    define s' where "s' = s\<lparr>f_c := length pre + length (tok_fmt t), f_curarg := f_curarg s @ tok_text pr1 t,
           f_touched := True, f_ap := concat (map tok_args ts) @ ap\<rparr>"
    have "fmt_step alloc (vpf_of pr1) ?fmt (hd (tok_fmt t)) s = Inr s'"
      using fmt_step_tok [of alloc t s pre _ pr1] assms(1) False Cons.prems by (simp add: s'_def)
    moreover have "fmt_words_at s' args (Some (word_text cur @ tok_text pr1 t))"
      using Cons.prems(5) by (simp add: fmt_words_at_def s'_def)
    moreover have "f_c s' = length (pre @ tok_fmt t)" "f_ap s' = concat (map tok_args ts) @ ap"
      by (simp_all add: s'_def)
    ultimately show ?thesis
      using Cons.IH [where pre = "pre @ tok_fmt t" and s = s' and args = args and
          cur = "Some (word_text cur @ tok_text pr1 t)"] Cons.prems False loop
      by (fastforce simp: add.assoc)
  qed
qed

abbreviation fmt_start :: "va list \<Rightarrow> fmt_state" where
  "fmt_start ap \<equiv> \<lparr>f_c = 0, f_curarg = [], f_touched = False, f_argv = [], f_totlen = 0, f_ap = ap\<rparr>"

lemma fmt_loop_start:
  assumes "\<And>n. alloc n" "list_all wf_tok ts"
  obtains s args cur where
    "fmt_loop alloc (vpf_of pr1) (concat (map tok_fmt ts) @ rest) (fmt_start (concat (map tok_args ts) @ ap)) =
       fmt_loop alloc (vpf_of pr1) (concat (map tok_fmt ts) @ rest) s"
    and "f_c s = length (concat (map tok_fmt ts))" "f_ap s = ap" "fmt_words_at s args cur"
    and "args @ word_list cur = fmt_words pr1 None ts"
proof -
  let ?s = "fmt_start (concat (map tok_args ts) @ ap)"
  have w: "fmt_words_at ?s [] None" by (simp add: fmt_words_at_def argv_sizes_def)
  have c: "f_c ?s = length []" and ap: "f_ap ?s = concat (map tok_args ts) @ ap" by simp_all
  obtain s args cur where
    "fmt_loop alloc (vpf_of pr1) ([] @ concat (map tok_fmt ts) @ rest) (fmt_start (concat (map tok_args ts) @ ap)) =
       fmt_loop alloc (vpf_of pr1) ([] @ concat (map tok_fmt ts) @ rest) s"
    "f_c s = length ([] @ concat (map tok_fmt ts))" "f_ap s = ap" "fmt_words_at s args cur"
    "args @ word_list cur = [] @ fmt_words pr1 None ts"
    by (rule fmt_loop_tokens [of alloc ts, OF assms c ap w])
  then show thesis by (intro that) simp_all
qed

lemma redisvFormat_tokens:
  assumes "\<And>n. alloc n" "list_all wf_tok ts" "length (write_command (fmt_words pr1 None ts)) < 2147483647"
  shows "redisvFormatCommand alloc (vpf_of pr1) (concat (map tok_fmt ts) @ NUL # junk) (concat (map tok_args ts) @ ap) =
    Some (int (length (write_command (fmt_words pr1 None ts))), Some (write_command (fmt_words pr1 None ts)))"
proof -
  obtain s args cur where s:
    "fmt_loop alloc (vpf_of pr1) (concat (map tok_fmt ts) @ NUL # junk) (fmt_start (concat (map tok_args ts) @ ap)) =
       fmt_loop alloc (vpf_of pr1) (concat (map tok_fmt ts) @ NUL # junk) s"
    "f_c s = length (concat (map tok_fmt ts))" "f_ap s = ap" "fmt_words_at s args cur"
    "args @ word_list cur = fmt_words pr1 None ts"
    by (rule fmt_loop_start [of alloc ts, OF assms(1,2)])
  have "fmt_loop alloc (vpf_of pr1) (concat (map tok_fmt ts) @ NUL # junk) s = Inr s"
    using s(2) by (subst fmt_loop.simps) simp
  moreover have "fmt_finish alloc s = Inr (int (length (write_command (fmt_words pr1 None ts))), write_command (fmt_words pr1 None ts))"
    using s(4,5) assms(1,3) by (intro fmt_finish_value [of alloc s cur]) (auto simp: fmt_words_at_def)
  ultimately show ?thesis using s(1) assms(1) by (simp add: redisvFormatCommand_def)
qed

text \<open>A character behind a percent sign that starts no conversion.\<close>

definition no_conversion :: "char \<Rightarrow> bool" where
  "no_conversion c \<longleftrightarrow> stops c \<and> c \<notin> set ''%sbdiouxXeEfFgGaAhl'' \<and> c \<noteq> NUL"

lemma conv_printf_invalid:
  assumes "no_conversion c" "f_c s = length pre"
  shows "conv_printf alloc vpf (pre @ CHR ''%'' # c # rest) s = Inl Format_Err"
proof -
  have "conv_start (pre @ CHR ''%'' # c # rest) (length pre) = Inr (length pre + 1)"
    using conv_start_run [of "[]" "[]" "[]" c pre rest] assms(1) by (simp add: no_conversion_def)
  moreover have "rd_ch (pre @ CHR ''%'' # c # rest) (length pre + 1) = Inr c" by (rule rd_ch_next) simp
  moreover have "\<not> strchr_hit intfmts c" "\<not> strchr_hit ''eEfFgGaA'' c" "c \<noteq> CHR ''h''" "c \<noteq> CHR ''l''"
    using assms(1) by (simp_all add: no_conversion_def strchr_hit_def)
  ultimately show ?thesis using assms(2) by (simp add: conv_printf_def conv_spec_def)
qed

text \<open>
  A format that ends behind the flags and the width of a conversion: the terminator is taken for the
  conversion character, and the scan goes on behind it.
\<close>

lemma conv_printf_incomplete:
  assumes "\<And>n. alloc n" "d \<noteq> []" "list_all isdigit d" "hd d \<noteq> CHR ''0''" "length d < 12"
    and "f_c s = length pre" "f_ap s = Va_int n # ap"
  shows "\<exists>s'. conv_printf alloc vpf (pre @ CHR ''%'' # d @ [NUL]) s = Inr s' \<and> f_c s' = length pre + length d"
proof -
  have "conv_start (pre @ CHR ''%'' # d @ [NUL]) (length pre) = Inr (length pre + 1 + length d)"
    using conv_start_run [of "[]" d "[]" NUL pre "[]"] assms(3,4) by (simp add: isdigit_def char_code_def)
  moreover have "rd_ch ((pre @ CHR ''%'' # d) @ [NUL]) (length pre + 1 + length d) = Inr NUL"
    by (rule rd_ch_at) simp
  ultimately have "conv_spec (pre @ CHR ''%'' # d @ [NUL]) (length pre) = Inr (T_int, length pre + 1 + length d)"
    by (simp add: conv_spec_def strchr_hit_def)
  then show ?thesis using assms by (simp add: conv_printf_def va_arg_def sdscatlen_arg_def Let_def)
qed

section \<open>Properties\<close>

text \<open>C16: \<open>redisFormatCommandArgv\<close> and \<open>redisFormatSdsCommandArgv\<close> return the length of the command they
  build, and an idle reader that gets the command reads an array of exactly the given arguments.\<close>

theorem format_argv_roundtrip:
  assumes "\<And>n. alloc n" "arg_values argvlen argv [0..<length argv] = Some args"
    and "length (write_command args) < 2 ^ 63"
    and "idle r" "rd_maxelements r > 0 \<longrightarrow> int (length args) \<le> rd_maxelements r"
  shows "\<exists>cmd. redisFormatCommandArgv alloc argv argvlen = Some (int (length cmd), Some cmd) \<and>
    redisFormatSdsCommandArgv alloc argv argvlen = Some (int (length cmd), Some cmd) \<and>
    (unread r = cmd @ rest \<longrightarrow>
      (\<exists>a r'. redisReaderGetReply alloc strtod_ok r = (True, Some a, r') \<and>
        denotes (rd_heap r') (RAgg Agg_Array (map RBulk args)) a \<and> unread r' = rest))"
proof (rule exI [of _ "write_command args"], intro conjI impI)
  show "redisFormatCommandArgv alloc argv argvlen = Some (int (length (write_command args)), Some (write_command args))"
    "redisFormatSdsCommandArgv alloc argv argvlen = Some (int (length (write_command args)), Some (write_command args))"
    using formatArgv_value [OF assms(1-3)] by simp_all
  assume "unread r = write_command args @ rest"
  then show "\<exists>a r'. redisReaderGetReply alloc strtod_ok r = (True, Some a, r') \<and>
        denotes (rd_heap r') (RAgg Agg_Array (map RBulk args)) a \<and> unread r' = rest"
    using getReply_value [of alloc r "RAgg Agg_Array (map RBulk args)" rest strtod_ok] assms(1,4)
      wf_resp_argv [OF assms(3,5)] denotes_objs [of "rd_heap r" "RAgg Agg_Array (map RBulk args)" "[]"]
    by (auto simp: write_command_enc)
qed

theorem format_argv_roundtrip_witness:
  "\<exists>cmd. redisFormatCommandArgv (\<lambda>_. True) [''SET'', ''k'' @ [CR, LF], []] (Some [3, 3, 0]) = Some (int (length cmd), Some cmd) \<and>
    redisFormatSdsCommandArgv (\<lambda>_. True) [''SET'', ''k'' @ [CR, LF], []] (Some [3, 3, 0]) = Some (int (length cmd), Some cmd) \<and>
    (\<exists>a r'. redisReaderGetReply (\<lambda>_. True) (\<lambda>_. True)
          (redisReaderCreate\<lparr>rd_buf := write_command [''SET'', ''k'' @ [CR, LF], []],
             rd_len := length (write_command [''SET'', ''k'' @ [CR, LF], []])\<rparr>) = (True, Some a, r') \<and>
        denotes (rd_heap r') (RAgg Agg_Array (map RBulk [''SET'', ''k'' @ [CR, LF], []])) a \<and> unread r' = [])"
proof -
  let ?args = "[''SET'', ''k'' @ [CR, LF], []]"
  let ?r = "redisReaderCreate\<lparr>rd_buf := write_command ?args, rd_len := length (write_command ?args)\<rparr>"
  have args: "arg_values (Some [3, 3, 0]) ?args [0..<length ?args] = Some ?args"
    by (simp add: arg_len_def rd_def upt_rec)
  have len: "length (write_command ?args) < 2 ^ 63"
    by (simp add: length_write_command bulklen_def countDigits.simps)
  have r: "idle ?r" "rd_maxelements ?r > 0 \<longrightarrow> int (length ?args) \<le> rd_maxelements ?r" "unread ?r = write_command ?args @ []"
    by (simp_all add: redisReaderCreate_def idle_def)
  obtain cmd where cmd: "redisFormatCommandArgv (\<lambda>_. True) ?args (Some [3, 3, 0]) = Some (int (length cmd), Some cmd)"
    "redisFormatSdsCommandArgv (\<lambda>_. True) ?args (Some [3, 3, 0]) = Some (int (length cmd), Some cmd)"
    "unread ?r = cmd @ [] \<longrightarrow> (\<exists>a r'. redisReaderGetReply (\<lambda>_. True) (\<lambda>_. True) ?r = (True, Some a, r') \<and>
        denotes (rd_heap r') (RAgg Agg_Array (map RBulk ?args)) a \<and> unread r' = [])"
    using format_argv_roundtrip [OF _ args len r(1,2), of "\<lambda>_. True" "[]" "\<lambda>_. True"] by auto
  moreover have "cmd = write_command ?args"
    using cmd(1) formatArgv_value(1) [OF _ args len, of "\<lambda>_. True"] by simp
  ultimately show ?thesis using r(3) by auto
qed

text \<open>C17: \<open>redisFormatCommand\<close> sends the words of its format: only the spaces of the format itself
  separate arguments, whatever bytes the interpolated strings, binary strings and numbers contain.\<close>

theorem format_words:
  assumes "\<And>n. alloc n" "list_all wf_tok ts" "length (write_command (fmt_words pr1 None ts)) < 2147483647"
  shows "redisFormatCommand alloc (vpf_of pr1) (concat (map tok_fmt ts) @ NUL # junk) (concat (map tok_args ts) @ ap) =
    Some (int (length (enc (RAgg Agg_Array (map RBulk (fmt_words pr1 None ts))))),
          Some (enc (RAgg Agg_Array (map RBulk (fmt_words pr1 None ts)))))"
  using redisvFormat_tokens [OF assms] by (simp add: redisFormatCommand_def write_command_enc del: enc.simps)

theorem format_words_witness:
  "redisFormatCommand (\<lambda>_. True) (vpf_of (\<lambda>f v. ''0000000a'')) (''S %s%08llx  %b'' @ NUL # ''junk'')
     [Va_ptr (''a b'' @ [NUL]), Va_llong 10, Va_ptr [CR, LF], Va_size 2] =
   Some (int (length (enc (RAgg Agg_Array (map RBulk [''S'', ''a b0000000a'', [CR, LF]])))),
         Some (enc (RAgg Agg_Array (map RBulk [''S'', ''a b0000000a'', [CR, LF]]))))"
  using format_words [of "\<lambda>_. True"
      "[Lit (CHR ''S''), Space, Str ''a b'', Conv ''0'' ''8'' [] ''ll'' (CHR ''x'') (Va_llong 10), Space, Space, Bin [CR, LF]]"
      "\<lambda>f v. ''0000000a''" "''junk''" "[]"]
  by (simp add: conv_text_def isdigit_def char_code_def length_write_command bulklen_def countDigits.simps numeral_2_eq_2
    del: enc.simps)

text \<open>a format with a percent sign that starts no conversion is refused: \<open>redisvFormatCommand\<close>
  returns -2 and \<open>redisFormatCommand\<close> returns -1, whatever follows, and no command is built.\<close>

lemma format_invalid:
  assumes "\<And>n. alloc n" "list_all wf_tok ts" "no_conversion c"
  shows "redisvFormatCommand alloc (vpf_of pr1) (concat (map tok_fmt ts) @ CHR ''%'' # c # rest) (concat (map tok_args ts) @ ap) = Some (-2, None) \<and>
    redisFormatCommand alloc (vpf_of pr1) (concat (map tok_fmt ts) @ CHR ''%'' # c # rest) (concat (map tok_args ts) @ ap) = Some (-1, None)"
proof -
  let ?fmt = "concat (map tok_fmt ts) @ CHR ''%'' # c # rest"
  obtain s args cur where s:
    "fmt_loop alloc (vpf_of pr1) ?fmt (fmt_start (concat (map tok_args ts) @ ap)) = fmt_loop alloc (vpf_of pr1) ?fmt s"
    "f_c s = length (concat (map tok_fmt ts))" "f_ap s = ap" "fmt_words_at s args cur"
    "args @ word_list cur = fmt_words pr1 None ts"
    by (rule fmt_loop_start [of alloc ts, OF assms(1,2)])
  have "rd_ch ?fmt (f_c s + 1) = Inr c" using s(2) by (intro rd_ch_next) simp
  moreover have "conv_printf alloc (vpf_of pr1) ?fmt s = Inl Format_Err"
    by (rule conv_printf_invalid) (use assms(3) s(2) in simp_all)
  moreover have "c \<notin> {NUL, CHR ''s'', CHR ''b'', CHR ''%''}" using assms(3) by (simp add: no_conversion_def)
  ultimately have "fmt_loop alloc (vpf_of pr1) ?fmt s = Inl Format_Err"
    using s(2) by (subst fmt_loop.simps) (simp add: fmt_step_def fmt_conv_def)
  with s(1) assms(1) have "redisvFormatCommand alloc (vpf_of pr1) ?fmt (concat (map tok_args ts) @ ap) = Some (-2, None)"
    by (simp add: redisvFormatCommand_def)
  then show ?thesis by (simp add: redisFormatCommand_def)
qed

text \<open>a format that ends inside a conversion, behind its field width, makes
  \<open>redisFormatCommand\<close> read behind the terminating NUL.\<close>

lemma format_incomplete:
  assumes "\<And>n. alloc n" "list_all wf_tok ts" "d \<noteq> []" "list_all isdigit d" "hd d \<noteq> CHR ''0''" "length d < 12"
  shows "redisFormatCommand alloc (vpf_of pr1) (concat (map tok_fmt ts) @ CHR ''%'' # d @ [NUL])
    (concat (map tok_args ts) @ Va_int n # ap) = None"
proof -
  let ?fmt = "concat (map tok_fmt ts) @ CHR ''%'' # d @ [NUL]"
  obtain s args cur where s: "fmt_loop alloc (vpf_of pr1) ?fmt (fmt_start (concat (map tok_args ts) @ Va_int n # ap)) =
      fmt_loop alloc (vpf_of pr1) ?fmt s"
    "f_c s = length (concat (map tok_fmt ts))" "f_ap s = Va_int n # ap" "fmt_words_at s args cur"
    "args @ word_list cur = fmt_words pr1 None ts"
    by (rule fmt_loop_start [of alloc ts, OF assms(1,2)])
  obtain b bs where b: "d = b # bs" "isdigit b" using assms(3,4) by (cases d) auto
  have "rd_ch ?fmt (f_c s + 1) = Inr b" unfolding b(1) append_Cons using s(2) by (intro rd_ch_next) simp
  moreover obtain s' where s': "conv_printf alloc (vpf_of pr1) ?fmt s = Inr s'" "f_c s' = f_c s + length d"
    using conv_printf_incomplete [of alloc d s _ n ap "vpf_of pr1", OF assms(1,3-6) s(2,3)] s(2) by auto
  moreover have "b \<notin> {NUL, CHR ''s'', CHR ''b'', CHR ''%''}"
    using b(2) by (auto simp: isdigit_def char_code_def)
  ultimately have "fmt_step alloc (vpf_of pr1) ?fmt (CHR ''%'') s = Inr (s'\<lparr>f_touched := True, f_c := f_c s + length d + 2\<rparr>)"
    by (simp add: fmt_step_def fmt_conv_def)
  then have "fmt_loop alloc (vpf_of pr1) ?fmt s =
      fmt_loop alloc (vpf_of pr1) ?fmt (s'\<lparr>f_touched := True, f_c := f_c s + length d + 2\<rparr>)"
    using s(2) by (subst fmt_loop.simps) simp
  also have "\<dots> = Inl Undefined" using s(2) by (subst fmt_loop.simps) (simp add: rd_def)
  finally show ?thesis using s(1) assms(1) by (simp add: redisFormatCommand_def redisvFormatCommand_def)
qed

end
