(* ===== verification/Bit_Timing_Consts.thy ===== *)
theory Bit_Timing_Consts
  imports Prelude
begin

text \<open>
  The data of \<^verbatim>\<open>libs/can-utils/can-calc-bit-timing.c\<close>: the bit timing structures of
  \<^verbatim>\<open>linux/can/netlink.h\<close>, the functions that show a bit timing as the registers of a controller,
  and the table of controllers.  A function that prints is the text it prints; \<open>ref_clk\<close> ends
  where the zeroed rest of the array begins.
\<close>

section \<open>Structures\<close>

record can_bittiming =
  bt_bitrate :: u32
  bt_sample_point :: u32
  bt_tq :: u32
  bt_prop_seg :: u32
  bt_phase_seg1 :: u32
  bt_phase_seg2 :: u32
  bt_sjw :: u32
  bt_brp :: u32

record can_bittiming_const =
  btc_name :: string
  tseg1_min :: u32
  tseg1_max :: u32
  tseg2_min :: u32
  tseg2_max :: u32
  sjw_max :: u32
  brp_min :: u32
  brp_max :: u32
  brp_inc :: u32

type_synonym calc_ref_clk = "u32 \<times> string option"

type_synonym btr_printer = "can_bittiming \<Rightarrow> bool \<Rightarrow> string"

record calc_bittiming_const =
  bittiming_const :: can_bittiming_const
  data_bittiming_const :: can_bittiming_const
  ref_clk :: "calc_ref_clk list"
  printf_btr :: "btr_printer option"
  printf_data_btr :: "btr_printer option"

text \<open>A structure the table does not initialise.\<close>

definition no_bittiming_const :: can_bittiming_const where
  "no_bittiming_const =
     \<lparr>btc_name = [], tseg1_min = 0, tseg1_max = 0, tseg2_min = 0, tseg2_max = 0, sjw_max = 0,
      brp_min = 0, brp_max = 0, brp_inc = 0\<rparr>"

section \<open>Output\<close>

text \<open>The conversions \<open>%x\<close> with a zero-padded width and \<open>%s\<close>, \<open>%d\<close> with a width.\<close>

definition pad_left :: "char \<Rightarrow> nat \<Rightarrow> string \<Rightarrow> string" where
  "pad_left c w s = replicate (w - length s) c @ s"

definition hex_field :: "nat \<Rightarrow> nat \<Rightarrow> string" where
  "hex_field w n = ''0x'' @ pad_left (CHR ''0'') w (hex_digits n)"

section \<open>Registers\<close>

definition printf_btr_nop :: btr_printer where
  "printf_btr_nop bt hdr = []"

abbreviation tseg1_of :: "can_bittiming \<Rightarrow> u32" where
  "tseg1_of bt \<equiv> bt_prop_seg bt + bt_phase_seg1 bt"

definition RCAR_CAN_BCR_TSEG1 :: "u32 \<Rightarrow> u32" where
  "RCAR_CAN_BCR_TSEG1 x = push_bit 20 (x AND 0x0f)"

definition RCAR_CAN_BCR_BPR :: "u32 \<Rightarrow> u32" where
  "RCAR_CAN_BCR_BPR x = push_bit 8 (x AND 0x3ff)"

definition RCAR_CAN_BCR_SJW :: "u32 \<Rightarrow> u32" where
  "RCAR_CAN_BCR_SJW x = push_bit 4 (x AND 0x3)"

definition RCAR_CAN_BCR_TSEG2 :: "u32 \<Rightarrow> u32" where
  "RCAR_CAN_BCR_TSEG2 x = x AND 0x07"

definition btr_rcar_can :: "can_bittiming \<Rightarrow> u32" where
  "btr_rcar_can bt =
     RCAR_CAN_BCR_TSEG1 (bt_phase_seg1 bt + bt_prop_seg bt - 1) OR RCAR_CAN_BCR_BPR (bt_brp bt - 1) OR
     RCAR_CAN_BCR_SJW (bt_sjw bt - 1) OR RCAR_CAN_BCR_TSEG2 (bt_phase_seg2 bt - 1)"

definition printf_btr_rcar_can :: btr_printer where
  "printf_btr_rcar_can bt hdr =
     (if hdr then pad_left (CHR '' '') 10 ''CiBCR'' else hex_field 8 (unat (push_bit 8 (btr_rcar_can bt))))"

text \<open>The three configuration registers are bytes: what does not fit is cut off.\<close>

definition mcp251x_cnf1 :: "can_bittiming \<Rightarrow> u8" where
  "mcp251x_cnf1 bt = ucast (push_bit 6 (bt_sjw bt - 1) OR (bt_brp bt - 1))"

definition mcp251x_cnf2 :: "can_bittiming \<Rightarrow> u8" where
  "mcp251x_cnf2 bt = ucast (0x80 OR push_bit 3 (bt_phase_seg1 bt - 1) OR (bt_prop_seg bt - 1))"

definition mcp251x_cnf3 :: "can_bittiming \<Rightarrow> u8" where
  "mcp251x_cnf3 bt = ucast (bt_phase_seg2 bt - 1)"

definition printf_btr_mcp251x :: btr_printer where
  "printf_btr_mcp251x bt hdr =
     (if hdr then ''CNF1 CNF2 CNF3''
      else hex_field 2 (unat (mcp251x_cnf1 bt)) @ '' '' @ hex_field 2 (unat (mcp251x_cnf2 bt)) @ '' '' @
           hex_field 2 (unat (mcp251x_cnf3 bt)))"

definition btr_mcp251xfd :: "can_bittiming \<Rightarrow> u32" where
  "btr_mcp251xfd bt =
     push_bit 24 (bt_brp bt - 1) OR push_bit 16 (tseg1_of bt - 1) OR
     push_bit 8 (bt_phase_seg2 bt - 1) OR (bt_sjw bt - 1)"

definition printf_btr_mcp251xfd :: btr_printer where
  "printf_btr_mcp251xfd bt hdr =
     (if hdr then pad_left (CHR '' '') 10 ''NBTCFG'' else hex_field 8 (unat (btr_mcp251xfd bt)))"

definition btr_bxcan :: "can_bittiming \<Rightarrow> u32" where
  "btr_bxcan bt =
     push_bit 0 ((bt_brp bt - 1) AND 0x3ff) OR push_bit 16 ((tseg1_of bt - 1) AND 0xf) OR
     push_bit 20 ((bt_phase_seg2 bt - 1) AND 0x7) OR push_bit 24 ((bt_sjw bt - 1) AND 0x3)"

definition printf_btr_bxcan :: btr_printer where
  "printf_btr_bxcan bt hdr =
     (if hdr then pad_left (CHR '' '') 10 ''CAN_BTR'' else hex_field 8 (unat (btr_bxcan bt)))"

definition btr_at91 :: "can_bittiming \<Rightarrow> u32" where
  "btr_at91 bt =
     (bt_phase_seg2 bt - 1) OR push_bit 4 (bt_phase_seg1 bt - 1) OR push_bit 8 (bt_prop_seg bt - 1) OR
     push_bit 12 (bt_sjw bt - 1) OR push_bit 16 (bt_brp bt - 1)"

definition printf_btr_at91 :: btr_printer where
  "printf_btr_at91 bt hdr =
     (if hdr then pad_left (CHR '' '') 10 ''CAN_BR'' else hex_field 8 (unat (btr_at91 bt)))"

definition btr_c_can :: "can_bittiming \<Rightarrow> u32" where
  "btr_c_can bt =
     push_bit 0 ((bt_brp bt - 1) AND 0x3f) OR push_bit 6 ((bt_sjw bt - 1) AND 0x3) OR
     push_bit 8 ((tseg1_of bt - 1) AND 0xf) OR push_bit 12 ((bt_phase_seg2 bt - 1) AND 0x7)"

definition brpext_c_can :: "can_bittiming \<Rightarrow> u32" where
  "brpext_c_can bt = drop_bit 6 (bt_brp bt - 1) AND 0xf"

definition printf_btr_c_can :: btr_printer where
  "printf_btr_c_can bt hdr =
     (if hdr then pad_left (CHR '' '') 13 ''BTR BRPEXT''
      else hex_field 4 (unat (btr_c_can bt)) @ '' '' @ hex_field 4 (unat (brpext_c_can bt)))"

definition btr_flexcan :: "can_bittiming \<Rightarrow> u32" where
  "btr_flexcan bt =
     push_bit 24 (bt_brp bt - 1) OR push_bit 22 (bt_sjw bt - 1) OR push_bit 19 (bt_phase_seg1 bt - 1) OR
     push_bit 16 (bt_phase_seg2 bt - 1) OR push_bit 0 (bt_prop_seg bt - 1)"

definition printf_btr_flexcan :: btr_printer where
  "printf_btr_flexcan bt hdr =
     (if hdr then pad_left (CHR '' '') 10 ''CAN_CTRL'' else hex_field 8 (unat (btr_flexcan bt)))"

definition btr_mcan :: "can_bittiming \<Rightarrow> u32" where
  "btr_mcan bt =
     push_bit 16 ((bt_brp bt - 1) AND 0x1ff) OR push_bit 25 ((bt_sjw bt - 1) AND 0x7f) OR
     push_bit 8 ((tseg1_of bt - 1) AND 0xff) OR push_bit 0 ((bt_phase_seg2 bt - 1) AND 0x7f)"

definition printf_btr_mcan :: btr_printer where
  "printf_btr_mcan bt hdr =
     (if hdr then pad_left (CHR '' '') 10 ''NBTP'' else hex_field 8 (unat (btr_mcan bt)))"

definition sja1000_btr0 :: "can_bittiming \<Rightarrow> u8" where
  "sja1000_btr0 bt = ucast (((bt_brp bt - 1) AND 0x3f) OR push_bit 6 ((bt_sjw bt - 1) AND 0x3))"

definition sja1000_btr1 :: "can_bittiming \<Rightarrow> u8" where
  "sja1000_btr1 bt = ucast (((tseg1_of bt - 1) AND 0xf) OR push_bit 4 ((bt_phase_seg2 bt - 1) AND 0x7))"

definition printf_btr_sja1000 :: btr_printer where
  "printf_btr_sja1000 bt hdr =
     (if hdr then pad_left (CHR '' '') 9 ''BTR0 BTR1''
      else hex_field 2 (unat (sja1000_btr0 bt)) @ '' '' @ hex_field 2 (unat (sja1000_btr1 bt)))"

definition btr_ti_hecc :: "can_bittiming \<Rightarrow> u32" where
  "btr_ti_hecc bt =
     (let can_btc = (bt_phase_seg2 bt - 1) AND 0x7;
          can_btc = can_btc OR push_bit 3 ((bt_phase_seg1 bt + bt_prop_seg bt - 1) AND 0xF);
          can_btc = can_btc OR push_bit 8 ((bt_sjw bt - 1) AND 0x3)
      in can_btc OR push_bit 16 ((bt_brp bt - 1) AND 0xFF))"

definition printf_btr_ti_hecc :: btr_printer where
  "printf_btr_ti_hecc bt hdr =
     (if hdr then pad_left (CHR '' '') 10 ''CANBTC'' else hex_field 8 (unat (btr_ti_hecc bt)))"

section \<open>Controllers\<close>

text \<open>One entry of \<open>can_calc_consts\<close> each, in the order of the table.\<close>

definition cc_rcar_can :: calc_bittiming_const where
  "cc_rcar_can =
     \<lparr>bittiming_const =
        \<lparr>btc_name = ''rcar_can'', tseg1_min = 4, tseg1_max = 16, tseg2_min = 2,
         tseg2_max = 8, sjw_max = 4, brp_min = 1, brp_max = 1024, brp_inc = 1\<rparr>,
      data_bittiming_const =
        no_bittiming_const,
      ref_clk = [(65000000, None)],
      printf_btr = Some printf_btr_rcar_can, printf_data_btr = None\<rparr>"

definition cc_rcar_canfd :: calc_bittiming_const where
  "cc_rcar_canfd =
     \<lparr>bittiming_const =
        \<lparr>btc_name = ''rcar_canfd'', tseg1_min = 2, tseg1_max = 128, tseg2_min = 2,
         tseg2_max = 32, sjw_max = 32, brp_min = 1, brp_max = 1024, brp_inc = 1\<rparr>,
      data_bittiming_const =
        \<lparr>btc_name = ''rcar_canfd'', tseg1_min = 2, tseg1_max = 16, tseg2_min = 2,
         tseg2_max = 8, sjw_max = 8, brp_min = 1, brp_max = 256, brp_inc = 1\<rparr>,
      ref_clk = [(20000000, Some ''CIA recommendation''), (40000000, Some ''CIA recommendation'')],
      printf_btr = None, printf_data_btr = None\<rparr>"

definition cc_rcar_canfd_CC :: calc_bittiming_const where
  "cc_rcar_canfd_CC =
     \<lparr>bittiming_const =
        \<lparr>btc_name = ''rcar_canfd (CC)'', tseg1_min = 4, tseg1_max = 16, tseg2_min = 2,
         tseg2_max = 8, sjw_max = 4, brp_min = 1, brp_max = 1024, brp_inc = 1\<rparr>,
      data_bittiming_const =
        no_bittiming_const,
      ref_clk = [],
      printf_btr = None, printf_data_btr = None\<rparr>"

definition cc_hi311x :: calc_bittiming_const where
  "cc_hi311x =
     \<lparr>bittiming_const =
        \<lparr>btc_name = ''hi311x'', tseg1_min = 2, tseg1_max = 16, tseg2_min = 2,
         tseg2_max = 8, sjw_max = 4, brp_min = 1, brp_max = 64, brp_inc = 1\<rparr>,
      data_bittiming_const =
        no_bittiming_const,
      ref_clk = [(24000000, None)],
      printf_btr = None, printf_data_btr = None\<rparr>"

definition cc_mcp251x :: calc_bittiming_const where
  "cc_mcp251x =
     \<lparr>bittiming_const =
        \<lparr>btc_name = ''mcp251x'', tseg1_min = 3, tseg1_max = 16, tseg2_min = 2,
         tseg2_max = 8, sjw_max = 4, brp_min = 1, brp_max = 64, brp_inc = 1\<rparr>,
      data_bittiming_const =
        no_bittiming_const,
      ref_clk = [(4000000, Some ''8 MHz OSC''),
         (8000000, Some ''16 MHz OSC''),
         (10000000, Some ''20 MHz OSC'')],
      printf_btr = Some printf_btr_mcp251x, printf_data_btr = None\<rparr>"

definition cc_mcp251xfd :: calc_bittiming_const where
  "cc_mcp251xfd =
     \<lparr>bittiming_const =
        \<lparr>btc_name = ''mcp251xfd'', tseg1_min = 2, tseg1_max = 256, tseg2_min = 1,
         tseg2_max = 128, sjw_max = 128, brp_min = 1, brp_max = 256, brp_inc = 1\<rparr>,
      data_bittiming_const =
        \<lparr>btc_name = ''mcp251xfd'', tseg1_min = 1, tseg1_max = 32, tseg2_min = 1,
         tseg2_max = 16, sjw_max = 16, brp_min = 1, brp_max = 256, brp_inc = 1\<rparr>,
      ref_clk = [(20000000, Some ''CIA recommendation''), (40000000, Some ''CIA recommendation'')],
      printf_btr = Some printf_btr_mcp251xfd, printf_data_btr = None\<rparr>"

definition cc_usb_8dev :: calc_bittiming_const where
  "cc_usb_8dev =
     \<lparr>bittiming_const =
        \<lparr>btc_name = ''usb_8dev'', tseg1_min = 1, tseg1_max = 16, tseg2_min = 1,
         tseg2_max = 8, sjw_max = 4, brp_min = 1, brp_max = 1024, brp_inc = 1\<rparr>,
      data_bittiming_const =
        no_bittiming_const,
      ref_clk = [(32000000, None)],
      printf_btr = None, printf_data_btr = None\<rparr>"

definition cc_ems_usb :: calc_bittiming_const where
  "cc_ems_usb =
     \<lparr>bittiming_const =
        \<lparr>btc_name = ''ems_usb'', tseg1_min = 1, tseg1_max = 16, tseg2_min = 1,
         tseg2_max = 8, sjw_max = 4, brp_min = 1, brp_max = 64, brp_inc = 1\<rparr>,
      data_bittiming_const =
        no_bittiming_const,
      ref_clk = [(8000000, None)],
      printf_btr = None, printf_data_btr = None\<rparr>"

definition cc_esd_usb2 :: calc_bittiming_const where
  "cc_esd_usb2 =
     \<lparr>bittiming_const =
        \<lparr>btc_name = ''esd_usb2'', tseg1_min = 1, tseg1_max = 16, tseg2_min = 1,
         tseg2_max = 8, sjw_max = 4, brp_min = 1, brp_max = 1024, brp_inc = 1\<rparr>,
      data_bittiming_const =
        no_bittiming_const,
      ref_clk = [(60000000, Some ''CAN-USB/2''), (36000000, Some ''CAN-USB/Micro'')],
      printf_btr = None, printf_data_btr = None\<rparr>"

definition cc_bxcan :: calc_bittiming_const where
  "cc_bxcan =
     \<lparr>bittiming_const =
        \<lparr>btc_name = ''bxcan'', tseg1_min = 1, tseg1_max = 16, tseg2_min = 1,
         tseg2_max = 8, sjw_max = 4, brp_min = 1, brp_max = 1024, brp_inc = 1\<rparr>,
      data_bittiming_const =
        no_bittiming_const,
      ref_clk = [(48000000, None)],
      printf_btr = Some printf_btr_bxcan, printf_data_btr = None\<rparr>"

definition cc_CANtact_Pro :: calc_bittiming_const where
  "cc_CANtact_Pro =
     \<lparr>bittiming_const =
        \<lparr>btc_name = ''CANtact Pro'', tseg1_min = 1, tseg1_max = 16, tseg2_min = 1,
         tseg2_max = 8, sjw_max = 4, brp_min = 1, brp_max = 1024, brp_inc = 1\<rparr>,
      data_bittiming_const =
        \<lparr>btc_name = ''CANtact Pro'', tseg1_min = 1, tseg1_max = 16, tseg2_min = 1,
         tseg2_max = 8, sjw_max = 4, brp_min = 1, brp_max = 1024, brp_inc = 1\<rparr>,
      ref_clk = [(24000000, Some ''CANtact Pro (original)''),
         (40000000, Some ''CIA recommendation'')],
      printf_btr = None, printf_data_btr = None\<rparr>"

definition cc_kvaser_usb :: calc_bittiming_const where
  "cc_kvaser_usb =
     \<lparr>bittiming_const =
        \<lparr>btc_name = ''kvaser_usb'', tseg1_min = 1, tseg1_max = 16, tseg2_min = 1,
         tseg2_max = 8, sjw_max = 4, brp_min = 1, brp_max = 64, brp_inc = 1\<rparr>,
      data_bittiming_const =
        no_bittiming_const,
      ref_clk = [(8000000, None)],
      printf_btr = None, printf_data_btr = None\<rparr>"

definition cc_kvaser_usb_kcan :: calc_bittiming_const where
  "cc_kvaser_usb_kcan =
     \<lparr>bittiming_const =
        \<lparr>btc_name = ''kvaser_usb_kcan'', tseg1_min = 1, tseg1_max = 255, tseg2_min = 1,
         tseg2_max = 32, sjw_max = 16, brp_min = 1, brp_max = 8192, brp_inc = 1\<rparr>,
      data_bittiming_const =
        \<lparr>btc_name = ''kvaser_usb_kcan'', tseg1_min = 1, tseg1_max = 255, tseg2_min = 1,
         tseg2_max = 32, sjw_max = 16, brp_min = 1, brp_max = 8192, brp_inc = 1\<rparr>,
      ref_clk = [(80000000, None)],
      printf_btr = None, printf_data_btr = None\<rparr>"

definition cc_kvaser_usb_flex :: calc_bittiming_const where
  "cc_kvaser_usb_flex =
     \<lparr>bittiming_const =
        \<lparr>btc_name = ''kvaser_usb_flex'', tseg1_min = 4, tseg1_max = 16, tseg2_min = 2,
         tseg2_max = 8, sjw_max = 4, brp_min = 1, brp_max = 256, brp_inc = 1\<rparr>,
      data_bittiming_const =
        no_bittiming_const,
      ref_clk = [(24000000, None)],
      printf_btr = None, printf_data_btr = None\<rparr>"

definition cc_pcan_usb_pro :: calc_bittiming_const where
  "cc_pcan_usb_pro =
     \<lparr>bittiming_const =
        \<lparr>btc_name = ''pcan_usb_pro'', tseg1_min = 1, tseg1_max = 16, tseg2_min = 1,
         tseg2_max = 8, sjw_max = 4, brp_min = 1, brp_max = 1024, brp_inc = 1\<rparr>,
      data_bittiming_const =
        no_bittiming_const,
      ref_clk = [(56000000, None)],
      printf_btr = None, printf_data_btr = None\<rparr>"

definition cc_pcan_usb_fd :: calc_bittiming_const where
  "cc_pcan_usb_fd =
     \<lparr>bittiming_const =
        \<lparr>btc_name = ''pcan_usb_fd'', tseg1_min = 1, tseg1_max = 256, tseg2_min = 1,
         tseg2_max = 128, sjw_max = 128, brp_min = 1, brp_max = 1024, brp_inc = 1\<rparr>,
      data_bittiming_const =
        \<lparr>btc_name = ''pcan_usb_fd'', tseg1_min = 1, tseg1_max = 32, tseg2_min = 1,
         tseg2_max = 16, sjw_max = 16, brp_min = 1, brp_max = 1024, brp_inc = 1\<rparr>,
      ref_clk = [(80000000, None)],
      printf_btr = None, printf_data_btr = None\<rparr>"

definition cc_softing :: calc_bittiming_const where
  "cc_softing =
     \<lparr>bittiming_const =
        \<lparr>btc_name = ''softing'', tseg1_min = 1, tseg1_max = 16, tseg2_min = 1,
         tseg2_max = 8, sjw_max = 4, brp_min = 1, brp_max = 32, brp_inc = 1\<rparr>,
      data_bittiming_const =
        no_bittiming_const,
      ref_clk = [(8000000, None), (16000000, None)],
      printf_btr = None, printf_data_btr = None\<rparr>"

definition cc_at91 :: calc_bittiming_const where
  "cc_at91 =
     \<lparr>bittiming_const =
        \<lparr>btc_name = ''at91'', tseg1_min = 4, tseg1_max = 16, tseg2_min = 2,
         tseg2_max = 8, sjw_max = 4, brp_min = 2, brp_max = 128, brp_inc = 1\<rparr>,
      data_bittiming_const =
        no_bittiming_const,
      ref_clk = [(99532800, Some ''ronetix PM9263''), (100000000, None)],
      printf_btr = Some printf_btr_at91, printf_data_btr = None\<rparr>"

definition cc_cc770 :: calc_bittiming_const where
  "cc_cc770 =
     \<lparr>bittiming_const =
        \<lparr>btc_name = ''cc770'', tseg1_min = 1, tseg1_max = 16, tseg2_min = 1,
         tseg2_max = 8, sjw_max = 4, brp_min = 1, brp_max = 64, brp_inc = 1\<rparr>,
      data_bittiming_const =
        no_bittiming_const,
      ref_clk = [(8000000, None)],
      printf_btr = None, printf_data_btr = None\<rparr>"

definition cc_c_can :: calc_bittiming_const where
  "cc_c_can =
     \<lparr>bittiming_const =
        \<lparr>btc_name = ''c_can'', tseg1_min = 2, tseg1_max = 16, tseg2_min = 1,
         tseg2_max = 8, sjw_max = 4, brp_min = 1, brp_max = 1024, brp_inc = 1\<rparr>,
      data_bittiming_const =
        no_bittiming_const,
      ref_clk = [(24000000, None)],
      printf_btr = Some printf_btr_c_can, printf_data_btr = None\<rparr>"

definition cc_flexcan :: calc_bittiming_const where
  "cc_flexcan =
     \<lparr>bittiming_const =
        \<lparr>btc_name = ''flexcan'', tseg1_min = 4, tseg1_max = 16, tseg2_min = 2,
         tseg2_max = 8, sjw_max = 4, brp_min = 1, brp_max = 256, brp_inc = 1\<rparr>,
      data_bittiming_const =
        no_bittiming_const,
      ref_clk = [(24000000, Some ''mx28''),
         (30000000, Some ''mx6''),
         (49875000, None),
         (66000000, None),
         (66500000, Some ''mx25''),
         (66666666, None),
         (83368421, Some ''vybrid'')],
      printf_btr = Some printf_btr_flexcan, printf_data_btr = None\<rparr>"

definition cc_flexcan_fd :: calc_bittiming_const where
  "cc_flexcan_fd =
     \<lparr>bittiming_const =
        \<lparr>btc_name = ''flexcan-fd'', tseg1_min = 2, tseg1_max = 96, tseg2_min = 2,
         tseg2_max = 32, sjw_max = 16, brp_min = 1, brp_max = 1024, brp_inc = 1\<rparr>,
      data_bittiming_const =
        \<lparr>btc_name = ''flexcan-fd'', tseg1_min = 2, tseg1_max = 39, tseg2_min = 2,
         tseg2_max = 8, sjw_max = 4, brp_min = 1, brp_max = 1024, brp_inc = 1\<rparr>,
      ref_clk = [(20000000, Some ''CIA recommendation''), (40000000, Some ''CIA recommendation'')],
      printf_btr = None, printf_data_btr = None\<rparr>"

definition cc_grcan :: calc_bittiming_const where
  "cc_grcan =
     \<lparr>bittiming_const =
        \<lparr>btc_name = ''grcan'', tseg1_min = 2, tseg1_max = 16, tseg2_min = 2,
         tseg2_max = 8, sjw_max = 4, brp_min = 1, brp_max = 256, brp_inc = 1\<rparr>,
      data_bittiming_const =
        no_bittiming_const,
      ref_clk = [],
      printf_btr = None, printf_data_btr = None\<rparr>"

definition cc_ifi_canfd :: calc_bittiming_const where
  "cc_ifi_canfd =
     \<lparr>bittiming_const =
        \<lparr>btc_name = ''ifi_canfd'', tseg1_min = 1, tseg1_max = 256, tseg2_min = 2,
         tseg2_max = 256, sjw_max = 128, brp_min = 2, brp_max = 512, brp_inc = 1\<rparr>,
      data_bittiming_const =
        \<lparr>btc_name = ''ifi_canfd'', tseg1_min = 1, tseg1_max = 256, tseg2_min = 2,
         tseg2_max = 256, sjw_max = 128, brp_min = 2, brp_max = 512, brp_inc = 1\<rparr>,
      ref_clk = [(20000000, Some ''CIA recommendation''), (40000000, Some ''CIA recommendation'')],
      printf_btr = None, printf_data_btr = None\<rparr>"

definition cc_janz_ican3 :: calc_bittiming_const where
  "cc_janz_ican3 =
     \<lparr>bittiming_const =
        \<lparr>btc_name = ''janz-ican3'', tseg1_min = 1, tseg1_max = 16, tseg2_min = 1,
         tseg2_max = 8, sjw_max = 4, brp_min = 1, brp_max = 64, brp_inc = 1\<rparr>,
      data_bittiming_const =
        no_bittiming_const,
      ref_clk = [(8000000, None)],
      printf_btr = None, printf_data_btr = None\<rparr>"

definition cc_kvaser_pciefd :: calc_bittiming_const where
  "cc_kvaser_pciefd =
     \<lparr>bittiming_const =
        \<lparr>btc_name = ''kvaser_pciefd'', tseg1_min = 1, tseg1_max = 512, tseg2_min = 1,
         tseg2_max = 32, sjw_max = 16, brp_min = 1, brp_max = 8192, brp_inc = 1\<rparr>,
      data_bittiming_const =
        \<lparr>btc_name = ''kvaser_pciefd'', tseg1_min = 1, tseg1_max = 512, tseg2_min = 1,
         tseg2_max = 32, sjw_max = 16, brp_min = 1, brp_max = 8192, brp_inc = 1\<rparr>,
      ref_clk = [(20000000, Some ''CIA recommendation''), (40000000, Some ''CIA recommendation'')],
      printf_btr = None, printf_data_btr = None\<rparr>"

definition cc_mscan :: calc_bittiming_const where
  "cc_mscan =
     \<lparr>bittiming_const =
        \<lparr>btc_name = ''mscan'', tseg1_min = 4, tseg1_max = 16, tseg2_min = 2,
         tseg2_max = 8, sjw_max = 4, brp_min = 1, brp_max = 64, brp_inc = 1\<rparr>,
      data_bittiming_const =
        no_bittiming_const,
      ref_clk = [(32000000, None),
         (33000000, None),
         (33300000, None),
         (33333333, None),
         (66660000, Some ''mpc5121''),
         (66666666, Some ''mpc5121'')],
      printf_btr = None, printf_data_btr = None\<rparr>"

definition cc_mcan_v3_0 :: calc_bittiming_const where
  "cc_mcan_v3_0 =
     \<lparr>bittiming_const =
        \<lparr>btc_name = ''mcan-v3.0'', tseg1_min = 2, tseg1_max = 64, tseg2_min = 1,
         tseg2_max = 16, sjw_max = 16, brp_min = 1, brp_max = 1024, brp_inc = 1\<rparr>,
      data_bittiming_const =
        \<lparr>btc_name = ''mcan-v3.0'', tseg1_min = 2, tseg1_max = 16, tseg2_min = 1,
         tseg2_max = 8, sjw_max = 4, brp_min = 1, brp_max = 32, brp_inc = 1\<rparr>,
      ref_clk = [(20000000, Some ''CIA recommendation''), (40000000, Some ''CIA recommendation'')],
      printf_btr = Some printf_btr_mcan, printf_data_btr = None\<rparr>"

definition cc_mcan_v3_1 :: calc_bittiming_const where
  "cc_mcan_v3_1 =
     \<lparr>bittiming_const =
        \<lparr>btc_name = ''mcan-v3.1+'', tseg1_min = 2, tseg1_max = 256, tseg2_min = 2,
         tseg2_max = 128, sjw_max = 128, brp_min = 1, brp_max = 512, brp_inc = 1\<rparr>,
      data_bittiming_const =
        \<lparr>btc_name = ''mcan-v3.1+'', tseg1_min = 1, tseg1_max = 32, tseg2_min = 1,
         tseg2_max = 16, sjw_max = 16, brp_min = 1, brp_max = 32, brp_inc = 1\<rparr>,
      ref_clk = [(20000000, Some ''CIA recommendation''),
         (40000000, Some ''CIA recommendation''),
         (24000000, Some ''stm32mp1 - ck_hse''),
         (24573875, Some ''stm32mp1 - pll3_1''),
         (74250000, Some ''stm32mp1 - pll4_r''),
         (29700000, Some ''stm32mp1 - pll4_q'')],
      printf_btr = Some printf_btr_mcan, printf_data_btr = None\<rparr>"

definition cc_peak_canfd :: calc_bittiming_const where
  "cc_peak_canfd =
     \<lparr>bittiming_const =
        \<lparr>btc_name = ''peak_canfd'', tseg1_min = 1, tseg1_max = 256, tseg2_min = 1,
         tseg2_max = 128, sjw_max = 128, brp_min = 1, brp_max = 1024, brp_inc = 1\<rparr>,
      data_bittiming_const =
        \<lparr>btc_name = ''peak_canfd'', tseg1_min = 1, tseg1_max = 32, tseg2_min = 1,
         tseg2_max = 16, sjw_max = 16, brp_min = 1, brp_max = 1024, brp_inc = 1\<rparr>,
      ref_clk = [(20000000, None),
         (24000000, None),
         (30000000, None),
         (40000000, None),
         (60000000, None),
         (80000000, None)],
      printf_btr = None, printf_data_btr = None\<rparr>"

definition cc_sja1000 :: calc_bittiming_const where
  "cc_sja1000 =
     \<lparr>bittiming_const =
        \<lparr>btc_name = ''sja1000'', tseg1_min = 1, tseg1_max = 16, tseg2_min = 1,
         tseg2_max = 8, sjw_max = 4, brp_min = 1, brp_max = 64, brp_inc = 1\<rparr>,
      data_bittiming_const =
        no_bittiming_const,
      ref_clk = [(8000000, None), (12000000, Some ''f81601'')],
      printf_btr = Some printf_btr_sja1000, printf_data_btr = None\<rparr>"

definition cc_sun4i_can :: calc_bittiming_const where
  "cc_sun4i_can =
     \<lparr>bittiming_const =
        \<lparr>btc_name = ''sun4i_can'', tseg1_min = 1, tseg1_max = 16, tseg2_min = 1,
         tseg2_max = 8, sjw_max = 4, brp_min = 1, brp_max = 64, brp_inc = 1\<rparr>,
      data_bittiming_const =
        no_bittiming_const,
      ref_clk = [],
      printf_btr = None, printf_data_btr = None\<rparr>"

definition cc_ti_hecc :: calc_bittiming_const where
  "cc_ti_hecc =
     \<lparr>bittiming_const =
        \<lparr>btc_name = ''ti_hecc'', tseg1_min = 1, tseg1_max = 16, tseg2_min = 1,
         tseg2_max = 8, sjw_max = 4, brp_min = 1, brp_max = 256, brp_inc = 1\<rparr>,
      data_bittiming_const =
        no_bittiming_const,
      ref_clk = [(13000000, None)],
      printf_btr = Some printf_btr_ti_hecc, printf_data_btr = None\<rparr>"

definition cc_xilinx_can :: calc_bittiming_const where
  "cc_xilinx_can =
     \<lparr>bittiming_const =
        \<lparr>btc_name = ''xilinx_can'', tseg1_min = 1, tseg1_max = 16, tseg2_min = 1,
         tseg2_max = 8, sjw_max = 4, brp_min = 1, brp_max = 256, brp_inc = 1\<rparr>,
      data_bittiming_const =
        no_bittiming_const,
      ref_clk = [],
      printf_btr = None, printf_data_btr = None\<rparr>"

definition cc_xilinx_can_fd :: calc_bittiming_const where
  "cc_xilinx_can_fd =
     \<lparr>bittiming_const =
        \<lparr>btc_name = ''xilinx_can_fd'', tseg1_min = 1, tseg1_max = 64, tseg2_min = 1,
         tseg2_max = 16, sjw_max = 16, brp_min = 1, brp_max = 256, brp_inc = 1\<rparr>,
      data_bittiming_const =
        \<lparr>btc_name = ''xilinx_can_fd'', tseg1_min = 1, tseg1_max = 16, tseg2_min = 1,
         tseg2_max = 8, sjw_max = 8, brp_min = 1, brp_max = 256, brp_inc = 1\<rparr>,
      ref_clk = [(20000000, Some ''CIA recommendation''), (40000000, Some ''CIA recommendation'')],
      printf_btr = None, printf_data_btr = None\<rparr>"

definition cc_xilinx_can_fd2 :: calc_bittiming_const where
  "cc_xilinx_can_fd2 =
     \<lparr>bittiming_const =
        \<lparr>btc_name = ''xilinx_can_fd2'', tseg1_min = 1, tseg1_max = 256, tseg2_min = 1,
         tseg2_max = 128, sjw_max = 128, brp_min = 2, brp_max = 256, brp_inc = 1\<rparr>,
      data_bittiming_const =
        \<lparr>btc_name = ''xilinx_can_fd2'', tseg1_min = 1, tseg1_max = 32, tseg2_min = 1,
         tseg2_max = 16, sjw_max = 16, brp_min = 2, brp_max = 256, brp_inc = 1\<rparr>,
      ref_clk = [(20000000, Some ''CIA recommendation''), (40000000, Some ''CIA recommendation'')],
      printf_btr = None, printf_data_btr = None\<rparr>"

definition can_calc_consts :: "calc_bittiming_const list" where
  "can_calc_consts =
    [cc_rcar_can, cc_rcar_canfd, cc_rcar_canfd_CC, cc_hi311x, cc_mcp251x, cc_mcp251xfd,
     cc_usb_8dev, cc_ems_usb, cc_esd_usb2, cc_bxcan, cc_CANtact_Pro, cc_kvaser_usb,
     cc_kvaser_usb_kcan, cc_kvaser_usb_flex, cc_pcan_usb_pro, cc_pcan_usb_fd, cc_softing,
     cc_at91, cc_cc770, cc_c_can, cc_flexcan, cc_flexcan_fd, cc_grcan, cc_ifi_canfd,
     cc_janz_ican3, cc_kvaser_pciefd, cc_mscan, cc_mcan_v3_0, cc_mcan_v3_1, cc_peak_canfd,
     cc_sja1000, cc_sun4i_can, cc_ti_hecc, cc_xilinx_can, cc_xilinx_can_fd, cc_xilinx_can_fd2]"

lemmas controller_defs = cc_rcar_can_def cc_rcar_canfd_def cc_rcar_canfd_CC_def cc_hi311x_def
   cc_mcp251x_def cc_mcp251xfd_def cc_usb_8dev_def cc_ems_usb_def cc_esd_usb2_def cc_bxcan_def
   cc_CANtact_Pro_def cc_kvaser_usb_def cc_kvaser_usb_kcan_def cc_kvaser_usb_flex_def
   cc_pcan_usb_pro_def cc_pcan_usb_fd_def cc_softing_def cc_at91_def cc_cc770_def cc_c_can_def
   cc_flexcan_def cc_flexcan_fd_def cc_grcan_def cc_ifi_canfd_def cc_janz_ican3_def
   cc_kvaser_pciefd_def cc_mscan_def cc_mcan_v3_0_def cc_mcan_v3_1_def cc_peak_canfd_def
   cc_sja1000_def cc_sun4i_can_def cc_ti_hecc_def cc_xilinx_can_def cc_xilinx_can_fd_def
   cc_xilinx_can_fd2_def

section \<open>Bit rates\<close>

definition common_bitrates :: "u32 list" where
  "common_bitrates = [1000000, 800000, 500000, 250000, 125000, 100000, 50000, 20000, 10000, 0]"

definition common_data_bitrates :: "u32 list" where
  "common_data_bitrates = [12000000, 10000000, 8000000, 5000000, 4000000, 2000000, 1000000, 0]"

end
