(* ===== verification/Bit_Timing_Regs.thy ===== *)
theory Bit_Timing_Regs
  imports Bit_Timing_Consts
begin

text \<open>
  The registers that the printing functions of \<^verbatim>\<open>can-calc-bit-timing.c\<close> show.  A register layout is a
  list of fields, each with its position, its width and the value it holds; the locale
  \<open>register_layout\<close> says that a register is packed that way and derives once that every field can be
  read back.  It is interpreted for the registers of all controllers of the table.
\<close>

type_synonym reg_layout = "(nat \<times> nat \<times> (can_bittiming \<Rightarrow> u32)) list"

definition pack :: "reg_layout \<Rightarrow> can_bittiming \<Rightarrow> u32" where
  "pack fs bt = foldr (\<lambda>(k, w, f) r. push_bit k (take_bit w (f bt)) OR r) fs 0"

definition reg_field :: "nat \<Rightarrow> nat \<Rightarrow> u32 \<Rightarrow> u32" where
  "reg_field k w r = take_bit w (drop_bit k r)"

fun separated :: "reg_layout \<Rightarrow> bool" where
  "separated [] = True"
| "separated ((k, w, f) # fs) =
     (k + w \<le> 32 \<and> list_all (\<lambda>(k', w', _). k + w \<le> k' \<or> k' + w' \<le> k) fs \<and> separated fs)"

lemma pack_simps:
  "pack [] bt = 0" "pack ((k, w, f) # fs) bt = push_bit k (take_bit w (f bt)) OR pack fs bt"
  by (simp_all add: pack_def)

lemma bit_pack:
  "bit (pack fs bt) n \<longleftrightarrow> n < 32 \<and> list_ex (\<lambda>(k, w, f). k \<le> n \<and> n < k + w \<and> bit (f bt) (n - k)) fs"
proof (induction fs)
  case (Cons x fs)
  obtain k w f where x: "x = (k, w, f)" by (cases x)
  show ?case using Cons.IH
    by (auto simp: x pack_simps bit_or_iff bit_push_bit_iff bit_take_bit_iff dest: bit_imp_le_length)
qed (simp add: pack_simps)

lemma separated_unique:
  assumes "separated fs" "(k, w, f) \<in> set fs" "(k', w', f') \<in> set fs"
    and "k \<le> n" "n < k + w" "k' \<le> n" "n < k' + w'"
  shows "(k, w, f) = (k', w', f')"
  using assms by (induction fs rule: separated.induct) (auto simp: list_all_iff)

lemma reg_field_pack:
  assumes "separated fs" "(k, w, f) \<in> set fs"
  shows "reg_field k w (pack fs bt) = take_bit w (f bt)"
proof (rule word_eq_by_bits)
  fix n
  assume "n < LENGTH(32)"
  have kw: "k + w \<le> 32" using assms by (induction fs rule: separated.induct) auto
  have "list_ex (\<lambda>(k', w', f'). k' \<le> k + n \<and> k + n < k' + w' \<and> bit (f' bt) (k + n - k')) fs \<longleftrightarrow> bit (f bt) n"
    if "n < w"
  proof
    assume "list_ex (\<lambda>(k', w', f'). k' \<le> k + n \<and> k + n < k' + w' \<and> bit (f' bt) (k + n - k')) fs"
    then obtain k' w' f' where f': "(k', w', f') \<in> set fs" "k' \<le> k + n" "k + n < k' + w'" "bit (f' bt) (k + n - k')"
      by (auto simp: list_ex_iff)
    with separated_unique [OF assms f'(1), of "k + n"] that show "bit (f bt) n" by auto
  next
    assume "bit (f bt) n"
    with assms(2) that show "list_ex (\<lambda>(k', w', f'). k' \<le> k + n \<and> k + n < k' + w' \<and> bit (f' bt) (k + n - k')) fs"
      unfolding list_ex_iff by (intro bexI [OF _ assms(2)]) simp
  qed
  then show "bit (reg_field k w (pack fs bt)) n = bit (take_bit w (f bt)) n"
    using kw by (auto simp: reg_field_def bit_take_bit_iff bit_drop_bit_eq bit_pack)
qed

locale register_layout =
  fixes reg :: "can_bittiming \<Rightarrow> u32" and layout :: reg_layout and fits :: "can_bittiming \<Rightarrow> bool"
  assumes packed: "fits bt \<Longrightarrow> reg bt = pack layout bt"
    and separate: "separated layout"
begin

lemma field_value:
  assumes "fits bt" "(k, w, f) \<in> set layout" "unat (f bt) < 2 ^ w"
  shows "unat (reg_field k w (reg bt)) = unat (f bt)"
  using reg_field_pack [OF separate assms(2)] packed [OF assms(1)] assms(3)
  by (simp add: unsigned_take_bit_eq take_bit_nat_eq_self_iff)

lemma field_of_size:
  assumes "fits bt" "(k, w, \<lambda>bt. g bt - 1) \<in> set layout" "1 \<le> unat (g bt)" "unat (g bt) \<le> 2 ^ w"
  shows "unat (reg_field k w (reg bt)) + 1 = unat (g bt)"
proof -
  have "unat (g bt - 1) = unat (g bt) - 1" using assms(3) by (intro unat_minus_one) auto
  with field_value [OF assms(1,2)] assms(3,4) show ?thesis by simp
qed

end

section \<open>The registers of the controllers\<close>

text \<open>The masks of the sources, as the low bits.\<close>

lemma reg_masks:
  "(x :: u32) AND 0x3 = take_bit 2 x" "x AND 0x7 = take_bit 3 x" "x AND 0xf = take_bit 4 x"
  "x AND 0x3f = take_bit 6 x" "x AND 0x7f = take_bit 7 x" "x AND 0xff = take_bit 8 x"
  "x AND 0x1ff = take_bit 9 x" "x AND 0x3ff = take_bit 10 x"
  by (simp_all add: take_bit_eq_mask mask_eq_decr_exp)

lemma small_take_bit: "unat (x :: u32) < 2 ^ w \<Longrightarrow> take_bit w x = x"
  by (metis take_bit_nat_eq_self unsigned_take_bit_eq unsigned_word_eqI)

abbreviation brp1 :: "can_bittiming \<Rightarrow> u32" where "brp1 bt \<equiv> bt_brp bt - 1"
abbreviation sjw1 :: "can_bittiming \<Rightarrow> u32" where "sjw1 bt \<equiv> bt_sjw bt - 1"
abbreviation seg11 :: "can_bittiming \<Rightarrow> u32" where "seg11 bt \<equiv> tseg1_of bt - 1"
abbreviation seg21 :: "can_bittiming \<Rightarrow> u32" where "seg21 bt \<equiv> bt_phase_seg2 bt - 1"
abbreviation prop1 :: "can_bittiming \<Rightarrow> u32" where "prop1 bt \<equiv> bt_prop_seg bt - 1"
abbreviation phase1 :: "can_bittiming \<Rightarrow> u32" where "phase1 bt \<equiv> bt_phase_seg1 bt - 1"

interpretation rcar_can: register_layout btr_rcar_can
  "[(20, 4, seg11), (8, 10, brp1), (4, 2, sjw1), (0, 3, seg21)]" "\<lambda>_. True"
  by unfold_locales
    (simp_all add: btr_rcar_can_def RCAR_CAN_BCR_TSEG1_def RCAR_CAN_BCR_BPR_def RCAR_CAN_BCR_SJW_def
      RCAR_CAN_BCR_TSEG2_def pack_simps reg_masks add.commute)

interpretation bxcan: register_layout btr_bxcan
  "[(0, 10, brp1), (16, 4, seg11), (20, 3, seg21), (24, 2, sjw1)]" "\<lambda>_. True"
  by unfold_locales (simp_all add: btr_bxcan_def pack_simps reg_masks)

interpretation c_can: register_layout btr_c_can
  "[(0, 6, brp1), (6, 2, sjw1), (8, 4, seg11), (12, 3, seg21)]" "\<lambda>_. True"
  by unfold_locales (simp_all add: btr_c_can_def pack_simps reg_masks)

interpretation mcan: register_layout btr_mcan
  "[(16, 9, brp1), (25, 7, sjw1), (8, 8, seg11), (0, 7, seg21)]" "\<lambda>_. True"
  by unfold_locales (simp_all add: btr_mcan_def pack_simps reg_masks)

interpretation ti_hecc: register_layout btr_ti_hecc
  "[(0, 3, seg21), (3, 4, seg11), (8, 2, sjw1), (16, 8, brp1)]" "\<lambda>_. True"
  by unfold_locales (simp_all add: btr_ti_hecc_def pack_simps reg_masks Let_def or.assoc add.commute)

text \<open>Registers that are composed without masks hold their fields when the values are small enough.\<close>

interpretation mcp251xfd: register_layout btr_mcp251xfd
  "[(24, 8, brp1), (16, 8, seg11), (8, 8, seg21), (0, 8, sjw1)]"
  "\<lambda>bt. unat (brp1 bt) < 256 \<and> unat (seg11 bt) < 256 \<and> unat (seg21 bt) < 256 \<and> unat (sjw1 bt) < 256"
  by unfold_locales (simp_all add: btr_mcp251xfd_def pack_simps small_take_bit)

interpretation at91: register_layout btr_at91
  "[(0, 3, seg21), (4, 3, phase1), (8, 3, prop1), (12, 2, sjw1), (16, 7, brp1)]"
  "\<lambda>bt. unat (seg21 bt) < 8 \<and> unat (phase1 bt) < 8 \<and> unat (prop1 bt) < 8 \<and> unat (sjw1 bt) < 4 \<and> unat (brp1 bt) < 128"
  by unfold_locales (simp_all add: btr_at91_def pack_simps small_take_bit)

interpretation flexcan: register_layout btr_flexcan
  "[(24, 8, brp1), (22, 2, sjw1), (19, 3, phase1), (16, 3, seg21), (0, 3, prop1)]"
  "\<lambda>bt. unat (brp1 bt) < 256 \<and> unat (sjw1 bt) < 4 \<and> unat (phase1 bt) < 8 \<and> unat (seg21 bt) < 8 \<and> unat (prop1 bt) < 8"
  by unfold_locales (simp_all add: btr_flexcan_def pack_simps small_take_bit)

text \<open>The registers of a byte.\<close>

lemma ucast_low_bits: "ucast (ucast (x :: u32) :: u8) = take_bit 8 x"
  by (rule word_eq_by_bits) (auto simp: bit_ucast_iff bit_take_bit_iff)

lemma take_bit_or_push:
  "take_bit 8 (push_bit k (take_bit w x) OR y) = push_bit k (take_bit w x) OR take_bit 8 y" if "k + w \<le> 8" for x y :: u32
  by (rule word_eq_by_bits) (use that in \<open>auto simp: bit_take_bit_iff bit_or_iff bit_push_bit_iff\<close>)

lemma take_bit_push_id: "take_bit 8 (push_bit k (take_bit w (x :: u32))) = push_bit k (take_bit w x)" if "k + w \<le> 8"
  using take_bit_or_push [OF that, of x 0] by simp

interpretation sja1000_0: register_layout "\<lambda>bt. ucast (sja1000_btr0 bt)"
  "[(0, 6, brp1), (6, 2, sjw1)]" "\<lambda>_. True"
  by unfold_locales
    (simp_all add: sja1000_btr0_def ucast_low_bits pack_simps reg_masks take_bit_push_id
      take_bit_or_push [of 0, simplified])

interpretation sja1000_1: register_layout "\<lambda>bt. ucast (sja1000_btr1 bt)"
  "[(0, 4, seg11), (4, 3, seg21)]" "\<lambda>_. True"
  by unfold_locales
    (simp_all add: sja1000_btr1_def ucast_low_bits pack_simps reg_masks take_bit_push_id
      take_bit_or_push [of 0, simplified])

interpretation mcp251x_1: register_layout "\<lambda>bt. ucast (mcp251x_cnf1 bt)"
  "[(6, 2, sjw1), (0, 6, brp1)]" "\<lambda>bt. unat (brp1 bt) < 64"
  by unfold_locales
    (simp_all add: mcp251x_cnf1_def ucast_low_bits pack_simps small_take_bit take_bit_push_bit)

interpretation mcp251x_2: register_layout "\<lambda>bt. ucast (mcp251x_cnf2 bt)"
  "[(3, 3, phase1), (0, 3, prop1), (7, 1, \<lambda>_. 1)]" "\<lambda>bt. unat (phase1 bt) < 8 \<and> unat (prop1 bt) < 8"
  by unfold_locales
    (simp_all add: mcp251x_cnf2_def ucast_low_bits pack_simps small_take_bit take_bit_push_bit or.commute or.left_commute)

interpretation mcp251x_3: register_layout "\<lambda>bt. ucast (mcp251x_cnf3 bt)"
  "[(0, 3, seg21)]" "\<lambda>bt. unat (seg21 bt) < 8"
  by unfold_locales (simp_all add: mcp251x_cnf3_def ucast_low_bits pack_simps small_take_bit)


text \<open>The prescaler of C_CAN, whose upper four bits are in a register of their own.\<close>

lemma c_can_brp:
  assumes "1 \<le> unat (bt_brp bt)" "unat (bt_brp bt) \<le> 1024"
  shows "unat (reg_field 0 6 (btr_c_can bt)) + 64 * unat (brpext_c_can bt) + 1 = unat (bt_brp bt)"
proof -
  have m: "unat (brp1 bt) = unat (bt_brp bt) - 1" using assms(1) by (intro unat_minus_one) auto
  have "reg_field 0 6 (btr_c_can bt) = take_bit 6 (brp1 bt)"
    using reg_field_pack [OF c_can.separate, of 0 6 brp1 bt] c_can.packed [of bt] by simp
  moreover have "unat (brpext_c_can bt) = unat (brp1 bt) div 64"
  proof -
    have "unat (brp1 bt) div 64 < 16" using m assms by simp
    then show ?thesis
      by (simp add: brpext_c_can_def reg_masks unsigned_take_bit_eq unat_drop_bit_eq drop_bit_eq_div unat_div take_bit_nat_eq_self_iff)
  qed
  ultimately have "unat (reg_field 0 6 (btr_c_can bt)) + 64 * unat (brpext_c_can bt) = unat (brp1 bt)"
    by (simp add: unsigned_take_bit_eq take_bit_eq_mod unat_mod)
  with m assms(1) show ?thesis by simp
qed

section \<open>Properties\<close>

text \<open>A bit timing within the limits of a controller, with segments that are split evenly.\<close>

definition within :: "can_bittiming_const \<Rightarrow> can_bittiming \<Rightarrow> bool" where
  "within btc bt \<longleftrightarrow>
     1 \<le> unat (bt_sjw bt) \<and> unat (bt_sjw bt) \<le> unat (sjw_max btc) \<and>
     1 \<le> unat (bt_prop_seg bt) \<and> unat (bt_prop_seg bt) \<le> unat (bt_phase_seg1 bt) \<and>
     unat (bt_phase_seg1 bt) \<le> unat (bt_prop_seg bt) + 1 \<and>
     unat (bt_prop_seg bt) + unat (bt_phase_seg1 bt) \<le> unat (tseg1_max btc) \<and>
     1 \<le> unat (bt_phase_seg2 bt) \<and> unat (bt_phase_seg2 bt) \<le> unat (tseg2_max btc) \<and>
     1 \<le> unat (bt_brp bt) \<and> unat (bt_brp bt) \<le> unat (brp_max btc)"

lemma withinD:
  assumes "within btc bt" "unat (tseg1_max btc) \<le> 256"
  shows "unat (tseg1_of bt) = unat (bt_prop_seg bt) + unat (bt_phase_seg1 bt)"
    and "unat (seg11 bt) = unat (tseg1_of bt) - 1" "unat (brp1 bt) = unat (bt_brp bt) - 1"
    and "unat (sjw1 bt) = unat (bt_sjw bt) - 1" "unat (seg21 bt) = unat (bt_phase_seg2 bt) - 1"
    and "unat (prop1 bt) = unat (bt_prop_seg bt) - 1" "unat (phase1 bt) = unat (bt_phase_seg1 bt) - 1"
proof -
  show sum: "unat (tseg1_of bt) = unat (bt_prop_seg bt) + unat (bt_phase_seg1 bt)"
    using assms by (simp add: within_def unat_word_ariths)
  have "unat (x - 1) = unat x - 1" if "1 \<le> unat x" for x :: u32
    using that by (intro unat_minus_one) auto
  then show "unat (seg11 bt) = unat (tseg1_of bt) - 1" "unat (brp1 bt) = unat (bt_brp bt) - 1"
    "unat (sjw1 bt) = unat (bt_sjw bt) - 1" "unat (seg21 bt) = unat (bt_phase_seg2 bt) - 1"
    "unat (prop1 bt) = unat (bt_prop_seg bt) - 1" "unat (phase1 bt) = unat (bt_phase_seg1 bt) - 1"
    using assms(1) sum by (simp_all add: within_def)
qed

text \<open>What the registers of a controller show: the stored values are one less than the parameters.\<close>

definition rcar_can_fields :: "can_bittiming \<Rightarrow> bool" where
  "rcar_can_fields bt \<longleftrightarrow>
      unat (reg_field 20 4 (btr_rcar_can bt)) + 1 = unat (tseg1_of bt) \<and>
      unat (reg_field 8 10 (btr_rcar_can bt)) + 1 = unat (bt_brp bt) \<and>
      unat (reg_field 4 2 (btr_rcar_can bt)) + 1 = unat (bt_sjw bt) \<and>
      unat (reg_field 0 3 (btr_rcar_can bt)) + 1 = unat (bt_phase_seg2 bt)"

lemma rcar_can_fields_within:
  assumes "within (bittiming_const cc_rcar_can) bt"
  shows "rcar_can_fields bt"
proof -
  have "unat (tseg1_max (bittiming_const cc_rcar_can)) \<le> 256" by (simp add: cc_rcar_can_def)
  note withinD = withinD [OF assms this]
  have "unat (seg11 bt) < 16" "unat (brp1 bt) < 1024" "unat (sjw1 bt) < 4" "unat (seg21 bt) < 8"
    using assms withinD by (auto simp: within_def cc_rcar_can_def)
  then show ?thesis
    using assms withinD rcar_can.field_value [where bt = bt and k = 20 and w = 4 and f = seg11] rcar_can.field_value [where bt = bt and k = 8 and w = 10 and f = brp1] rcar_can.field_value [where bt = bt and k = 4 and w = 2 and f = sjw1] rcar_can.field_value [where bt = bt and k = 0 and w = 3 and f = seg21]
    by (simp add: rcar_can_fields_def within_def cc_rcar_can_def)
qed

definition mcp251x_fields :: "can_bittiming \<Rightarrow> bool" where
  "mcp251x_fields bt \<longleftrightarrow>
      unat (reg_field 6 2 (ucast (mcp251x_cnf1 bt))) + 1 = unat (bt_sjw bt) \<and>
      unat (reg_field 0 6 (ucast (mcp251x_cnf1 bt))) + 1 = unat (bt_brp bt) \<and>
      unat (reg_field 3 3 (ucast (mcp251x_cnf2 bt))) + 1 = unat (bt_phase_seg1 bt) \<and>
      unat (reg_field 0 3 (ucast (mcp251x_cnf2 bt))) + 1 = unat (bt_prop_seg bt) \<and>
      unat (reg_field 0 3 (ucast (mcp251x_cnf3 bt))) + 1 = unat (bt_phase_seg2 bt)"

lemma mcp251x_fields_within:
  assumes "within (bittiming_const cc_mcp251x) bt"
  shows "mcp251x_fields bt"
proof -
  have "unat (tseg1_max (bittiming_const cc_mcp251x)) \<le> 256" by (simp add: cc_mcp251x_def)
  note withinD = withinD [OF assms this]
  have "unat (sjw1 bt) < 4" "unat (brp1 bt) < 64" "unat (phase1 bt) < 8" "unat (prop1 bt) < 8" "unat (seg21 bt) < 8"
    using assms withinD by (auto simp: within_def cc_mcp251x_def)
  then show ?thesis
    using assms withinD mcp251x_1.field_value [where bt = bt and k = 6 and w = 2 and f = sjw1] mcp251x_1.field_value [where bt = bt and k = 0 and w = 6 and f = brp1] mcp251x_2.field_value [where bt = bt and k = 3 and w = 3 and f = phase1] mcp251x_2.field_value [where bt = bt and k = 0 and w = 3 and f = prop1] mcp251x_3.field_value [where bt = bt and k = 0 and w = 3 and f = seg21]
    by (simp add: mcp251x_fields_def within_def cc_mcp251x_def)
qed

definition mcp251xfd_fields :: "can_bittiming \<Rightarrow> bool" where
  "mcp251xfd_fields bt \<longleftrightarrow>
      unat (reg_field 24 8 (btr_mcp251xfd bt)) + 1 = unat (bt_brp bt) \<and>
      unat (reg_field 16 8 (btr_mcp251xfd bt)) + 1 = unat (tseg1_of bt) \<and>
      unat (reg_field 8 8 (btr_mcp251xfd bt)) + 1 = unat (bt_phase_seg2 bt) \<and>
      unat (reg_field 0 8 (btr_mcp251xfd bt)) + 1 = unat (bt_sjw bt)"

lemma mcp251xfd_fields_within:
  assumes "within (bittiming_const cc_mcp251xfd) bt"
  shows "mcp251xfd_fields bt"
proof -
  have "unat (tseg1_max (bittiming_const cc_mcp251xfd)) \<le> 256" by (simp add: cc_mcp251xfd_def)
  note withinD = withinD [OF assms this]
  have "unat (brp1 bt) < 256" "unat (seg11 bt) < 256" "unat (seg21 bt) < 256" "unat (sjw1 bt) < 256"
    using assms withinD by (auto simp: within_def cc_mcp251xfd_def)
  then show ?thesis
    using assms withinD mcp251xfd.field_value [where bt = bt and k = 24 and w = 8 and f = brp1] mcp251xfd.field_value [where bt = bt and k = 16 and w = 8 and f = seg11] mcp251xfd.field_value [where bt = bt and k = 8 and w = 8 and f = seg21] mcp251xfd.field_value [where bt = bt and k = 0 and w = 8 and f = sjw1]
    by (simp add: mcp251xfd_fields_def within_def cc_mcp251xfd_def)
qed

definition bxcan_fields :: "can_bittiming \<Rightarrow> bool" where
  "bxcan_fields bt \<longleftrightarrow>
      unat (reg_field 0 10 (btr_bxcan bt)) + 1 = unat (bt_brp bt) \<and>
      unat (reg_field 16 4 (btr_bxcan bt)) + 1 = unat (tseg1_of bt) \<and>
      unat (reg_field 20 3 (btr_bxcan bt)) + 1 = unat (bt_phase_seg2 bt) \<and>
      unat (reg_field 24 2 (btr_bxcan bt)) + 1 = unat (bt_sjw bt)"

lemma bxcan_fields_within:
  assumes "within (bittiming_const cc_bxcan) bt"
  shows "bxcan_fields bt"
proof -
  have "unat (tseg1_max (bittiming_const cc_bxcan)) \<le> 256" by (simp add: cc_bxcan_def)
  note withinD = withinD [OF assms this]
  have "unat (brp1 bt) < 1024" "unat (seg11 bt) < 16" "unat (seg21 bt) < 8" "unat (sjw1 bt) < 4"
    using assms withinD by (auto simp: within_def cc_bxcan_def)
  then show ?thesis
    using assms withinD bxcan.field_value [where bt = bt and k = 0 and w = 10 and f = brp1] bxcan.field_value [where bt = bt and k = 16 and w = 4 and f = seg11] bxcan.field_value [where bt = bt and k = 20 and w = 3 and f = seg21] bxcan.field_value [where bt = bt and k = 24 and w = 2 and f = sjw1]
    by (simp add: bxcan_fields_def within_def cc_bxcan_def)
qed

definition at91_fields :: "can_bittiming \<Rightarrow> bool" where
  "at91_fields bt \<longleftrightarrow>
      unat (reg_field 0 3 (btr_at91 bt)) + 1 = unat (bt_phase_seg2 bt) \<and>
      unat (reg_field 4 3 (btr_at91 bt)) + 1 = unat (bt_phase_seg1 bt) \<and>
      unat (reg_field 8 3 (btr_at91 bt)) + 1 = unat (bt_prop_seg bt) \<and>
      unat (reg_field 12 2 (btr_at91 bt)) + 1 = unat (bt_sjw bt) \<and>
      unat (reg_field 16 7 (btr_at91 bt)) + 1 = unat (bt_brp bt)"

lemma at91_fields_within:
  assumes "within (bittiming_const cc_at91) bt"
  shows "at91_fields bt"
proof -
  have "unat (tseg1_max (bittiming_const cc_at91)) \<le> 256" by (simp add: cc_at91_def)
  note withinD = withinD [OF assms this]
  have "unat (seg21 bt) < 8" "unat (phase1 bt) < 8" "unat (prop1 bt) < 8" "unat (sjw1 bt) < 4" "unat (brp1 bt) < 128"
    using assms withinD by (auto simp: within_def cc_at91_def)
  then show ?thesis
    using assms withinD at91.field_value [where bt = bt and k = 0 and w = 3 and f = seg21] at91.field_value [where bt = bt and k = 4 and w = 3 and f = phase1] at91.field_value [where bt = bt and k = 8 and w = 3 and f = prop1] at91.field_value [where bt = bt and k = 12 and w = 2 and f = sjw1] at91.field_value [where bt = bt and k = 16 and w = 7 and f = brp1]
    by (simp add: at91_fields_def within_def cc_at91_def)
qed

definition c_can_fields :: "can_bittiming \<Rightarrow> bool" where
  "c_can_fields bt \<longleftrightarrow>
      unat (reg_field 6 2 (btr_c_can bt)) + 1 = unat (bt_sjw bt) \<and>
      unat (reg_field 8 4 (btr_c_can bt)) + 1 = unat (tseg1_of bt) \<and>
      unat (reg_field 12 3 (btr_c_can bt)) + 1 = unat (bt_phase_seg2 bt) \<and>
      unat (reg_field 0 6 (btr_c_can bt)) + 64 * unat (brpext_c_can bt) + 1 = unat (bt_brp bt)"

lemma c_can_fields_within:
  assumes "within (bittiming_const cc_c_can) bt"
  shows "c_can_fields bt"
proof -
  have "unat (tseg1_max (bittiming_const cc_c_can)) \<le> 256" by (simp add: cc_c_can_def)
  note withinD = withinD [OF assms this]
  have "unat (sjw1 bt) < 4" "unat (seg11 bt) < 16" "unat (seg21 bt) < 8" "unat (brp1 bt) < 1024"
    using assms withinD by (auto simp: within_def cc_c_can_def)
  then show ?thesis
    using assms withinD c_can.field_value [where bt = bt and k = 6 and w = 2 and f = sjw1] c_can.field_value [where bt = bt and k = 8 and w = 4 and f = seg11] c_can.field_value [where bt = bt and k = 12 and w = 3 and f = seg21] c_can_brp [of bt]
    by (simp add: c_can_fields_def within_def cc_c_can_def)
qed

definition flexcan_fields :: "can_bittiming \<Rightarrow> bool" where
  "flexcan_fields bt \<longleftrightarrow>
      unat (reg_field 24 8 (btr_flexcan bt)) + 1 = unat (bt_brp bt) \<and>
      unat (reg_field 22 2 (btr_flexcan bt)) + 1 = unat (bt_sjw bt) \<and>
      unat (reg_field 19 3 (btr_flexcan bt)) + 1 = unat (bt_phase_seg1 bt) \<and>
      unat (reg_field 16 3 (btr_flexcan bt)) + 1 = unat (bt_phase_seg2 bt) \<and>
      unat (reg_field 0 3 (btr_flexcan bt)) + 1 = unat (bt_prop_seg bt)"

lemma flexcan_fields_within:
  assumes "within (bittiming_const cc_flexcan) bt"
  shows "flexcan_fields bt"
proof -
  have "unat (tseg1_max (bittiming_const cc_flexcan)) \<le> 256" by (simp add: cc_flexcan_def)
  note withinD = withinD [OF assms this]
  have "unat (brp1 bt) < 256" "unat (sjw1 bt) < 4" "unat (phase1 bt) < 8" "unat (seg21 bt) < 8" "unat (prop1 bt) < 8"
    using assms withinD by (auto simp: within_def cc_flexcan_def)
  then show ?thesis
    using assms withinD flexcan.field_value [where bt = bt and k = 24 and w = 8 and f = brp1] flexcan.field_value [where bt = bt and k = 22 and w = 2 and f = sjw1] flexcan.field_value [where bt = bt and k = 19 and w = 3 and f = phase1] flexcan.field_value [where bt = bt and k = 16 and w = 3 and f = seg21] flexcan.field_value [where bt = bt and k = 0 and w = 3 and f = prop1]
    by (simp add: flexcan_fields_def within_def cc_flexcan_def)
qed

definition mcan_fields :: "can_bittiming \<Rightarrow> bool" where
  "mcan_fields bt \<longleftrightarrow>
      unat (reg_field 16 9 (btr_mcan bt)) + 1 = unat (bt_brp bt) \<and>
      unat (reg_field 25 7 (btr_mcan bt)) + 1 = unat (bt_sjw bt) \<and>
      unat (reg_field 8 8 (btr_mcan bt)) + 1 = unat (tseg1_of bt) \<and>
      unat (reg_field 0 7 (btr_mcan bt)) + 1 = unat (bt_phase_seg2 bt)"

lemma mcan_fields_within:
  assumes "within (bittiming_const cc_mcan_v3_1) bt"
  shows "mcan_fields bt"
proof -
  have "unat (tseg1_max (bittiming_const cc_mcan_v3_1)) \<le> 256" by (simp add: cc_mcan_v3_1_def)
  note withinD = withinD [OF assms this]
  have "unat (brp1 bt) < 512" "unat (sjw1 bt) < 128" "unat (seg11 bt) < 256" "unat (seg21 bt) < 128"
    using assms withinD by (auto simp: within_def cc_mcan_v3_1_def)
  then show ?thesis
    using assms withinD mcan.field_value [where bt = bt and k = 16 and w = 9 and f = brp1] mcan.field_value [where bt = bt and k = 25 and w = 7 and f = sjw1] mcan.field_value [where bt = bt and k = 8 and w = 8 and f = seg11] mcan.field_value [where bt = bt and k = 0 and w = 7 and f = seg21]
    by (simp add: mcan_fields_def within_def cc_mcan_v3_1_def)
qed

definition sja1000_fields :: "can_bittiming \<Rightarrow> bool" where
  "sja1000_fields bt \<longleftrightarrow>
      unat (reg_field 0 6 (ucast (sja1000_btr0 bt))) + 1 = unat (bt_brp bt) \<and>
      unat (reg_field 6 2 (ucast (sja1000_btr0 bt))) + 1 = unat (bt_sjw bt) \<and>
      unat (reg_field 0 4 (ucast (sja1000_btr1 bt))) + 1 = unat (tseg1_of bt) \<and>
      unat (reg_field 4 3 (ucast (sja1000_btr1 bt))) + 1 = unat (bt_phase_seg2 bt)"

lemma sja1000_fields_within:
  assumes "within (bittiming_const cc_sja1000) bt"
  shows "sja1000_fields bt"
proof -
  have "unat (tseg1_max (bittiming_const cc_sja1000)) \<le> 256" by (simp add: cc_sja1000_def)
  note withinD = withinD [OF assms this]
  have "unat (brp1 bt) < 64" "unat (sjw1 bt) < 4" "unat (seg11 bt) < 16" "unat (seg21 bt) < 8"
    using assms withinD by (auto simp: within_def cc_sja1000_def)
  then show ?thesis
    using assms withinD sja1000_0.field_value [where bt = bt and k = 0 and w = 6 and f = brp1] sja1000_0.field_value [where bt = bt and k = 6 and w = 2 and f = sjw1] sja1000_1.field_value [where bt = bt and k = 0 and w = 4 and f = seg11] sja1000_1.field_value [where bt = bt and k = 4 and w = 3 and f = seg21]
    by (simp add: sja1000_fields_def within_def cc_sja1000_def)
qed

definition ti_hecc_fields :: "can_bittiming \<Rightarrow> bool" where
  "ti_hecc_fields bt \<longleftrightarrow>
      unat (reg_field 0 3 (btr_ti_hecc bt)) + 1 = unat (bt_phase_seg2 bt) \<and>
      unat (reg_field 3 4 (btr_ti_hecc bt)) + 1 = unat (tseg1_of bt) \<and>
      unat (reg_field 8 2 (btr_ti_hecc bt)) + 1 = unat (bt_sjw bt) \<and>
      unat (reg_field 16 8 (btr_ti_hecc bt)) + 1 = unat (bt_brp bt)"

lemma ti_hecc_fields_within:
  assumes "within (bittiming_const cc_ti_hecc) bt"
  shows "ti_hecc_fields bt"
proof -
  have "unat (tseg1_max (bittiming_const cc_ti_hecc)) \<le> 256" by (simp add: cc_ti_hecc_def)
  note withinD = withinD [OF assms this]
  have "unat (seg21 bt) < 8" "unat (seg11 bt) < 16" "unat (sjw1 bt) < 4" "unat (brp1 bt) < 256"
    using assms withinD by (auto simp: within_def cc_ti_hecc_def)
  then show ?thesis
    using assms withinD ti_hecc.field_value [where bt = bt and k = 0 and w = 3 and f = seg21] ti_hecc.field_value [where bt = bt and k = 3 and w = 4 and f = seg11] ti_hecc.field_value [where bt = bt and k = 8 and w = 2 and f = sjw1] ti_hecc.field_value [where bt = bt and k = 16 and w = 8 and f = brp1]
    by (simp add: ti_hecc_fields_def within_def cc_ti_hecc_def)
qed



end
