(* ===== verification/Bit_Timing.thy ===== *)
theory Bit_Timing
  imports Bit_Timing_Consts "HOL-Library.Signed_Division"
begin

text \<open>
  The algorithms of \<^verbatim>\<open>libs/can-utils/can-calc-bit-timing.c\<close>: the two versions of
  \<open>can_calc_bittiming\<close> with their \<open>can_update_spt\<close>, \<open>can_fixup_bittiming\<close>, and the printing
  of a bit timing for one controller, for all of them and from the command line.

  An \<open>unsigned int\<close> is a word of 32 bits, so that sums and products wrap as in C; a signed local is
  an \<open>int\<close> and its overflow, like a division by zero, has no result.  A function that does not return
  a value, for one of these reasons or because its loop does not end, is \<open>None\<close>.
\<close>

section \<open>Macros\<close>

definition abs_u32 :: "u32 \<Rightarrow> u32" where
  "abs_u32 x = (if sint x < 0 then - x else x)"

definition clamp :: "u32 \<Rightarrow> u32 \<Rightarrow> u32 \<Rightarrow> u32" where
  "clamp val lo hi = min (max val lo) hi"

definition do_div :: "u64 \<Rightarrow> u32 \<Rightarrow> u64 option" where
  "do_div n base = (if base = 0 then None else Some (n div ucast base))"

definition udiv :: "u32 \<Rightarrow> u32 \<Rightarrow> u32 option" where
  "udiv a b = (if b = 0 then None else Some (a div b))"

text \<open>A signed result of 32 bits.\<close>

definition s32 :: "int \<Rightarrow> int option" where
  "s32 x = (if - 2147483648 \<le> x \<and> x \<le> 2147483647 then Some x else None)"

abbreviation (input) EDOM :: int where "EDOM \<equiv> 33"
abbreviation (input) ERANGE :: int where "ERANGE \<equiv> 34"
abbreviation (input) EINVAL :: int where "EINVAL \<equiv> 22"
abbreviation (input) UINT_MAX :: u32 where "UINT_MAX \<equiv> 0xFFFFFFFF"
abbreviation (input) CAN_CALC_MAX_ERROR :: u32 where "CAN_CALC_MAX_ERROR \<equiv> 50"
abbreviation (input) CAN_CALC_SYNC_SEG :: u32 where "CAN_CALC_SYNC_SEG \<equiv> 1"

definition get_cia_sample_point :: "u32 \<Rightarrow> u32" where
  "get_cia_sample_point bitrate = (if bitrate > 800000 then 750 else if bitrate > 500000 then 800 else 875)"

text \<open>The recommended sample point, unless the caller gives one.\<close>

definition nominal_sample_point :: "can_bittiming \<Rightarrow> u32" where
  "nominal_sample_point bt =
     (if bt_sample_point bt \<noteq> 0 then bt_sample_point bt
      else if bt_bitrate bt > 800000 then 750
      else if bt_bitrate bt > 500000 then 800
      else 875)"

section \<open>Version 4.8\<close>

text \<open>One turn of the loop of \<open>can_update_spt\<close>: the sample point, its error and the segments.\<close>

definition spt_try :: "can_bittiming_const \<Rightarrow> u32 \<Rightarrow> u32 \<Rightarrow> u32 \<Rightarrow> u32 \<times> u32 \<times> u32 \<times> u32" where
  "spt_try btc spt_nominal tseg i =
     (let tseg2 = tseg + CAN_CALC_SYNC_SEG - (spt_nominal * (tseg + CAN_CALC_SYNC_SEG)) div 1000 - i;
          tseg2 = clamp tseg2 (tseg2_min btc) (tseg2_max btc);
          tseg1 = tseg - tseg2;
          (tseg1, tseg2) = (if tseg1 > tseg1_max btc then (tseg1_max btc, tseg - tseg1_max btc) else (tseg1, tseg2));
          spt = 1000 * (tseg + CAN_CALC_SYNC_SEG - tseg2) div (tseg + CAN_CALC_SYNC_SEG)
      in (spt, abs_u32 (spt_nominal - spt), tseg1, tseg2))"

text \<open>
  \<open>segs\<close> are the values behind \<open>tseg1_ptr\<close> and \<open>tseg2_ptr\<close>, which keep their value when no choice
  is at or below the nominal sample point; the result is the sample point, its error and the segments.
\<close>

definition spt_better ::
    "u32 \<Rightarrow> u32 \<times> u32 \<times> u32 \<times> u32 \<Rightarrow> u32 \<times> u32 \<times> u32 \<times> u32 \<Rightarrow> u32 \<times> u32 \<times> u32 \<times> u32" where
  "spt_better spt_nominal new best =
     (if fst new \<le> spt_nominal \<and> fst (snd new) < fst (snd best) then new else best)"

definition can_update_spt_v4_8 ::
    "can_bittiming_const \<Rightarrow> u32 \<Rightarrow> u32 \<Rightarrow> u32 \<times> u32 \<Rightarrow> u32 \<times> u32 \<times> u32 \<times> u32" where
  "can_update_spt_v4_8 btc spt_nominal tseg segs =
     spt_better spt_nominal (spt_try btc spt_nominal tseg 1)
       (spt_better spt_nominal (spt_try btc spt_nominal tseg 0) (0, UINT_MAX, segs))"

record calc_state =
  cs_best_rate_error :: u32
  cs_best_spt_error :: u32
  cs_best_tseg :: u32
  cs_best_brp :: u32
  cs_tseg1 :: u32
  cs_tseg2 :: u32

text \<open>The body of the search loop: whether it breaks, and the new state.\<close>

definition calc_step_v4_8 ::
    "u32 \<Rightarrow> u32 \<Rightarrow> can_bittiming_const \<Rightarrow> u32 \<Rightarrow> u32 \<Rightarrow> calc_state \<Rightarrow> (bool \<times> calc_state) option" where
  "calc_step_v4_8 freq bitrate btc spt_nominal tseg s =
     (let tsegall = CAN_CALC_SYNC_SEG + tseg div 2 in do {
        q \<leftarrow> udiv freq (tsegall * bitrate);
        steps \<leftarrow> udiv (q + tseg mod 2) (brp_inc btc);
        let brp = steps * brp_inc btc;
        if brp < brp_min btc \<or> brp > brp_max btc then Some (False, s)
        else do {
          rate \<leftarrow> udiv freq (brp * tsegall);
          let rate_error = abs_u32 (bitrate - rate);
          if rate_error > cs_best_rate_error s then Some (False, s)
          else
            let best_spt_error = (if rate_error < cs_best_rate_error s then UINT_MAX else cs_best_spt_error s);
                (spt, spt_error, tseg1, tseg2) =
                  can_update_spt_v4_8 btc spt_nominal (tseg div 2) (cs_tseg1 s, cs_tseg2 s);
                s = s\<lparr>cs_best_spt_error := best_spt_error, cs_tseg1 := tseg1, cs_tseg2 := tseg2\<rparr>
            in if spt_error > best_spt_error then Some (False, s)
               else Some (rate_error = 0 \<and> spt_error = 0,
                          s\<lparr>cs_best_spt_error := spt_error, cs_best_rate_error := rate_error,
                            cs_best_tseg := tseg div 2, cs_best_brp := brp\<rparr>) } })"

partial_function (option) calc_loop_v4_8 ::
    "u32 \<Rightarrow> u32 \<Rightarrow> can_bittiming_const \<Rightarrow> u32 \<Rightarrow> u32 \<Rightarrow> calc_state \<Rightarrow> calc_state option" where
  "calc_loop_v4_8 freq bitrate btc spt_nominal tseg s =
     (if tseg \<ge> (tseg1_min btc + tseg2_min btc) * 2 then
        Option.bind (calc_step_v4_8 freq bitrate btc spt_nominal tseg s)
          (\<lambda>(brk, s). if brk then Some s else calc_loop_v4_8 freq bitrate btc spt_nominal (tseg - 1) s)
      else Some s)"

declare calc_loop_v4_8.simps [code]

text \<open>The user's synchronisation jump width, kept within its limits.\<close>

definition calc_sjw :: "can_bittiming_const \<Rightarrow> u32 \<Rightarrow> u32 \<Rightarrow> u32" where
  "calc_sjw btc sjw tseg2 =
     (if sjw = 0 \<or> sjw_max btc = 0 then 1
      else
        let sjw = (if sjw > sjw_max btc then sjw_max btc else sjw) in
        if tseg2 < sjw then tseg2 else sjw)"

definition can_calc_bittiming_v4_8 ::
    "u32 \<Rightarrow> can_bittiming \<Rightarrow> can_bittiming_const \<Rightarrow> (int \<times> can_bittiming) option" where
  "can_calc_bittiming_v4_8 freq bt btc =
     (let spt_nominal = nominal_sample_point bt;
          s = \<lparr>cs_best_rate_error = UINT_MAX, cs_best_spt_error = UINT_MAX, cs_best_tseg = 0,
               cs_best_brp = 0, cs_tseg1 = 0, cs_tseg2 = 0\<rparr> in do {
        s \<leftarrow> calc_loop_v4_8 freq (bt_bitrate bt) btc spt_nominal ((tseg1_max btc + tseg2_max btc) * 2 + 1) s;
        rate_error \<leftarrow> (if cs_best_rate_error s = 0 then Some 0
                      else udiv (cs_best_rate_error s * 1000) (bt_bitrate bt));
        if rate_error > CAN_CALC_MAX_ERROR then Some (- EDOM, bt)
        else do {
          let (spt, spt_error, tseg1, tseg2) =
                can_update_spt_v4_8 btc spt_nominal (cs_best_tseg s) (cs_tseg1 s, cs_tseg2 s);
          v64 \<leftarrow> do_div (ucast (cs_best_brp s) * 1000 * 1000 * 1000) freq;
          rate \<leftarrow> udiv freq (cs_best_brp s * (CAN_CALC_SYNC_SEG + tseg1 + tseg2));
          Some (0, bt\<lparr>bt_sample_point := spt, bt_tq := ucast v64, bt_prop_seg := tseg1 div 2,
                      bt_phase_seg1 := tseg1 - tseg1 div 2, bt_phase_seg2 := tseg2,
                      bt_sjw := calc_sjw btc (bt_sjw bt) tseg2, bt_brp := cs_best_brp s,
                      bt_bitrate := rate\<rparr>) } })"

section \<open>Version 3.18\<close>

definition can_update_spt_v3_18 ::
    "can_bittiming_const \<Rightarrow> int \<Rightarrow> int \<Rightarrow> (int \<times> int \<times> int) option" where
  "can_update_spt_v3_18 btc sampl_pt tseg = do {
     all \<leftarrow> s32 (tseg + 1);
     prod \<leftarrow> s32 (sampl_pt * all);
     tseg2 \<leftarrow> s32 (all - prod sdiv 1000);
     let tseg2 = (if of_int tseg2 < tseg2_min btc then sint (tseg2_min btc) else tseg2);
     let tseg2 = (if of_int tseg2 > tseg2_max btc then sint (tseg2_max btc) else tseg2);
     tseg1 \<leftarrow> s32 (tseg - tseg2);
     (tseg1, tseg2) \<leftarrow>
       (if of_int tseg1 > tseg1_max btc
        then do { t2 \<leftarrow> s32 (tseg - sint (tseg1_max btc)); Some (sint (tseg1_max btc), t2) }
        else Some (tseg1, tseg2));
     n \<leftarrow> s32 (all - tseg2);
     n \<leftarrow> s32 (1000 * n);
     if all = 0 then None else Some (n sdiv all, tseg1, tseg2) }"

record calc_state_v3 =
  c3_best_error :: int
  c3_spt_error :: int
  c3_best_tseg :: int
  c3_best_brp :: int
  c3_tseg1 :: int
  c3_tseg2 :: int

definition calc_step_v3_18 ::
    "u32 \<Rightarrow> u32 \<Rightarrow> can_bittiming_const \<Rightarrow> int \<Rightarrow> int \<Rightarrow> calc_state_v3 \<Rightarrow> (bool \<times> calc_state_v3) option" where
  "calc_step_v3_18 freq bitrate btc sampl_pt tseg s =
     (let tsegall = 1 + tseg sdiv 2 in do {
        q \<leftarrow> udiv freq (of_int tsegall * bitrate);
        steps \<leftarrow> udiv (of_int (sint (q + of_int (tseg smod 2)))) (brp_inc btc);
        let brp = sint (steps * brp_inc btc);
        if of_int brp < brp_min btc \<or> of_int brp > brp_max btc then Some (False, s)
        else do {
          p \<leftarrow> s32 (brp * tsegall);
          rate \<leftarrow> udiv freq (of_int p);
          let error = \<bar>uint bitrate - uint rate\<bar>;
          if error > c3_best_error s then Some (False, s)
          else
            let s = s\<lparr>c3_best_error := error\<rparr> in
            if error = 0 then do {
              (spt, tseg1, tseg2) \<leftarrow> can_update_spt_v3_18 btc sampl_pt (tseg sdiv 2);
              d \<leftarrow> s32 (sampl_pt - spt);
              let s = s\<lparr>c3_tseg1 := tseg1, c3_tseg2 := tseg2\<rparr>;
              if \<bar>d\<bar> > c3_spt_error s then Some (False, s)
              else Some (d = 0, s\<lparr>c3_spt_error := \<bar>d\<bar>, c3_best_tseg := tseg sdiv 2, c3_best_brp := brp\<rparr>) }
            else Some (False, s\<lparr>c3_best_tseg := tseg sdiv 2, c3_best_brp := brp\<rparr>) } })"

partial_function (option) calc_loop_v3_18 ::
    "u32 \<Rightarrow> u32 \<Rightarrow> can_bittiming_const \<Rightarrow> int \<Rightarrow> int \<Rightarrow> calc_state_v3 \<Rightarrow> calc_state_v3 option" where
  "calc_loop_v3_18 freq bitrate btc sampl_pt tseg s =
     (if of_int tseg \<ge> (tseg1_min btc + tseg2_min btc) * 2 then
        Option.bind (calc_step_v3_18 freq bitrate btc sampl_pt tseg s)
          (\<lambda>(brk, s). if brk then Some s
             else Option.bind (s32 (tseg - 1)) (\<lambda>t. calc_loop_v3_18 freq bitrate btc sampl_pt t s))
      else Some s)"

declare calc_loop_v3_18.simps [code]

definition can_calc_bittiming_v3_18 ::
    "u32 \<Rightarrow> can_bittiming \<Rightarrow> can_bittiming_const \<Rightarrow> (int \<times> can_bittiming) option" where
  "can_calc_bittiming_v3_18 freq bt btc =
     (let sampl_pt = sint (nominal_sample_point bt);
          s = \<lparr>c3_best_error = 1000000000, c3_spt_error = 1000, c3_best_tseg = 0, c3_best_brp = 0,
               c3_tseg1 = 0, c3_tseg2 = 0\<rparr> in do {
        s \<leftarrow> calc_loop_v3_18 freq (bt_bitrate bt) btc sampl_pt (sint ((tseg1_max btc + tseg2_max btc) * 2 + 1)) s;
        error \<leftarrow> (if c3_best_error s = 0 then Some 0
                 else if bt_bitrate bt = 0 then None
                 else Some ((c3_best_error s * 1000) div uint (bt_bitrate bt)));
        if error > 50 then Some (- EDOM, bt)
        else do {
          (spt, tseg1, tseg2) \<leftarrow> can_update_spt_v3_18 btc sampl_pt (c3_best_tseg s);
          v64 \<leftarrow> do_div (of_int (c3_best_brp s) * 1000000000) freq;
          all \<leftarrow> s32 (tseg1 + tseg2);
          all \<leftarrow> s32 (all + 1);
          rate \<leftarrow> udiv freq (of_int (c3_best_brp s) * of_int all);
          Some (0, bt\<lparr>bt_sample_point := of_int spt, bt_tq := ucast v64, bt_prop_seg := of_int (tseg1 sdiv 2),
                      bt_phase_seg1 := of_int tseg1 - of_int (tseg1 sdiv 2), bt_phase_seg2 := of_int tseg2,
                      bt_sjw := calc_sjw btc (bt_sjw bt) (of_int tseg2), bt_brp := of_int (c3_best_brp s),
                      bt_bitrate := rate\<rparr>) } })"

section \<open>Fix-up of given parameters\<close>

definition fixup_brp :: "u32 \<Rightarrow> can_bittiming \<Rightarrow> can_bittiming_const \<Rightarrow> u32" where
  "fixup_brp freq bt btc =
     (let brp64 = ucast freq * ucast (bt_tq bt) :: u64;
          brp64 = (if brp_inc btc > 1 then brp64 div ucast (brp_inc btc) else brp64);
          brp64 = brp64 + (500000000 - 1);
          brp64 = brp64 div 1000000000;
          brp64 = (if brp_inc btc > 1 then brp64 * ucast (brp_inc btc) else brp64)
      in ucast brp64)"

text \<open>The new time quantum is computed in 32 bits before it is widened.\<close>

definition can_fixup_bittiming ::
    "u32 \<Rightarrow> can_bittiming \<Rightarrow> can_bittiming_const \<Rightarrow> (int \<times> can_bittiming) option" where
  "can_fixup_bittiming freq bt btc =
     (let tseg1 = bt_prop_seg bt + bt_phase_seg1 bt;
          bt = (if bt_sjw bt = 0 then bt\<lparr>bt_sjw := 1\<rparr> else bt) in
      if bt_sjw bt > sjw_max btc \<or> tseg1 < tseg1_min btc \<or> tseg1 > tseg1_max btc \<or>
         bt_phase_seg2 bt < tseg2_min btc \<or> bt_phase_seg2 bt > tseg2_max btc
      then Some (- ERANGE, bt)
      else do {
        let bt = (if bt_brp bt = 0 then bt\<lparr>bt_brp := fixup_brp freq bt btc\<rparr> else bt);
        v64 \<leftarrow> do_div (ucast (bt_brp bt * 1000 * 1000 * 1000)) freq;
        let bt = bt\<lparr>bt_tq := ucast v64\<rparr>;
        if bt_brp bt < brp_min btc \<or> bt_brp bt > brp_max btc then Some (- EINVAL, bt)
        else do {
          let alltseg = CAN_CALC_SYNC_SEG + bt_prop_seg bt + bt_phase_seg1 bt + bt_phase_seg2 bt;
          rate \<leftarrow> udiv freq (bt_brp bt * alltseg);
          spt \<leftarrow> udiv ((CAN_CALC_SYNC_SEG + tseg1) * 1000) alltseg;
          Some (0, bt\<lparr>bt_bitrate := rate, bt_sample_point := spt\<rparr>) } })"

section \<open>Printing\<close>

text \<open>
  Numbers as \<open>printf\<close> shows them: \<open>%d\<close> of an unsigned argument, \<open>%.6f\<close> of a clock in MHz and
  \<open>%4.1f\<close> of a tenth, which are exact decimal fractions.  What \<open>%4.1f\<close> shows for the quotient
  \<open>100.0 * e / n\<close> is rounded; it is the argument \<open>pct e n\<close>.
\<close>

definition dec_field :: "nat \<Rightarrow> u32 \<Rightarrow> string" where
  "dec_field w x = pad_left (CHR '' '') w (sdec (sint x))"

definition mhz :: "u32 \<Rightarrow> string" where
  "mhz clk = udec (unat clk div 1000000) @ ''.'' @ pad_left (CHR ''0'') 6 (udec (unat clk mod 1000000))"

definition tenths :: "u32 \<Rightarrow> string" where
  "tenths x = pad_left (CHR '' '') 4 (udec (unat x div 10) @ ''.'' @ udec (unat x mod 10))"

text \<open>\<open>100.0 * e / n > 99.9\<close>; for operands of 32 bits the rounding never crosses the bound.\<close>

definition error_field :: "(nat \<Rightarrow> nat \<Rightarrow> string) \<Rightarrow> u32 \<Rightarrow> u32 \<Rightarrow> string" where
  "error_field pct e n =
     (if 1000 * unat e > 999 * unat n then [CHR 0xE2, CHR 0x89, CHR 0xA5] @ ''100%''
      else pct (unat e) (unat n) @ ''%'')"

type_synonym bittiming_alg =
  "u32 \<Rightarrow> can_bittiming \<Rightarrow> can_bittiming_const \<Rightarrow> (int \<times> can_bittiming) option"

definition calc_bittiming_list :: "(bittiming_alg \<times> string) list" where
  "calc_bittiming_list = [(can_calc_bittiming_v4_8, ''v4.8''), (can_calc_bittiming_v3_18, ''v3.18'')]"

definition bittiming_header ::
    "string \<Rightarrow> can_bittiming_const \<Rightarrow> calc_ref_clk \<Rightarrow> btr_printer \<Rightarrow> can_bittiming \<Rightarrow> string" where
  "bittiming_header algname btc clk pbtr bt =
     ''Bit timing parameters for '' @ btc_name btc @ '' with '' @ mhz (fst clk) @ '' MHz ref clock '' @
     (case snd clk of None \<Rightarrow> [] | Some n \<Rightarrow> ''('' @ n @ '') '') @ ''using algo '' @ [CHR 0x27] @ algname @ [CHR 0x27, LF] @
     '' nominal                                  real  Bitrt    nom   real  SampP'' @ [LF] @
     '' Bitrate TQ[ns] PrS PhS1 PhS2 SJW BRP  Bitrate  Error  SampP  SampP  Error   '' @ pbtr bt True @ [LF]"

definition print_bittiming_one ::
    "(nat \<Rightarrow> nat \<Rightarrow> string) \<Rightarrow> bittiming_alg \<times> string \<Rightarrow> can_bittiming_const \<Rightarrow> can_bittiming option \<Rightarrow>
     calc_ref_clk \<Rightarrow> u32 \<Rightarrow> u32 \<Rightarrow> btr_printer \<Rightarrow> bool \<Rightarrow> string option" where
  "print_bittiming_one pct alg btc ref_bt clk bitrate_nominal sample_point_nominal pbtr quiet =
     (let bt0 = \<lparr>bt_bitrate = bitrate_nominal, bt_sample_point = sample_point_nominal, bt_tq = 0,
                 bt_prop_seg = 0, bt_phase_seg1 = 0, bt_phase_seg2 = 0, bt_sjw = 0, bt_brp = 0\<rparr>;
          hdr = (if quiet then [] else bittiming_header (snd alg) btc clk pbtr bt0) in do {
        (rc, bt) \<leftarrow> (case ref_bt of Some b \<Rightarrow> can_fixup_bittiming (fst clk) b btc
                                | None \<Rightarrow> fst alg (fst clk) bt0 btc);
        if rc \<noteq> 0 then
          Some (hdr @ dec_field 8 bitrate_nominal @
            (case ref_bt of Some _ \<Rightarrow> '' ***parameters exceed controller'' @ [CHR 0x27] @ ''s range***'' @ [LF]
                          | None \<Rightarrow> '' ***bitrate not possible***'' @ [LF]))
        else
          let bitrate_error = abs_u32 (bitrate_nominal - bt_bitrate bt);
              sample_point_error = abs_u32 (sample_point_nominal - bt_sample_point bt)
          in Some (hdr @ dec_field 8 bitrate_nominal @ '' '' @ dec_field 6 (bt_tq bt) @ '' '' @
                   dec_field 3 (bt_prop_seg bt) @ '' '' @ dec_field 4 (bt_phase_seg1 bt) @ '' '' @
                   dec_field 4 (bt_phase_seg2 bt) @ '' '' @ dec_field 3 (bt_sjw bt) @ '' '' @
                   dec_field 3 (bt_brp bt) @ '' '' @ dec_field 8 (bt_bitrate bt) @ ''  '' @
                   error_field pct bitrate_error bitrate_nominal @ ''  '' @
                   tenths sample_point_nominal @ ''%  '' @ tenths (bt_sample_point bt) @ ''%  '' @
                   error_field pct sample_point_error sample_point_nominal @ ''   '' @
                   pbtr bt False @ [LF]) })"

record calc_data =
  cd_bittiming_const :: can_bittiming_const
  cd_calc_bittiming :: "bittiming_alg \<times> string"
  cd_printf_btr :: "btr_printer option"
  cd_name :: "string option"
  cd_ref_clks :: "calc_ref_clk list"
  cd_bitrates :: "u32 list"
  cd_sample_point :: u32
  cd_opt_ref_clk :: "calc_ref_clk list option"
  cd_opt_bitrates :: "u32 list option"
  cd_opt_data_bitrates :: "u32 list option"
  cd_opt_bt :: "can_bittiming option"
  cd_quiet :: bool

text \<open>The loops over the bit rates, up to the terminating zero, and over the clocks.\<close>

fun print_bitrates ::
    "(nat \<Rightarrow> nat \<Rightarrow> string) \<Rightarrow> calc_data \<Rightarrow> calc_ref_clk \<Rightarrow> bool \<Rightarrow> u32 list \<Rightarrow> string option" where
  "print_bitrates pct d clk quiet [] = None"
| "print_bitrates pct d clk quiet (b # bs) =
     (if b = 0 then Some []
      else do {
        let sp = (if cd_sample_point d \<noteq> 0 then cd_sample_point d else get_cia_sample_point b);
        let pbtr = (case cd_printf_btr d of Some p \<Rightarrow> p | None \<Rightarrow> printf_btr_nop);
        one \<leftarrow> print_bittiming_one pct (cd_calc_bittiming d) (cd_bittiming_const d) (cd_opt_bt d) clk b sp pbtr quiet;
        rest \<leftarrow> print_bitrates pct d clk True bs;
        Some (one @ rest) })"

fun print_clocks :: "(nat \<Rightarrow> nat \<Rightarrow> string) \<Rightarrow> calc_data \<Rightarrow> calc_ref_clk list \<Rightarrow> string option" where
  "print_clocks pct d [] = Some []"
| "print_clocks pct d (clk # clks) =
     (if fst clk = 0 then Some []
      else do {
        one \<leftarrow> print_bitrates pct d clk (cd_quiet d) (cd_bitrates d);
        rest \<leftarrow> print_clocks pct d clks;
        Some (one @ [LF] @ rest) })"

definition print_bittiming :: "(nat \<Rightarrow> nat \<Rightarrow> string) \<Rightarrow> calc_data \<Rightarrow> string option" where
  "print_bittiming pct d = do {
     let skip = (case cd_ref_clks d of [] \<Rightarrow> True | clk # _ \<Rightarrow> fst clk = 0);
     out \<leftarrow> print_clocks pct d (cd_ref_clks d);
     Some ((if skip \<and> \<not> cd_quiet d
            then ''Skipping bit timing parameter calculation for '' @ btc_name (cd_bittiming_const d) @
                 '', no ref clock defined'' @ [LF, LF]
            else []) @ out) }"

definition do_list_calc_bittiming_list :: string where
  "do_list_calc_bittiming_list = concat (map (\<lambda>a. ''    '' @ snd a @ [LF]) calc_bittiming_list)"

definition do_list :: string where
  "do_list = concat (map (\<lambda>c. btc_name (bittiming_const c) @ [LF]) can_calc_consts)"

text \<open>One controller of \<open>do_calc\<close>: its nominal and its data bit timing.\<close>

definition calc_nominal :: "calc_data \<Rightarrow> calc_bittiming_const \<Rightarrow> calc_data" where
  "calc_nominal d c =
     d\<lparr>cd_bittiming_const := bittiming_const c, cd_printf_btr := printf_btr c,
       cd_ref_clks := (case cd_opt_ref_clk d of Some r \<Rightarrow> r | None \<Rightarrow> ref_clk c),
       cd_bitrates := (case cd_opt_bitrates d of Some b \<Rightarrow> b | None \<Rightarrow> common_bitrates)\<rparr>"

definition calc_dbitrate :: "calc_data \<Rightarrow> calc_bittiming_const \<Rightarrow> calc_data" where
  "calc_dbitrate d c =
     d\<lparr>cd_bittiming_const := data_bittiming_const c,
       cd_printf_btr := (case printf_data_btr c of Some p \<Rightarrow> Some p | None \<Rightarrow> printf_btr c),
       cd_ref_clks := (case cd_opt_ref_clk d of Some r \<Rightarrow> r | None \<Rightarrow> ref_clk c),
       cd_bitrates := (case cd_opt_data_bitrates d of Some b \<Rightarrow> b
         | None \<Rightarrow> (case cd_opt_bitrates d of Some b \<Rightarrow> b | None \<Rightarrow> common_data_bitrates))\<rparr>"

definition calc_controller ::
    "(nat \<Rightarrow> nat \<Rightarrow> string) \<Rightarrow> calc_data \<Rightarrow> calc_bittiming_const \<Rightarrow> (string \<times> calc_data) option" where
  "calc_controller pct d c = do {
     (out1, d) \<leftarrow> (if btc_name (bittiming_const c) \<noteq> []
                  then let d = calc_nominal d c in do { o1 \<leftarrow> print_bittiming pct d; Some (o1, d) }
                  else Some ([], d));
     (out2, d) \<leftarrow> (if btc_name (data_bittiming_const c) \<noteq> []
                  then let d = calc_dbitrate d c in do { o2 \<leftarrow> print_bittiming pct d; Some (o2, d) }
                  else Some ([], d));
     Some (out1 @ out2, d) }"

definition selected :: "calc_data \<Rightarrow> calc_bittiming_const \<Rightarrow> bool" where
  "selected d c \<longleftrightarrow>
     (case cd_name d of
        None \<Rightarrow> True
      | Some n \<Rightarrow> n = btc_name (bittiming_const c) \<or> n = btc_name (data_bittiming_const c))"

fun calc_controllers ::
    "(nat \<Rightarrow> nat \<Rightarrow> string) \<Rightarrow> calc_data \<Rightarrow> calc_bittiming_const list \<Rightarrow> (string \<times> bool) option" where
  "calc_controllers pct d [] = Some ([], False)"
| "calc_controllers pct d (c # cs) =
     (if selected d c
      then do { (out, d) \<leftarrow> calc_controller pct d c; (rest, _) \<leftarrow> calc_controllers pct d cs; Some (out @ rest, True) }
      else calc_controllers pct d cs)"

text \<open>The output of \<open>do_calc\<close>, and whether it ends the program with a failure.\<close>

definition do_calc :: "(nat \<Rightarrow> nat \<Rightarrow> string) \<Rightarrow> calc_data \<Rightarrow> (string \<times> bool) option" where
  "do_calc pct d = do {
     (out, found) \<leftarrow> calc_controllers pct d can_calc_consts;
     if found then Some (out, False)
     else Some (out @ ''error: unknown CAN controller '' @ [CHR 0x27] @ (case cd_name d of Some n \<Rightarrow> n | None \<Rightarrow> []) @ [CHR 0x27] @
                '', try one of these:'' @ [LF, LF] @ do_list, True) }"

definition print_usage :: "string \<Rightarrow> string" where
  "print_usage cmd =
     cmd @ '' - calculate CAN bit timing parameters.'' @ [LF] @
     ''Usage: '' @ cmd @ '' [options] [<CAN-contoller-name>]'' @ [LF] @
     ''Options:'' @ [LF] @
     [CHR 0x09] @ ''-q             don'' @ [CHR 0x27] @ ''t print header line'' @ [LF] @
     [CHR 0x09] @ ''-l             list all support CAN controller names'' @ [LF] @
     [CHR 0x09] @ ''-b <bitrate>   arbitration bit-rate in bits/sec'' @ [LF] @
     [CHR 0x09] @ ''-d <bitrate>   data bit-rate in bits/sec'' @ [LF] @
     [CHR 0x09] @ ''-s <samp_pt>   sample-point in one-tenth of a percent'' @ [LF] @
     [CHR 0x09] @ ''               or 0 for CIA recommended sample points'' @ [LF] @
     [CHR 0x09] @ ''-c <clock>     real CAN system clock in Hz'' @ [LF] @
     [CHR 0x09] @ ''--alg <alg>    choose specified algorithm for bit-timing calculation'' @ [LF] @
     [LF] @
     ''Or supply low level bit timing parameters to decode them:'' @ [LF] @
     [LF] @
     [CHR 0x09] @ ''--prop-seg     Propagation segment in TQs'' @ [LF] @
     [CHR 0x09] @ ''--phase-seg1   Phase buffer segment 1 in TQs'' @ [LF] @
     [CHR 0x09] @ ''--phase-seg2   Phase buffer segment 2 in TQs'' @ [LF] @
     [CHR 0x09] @ ''--sjw          Synchronisation jump width in TQs'' @ [LF] @
     [CHR 0x09] @ ''--brp          Bit-rate prescaler'' @ [LF] @
     [CHR 0x09] @ ''--tseg1        Time segment 1 = prop-seg + phase-seg1'' @ [LF] @
     [CHR 0x09] @ ''--tseg2        Time segment 2 = phase_seg2'' @ [LF]"

section \<open>The command line\<close>

text \<open>\<open>strtoul\<close> in base 10, for the digits at the front of a string, with the bound of \<open>unsigned long\<close>.\<close>

definition strtoul10 :: "string \<Rightarrow> u64" where
  "strtoul10 s =
     (let s = dropWhile isspace s;
          neg = (case s of c # _ \<Rightarrow> c = CHR ''-'' | [] \<Rightarrow> False);
          s = (case s of c # t \<Rightarrow> if c = CHR ''-'' \<or> c = CHR ''+'' then t else s | [] \<Rightarrow> []);
          v = foldl (\<lambda>v c. v * 10 + (of_char c - 48)) (0 :: int) (takeWhile isdigit s)
      in if v > 18446744073709551615 then 18446744073709551615
         else if neg then - of_int v else of_int v)"

abbreviation arg_u32 :: "string \<Rightarrow> u32" where
  "arg_u32 s \<equiv> ucast (strtoul10 s)"

text \<open>The options in the order \<open>getopt_long\<close> returns them, with their arguments.\<close>

datatype calc_option =
    Opt_b string | Opt_c string | Opt_d string | Opt_l | Opt_q | Opt_s string | Opt_usage
  | OPT_TQ string | OPT_PROP_SEG string | OPT_PHASE_SEG1 string | OPT_PHASE_SEG2 string | OPT_SJW string
  | OPT_BRP string | OPT_TSEG1 string | OPT_TSEG2 string | OPT_ALG "string option" | Opt_default

record calc_opts =
  op_ref_clk :: u32
  op_bt :: can_bittiming
  op_bitrate :: u32
  op_data_bitrate :: u32
  op_sample_point :: u32
  op_quiet :: bool
  op_list :: bool
  op_alg_name :: "string option"

text \<open>An option changes the settings, or ends the program with some output (and whether it failed).\<close>

fun apply_option :: "string \<Rightarrow> calc_opts \<Rightarrow> calc_option \<Rightarrow> (string \<times> bool) + calc_opts" where
  "apply_option cmd p (Opt_b a) = Inr (p\<lparr>op_bitrate := arg_u32 a\<rparr>)"
| "apply_option cmd p (Opt_c a) = Inr (p\<lparr>op_ref_clk := arg_u32 a\<rparr>)"
| "apply_option cmd p (Opt_d a) = Inr (p\<lparr>op_data_bitrate := arg_u32 a\<rparr>)"
| "apply_option cmd p Opt_l = Inr (p\<lparr>op_list := True\<rparr>)"
| "apply_option cmd p Opt_q = Inr (p\<lparr>op_quiet := True\<rparr>)"
| "apply_option cmd p (Opt_s a) = Inr (p\<lparr>op_sample_point := arg_u32 a\<rparr>)"
| "apply_option cmd p Opt_usage = Inl (print_usage cmd, False)"
| "apply_option cmd p (OPT_TQ a) = Inr (p\<lparr>op_bt := (op_bt p)\<lparr>bt_tq := arg_u32 a\<rparr>\<rparr>)"
| "apply_option cmd p (OPT_PROP_SEG a) = Inr (p\<lparr>op_bt := (op_bt p)\<lparr>bt_prop_seg := arg_u32 a\<rparr>\<rparr>)"
| "apply_option cmd p (OPT_PHASE_SEG1 a) = Inr (p\<lparr>op_bt := (op_bt p)\<lparr>bt_phase_seg1 := arg_u32 a\<rparr>\<rparr>)"
| "apply_option cmd p (OPT_PHASE_SEG2 a) = Inr (p\<lparr>op_bt := (op_bt p)\<lparr>bt_phase_seg2 := arg_u32 a\<rparr>\<rparr>)"
| "apply_option cmd p (OPT_SJW a) = Inr (p\<lparr>op_bt := (op_bt p)\<lparr>bt_sjw := arg_u32 a\<rparr>\<rparr>)"
| "apply_option cmd p (OPT_BRP a) = Inr (p\<lparr>op_bt := (op_bt p)\<lparr>bt_brp := arg_u32 a\<rparr>\<rparr>)"
| "apply_option cmd p (OPT_TSEG1 a) =
     Inr (p\<lparr>op_bt := (op_bt p)\<lparr>bt_prop_seg := arg_u32 a div 2, bt_phase_seg1 := arg_u32 a - arg_u32 a div 2\<rparr>\<rparr>)"
| "apply_option cmd p (OPT_TSEG2 a) = Inr (p\<lparr>op_bt := (op_bt p)\<lparr>bt_phase_seg2 := arg_u32 a\<rparr>\<rparr>)"
| "apply_option cmd p (OPT_ALG None) =
     Inl (''Supported CAN calc bit timing algorithms:'' @ [LF, LF] @ do_list_calc_bittiming_list @ [LF], False)"
| "apply_option cmd p (OPT_ALG (Some a)) = Inr (p\<lparr>op_alg_name := Some a\<rparr>)"
| "apply_option cmd p Opt_default = Inl (print_usage cmd, True)"

fun apply_options :: "string \<Rightarrow> calc_opts \<Rightarrow> calc_option list \<Rightarrow> (string \<times> bool) + calc_opts" where
  "apply_options cmd p [] = Inr p"
| "apply_options cmd p (x # xs) =
     (case apply_option cmd p x of Inl r \<Rightarrow> Inl r | Inr p' \<Rightarrow> apply_options cmd p' xs)"

text \<open>The last algorithm of the list with the name.\<close>

definition find_alg :: "string \<Rightarrow> (bittiming_alg \<times> string) option" where
  "find_alg n = foldl (\<lambda>r a. if n = snd a then Some a else r) None calc_bittiming_list"

definition initial_opts :: calc_opts where
  "initial_opts =
     \<lparr>op_ref_clk = 0,
      op_bt = \<lparr>bt_bitrate = 0, bt_sample_point = 0, bt_tq = 0, bt_prop_seg = 0, bt_phase_seg1 = 0,
               bt_phase_seg2 = 0, bt_sjw = 0, bt_brp = 0\<rparr>,
      op_bitrate = 0, op_data_bitrate = 0, op_sample_point = 0, op_quiet = False, op_list = False,
      op_alg_name = None\<rparr>"

definition data_of_opts :: "calc_opts \<Rightarrow> bittiming_alg \<times> string \<Rightarrow> string option \<Rightarrow> calc_data" where
  "data_of_opts p alg name =
     \<lparr>cd_bittiming_const = no_bittiming_const, cd_calc_bittiming = alg, cd_printf_btr = None, cd_name = name,
      cd_ref_clks = [], cd_bitrates = [], cd_sample_point = op_sample_point p,
      cd_opt_ref_clk = (if op_ref_clk p \<noteq> 0 then Some [(op_ref_clk p, Some ''cmd-line''), (0, None)] else None),
      cd_opt_bitrates = (if op_bitrate p \<noteq> 0 then Some [op_bitrate p, 0] else None),
      cd_opt_data_bitrates = (if op_data_bitrate p \<noteq> 0 then Some [op_data_bitrate p, 0] else None),
      cd_opt_bt = (if bt_prop_seg (op_bt p) \<noteq> 0 then Some (op_bt p) else None),
      cd_quiet = op_quiet p\<rparr>"

text \<open>
  \<open>main\<close> with the options, the operands and the two spellings of the program's name: the output, and
  whether the program fails.
\<close>

definition calc_main ::
    "(nat \<Rightarrow> nat \<Rightarrow> string) \<Rightarrow> string \<Rightarrow> string \<Rightarrow> calc_option list \<Rightarrow> string list \<Rightarrow> (string \<times> bool) option" where
  "calc_main pct argv0 base options operands =
     (case apply_options base initial_opts options of
        Inl r \<Rightarrow> Some r
      | Inr p \<Rightarrow>
          if length operands > 1 then Some (print_usage argv0, True)
          else if op_list p then Some (do_list, False)
          else
            let name = (case operands of [n] \<Rightarrow> Some n | _ \<Rightarrow> None);
                warn = (if op_sample_point p \<noteq> 0 \<and> (op_sample_point p \<ge> 1000 \<or> op_sample_point p < 100)
                        then print_usage argv0 else []) in
            (case (case op_alg_name p of None \<Rightarrow> Some (hd calc_bittiming_list) | Some n \<Rightarrow> find_alg n) of
               None \<Rightarrow>
                 Some (warn @ ''error: unknown CAN calc bit timing algorithm '' @ [CHR 0x27] @
                       (case op_alg_name p of Some n \<Rightarrow> n | None \<Rightarrow> []) @ [CHR 0x27] @
                       '', try one of these:'' @ [LF, LF] @ do_list_calc_bittiming_list, True)
             | Some alg \<Rightarrow>
                 map_option (\<lambda>(out, failed). (warn @ out, failed)) (do_calc pct (data_of_opts p alg name))))"

end
