(* ===== verification/Bit_Timing_Props.thy ===== *)
theory Bit_Timing_Props
  imports Bit_Timing
begin

text \<open>
  Correctness of the bit timing calculation: the table of controllers is well formed, the search of
  version 4.8 ends and finds the best choice of prescaler and segments, the fix-up accepts exactly the
  parameters within the controller's limits, and the registers of every controller hold the fields they
  show.
\<close>

section \<open>Controllers\<close>

definition wf_btc :: "can_bittiming_const \<Rightarrow> bool" where
  "wf_btc btc \<longleftrightarrow>
     1 \<le> unat (tseg1_min btc) \<and> unat (tseg1_min btc) \<le> unat (tseg1_max btc) \<and> unat (tseg1_max btc) \<le> 512 \<and>
     1 \<le> unat (tseg2_min btc) \<and> unat (tseg2_min btc) \<le> unat (tseg2_max btc) \<and> unat (tseg2_max btc) \<le> 256 \<and>
     1 \<le> unat (sjw_max btc) \<and> unat (sjw_max btc) \<le> unat (tseg2_max btc) \<and>
     1 \<le> unat (brp_min btc) \<and> unat (brp_min btc) \<le> unat (brp_max btc) \<and> unat (brp_max btc) \<le> 8192 \<and>
     1 \<le> unat (brp_inc btc)"

section \<open>Words\<close>

lemma pow2_dvd_factor:
  "2 ^ n dvd a * b \<Longrightarrow> 0 < a \<Longrightarrow> a < 2 ^ Suc k \<Longrightarrow> k \<le> n \<Longrightarrow> (2 :: nat) ^ (n - k) dvd b"
proof (induction k arbitrary: a n)
  case 0
  then have "a = 1" by simp
  with 0 show ?case by simp
next
  case (Suc k)
  show ?case
  proof (cases "even a")
    case True
    then obtain a' where a: "a = 2 * a'" by auto
    from Suc.prems(4) obtain m where n: "n = Suc m" by (cases n) auto
    have "2 ^ m dvd a' * b" using Suc.prems(1) by (simp add: a n mult.assoc)
    then show ?thesis using Suc.IH [of m a'] Suc.prems(2-4) a n by simp
  next
    case False
    then have "coprime (2 ^ n) a" by simp
    then have "2 ^ n dvd b" using Suc.prems(1) by (simp add: coprime_dvd_mult_right_iff)
    then show ?thesis by (rule dvd_trans [rotated]) (simp add: le_imp_power_dvd)
  qed
qed

lemma word_mult_eq_0_dvd:
  fixes a b :: u32
  assumes "a * b = 0" "0 < unat a" "unat a < 2 ^ Suc k" "k \<le> 32"
  shows "2 ^ (32 - k) dvd unat b"
proof -
  have "(unat a * unat b) mod 2 ^ 32 = 0"
    using unat_word_ariths(2) [of a b] assms(1) by simp
  then have "2 ^ 32 dvd unat a * unat b" by (simp only: mod_eq_0_iff_dvd)
  then show ?thesis by (rule pow2_dvd_factor) (use assms in auto)
qed

lemma word_mult_small:
  fixes a b :: u32
  assumes "unat a * unat b < 4294967296"
  shows "unat (a * b) = unat a * unat b"
  using assms by (simp add: unat_word_ariths)

lemma unat_half: "unat (t div 2 :: u32) = unat t div 2"
  by (simp add: unat_div)

lemma minus_1_u32: "(- 1 :: u32) = UINT_MAX"
  by code_simp

lemma abs_u32_less: "abs_u32 x < UINT_MAX"
proof -
  have "abs_u32 x \<noteq> - 1"
  proof
    assume "abs_u32 x = - 1"
    then have "sint x < 0 \<and> x = 1 \<or> \<not> sint x < 0 \<and> x = - 1"
      by (auto simp: abs_u32_def split: if_splits)
    then show False by auto
  qed
  then show ?thesis using word_order.not_eq_extremum [of "abs_u32 x"] minus_1_u32 by metis
qed

section \<open>Version 4.8: one choice of segments\<close>

text \<open>The prescaler, the errors and whether the prescaler can be set, for one value of \<open>tseg\<close>.\<close>

definition brp_at :: "u32 \<Rightarrow> u32 \<Rightarrow> can_bittiming_const \<Rightarrow> u32 \<Rightarrow> u32" where
  "brp_at freq bitrate btc t =
     (freq div ((1 + t div 2) * bitrate) + t mod 2) div brp_inc btc * brp_inc btc"

definition usable :: "u32 \<Rightarrow> u32 \<Rightarrow> can_bittiming_const \<Rightarrow> u32 \<Rightarrow> bool" where
  "usable freq bitrate btc t \<longleftrightarrow>
     brp_min btc \<le> brp_at freq bitrate btc t \<and> brp_at freq bitrate btc t \<le> brp_max btc"

definition rate_error_at :: "u32 \<Rightarrow> u32 \<Rightarrow> can_bittiming_const \<Rightarrow> u32 \<Rightarrow> u32" where
  "rate_error_at freq bitrate btc t =
     abs_u32 (bitrate - freq div (brp_at freq bitrate btc t * (1 + t div 2)))"

definition spt_error_at :: "can_bittiming_const \<Rightarrow> u32 \<Rightarrow> u32 \<Rightarrow> u32" where
  "spt_error_at btc spt t = fst (snd (can_update_spt_v4_8 btc spt (t div 2) (0, 0)))"

text \<open>The error does not depend on the segments of an earlier choice, which the result may keep.\<close>

lemma update_spt_error: "fst (snd (can_update_spt_v4_8 btc spt t segs)) = fst (snd (can_update_spt_v4_8 btc spt t (0, 0)))"
  by (auto simp: can_update_spt_v4_8_def spt_better_def)

lemma update_spt_segs:
  assumes "can_update_spt_v4_8 btc spt t segs = (p, e, t1, t2)"
  shows "t1 + t2 = t \<or> (t1, t2) = segs"
proof -
  have "fst (snd (snd (spt_try btc spt t i))) + snd (snd (snd (spt_try btc spt t i))) = t" for i
    by (simp add: spt_try_def Let_def split: if_splits prod.splits)
  then show ?thesis using assms
    by (auto simp: can_update_spt_v4_8_def spt_better_def split: if_splits) (metis fst_conv snd_conv)+
qed

definition tseg_lo :: "can_bittiming_const \<Rightarrow> u32" where
  "tseg_lo btc = (tseg1_min btc + tseg2_min btc) * 2"

definition tseg_hi :: "can_bittiming_const \<Rightarrow> u32" where
  "tseg_hi btc = (tseg1_max btc + tseg2_max btc) * 2 + 1"

lemma tseg_bounds:
  assumes "wf_btc btc"
  shows "unat (tseg_lo btc) = (unat (tseg1_min btc) + unat (tseg2_min btc)) * 2"
    and "unat (tseg_hi btc) = (unat (tseg1_max btc) + unat (tseg2_max btc)) * 2 + 1"
    and "4 \<le> unat (tseg_lo btc)" "unat (tseg_hi btc) \<le> 1537"
  using assms by (simp_all add: wf_btc_def tseg_lo_def tseg_hi_def unat_word_ariths)

text \<open>The bit rates for which no product of the search vanishes.\<close>

definition wf_bitrate :: "u32 \<Rightarrow> bool" where
  "wf_bitrate b \<longleftrightarrow> \<not> 8388608 dvd unat b \<and> unat b \<le> 84000000"

lemma tsegall_bound:
  assumes "unat (t :: u32) \<le> 1537"
  shows "unat (1 + t div 2) = 1 + unat t div 2"
proof -
  have "unat t div 2 < 4294967295" using assms by simp
  then show ?thesis by (simp add: unat_word_ariths unat_half)
qed

lemma products_not_0:
  assumes "wf_btc btc" "wf_bitrate b" "unat t \<le> 1537"
  shows "(1 + t div 2) * b \<noteq> 0" "brp_inc btc \<noteq> 0"
    and "usable freq b btc t \<Longrightarrow> brp_at freq b btc t * (1 + t div 2) \<noteq> 0"
proof -
  have t: "unat (1 + t div 2) = 1 + unat t div 2" by (rule tsegall_bound) fact
  show "(1 + t div 2) * b \<noteq> 0"
  proof
    assume "(1 + t div 2) * b = 0"
    from word_mult_eq_0_dvd [OF this, of 9] have "2 ^ 23 dvd unat b" using t assms(3) by simp
    then show False using assms(2) by (simp add: wf_bitrate_def)
  qed
  show "brp_inc btc \<noteq> 0" using assms(1) by (auto simp: wf_btc_def)
  show "brp_at freq b btc t * (1 + t div 2) \<noteq> 0" if "usable freq b btc t"
  proof -
    have brp: "1 \<le> unat (brp_at freq b btc t)" "unat (brp_at freq b btc t) \<le> 8192"
      using that assms(1) by (auto simp: usable_def wf_btc_def word_le_nat_alt)
    have "unat (brp_at freq b btc t) * unat (1 + t div 2) \<le> 8192 * 769"
      using brp t assms(3) by (intro mult_le_mono) auto
    then have "unat (brp_at freq b btc t * (1 + t div 2)) = unat (brp_at freq b btc t) * unat (1 + t div 2)"
      by (intro word_mult_small) simp
    with brp t have "unat (brp_at freq b btc t * (1 + t div 2)) \<noteq> 0" by simp
    then show ?thesis by (metis unat_0)
  qed
qed

text \<open>The body of the loop without its divisions.\<close>

definition try_tseg :: "u32 \<Rightarrow> u32 \<Rightarrow> can_bittiming_const \<Rightarrow> u32 \<Rightarrow> u32 \<Rightarrow> calc_state \<Rightarrow> bool \<times> calc_state" where
  "try_tseg freq b btc spt t s =
     (let re = rate_error_at freq b btc t; se = spt_error_at btc spt t;
          segs = snd (snd (can_update_spt_v4_8 btc spt (t div 2) (cs_tseg1 s, cs_tseg2 s)));
          best = (if re < cs_best_rate_error s then UINT_MAX else cs_best_spt_error s);
          s' = s\<lparr>cs_best_spt_error := best, cs_tseg1 := fst segs, cs_tseg2 := snd segs\<rparr> in
      if \<not> usable freq b btc t \<or> re > cs_best_rate_error s then (False, s)
      else if se > best then (False, s')
      else (re = 0 \<and> se = 0, s'\<lparr>cs_best_spt_error := se, cs_best_rate_error := re,
              cs_best_tseg := t div 2, cs_best_brp := brp_at freq b btc t\<rparr>))"

lemma calc_step_try:
  assumes "wf_btc btc" "wf_bitrate b" "unat t \<le> 1537"
  shows "calc_step_v4_8 freq b btc spt t s = Some (try_tseg freq b btc spt t s)"
proof -
  obtain p e t1 t2 where u: "can_update_spt_v4_8 btc spt (t div 2) (cs_tseg1 s, cs_tseg2 s) = (p, e, t1, t2)"
    by (metis prod_cases4)
  then have e: "e = spt_error_at btc spt t"
    using update_spt_error [of btc spt "t div 2" "(cs_tseg1 s, cs_tseg2 s)"] by (simp add: spt_error_at_def)
  have brp: "(freq div ((1 + t div 2) * b) + t mod 2) div brp_inc btc * brp_inc btc = brp_at freq b btc t"
    by (simp add: brp_at_def)
  note nz = products_not_0(1,2) [OF assms]
  show ?thesis
  proof (cases "usable freq b btc t")
    case True
    then show ?thesis using nz products_not_0(3) [OF assms True] u e
      by (simp add: calc_step_v4_8_def try_tseg_def udiv_def Let_def brp rate_error_at_def [symmetric])
        (auto simp: usable_def)
  next
    case False
    then have "brp_at freq b btc t < brp_min btc \<or> brp_at freq b btc t > brp_max btc"
      by (auto simp: usable_def not_le)
    with False show ?thesis using nz by (simp add: calc_step_v4_8_def try_tseg_def udiv_def Let_def brp)
  qed
qed

section \<open>Version 4.8: the search\<close>

definition lex_le :: "u32 \<Rightarrow> u32 \<Rightarrow> can_bittiming_const \<Rightarrow> u32 \<Rightarrow> u32 \<Rightarrow> u32 \<Rightarrow> bool" where
  "lex_le freq b btc spt c t \<longleftrightarrow>
     rate_error_at freq b btc c < rate_error_at freq b btc t \<or>
     rate_error_at freq b btc c = rate_error_at freq b btc t \<and> spt_error_at btc spt c \<le> spt_error_at btc spt t"

definition is_best :: "u32 \<Rightarrow> u32 \<Rightarrow> can_bittiming_const \<Rightarrow> u32 \<Rightarrow> u32 set \<Rightarrow> u32 \<Rightarrow> bool" where
  "is_best freq b btc spt T c \<longleftrightarrow>
     c \<in> T \<and> usable freq b btc c \<and> (\<forall>t\<in>T. usable freq b btc t \<longrightarrow> lex_le freq b btc spt c t)"

definition best_of :: "u32 \<Rightarrow> u32 \<Rightarrow> can_bittiming_const \<Rightarrow> u32 \<Rightarrow> u32 set \<Rightarrow> calc_state \<Rightarrow> bool" where
  "best_of freq b btc spt T s \<longleftrightarrow>
     ((\<forall>t\<in>T. \<not> usable freq b btc t) \<and> cs_best_rate_error s = UINT_MAX \<and> cs_best_spt_error s = UINT_MAX \<or>
      (\<exists>c. is_best freq b btc spt T c \<and> cs_best_brp s = brp_at freq b btc c \<and> cs_best_tseg s = c div 2 \<and>
         cs_best_rate_error s = rate_error_at freq b btc c \<and> cs_best_spt_error s = spt_error_at btc spt c)) \<and>
     unat (cs_tseg1 s + cs_tseg2 s) \<le> 768"

lemma rate_error_less: "rate_error_at freq b btc t < UINT_MAX"
  by (simp add: rate_error_at_def abs_u32_less)

lemma try_tseg_segs:
  assumes "try_tseg freq b btc spt t s = (brk, s')" "unat t \<le> 1537" "unat (cs_tseg1 s + cs_tseg2 s) \<le> 768"
  shows "unat (cs_tseg1 s' + cs_tseg2 s') \<le> 768"
proof -
  obtain p e t1 t2 where u: "can_update_spt_v4_8 btc spt (t div 2) (cs_tseg1 s, cs_tseg2 s) = (p, e, t1, t2)"
    by (metis prod_cases4)
  have "unat (t1 + t2) \<le> 768"
    using update_spt_segs [OF u] assms(2,3) unat_half [of t] by auto
  then show ?thesis using assms(1,3) u by (auto simp: try_tseg_def Let_def split: if_splits)
qed

lemma try_tseg_best:
  assumes "best_of freq b btc spt T s" "try_tseg freq b btc spt t s = (brk, s')" "unat t \<le> 1537"
  shows "best_of freq b btc spt (insert t T) s'"
    and "brk \<Longrightarrow> cs_best_rate_error s' = 0 \<and> cs_best_spt_error s' = 0"
proof -
  have segs: "unat (cs_tseg1 s' + cs_tseg2 s') \<le> 768"
    using try_tseg_segs [OF assms(2,3)] assms(1) by (simp add: best_of_def)
  let ?re = "rate_error_at freq b btc" and ?se = "spt_error_at btc spt"
  have max: "\<not> (?se t > UINT_MAX)"
    using word_order.extremum [of "?se t"] unfolding minus_1_u32 not_less .
  consider (skip) "\<not> usable freq b btc t" "s' = s" "\<not> brk"
    | (worse) "?re t > cs_best_rate_error s" "s' = s" "\<not> brk"
    | (spt) "?re t = cs_best_rate_error s" "?se t > cs_best_spt_error s" "cs_best_spt_error s' = cs_best_spt_error s"
        "cs_best_rate_error s' = cs_best_rate_error s" "cs_best_brp s' = cs_best_brp s" "cs_best_tseg s' = cs_best_tseg s" "\<not> brk"
    | (new) "usable freq b btc t" "?re t < cs_best_rate_error s \<or> ?re t = cs_best_rate_error s \<and> ?se t \<le> cs_best_spt_error s"
        "cs_best_spt_error s' = ?se t" "cs_best_rate_error s' = ?re t" "cs_best_brp s' = brp_at freq b btc t"
        "cs_best_tseg s' = t div 2" "brk \<longleftrightarrow> ?re t = 0 \<and> ?se t = 0"
  proof (cases "usable freq b btc t \<and> ?re t \<le> cs_best_rate_error s")
    case False
    then have not: "\<not> usable freq b btc t \<or> ?re t > cs_best_rate_error s" by (auto simp: not_le)
    then have "try_tseg freq b btc spt t s = (False, s)" by (simp add: try_tseg_def)
    with assms(2) have "s' = s" "\<not> brk" by simp_all
    with not skip worse show thesis by blast
  next
    case True
    then have r: "usable freq b btc t" "\<not> cs_best_rate_error s < ?re t" by auto
    have sb: "brk = fst (try_tseg freq b btc spt t s)" "s' = snd (try_tseg freq b btc spt t s)"
      using assms(2) by simp_all
    show thesis
    proof (cases "?re t < cs_best_rate_error s")
      case less: True
      show thesis by (rule new) (use r less max in \<open>simp_all add: sb try_tseg_def Let_def\<close>)
    next
      case nless: False
      with True have eq: "?re t = cs_best_rate_error s" by simp
      show thesis
      proof (cases "?se t > cs_best_spt_error s")
        case spt_worse: True
        show thesis by (rule spt) (use r nless eq spt_worse in \<open>simp_all add: sb try_tseg_def Let_def\<close>)
      next
        case spt_better: False
        show thesis by (rule new) (use r nless eq spt_better in \<open>simp_all add: sb try_tseg_def Let_def\<close>)
      qed
    qed
  qed
  then have "best_of freq b btc spt (insert t T) s' \<and> (brk \<longrightarrow> cs_best_rate_error s' = 0 \<and> cs_best_spt_error s' = 0)"
  proof cases
    case skip
    then show ?thesis using assms(1) by (auto simp: best_of_def is_best_def)
  next
    case worse
    then show ?thesis using assms(1) rate_error_less [of freq b btc t] by (auto simp: best_of_def is_best_def lex_le_def)
  next
    case spt
    then show ?thesis using assms(1) segs rate_error_less [of freq b btc t]
      by (auto simp: best_of_def is_best_def lex_le_def)
  next
    case new
    have "is_best freq b btc spt (insert t T) t"
      using new assms(1) by (auto simp: best_of_def is_best_def lex_le_def)
    then show ?thesis using new segs unfolding best_of_def by auto
  qed
  then show "best_of freq b btc spt (insert t T) s'" "brk \<Longrightarrow> cs_best_rate_error s' = 0 \<and> cs_best_spt_error s' = 0"
    by auto
qed

abbreviation above :: "u32 \<Rightarrow> can_bittiming_const \<Rightarrow> u32 set" where
  "above t btc \<equiv> {x. unat t < unat x \<and> unat x \<le> unat (tseg_hi btc)}"

abbreviation tsegs :: "can_bittiming_const \<Rightarrow> u32 set" where
  "tsegs btc \<equiv> {tseg_lo btc..tseg_hi btc}"

lemma above_pred:
  assumes "0 < unat t" "unat t \<le> unat (tseg_hi btc)"
  shows "above (t - 1) btc = insert t (above t btc)"
proof -
  have "unat (t - 1) = unat t - 1" using assms(1) by (intro unat_minus_one) (metis less_not_refl unat_0)
  then show ?thesis using assms by (auto simp: word_unat_eq_iff)
qed

lemma best_zero_all:
  assumes "best_of freq b btc spt T s" "cs_best_rate_error s = 0" "cs_best_spt_error s = 0" "T \<subseteq> T'"
  shows "best_of freq b btc spt T' s"
proof -
  from assms(1-3) obtain c where c: "is_best freq b btc spt T c" "cs_best_brp s = brp_at freq b btc c"
    "cs_best_tseg s = c div 2" "rate_error_at freq b btc c = 0" "spt_error_at btc spt c = 0"
    by (auto simp: best_of_def)
  then have "is_best freq b btc spt T' c"
    using assms(4) by (auto simp: is_best_def lex_le_def word_gt_0)
  with c assms(1-3) show ?thesis unfolding best_of_def by auto
qed

lemma calc_loop_best:
  assumes "wf_btc btc" "wf_bitrate b" "best_of freq b btc spt (above t btc) s"
    and "unat (tseg_lo btc) \<le> unat t + 1" "unat t \<le> unat (tseg_hi btc)"
  shows "\<exists>s'. calc_loop_v4_8 freq b btc spt t s = Some s' \<and> best_of freq b btc spt (tsegs btc) s'"
  using assms(3-)
proof (induction "unat t" arbitrary: t s rule: less_induct)
  case less
  note tb = tseg_bounds [OF assms(1)]
  show ?case
  proof (cases "tseg_lo btc \<le> t")
    case False
    then have "above t btc = tsegs btc" using less.prems(2) by (auto simp: word_le_nat_alt)
    with False less.prems show ?thesis
      by (subst calc_loop_v4_8.simps) (simp add: tseg_lo_def)
  next
    case True
    then have t: "0 < unat t" "unat t \<le> 1537" "unat (tseg_lo btc) \<le> unat t"
      using tb less.prems(3) by (auto simp: word_le_nat_alt)
    obtain brk s' where step: "try_tseg freq b btc spt t s = (brk, s')" by (cases "try_tseg freq b btc spt t s")
    note best = try_tseg_best [OF less.prems(1) step t(2)]
    have loop: "calc_loop_v4_8 freq b btc spt t s =
        (if brk then Some s' else calc_loop_v4_8 freq b btc spt (t - 1) s')"
      using True calc_step_try [OF assms(1,2) t(2), of freq spt s] step
      by (subst calc_loop_v4_8.simps) (simp add: tseg_lo_def)
    show ?thesis
    proof (cases brk)
      case True
      have "insert t (above t btc) \<subseteq> tsegs btc"
        using t less.prems(3) by (auto simp: word_le_nat_alt)
      with True best loop show ?thesis using best_zero_all by auto
    next
      case False
      have p: "unat (t - 1) = unat t - 1" using t(1) by (intro unat_minus_one) (metis less_not_refl unat_0)
      have "best_of freq b btc spt (above (t - 1) btc) s'"
        using best(1) above_pred [OF t(1) less.prems(3)] by simp
      from less.hyps [OF _ this] p t less.prems(3) False loop show ?thesis by simp
    qed
  qed
qed

text \<open>The state at the start, and what the search leaves.\<close>

abbreviation calc_start :: calc_state where
  "calc_start \<equiv> \<lparr>cs_best_rate_error = UINT_MAX, cs_best_spt_error = UINT_MAX, cs_best_tseg = 0,
     cs_best_brp = 0, cs_tseg1 = 0, cs_tseg2 = 0\<rparr>"

lemma calc_loop_start:
  assumes "wf_btc btc" "wf_bitrate b"
  obtains s where "calc_loop_v4_8 freq b btc spt ((tseg1_max btc + tseg2_max btc) * 2 + 1) calc_start = Some s"
    and "best_of freq b btc spt (tsegs btc) s"
proof -
  have "best_of freq b btc spt (above (tseg_hi btc) btc) calc_start" by (auto simp: best_of_def)
  moreover have "unat (tseg_lo btc) \<le> unat (tseg_hi btc) + 1"
    using tseg_bounds [OF assms(1)] assms(1) by (auto simp: wf_btc_def)
  ultimately show thesis
    using calc_loop_best [OF assms, of freq spt "tseg_hi btc" calc_start] that by (auto simp: tseg_hi_def)
qed

lemma no_choice_error:
  assumes "wf_bitrate b"
  shows "b \<noteq> 0" "CAN_CALC_MAX_ERROR < UINT_MAX * 1000 div b"
proof -
  have b: "unat b \<noteq> 0" "unat b \<le> 84000000" using assms by (auto simp: wf_bitrate_def intro: ccontr)
  then show "b \<noteq> 0" by auto
  have "UINT_MAX * 1000 = (4294966296 :: u32)" by simp
  then have "unat (UINT_MAX * 1000 div b) = 4294966296 div unat b" by (simp add: unat_div)
  moreover have "51 \<le> 4294966296 div unat b" using b by (simp add: less_eq_div_iff_mult_less_eq)
  ultimately show "CAN_CALC_MAX_ERROR < UINT_MAX * 1000 div b" by (simp add: word_less_nat_alt)
qed

text \<open>What the function returns, in terms of the best choice.\<close>

definition calc_result :: "u32 \<Rightarrow> can_bittiming \<Rightarrow> can_bittiming_const \<Rightarrow> u32 \<Rightarrow> u32 \<times> u32 \<Rightarrow> can_bittiming" where
  "calc_result freq bt btc c segs =
     (let (spt, e, tseg1, tseg2) = can_update_spt_v4_8 btc (nominal_sample_point bt) (c div 2) segs;
          brp = brp_at freq (bt_bitrate bt) btc c in
      bt\<lparr>bt_sample_point := spt, bt_tq := ucast (ucast brp * 1000 * 1000 * 1000 div ucast freq :: u64),
         bt_prop_seg := tseg1 div 2, bt_phase_seg1 := tseg1 - tseg1 div 2, bt_phase_seg2 := tseg2,
         bt_sjw := calc_sjw btc (bt_sjw bt) tseg2, bt_brp := brp,
         bt_bitrate := freq div (brp * (1 + tseg1 + tseg2))\<rparr>)"

lemma calc_v4_8_cases:
  assumes "wf_btc btc" "wf_bitrate (bt_bitrate bt)" "freq \<noteq> 0"
  obtains (none) "\<forall>t\<in>tsegs btc. \<not> usable freq (bt_bitrate bt) btc t" "can_calc_bittiming_v4_8 freq bt btc = Some (- EDOM, bt)"
  | (far) c where "is_best freq (bt_bitrate bt) btc (nominal_sample_point bt) (tsegs btc) c"
      "rate_error_at freq (bt_bitrate bt) btc c * 1000 div bt_bitrate bt > CAN_CALC_MAX_ERROR"
      "can_calc_bittiming_v4_8 freq bt btc = Some (- EDOM, bt)"
  | (found) c segs where "is_best freq (bt_bitrate bt) btc (nominal_sample_point bt) (tsegs btc) c"
      "rate_error_at freq (bt_bitrate bt) btc c * 1000 div bt_bitrate bt \<le> CAN_CALC_MAX_ERROR"
      "can_calc_bittiming_v4_8 freq bt btc = Some (0, calc_result freq bt btc c segs)"
proof -
  let ?b = "bt_bitrate bt" and ?spt = "nominal_sample_point bt"
  obtain s where loop: "calc_loop_v4_8 freq ?b btc ?spt ((tseg1_max btc + tseg2_max btc) * 2 + 1) calc_start = Some s"
    and best: "best_of freq ?b btc ?spt (tsegs btc) s"
    by (rule calc_loop_start [OF assms(1,2)])
  have b0: "?b \<noteq> 0" using no_choice_error(1) [OF assms(2)] .
  from best consider (none) "\<forall>t\<in>tsegs btc. \<not> usable freq ?b btc t" "cs_best_rate_error s = UINT_MAX"
    | (c) c where "is_best freq ?b btc ?spt (tsegs btc) c" "cs_best_brp s = brp_at freq ?b btc c"
        "cs_best_tseg s = c div 2" "cs_best_rate_error s = rate_error_at freq ?b btc c"
    unfolding best_of_def by blast
  then show thesis
  proof cases
    case none
    have "can_calc_bittiming_v4_8 freq bt btc = Some (- EDOM, bt)"
      using loop none(2) b0 no_choice_error(2) [OF assms(2)] by (simp add: can_calc_bittiming_v4_8_def udiv_def)
    with none(1) that(1) show thesis by blast
  next
    case c
    define e where "e = rate_error_at freq ?b btc c"
    have ce: "cs_best_rate_error s = e" using c(4) by (simp add: e_def)
    show thesis
    proof (cases "e * 1000 div ?b > CAN_CALC_MAX_ERROR")
      case True
      then have "e \<noteq> 0" by auto
      then have "can_calc_bittiming_v4_8 freq bt btc = Some (- EDOM, bt)"
        using loop ce b0 True by (simp add: can_calc_bittiming_v4_8_def udiv_def)
      with True c(1) that(2) show thesis by (simp add: e_def)
    next
      case False
      obtain p er t1 t2 where u: "can_update_spt_v4_8 btc ?spt (c div 2) (cs_tseg1 s, cs_tseg2 s) = (p, er, t1, t2)"
        by (metis prod_cases4)
      have c': "usable freq ?b btc c" "unat c \<le> 1537"
        using c(1) tseg_bounds [OF assms(1)] by (auto simp: is_best_def word_le_nat_alt)
      have "unat (t1 + t2) \<le> 768"
        using update_spt_segs [OF u] best c'(2) unat_half [of c] by (auto simp: best_of_def)
      then have all: "unat (1 + (t1 + t2)) = 1 + unat (t1 + t2)" "unat (1 + (t1 + t2)) \<le> 769"
        by (simp_all add: unat_word_ariths)
      have brp: "1 \<le> unat (brp_at freq ?b btc c)" "unat (brp_at freq ?b btc c) \<le> 8192"
        using c'(1) assms(1) by (auto simp: usable_def wf_btc_def word_le_nat_alt)
      have "unat (brp_at freq ?b btc c) * unat (1 + (t1 + t2)) \<le> 8192 * 769"
        using brp all by (intro mult_le_mono) auto
      then have "unat (brp_at freq ?b btc c * (1 + (t1 + t2))) = unat (brp_at freq ?b btc c) * unat (1 + (t1 + t2))"
        by (intro word_mult_small) simp
      then have "brp_at freq ?b btc c * (1 + t1 + t2) \<noteq> 0"
        using brp all by (auto simp: add.assoc)
      then have "can_calc_bittiming_v4_8 freq bt btc = Some (0, calc_result freq bt btc c (cs_tseg1 s, cs_tseg2 s))"
        using loop c(2,3) ce b0 False u assms(3)
        by (cases "e = 0") (simp_all add: can_calc_bittiming_v4_8_def udiv_def do_div_def calc_result_def Let_def)
      with False c(1) that(3) show thesis by (simp add: e_def)
    qed
  qed
qed

lemma calc_result_fields [simp]:
  "bt_brp (calc_result freq bt btc c segs) = brp_at freq (bt_bitrate bt) btc c"
  "bt_tq (calc_result freq bt btc c segs) =
     ucast (ucast (brp_at freq (bt_bitrate bt) btc c) * 1000 * 1000 * 1000 div ucast freq :: u64)"
  by (simp_all add: calc_result_def Let_def split: prod.splits)

text \<open>A segment split that meets the sample point is a split of the chosen number of quanta.\<close>

lemma spt_try_sum:
  "fst (snd (snd (spt_try btc spt t i))) + snd (snd (snd (spt_try btc spt t i))) = t"
  by (simp add: spt_try_def Let_def split: if_splits prod.splits)

lemma spt_try_point:
  assumes "spt_try btc spt t i = (p, e, t1, t2)"
  shows "p = 1000 * (t + 1 - t2) div (t + 1)"
  using assms by (auto simp: spt_try_def Let_def split: if_splits prod.splits)

lemma update_spt_point:
  assumes "can_update_spt_v4_8 btc spt t segs = (p, e, t1, t2)" "p \<noteq> 0"
  shows "t1 + t2 = t" "p = (1 + t1) * 1000 div (1 + t1 + t2)"
proof -
  from assms obtain i where i: "spt_try btc spt t i = (p, e, t1, t2)"
    by (auto simp: can_update_spt_v4_8_def spt_better_def split: if_splits)
  then show sum: "t1 + t2 = t" using spt_try_sum [of btc spt t i] by simp
  have "t + 1 - t2 = 1 + t1" "t + 1 = 1 + t1 + t2" using sum by (auto simp: algebra_simps)
  then show "p = (1 + t1) * 1000 div (1 + t1 + t2)"
    using spt_try_point [OF i] by (simp add: ac_simps)
qed

section \<open>Fix-up\<close>

definition in_limits :: "can_bittiming \<Rightarrow> can_bittiming_const \<Rightarrow> bool" where
  "in_limits bt btc \<longleftrightarrow>
     bt_sjw bt \<le> sjw_max btc \<and> tseg1_min btc \<le> tseg1_of bt \<and> tseg1_of bt \<le> tseg1_max btc \<and>
     tseg2_min btc \<le> bt_phase_seg2 bt \<and> bt_phase_seg2 bt \<le> tseg2_max btc"

text \<open>The number of quanta of a bit, as the fix-up adds them up.\<close>

definition quanta :: "can_bittiming \<Rightarrow> nat" where
  "quanta bt = 1 + unat (tseg1_of bt) + unat (bt_phase_seg2 bt)"

lemma quanta_word:
  assumes "wf_btc btc" "in_limits bt btc"
  shows "unat (1 + bt_prop_seg bt + bt_phase_seg1 bt + bt_phase_seg2 bt) = quanta bt" "quanta bt \<le> 769"
    and "unat (1 + tseg1_of bt) = 1 + unat (tseg1_of bt)" "unat (tseg1_of bt) \<le> 512"
proof -
  have b: "unat (tseg1_of bt) \<le> 512" "unat (bt_phase_seg2 bt) \<le> 256"
    using assms by (auto simp: wf_btc_def in_limits_def word_le_nat_alt)
  show "unat (tseg1_of bt) \<le> 512" "quanta bt \<le> 769" using b by (auto simp: quanta_def)
  show s1: "unat (1 + tseg1_of bt) = 1 + unat (tseg1_of bt)"
    using b by (subst unat_word_ariths) simp
  have "1 + bt_prop_seg bt + bt_phase_seg1 bt + bt_phase_seg2 bt = (1 + tseg1_of bt) + bt_phase_seg2 bt"
    by simp
  then show "unat (1 + bt_prop_seg bt + bt_phase_seg1 bt + bt_phase_seg2 bt) = quanta bt"
    using b s1 by (simp only: unat_word_ariths(1) [of "1 + tseg1_of bt"]) (simp add: quanta_def)
qed

text \<open>The fix-up of parameters that give the prescaler and the jump width.\<close>

lemma fixup_value:
  assumes "wf_btc btc" "freq \<noteq> 0" "bt_sjw bt \<noteq> 0" "bt_brp bt \<noteq> 0"
  shows "can_fixup_bittiming freq bt btc =
    (let bt' = bt\<lparr>bt_tq := ucast (ucast (bt_brp bt * 1000 * 1000 * 1000) div ucast freq :: u64)\<rparr> in
     if \<not> in_limits bt btc then Some (- ERANGE, bt)
     else if bt_brp bt < brp_min btc \<or> bt_brp bt > brp_max btc then Some (- EINVAL, bt')
     else Some (0, bt'\<lparr>bt_bitrate := freq div (bt_brp bt * (1 + bt_prop_seg bt + bt_phase_seg1 bt + bt_phase_seg2 bt)),
       bt_sample_point := (1 + tseg1_of bt) * 1000 div (1 + bt_prop_seg bt + bt_phase_seg1 bt + bt_phase_seg2 bt)\<rparr>))"
proof (cases "in_limits bt btc \<and> \<not> (bt_brp bt < brp_min btc \<or> bt_brp bt > brp_max btc)")
  case False
  then show ?thesis using assms(2-4)
    by (auto simp: can_fixup_bittiming_def in_limits_def Let_def do_div_def not_le)
next
  case True
  let ?all = "1 + bt_prop_seg bt + bt_phase_seg1 bt + bt_phase_seg2 bt"
  note q = quanta_word [OF assms(1) conjunct1 [OF True]]
  have brp: "1 \<le> unat (bt_brp bt)" "unat (bt_brp bt) \<le> 8192"
    using True assms(1) by (auto simp: wf_btc_def word_le_nat_alt word_less_nat_alt)
  have "unat (bt_brp bt) * unat ?all \<le> 8192 * 769" using brp q(1,2) by (intro mult_le_mono) auto
  then have "unat (bt_brp bt * ?all) = unat (bt_brp bt) * unat ?all" by (intro word_mult_small) simp
  moreover have "unat ?all \<noteq> 0" using q(1) by (simp add: quanta_def)
  ultimately have "bt_brp bt * ?all \<noteq> 0" "?all \<noteq> 0" using brp by auto
  then show ?thesis using True assms(2-4)
    by (simp add: can_fixup_bittiming_def in_limits_def Let_def do_div_def udiv_def not_less not_le [symmetric])
qed

abbreviation bit_quanta :: "can_bittiming \<Rightarrow> u32" where
  "bit_quanta bt \<equiv> 1 + bt_prop_seg bt + bt_phase_seg1 bt + bt_phase_seg2 bt"

abbreviation fixup_tq :: "u32 \<Rightarrow> u32 \<Rightarrow> u32" where
  "fixup_tq freq brp \<equiv> ucast (ucast (brp * 1000 * 1000 * 1000) div ucast freq :: u64)"

lemma fixup_ok:
  assumes "wf_btc btc" "freq \<noteq> 0" "bt_sjw bt \<noteq> 0" "bt_brp bt \<noteq> 0" "in_limits bt btc"
    and "\<not> (bt_brp bt < brp_min btc \<or> bt_brp bt > brp_max btc)"
  shows "can_fixup_bittiming freq bt btc =
    Some (0, bt\<lparr>bt_tq := fixup_tq freq (bt_brp bt), bt_bitrate := freq div (bt_brp bt * bit_quanta bt),
      bt_sample_point := (1 + tseg1_of bt) * 1000 div bit_quanta bt\<rparr>)"
  unfolding fixup_value [OF assms(1-4)] Let_def using assms(5,6) by simp

section \<open>Properties\<close>

definition wf_controller :: "calc_bittiming_const \<Rightarrow> bool" where
  "wf_controller c \<longleftrightarrow>
     btc_name (bittiming_const c) \<noteq> [] \<and> wf_btc (bittiming_const c) \<and>
     (btc_name (data_bittiming_const c) = [] \<or> wf_btc (data_bittiming_const c)) \<and>
     list_all (\<lambda>clk. fst clk \<noteq> 0) (ref_clk c) \<and> length (ref_clk c) < 16"


text \<open>C19: for a controller with well-formed limits, a clock and a bit rate up to 84 MHz that is no
  multiple of \<open>2 ^ 23\<close>, the search of version 4.8 ends without a division by zero, either with a
  result or with \<open>-EDOM\<close> and the bit timing unchanged.\<close>

theorem calc_v4_8_returns:
  assumes "wf_btc btc" "wf_bitrate (bt_bitrate bt)" "freq \<noteq> 0"
  shows "(\<exists>bt'. can_calc_bittiming_v4_8 freq bt btc = Some (0, bt')) \<or>
    can_calc_bittiming_v4_8 freq bt btc = Some (- EDOM, bt)"
  using assms by (rule calc_v4_8_cases) auto

abbreviation sja1000 :: can_bittiming_const where
  "sja1000 \<equiv> bittiming_const cc_sja1000"

abbreviation request :: "u32 \<Rightarrow> u32 \<Rightarrow> can_bittiming" where
  "request b spt \<equiv> \<lparr>bt_bitrate = b, bt_sample_point = spt, bt_tq = 0, bt_prop_seg = 0, bt_phase_seg1 = 0,
     bt_phase_seg2 = 0, bt_sjw = 0, bt_brp = 0\<rparr>"

lemma wf_sja1000: "wf_btc sja1000"
  by (simp add: wf_btc_def cc_sja1000_def)

theorem calc_v4_8_returns_witness:
  "(\<exists>bt'. can_calc_bittiming_v4_8 8000000 (request 500000 0) sja1000 = Some (0, bt')) \<or>
    can_calc_bittiming_v4_8 8000000 (request 500000 0) sja1000 = Some (- EDOM, request 500000 0)"
  using calc_v4_8_returns [of sja1000 "request 500000 0" 8000000] wf_sja1000
  by (simp add: wf_bitrate_def)



text \<open>C20: version 4.8 succeeds whenever some usable choice is within five percent of the bit rate.\<close>

theorem calc_v4_8_complete:
  assumes "wf_btc btc" "wf_bitrate (bt_bitrate bt)" "freq \<noteq> 0"
    and "t \<in> tsegs btc" "usable freq (bt_bitrate bt) btc t"
    and "20 * unat (rate_error_at freq (bt_bitrate bt) btc t) \<le> unat (bt_bitrate bt)"
  shows "\<exists>bt'. can_calc_bittiming_v4_8 freq bt btc = Some (0, bt')"
  using assms(1-3)
proof (cases rule: calc_v4_8_cases)
  case none
  then show ?thesis using assms(4,5) by blast
next
  case (far c)
  let ?b = "bt_bitrate bt"
  let ?e = "rate_error_at freq ?b btc c"
  have "unat ?e \<le> unat (rate_error_at freq ?b btc t)"
    using far(1) assms(4,5) by (auto simp: is_best_def lex_le_def word_le_nat_alt word_less_nat_alt)
  then have e: "20 * unat ?e \<le> unat ?b" "unat ?b \<le> 84000000" "0 < unat ?b"
    using assms(2,6) no_choice_error(1) [OF assms(2)] by (auto simp: wf_bitrate_def unat_gt_0)
  then have "unat (?e * 1000) = unat ?e * 1000" by (simp add: unat_word_ariths)
  then have "unat (?e * 1000 div ?b) = unat ?e * 1000 div unat ?b" by (simp add: unat_div)
  also have "\<dots> \<le> 50 * unat ?b div unat ?b" using e(1) by (intro div_le_mono) simp
  finally have "?e * 1000 div ?b \<le> CAN_CALC_MAX_ERROR" using e(3) by (simp add: word_le_nat_alt)
  with far(2) show ?thesis by simp
qed auto

theorem calc_v4_8_complete_witness:
  "\<exists>bt'. can_calc_bittiming_v4_8 8000000 (request 500000 875) sja1000 = Some (0, bt')"
proof -
  have "usable 8000000 500000 sja1000 30" "rate_error_at 8000000 500000 sja1000 30 = 0"
    by (code_simp, code_simp)
  then show ?thesis
    using calc_v4_8_complete [of sja1000 "request 500000 875" 8000000 30] wf_sja1000
    by (simp add: wf_bitrate_def tseg_lo_def tseg_hi_def cc_sja1000_def word_le_nat_alt)
qed

lemma calc_sjw_not_0: "wf_btc btc \<Longrightarrow> tseg2 \<noteq> 0 \<Longrightarrow> calc_sjw btc sjw tseg2 \<noteq> 0"
  by (auto simp: calc_sjw_def wf_btc_def Let_def)

text \<open>The fix-up confirms what version 4.8 calculates: given a result within the limits of the controller,
  it finds the same bit rate, sample point and prescaler, and replaces only the time quantum.\<close>

lemma calc_fixup_agree:
  assumes "wf_btc btc" "wf_bitrate (bt_bitrate bt)" "freq \<noteq> 0"
    and "can_calc_bittiming_v4_8 freq bt btc = Some (0, bt')" "bt_sample_point bt' \<noteq> 0" "in_limits bt' btc"
  shows "can_fixup_bittiming freq bt' btc =
    Some (0, bt'\<lparr>bt_tq := ucast (ucast (bt_brp bt' * 1000 * 1000 * 1000) div ucast freq :: u64)\<rparr>)"
  using assms(1-3)
proof (cases rule: calc_v4_8_cases)
  case (found c segs)
  then have bt': "bt' = calc_result freq bt btc c segs" using assms(4) by simp
  obtain p e t1 t2 where u: "can_update_spt_v4_8 btc (nominal_sample_point bt) (c div 2) segs = (p, e, t1, t2)"
    by (metis prod_cases4)
  have f: "bt_sample_point bt' = p" "bt_prop_seg bt' = t1 div 2" "bt_phase_seg1 bt' = t1 - t1 div 2"
    "bt_phase_seg2 bt' = t2" "bt_sjw bt' = calc_sjw btc (bt_sjw bt) t2"
    "bt_bitrate bt' = freq div (bt_brp bt' * (1 + t1 + t2))"
    by (simp_all add: bt' calc_result_def u Let_def)
  have t2: "t2 \<noteq> 0" using assms(1,6) f(4) by (auto simp: in_limits_def wf_btc_def word_le_nat_alt)
  have p: "p = (1 + t1) * 1000 div (1 + t1 + t2)" using update_spt_point(2) [OF u] assms(5) f(1) by simp
  have brp: "\<not> (bt_brp bt' < brp_min btc \<or> bt_brp bt' > brp_max btc)" "bt_brp bt' \<noteq> 0"
    using found(1) assms(1) by (auto simp: bt' is_best_def usable_def wf_btc_def word_le_nat_alt word_less_nat_alt)
  have all: "bit_quanta bt' = 1 + t1 + t2" "tseg1_of bt' = t1" using f by simp_all
  have "bt_sjw bt' \<noteq> 0" using calc_sjw_not_0 [OF assms(1) t2] f(5) by simp
  from fixup_ok [OF assms(1,3) this brp(2) assms(6) brp(1)]
  have "can_fixup_bittiming freq bt' btc =
      Some (0, bt'\<lparr>bt_tq := fixup_tq freq (bt_brp bt'), bt_bitrate := bt_bitrate bt', bt_sample_point := bt_sample_point bt'\<rparr>)"
    unfolding all f(1) p f(6) .
  then show ?thesis by simp
qed (use assms(4) in auto)

lemma fixup_tq_value:
  "unat (ucast (ucast (b * 1000 * 1000 * 1000 :: u32) div ucast (freq :: u32) :: u64) :: u32) =
   (unat b * 1000000000 mod 4294967296) div unat freq"
proof -
  have "unat (b * 1000 * 1000 * 1000) = unat b * 1000000000 mod 4294967296"
    by (simp add: unat_word_ariths mult.commute)
  moreover have "unat (ucast x :: u64) = unat x" for x :: u32
    by (simp add: unsigned_ucast_eq take_bit_nat_eq_self_iff less_trans [OF unat_u32_less])
  moreover have "unat (ucast y :: u32) = unat y mod 4294967296" for y :: u64
    by (simp add: unsigned_ucast_eq take_bit_eq_mod)
  moreover have "(m mod 4294967296) div n < 4294967296" for m n :: nat
    by (meson div_le_dividend le_less_trans mod_less_divisor zero_less_numeral)
  ultimately show ?thesis by (simp add: unat_div)
qed

text \<open>C23: the fix-up of complete parameters: -ERANGE when the jump width or a segment is out of range,
  -EINVAL when the prescaler is, and otherwise the exact bit rate and sample point of the parameters.\<close>

theorem fixup_spec:
  assumes "wf_btc btc" "freq \<noteq> 0" "bt_sjw bt \<noteq> 0" "bt_brp bt \<noteq> 0"
  shows "(if \<not> in_limits bt btc then can_fixup_bittiming freq bt btc = Some (- ERANGE, bt)
     else if bt_brp bt < brp_min btc \<or> bt_brp bt > brp_max btc
     then \<exists>tq. can_fixup_bittiming freq bt btc = Some (- EINVAL, bt\<lparr>bt_tq := tq\<rparr>)
     else \<exists>tq rate spt. can_fixup_bittiming freq bt btc = Some (0, bt\<lparr>bt_tq := tq, bt_bitrate := rate, bt_sample_point := spt\<rparr>) \<and>
       unat rate = unat freq div (unat (bt_brp bt) * quanta bt) \<and>
       unat spt = (1 + unat (tseg1_of bt)) * 1000 div quanta bt)"
proof (cases "in_limits bt btc \<and> \<not> (bt_brp bt < brp_min btc \<or> bt_brp bt > brp_max btc)")
  case False
  then show ?thesis using fixup_value [OF assms] by (auto simp: Let_def)
next
  case True
  let ?all = "1 + bt_prop_seg bt + bt_phase_seg1 bt + bt_phase_seg2 bt"
  note q = quanta_word [OF assms(1) conjunct1 [OF True]]
  have brp: "unat (bt_brp bt) \<le> 8192"
    using True assms(1) by (auto simp: wf_btc_def word_le_nat_alt word_less_nat_alt)
  have "unat (bt_brp bt) * unat ?all \<le> 8192 * 769" using brp q(1,2) by (intro mult_le_mono) auto
  then have "unat (bt_brp bt * ?all) = unat (bt_brp bt) * quanta bt" using q(1) by (subst word_mult_small) simp_all
  then have "unat (freq div (bt_brp bt * ?all)) = unat freq div (unat (bt_brp bt) * quanta bt)" by (simp add: unat_div)
  moreover have "unat ((1 + tseg1_of bt) * 1000) = (1 + unat (tseg1_of bt)) * 1000"
    using q(3,4) by (subst word_mult_small) simp_all
  then have "unat ((1 + tseg1_of bt) * 1000 div ?all) = (1 + unat (tseg1_of bt)) * 1000 div quanta bt"
    using q(1) by (simp only: unat_div)
  ultimately show ?thesis using True fixup_ok [OF assms] by (auto simp only: if_False not_True_eq_False)
qed

theorem fixup_spec_witness:
  "\<exists>tq rate spt. can_fixup_bittiming 8000000 \<lparr>bt_bitrate = 0, bt_sample_point = 0, bt_tq = 0, bt_prop_seg = 6,
       bt_phase_seg1 = 7, bt_phase_seg2 = 2, bt_sjw = 1, bt_brp = 1\<rparr> sja1000 = Some (0,
     \<lparr>bt_bitrate = rate, bt_sample_point = spt, bt_tq = tq, bt_prop_seg = 6, bt_phase_seg1 = 7, bt_phase_seg2 = 2,
       bt_sjw = 1, bt_brp = 1\<rparr>) \<and> unat rate = 500000 \<and> unat spt = 875"
  using fixup_spec [of sja1000 8000000 "\<lparr>bt_bitrate = 0, bt_sample_point = 0, bt_tq = 0, bt_prop_seg = 6,
       bt_phase_seg1 = 7, bt_phase_seg2 = 2, bt_sjw = 1, bt_brp = 1\<rparr>"] wf_sja1000
  by (simp add: in_limits_def cc_sja1000_def quanta_def word_le_nat_alt word_less_nat_alt)

text \<open>the time quantum that the fix-up stores is too small for every prescaler above four: the product with
  \<open>10 ^ 9\<close> is computed in 32 bits.\<close>

lemma fixup_tq_too_small:
  assumes "wf_btc btc" "freq \<noteq> 0" "bt_sjw bt \<noteq> 0" "5 \<le> unat (bt_brp bt)"
    and "can_fixup_bittiming freq bt btc = Some (0, bt')"
  shows "unat (bt_tq bt') < unat (bt_brp bt) * 1000000000 div unat freq"
proof -
  have "bt_brp bt \<noteq> 0" using assms(4) by auto
  then have "bt_tq bt' = ucast (ucast (bt_brp bt * 1000 * 1000 * 1000) div ucast freq :: u64)"
    using fixup_value [OF assms(1-3)] assms(5) by (auto simp: Let_def split: if_splits)
  then have tq: "unat (bt_tq bt') = (unat (bt_brp bt) * 1000000000 mod 4294967296) div unat freq"
    by (simp only: fixup_tq_value)
  let ?n = "unat (bt_brp bt) * 1000000000" and ?f = "unat freq"
  have f: "0 < ?f" "?f \<le> 4294967296"
    using assms(2) by (simp_all add: unat_gt_0 less_imp_le)
  have "4294967296 \<le> ?n" using assms(4) by simp
  then have "1 \<le> ?n div 4294967296" by (simp add: Suc_le_eq div_greater_zero_iff)
  then have "?n mod 4294967296 + ?f \<le> ?n mod 4294967296 + 4294967296 * (?n div 4294967296)"
    using f(2) by (simp add: le_trans)
  also have "\<dots> = ?n" by (rule mod_mult_div_eq)
  finally have "(?n mod 4294967296 + ?f) div ?f \<le> ?n div ?f" by (rule div_le_mono)
  moreover have "(?n mod 4294967296 + ?f) div ?f = ?n mod 4294967296 div ?f + 1"
    using f(1) by (intro div_add_self2) simp
  ultimately show ?thesis using tq by simp
qed

text \<open>when every choice of segments has its sample point above the requested one, version 4.8 still
  reports success, with a sample point of zero and segments that belong to no choice.\<close>

lemma calc_v4_8_no_sample_point:
  assumes "wf_btc btc" "wf_bitrate (bt_bitrate bt)" "freq \<noteq> 0"
    and "\<And>t. t \<in> tsegs btc \<Longrightarrow> spt_error_at btc (nominal_sample_point bt) t = UINT_MAX"
    and "can_calc_bittiming_v4_8 freq bt btc = Some (0, bt')"
  shows "bt_sample_point bt' = 0"
  using assms(1-3)
proof (cases rule: calc_v4_8_cases)
  case (found c segs)
  have "spt_error_at btc (nominal_sample_point bt) c = UINT_MAX"
    using found(1) assms(4) by (auto simp: is_best_def)
  then have "fst (can_update_spt_v4_8 btc (nominal_sample_point bt) (c div 2) segs) = 0"
    by (auto simp: spt_error_at_def can_update_spt_v4_8_def spt_better_def split: if_splits)
  then show ?thesis using found(3) assms(5) by (auto simp: calc_result_def Let_def split: prod.splits)
qed (use assms(5) in auto)

text \<open>the fix-up recovers the prescaler from the time quantum: with a clock of up to 500 MHz, the quantum
  that belongs to a prescaler gives back that prescaler.\<close>

lemma fixup_brp_roundtrip:
  assumes "freq \<noteq> 0" "unat freq \<le> 500000000" "unat brp \<le> 8192" "brp_inc btc = 1"
    and "unat (bt_tq bt) = unat brp * 1000000000 div unat freq"
  shows "fixup_brp freq bt btc = brp"
proof -
  let ?n = "unat brp * 1000000000" and ?f = "unat freq"
  have f: "0 < ?f" using assms(1) by (simp add: unat_gt_0)
  have up: "unat (ucast x :: u64) = unat x" for x :: u32
    by (simp add: unsigned_ucast_eq take_bit_nat_eq_self_iff less_trans [OF unat_u32_less])
  have split: "?f * (?n div ?f) + ?n mod ?f = ?n" "?n mod ?f < ?f" using f by simp_all
  have n: "?n \<le> 8192000000000" using assms(3) by simp
  have le: "?f * (?n div ?f) \<le> 8192000000000" using split n by linarith
  have prod: "unat (ucast freq * ucast (bt_tq bt) :: u64) = ?f * (?n div ?f)"
    using le by (simp add: unat_word_ariths up assms(5))
  then have "unat (ucast freq * ucast (bt_tq bt) + 499999999 :: u64) = ?f * (?n div ?f) + 499999999"
    using le by (subst unat_word_ariths) simp
  moreover have "(?f * (?n div ?f) + 499999999) div 1000000000 = unat brp"
  proof -
    have "unat brp * 1000000000 \<le> ?f * (?n div ?f) + 499999999" using split assms(2) by linarith
    moreover have "?f * (?n div ?f) + 499999999 < (unat brp + 1) * 1000000000"
      using split(1) by (simp only: add_mult_distrib)
    ultimately show ?thesis by (intro div_nat_eqI) (simp_all add: mult.commute)
  qed
  ultimately have "unat ((ucast freq * ucast (bt_tq bt) + 499999999) div 1000000000 :: u64) = unat brp"
    by (simp add: unat_div)
  moreover have "unat (ucast y :: u32) = unat y mod 4294967296" for y :: u64
    by (simp add: unsigned_ucast_eq take_bit_eq_mod)
  ultimately have "unat (ucast ((ucast freq * ucast (bt_tq bt) + 499999999) div 1000000000 :: u64) :: u32) = unat brp"
    using assms(3) by simp
  then show ?thesis using assms(4) by (simp add: fixup_brp_def word_unat_eq_iff [symmetric])
qed

end
