(* ===== verification/Redis_Dict.thy ===== *)
theory Redis_Dict
  imports Prelude
begin

text \<open>
  The hash table of hiredis (\<open>dict.c\<close>): chains of entries in a table whose size is a power of two
  and doubles when it is full.  A chain is the list of its entries, an entry pointer is a slot with
  a position, and the contract of the key and value functions is the locale \<open>dict_type\<close>.  The
  allocations of an operation are its arguments; \<open>None\<close> is undefined behaviour, a failed assertion,
  or a loop that does not end.
\<close>

unbundle bit_operations_syntax

section \<open>State\<close>

record ('k, 'v) dictType =
  hashFunction :: "'k \<Rightarrow> u32"
  keyDup :: "('k \<Rightarrow> 'k) option"
  valDup :: "('v \<Rightarrow> 'v) option"
  keyCompare :: "('k \<Rightarrow> 'k \<Rightarrow> bool) option"
  keyDestructor :: bool
  valDestructor :: bool

type_synonym ('k, 'v) dict_table = "('k \<times> 'v) list list"

record ('k, 'v) dict =
  d_table :: "('k, 'v) dict_table"
  d_size :: u64
  d_sizemask :: u64
  d_used :: u64
  freed_keys :: "'k list"
  freed_vals :: "'v list"

datatype dict_status = DICT_OK | DICT_ERR

definition DICT_HT_INITIAL_SIZE :: u64 where "DICT_HT_INITIAL_SIZE = 4"

definition dictGenHashFunction :: "u8 list \<Rightarrow> u32" where
  "dictGenHashFunction buf = fold (\<lambda>b h. (push_bit 5 h + h) + ucast b) buf 5381"

text \<open>The macros of \<open>dict.h\<close>.\<close>

definition dictFreeEntryVal :: "('k, 'v) dictType \<Rightarrow> 'v \<Rightarrow> ('k, 'v) dict \<Rightarrow> ('k, 'v) dict" where
  "dictFreeEntryVal ty v d = (if valDestructor ty then d\<lparr>freed_vals := freed_vals d @ [v]\<rparr> else d)"

definition dictFreeEntryKey :: "('k, 'v) dictType \<Rightarrow> 'k \<Rightarrow> ('k, 'v) dict \<Rightarrow> ('k, 'v) dict" where
  "dictFreeEntryKey ty k d = (if keyDestructor ty then d\<lparr>freed_keys := freed_keys d @ [k]\<rparr> else d)"

definition dictSetHashVal :: "('k, 'v) dictType \<Rightarrow> 'v \<Rightarrow> 'v" where
  "dictSetHashVal ty v = (case valDup ty of None \<Rightarrow> v | Some f \<Rightarrow> f v)"

definition dictSetHashKey :: "('k, 'v) dictType \<Rightarrow> 'k \<Rightarrow> 'k" where
  "dictSetHashKey ty k = (case keyDup ty of None \<Rightarrow> k | Some f \<Rightarrow> f k)"

definition dictCompareHashKeys :: "('k, 'v) dictType \<Rightarrow> 'k \<Rightarrow> 'k \<Rightarrow> bool" where
  "dictCompareHashKeys ty k1 k2 = (case keyCompare ty of None \<Rightarrow> k1 = k2 | Some f \<Rightarrow> f k1 k2)"

definition dictHashKey :: "('k, 'v) dictType \<Rightarrow> 'k \<Rightarrow> u32" where
  "dictHashKey ty k = hashFunction ty k"

text \<open>\<open>dictHashKey(ht, key) & mask\<close>, stored in an \<open>unsigned int\<close>\<close>

definition slot_index :: "('k, 'v) dictType \<Rightarrow> u64 \<Rightarrow> 'k \<Rightarrow> u32" where
  "slot_index ty msk k = ucast ((ucast (dictHashKey ty k) :: u64) AND msk)"

section \<open>Creation and growth\<close>

definition dictReset :: "('k, 'v) dict \<Rightarrow> ('k, 'v) dict" where
  "dictReset d = d\<lparr>d_table := [], d_size := 0, d_sizemask := 0, d_used := 0\<rparr>"

definition dictInit :: "('k, 'v) dict" where
  "dictInit = \<lparr>d_table = [], d_size = 0, d_sizemask = 0, d_used = 0, freed_keys = [], freed_vals = []\<rparr>"

definition dictCreate :: "bool \<Rightarrow> ('k, 'v) dict option" where
  "dictCreate malloc_ok = (if malloc_ok then Some dictInit else None)"

definition LONG_MAX :: u64 where "LONG_MAX = 0x7FFFFFFFFFFFFFFF"

fun next_power_from :: "nat \<Rightarrow> u64 \<Rightarrow> u64 \<Rightarrow> u64 option" where
  "next_power_from 0 i sz = None"
| "next_power_from (Suc n) i sz = (if sz \<le> i then Some i else next_power_from n (i * 2) sz)"

definition dictNextPower :: "u64 \<Rightarrow> u64 option" where
  "dictNextPower sz = (if LONG_MAX \<le> sz then Some LONG_MAX else next_power_from 64 DICT_HT_INITIAL_SIZE sz)"

text \<open>The entries of one old slot, then those of all old slots, put into the new table.\<close>

fun rehash_chain ::
  "('k, 'v) dictType \<Rightarrow> u64 \<Rightarrow> ('k \<times> 'v) list \<Rightarrow> ('k, 'v) dict_table \<times> u64 \<Rightarrow> (('k, 'v) dict_table \<times> u64) option" where
  "rehash_chain ty msk [] s = Some s"
| "rehash_chain ty msk (he # nextHe) (t, used) =
     (let h = unat (slot_index ty msk (fst he))
      in if h < length t then rehash_chain ty msk nextHe (t[h := he # t ! h], used - 1) else None)"

primrec rehash_slots ::
  "nat \<Rightarrow> ('k, 'v) dictType \<Rightarrow> u64 \<Rightarrow> ('k, 'v) dict_table \<Rightarrow> nat \<Rightarrow> ('k, 'v) dict_table \<times> u64 \<Rightarrow>
   (('k, 'v) dict_table \<times> u64) option" where
  "rehash_slots 0 ty msk old i s = Some s"
| "rehash_slots (Suc n) ty msk old i s =
     (if snd s = 0 then Some s
      else if i < length old
      then Option.bind (rehash_chain ty msk (old ! i) s) (rehash_slots n ty msk old (Suc i))
      else None)"

definition dictExpand ::
  "bool \<Rightarrow> ('k, 'v) dictType \<Rightarrow> u64 \<Rightarrow> ('k, 'v) dict \<Rightarrow> (dict_status \<times> ('k, 'v) dict) option" where
  "dictExpand calloc_ok ty sz d =
     Option.bind (dictNextPower sz) (\<lambda>realsize.
       if sz < d_used d then Some (DICT_ERR, d)
       else if \<not> calloc_ok then Some (DICT_ERR, d)
       else Option.bind
         (rehash_slots (unat (d_size d)) ty (realsize - 1) (d_table d) 0 (replicate (unat realsize) [], d_used d))
         (\<lambda>(t, used).
           if used \<noteq> 0 then None
           else Some (DICT_OK, d\<lparr>d_table := t, d_size := realsize, d_sizemask := realsize - 1\<rparr>)))"

definition dictExpandIfNeeded ::
  "bool \<Rightarrow> ('k, 'v) dictType \<Rightarrow> ('k, 'v) dict \<Rightarrow> (dict_status \<times> ('k, 'v) dict) option" where
  "dictExpandIfNeeded calloc_ok ty d =
     (if d_size d = 0 then dictExpand calloc_ok ty DICT_HT_INITIAL_SIZE d
      else if d_used d = d_size d then dictExpand calloc_ok ty (d_size d * 2) d
      else Some (DICT_OK, d))"

section \<open>Operations\<close>

text \<open>The walk along a chain: the position of the first entry with the key.\<close>

fun chain_find :: "('k, 'v) dictType \<Rightarrow> 'k \<Rightarrow> ('k \<times> 'v) list \<Rightarrow> nat option" where
  "chain_find ty k [] = None"
| "chain_find ty k (he # rest) =
     (if dictCompareHashKeys ty k (fst he) then Some 0 else map_option Suc (chain_find ty k rest))"

text \<open>The index is an \<open>int\<close>, and -1 when the key is there or the table cannot grow.\<close>

definition dictKeyIndex :: "bool \<Rightarrow> ('k, 'v) dictType \<Rightarrow> 'k \<Rightarrow> ('k, 'v) dict \<Rightarrow> (int \<times> ('k, 'v) dict) option" where
  "dictKeyIndex calloc_ok ty k d =
     Option.bind (dictExpandIfNeeded calloc_ok ty d) (\<lambda>(st, d).
       if st = DICT_ERR then Some (- 1, d)
       else Option.bind (rd (d_table d) (unat (slot_index ty (d_sizemask d) k))) (\<lambda>chain.
         if chain_find ty k chain \<noteq> None then Some (- 1, d)
         else Some (sint (slot_index ty (d_sizemask d) k), d)))"

definition dictAdd ::
  "bool \<Rightarrow> bool \<Rightarrow> ('k, 'v) dictType \<Rightarrow> 'k \<Rightarrow> 'v \<Rightarrow> ('k, 'v) dict \<Rightarrow> (dict_status \<times> ('k, 'v) dict) option" where
  "dictAdd calloc_ok malloc_ok ty k v d =
     Option.bind (dictKeyIndex calloc_ok ty k d) (\<lambda>(index, d).
       if index = - 1 then Some (DICT_ERR, d)
       else if \<not> malloc_ok then Some (DICT_ERR, d)
       else if index < 0 \<or> length (d_table d) \<le> nat index then None
       else Some (DICT_OK, d\<lparr>d_table := (d_table d)[nat index :=
              (dictSetHashKey ty k, dictSetHashVal ty v) # d_table d ! nat index], d_used := d_used d + 1\<rparr>))"

definition dictFind :: "('k, 'v) dictType \<Rightarrow> 'k \<Rightarrow> ('k, 'v) dict \<Rightarrow> (nat \<times> nat) option option" where
  "dictFind ty k d =
     (if d_size d = 0 then Some None
      else let h = unat (slot_index ty (d_sizemask d) k)
           in map_option (\<lambda>chain. map_option (Pair h) (chain_find ty k chain)) (rd (d_table d) h))"

definition dictGetEntryVal :: "('k, 'v) dict \<Rightarrow> nat \<times> nat \<Rightarrow> 'v" where
  "dictGetEntryVal d he = (case he of (h, i) \<Rightarrow> snd (d_table d ! h ! i))"

definition setEntryVal :: "nat \<times> nat \<Rightarrow> 'v \<Rightarrow> ('k, 'v) dict \<Rightarrow> ('k, 'v) dict" where
  "setEntryVal he v d = (case he of (h, i) \<Rightarrow>
     d\<lparr>d_table := (d_table d)[h := (d_table d ! h)[i := (fst (d_table d ! h ! i), v)]]\<rparr>)"

text \<open>The result is 1 when the key was added, 0 when its value was replaced.\<close>

definition dictReplace ::
  "bool \<Rightarrow> bool \<Rightarrow> ('k, 'v) dictType \<Rightarrow> 'k \<Rightarrow> 'v \<Rightarrow> ('k, 'v) dict \<Rightarrow> (int \<times> ('k, 'v) dict) option" where
  "dictReplace calloc_ok malloc_ok ty k v d =
     Option.bind (dictAdd calloc_ok malloc_ok ty k v d) (\<lambda>(st, d).
       if st = DICT_OK then Some (1, d)
       else Option.bind (dictFind ty k d) (\<lambda>entry.
         case entry of
           None \<Rightarrow> Some (0, d)
         | Some he \<Rightarrow> Some (0, dictFreeEntryVal ty (dictGetEntryVal d he) (setEntryVal he (dictSetHashVal ty v) d))))"

definition dictDelete :: "('k, 'v) dictType \<Rightarrow> 'k \<Rightarrow> ('k, 'v) dict \<Rightarrow> (dict_status \<times> ('k, 'v) dict) option" where
  "dictDelete ty k d =
     (if d_size d = 0 then Some (DICT_ERR, d)
      else let h = unat (slot_index ty (d_sizemask d) k)
           in Option.bind (rd (d_table d) h) (\<lambda>chain.
             case chain_find ty k chain of
               None \<Rightarrow> Some (DICT_ERR, d)
             | Some i \<Rightarrow>
                 let d' = d\<lparr>d_table := (d_table d)[h := take i chain @ drop (Suc i) chain]\<rparr>;
                     d' = dictFreeEntryVal ty (snd (chain ! i)) (dictFreeEntryKey ty (fst (chain ! i)) d')
                 in Some (DICT_OK, d'\<lparr>d_used := d_used d' - 1\<rparr>)))"

section \<open>Clearing and iteration\<close>

fun clear_chain :: "('k, 'v) dictType \<Rightarrow> ('k \<times> 'v) list \<Rightarrow> ('k, 'v) dict \<Rightarrow> ('k, 'v) dict" where
  "clear_chain ty [] d = d"
| "clear_chain ty (he # nextHe) d =
     (let d = dictFreeEntryVal ty (snd he) (dictFreeEntryKey ty (fst he) d)
      in clear_chain ty nextHe (d\<lparr>d_used := d_used d - 1\<rparr>))"

primrec clear_slots :: "nat \<Rightarrow> ('k, 'v) dictType \<Rightarrow> nat \<Rightarrow> ('k, 'v) dict \<Rightarrow> ('k, 'v) dict option" where
  "clear_slots 0 ty i d = Some d"
| "clear_slots (Suc n) ty i d =
     (if d_used d = 0 then Some d
      else Option.bind (rd (d_table d) i) (\<lambda>chain. clear_slots n ty (Suc i) (clear_chain ty chain d)))"

definition dictClear :: "('k, 'v) dictType \<Rightarrow> ('k, 'v) dict \<Rightarrow> ('k, 'v) dict option" where
  "dictClear ty d = map_option dictReset (clear_slots (unat (d_size d)) ty 0 d)"

record dictIterator =
  it_index :: int
  it_entry :: "(nat \<times> nat) option"
  it_next :: "(nat \<times> nat) option"

definition dictInitIterator :: dictIterator where
  "dictInitIterator = \<lparr>it_index = - 1, it_entry = None, it_next = None\<rparr>"

text \<open>An entry pointer for a position in a chain, \<open>NULL\<close> behind its end.\<close>

definition entry_at :: "('k, 'v) dict \<Rightarrow> nat \<Rightarrow> nat \<Rightarrow> (nat \<times> nat) option" where
  "entry_at d h i = (if i < length (d_table d ! h) then Some (h, i) else None)"

definition entry_next :: "('k, 'v) dict \<Rightarrow> nat \<times> nat \<Rightarrow> (nat \<times> nat) option" where
  "entry_next d he = (case he of (h, i) \<Rightarrow> entry_at d h (Suc i))"

definition signed_size :: "('k, 'v) dict \<Rightarrow> int" where
  "signed_size d = sint (ucast (d_size d) :: 32 word)"

text \<open>The loop of \<open>dictNext\<close>, with as many turns as there are slots and one more.\<close>

primrec dictNext_loop :: "nat \<Rightarrow> ('k, 'v) dict \<Rightarrow> dictIterator \<Rightarrow> ((nat \<times> nat) option \<times> dictIterator) option" where
  "dictNext_loop 0 d it = None"
| "dictNext_loop (Suc n) d it =
     (let it' = (if it_entry it = None then it\<lparr>it_index := it_index it + 1\<rparr> else it\<lparr>it_entry := it_next it\<rparr>)
      in if it_entry it = None \<and> signed_size d \<le> it_index it' then Some (None, it')
         else let it' = (if it_entry it = None then it'\<lparr>it_entry := entry_at d (nat (it_index it')) 0\<rparr> else it')
              in case it_entry it' of
                   Some he \<Rightarrow> Some (Some he, it'\<lparr>it_next := entry_next d he\<rparr>)
                 | None \<Rightarrow> dictNext_loop n d it')"

definition dictNext :: "('k, 'v) dict \<Rightarrow> dictIterator \<Rightarrow> ((nat \<times> nat) option \<times> dictIterator) option" where
  "dictNext d it = dictNext_loop (unat (d_size d) + 2) d it"

text \<open>\<open>while ((de = dictNext(&it)) != NULL)\<close>: the entries in the order they are returned.\<close>

primrec iterate :: "nat \<Rightarrow> ('k, 'v) dict \<Rightarrow> dictIterator \<Rightarrow> (nat \<times> nat) list option" where
  "iterate 0 d it = None"
| "iterate (Suc n) d it =
     Option.bind (dictNext d it) (\<lambda>(de, it).
       case de of None \<Rightarrow> Some [] | Some he \<Rightarrow> map_option (Cons he) (iterate n d it))"

section \<open>The dictionary of the subscriptions\<close>

text \<open>
  The functions of \<open>callbackDict\<close> in \<open>async.c\<close>: a channel name is its bytes, the lengths are stored
  in an \<open>int\<close> before they are compared (a name of \<open>2 ^ 31\<close> bytes or more, whose length is negative there,
  is outside the model), and a value is copied (the copy is taken to succeed).
\<close>

definition callbackKeyCompare :: "u8 list \<Rightarrow> u8 list \<Rightarrow> bool" where
  "callbackKeyCompare key1 key2 =
     (let l1 = sint (of_nat (length key1) :: 32 word); l2 = sint (of_nat (length key2) :: 32 word)
      in l1 = l2 \<and> take (nat l1) key1 = take (nat l1) key2)"

definition callbackDict :: "(u8 list, 'v) dictType" where
  "callbackDict = \<lparr>hashFunction = dictGenHashFunction, keyDup = None, valDup = Some (\<lambda>src. src),
     keyCompare = Some callbackKeyCompare, keyDestructor = True, valDestructor = True\<rparr>"

end
