(* ===== verification/Redis_Dict_Props.thy ===== *)
theory Redis_Dict_Props
  imports Redis_Dict
begin

text \<open>
  The hash table refines a map.  The contract of the key and value functions is the locale
  \<open>dict_type\<close>; it is interpreted on the type that hiredis uses for its subscriptions.
\<close>

section \<open>Slots\<close>

definition slot_of :: "('k, 'v) dictType \<Rightarrow> ('k, 'v) dict \<Rightarrow> 'k \<Rightarrow> nat" where
  "slot_of ty d k = unat (slot_index ty (d_sizemask d) k)"

lemma sint_small:
  assumes "unat (w :: u32) < 2 ^ 31"
  shows "sint w = int (unat w)"
proof -
  have "int (unat w) < int (2 ^ 31)" using assms by (simp only: of_nat_less_iff)
  then have "signed_take_bit 31 (int (unat w)) = int (unat w)"
    by (intro signed_take_bit_int_eq_self) (rule order.trans [of _ 0], simp_all)
  then show ?thesis unfolding sint_uint uint_nat by simp
qed

lemma slot_bound:
  assumes "n \<le> 30"
  shows "unat (slot_index ty (2 ^ n - 1) k) < 2 ^ n" "0 \<le> sint (slot_index ty (2 ^ n - 1) k)"
    "nat (sint (slot_index ty (2 ^ n - 1) k)) = unat (slot_index ty (2 ^ n - 1) k)"
proof -
  define x where "x = ((ucast (dictHashKey ty k) :: u64) AND (2 ^ n - 1))"
  have x: "x = take_bit n (ucast (dictHashKey ty k))"
    by (simp add: x_def take_bit_eq_mask mask_eq_exp_minus_1)
  have ux: "unat x = take_bit n (unat (ucast (dictHashKey ty k) :: u64))"
    unfolding x using assms by (simp add: unsigned_take_bit_eq)
  then have b: "unat x < 2 ^ n" by simp
  have le: "(2 :: nat) ^ n \<le> 2 ^ 31" using assms by (intro power_increasing) simp_all
  then have b31: "unat x < 2 ^ 31" using b by linarith
  have s: "unat (slot_index ty (2 ^ n - 1) k) = unat x"
    unfolding slot_index_def x_def [symmetric]
    using b31 by (simp add: unsigned_ucast_eq take_bit_nat_eq_self)
  show "unat (slot_index ty (2 ^ n - 1) k) < 2 ^ n" using s b by simp
  have "sint (slot_index ty (2 ^ n - 1) k) = int (unat (slot_index ty (2 ^ n - 1) k))"
    using s b31 by (intro sint_small) simp
  then show "0 \<le> sint (slot_index ty (2 ^ n - 1) k)"
    "nat (sint (slot_index ty (2 ^ n - 1) k)) = unat (slot_index ty (2 ^ n - 1) k)" by simp_all
qed

text \<open>Every entry stands in the slot of its key, and no key twice.\<close>

definition placed :: "('k \<Rightarrow> nat) \<Rightarrow> ('k, 'v) dict_table \<Rightarrow> bool" where
  "placed f t \<longleftrightarrow> (\<forall>i < length t. distinct (map fst (t ! i)) \<and> (\<forall>e \<in> set (t ! i). f (fst e) = i))"

lemma placed_slot: "placed f t \<Longrightarrow> i < length t \<Longrightarrow> e \<in> set (t ! i) \<Longrightarrow> f (fst e) = i"
  by (simp add: placed_def)

lemma set_concat_nth: "e \<in> set (concat t) \<longleftrightarrow> (\<exists>i < length t. e \<in> set (t ! i))"
  unfolding set_concat by (force simp: in_set_conv_nth [where xs = t])

lemma placed_distinct: "placed f t \<Longrightarrow> distinct (map fst (concat t))"
proof (induction t rule: rev_induct)
  case (snoc x t)
  have p: "placed f t" using snoc.prems by (auto simp: placed_def nth_append split: if_splits)
  have x: "distinct (map fst x)" "\<forall>e \<in> set x. f (fst e) = length t"
    using snoc.prems by (auto simp: placed_def dest!: spec [of _ "length t"])
  have "\<forall>e \<in> set (concat t). f (fst e) < length t"
    by (auto simp only: set_concat_nth placed_slot [OF p])
  then have "set (map fst (concat t)) \<inter> set (map fst x) = {}" using x(2) by fastforce
  then show ?case using snoc.IH [OF p] x(1) by auto
qed simp

lemma length_concat_update:
  "i < length t \<Longrightarrow> length (concat (t[i := xs])) + length (t ! i) = length (concat t) + length xs"
proof (induction t arbitrary: i)
  case (Cons a t)
  then show ?case by (cases i) auto
qed simp

section \<open>Growth\<close>

lemma rehash_chain_spec:
  assumes "\<forall>e \<in> set es. unat (slot_index ty msk (fst e)) < length t"
  shows "\<exists>t'. rehash_chain ty msk es (t, used) = Some (t', used - of_nat (length es)) \<and> length t' = length t \<and>
    (\<forall>i < length t. t' ! i = rev (filter (\<lambda>e. unat (slot_index ty msk (fst e)) = i) es) @ t ! i) \<and>
    length (concat t') = length (concat t) + length es"
  using assms
proof (induction es arbitrary: t used)
  case (Cons e es)
  define h where "h = unat (slot_index ty msk (fst e))"
  have h: "h < length t" using Cons.prems by (simp add: h_def)
  define t1 where "t1 = t[h := e # t ! h]"
  have l: "length (concat t1) = Suc (length (concat t))"
    using length_concat_update [OF h, of "e # t ! h"] by (simp add: t1_def)
  obtain t' where t': "rehash_chain ty msk es (t1, used - 1) = Some (t', used - 1 - of_nat (length es))"
      "length t' = length t1"
      "\<forall>i < length t1. t' ! i = rev (filter (\<lambda>e. unat (slot_index ty msk (fst e)) = i) es) @ t1 ! i"
      "length (concat t') = length (concat t1) + length es"
    using Cons.IH [of t1 "used - 1"] Cons.prems by (auto simp: t1_def)
  show ?case
  proof (intro exI conjI)
    show "rehash_chain ty msk (e # es) (t, used) = Some (t', used - of_nat (length (e # es)))"
      using t'(1) h by (simp add: h_def [symmetric] t1_def Let_def algebra_simps)
    show "\<forall>i < length t. t' ! i = rev (filter (\<lambda>e. unat (slot_index ty msk (fst e)) = i) (e # es)) @ t ! i"
      using t'(3) h by (auto simp: t1_def h_def nth_list_update)
  qed (use t'(2,4) l in \<open>simp_all add: t1_def\<close>)
qed simp

lemma rehash_slots_spec:
  assumes "\<forall>e \<in> set (concat old). unat (slot_index ty msk (fst e)) < length t"
    "used = of_nat (length (concat (drop i old)))" "length (concat (drop i old)) < 2 ^ 63" "i + n = length old"
  shows "\<exists>t'. rehash_slots n ty msk old i (t, used) = Some (t', 0) \<and> length t' = length t \<and>
    (\<forall>j < length t. t' ! j = rev (filter (\<lambda>e. unat (slot_index ty msk (fst e)) = j) (concat (drop i old))) @ t ! j) \<and>
    length (concat t') = length (concat t) + length (concat (drop i old))"
  using assms
proof (induction n arbitrary: i t used)
  case (Suc n)
  have i: "i < length old" using Suc.prems(4) by simp
  have d: "drop i old = old ! i # drop (Suc i) old" using i by (simp add: Cons_nth_drop_Suc)
  show ?case
  proof (cases "used = 0")
    case True
    have "unat used = length (concat (drop i old))"
      using Suc.prems(2,3) unat_of_nat_small [where 'w = 64, of "length (concat (drop i old))"] by simp
    then have "concat (drop i old) = []" using True by simp
    then show ?thesis using True by (simp del: concat_eq_Nil_conv)
  next
    case False
    obtain t1 where t1: "rehash_chain ty msk (old ! i) (t, used) = Some (t1, used - of_nat (length (old ! i)))"
        "length t1 = length t"
        "\<forall>j < length t. t1 ! j = rev (filter (\<lambda>e. unat (slot_index ty msk (fst e)) = j) (old ! i)) @ t ! j"
        "length (concat t1) = length (concat t) + length (old ! i)"
      using rehash_chain_spec [of "old ! i" ty msk t used] Suc.prems(1) i by fastforce
    have u: "used - of_nat (length (old ! i)) = of_nat (length (concat (drop (Suc i) old)))"
      using Suc.prems(2) by (simp add: d)
    obtain t' where t': "rehash_slots n ty msk old (Suc i) (t1, used - of_nat (length (old ! i))) = Some (t', 0)"
        "length t' = length t1"
        "\<forall>j < length t1. t' ! j = rev (filter (\<lambda>e. unat (slot_index ty msk (fst e)) = j) (concat (drop (Suc i) old))) @ t1 ! j"
        "length (concat t') = length (concat t1) + length (concat (drop (Suc i) old))"
      using Suc.IH [of t1, OF _ u] Suc.prems(1,3,4) t1(2) by (auto simp: d)
    show ?thesis
      using False i t1 t' by (intro exI [of _ t']) (simp add: d)
  qed
qed simp


section \<open>The invariant and the map\<close>

definition counted :: "('k, 'v) dict \<Rightarrow> bool" where
  "counted d \<longleftrightarrow> d_used d = of_nat (length (concat (d_table d)))"

definition has_size :: "('k, 'v) dictType \<Rightarrow> nat \<Rightarrow> ('k, 'v) dict \<Rightarrow> bool" where
  "has_size ty n d \<longleftrightarrow> d_size d = 2 ^ n \<and> d_sizemask d = 2 ^ n - 1 \<and> length (d_table d) = 2 ^ n \<and>
     placed (slot_of ty d) (d_table d) \<and> counted d \<and> length (concat (d_table d)) \<le> 2 ^ n"

definition unused :: "('k, 'v) dict \<Rightarrow> bool" where
  "unused d \<longleftrightarrow> d_size d = 0 \<and> d_table d = [] \<and> d_used d = 0"

definition dict_inv :: "('k, 'v) dictType \<Rightarrow> ('k, 'v) dict \<Rightarrow> bool" where
  "dict_inv ty d \<longleftrightarrow> unused d \<or> (\<exists>n. 2 \<le> n \<and> n \<le> 30 \<and> has_size ty n d)"

definition dict_map :: "('k, 'v) dict \<Rightarrow> 'k \<Rightarrow> 'v option" where
  "dict_map d = map_of (concat (d_table d))"

lemma pow64 [simp]: "n \<le> 32 \<Longrightarrow> unat (2 ^ n :: u64) = 2 ^ n" "n \<le> 32 \<Longrightarrow> (2 ^ n :: u64) \<noteq> 0"
proof -
  assume n: "n \<le> 32"
  have "(2 :: nat) ^ n < 2 ^ 64" using n by (intro power_strict_increasing) simp_all
  then show u: "unat (2 ^ n :: u64) = 2 ^ n" using unat_of_nat_small [where 'w = 64, of "2 ^ n"] by simp
  then show "(2 ^ n :: u64) \<noteq> 0" by (metis power_not_zero unsigned_0 zero_neq_numeral)
qed

lemma sized_slot:
  assumes "has_size ty n d" "n \<le> 30"
  shows "slot_of ty d k < length (d_table d)" "slot_of ty d k = unat (slot_index ty (d_sizemask d) k)"
    "0 \<le> sint (slot_index ty (d_sizemask d) k)" "nat (sint (slot_index ty (d_sizemask d) k)) = slot_of ty d k"
  using slot_bound [OF assms(2), of ty k] assms(1) by (simp_all add: has_size_def slot_of_def)

lemma map_of_eqI:
  assumes "distinct (map fst xs)" "distinct (map fst ys)" "\<And>v. (k, v) \<in> set xs \<longleftrightarrow> (k, v) \<in> set ys"
  shows "map_of xs k = map_of ys k"
proof (cases "map_of ys k")
  case None
  then have "(k, v) \<notin> set ys" for v by (metis map_of_eq_None_iff fst_conv image_eqI)
  then show ?thesis using None assms(3) by (metis map_of_SomeD not_Some_eq)
next
  case (Some v)
  then have "(k, v) \<in> set xs" using assms(3) map_of_SomeD by metis
  then show ?thesis using Some assms(1) by simp
qed

lemma map_of_concat_slot:
  assumes "placed f t" "f k < length t"
  shows "map_of (concat t) k = map_of (t ! f k) k"
proof -
  have e: "(k, v) \<in> set (concat t) \<longleftrightarrow> (k, v) \<in> set (t ! f k)" for v
    using placed_slot [OF assms(1)] assms(2) unfolding set_concat_nth by (metis fst_conv)
  have d: "distinct (map fst (concat t))" "distinct (map fst (t ! f k))"
    using placed_distinct [OF assms(1)] assms by (simp_all add: placed_def)
  show ?thesis
    using e by (intro map_of_eqI [OF d])
qed

text \<open>Growing keeps the entries.\<close>

lemma next_power_reaches:
  "2 ^ j = i \<Longrightarrow> j \<le> n \<Longrightarrow> n \<le> 32 \<Longrightarrow> n - j < m \<Longrightarrow> next_power_from m i (2 ^ n) = Some (2 ^ n)"
proof (induction m arbitrary: i j)
  case (Suc m)
  have u: "unat i = 2 ^ j" "unat (2 ^ n :: u64) = 2 ^ n" using Suc.prems by auto
  show ?case
  proof (cases "j = n")
    case False
    then have "(2 :: nat) ^ j < 2 ^ n" using Suc.prems(2) by (intro power_strict_increasing) simp_all
    then have "\<not> 2 ^ n \<le> i" using u by (simp add: word_le_nat_alt)
    then show ?thesis using Suc.IH [of "Suc j" "i * 2"] Suc.prems False by (simp add: mult.commute)
  qed (use Suc.prems in simp)
qed simp

lemma dictNextPower_pow: "2 \<le> n \<Longrightarrow> n \<le> 32 \<Longrightarrow> dictNextPower (2 ^ n) = Some (2 ^ n)"
proof -
  assume n: "2 \<le> n" "n \<le> 32"
  have "(2 :: nat) ^ n \<le> 2 ^ 32" using n(2) by (intro power_increasing) simp_all
  then have "\<not> LONG_MAX \<le> 2 ^ n" using n by (simp add: word_le_nat_alt LONG_MAX_def)
  then show ?thesis using next_power_reaches [of 2 4 n 64] n by (simp add: dictNextPower_def DICT_HT_INITIAL_SIZE_def)
qed

lemma rehash_placed:
  fixes t :: "('k, 'v) dict_table"
  assumes "distinct (map fst es)" "\<forall>j < length t. t ! j = rev (filter (\<lambda>e. f (fst e) = j) es)"
    "\<forall>e \<in> set es. f (fst e) < length t"
  shows "placed f t \<and> map_of (concat t) = map_of es"
proof -
  have p: "placed f t"
    using assms(1,2) by (auto simp: placed_def distinct_map_filter rev_map [symmetric])
  have "(k, v) \<in> set (t ! i) \<longleftrightarrow> (k, v) \<in> set es \<and> f k = i" if "i < length t" for i k v
    using assms(2) that by simp
  moreover have "(k, v) \<in> set es \<Longrightarrow> f k < length t" for k v using assms(3) by force
  ultimately have "(k, v) \<in> set (concat t) \<longleftrightarrow> (k, v) \<in> set es" for k v
    unfolding set_concat_nth by blast
  then have "map_of (concat t) k = map_of es k" for k
    by (intro map_of_eqI [OF placed_distinct [OF p] assms(1)])
  then show ?thesis using p by blast
qed


lemma dict_inv_facts:
  assumes "dict_inv ty d"
  shows "counted d" "distinct (map fst (concat (d_table d)))" "length (d_table d) = unat (d_size d)"
    "length (concat (d_table d)) \<le> 2 ^ 30"
proof -
  have "counted d \<and> distinct (map fst (concat (d_table d))) \<and> length (d_table d) = unat (d_size d) \<and>
      length (concat (d_table d)) \<le> 2 ^ 30"
    using assms unfolding dict_inv_def
  proof (elim disjE exE conjE)
    fix n assume n: "2 \<le> n" "n \<le> 30" "has_size ty n d"
    have "(2 :: nat) ^ n \<le> 2 ^ 30" using n(2) by (intro power_increasing) simp_all
    then show ?thesis using n placed_distinct [of "slot_of ty d"] by (auto simp: has_size_def)
  qed (simp add: unused_def counted_def)
  then show "counted d" "distinct (map fst (concat (d_table d)))" "length (d_table d) = unat (d_size d)"
    "length (concat (d_table d)) \<le> 2 ^ 30" by simp_all
qed

lemma counted_le:
  assumes "counted d" "length (concat (d_table d)) \<le> 2 ^ n" "n \<le> 32"
  shows "\<not> 2 ^ n < d_used d" "d_used d = 2 ^ n \<longleftrightarrow> length (concat (d_table d)) = 2 ^ n"
proof -
  have "(2 :: nat) ^ n < 2 ^ 64" using assms(3) by (intro power_strict_increasing) simp_all
  then have "unat (d_used d) = length (concat (d_table d))"
    using assms(1,2) unat_of_nat_small [where 'w = 64, of "length (concat (d_table d))"] by (simp add: counted_def)
  then show "\<not> 2 ^ n < d_used d" "d_used d = 2 ^ n \<longleftrightarrow> length (concat (d_table d)) = 2 ^ n"
    using assms(2,3) by (simp_all add: word_less_nat_alt word_unat_eq_iff)
qed

lemma dictExpand_spec:
  assumes "dict_inv ty d" "2 \<le> n" "n \<le> 30" "length (concat (d_table d)) \<le> 2 ^ n"
  obtains d' where "dictExpand True ty (2 ^ n) d = Some (DICT_OK, d')" "has_size ty n d'" "dict_map d' = dict_map d"
    "length (concat (d_table d')) = length (concat (d_table d))"
    "freed_keys d' = freed_keys d" "freed_vals d' = freed_vals d"
proof -
  note inv = dict_inv_facts [OF assms(1)]
  define f where "f = (\<lambda>k. unat (slot_index ty (2 ^ n - 1) k))"
  have f: "f k < 2 ^ n" for k using slot_bound(1) [OF assms(3), of ty k] by (simp add: f_def)
  have un: "unat (2 ^ n :: u64) = 2 ^ n" using assms(3) by simp
  obtain t where t: "rehash_slots (unat (d_size d)) ty (2 ^ n - 1) (d_table d) 0 (replicate (2 ^ n) [], d_used d) = Some (t, 0)"
      "length t = 2 ^ n" "\<forall>j < 2 ^ n. t ! j = rev (filter (\<lambda>e. f (fst e) = j) (concat (d_table d)))"
      "length (concat t) = length (concat (d_table d))"
    using rehash_slots_spec [of "d_table d" ty "2 ^ n - 1" "replicate (2 ^ n) []" "d_used d" 0 "unat (d_size d)"]
      f inv by (auto simp: f_def counted_def)
  have p: "placed f t" "map_of (concat t) = map_of (concat (d_table d))"
    using rehash_placed [OF inv(2), of t f] t(2,3) f by auto
  show thesis
  proof (rule that)
    show "dictExpand True ty (2 ^ n) d = Some (DICT_OK, d\<lparr>d_table := t, d_size := 2 ^ n, d_sizemask := 2 ^ n - 1\<rparr>)"
      using t(1) counted_le(1) [OF inv(1) assms(4)] assms(2,3) un by (simp add: dictExpand_def dictNextPower_pow)
    show "has_size ty n (d\<lparr>d_table := t, d_size := 2 ^ n, d_sizemask := 2 ^ n - 1\<rparr>)"
      using p(1) t(2,4) inv(1) assms(4) by (simp add: has_size_def slot_of_def [abs_def] f_def counted_def)
    show "dict_map (d\<lparr>d_table := t, d_size := 2 ^ n, d_sizemask := 2 ^ n - 1\<rparr>) = dict_map d"
      using p(2) by (simp add: dict_map_def)
  qed (use t(4) in simp_all)
qed

lemma dictExpandIfNeeded_spec:
  assumes "dict_inv ty d" "length (concat (d_table d)) < 2 ^ 30"
  obtains st d' n where "dictExpandIfNeeded calloc_ok ty d = Some (st, d')" "dict_map d' = dict_map d"
    "length (concat (d_table d')) = length (concat (d_table d))"
    "freed_keys d' = freed_keys d" "freed_vals d' = freed_vals d" "calloc_ok \<Longrightarrow> st = DICT_OK"
    "st = DICT_ERR \<Longrightarrow> d' = d"
    "st = DICT_OK \<Longrightarrow> 2 \<le> n \<and> n \<le> 30 \<and> has_size ty n d' \<and> length (concat (d_table d')) < 2 ^ n"
proof -
  note inv = dict_inv_facts [OF assms(1)]
  have fail: "dictExpand False ty (2 ^ n) d = Some (DICT_ERR, d)"
    if "2 \<le> n" "n \<le> 32" "length (concat (d_table d)) \<le> 2 ^ n" for n
    using counted_le(1) [OF inv(1) that(3)] that by (simp add: dictExpand_def dictNextPower_pow)
  show thesis
  proof (cases "d_size d = 0")
    case True
    then have u: "unused d" using assms(1) by (auto simp: dict_inv_def has_size_def)
    then have l: "length (concat (d_table d)) \<le> 2 ^ 2" by (simp add: unused_def)
    obtain d' where d': "dictExpand True ty (2 ^ 2) d = Some (DICT_OK, d')" "has_size ty 2 d'" "dict_map d' = dict_map d"
        "length (concat (d_table d')) = length (concat (d_table d))"
        "freed_keys d' = freed_keys d" "freed_vals d' = freed_vals d"
      by (rule dictExpand_spec [OF assms(1) _ _ l]) simp_all
    show thesis
      using that [of DICT_OK d' 2] that [of DICT_ERR d 2] True d' fail [OF _ _ l] u
      by (cases calloc_ok) (simp_all add: dictExpandIfNeeded_def DICT_HT_INITIAL_SIZE_def unused_def)
  next
    case False
    then obtain n where n: "2 \<le> n" "n \<le> 30" "has_size ty n d" using assms(1) by (auto simp: dict_inv_def unused_def)
    have full: "d_used d = d_size d \<longleftrightarrow> length (concat (d_table d)) = 2 ^ n"
      using counted_le(2) [OF inv(1), of n] n by (simp add: has_size_def)
    show thesis
    proof (cases "length (concat (d_table d)) = 2 ^ n")
      case True
      then have n30: "Suc n \<le> 30" using assms(2) n(2) by (cases "n = 30") auto
      have l: "length (concat (d_table d)) \<le> 2 ^ Suc n" using True by simp
      obtain d' where d': "dictExpand True ty (2 ^ Suc n) d = Some (DICT_OK, d')" "has_size ty (Suc n) d'"
          "dict_map d' = dict_map d" "length (concat (d_table d')) = length (concat (d_table d))"
          "freed_keys d' = freed_keys d" "freed_vals d' = freed_vals d"
        by (rule dictExpand_spec [OF assms(1) _ n30 l]) (use n(1) in simp_all)
      have sz: "d_size d * 2 = 2 ^ Suc n" using n(3) by (simp add: has_size_def)
      have e: "dictExpandIfNeeded calloc_ok ty d = dictExpand calloc_ok ty (2 ^ Suc n) d"
        using False full True unfolding dictExpandIfNeeded_def sz by simp
      have less: "length (concat (d_table d')) < 2 ^ Suc n" using d'(4) True by simp
      show thesis
      proof (cases calloc_ok)
        case True
        show thesis by (rule that [of DICT_OK d' "Suc n"]) (use True e d' n(1) n30 less in \<open>simp_all del: power_Suc\<close>)
      next
        case False
        have "dictExpand False ty (2 ^ Suc n) d = Some (DICT_ERR, d)" by (rule fail [OF _ _ l]) (use n(1) n30 in simp_all)
        then show thesis by (intro that [of DICT_ERR d 2]) (use False e in \<open>simp_all del: power_Suc\<close>)
      qed
    next
      case not_full: False
      then have "length (concat (d_table d)) < 2 ^ n" using n(3) by (simp add: has_size_def)
      then show thesis
        using that [of DICT_OK d n] False n full not_full by (simp add: dictExpandIfNeeded_def)
    qed
  qed
qed


text \<open>Another chain in the slot of a key.\<close>

lemma update_slot:
  assumes "has_size ty n d" "n \<le> 30" "h = slot_of ty d k" "distinct (map fst xs)"
    "\<forall>e \<in> set xs. slot_of ty d (fst e) = h" "\<And>j. j \<noteq> k \<Longrightarrow> map_of xs j = map_of (d_table d ! h) j"
  shows "placed (slot_of ty d) ((d_table d)[h := xs])"
    "map_of (concat ((d_table d)[h := xs])) = (dict_map d)(k := map_of xs k)"
proof -
  have h: "h < length (d_table d)" using sized_slot(1) [OF assms(1,2)] assms(3) by simp
  show p: "placed (slot_of ty d) ((d_table d)[h := xs])"
    using assms(1,4,5) h by (auto simp: has_size_def placed_def nth_list_update)
  have "map_of (concat ((d_table d)[h := xs])) j = ((dict_map d)(k := map_of xs k)) j" for j
  proof -
    have "map_of (concat ((d_table d)[h := xs])) j = map_of ((d_table d)[h := xs] ! slot_of ty d j) j"
      by (rule map_of_concat_slot [OF p]) (simp add: sized_slot(1) [OF assms(1,2)])
    moreover have "dict_map d j = map_of (d_table d ! slot_of ty d j) j"
      unfolding dict_map_def
      by (rule map_of_concat_slot) (use assms(1) sized_slot(1) [OF assms(1,2)] in \<open>simp_all add: has_size_def\<close>)
    ultimately show ?thesis
      using assms(3,6) h by (cases "slot_of ty d j = h") auto
  qed
  then show "map_of (concat ((d_table d)[h := xs])) = (dict_map d)(k := map_of xs k)" by blast
qed

lemma dict_map_slot:
  assumes "has_size ty n d" "n \<le> 30"
  shows "dict_map d k = map_of (d_table d ! slot_of ty d k) k"
  unfolding dict_map_def
  by (rule map_of_concat_slot) (use assms(1) sized_slot(1) [OF assms] in \<open>simp_all add: has_size_def\<close>)

lemma sized_chain:
  assumes "has_size ty n d" "n \<le> 30" "chain = d_table d ! slot_of ty d k"
  shows "distinct (map fst chain)" "\<forall>e \<in> set chain. slot_of ty d (fst e) = slot_of ty d k"
    "rd (d_table d) (unat (slot_index ty (d_sizemask d) k)) = Some chain"
proof -
  have p: "placed (slot_of ty d) (d_table d)" using assms(1) by (simp add: has_size_def)
  note l = sized_slot(1) [OF assms(1,2), of k]
  show "distinct (map fst chain)" using p l assms(3) by (simp add: placed_def)
  show "\<forall>e \<in> set chain. slot_of ty d (fst e) = slot_of ty d k" using placed_slot [OF p l] assms(3) by blast
  show "rd (d_table d) (unat (slot_index ty (d_sizemask d) k)) = Some chain"
    using l assms(3) by (simp add: rd_def slot_of_def)
qed

lemma map_of_set_nth:
  "i < length xs \<Longrightarrow> fst (xs ! i) = k \<Longrightarrow> distinct (map fst xs) \<Longrightarrow>
   map fst (xs[i := (k, v)]) = map fst xs \<and> map_of (xs[i := (k, v)]) = (map_of xs)(k \<mapsto> v)"
proof (induction xs arbitrary: i)
  case (Cons x xs)
  show ?case
  proof (cases i)
    case 0
    then show ?thesis using Cons.prems by (cases x) auto
  next
    case (Suc j)
    then have "fst x \<noteq> k" using Cons.prems nth_mem [of j xs] by auto
    then show ?thesis using Cons Suc by (cases x) auto
  qed
qed simp

lemma map_of_delete_nth:
  "i < length xs \<Longrightarrow> fst (xs ! i) = k \<Longrightarrow> distinct (map fst xs) \<Longrightarrow>
   map_of (take i xs @ drop (Suc i) xs) = (map_of xs)(k := None)"
proof (induction xs arbitrary: i)
  case (Cons x xs)
  show ?case
  proof (cases i)
    case 0
    then have "k \<notin> fst ` set xs" using Cons.prems by auto
    then show ?thesis using 0 Cons.prems by (cases x) (auto simp: fun_eq_iff map_of_eq_None_iff)
  next
    case (Suc j)
    then have "fst x \<noteq> k" using Cons.prems nth_mem [of j xs] by auto
    then show ?thesis using Cons Suc by (cases x) (auto simp: fun_eq_iff)
  qed
qed simp

section \<open>The contract of the key and value functions\<close>

locale dict_type =
  fixes ty :: "('k, 'v) dictType"
    and valid_key :: "'k \<Rightarrow> bool"
  assumes same_key: "valid_key a \<Longrightarrow> valid_key b \<Longrightarrow> dictCompareHashKeys ty a b \<longleftrightarrow> a = b"
    and copy_key: "dictSetHashKey ty k = k"
    and copy_val: "dictSetHashVal ty v = v"
begin

definition valid_keys :: "('k, 'v) dict \<Rightarrow> bool" where
  "valid_keys d \<longleftrightarrow> (\<forall>k \<in> dom (dict_map d). valid_key k)"

lemma valid_chain:
  assumes "valid_keys d" "h < length (d_table d)"
  shows "\<forall>e \<in> set (d_table d ! h). valid_key (fst e)"
  using assms by (auto simp: valid_keys_def dict_map_def dom_map_of_conv_image_fst)

lemma chain_find_None:
  "valid_key k \<Longrightarrow> \<forall>e \<in> set chain. valid_key (fst e) \<Longrightarrow> chain_find ty k chain = None \<longleftrightarrow> map_of chain k = None"
  by (induction chain) (auto simp: same_key)

lemma chain_find_Some:
  "chain_find ty k chain = Some i \<Longrightarrow> valid_key k \<Longrightarrow> \<forall>e \<in> set chain. valid_key (fst e) \<Longrightarrow>
   i < length chain \<and> fst (chain ! i) = k"
  by (induction chain arbitrary: i) (auto simp: same_key split: if_splits)

lemma chain_find_val:
  assumes "chain_find ty k chain = Some i" "distinct (map fst chain)" "valid_key k" "\<forall>e \<in> set chain. valid_key (fst e)"
  shows "map_of chain k = Some (snd (chain ! i))"
proof -
  have "(k, snd (chain ! i)) \<in> set chain" using chain_find_Some [OF assms(1,3,4)] by (metis nth_mem prod.collapse)
  then show ?thesis using assms(2) by simp
qed

text \<open>\<open>dictFind\<close> is the lookup.\<close>

lemma find_map:
  assumes "dict_inv ty d" "valid_keys d" "valid_key k"
  obtains he where "dictFind ty k d = Some he" "map_option (dictGetEntryVal d) he = dict_map d k"
    "\<And>h i. he = Some (h, i) \<Longrightarrow> h = slot_of ty d k \<and> chain_find ty k (d_table d ! h) = Some i"
proof (cases "d_size d = 0")
  case True
  then have "d_table d = []" using assms(1) by (auto simp: dict_inv_def unused_def has_size_def)
  then show thesis using that [of None] True by (simp add: dictFind_def dict_map_def)
next
  case False
  then obtain n where n: "has_size ty n d" "n \<le> 30" using assms(1) by (auto simp: dict_inv_def unused_def)
  define chain where "chain = d_table d ! slot_of ty d k"
  note c = sized_chain [OF n chain_def]
  have vc: "\<forall>e \<in> set chain. valid_key (fst e)"
    unfolding chain_def by (rule valid_chain [OF assms(2) sized_slot(1) [OF n]])
  have m: "dict_map d k = map_of chain k" using dict_map_slot [OF n] by (simp add: chain_def)
  have f: "dictFind ty k d = Some (map_option (Pair (slot_of ty d k)) (chain_find ty k chain))"
    using False c(3) by (simp add: dictFind_def Let_def slot_of_def)
  show thesis
  proof (cases "chain_find ty k chain")
    case None
    then show thesis using that [of None] f m chain_find_None [OF assms(3) vc] by simp
  next
    case (Some i)
    then show thesis
      using that [of "Some (slot_of ty d k, i)"] f m chain_find_val [OF Some c(1) assms(3) vc]
      by (simp add: dictGetEntryVal_def chain_def)
  qed
qed

lemma add_map:
  assumes "dict_inv ty d" "length (concat (d_table d)) < 2 ^ 30" "valid_keys d" "valid_key k"
  obtains st d' where "dictAdd calloc_ok malloc_ok ty k v d = Some (st, d')" "dict_inv ty d'"
    "dict_map d' = (if st = DICT_OK then (dict_map d)(k \<mapsto> v) else dict_map d)"
    "st = DICT_OK \<Longrightarrow> dict_map d k = None" "calloc_ok \<Longrightarrow> malloc_ok \<Longrightarrow> dict_map d k = None \<Longrightarrow> st = DICT_OK"
    "length (concat (d_table d')) \<le> Suc (length (concat (d_table d)))" "valid_keys d'"
    "freed_keys d' = freed_keys d" "freed_vals d' = freed_vals d"
proof -
  obtain st d1 n where e: "dictExpandIfNeeded calloc_ok ty d = Some (st, d1)" "dict_map d1 = dict_map d"
      "length (concat (d_table d1)) = length (concat (d_table d))"
      "freed_keys d1 = freed_keys d" "freed_vals d1 = freed_vals d" "calloc_ok \<Longrightarrow> st = DICT_OK"
      "st = DICT_ERR \<Longrightarrow> d1 = d"
      "st = DICT_OK \<Longrightarrow> 2 \<le> n \<and> n \<le> 30 \<and> has_size ty n d1 \<and> length (concat (d_table d1)) < 2 ^ n"
    by (rule dictExpandIfNeeded_spec [OF assms(1,2), of calloc_ok]) blast
  show thesis
  proof (cases st)
    case DICT_ERR
    then show thesis
      using that [of DICT_ERR d] e assms(1,3) by (auto simp: dictAdd_def dictKeyIndex_def)
  next
    case DICT_OK
    then have n: "2 \<le> n" "n \<le> 30" "has_size ty n d1" "length (concat (d_table d1)) < 2 ^ n" using e(8) by auto
    have inv1: "dict_inv ty d1" using n by (auto simp: dict_inv_def)
    define h where "h = slot_of ty d1 k"
    define chain where "chain = d_table d1 ! slot_of ty d1 k"
    note c = sized_chain [OF n(3,2) chain_def] and s = sized_slot [OF n(3,2), of k]
    have vc: "\<forall>e \<in> set chain. valid_key (fst e)"
      unfolding chain_def
      by (rule valid_chain [OF _ sized_slot(1) [OF n(3,2)]]) (use assms(3) e(2) in \<open>simp add: valid_keys_def\<close>)
    have m: "dict_map d k = map_of chain k" using dict_map_slot [OF n(3,2), of k] e(2) by (simp add: chain_def)
    show thesis
    proof (cases "chain_find ty k chain = None \<and> malloc_ok")
      case False
      then have "dictAdd calloc_ok malloc_ok ty k v d = Some (DICT_ERR, d1)"
        using e(1) DICT_OK c(3) s by (auto simp: dictAdd_def dictKeyIndex_def)
      then show thesis
        using that [of DICT_ERR d1] inv1 e assms(3) valid_keys_def False m chain_find_None [OF assms(4) vc] by auto
    next
      case True
      have none: "map_of chain k = None" using True chain_find_None [OF assms(4) vc] by blast
      define d' where "d' = d1\<lparr>d_table := (d_table d1)[h := (k, v) # chain], d_used := d_used d1 + 1\<rparr>"
      have add: "dictAdd calloc_ok malloc_ok ty k v d = Some (DICT_OK, d')"
        using e(1) DICT_OK c(3) s True
        by (simp add: dictAdd_def dictKeyIndex_def copy_key copy_val d'_def h_def chain_def)
      have dist: "distinct (map fst ((k, v) # chain))" using none c(1) by (simp add: map_of_eq_None_iff)
      have slots: "\<forall>e \<in> set ((k, v) # chain). slot_of ty d1 (fst e) = h" using c(2) by (simp add: h_def)
      have u: "placed (slot_of ty d1) ((d_table d1)[h := (k, v) # chain])"
          "map_of (concat ((d_table d1)[h := (k, v) # chain])) = (dict_map d1)(k := map_of ((k, v) # chain) k)"
        by (rule update_slot [OF n(3,2) h_def dist slots]; simp add: h_def chain_def)+
      have l: "length (concat (d_table d')) = Suc (length (concat (d_table d1)))"
        using length_concat_update [of h "d_table d1" "(k, v) # chain"] s(1) by (simp add: d'_def h_def chain_def)
      have "has_size ty n d'"
        using n(3,4) u(1) l by (simp add: has_size_def d'_def slot_of_def [abs_def] counted_def)
      then have "dict_inv ty d'" using n by (auto simp: dict_inv_def)
      moreover have "dict_map d' = (dict_map d)(k \<mapsto> v)" using u(2) e(2) by (simp add: dict_map_def d'_def)
      ultimately show thesis
        using that [OF add] l e none m assms(3,4) by (simp add: d'_def valid_keys_def)
    qed
  qed
qed

text \<open>The entry with a key, in a table that holds it.\<close>

lemma found_entry:
  assumes "dict_inv ty d" "valid_keys d" "valid_key k" "dict_map d k = Some v"
  obtains n i where "2 \<le> n" "n \<le> 30" "has_size ty n d" "d_size d \<noteq> 0"
    "chain_find ty k (d_table d ! slot_of ty d k) = Some i" "i < length (d_table d ! slot_of ty d k)"
    "d_table d ! slot_of ty d k ! i = (k, v)"
proof -
  have "\<not> unused d" using assms(4) by (auto simp: unused_def dict_map_def)
  then obtain n where n: "2 \<le> n" "n \<le> 30" "has_size ty n d" using assms(1) by (auto simp: dict_inv_def)
  define chain where "chain = d_table d ! slot_of ty d k"
  note c = sized_chain [OF n(3,2) chain_def]
  have vc: "\<forall>e \<in> set chain. valid_key (fst e)"
    unfolding chain_def by (rule valid_chain [OF assms(2) sized_slot(1) [OF n(3,2)]])
  have m: "map_of chain k = Some v" using assms(4) dict_map_slot [OF n(3,2), of k] by (simp add: chain_def)
  then obtain i where i: "chain_find ty k chain = Some i" using chain_find_None [OF assms(3) vc] by fastforce
  have "chain ! i = (k, v)"
    using chain_find_Some [OF i assms(3) vc] chain_find_val [OF i c(1) assms(3) vc] m by (metis option.inject prod.collapse)
  then show thesis
    using that [OF n _ i [unfolded chain_def]] chain_find_Some [OF i assms(3) vc] n by (simp add: chain_def has_size_def)
qed

lemma replace_map:
  assumes "dict_inv ty d" "length (concat (d_table d)) < 2 ^ 30" "valid_keys d" "valid_key k"
  obtains r d' where "dictReplace calloc_ok malloc_ok ty k v d = Some (r, d')" "dict_inv ty d'" "valid_keys d'"
    "calloc_ok \<and> malloc_ok \<or> dict_map d k \<noteq> None \<Longrightarrow> dict_map d' = (dict_map d)(k \<mapsto> v)"
    "\<not> (calloc_ok \<and> malloc_ok) \<Longrightarrow> dict_map d k = None \<Longrightarrow> dict_map d' = dict_map d \<or> dict_map d' = (dict_map d)(k \<mapsto> v)"
    "r = (if dict_map d k = None \<and> dict_map d' k \<noteq> None then 1 else 0)"
    "length (concat (d_table d')) \<le> Suc (length (concat (d_table d)))"
proof -
  obtain st d1 where a: "dictAdd calloc_ok malloc_ok ty k v d = Some (st, d1)" "dict_inv ty d1"
      "dict_map d1 = (if st = DICT_OK then (dict_map d)(k \<mapsto> v) else dict_map d)"
      "st = DICT_OK \<Longrightarrow> dict_map d k = None" "calloc_ok \<Longrightarrow> malloc_ok \<Longrightarrow> dict_map d k = None \<Longrightarrow> st = DICT_OK"
      "length (concat (d_table d1)) \<le> Suc (length (concat (d_table d)))" "valid_keys d1"
    by (rule add_map [OF assms, where calloc_ok = calloc_ok and malloc_ok = malloc_ok and v = v]) (rule that)
  show thesis
  proof (cases "st = DICT_OK")
    case True
    then show thesis using that [of 1 d1] a by (simp add: dictReplace_def)
  next
    case False
    then have err: "st = DICT_ERR" "dict_map d1 = dict_map d" using a(3) by (cases st; simp)+
    show thesis
    proof (cases "dict_map d k")
      case None
      then have "dictFind ty k d1 = Some None"
        using find_map [OF a(2,7) assms(4)] err(2) by (metis option.map_disc_iff)
      then have "dictReplace calloc_ok malloc_ok ty k v d = Some (0, d1)" using a(1) err(1) by (simp add: dictReplace_def)
      then show thesis by (rule that) (use a err None in auto)
    next
      case (Some w)
      then have w: "dict_map d1 k = Some w" using err(2) by simp
      obtain n i where n: "2 \<le> n" "n \<le> 30" "has_size ty n d1" "d_size d1 \<noteq> 0"
          "chain_find ty k (d_table d1 ! slot_of ty d1 k) = Some i" "i < length (d_table d1 ! slot_of ty d1 k)"
          "d_table d1 ! slot_of ty d1 k ! i = (k, w)"
        by (rule found_entry [OF a(2,7) assms(4) w])
      define h where "h = slot_of ty d1 k"
      define chain where "chain = d_table d1 ! slot_of ty d1 k"
      define chain' where "chain' = chain[i := (k, v)]"
      note c = sized_chain [OF n(3,2) chain_def] and s = sized_slot [OF n(3,2), of k]
      have i: "i < length chain" "fst (chain ! i) = k" using n(6,7) by (simp_all add: chain_def)
      have new: "map fst chain' = map fst chain" "map_of chain' = (map_of chain)(k \<mapsto> v)"
        using map_of_set_nth [OF i c(1)] by (simp_all add: chain'_def)
      have find: "dictFind ty k d1 = Some (Some (h, i))"
        using n(4,5) c(3) by (simp add: dictFind_def Let_def h_def slot_of_def chain_def)
      define d2 where "d2 = d1\<lparr>d_table := (d_table d1)[h := chain']\<rparr>"
      have set: "setEntryVal (h, i) v d1 = d2"
        using i by (simp add: setEntryVal_def d2_def chain'_def chain_def h_def)
      have slots: "\<forall>e \<in> set chain'. slot_of ty d1 (fst e) = h"
      proof
        fix e assume "e \<in> set chain'"
        then have "fst e \<in> set (map fst chain)" using new(1) by (metis image_eqI list.set_map)
        then show "slot_of ty d1 (fst e) = h" using c(2) by (auto simp: h_def)
      qed
      have u: "placed (slot_of ty d1) ((d_table d1)[h := chain'])"
          "map_of (concat ((d_table d1)[h := chain'])) = (dict_map d1)(k := map_of chain' k)"
        by (rule update_slot [OF n(3,2) h_def _ slots]; use new c(1) in \<open>simp add: h_def chain_def\<close>)+
      have l: "length (concat (d_table d2)) = length (concat (d_table d1))"
        using length_concat_update [of h "d_table d1" chain'] s(1)
        by (simp add: d2_def h_def chain_def chain'_def)
      have "has_size ty n d2"
        using n(3) u(1) l by (simp add: has_size_def d2_def slot_of_def [abs_def] counted_def)
      then have inv2: "dict_inv ty d2" using n by (auto simp: dict_inv_def)
      have m2: "dict_map d2 = (dict_map d)(k \<mapsto> v)" using u(2) new(2) err(2) by (simp add: dict_map_def d2_def)
      define d3 where "d3 = dictFreeEntryVal ty (dictGetEntryVal d1 (h, i)) d2"
      have same: "dict_map d3 = dict_map d2" "d_table d3 = d_table d2" "dict_inv ty d3 = dict_inv ty d2"
        by (simp_all add: d3_def dictFreeEntryVal_def dict_map_def dict_inv_def unused_def has_size_def slot_of_def [abs_def] counted_def)
      show thesis
      proof (rule that)
        show "dictReplace calloc_ok malloc_ok ty k v d = Some (0, d3)"
          using a(1) err(1) find by (simp add: dictReplace_def copy_val set d3_def)
        show "valid_keys d3" using a(7) assms(4) err(2) same(1) m2 by (simp add: valid_keys_def)
      qed (use same inv2 m2 Some l a(6) in simp_all)
    qed
  qed
qed

lemma delete_map:
  assumes "dict_inv ty d" "valid_keys d" "valid_key k"
  obtains st d' where "dictDelete ty k d = Some (st, d')" "dict_inv ty d'" "valid_keys d'"
    "dict_map d' = (dict_map d)(k := None)" "st = (if dict_map d k = None then DICT_ERR else DICT_OK)"
    "length (concat (d_table d')) \<le> length (concat (d_table d))"
proof (cases "dict_map d k")
  case None
  obtain he where he: "dictFind ty k d = Some he" "map_option (dictGetEntryVal d) he = dict_map d k"
    by (rule find_map [OF assms])
  then have "dictDelete ty k d = Some (DICT_ERR, d)"
    using None by (auto simp: dictFind_def dictDelete_def Let_def split: if_splits option.splits)
  moreover have "(dict_map d)(k := None) = dict_map d" using None by (simp add: fun_upd_idem)
  ultimately show thesis using that [of DICT_ERR d] assms None by simp
next
  case (Some w)
  obtain n i where n: "2 \<le> n" "n \<le> 30" "has_size ty n d" "d_size d \<noteq> 0"
      "chain_find ty k (d_table d ! slot_of ty d k) = Some i" "i < length (d_table d ! slot_of ty d k)"
      "d_table d ! slot_of ty d k ! i = (k, w)"
    by (rule found_entry [OF assms Some])
  define h where "h = slot_of ty d k"
  define chain where "chain = d_table d ! slot_of ty d k"
  define chain' where "chain' = take i chain @ drop (Suc i) chain"
  note c = sized_chain [OF n(3,2) chain_def] and s = sized_slot [OF n(3,2), of k]
  have i: "i < length chain" "fst (chain ! i) = k" using n(6,7) by (simp_all add: chain_def)
  have new: "map_of chain' = (map_of chain)(k := None)" using map_of_delete_nth [OF i c(1)] by (simp add: chain'_def)
  have sub: "set chain' \<subseteq> set chain" by (auto simp: chain'_def dest: in_set_takeD in_set_dropD)
  have "distinct (take i (map fst chain) @ drop (Suc i) (map fst chain))"
    using c(1) i(1) by (metis distinct_append id_take_nth_drop distinct.simps(2) length_map Int_insert_right disjoint_insert(2) list.set(2))
  then have dist: "distinct (map fst chain')" by (simp add: chain'_def take_map drop_map)
  define d1 where "d1 = d\<lparr>d_table := (d_table d)[h := chain'], d_used := d_used d - 1\<rparr>"
  have u: "placed (slot_of ty d) ((d_table d)[h := chain'])"
      "map_of (concat ((d_table d)[h := chain'])) = (dict_map d)(k := map_of chain' k)"
    by (rule update_slot [OF n(3,2) h_def dist]; use sub c(2) new in \<open>auto simp: h_def chain_def\<close>)+
  have "length chain' + 1 = length chain" using i(1) by (simp add: chain'_def)
  then have l: "length (concat (d_table d1)) + 1 = length (concat (d_table d))"
    using length_concat_update [of h "d_table d" chain'] s(1) by (simp add: d1_def h_def chain_def)
  have "d_used d - 1 = of_nat (length (concat (d_table d1)))"
    using n(3) l by (simp add: has_size_def counted_def flip: l)
  then have "has_size ty n d1"
    using n(3) u(1) l by (simp add: has_size_def d1_def slot_of_def [abs_def] counted_def)
  then have inv1: "dict_inv ty d1" using n by (auto simp: dict_inv_def)
  have m1: "dict_map d1 = (dict_map d)(k := None)" using u(2) new by (simp add: dict_map_def d1_def)
  define d2 where "d2 = d1\<lparr>freed_keys := freed_keys d @ (if keyDestructor ty then [fst (chain ! i)] else []),
    freed_vals := freed_vals d @ (if valDestructor ty then [snd (chain ! i)] else [])\<rparr>"
  have find: "chain_find ty k chain = Some i" using n(5) by (simp add: chain_def)
  have del: "dictDelete ty k d = Some (DICT_OK, d2)"
    using n(4) find c(3)
    by (simp add: dictDelete_def Let_def d2_def d1_def chain'_def h_def slot_of_def dictFreeEntryVal_def dictFreeEntryKey_def)
  have same: "dict_map d2 = dict_map d1" "d_table d2 = d_table d1" "dict_inv ty d2 = dict_inv ty d1"
    by (simp_all add: d2_def dict_map_def dict_inv_def unused_def has_size_def slot_of_def [abs_def] counted_def)
  show thesis
    by (rule that [OF del]) (use same inv1 m1 Some l assms(2) in \<open>simp_all add: valid_keys_def\<close>)
qed

end


section \<open>Iteration\<close>

definition entries_of_slot :: "('k, 'v) dict \<Rightarrow> nat \<Rightarrow> (nat \<times> nat) list" where
  "entries_of_slot d h = map (Pair h) [0..<length (d_table d ! h)]"

definition entries_from :: "('k, 'v) dict \<Rightarrow> nat \<Rightarrow> (nat \<times> nat) list" where
  "entries_from d h = concat (map (entries_of_slot d) [h..<length (d_table d)])"

definition entries_after :: "('k, 'v) dict \<Rightarrow> nat \<times> nat \<Rightarrow> (nat \<times> nat) list" where
  "entries_after d he = map (Pair (fst he)) [Suc (snd he)..<length (d_table d ! fst he)] @ entries_from d (Suc (fst he))"

definition iterator_at :: "('k, 'v) dict \<Rightarrow> nat \<times> nat \<Rightarrow> dictIterator" where
  "iterator_at d he = \<lparr>it_index = int (fst he), it_entry = Some he, it_next = entry_next d he\<rparr>"

definition next_is :: "('k, 'v) dict \<Rightarrow> (nat \<times> nat) list \<Rightarrow> ((nat \<times> nat) option \<times> dictIterator) option \<Rightarrow> bool" where
  "next_is d es r = (case es of
     [] \<Rightarrow> \<exists>it. r = Some (None, it)
   | he # rest \<Rightarrow> r = Some (Some he, iterator_at d he) \<and> rest = entries_after d he \<and> fst he < length (d_table d))"

lemma entries_from_step:
  "h < length (d_table d) \<Longrightarrow> entries_from d h =
     (if d_table d ! h = [] then entries_from d (Suc h) else (h, 0) # entries_after d (h, 0))"
  by (cases "d_table d ! h") (auto simp: entries_from_def entries_after_def entries_of_slot_def upt_conv_Cons simp del: upt_Suc)

lemma signed_size_pow: "n \<le> 30 \<Longrightarrow> signed_size d = 2 ^ n" if "d_size d = 2 ^ n" for n
proof -
  assume n: "n \<le> 30"
  have "(2 :: nat) ^ n \<le> 2 ^ 30" using n by (intro power_increasing) simp_all
  then have l: "(2 :: nat) ^ n < 2 ^ 31" by simp
  have u: "unat (ucast (d_size d) :: u32) = 2 ^ n"
    using that n l by (simp add: unsigned_ucast_eq take_bit_nat_eq_self)
  show "signed_size d = 2 ^ n" unfolding signed_size_def using sint_small [of "ucast (d_size d)"] u l by simp
qed

lemma next_from:
  assumes "signed_size d = int (length (d_table d))" "h \<le> length (d_table d)" "length (d_table d) - h < n"
  shows "next_is d (entries_from d h) (dictNext_loop n d \<lparr>it_index = int h - 1, it_entry = None, it_next = nx\<rparr>)"
  using assms(2,3)
proof (induction n arbitrary: h nx)
  case (Suc n)
  show ?case
  proof (cases "h = length (d_table d)")
    case True
    then show ?thesis by (simp add: assms(1) entries_from_def next_is_def)
  next
    case False
    then have h: "h < length (d_table d)" using Suc.prems by simp
    show ?thesis
    proof (cases "d_table d ! h")
      case Nil
      then show ?thesis
        using h Suc.IH [of "Suc h" nx] Suc.prems by (simp add: assms(1) entries_from_step Let_def entry_at_def)
    next
      case (Cons e es)
      then show ?thesis
        using h by (simp add: assms(1) entries_from_step Let_def entry_at_def next_is_def iterator_at_def)
    qed
  qed
qed simp

lemma next_after:
  assumes "signed_size d = int (length (d_table d))" "fst he < length (d_table d)" "length (d_table d) - fst he < n"
  shows "next_is d (entries_after d he) (dictNext_loop n d (iterator_at d he))"
proof -
  obtain m where m: "n = Suc m" using assms(3) by (cases n) auto
  obtain h i where he: "he = (h, i)" by (cases he)
  show ?thesis
  proof (cases "Suc i < length (d_table d ! h)")
    case True
    then have "entries_after d he = (h, Suc i) # entries_after d (h, Suc i)"
      by (simp add: entries_after_def he upt_conv_Cons)
    then show ?thesis
      using True assms(2) by (simp add: next_is_def m iterator_at_def he entry_next_def entry_at_def Let_def)
  next
    case False
    then have "entries_after d he = entries_from d (Suc h)" by (simp add: entries_after_def he)
    then show ?thesis
      using False next_from [OF assms(1), of "Suc h" m None] assms(2,3)
      by (simp add: m iterator_at_def he entry_next_def entry_at_def Let_def)
  qed
qed

lemma iterate_rest:
  assumes "signed_size d = int (length (d_table d))" "length (d_table d) = unat (d_size d)"
  shows "next_is d es (dictNext d it) \<Longrightarrow> length es < n \<Longrightarrow> iterate n d it = Some es"
proof (induction n arbitrary: es it)
  case (Suc n)
  show ?case
  proof (cases es)
    case Nil
    then show ?thesis using Suc.prems by (auto simp: next_is_def)
  next
    case (Cons he rest)
    then have "next_is d rest (dictNext d (iterator_at d he))"
      using Suc.prems(1) next_after [OF assms(1), of he "unat (d_size d) + 2"] assms(2)
      unfolding dictNext_def by (auto simp: next_is_def)
    then have "iterate n d (iterator_at d he) = Some rest" using Suc.IH Suc.prems(2) Cons by simp
    then show ?thesis using Suc.prems(1) Cons by (simp add: next_is_def)
  qed
qed simp

lemma entries_from_zero: "map (\<lambda>(h, i). d_table d ! h ! i) (entries_from d 0) = concat (d_table d)"
proof -
  have "map (\<lambda>(h, i). d_table d ! h ! i) (entries_of_slot d h) = d_table d ! h" for h
    by (simp add: entries_of_slot_def comp_def map_nth)
  then have "map (\<lambda>(h, i). d_table d ! h ! i) (entries_from d 0) = concat (map (\<lambda>h. d_table d ! h) [0..<length (d_table d)])"
    by (simp add: entries_from_def map_concat comp_def)
  then show ?thesis by (simp add: map_nth)
qed

lemma iterate_all:
  assumes "dict_inv ty d"
  obtains es where "iterate (Suc (length (concat (d_table d)))) d dictInitIterator = Some es"
    "map (\<lambda>(h, i). d_table d ! h ! i) es = concat (d_table d)"
proof -
  have s: "signed_size d = int (length (d_table d))"
    using assms unfolding dict_inv_def
  proof (elim disjE exE conjE)
    fix n assume n: "2 \<le> n" "n \<le> 30" "has_size ty n d"
    then show ?thesis using signed_size_pow [of d n] by (simp add: has_size_def)
  qed (simp add: unused_def signed_size_def)
  have "next_is d (entries_from d 0) (dictNext d dictInitIterator)"
    using next_from [OF s, of 0 "unat (d_size d) + 2" None] dict_inv_facts(3) [OF assms]
    by (simp add: dictNext_def dictInitIterator_def)
  moreover have "length (entries_from d 0) = length (concat (d_table d))"
    using arg_cong [OF entries_from_zero [of d], of length] by simp
  ultimately have "iterate (Suc (length (concat (d_table d)))) d dictInitIterator = Some (entries_from d 0)"
    by (intro iterate_rest [OF s dict_inv_facts(3) [OF assms]]) simp_all
  then show thesis using that entries_from_zero [of d] by blast
qed

section \<open>Clearing\<close>

lemma clear_chain_spec:
  "clear_chain ty es d = d\<lparr>d_used := d_used d - of_nat (length es),
     freed_keys := freed_keys d @ (if keyDestructor ty then map fst es else []),
     freed_vals := freed_vals d @ (if valDestructor ty then map snd es else [])\<rparr>"
  by (induction es arbitrary: d) (auto simp: Let_def dictFreeEntryVal_def dictFreeEntryKey_def algebra_simps)

lemma clear_slots_spec:
  assumes "d_used d = of_nat (length (concat (drop i (d_table d))))" "length (concat (drop i (d_table d))) < 2 ^ 63"
    "i + n = length (d_table d)"
  shows "clear_slots n ty i d = Some (d\<lparr>d_used := 0,
     freed_keys := freed_keys d @ (if keyDestructor ty then map fst (concat (drop i (d_table d))) else []),
     freed_vals := freed_vals d @ (if valDestructor ty then map snd (concat (drop i (d_table d))) else [])\<rparr>)"
  using assms
proof (induction n arbitrary: i d)
  case (Suc n)
  have i: "i < length (d_table d)" using Suc.prems(3) by simp
  have dr: "drop i (d_table d) = d_table d ! i # drop (Suc i) (d_table d)" using i by (simp add: Cons_nth_drop_Suc)
  show ?case
  proof (cases "d_used d = 0")
    case True
    have "unat (d_used d) = length (concat (drop i (d_table d)))"
      using Suc.prems(1,2) unat_of_nat_small [where 'w = 64, of "length (concat (drop i (d_table d)))"] by simp
    then have "concat (drop i (d_table d)) = []" using True by simp
    then show ?thesis using True by (simp del: concat_eq_Nil_conv)
  next
    case False
    define d1 where "d1 = clear_chain ty (d_table d ! i) d"
    have "d_used d1 = of_nat (length (concat (drop (Suc i) (d_table d1))))"
      using Suc.prems(1) by (simp add: d1_def clear_chain_spec dr)
    then have "clear_slots n ty (Suc i) d1 = Some (d1\<lparr>d_used := 0,
        freed_keys := freed_keys d1 @ (if keyDestructor ty then map fst (concat (drop (Suc i) (d_table d1))) else []),
        freed_vals := freed_vals d1 @ (if valDestructor ty then map snd (concat (drop (Suc i) (d_table d1))) else [])\<rparr>)"
      by (rule Suc.IH) (use Suc.prems(2,3) dr in \<open>simp_all add: d1_def clear_chain_spec\<close>)
    then show ?thesis using False i by (simp add: rd_def d1_def [symmetric]) (simp add: d1_def clear_chain_spec dr)
  qed
qed simp

lemma clear_all:
  assumes "dict_inv ty d"
  shows "\<exists>d'. dictClear ty d = Some d' \<and> unused d' \<and>
     freed_keys d' = freed_keys d @ (if keyDestructor ty then map fst (concat (d_table d)) else []) \<and>
     freed_vals d' = freed_vals d @ (if valDestructor ty then map snd (concat (d_table d)) else [])"
  using clear_slots_spec [of d 0 "unat (d_size d)" ty] dict_inv_facts [OF assms]
  by (auto simp: dictClear_def counted_def dictReset_def unused_def)

section \<open>Histories\<close>

datatype ('k, 'v) dict_op = Add 'k 'v | Replace 'k 'v | Delete 'k | Lookup 'k

datatype 'v dict_answer = Status dict_status | Code int | Found "'v option"

text \<open>The operations on the table, when every allocation succeeds, and on a map.\<close>

fun dict_step :: "('k, 'v) dictType \<Rightarrow> ('k, 'v) dict_op \<Rightarrow> ('k, 'v) dict \<Rightarrow> ('v dict_answer \<times> ('k, 'v) dict) option" where
  "dict_step ty (Add k v) d = map_option (map_prod Status id) (dictAdd True True ty k v d)"
| "dict_step ty (Replace k v) d = map_option (map_prod Code id) (dictReplace True True ty k v d)"
| "dict_step ty (Delete k) d = map_option (map_prod Status id) (dictDelete ty k d)"
| "dict_step ty (Lookup k) d = map_option (\<lambda>he. (Found (map_option (dictGetEntryVal d) he), d)) (dictFind ty k d)"

fun map_step :: "('k, 'v) dict_op \<Rightarrow> ('k \<rightharpoonup> 'v) \<Rightarrow> 'v dict_answer \<times> ('k \<rightharpoonup> 'v)" where
  "map_step (Add k v) m = (if m k = None then (Status DICT_OK, m(k \<mapsto> v)) else (Status DICT_ERR, m))"
| "map_step (Replace k v) m = (Code (if m k = None then 1 else 0), m(k \<mapsto> v))"
| "map_step (Delete k) m = (Status (if m k = None then DICT_ERR else DICT_OK), m(k := None))"
| "map_step (Lookup k) m = (Found (m k), m)"

fun dict_run :: "('k, 'v) dictType \<Rightarrow> ('k, 'v) dict_op list \<Rightarrow> ('k, 'v) dict \<Rightarrow> ('v dict_answer list \<times> ('k, 'v) dict) option" where
  "dict_run ty [] d = Some ([], d)"
| "dict_run ty (op # ops) d = Option.bind (dict_step ty op d) (\<lambda>(a, d).
     map_option (map_prod (Cons a) id) (dict_run ty ops d))"

fun map_run :: "('k, 'v) dict_op list \<Rightarrow> ('k \<rightharpoonup> 'v) \<Rightarrow> 'v dict_answer list \<times> ('k \<rightharpoonup> 'v)" where
  "map_run [] m = ([], m)"
| "map_run (op # ops) m = (let (a, m) = map_step op m in map_prod (Cons a) id (map_run ops m))"

fun op_key :: "('k, 'v) dict_op \<Rightarrow> 'k" where
  "op_key (Add k v) = k"
| "op_key (Replace k v) = k"
| "op_key (Delete k) = k"
| "op_key (Lookup k) = k"

context dict_type
begin

lemma step_map:
  assumes "dict_inv ty d" "valid_keys d" "length (concat (d_table d)) < 2 ^ 30" "valid_key (op_key op)"
  obtains d' where "dict_step ty op d = Some (fst (map_step op (dict_map d)), d')" "dict_inv ty d'" "valid_keys d'"
    "dict_map d' = snd (map_step op (dict_map d))" "length (concat (d_table d')) \<le> Suc (length (concat (d_table d)))"
proof (cases op)
  case (Add k v)
  then have k: "valid_key k" using assms(4) by simp
  obtain st d' where a: "dictAdd True True ty k v d = Some (st, d')" "dict_inv ty d'"
      "dict_map d' = (if st = DICT_OK then (dict_map d)(k \<mapsto> v) else dict_map d)"
      "st = DICT_OK \<Longrightarrow> dict_map d k = None" "True \<Longrightarrow> True \<Longrightarrow> dict_map d k = None \<Longrightarrow> st = DICT_OK"
      "length (concat (d_table d')) \<le> Suc (length (concat (d_table d)))" "valid_keys d'"
    by (rule add_map [OF assms(1,3,2) k, where calloc_ok = True and malloc_ok = True and v = v]) (rule that)
  then show thesis using Add that by (cases st; cases "dict_map d k") auto
next
  case (Replace k v)
  then have k: "valid_key k" using assms(4) by simp
  obtain r d' where a: "dictReplace True True ty k v d = Some (r, d')" "dict_inv ty d'" "valid_keys d'"
      "dict_map d' = (dict_map d)(k \<mapsto> v)" "r = (if dict_map d k = None \<and> dict_map d' k \<noteq> None then 1 else 0)"
      "length (concat (d_table d')) \<le> Suc (length (concat (d_table d)))"
    by (rule replace_map [OF assms(1,3,2) k, of True True v]) blast
  then show thesis using Replace that by auto
next
  case (Delete k)
  then have k: "valid_key k" using assms(4) by simp
  obtain st d' where "dictDelete ty k d = Some (st, d')" "dict_inv ty d'" "valid_keys d'"
      "dict_map d' = (dict_map d)(k := None)" "st = (if dict_map d k = None then DICT_ERR else DICT_OK)"
      "length (concat (d_table d')) \<le> length (concat (d_table d))"
    by (rule delete_map [OF assms(1,2) k])
  then show thesis using Delete that by auto
next
  case (Lookup k)
  then have k: "valid_key k" using assms(4) by simp
  obtain he where "dictFind ty k d = Some he" "map_option (dictGetEntryVal d) he = dict_map d k"
    by (rule find_map [OF assms(1,2) k])
  then show thesis using Lookup that assms(1,2) by auto
qed

lemma run_map:
  assumes "dict_inv ty d" "valid_keys d" "length (concat (d_table d)) + length ops \<le> 2 ^ 30"
    "list_all (\<lambda>op. valid_key (op_key op)) ops"
  shows "\<exists>d'. dict_run ty ops d = Some (fst (map_run ops (dict_map d)), d') \<and> dict_inv ty d' \<and>
    dict_map d' = snd (map_run ops (dict_map d))"
  using assms
proof (induction ops arbitrary: d)
  case (Cons op ops)
  have l: "length (concat (d_table d)) < 2 ^ 30" and v: "valid_key (op_key op)" using Cons.prems by simp_all
  obtain d1 where d1: "dict_step ty op d = Some (fst (map_step op (dict_map d)), d1)" "dict_inv ty d1" "valid_keys d1"
      "dict_map d1 = snd (map_step op (dict_map d))" "length (concat (d_table d1)) \<le> Suc (length (concat (d_table d)))"
    by (rule step_map [OF Cons.prems(1,2) l v])
  obtain d' where d': "dict_run ty ops d1 = Some (fst (map_run ops (dict_map d1)), d')" "dict_inv ty d'"
      "dict_map d' = snd (map_run ops (dict_map d1))"
    using Cons.IH [OF d1(2,3)] Cons.prems(3,4) d1(5) by auto
  show ?case using d1 d' by (simp add: split_def Let_def)
qed simp

lemma run_new:
  assumes "length ops \<le> 2 ^ 30" "list_all (\<lambda>op. valid_key (op_key op)) ops"
  shows "\<exists>d'. dict_run ty ops dictInit = Some (fst (map_run ops Map.empty), d') \<and> dict_inv ty d' \<and>
    dict_map d' = snd (map_run ops Map.empty)"
proof -
  have m: "dict_map (dictInit :: ('k, 'v) dict) = Map.empty" by (simp add: dict_map_def dictInit_def)
  have "dict_inv ty dictInit" by (simp add: dict_inv_def unused_def dictInit_def)
  then show ?thesis using run_map [of dictInit ops] assms m
    by (simp add: valid_keys_def) (simp add: dictInit_def)
qed

end

text \<open>The subscriptions have channel names of fewer than \<open>2 ^ 31\<close> bytes.\<close>

definition channel_name :: "u8 list \<Rightarrow> bool" where
  "channel_name k \<longleftrightarrow> length k < 2 ^ 31"

lemma callbackKeyCompare_eq:
  assumes "channel_name a" "channel_name b"
  shows "callbackKeyCompare a b \<longleftrightarrow> a = b"
proof -
  have s: "sint (of_nat (length k) :: 32 word) = int (length k)" if "channel_name k" for k
  proof -
    have l: "length k < 2 ^ 31" using that by (simp add: channel_name_def)
    then have "unat (of_nat (length k) :: 32 word) = length k"
      using unat_of_nat_small [where 'w = 32, of "length k"] by simp
    then show ?thesis using sint_small [of "of_nat (length k)"] l by simp
  qed
  show ?thesis using s [OF assms(1)] s [OF assms(2)] by (auto simp: callbackKeyCompare_def Let_def)
qed

interpretation subscriptions: dict_type callbackDict channel_name
  by unfold_locales
    (simp_all add: callbackDict_def dictCompareHashKeys_def dictSetHashKey_def dictSetHashVal_def callbackKeyCompare_eq)

text \<open>C33: for the dictionaries of the subscriptions (\<open>callbackDict\<close>), any history of at most \<open>2 ^ 30\<close> additions,
  replacements, deletions and lookups on a new table, with channel names of fewer than \<open>2 ^ 31\<close> bytes and
  successful allocations, ends, gives the answers a map gives and leaves a table that holds that map, however
  often the table has doubled; a complete iteration of that table then returns every entry of the map exactly
  once, and clearing it frees the key and the value of every entry and leaves it empty.\<close>

theorem dict_refines_map:
  fixes ops :: "(u8 list, 'v) dict_op list"
  assumes "length ops \<le> 2 ^ 30" "list_all (\<lambda>op. channel_name (op_key op)) ops"
  shows "\<exists>d es d'. dict_run callbackDict ops dictInit = Some (fst (map_run ops Map.empty), d) \<and>
    iterate (Suc (unat (d_used d))) d dictInitIterator = Some es \<and>
    distinct (map (\<lambda>(h, i). fst (d_table d ! h ! i)) es) \<and>
    map_of (map (\<lambda>(h, i). d_table d ! h ! i) es) = snd (map_run ops Map.empty) \<and>
    dictClear callbackDict d = Some d' \<and> unused d' \<and>
    freed_keys d' = freed_keys d @ map (\<lambda>(h, i). fst (d_table d ! h ! i)) es \<and>
    freed_vals d' = freed_vals d @ map (\<lambda>(h, i). snd (d_table d ! h ! i)) es"
proof -
  obtain d where d: "dict_run callbackDict ops dictInit = Some (fst (map_run ops Map.empty), d)" "dict_inv callbackDict d"
      "dict_map d = snd (map_run ops Map.empty)"
    using subscriptions.run_new [OF assms] by blast
  obtain es where es: "iterate (Suc (length (concat (d_table d)))) d dictInitIterator = Some es"
      "map (\<lambda>(h, i). d_table d ! h ! i) es = concat (d_table d)"
    by (rule iterate_all [OF d(2)])
  have keys: "map (\<lambda>(h, i). fst (d_table d ! h ! i)) es = map fst (concat (d_table d))"
    and vals: "map (\<lambda>(h, i). snd (d_table d ! h ! i)) es = map snd (concat (d_table d))"
    unfolding es(2) [symmetric] by (simp_all add: comp_def split_def)
  have "unat (d_used d) = length (concat (d_table d))"
    using dict_inv_facts [OF d(2)] unat_of_nat_small [where 'w = 64, of "length (concat (d_table d))"]
    by (simp add: counted_def)
  then have it: "iterate (Suc (unat (d_used d))) d dictInitIterator = Some es" using es(1) by (simp del: iterate.simps)
  obtain d' where "dictClear callbackDict d = Some d'" "unused d'"
      "freed_keys d' = freed_keys d @ map fst (concat (d_table d))" "freed_vals d' = freed_vals d @ map snd (concat (d_table d))"
    using clear_all [OF d(2)] by (auto simp: callbackDict_def)
  then show ?thesis
    using d(1,3) it es(2) keys vals dict_inv_facts(2) [OF d(2)] unfolding dict_map_def
    by (intro exI [of _ d] exI [of _ es] exI [of _ d'] conjI) simp_all
qed

text \<open>Six names collide in four slots, so the table doubles; one is replaced and one deleted.\<close>

theorem dict_refines_map_witness:
  "\<exists>d es d'. dict_run callbackDict (map (\<lambda>n. Add [word_of_nat n] n) [97..<103] @
      [Add [97] 7, Replace [98] 8, Delete [99], Lookup [98], Lookup [99]]) dictInit =
      Some (replicate 6 (Status DICT_OK) @ [Status DICT_ERR, Code 0, Status DICT_OK, Found (Some (8 :: nat)), Found None], d) \<and>
    iterate (Suc (unat (d_used d))) d dictInitIterator = Some es \<and> dictClear callbackDict d = Some d' \<and> unused d'"
proof -
  define ops :: "(u8 list, nat) dict_op list" where
    "ops = map (\<lambda>n. Add [word_of_nat n] n) [97..<103] @ [Add [97] 7, Replace [98] 8, Delete [99], Lookup [98], Lookup [99]]"
  have e: "ops = [Add [97] 97, Add [98] 98, Add [99] 99, Add [100] 100, Add [101] 101, Add [102] 102,
      Add [97] 7, Replace [98] 8, Delete [99], Lookup [98], Lookup [99]]"
    by (simp add: ops_def upt_rec)
  have "length ops \<le> 2 ^ 30" "list_all (\<lambda>op. channel_name (op_key op)) ops"
    by (simp_all add: e channel_name_def)
  then obtain d es d' where d: "dict_run callbackDict ops dictInit = Some (fst (map_run ops Map.empty), d)"
      "iterate (Suc (unat (d_used d))) d dictInitIterator = Some es" "dictClear callbackDict d = Some d'" "unused d'"
    by (rule dict_refines_map [elim_format]) blast
  have "fst (map_run ops Map.empty) =
      replicate 6 (Status DICT_OK) @ [Status DICT_ERR, Code 0, Status DICT_OK, Found (Some 8), Found None]"
  proof -
    have "replicate 6 x = [x, x, x, x, x, x]" for x :: "nat dict_answer" by (simp add: eval_nat_numeral)
    then show ?thesis by (simp add: e Let_def)
  qed
  then show ?thesis using d unfolding ops_def by (intro exI [of _ d] exI [of _ es] exI [of _ d']) (simp only: simp_thms)
qed

end
