(* ===== verification/Redis_Async.thy ===== *)
theory Redis_Async
  imports Redis_Dict Redis_Format
begin

text \<open>
  The asynchronous interface of hiredis (\<open>async.c\<close>): the queue of callbacks, the subscriptions in two
  dictionaries (\<open>Redis_Dict\<close>), the processing of replies, and the events of the socket and of the timer.

  The user is a function \<open>user\<close> from the history of the context to the calls that it makes inside the
  callback that the history ends with.  The replies that \<open>redisGetReply\<close> returns in one event are a list:
  the reader that produces them is \<open>Redis_Reader\<close>.  What the socket does is an argument of the event.
  \<open>None\<close> is undefined behaviour, a failed assertion, or a loop that does not end.  Memory for replies, for
  the entries of the dictionaries and for moving a callback is there; the allocations that a command
  makes for its callback or channel name, and for the output buffer, are its arguments.
\<close>

section \<open>State\<close>

text \<open>A reply with its type, text, number and elements.\<close>

datatype reply = Reply (r_type: int) (r_str: string) (r_integer: int) (r_element: "reply list")

abbreviation (input) REPLY_STRING :: int where "REPLY_STRING \<equiv> 1"
abbreviation (input) REPLY_ARRAY :: int where "REPLY_ARRAY \<equiv> 2"
abbreviation (input) REPLY_INTEGER :: int where "REPLY_INTEGER \<equiv> 3"
abbreviation (input) REPLY_ERROR :: int where "REPLY_ERROR \<equiv> 6"
abbreviation (input) REPLY_PUSH :: int where "REPLY_PUSH \<equiv> 12"

abbreviation (input) ERR_OTHER :: int where "ERR_OTHER \<equiv> 2"
abbreviation (input) ERR_OOM :: int where "ERR_OOM \<equiv> 5"
abbreviation (input) ERR_TIMEOUT :: int where "ERR_TIMEOUT \<equiv> 6"

record redisCallback =
  cb_fn :: "nat option"
  pending_subs :: int
  cb_privdata :: nat

text \<open>What happens at the interface: a command is given, a callback is called.\<close>

datatype event =
    Issued "nat option" nat bool
  | Called nat nat "reply option"
  | Pushed reply
  | Connect_status bool
  | Disconnect_status bool

record asyncContext =
  c_err :: int
  ac_err :: int
  f_connected :: bool
  f_disconnecting :: bool
  f_freeing :: bool
  f_in_callback :: bool
  f_subscribed :: bool
  f_monitoring :: bool
  f_supports_push :: bool
  f_no_auto_free :: bool
  replies :: "redisCallback list"
  sub_replies :: "redisCallback list"
  channels :: "(u8 list, redisCallback) dict"
  patterns :: "(u8 list, redisCallback) dict"
  obuf :: string
  on_connect :: bool
  on_disconnect :: bool
  push_cb :: bool
  command_timeout :: "(int \<times> int) option"
  ev_read :: bool
  ev_write :: bool
  ev_cleanup :: bool
  released :: bool
  history :: "event list"

text \<open>A new context for options with \<open>REDIS_OPT_NOAUTOFREE\<close> and with a callback for pushed replies, or without.\<close>

definition redisAsyncInitialize :: "bool \<Rightarrow> bool \<Rightarrow> asyncContext" where
  "redisAsyncInitialize no_auto_free push = \<lparr>c_err = 0, ac_err = 0, f_connected = False, f_disconnecting = False, f_freeing = False,
     f_in_callback = False, f_subscribed = False, f_monitoring = False, f_supports_push = False, f_no_auto_free = no_auto_free,
     replies = [], sub_replies = [], channels = dictInit, patterns = dictInit, obuf = [],
     on_connect = False, on_disconnect = False, push_cb = push, command_timeout = None,
     ev_read = False, ev_write = False, ev_cleanup = False, released = False, history = []\<rparr>"

definition redisAsyncSetConnectCallback :: "asyncContext \<Rightarrow> bool \<times> asyncContext" where
  "redisAsyncSetConnectCallback ac =
     (if \<not> on_connect ac then (True, ac\<lparr>on_connect := True, ev_write := True\<rparr>) else (False, ac))"

definition redisAsyncSetDisconnectCallback :: "asyncContext \<Rightarrow> bool \<times> asyncContext" where
  "redisAsyncSetDisconnectCallback ac =
     (if \<not> on_disconnect ac then (True, ac\<lparr>on_disconnect := True\<rparr>) else (False, ac))"

definition redisAsyncSetPushCallback :: "bool \<Rightarrow> asyncContext \<Rightarrow> bool \<times> asyncContext" where
  "redisAsyncSetPushCallback fn ac = (push_cb ac, ac\<lparr>push_cb := fn\<rparr>)"

definition redisAsyncSetTimeout :: "bool \<Rightarrow> int \<times> int \<Rightarrow> asyncContext \<Rightarrow> bool \<times> asyncContext" where
  "redisAsyncSetTimeout calloc_ok tv ac =
     (if command_timeout ac = None \<and> \<not> calloc_ok then (False, ac\<lparr>c_err := ERR_OOM, ac_err := ERR_OOM\<rparr>)
      else (True, ac\<lparr>command_timeout := Some tv\<rparr>))"

section \<open>Commands\<close>

text \<open>\<open>strncasecmp\<close> on two C strings, each with its terminator behind the list, and \<open>strcasecmp\<close>.\<close>

fun strncase_eq :: "nat \<Rightarrow> string \<Rightarrow> string \<Rightarrow> bool" where
  "strncase_eq 0 s t = True"
| "strncase_eq (Suc n) s t =
     (let a = (case s of [] \<Rightarrow> NUL | c # _ \<Rightarrow> c); b = (case t of [] \<Rightarrow> NUL | c # _ \<Rightarrow> c)
      in if tolower a \<noteq> tolower b then False else if a = NUL then True else strncase_eq n (tl s) (tl t))"

definition strcase_eq :: "string \<Rightarrow> string \<Rightarrow> bool" where
  "strcase_eq s t = strncase_eq (Suc (length t)) s t"

definition is_p :: "string \<Rightarrow> bool" where
  "is_p s = (case s of [] \<Rightarrow> False | c # _ \<Rightarrow> tolower c = CHR ''p'')"

text \<open>\<open>(int)strtol(s, NULL, 10)\<close>\<close>

definition strtol_int :: "string \<Rightarrow> int" where
  "strtol_int s =
     (let s = dropWhile isspace s;
          neg = (s \<noteq> [] \<and> hd s = CHR ''-'');
          s = (if s \<noteq> [] \<and> hd s \<in> {CHR ''-'', CHR ''+''} then tl s else s);
          v = int (dec_value (takeWhile isdigit s));
          l = (if neg then max (- v) (- 9223372036854775808) else min v 9223372036854775807)
      in signed_take_bit 31 l)"

text \<open>
  The next argument of a formatted command from the position \<open>p\<close> on: where its bytes start, its length,
  and the position behind it.  The inner \<open>None\<close> is the null pointer.  A length below zero makes the
  pointer go backwards, as the conversion to \<open>size_t\<close> and the addition do.
\<close>

definition strchr :: "string \<Rightarrow> nat \<Rightarrow> char \<Rightarrow> nat option" where
  "strchr buf p c =
     (let s = takeWhile (\<lambda>x. x \<noteq> NUL) (drop p buf); n = length (takeWhile (\<lambda>x. x \<noteq> c) s)
      in if n < length s then Some (p + n) else None)"

definition nextArgument :: "string \<Rightarrow> nat \<Rightarrow> (nat \<times> int \<times> int) option option" where
  "nextArgument cmd p =
     Option.bind (rd (cmd @ [NUL]) p) (\<lambda>c.
       case (if c = CHR ''$'' then Some p else strchr (cmd @ [NUL]) p (CHR ''$'')) of
         None \<Rightarrow> Some None
       | Some p \<Rightarrow>
           let l = strtol_int (drop (Suc p) (cmd @ [NUL]))
           in Option.bind (strchr (cmd @ [NUL]) p CR) (\<lambda>p. Some (Some (p + 2, l, int p + 2 + l + 2))))"

text \<open>\<open>sdsnewlen(astr, alen)\<close>: the bytes have to lie in the command.\<close>

definition argument_bytes :: "string \<Rightarrow> nat \<Rightarrow> int \<Rightarrow> u8 list option" where
  "argument_bytes cmd a l =
     (if 0 \<le> l \<and> a + nat l \<le> length cmd + 1 then Some (map byte_of_char (take (nat l) (drop a (cmd @ [NUL])))) else None)"

text \<open>
  The loop over the channels of a subscription, with the callback that it changes on the way.  The
  result says whether the loop has ended without running out of memory.
\<close>

partial_function (option) subscribe_loop ::
  "bool \<Rightarrow> string \<Rightarrow> int \<Rightarrow> redisCallback \<Rightarrow> (u8 list, redisCallback) dict \<Rightarrow>
   (bool \<times> (u8 list, redisCallback) dict) option"
where
  "subscribe_loop mem cmd p cb cbdict =
     (if p < 0 then None
      else Option.bind (nextArgument cmd (nat p)) (\<lambda>next.
        case next of
          None \<Rightarrow> Some (True, cbdict)
        | Some (astr, alen, p) \<Rightarrow>
            Option.bind (argument_bytes cmd astr alen) (\<lambda>sname.
              if \<not> mem then Some (False, cbdict)
              else Option.bind (dictFind callbackDict sname cbdict) (\<lambda>de.
                let cb = (case de of None \<Rightarrow> cb
                          | Some he \<Rightarrow> cb\<lparr>pending_subs := pending_subs (dictGetEntryVal cbdict he) + 1\<rparr>)
                in Option.bind (dictReplace mem mem callbackDict sname cb cbdict) (\<lambda>(_, cbdict).
                     subscribe_loop mem cmd p cb cbdict)))))"

datatype cmd_kind = Subscribe bool | Unsubscribe | Monitor | Regular

text \<open>The command that \<open>cmd\<close> holds, with the position of what follows its name.\<close>

definition command_kind :: "string \<Rightarrow> (cmd_kind \<times> int) option" where
  "command_kind cmd =
     Option.bind (nextArgument cmd 0) (\<lambda>next.
       Option.bind next (\<lambda>(cstr, clen, p).
         if p < 0 \<or> length cmd + 1 \<le> cstr then None
         else Option.bind (rd (cmd @ [NUL]) (nat p)) (\<lambda>c.
           let pvariant = is_p (drop cstr cmd); s = (if pvariant then drop (Suc cstr) cmd else drop cstr cmd)
           in Some (if c = CHR ''$'' \<and> strncase_eq 11 s (''subscribe'' @ [CR, LF]) then Subscribe pvariant
                    else if strncase_eq 13 s (''unsubscribe'' @ [CR, LF]) then Unsubscribe
                    else if strncase_eq 9 s (''monitor'' @ [CR, LF]) then Monitor
                    else Regular, p))))"

definition redisPushCallback :: "redisCallback \<Rightarrow> redisCallback list \<Rightarrow> redisCallback list" where
  "redisPushCallback source cbs = cbs @ [source]"

text \<open>\<open>__redisAppendCommand\<close>, whose result is ignored, and the request for a write event\<close>

definition append_command :: "bool \<Rightarrow> string \<Rightarrow> asyncContext \<Rightarrow> asyncContext" where
  "append_command buf_mem cmd ac =
     (if buf_mem then ac\<lparr>obuf := obuf ac @ cmd\<rparr> else ac\<lparr>c_err := ERR_OOM\<rparr>)\<lparr>ev_write := True\<rparr>"

definition out_of_memory :: "asyncContext \<Rightarrow> asyncContext" where
  "out_of_memory ac = ac\<lparr>c_err := ERR_OOM, ac_err := ERR_OOM\<rparr>"

definition async_command ::
  "nat option \<Rightarrow> nat \<Rightarrow> string \<Rightarrow> bool \<Rightarrow> bool \<Rightarrow> asyncContext \<Rightarrow> (bool \<times> asyncContext) option"
where
  "async_command fn privdata cmd mem buf_mem ac =
     (if f_disconnecting ac \<or> f_freeing ac then Some (False, ac)
      else let cb = \<lparr>cb_fn = fn, pending_subs = 1, cb_privdata = privdata\<rparr>
      in Option.bind (command_kind cmd) (\<lambda>(kind, p).
        case kind of
          Subscribe pvariant \<Rightarrow>
            let ac = ac\<lparr>f_subscribed := True\<rparr>
            in Option.bind (subscribe_loop mem cmd p cb (if pvariant then patterns ac else channels ac))
                 (\<lambda>(ok, cbdict).
                   let ac = (if pvariant then ac\<lparr>patterns := cbdict\<rparr> else ac\<lparr>channels := cbdict\<rparr>)
                   in Some (if ok then (True, append_command buf_mem cmd ac) else (False, out_of_memory ac)))
        | Unsubscribe \<Rightarrow>
            Some (if \<not> f_subscribed ac then (False, ac) else (True, append_command buf_mem cmd ac))
        | Monitor \<Rightarrow>
            let ac = ac\<lparr>f_monitoring := True\<rparr>
            in Some (if \<not> mem then (False, out_of_memory ac)
                     else (True, append_command buf_mem cmd (ac\<lparr>replies := redisPushCallback cb (replies ac)\<rparr>)))
        | Regular \<Rightarrow>
            Some (if \<not> mem then (False, out_of_memory ac)
                  else (True, append_command buf_mem cmd
                    (if f_subscribed ac then ac\<lparr>sub_replies := redisPushCallback cb (sub_replies ac)\<rparr>
                     else ac\<lparr>replies := redisPushCallback cb (replies ac)\<rparr>)))))"

definition redisAsyncFormattedCommand ::
  "nat option \<Rightarrow> nat \<Rightarrow> string \<Rightarrow> bool \<Rightarrow> bool \<Rightarrow> asyncContext \<Rightarrow> asyncContext option"
where
  "redisAsyncFormattedCommand fn privdata cmd mem buf_mem ac =
     map_option (\<lambda>(ok, ac). ac\<lparr>history := history ac @ [Issued fn privdata ok]\<rparr>)
       (async_command fn privdata cmd mem buf_mem ac)"

text \<open>The command from a format with its arguments (\<open>redisAsyncCommand\<close> is the same with the arguments in
  place), and from an argument vector.\<close>

definition command_of ::
  "(int \<times> string option) option \<Rightarrow> nat option \<Rightarrow> nat \<Rightarrow> bool \<Rightarrow> bool \<Rightarrow> asyncContext \<Rightarrow> asyncContext option"
where
  "command_of formatted fn privdata mem buf_mem ac =
     Option.bind formatted (\<lambda>(len, cmd).
       if len < 0 then Some (ac\<lparr>history := history ac @ [Issued fn privdata False]\<rparr>)
       else Option.bind cmd (\<lambda>cmd. redisAsyncFormattedCommand fn privdata cmd mem buf_mem ac))"

definition redisvAsyncCommand ::
  "(nat \<Rightarrow> bool) \<Rightarrow> (string \<Rightarrow> va list \<Rightarrow> string) \<Rightarrow> nat option \<Rightarrow> nat \<Rightarrow> string \<Rightarrow> va list \<Rightarrow> bool \<Rightarrow> bool \<Rightarrow> asyncContext \<Rightarrow> asyncContext option"
where
  "redisvAsyncCommand alloc vpf fn privdata format ap = command_of (redisvFormatCommand alloc vpf format ap) fn privdata"

definition redisAsyncCommandArgv ::
  "(nat \<Rightarrow> bool) \<Rightarrow> nat option \<Rightarrow> nat \<Rightarrow> string list \<Rightarrow> nat list option \<Rightarrow> bool \<Rightarrow> bool \<Rightarrow> asyncContext \<Rightarrow> asyncContext option"
where
  "redisAsyncCommandArgv alloc fn privdata argv argvlen = command_of (redisFormatSdsCommandArgv alloc argv argvlen) fn privdata"

section \<open>Callbacks\<close>

text \<open>
  A call of the user.  In a callback of a reply the flag \<open>REDIS_IN_CALLBACK\<close> defers the work of
  \<open>redisAsyncDisconnect\<close> and \<open>redisAsyncFree\<close>; elsewhere \<open>disconnect\<close> and \<open>free\<close> do it.
\<close>

datatype api =
    Command "nat option" nat string bool bool
  | Disconnect
  | Free

fun api_call ::
  "(asyncContext \<Rightarrow> asyncContext option) \<Rightarrow> (asyncContext \<Rightarrow> asyncContext option) \<Rightarrow> api \<Rightarrow> asyncContext \<Rightarrow> asyncContext option"
where
  "api_call disconnect free (Command fn privdata cmd mem buf_mem) ac =
     (if released ac then None else redisAsyncFormattedCommand fn privdata cmd mem buf_mem ac)"
| "api_call disconnect free Disconnect ac =
     (if released ac then None
      else let ac = ac\<lparr>f_disconnecting := True, f_no_auto_free := False\<rparr>
      in if \<not> f_in_callback ac \<and> replies ac = [] then disconnect ac else Some ac)"
| "api_call disconnect free Free ac =
     (if released ac then None
      else let ac = ac\<lparr>f_freeing := True\<rparr>
      in if \<not> f_in_callback ac then free ac else Some ac)"

primrec api_calls ::
  "(asyncContext \<Rightarrow> asyncContext option) \<Rightarrow> (asyncContext \<Rightarrow> asyncContext option) \<Rightarrow> api list \<Rightarrow> asyncContext \<Rightarrow> asyncContext option"
where
  "api_calls disconnect free [] ac = Some ac"
| "api_calls disconnect free (a # as) ac = Option.bind (api_call disconnect free a ac) (api_calls disconnect free as)"

definition in_callback ::
  "(event list \<Rightarrow> api list) \<Rightarrow> event \<Rightarrow> asyncContext \<Rightarrow> asyncContext option"
where
  "in_callback user e ac =
     (let ac = ac\<lparr>f_in_callback := True, history := history ac @ [e]\<rparr>
      in map_option (\<lambda>ac. ac\<lparr>f_in_callback := False\<rparr>) (api_calls Some Some (user (history ac)) ac))"

definition redisRunCallback ::
  "(event list \<Rightarrow> api list) \<Rightarrow> redisCallback \<Rightarrow> reply option \<Rightarrow> asyncContext \<Rightarrow> asyncContext option"
where
  "redisRunCallback user cb r ac =
     (case cb_fn cb of None \<Rightarrow> Some ac | Some fn \<Rightarrow> in_callback user (Called fn (cb_privdata cb) r) ac)"

definition redisRunPushCallback ::
  "(event list \<Rightarrow> api list) \<Rightarrow> reply \<Rightarrow> asyncContext \<Rightarrow> asyncContext option"
where
  "redisRunPushCallback user r ac = (if push_cb ac then in_callback user (Pushed r) ac else Some ac)"

definition redisShiftCallback :: "redisCallback list \<Rightarrow> (redisCallback \<times> redisCallback list) option" where
  "redisShiftCallback cbs = (case cbs of [] \<Rightarrow> None | cb # rest \<Rightarrow> Some (cb, rest))"

section \<open>Release\<close>

text \<open>The loops that run the waiting callbacks without a reply.\<close>

partial_function (option) drain_replies :: "(event list \<Rightarrow> api list) \<Rightarrow> asyncContext \<Rightarrow> asyncContext option" where
  "drain_replies user ac =
     (case redisShiftCallback (replies ac) of
        None \<Rightarrow> Some ac
      | Some (cb, rest) \<Rightarrow> Option.bind (redisRunCallback user cb None (ac\<lparr>replies := rest\<rparr>)) (drain_replies user))"

partial_function (option) drain_sub_replies :: "(event list \<Rightarrow> api list) \<Rightarrow> asyncContext \<Rightarrow> asyncContext option" where
  "drain_sub_replies user ac =
     (case redisShiftCallback (sub_replies ac) of
        None \<Rightarrow> Some ac
      | Some (cb, rest) \<Rightarrow> Option.bind (redisRunCallback user cb None (ac\<lparr>sub_replies := rest\<rparr>)) (drain_sub_replies user))"

partial_function (option) run_subscriptions ::
  "(event list \<Rightarrow> api list) \<Rightarrow> (asyncContext \<Rightarrow> (u8 list, redisCallback) dict) \<Rightarrow> dictIterator \<Rightarrow> asyncContext \<Rightarrow> asyncContext option"
where
  "run_subscriptions user subs it ac =
     Option.bind (dictNext (subs ac) it) (\<lambda>(de, it).
       case de of
         None \<Rightarrow> Some ac
       | Some he \<Rightarrow> Option.bind (redisRunCallback user (dictGetEntryVal (subs ac) he) None ac) (run_subscriptions user subs it))"

text \<open>
  Behind the disconnect callback the context does not exist any more: a release or a disconnection by that
  callback, which would do this a second time, is undefined.
\<close>

definition redisAsyncFree_now :: "(event list \<Rightarrow> api list) \<Rightarrow> asyncContext \<Rightarrow> asyncContext option" where
  "redisAsyncFree_now user ac =
     Option.bind (drain_replies user ac) (\<lambda>ac.
     Option.bind (drain_sub_replies user ac) (\<lambda>ac.
     Option.bind (run_subscriptions user channels dictInitIterator ac) (\<lambda>ac.
     Option.bind (dictClear callbackDict (channels ac)) (\<lambda>d.
     let ac = ac\<lparr>channels := d\<rparr> in
     Option.bind (run_subscriptions user patterns dictInitIterator ac) (\<lambda>ac.
     Option.bind (dictClear callbackDict (patterns ac)) (\<lambda>d.
     let ac = ac\<lparr>patterns := d, ev_cleanup := True\<rparr> in
     Option.bind
       (if on_disconnect ac \<and> f_connected ac
        then let ac = ac\<lparr>history := history ac @ [Disconnect_status (f_freeing ac \<or> ac_err ac = 0)]\<rparr>
             in api_calls (\<lambda>_. None) (\<lambda>_. None) (user (history ac)) ac
        else Some ac) (\<lambda>ac.
     Some (ac\<lparr>released := True\<rparr>))))))))"

definition redisAsyncDisconnect_now :: "(event list \<Rightarrow> api list) \<Rightarrow> asyncContext \<Rightarrow> asyncContext option" where
  "redisAsyncDisconnect_now user ac =
     (let ac = ac\<lparr>ac_err := c_err ac\<rparr>
      in if ac_err ac = 0 \<and> redisShiftCallback (replies ac) \<noteq> None then None
         else let ac = (if ac_err ac = 0 then ac else ac\<lparr>f_disconnecting := True\<rparr>)\<lparr>ev_cleanup := True\<rparr>
              in if \<not> f_no_auto_free ac then redisAsyncFree_now user ac else Some ac)"

text \<open>The calls of the user outside the callbacks of replies\<close>

definition user_call :: "(event list \<Rightarrow> api list) \<Rightarrow> api \<Rightarrow> asyncContext \<Rightarrow> asyncContext option" where
  "user_call user = api_call (redisAsyncDisconnect_now user) (redisAsyncFree_now user)"

definition user_calls :: "(event list \<Rightarrow> api list) \<Rightarrow> api list \<Rightarrow> asyncContext \<Rightarrow> asyncContext option" where
  "user_calls user = api_calls (redisAsyncDisconnect_now user) (redisAsyncFree_now user)"

section \<open>Replies\<close>

definition is_push :: "reply \<Rightarrow> bool" where
  "is_push r \<longleftrightarrow> r_type r = REPLY_PUSH"

definition redisIsSubscribeReply :: "reply \<Rightarrow> bool" where
  "redisIsSubscribeReply r =
     (case r_element r of
        [] \<Rightarrow> False
      | e # _ \<Rightarrow>
          if r_type e \<noteq> REPLY_STRING \<or> length (r_str e) < 7 then False
          else let str = (if is_p (r_str e) then tl (r_str e) else r_str e); len = length str
               in strncase_eq len str ''subscribe'' \<or> strncase_eq len str ''message'' \<or> strncase_eq len str ''unsubscribe'')"

definition element_of :: "int \<Rightarrow> reply \<Rightarrow> nat \<Rightarrow> reply option" where
  "element_of t r i = Option.bind (rd (r_element r) i) (\<lambda>e. if r_type e = t then Some e else None)"

text \<open>An unsubscription: the entry goes when no subscription is pending, and with the last one the context
  leaves the subscribed mode and the callbacks of the commands given meanwhile come into the main queue.\<close>

definition unsubscribed ::
  "bool \<Rightarrow> u8 list \<Rightarrow> redisCallback \<Rightarrow> reply \<Rightarrow> asyncContext \<Rightarrow> asyncContext option"
where
  "unsubscribed pvariant sname cb r ac =
     Option.bind
       (if pending_subs cb = 0
        then map_option (\<lambda>(_, d). if pvariant then ac\<lparr>patterns := d\<rparr> else ac\<lparr>channels := d\<rparr>)
               (dictDelete callbackDict sname (if pvariant then patterns ac else channels ac))
        else Some ac) (\<lambda>ac.
     Option.bind (element_of REPLY_INTEGER r 2) (\<lambda>e.
       Some (if r_integer e = 0 \<and> d_used (channels ac) = 0 \<and> d_used (patterns ac) = 0
             then ac\<lparr>f_subscribed := False, replies := replies ac @ sub_replies ac, sub_replies := []\<rparr>
             else ac)))"

text \<open>The callback of a published message, \<open>{NULL, NULL, 0, NULL}\<close> when there is none.\<close>

definition null_callback :: redisCallback where
  "null_callback = \<lparr>cb_fn = None, pending_subs = 0, cb_privdata = 0\<rparr>"

definition redisGetSubscribeCallback :: "reply \<Rightarrow> asyncContext \<Rightarrow> (redisCallback \<times> asyncContext) option" where
  "redisGetSubscribeCallback r ac =
     (if r_type r = REPLY_ARRAY \<and> \<not> f_supports_push ac \<and> 3 \<le> length (r_element r) \<or> is_push r
      then Option.bind (element_of REPLY_STRING r 0) (\<lambda>e0.
        let pvariant = is_p (r_str e0);
            stype = (if pvariant then tl (r_str e0) else r_str e0)
        in Option.bind (element_of REPLY_STRING r 1) (\<lambda>e1.
          let sname = map byte_of_char (r_str e1); callbacks = (if pvariant then patterns ac else channels ac)
          in Option.bind (dictFind callbackDict sname callbacks) (\<lambda>de.
            case de of
              None \<Rightarrow> Some (null_callback, ac)
            | Some he \<Rightarrow>
                let cb = dictGetEntryVal callbacks he;
                    cb = (if strcase_eq stype ''subscribe'' then cb\<lparr>pending_subs := pending_subs cb - 1\<rparr> else cb);
                    callbacks = setEntryVal he cb callbacks;
                    ac = (if pvariant then ac\<lparr>patterns := callbacks\<rparr> else ac\<lparr>channels := callbacks\<rparr>)
                in if strcase_eq stype ''unsubscribe''
                   then map_option (Pair cb) (unsubscribed pvariant sname cb r ac)
                   else Some (cb, ac))))
      else case redisShiftCallback (sub_replies ac) of
             None \<Rightarrow> Some (null_callback, ac)
           | Some (cb, rest) \<Rightarrow> Some (cb, ac\<lparr>sub_replies := rest\<rparr>))"

text \<open>The callback for a reply, and the context with it; the outer \<open>Inl\<close> is the error reply of a server
  that closes the connection.\<close>

definition callback_for :: "reply \<Rightarrow> asyncContext \<Rightarrow> (asyncContext + redisCallback \<times> asyncContext) option" where
  "callback_for r ac =
     (case redisShiftCallback (replies ac) of
        Some (cb, rest) \<Rightarrow> Some (Inr (cb, ac\<lparr>replies := rest\<rparr>))
      | None \<Rightarrow>
          if r_type r = REPLY_ERROR then Some (Inl (ac\<lparr>c_err := ERR_OTHER\<rparr>))
          else if \<not> f_subscribed ac then None
          else map_option Inr (redisGetSubscribeCallback r ac))"

definition monitor_again :: "redisCallback \<Rightarrow> asyncContext \<Rightarrow> asyncContext" where
  "monitor_again cb ac = (if f_monitoring ac then ac\<lparr>replies := redisPushCallback cb (replies ac)\<rparr> else ac)"

text \<open>What \<open>redisGetReply\<close> returns, one after another: a reply, an error, and in the end nothing.\<close>

fun redisProcessCallbacks :: "(event list \<Rightarrow> api list) \<Rightarrow> (int + reply) list \<Rightarrow> asyncContext \<Rightarrow> asyncContext option" where
  "redisProcessCallbacks user [] ac =
     (if f_disconnecting ac \<and> obuf ac = [] \<and> replies ac = [] then redisAsyncDisconnect_now user ac else Some ac)"
| "redisProcessCallbacks user (Inl e # input) ac = redisAsyncDisconnect_now user (ac\<lparr>c_err := e\<rparr>)"
| "redisProcessCallbacks user (Inr r # input) ac =
     (let ac = (if is_push r then ac\<lparr>f_supports_push := True\<rparr> else ac)
      in if is_push r \<and> \<not> redisIsSubscribeReply r
         then Option.bind (redisRunPushCallback user r ac) (redisProcessCallbacks user input)
         else Option.bind (callback_for r ac) (\<lambda>found.
           case found of
             Inl ac \<Rightarrow> redisAsyncDisconnect_now user ac
           | Inr (cb, ac) \<Rightarrow>
               Option.bind (redisRunCallback user cb (Some r) ac) (\<lambda>ac.
                 if cb_fn cb \<noteq> None \<and> f_freeing ac then redisAsyncFree_now user ac
                 else redisProcessCallbacks user input (monitor_again cb ac))))"

section \<open>Events\<close>

text \<open>What \<open>redisCheckConnectDone\<close> and the calls behind it find: an error, nothing yet, or a connection.\<close>

datatype connect_state = Connect_failed int | Connecting | Nodelay_failed int | Connect_done

definition handle_connect_failure :: "(event list \<Rightarrow> api list) \<Rightarrow> asyncContext \<Rightarrow> asyncContext option" where
  "handle_connect_failure user ac =
     Option.bind
       (if on_connect ac
        then let ac = ac\<lparr>history := history ac @ [Connect_status False]\<rparr> in user_calls user (user (history ac)) ac
        else Some ac) (\<lambda>ac.
       if released ac then None else redisAsyncDisconnect_now user ac)"

definition redisAsyncHandleConnect ::
  "(event list \<Rightarrow> api list) \<Rightarrow> connect_state \<Rightarrow> asyncContext \<Rightarrow> (bool \<times> asyncContext) option"
where
  "redisAsyncHandleConnect user conn ac =
     (case conn of
        Connect_failed e \<Rightarrow> map_option (Pair False) (handle_connect_failure user (ac\<lparr>c_err := e, ac_err := e\<rparr>))
      | Connecting \<Rightarrow> Some (True, ac)
      | Nodelay_failed e \<Rightarrow> map_option (Pair False) (handle_connect_failure user (ac\<lparr>c_err := e\<rparr>))
      | Connect_done \<Rightarrow>
          Option.bind
            (if on_connect ac
             then let ac = ac\<lparr>history := history ac @ [Connect_status True]\<rparr> in user_calls user (user (history ac)) ac
             else Some ac) (\<lambda>ac.
            if released ac then None else Some (True, ac\<lparr>f_connected := True\<rparr>)))"

text \<open>The result of reading: an error, or the replies that are complete now.\<close>

definition redisAsyncRead :: "(event list \<Rightarrow> api list) \<Rightarrow> int + (int + reply) list \<Rightarrow> asyncContext \<Rightarrow> asyncContext option" where
  "redisAsyncRead user input ac =
     (if c_err ac \<noteq> 0 then redisAsyncDisconnect_now user ac
      else case input of
             Inl e \<Rightarrow> redisAsyncDisconnect_now user (ac\<lparr>c_err := e\<rparr>)
           | Inr rs \<Rightarrow> redisProcessCallbacks user rs (ac\<lparr>ev_read := True\<rparr>))"

text \<open>The result of writing: an error, or the number of bytes that the socket has taken.\<close>

definition redisAsyncWrite :: "(event list \<Rightarrow> api list) \<Rightarrow> int + nat \<Rightarrow> asyncContext \<Rightarrow> asyncContext option" where
  "redisAsyncWrite user output ac =
     (if c_err ac \<noteq> 0 then redisAsyncDisconnect_now user ac
      else case (if obuf ac = [] then Inr 0 else output) of
             Inl e \<Rightarrow> redisAsyncDisconnect_now user (ac\<lparr>c_err := e\<rparr>)
           | Inr n \<Rightarrow>
               let ac = ac\<lparr>obuf := drop n (obuf ac)\<rparr>
               in Some (ac\<lparr>ev_write := (obuf ac \<noteq> []), ev_read := True\<rparr>))"

definition when_connected ::
  "(event list \<Rightarrow> api list) \<Rightarrow> connect_state \<Rightarrow> (asyncContext \<Rightarrow> asyncContext option) \<Rightarrow> asyncContext \<Rightarrow> asyncContext option"
where
  "when_connected user conn f ac =
     (if f_connected ac then f ac
      else Option.bind (redisAsyncHandleConnect user conn ac) (\<lambda>(ok, ac).
        if \<not> ok then Some ac else if \<not> f_connected ac then Some ac else f ac))"

definition redisAsyncHandleRead ::
  "(event list \<Rightarrow> api list) \<Rightarrow> connect_state \<Rightarrow> int + (int + reply) list \<Rightarrow> asyncContext \<Rightarrow> asyncContext option"
where
  "redisAsyncHandleRead user conn input = when_connected user conn (redisAsyncRead user input)"

definition redisAsyncHandleWrite ::
  "(event list \<Rightarrow> api list) \<Rightarrow> connect_state \<Rightarrow> int + nat \<Rightarrow> asyncContext \<Rightarrow> asyncContext option"
where
  "redisAsyncHandleWrite user conn output = when_connected user conn (redisAsyncWrite user output)"

definition redisAsyncHandleTimeout :: "(event list \<Rightarrow> api list) \<Rightarrow> asyncContext \<Rightarrow> asyncContext option" where
  "redisAsyncHandleTimeout user ac =
     (if f_connected ac \<and> (replies ac = [] \<and> sub_replies ac = [] \<or> command_timeout ac \<in> {None, Some (0, 0)}) then Some ac
      else let ac = (if c_err ac = 0 then ac\<lparr>c_err := ERR_TIMEOUT, ac_err := ERR_TIMEOUT\<rparr> else ac)
      in Option.bind
           (if \<not> f_connected ac \<and> on_connect ac
            then let ac = ac\<lparr>history := history ac @ [Connect_status False]\<rparr> in user_calls user (user (history ac)) ac
            else Some ac) (\<lambda>ac.
         if released ac then None
         else Option.bind (drain_replies user ac) (redisAsyncDisconnect_now user)))"

section \<open>Schedules\<close>

datatype async_event =
    Call api
  | Readable connect_state "int + (int + reply) list"
  | Writable connect_state "int + nat"
  | Timeout

fun async_step :: "(event list \<Rightarrow> api list) \<Rightarrow> async_event \<Rightarrow> asyncContext \<Rightarrow> asyncContext option" where
  "async_step user (Call a) ac = user_call user a ac"
| "async_step user (Readable conn input) ac = redisAsyncHandleRead user conn input ac"
| "async_step user (Writable conn output) ac = redisAsyncHandleWrite user conn output ac"
| "async_step user Timeout ac = redisAsyncHandleTimeout user ac"

text \<open>Nothing happens to a context that has been released.\<close>

primrec async_run :: "(event list \<Rightarrow> api list) \<Rightarrow> async_event list \<Rightarrow> asyncContext \<Rightarrow> asyncContext option" where
  "async_run user [] ac = Some ac"
| "async_run user (e # es) ac =
     (if released ac then Some ac else Option.bind (async_step user e ac) (async_run user es))"

end
