(* ===== verification/Redis_Async_Props.thy ===== *)
theory Redis_Async_Props
  imports Redis_Async Redis_Format_Props Redis_Dict_Props
begin

text \<open>
  The asynchronous interface: it finds the arguments that the formatter has written, the replies are
  matched with the commands in order, and published messages reach the callback of their channel.
\<close>

section \<open>The arguments of a command\<close>

lemma strchr_at:
  assumes "\<forall>x \<in> set mid. x \<noteq> c \<and> x \<noteq> NUL" "c \<noteq> NUL"
  shows "strchr (pre @ mid @ c # post) (length pre) c = Some (length pre + length mid)"
proof -
  have t: "takeWhile (\<lambda>x. x \<noteq> NUL) (mid @ c # post) = mid @ c # takeWhile (\<lambda>x. x \<noteq> NUL) post"
    using assms by (subst takeWhile_append2) auto
  have "takeWhile (\<lambda>x. x \<noteq> c) (mid @ c # ys) = mid" for ys
    using assms by (subst takeWhile_append2) auto
  then show ?thesis by (simp add: strchr_def t)
qed

lemma isdigit_plain: "isdigit c \<Longrightarrow> c \<noteq> NUL \<and> c \<noteq> CR \<and> c \<noteq> CHR ''$'' \<and> c \<noteq> CHR ''-'' \<and> c \<noteq> CHR ''+'' \<and> \<not> isspace c"
  by (auto simp: isdigit_def isspace_def char_code_def)

lemma strtol_int_udec:
  assumes "n < 2 ^ 31" "\<not> isdigit c"
  shows "strtol_int (udec n @ c # rest) = int n"
proof -
  obtain d ds where d: "udec n = d # ds" by (cases "udec n") auto
  then have "isdigit d" using udec_digits [of d n] by simp
  note plain = isdigit_plain [OF this]
  have t: "takeWhile isdigit (udec n @ c # rest) = udec n"
    using udec_digits [of _ n] assms(2) by (subst takeWhile_append2) auto
  have "dropWhile isspace (udec n @ c # rest) = udec n @ c # rest" using plain by (simp add: d)
  moreover have "hd (udec n @ c # rest) = d" by (simp add: d)
  ultimately have "strtol_int (udec n @ c # rest) = signed_take_bit 31 (min (int n) 9223372036854775807)"
    using plain by (simp add: strtol_int_def Let_def t)
  also have "min (int n) 9223372036854775807 = int n" using assms(1) by simp
  also have "signed_take_bit 31 (int n) = int n"
    using assms(1) by (intro signed_take_bit_int_eq_self) (rule order.trans [of _ 0], simp_all)
  finally show ?thesis .
qed

text \<open>From the beginning of an argument, or from text without a dollar sign before it.\<close>

lemma nextArgument_at:
  assumes "length a < 2 ^ 31" "\<forall>x \<in> set mid. x \<noteq> CHR ''$'' \<and> x \<noteq> NUL"
  shows "nextArgument (pre @ mid @ write_arg a @ post) (length pre) =
    Some (Some (length pre + length mid + 3 + length (udec (length a)), int (length a),
      int (length pre + length mid + length (write_arg a))))"
proof -
  define cmd where "cmd = pre @ mid @ write_arg a @ post"
  define q where "q = length pre + length mid"
  have cmd: "cmd @ [NUL] = (pre @ mid) @ CHR ''$'' # udec (length a) @ CR # LF # a @ CR # LF # post @ [NUL]"
    by (simp add: cmd_def write_arg_def)
  have r: "rd (cmd @ [NUL]) (length pre) = Some (if mid = [] then CHR ''$'' else hd mid)"
    unfolding cmd by (cases mid) (simp_all add: rd_append_right [where i = 0, simplified])
  have f: "(if (if mid = [] then CHR ''$'' else hd mid) = CHR ''$'' then Some (length pre)
      else strchr (cmd @ [NUL]) (length pre) (CHR ''$'')) = Some q"
    using assms(2) strchr_at [of mid "CHR ''$''" pre] by (cases mid) (simp_all add: q_def cmd)
  have l: "strtol_int (drop (Suc q) (cmd @ [NUL])) = int (length a)"
    unfolding cmd q_def using assms(1) by (simp add: strtol_int_udec isdigit_def char_code_def)
  have "strchr (cmd @ [NUL]) q CR = Some (q + length (CHR ''$'' # udec (length a)))"
    unfolding cmd q_def
    using strchr_at [of "CHR ''$'' # udec (length a)" CR "pre @ mid" "LF # a @ CR # LF # post @ [NUL]"]
      udec_digits isdigit_plain by fastforce
  then show ?thesis
    using l f unfolding nextArgument_def cmd_def [symmetric] r
    by (simp add: q_def write_arg_def Let_def numeral_3_eq_3)
qed

lemma nextArgument_end: "nextArgument cmd (length cmd) = Some None"
  by (simp add: nextArgument_def strchr_def)

abbreviation bytes_of :: "string \<Rightarrow> u8 list" where "bytes_of \<equiv> map byte_of_char"

lemma argument_bytes_at:
  assumes "p = length pre + 3 + length (udec (length a))"
  shows "argument_bytes (pre @ write_arg a @ post) p (int (length a)) = Some (bytes_of a)"
proof -
  define head where "head = pre @ CHR ''$'' # udec (length a) @ [CR, LF]"
  have c: "pre @ write_arg a @ post = head @ a @ CR # LF # post" by (simp add: head_def write_arg_def)
  have p: "p = length head" by (simp add: assms head_def)
  show ?thesis unfolding argument_bytes_def c p by simp
qed

lemma header_plain: "x \<in> set (CHR ''*'' # udec n @ [CR, LF]) \<Longrightarrow> x \<noteq> CHR ''$'' \<and> x \<noteq> NUL"
  using udec_digits isdigit_plain by fastforce

section \<open>Histories\<close>

text \<open>The commands that were accepted, and the callbacks that were called.\<close>

fun issued :: "event list \<Rightarrow> (nat option \<times> nat) list" where
  "issued [] = []"
| "issued (e # h) = (case e of Issued fn privdata ok \<Rightarrow> if ok then (fn, privdata) # issued h else issued h | _ \<Rightarrow> issued h)"

fun calls :: "event list \<Rightarrow> (nat \<times> nat \<times> reply option) list" where
  "calls [] = []"
| "calls (e # h) = (case e of Called fn privdata r \<Rightarrow> (fn, privdata, r) # calls h | _ \<Rightarrow> calls h)"

lemma issued_append [simp]: "issued (h @ h') = issued h @ issued h'"
  by (induction h) (auto split: event.split)

lemma calls_append [simp]: "calls (h @ h') = calls h @ calls h'"
  by (induction h) (auto split: event.split)

text \<open>The calls that answer a list of commands; a command without a callback has none.\<close>

fun answers :: "((nat option \<times> nat) \<times> reply option) list \<Rightarrow> (nat \<times> nat \<times> reply option) list" where
  "answers [] = []"
| "answers (((fn, privdata), r) # as) = (case fn of None \<Rightarrow> answers as | Some f \<Rightarrow> (f, privdata, r) # answers as)"

lemma answers_append [simp]: "answers (as @ bs) = answers as @ answers bs"
  by (induction as rule: answers.induct) (auto split: option.split)

definition key :: "redisCallback \<Rightarrow> nat option \<times> nat" where
  "key cb = (cb_fn cb, cb_privdata cb)"

text \<open>The first commands have been answered, one by one, and the others wait in their order.\<close>

definition in_order :: "reply option list \<Rightarrow> asyncContext \<Rightarrow> bool" where
  "in_order as ac \<longleftrightarrow> length as \<le> length (issued (history ac)) \<and>
     calls (history ac) = answers (zip (issued (history ac)) as) \<and>
     map key (replies ac) = drop (length as) (issued (history ac))"

lemma zip_longer: "length as \<le> length xs \<Longrightarrow> zip (xs @ ys) as = zip xs as"
  by (simp add: zip_append1)

lemma zip_take_longer: "length as \<le> length xs \<Longrightarrow> zip (take (length as) xs) as = zip xs as"
  by (metis append_take_drop_id zip_longer length_take min.absorb2 order_refl)

lemma in_order_issue:
  assumes "in_order as ac"
  shows "in_order as (ac\<lparr>replies := replies ac @ [\<lparr>cb_fn = fn, pending_subs = n, cb_privdata = p\<rparr>],
    history := history ac @ [Issued fn p True]\<rparr>)"
  using assms by (simp add: in_order_def key_def zip_longer)

lemma in_order_answer:
  assumes "in_order as ac" "replies ac = cb # rest"
  shows "in_order (as @ [r]) (ac\<lparr>replies := rest,
    history := history ac @ (case cb_fn cb of None \<Rightarrow> [] | Some fn \<Rightarrow> [Called fn (cb_privdata cb) r])\<rparr>)"
proof -
  define xs where "xs = issued (history ac)"
  have k: "key cb # map key rest = drop (length as) xs" "length as \<le> length xs"
    using assms by (auto simp: in_order_def xs_def)
  then have l: "length as < length xs" by (metis drop_all linorder_not_less list.distinct(1))
  then have n: "xs ! length as = key cb" "map key rest = drop (Suc (length as)) xs"
    using k by (metis Cons_nth_drop_Suc list.inject)+
  have "zip xs (as @ [r]) = zip xs as @ [(key cb, r)]"
    using l n(1) by (subst zip_append2) (simp add: zip_take_longer Cons_nth_drop_Suc [symmetric])
  then show ?thesis
    using assms l n by (auto simp: in_order_def xs_def [symmetric] key_def split: option.split)
qed

section \<open>Well-behaved users\<close>

text \<open>Every command is a regular one: no subscription and no monitor mode.\<close>

definition regular :: "string \<Rightarrow> bool" where
  "regular cmd \<longleftrightarrow> (case command_kind cmd of Some (Regular, p) \<Rightarrow> True | _ \<Rightarrow> False)"

lemma regularE: "regular cmd \<Longrightarrow> (\<And>p. command_kind cmd = Some (Regular, p) \<Longrightarrow> thesis) \<Longrightarrow> thesis"
  by (auto simp: regular_def split: option.splits cmd_kind.splits)

fun no_reply :: "event \<Rightarrow> bool" where
  "no_reply (Called fn p r) = (r = None)"
| "no_reply _ = False"

fun status_event :: "event \<Rightarrow> bool" where
  "status_event (Connect_status ok) = True"
| "status_event (Disconnect_status ok) = True"
| "status_event _ = False"

text \<open>No command in a callback that comes without a reply, and neither release nor disconnection in the
  callbacks for the connection.\<close>

fun api_ok :: "event \<Rightarrow> api \<Rightarrow> bool" where
  "api_ok e (Command fn p cmd mem buf_mem) = (regular cmd \<and> \<not> no_reply e)"
| "api_ok e Disconnect = (\<not> status_event e)"
| "api_ok e Free = (\<not> status_event e)"

definition user_ok :: "(event list \<Rightarrow> api list) \<Rightarrow> bool" where
  "user_ok user \<longleftrightarrow> (\<forall>h e. list_all (api_ok e) (user (h @ [e])))"

section \<open>Operations keep the order\<close>

text \<open>A context without subscriptions, and one that takes no more commands.\<close>

definition unsubscribed_mode :: "asyncContext \<Rightarrow> bool" where
  "unsubscribed_mode ac \<longleftrightarrow> \<not> f_subscribed ac \<and> \<not> f_monitoring ac \<and> sub_replies ac = [] \<and>
     unused (channels ac) \<and> unused (patterns ac)"

definition closing :: "asyncContext \<Rightarrow> bool" where
  "closing ac \<longleftrightarrow> f_disconnecting ac \<or> f_freeing ac"

text \<open>What calls of the user leave alone.\<close>

definition stays :: "asyncContext \<Rightarrow> asyncContext \<Rightarrow> bool" where
  "stays ac ac' \<longleftrightarrow> (unsubscribed_mode ac \<longrightarrow> unsubscribed_mode ac') \<and> f_connected ac' = f_connected ac \<and>
     released ac' = released ac \<and> f_in_callback ac' = f_in_callback ac \<and> (closing ac \<longrightarrow> closing ac') \<and>
     (c_err ac \<noteq> 0 \<longrightarrow> c_err ac' \<noteq> 0)"

definition extends :: "asyncContext \<Rightarrow> asyncContext \<Rightarrow> bool" where
  "extends ac ac' \<longleftrightarrow> stays ac ac' \<and> (\<forall>as. in_order as ac \<longrightarrow> in_order as ac') \<and>
     (closing ac \<longrightarrow> replies ac' = replies ac) \<and> length (replies ac) \<le> length (replies ac')"

lemma extends_refl: "extends ac ac"
  by (simp add: extends_def stays_def)

lemma extends_trans: "extends ac ac1 \<Longrightarrow> extends ac1 ac2 \<Longrightarrow> extends ac ac2"
  by (auto simp: extends_def stays_def)

lemma append_command_simps [simp]:
  "replies (append_command b cmd ac) = replies ac" "history (append_command b cmd ac) = history ac"
  "f_connected (append_command b cmd ac) = f_connected ac" "released (append_command b cmd ac) = released ac"
  "f_in_callback (append_command b cmd ac) = f_in_callback ac" "f_disconnecting (append_command b cmd ac) = f_disconnecting ac"
  "f_freeing (append_command b cmd ac) = f_freeing ac" "unsubscribed_mode (append_command b cmd ac) = unsubscribed_mode ac"
  "c_err (append_command b cmd ac) = (if b then c_err ac else ERR_OOM)"
  by (simp_all add: append_command_def unsubscribed_mode_def)

lemma command_extends:
  assumes "regular cmd" "unsubscribed_mode ac"
  shows "\<exists>ac'. redisAsyncFormattedCommand fn p cmd mem buf_mem ac = Some ac' \<and> extends ac ac'"
proof -
  obtain q where k: "command_kind cmd = Some (Regular, q)" by (rule regularE [OF assms(1)])
  define cb where "cb = \<lparr>cb_fn = fn, pending_subs = 1, cb_privdata = p\<rparr>"
  consider (closing) "closing ac" | (oom) "\<not> closing ac" "\<not> mem" | (ok) "\<not> closing ac" "mem" by blast
  then show ?thesis
  proof cases
    case closing
    then show ?thesis
      by (auto simp: redisAsyncFormattedCommand_def async_command_def closing_def stays_def extends_def stays_def unsubscribed_mode_def in_order_def)
  next
    case oom
    then show ?thesis
      using k by (auto simp: redisAsyncFormattedCommand_def async_command_def closing_def stays_def extends_def stays_def unsubscribed_mode_def
          in_order_def out_of_memory_def)
  next
    case ok
    define ac' where "ac' = (append_command buf_mem cmd (ac\<lparr>replies := replies ac @ [cb]\<rparr>))
      \<lparr>history := history ac @ [Issued fn p True]\<rparr>"
    have "redisAsyncFormattedCommand fn p cmd mem buf_mem ac = Some ac'"
      using ok k assms(2)
      by (simp add: redisAsyncFormattedCommand_def async_command_def closing_def ac'_def redisPushCallback_def cb_def
          unsubscribed_mode_def)
    moreover have "in_order as ac \<Longrightarrow> in_order as ac'" for as
      using in_order_issue [of as ac fn p 1] by (simp add: in_order_def ac'_def cb_def)
    moreover have "unsubscribed_mode ac \<Longrightarrow> unsubscribed_mode ac'"
      by (simp add: ac'_def append_command_def unsubscribed_mode_def)
    ultimately show ?thesis using ok(1) by (auto simp: extends_def stays_def ac'_def closing_def)
  qed
qed

text \<open>The calls of a user in a callback for a reply, and those that are commands only.\<close>

lemma api_calls_extend:
  assumes "list_all (api_ok e) as" "unsubscribed_mode ac" "\<not> released ac" "f_in_callback ac \<or> status_event e"
  shows "\<exists>ac'. api_calls disconnect free as ac = Some ac' \<and> extends ac ac' \<and> (no_reply e \<longrightarrow> replies ac' = replies ac)"
  using assms
proof (induction as arbitrary: ac)
  case (Cons a as)
  have "\<exists>ac1. api_call disconnect free a ac = Some ac1 \<and> extends ac ac1 \<and> (no_reply e \<longrightarrow> replies ac1 = replies ac)"
  proof (cases a)
    case (Command fn p cmd mem buf_mem)
    then show ?thesis using Cons.prems command_extends [of cmd ac fn p mem buf_mem] by auto
  next
    case Disconnect
    have "extends ac (ac\<lparr>f_disconnecting := True, f_no_auto_free := False\<rparr>)"
      by (simp add: extends_def stays_def closing_def unsubscribed_mode_def in_order_def)
    then show ?thesis using Cons.prems Disconnect by auto
  next
    case Free
    have "extends ac (ac\<lparr>f_freeing := True\<rparr>)"
      by (simp add: extends_def stays_def closing_def unsubscribed_mode_def in_order_def)
    then show ?thesis using Cons.prems Free by auto
  qed
  then obtain ac1 where ac1: "api_call disconnect free a ac = Some ac1" "extends ac ac1" "no_reply e \<longrightarrow> replies ac1 = replies ac"
    by blast
  have "\<exists>ac'. api_calls disconnect free as ac1 = Some ac' \<and> extends ac1 ac' \<and> (no_reply e \<longrightarrow> replies ac' = replies ac1)"
    by (rule Cons.IH) (use Cons.prems ac1(2) in \<open>auto simp: extends_def stays_def\<close>)
  then obtain ac' where ac': "api_calls disconnect free as ac1 = Some ac'" "extends ac1 ac'"
      "no_reply e \<longrightarrow> replies ac' = replies ac1" by blast
  then show ?case
    using ac1 extends_trans [OF ac1(2) ac'(2)] by (intro exI [of _ ac'] conjI) simp_all
qed (simp add: extends_refl)

lemma in_callback_extends:
  assumes "user_ok user" "unsubscribed_mode ac" "\<not> released ac" "\<not> f_in_callback ac" "\<not> status_event e"
    "ac1 = ac\<lparr>history := history ac @ [e]\<rparr>"
  shows "\<exists>ac'. in_callback user e ac = Some ac' \<and> extends ac1 ac' \<and> (no_reply e \<longrightarrow> replies ac' = replies ac)"
proof -
  define ac2 where "ac2 = ac\<lparr>f_in_callback := True, history := history ac @ [e]\<rparr>"
  have "list_all (api_ok e) (user (history ac @ [e]))" using assms(1) by (simp add: user_ok_def)
  moreover have "unsubscribed_mode ac2" "\<not> released ac2" "f_in_callback ac2"
    using assms(2,3) by (simp_all add: ac2_def unsubscribed_mode_def)
  ultimately obtain ac' where ac': "api_calls Some Some (user (history ac @ [e])) ac2 = Some ac'" "extends ac2 ac'"
      "no_reply e \<longrightarrow> replies ac' = replies ac2"
    using api_calls_extend [of e _ ac2] by blast
  have "in_callback user e ac = Some (ac'\<lparr>f_in_callback := False\<rparr>)"
    using ac'(1) by (simp add: in_callback_def ac2_def)
  moreover have "extends ac1 (ac'\<lparr>f_in_callback := False\<rparr>)"
    using ac'(2) assms(4) by (simp add: extends_def stays_def ac2_def assms(6) unsubscribed_mode_def in_order_def closing_def)
  ultimately show ?thesis using ac'(3) by (simp add: ac2_def assms(6))
qed

text \<open>A callback that has been taken from the queue.\<close>

lemma run_callback:
  assumes "user_ok user" "unsubscribed_mode ac" "\<not> released ac" "\<not> f_in_callback ac" "replies ac = cb # rest" "in_order as ac"
  obtains ac' where "redisRunCallback user cb r (ac\<lparr>replies := rest\<rparr>) = Some ac'" "in_order (as @ [r]) ac'"
    "stays ac ac'" "length rest \<le> length (replies ac')" "r = None \<or> closing ac \<Longrightarrow> replies ac' = rest"
    "cb_fn cb = None \<Longrightarrow> ac' = ac\<lparr>replies := rest\<rparr>"
proof (cases "cb_fn cb")
  case None
  then show thesis
    using that [of "ac\<lparr>replies := rest\<rparr>"] in_order_answer [OF assms(6,5), of r]
    by (simp add: redisRunCallback_def stays_def unsubscribed_mode_def closing_def)
next
  case (Some fn)
  define e where "e = Called fn (cb_privdata cb) r"
  define ac1 where "ac1 = ac\<lparr>replies := rest, history := history ac @ [e]\<rparr>"
  have "\<exists>ac'. in_callback user e (ac\<lparr>replies := rest\<rparr>) = Some ac' \<and> extends ac1 ac' \<and> (no_reply e \<longrightarrow> replies ac' = rest)"
    using in_callback_extends [of user "ac\<lparr>replies := rest\<rparr>" e ac1] assms(1-4)
    by (simp add: ac1_def e_def unsubscribed_mode_def)
  then obtain ac' where ac': "in_callback user e (ac\<lparr>replies := rest\<rparr>) = Some ac'" "extends ac1 ac'"
      "no_reply e \<longrightarrow> replies ac' = rest" by blast
  show thesis
  proof (rule that)
    show "redisRunCallback user cb r (ac\<lparr>replies := rest\<rparr>) = Some ac'"
      using ac'(1) Some by (simp add: redisRunCallback_def e_def)
    show "in_order (as @ [r]) ac'"
      using in_order_answer [OF assms(6,5), of r] ac'(2) Some by (simp add: extends_def stays_def ac1_def e_def)
    show "stays ac ac'" "length rest \<le> length (replies ac')"
      using ac'(2) by (simp_all add: extends_def stays_def ac1_def unsubscribed_mode_def closing_def)
    show "r = None \<or> closing ac \<Longrightarrow> replies ac' = rest"
      using ac'(2,3) by (auto simp: extends_def stays_def ac1_def e_def closing_def)
  qed (simp add: Some)
qed

text \<open>The loop that answers the waiting callbacks without a reply ends.\<close>

lemma drain_order:
  assumes "user_ok user" "unsubscribed_mode ac" "\<not> released ac" "\<not> f_in_callback ac" "in_order as ac"
  shows "\<exists>ac'. drain_replies user ac = Some ac' \<and> replies ac' = [] \<and> stays ac ac' \<and>
    in_order (as @ replicate (length (replies ac)) None) ac'"
  using assms(2-)
proof (induction "replies ac" arbitrary: ac as)
  case Nil
  then show ?case by (subst drain_replies.simps) (simp add: redisShiftCallback_def stays_def)
next
  case (Cons cb rest)
  have r: "replies ac = cb # rest" using Cons.hyps(2) by simp
  obtain ac1 where ac1: "redisRunCallback user cb None (ac\<lparr>replies := rest\<rparr>) = Some ac1" "in_order (as @ [None]) ac1"
      "stays ac ac1" "replies ac1 = rest"
    by (rule run_callback [OF assms(1) Cons.prems(1-3) r Cons.prems(4), of None]) blast
  have "\<exists>ac'. drain_replies user ac1 = Some ac' \<and> replies ac' = [] \<and> stays ac1 ac' \<and>
      in_order ((as @ [None]) @ replicate (length (replies ac1)) None) ac'"
    by (rule Cons.hyps(1)) (use ac1 Cons.prems in \<open>auto simp: stays_def\<close>)
  then obtain ac' where ac': "drain_replies user ac1 = Some ac'" "replies ac' = []" "stays ac1 ac'"
      "in_order ((as @ [None]) @ replicate (length rest) None) ac'" using ac1(4) by auto
  have "drain_replies user ac = Some ac'"
    using ac1(1) ac'(1) r by (subst drain_replies.simps) (simp add: redisShiftCallback_def)
  moreover have "in_order (as @ replicate (length (replies ac)) None) ac'" using ac'(4) r by simp
  moreover have "stays ac ac'" using ac1(3) ac'(3) by (auto simp: stays_def)
  ultimately show ?case using ac'(2) by blast
qed

lemma unused_dict:
  assumes "unused d"
  shows "dictNext d dictInitIterator = Some (None, dictInitIterator\<lparr>it_index := 0\<rparr>)"
    "dictClear callbackDict d = Some (dictReset d)" "unused (dictReset d)"
  using assms by (simp_all add: unused_def dictNext_def dictInitIterator_def signed_size_def Let_def dictClear_def dictReset_def
      numeral_2_eq_2)

lemma run_subscriptions_unused: "unused (subs ac) \<Longrightarrow> run_subscriptions user subs dictInitIterator ac = Some ac"
  by (subst run_subscriptions.simps) (simp add: unused_dict(1))

lemma free_order:
  assumes "user_ok user" "unsubscribed_mode ac" "\<not> released ac" "\<not> f_in_callback ac" "closing ac" "in_order as ac"
  obtains ac' where "redisAsyncFree_now user ac = Some ac'" "released ac'" "replies ac' = []" "unsubscribed_mode ac'"
    "\<not> f_in_callback ac'" "in_order (as @ replicate (length (replies ac)) None) ac'"
proof -
  obtain ac1 where ac1: "drain_replies user ac = Some ac1" "replies ac1 = []" "stays ac ac1"
      "in_order (as @ replicate (length (replies ac)) None) ac1"
    using drain_order [OF assms(1-4,6)] by blast
  have u1: "unsubscribed_mode ac1" "\<not> released ac1" "\<not> f_in_callback ac1" "closing ac1"
    using ac1(3) assms(2-5) by (simp_all add: stays_def)
  have d: "unused (channels ac1)" "unused (patterns ac1)" "sub_replies ac1 = []" using u1(1) by (simp_all add: unsubscribed_mode_def)
  have sub: "drain_sub_replies user ac1 = Some ac1"
    by (subst drain_sub_replies.simps) (simp add: redisShiftCallback_def d(3))
  define ac2 where "ac2 = ac1\<lparr>channels := dictReset (channels ac1), patterns := dictReset (patterns ac1), ev_cleanup := True\<rparr>"
  define ac3 where "ac3 = (if on_disconnect ac2 \<and> f_connected ac2
     then ac2\<lparr>history := history ac2 @ [Disconnect_status (f_freeing ac2 \<or> ac_err ac2 = 0)]\<rparr> else ac2)"
  have u3: "unsubscribed_mode ac3" "\<not> released ac3" "\<not> f_in_callback ac3" "closing ac3" "replies ac3 = []"
      "in_order (as @ replicate (length (replies ac)) None) ac3"
    using u1 ac1(2,4) unused_dict(3) [OF d(1)] unused_dict(3) [OF d(2)] by (simp_all add: ac3_def ac2_def unsubscribed_mode_def closing_def in_order_def)
  have "\<exists>ac4. (if on_disconnect ac2 \<and> f_connected ac2 then api_calls (\<lambda>_. None) (\<lambda>_. None) (user (history ac3)) ac3 else Some ac2)
      = Some ac4 \<and> extends ac3 ac4"
  proof (cases "on_disconnect ac2 \<and> f_connected ac2")
    case True
    define e where "e = Disconnect_status (f_freeing ac2 \<or> ac_err ac2 = 0)"
    have h: "history ac3 = history ac2 @ [e]" using True by (simp add: ac3_def e_def)
    then have "list_all (api_ok e) (user (history ac3))" using assms(1) by (simp add: user_ok_def)
    then have "\<exists>ac4. api_calls (\<lambda>_. None) (\<lambda>_. None) (user (history ac3)) ac3 = Some ac4 \<and> extends ac3 ac4"
      using api_calls_extend [of e _ ac3] u3(1,2) by (auto simp: e_def)
    then show ?thesis using True by simp
  next
    case False
    then have "ac3 = ac2" unfolding ac3_def by (simp only: if_False)
    then show ?thesis using False extends_refl by (simp only: if_False) blast
  qed
  then obtain ac4 where ac4: "(if on_disconnect ac2 \<and> f_connected ac2
      then api_calls (\<lambda>_. None) (\<lambda>_. None) (user (history ac3)) ac3 else Some ac2) = Some ac4" "extends ac3 ac4" by blast
  have "redisAsyncFree_now user ac = Option.bind
      (if on_disconnect ac2 \<and> f_connected ac2 then api_calls (\<lambda>_. None) (\<lambda>_. None) (user (history ac3)) ac3 else Some ac2)
      (\<lambda>ac. Some (ac\<lparr>released := True\<rparr>))"
    using ac1(1) sub d
    by (auto simp: redisAsyncFree_now_def run_subscriptions_unused unused_dict(2) Let_def ac2_def ac3_def)
  then have "redisAsyncFree_now user ac = Some (ac4\<lparr>released := True\<rparr>)" unfolding ac4(1) by simp
  moreover have "unsubscribed_mode ac4" "\<not> f_in_callback ac4" "replies ac4 = []"
      "in_order (as @ replicate (length (replies ac)) None) ac4"
    using ac4(2) u3 by (simp_all add: extends_def stays_def)
  ultimately show thesis by (intro that [of "ac4\<lparr>released := True\<rparr>"]) (simp_all add: unsubscribed_mode_def in_order_def)
qed

lemma disconnect_order:
  assumes "user_ok user" "unsubscribed_mode ac" "\<not> released ac" "\<not> f_in_callback ac" "in_order as ac"
    "c_err ac \<noteq> 0 \<or> replies ac = [] \<and> closing ac"
  obtains ac' n where "redisAsyncDisconnect_now user ac = Some ac'" "unsubscribed_mode ac'" "\<not> f_in_callback ac'"
    "in_order (as @ replicate n None) ac'" "released ac' \<Longrightarrow> replies ac' = []"
    "\<not> released ac' \<Longrightarrow> c_err ac' = c_err ac \<and> n = 0"
proof -
  define ac1 where "ac1 = (if c_err ac = 0 then ac\<lparr>ac_err := c_err ac\<rparr>
     else ac\<lparr>ac_err := c_err ac, f_disconnecting := True\<rparr>)\<lparr>ev_cleanup := True\<rparr>"
  have u1: "unsubscribed_mode ac1" "\<not> released ac1" "\<not> f_in_callback ac1" "closing ac1" "in_order as ac1" "c_err ac1 = c_err ac"
    using assms(2-6) by (auto simp: ac1_def unsubscribed_mode_def closing_def in_order_def)
  have d: "redisAsyncDisconnect_now user ac = (if \<not> f_no_auto_free ac1 then redisAsyncFree_now user ac1 else Some ac1)"
    using assms(6) by (auto simp: redisAsyncDisconnect_now_def ac1_def Let_def redisShiftCallback_def)
  show thesis
  proof (cases "f_no_auto_free ac1")
    case True
    then show thesis using that [of ac1 0] d u1 by simp
  next
    case False
    obtain ac' where "redisAsyncFree_now user ac1 = Some ac'" "released ac'" "replies ac' = []" "unsubscribed_mode ac'"
        "\<not> f_in_callback ac'" "in_order (as @ replicate (length (replies ac1)) None) ac'"
      by (rule free_order [OF assms(1) u1(1-5)])
    then show thesis using that [of ac' "length (replies ac1)"] d False by simp
  qed
qed

section \<open>Replies in order\<close>

text \<open>What a server sends to a client without subscriptions: at most one reply for each of the \<open>n\<close> commands, and
  then an error reply, or any pushed message that is not one of a subscription; or reading fails.\<close>

fun expected_input :: "nat \<Rightarrow> (int + reply) list \<Rightarrow> bool" where
  "expected_input n [] = True"
| "expected_input n (Inl e # input) = (e \<noteq> 0)"
| "expected_input n (Inr r # input) =
     (if is_push r then \<not> redisIsSubscribeReply r \<and> expected_input n input
      else (n = 0 \<longrightarrow> r_type r = REPLY_ERROR) \<and> expected_input (n - 1) input)"

fun replies_in :: "(int + reply) list \<Rightarrow> reply list" where
  "replies_in [] = []"
| "replies_in (Inl e # input) = []"
| "replies_in (Inr r # input) = (if is_push r then replies_in input else r # replies_in input)"

text \<open>The state between two events: \<open>rs\<close> are the replies so far.\<close>

definition answered :: "reply list \<Rightarrow> asyncContext \<Rightarrow> bool" where
  "answered rs ac \<longleftrightarrow> unsubscribed_mode ac \<and> \<not> f_in_callback ac \<and> (released ac \<longrightarrow> replies ac = []) \<and>
     (\<exists>n k. in_order (map Some (take n rs) @ replicate k None) ac \<and>
        (\<not> released ac \<and> c_err ac = 0 \<longrightarrow> k = 0 \<and> length rs \<le> n))"

lemma answeredI:
  assumes "unsubscribed_mode ac" "\<not> f_in_callback ac" "released ac \<Longrightarrow> replies ac = []"
    "in_order (map Some rs @ replicate k None) ac" "\<not> released ac \<Longrightarrow> c_err ac = 0 \<Longrightarrow> k = 0"
    "rs' = rs \<or> (rs' = rs @ later \<and> (released ac \<or> c_err ac \<noteq> 0))"
  shows "answered rs' ac"
  unfolding answered_def
proof (intro conjI exI)
  show "in_order (map Some (take (length rs) rs') @ replicate k None) ac" using assms(4,6) by auto
  show "\<not> released ac \<and> c_err ac = 0 \<longrightarrow> k = 0 \<and> length rs' \<le> length rs" using assms(5,6) by auto
qed (use assms(1-3) in auto)

lemma disconnect_answered:
  assumes "user_ok user" "unsubscribed_mode ac" "\<not> released ac" "\<not> f_in_callback ac" "in_order (map Some rs) ac"
    "c_err ac \<noteq> 0 \<or> replies ac = [] \<and> closing ac \<and> later = []"
  shows "\<exists>ac'. redisAsyncDisconnect_now user ac = Some ac' \<and> answered (rs @ later) ac'"
proof -
  have "c_err ac \<noteq> 0 \<or> replies ac = [] \<and> closing ac" using assms(6) by blast
  then obtain ac' n where ac': "redisAsyncDisconnect_now user ac = Some ac'" "unsubscribed_mode ac'" "\<not> f_in_callback ac'"
      "in_order (map Some rs @ replicate n None) ac'" "released ac' \<Longrightarrow> replies ac' = []"
      "\<not> released ac' \<Longrightarrow> c_err ac' = c_err ac \<and> n = 0"
    using disconnect_order [OF assms(1-5)] by metis
  have "answered (rs @ later) ac'"
    by (rule answeredI [OF ac'(2,3,5,4), where later = later]) (use ac'(6) assms(6) in auto)
  then show ?thesis using ac'(1) by blast
qed

lemma push_order:
  assumes "user_ok user" "unsubscribed_mode ac" "\<not> released ac" "\<not> f_in_callback ac" "in_order as ac"
  shows "\<exists>ac'. redisRunPushCallback user r ac = Some ac' \<and> stays ac ac' \<and> in_order as ac' \<and> length (replies ac) \<le> length (replies ac')"
proof (cases "push_cb ac")
  case True
  define ac1 where "ac1 = ac\<lparr>history := history ac @ [Pushed r]\<rparr>"
  obtain ac' where ac': "in_callback user (Pushed r) ac = Some ac'" "extends ac1 ac'"
    using in_callback_extends [OF assms(1-4) _ ac1_def] by auto
  moreover have "in_order as ac1" using assms(5) by (simp add: in_order_def ac1_def)
  ultimately show ?thesis
    using True by (auto simp: redisRunPushCallback_def extends_def stays_def ac1_def unsubscribed_mode_def closing_def)
qed (use assms in \<open>simp add: redisRunPushCallback_def stays_def\<close>)

lemma process_order:
  assumes "user_ok user" "unsubscribed_mode ac" "\<not> released ac" "\<not> f_in_callback ac" "in_order (map Some rs) ac"
    "expected_input n input" "n \<le> length (replies ac)"
  shows "\<exists>ac'. redisProcessCallbacks user input ac = Some ac' \<and> answered (rs @ replies_in input) ac'"
  using assms(2-)
proof (induction input arbitrary: ac rs n)
  case Nil
  show ?case
  proof (cases "f_disconnecting ac \<and> obuf ac = [] \<and> replies ac = []")
    case True
    then show ?thesis
      using disconnect_answered [OF assms(1) Nil.prems(1-4), of "[]"] by (simp add: closing_def)
  next
    case False
    then have "redisProcessCallbacks user [] ac = Some ac" by auto
    moreover have "answered rs ac"
      by (rule answeredI [where k = 0 and rs = rs and later = "[]"]) (use Nil.prems in auto)
    ultimately show ?thesis by simp
  qed
next
  case (Cons i input)
  show ?case
  proof (cases i)
    case (Inl e)
    then show ?thesis
      using disconnect_answered [OF assms(1), of "ac\<lparr>c_err := e\<rparr>" rs "[]"] Cons.prems
      by (simp add: unsubscribed_mode_def in_order_def)
  next
    case (Inr r)
    define ac0 where "ac0 = (if is_push r then ac\<lparr>f_supports_push := True\<rparr> else ac)"
    have u0: "unsubscribed_mode ac0" "\<not> released ac0" "\<not> f_in_callback ac0" "in_order (map Some rs) ac0"
        "replies ac0 = replies ac" "closing ac0 = closing ac"
      using Cons.prems(1-4) by (simp_all add: ac0_def unsubscribed_mode_def in_order_def closing_def)
    show ?thesis
    proof (cases "is_push r")
      case True
      obtain ac1 where ac1: "redisRunPushCallback user r ac0 = Some ac1" "stays ac0 ac1" "in_order (map Some rs) ac1"
          "length (replies ac0) \<le> length (replies ac1)"
        using push_order [OF assms(1) u0(1-4)] by blast
      have "expected_input n input" "\<not> redisIsSubscribeReply r" using Cons.prems(5) Inr True by simp_all
      moreover have "n \<le> length (replies ac1)" using ac1(4) u0(5) Cons.prems(6) by simp
      ultimately show ?thesis
        using Cons.IH [of ac1 rs n] ac1 u0(1-3) True by (simp add: Inr Let_def ac0_def stays_def)
    next
      case False
      then have ac0: "ac0 = ac" by (simp add: ac0_def)
      have e: "n = 0 \<Longrightarrow> r_type r = REPLY_ERROR" "expected_input (n - 1) input"
        using Cons.prems(5) Inr False by auto
      show ?thesis
      proof (cases "replies ac")
        case Nil
        then have "n = 0" using Cons.prems(6) by simp
        then have err: "redisProcessCallbacks user (i # input) ac = redisAsyncDisconnect_now user (ac\<lparr>c_err := ERR_OTHER\<rparr>)"
          using e(1) Nil False by (simp add: Inr Let_def callback_for_def redisShiftCallback_def)
        show ?thesis
          unfolding err using disconnect_answered [OF assms(1), of "ac\<lparr>c_err := ERR_OTHER\<rparr>" rs "replies_in (i # input)"] Cons.prems(1-4)
          by (simp add: unsubscribed_mode_def in_order_def)
      next
        case (Cons cb rest)
        obtain ac1 where ac1: "redisRunCallback user cb (Some r) (ac\<lparr>replies := rest\<rparr>) = Some ac1"
            "in_order (map Some rs @ [Some r]) ac1" "stays ac ac1" "length rest \<le> length (replies ac1)"
          by (rule run_callback [OF assms(1) Cons.prems(1-3) Cons Cons.prems(4), of "Some r"]) blast
        have u1: "unsubscribed_mode ac1" "\<not> released ac1" "\<not> f_in_callback ac1" "in_order (map Some (rs @ [r])) ac1"
          using ac1(2,3) Cons.prems(1-3) by (simp_all add: stays_def)
        have m: "monitor_again cb ac1 = ac1" using u1(1) by (simp add: monitor_again_def unsubscribed_mode_def)
        have p: "redisProcessCallbacks user (i # input) ac =
            (if cb_fn cb \<noteq> None \<and> f_freeing ac1 then redisAsyncFree_now user ac1 else redisProcessCallbacks user input ac1)"
          using False ac1(1) Cons m by (simp add: Inr Let_def callback_for_def redisShiftCallback_def)
        have rs: "rs @ replies_in (i # input) = (rs @ [r]) @ replies_in input" using Inr False by simp
        show ?thesis
        proof (cases "cb_fn cb \<noteq> None \<and> f_freeing ac1")
          case True
          then have "closing ac1" by (simp add: closing_def)
          then obtain ac' where ac': "redisAsyncFree_now user ac1 = Some ac'" "released ac'" "replies ac' = []"
              "unsubscribed_mode ac'" "\<not> f_in_callback ac'"
              "in_order (map Some (rs @ [r]) @ replicate (length (replies ac1)) None) ac'"
            by (rule free_order [OF assms(1) u1(1-3) _ u1(4)])
          have "answered ((rs @ [r]) @ replies_in input) ac'"
            by (rule answeredI [OF ac'(4,5,3,6), where later = "replies_in input"]) (use ac'(2) in auto)
          then show ?thesis using True p ac'(1) unfolding rs by auto
        next
          case no_free: False
          have "n - 1 \<le> length (replies ac1)" using ac1(4) Cons \<open>n \<le> length (replies ac)\<close> by simp
          moreover have "redisProcessCallbacks user (i # input) ac = redisProcessCallbacks user input ac1"
            using no_free unfolding p by (simp only: if_False)
          ultimately show ?thesis
            using Cons.IH [OF u1 e(2)] unfolding rs by simp
        qed
      qed
    qed
  qed
qed

section \<open>Events in order\<close>

lemma answered_same:
  assumes "answered rs ac" "unsubscribed_mode ac'" "\<not> f_in_callback ac'" "released ac' \<Longrightarrow> replies ac' = []"
    "\<And>as. in_order as ac \<Longrightarrow> in_order as ac'" "\<not> released ac' \<Longrightarrow> c_err ac' = 0 \<Longrightarrow> \<not> released ac \<and> c_err ac = 0"
  shows "answered rs ac'"
  using assms unfolding answered_def by blast

lemma answered_extends:
  assumes "answered rs ac" "\<not> released ac" "extends ac ac'"
  shows "answered rs ac' \<and> \<not> released ac'"
  using answered_same [OF assms(1), of ac'] assms by (auto simp: answered_def extends_def stays_def)

lemma disconnect_closing:
  assumes "user_ok user" "answered rs ac" "\<not> released ac" "c_err ac \<noteq> 0 \<or> replies ac = [] \<and> closing ac"
  shows "\<exists>ac'. redisAsyncDisconnect_now user ac = Some ac' \<and> answered (rs @ later) ac' \<or>
    redisAsyncDisconnect_now user ac = Some ac' \<and> c_err ac = 0 \<and> answered rs ac'"
proof -
  obtain n k where o: "unsubscribed_mode ac" "\<not> f_in_callback ac" "in_order (map Some (take n rs) @ replicate k None) ac"
      "c_err ac = 0 \<Longrightarrow> k = 0 \<and> length rs \<le> n"
    using assms(2,3) by (auto simp: answered_def)
  obtain ac' m where ac': "redisAsyncDisconnect_now user ac = Some ac'" "unsubscribed_mode ac'" "\<not> f_in_callback ac'"
      "in_order ((map Some (take n rs) @ replicate k None) @ replicate m None) ac'" "released ac' \<Longrightarrow> replies ac' = []"
      "\<not> released ac' \<Longrightarrow> c_err ac' = c_err ac \<and> m = 0"
    using disconnect_order [OF assms(1) o(1) assms(3) o(2,3) assms(4)] by metis
  have "in_order (map Some (take n rs) @ replicate (k + m) None) ac'" using ac'(4) by (simp add: replicate_add)
  then have a: "answered rs ac'"
    unfolding answered_def using ac' o(4) by (intro conjI exI [of _ n] exI [of _ "k + m"]) auto
  show ?thesis
  proof (cases "c_err ac = 0")
    case False
    have "take (min n (length rs)) (rs @ later) = take n rs" by (simp add: min_def)
    then have "in_order (map Some (take (min n (length rs)) (rs @ later)) @ replicate (k + m) None) ac'"
      using \<open>in_order (map Some (take n rs) @ replicate (k + m) None) ac'\<close> by simp
    then have "answered (rs @ later) ac'"
      unfolding answered_def using ac' False
      by (intro conjI exI [of _ "min n (length rs)"] exI [of _ "k + m"]) auto
    then show ?thesis using ac'(1) by blast
  qed (use ac'(1) a in blast)
qed

lemma disconnect_failed:
  assumes "user_ok user" "answered rs ac" "\<not> released ac" "c_err ac \<noteq> 0"
  shows "\<exists>ac'. redisAsyncDisconnect_now user ac = Some ac' \<and> answered (rs @ later) ac'"
  using disconnect_closing [OF assms(1-3), of later] assms(4) by blast

text \<open>The calls of the user outside callbacks, and in the callback for the connection.\<close>

lemma user_call_order:
  assumes "user_ok user" "answered rs ac" "\<not> released ac" "api_ok (Issued None 0 False) a"
  shows "\<exists>ac'. user_call user a ac = Some ac' \<and> answered rs ac'"
proof (cases a)
  case (Command fn p cmd mem buf_mem)
  then obtain ac' where "redisAsyncFormattedCommand fn p cmd mem buf_mem ac = Some ac'" "extends ac ac'"
    using command_extends [of cmd ac fn p mem buf_mem] assms(2,4) by (auto simp: answered_def)
  then show ?thesis using Command assms(3) answered_extends [OF assms(2,3)] by (simp add: user_call_def)
next
  case Disconnect
  define ac1 where "ac1 = ac\<lparr>f_disconnecting := True, f_no_auto_free := False\<rparr>"
  have a1: "answered rs ac1" "\<not> released ac1" "\<not> f_in_callback ac1" "closing ac1" "replies ac1 = replies ac"
    using assms(2,3) by (simp_all add: answered_def ac1_def unsubscribed_mode_def in_order_def closing_def)
  show ?thesis
  proof (cases "replies ac = []")
    case True
    then obtain ac' where "redisAsyncDisconnect_now user ac1 = Some ac'" "answered rs ac'"
      using disconnect_closing [OF assms(1) a1(1,2), of "[]"] a1(4,5) by auto
    then show ?thesis using Disconnect True assms(3) a1 by (simp add: user_call_def ac1_def)
  next
    case False
    then show ?thesis using Disconnect assms(3) a1 by (simp add: user_call_def ac1_def)
  qed
next
  case Free
  define ac1 where "ac1 = ac\<lparr>f_freeing := True\<rparr>"
  obtain n k where o: "unsubscribed_mode ac1" "\<not> released ac1" "\<not> f_in_callback ac1" "closing ac1"
      "in_order (map Some (take n rs) @ replicate k None) ac1"
    using assms(2,3) by (auto simp: answered_def ac1_def unsubscribed_mode_def in_order_def closing_def)
  obtain ac' where ac': "redisAsyncFree_now user ac1 = Some ac'" "released ac'" "replies ac' = []" "unsubscribed_mode ac'"
      "\<not> f_in_callback ac'" "in_order ((map Some (take n rs) @ replicate k None) @ replicate (length (replies ac1)) None) ac'"
    by (rule free_order [OF assms(1) o])
  then have "in_order (map Some (take n rs) @ replicate (k + length (replies ac1)) None) ac'" by (simp add: replicate_add)
  then have "answered rs ac'" unfolding answered_def using ac' by blast
  then show ?thesis using Free assms(3) o(3) ac'(1) by (simp add: user_call_def ac1_def)
qed

lemma connect_callback_order:
  assumes "user_ok user" "answered rs ac" "\<not> released ac"
  shows "\<exists>ac'. (if on_connect ac
      then let ac = ac\<lparr>history := history ac @ [Connect_status b]\<rparr> in user_calls user (user (history ac)) ac
      else Some ac) = Some ac' \<and> answered rs ac' \<and> \<not> released ac' \<and> stays ac ac' \<and> length (replies ac) \<le> length (replies ac')"
proof (cases "on_connect ac")
  case True
  define ac1 where "ac1 = ac\<lparr>history := history ac @ [Connect_status b]\<rparr>"
  have u: "unsubscribed_mode ac1" "\<not> released ac1" "answered rs ac1"
    using assms(2,3) by (simp_all add: ac1_def answered_def unsubscribed_mode_def in_order_def)
  have "list_all (api_ok (Connect_status b)) (user (history ac1))" using assms(1) by (simp add: user_ok_def ac1_def)
  then obtain ac' where "user_calls user (user (history ac1)) ac1 = Some ac'" "extends ac1 ac'"
    unfolding user_calls_def using api_calls_extend [of "Connect_status b" _ ac1] u(1,2) by (simp; blast)
  moreover from this have "answered rs ac'" "\<not> released ac'" using answered_extends [OF u(3,2)] by simp_all
  ultimately show ?thesis
    using True by (auto simp: ac1_def extends_def stays_def closing_def unsubscribed_mode_def)
qed (use assms in \<open>simp add: stays_def\<close>)

definition conn_ok :: "connect_state \<Rightarrow> bool" where
  "conn_ok conn \<longleftrightarrow> conn \<noteq> Connect_failed 0 \<and> conn \<noteq> Nodelay_failed 0"

lemma connect_failure_order:
  assumes "user_ok user" "answered rs ac" "\<not> released ac" "c_err ac \<noteq> 0"
  shows "\<exists>ac'. handle_connect_failure user ac = Some ac' \<and> answered (rs @ later) ac'"
proof -
  obtain ac1 where ac1: "(if on_connect ac
      then let ac = ac\<lparr>history := history ac @ [Connect_status False]\<rparr> in user_calls user (user (history ac)) ac
      else Some ac) = Some ac1" "answered rs ac1" "\<not> released ac1" "stays ac ac1"
    using connect_callback_order [OF assms(1-3)] by blast
  then have "c_err ac1 \<noteq> 0" using assms(4) by (simp add: stays_def)
  then show ?thesis
    using disconnect_failed [OF assms(1) ac1(2,3), of later] ac1(3) unfolding handle_connect_failure_def ac1(1) by simp
qed

text \<open>A handler runs when the context is connected, or becomes so.\<close>

lemma when_connected_order:
  assumes "user_ok user" "answered rs ac" "\<not> released ac" "conn_ok conn"
    "\<And>ac1. answered rs ac1 \<Longrightarrow> \<not> released ac1 \<Longrightarrow> length (replies ac) \<le> length (replies ac1) \<Longrightarrow>
      \<exists>ac'. f ac1 = Some ac' \<and> answered (rs @ later) ac'"
    "\<not> f_connected ac \<Longrightarrow> conn = Connecting \<Longrightarrow> later = []"
  shows "\<exists>ac'. when_connected user conn f ac = Some ac' \<and> answered (rs @ later) ac'"
proof (cases "f_connected ac")
  case True
  then show ?thesis using assms(5) [OF assms(2,3)] by (simp add: when_connected_def)
next
  case no: False
  show ?thesis
  proof (cases conn)
    case (Connect_failed e)
    define ac1 where "ac1 = ac\<lparr>c_err := e, ac_err := e\<rparr>"
    have "answered rs ac1" "\<not> released ac1" "c_err ac1 \<noteq> 0"
      using assms(2-4) Connect_failed by (auto simp: ac1_def answered_def unsubscribed_mode_def in_order_def conn_ok_def)
    then show ?thesis
      using connect_failure_order [OF assms(1), of rs ac1 later] no Connect_failed
      by (auto simp: when_connected_def redisAsyncHandleConnect_def ac1_def)
  next
    case Connecting
    then show ?thesis using assms(2,6) no by (simp add: when_connected_def redisAsyncHandleConnect_def)
  next
    case (Nodelay_failed e)
    define ac1 where "ac1 = ac\<lparr>c_err := e\<rparr>"
    have "answered rs ac1" "\<not> released ac1" "c_err ac1 \<noteq> 0"
      using assms(2-4) Nodelay_failed by (auto simp: ac1_def answered_def unsubscribed_mode_def in_order_def conn_ok_def)
    then show ?thesis
      using connect_failure_order [OF assms(1), of rs ac1 later] no Nodelay_failed
      by (auto simp: when_connected_def redisAsyncHandleConnect_def ac1_def)
  next
    case Connect_done
    obtain ac1 where ac1: "(if on_connect ac
        then let ac = ac\<lparr>history := history ac @ [Connect_status True]\<rparr> in user_calls user (user (history ac)) ac
        else Some ac) = Some ac1" "answered rs ac1" "\<not> released ac1" "length (replies ac) \<le> length (replies ac1)"
      using connect_callback_order [OF assms(1-3)] by blast
    have "answered rs (ac1\<lparr>f_connected := True\<rparr>)"
      using ac1(2) by (simp add: answered_def unsubscribed_mode_def in_order_def)
    then obtain ac' where "f (ac1\<lparr>f_connected := True\<rparr>) = Some ac'" "answered (rs @ later) ac'"
      using assms(5) [of "ac1\<lparr>f_connected := True\<rparr>"] ac1(3,4) by auto
    then show ?thesis
      using no ac1(3) unfolding when_connected_def redisAsyncHandleConnect_def Connect_done connect_state.case ac1(1) by simp
  qed
qed

text \<open>What the environment may do: the user outside callbacks, the server, and the socket.\<close>

fun expected :: "asyncContext \<Rightarrow> async_event \<Rightarrow> bool" where
  "expected ac (Call a) = api_ok (Issued None 0 False) a"
| "expected ac (Readable conn input) =
     (conn_ok conn \<and> (case input of Inl e \<Rightarrow> e \<noteq> 0 | Inr xs \<Rightarrow> expected_input (length (replies ac)) xs))"
| "expected ac (Writable conn output) = (conn_ok conn \<and> output \<noteq> Inl 0)"
| "expected ac Timeout = True"

fun received :: "asyncContext \<Rightarrow> async_event \<Rightarrow> reply list" where
  "received ac (Readable conn (Inr xs)) = (if f_connected ac \<or> conn \<noteq> Connecting then replies_in xs else [])"
| "received ac _ = []"

lemma expected_input_mono: "expected_input n xs \<Longrightarrow> n \<le> m \<Longrightarrow> expected_input m xs"
  by (induction n xs arbitrary: m rule: expected_input.induct) (auto split: if_splits)

lemma read_order:
  assumes "user_ok user" "answered rs ac" "\<not> released ac"
    "case input of Inl e \<Rightarrow> e \<noteq> 0 | Inr xs \<Rightarrow> expected_input n xs" "n \<le> length (replies ac)"
    "later = (case input of Inl e \<Rightarrow> [] | Inr xs \<Rightarrow> replies_in xs)"
  shows "\<exists>ac'. redisAsyncRead user input ac = Some ac' \<and> answered (rs @ later) ac'"
proof (cases "c_err ac = 0")
  case False
  then show ?thesis using disconnect_failed [OF assms(1-3) False, of later] by (simp add: redisAsyncRead_def)
next
  case True
  have o: "unsubscribed_mode ac" "\<not> f_in_callback ac" "in_order (map Some rs) ac"
    using assms(2,3) True by (auto simp: answered_def)
  show ?thesis
  proof (cases input)
    case (Inl e)
    have "answered rs (ac\<lparr>c_err := e\<rparr>)" using assms(2,4) Inl by (auto simp: answered_def unsubscribed_mode_def in_order_def)
    then show ?thesis
      using disconnect_failed [OF assms(1), of rs "ac\<lparr>c_err := e\<rparr>" later] assms(3,4) Inl True by (simp add: redisAsyncRead_def)
  next
    case (Inr xs)
    then show ?thesis
      using process_order [OF assms(1), of "ac\<lparr>ev_read := True\<rparr>" rs n xs] o assms(3-6) True
      by (simp add: redisAsyncRead_def unsubscribed_mode_def in_order_def)
  qed
qed

lemma write_order:
  assumes "user_ok user" "answered rs ac" "\<not> released ac" "output \<noteq> Inl 0"
  shows "\<exists>ac'. redisAsyncWrite user output ac = Some ac' \<and> answered rs ac'"
proof (cases "c_err ac = 0")
  case False
  then show ?thesis using disconnect_failed [OF assms(1-3) False, of "[]"] by (simp add: redisAsyncWrite_def)
next
  case True
  show ?thesis
  proof (cases "if obuf ac = [] then Inr 0 else output")
    case (Inl e)
    have "answered rs (ac\<lparr>c_err := e\<rparr>)" "e \<noteq> 0"
      using assms(2,4) Inl by (auto simp: answered_def unsubscribed_mode_def in_order_def split: if_splits)
    then show ?thesis
      using disconnect_failed [OF assms(1), of rs "ac\<lparr>c_err := e\<rparr>" "[]"] assms(3) Inl True by (simp add: redisAsyncWrite_def)
  next
    case (Inr n)
    then show ?thesis
      using assms(2) True by (simp add: redisAsyncWrite_def Let_def answered_def unsubscribed_mode_def in_order_def)
  qed
qed

lemma timeout_order:
  assumes "user_ok user" "answered rs ac" "\<not> released ac"
  shows "\<exists>ac'. redisAsyncHandleTimeout user ac = Some ac' \<and> answered rs ac'"
proof (cases "f_connected ac \<and> (replies ac = [] \<and> sub_replies ac = [] \<or> command_timeout ac \<in> {None, Some (0, 0)})")
  case True
  then have "redisAsyncHandleTimeout user ac = Some ac" unfolding redisAsyncHandleTimeout_def by (rule if_P)
  then show ?thesis using assms(2) by blast
next
  case late: False
  define ac0 where "ac0 = (if c_err ac = 0 then ac\<lparr>c_err := ERR_TIMEOUT, ac_err := ERR_TIMEOUT\<rparr> else ac)"
  have a0: "answered rs ac0" "\<not> released ac0" "c_err ac0 \<noteq> 0" "f_connected ac0 = f_connected ac"
    using assms(2,3) by (auto simp: ac0_def answered_def unsubscribed_mode_def in_order_def)
  obtain ac1 where ac1: "(if \<not> f_connected ac0 \<and> on_connect ac0
        then let ac = ac0\<lparr>history := history ac0 @ [Connect_status False]\<rparr> in user_calls user (user (history ac)) ac
        else Some ac0) = Some ac1" "answered rs ac1" "\<not> released ac1" "stays ac0 ac1"
    using connect_callback_order [OF assms(1) a0(1,2), of False] a0(1,2)
    by (cases "f_connected ac0") (auto simp: stays_def)
  obtain n k where o: "unsubscribed_mode ac1" "\<not> f_in_callback ac1" "in_order (map Some (take n rs) @ replicate k None) ac1"
    using ac1(2) by (auto simp: answered_def)
  obtain ac2 where ac2: "drain_replies user ac1 = Some ac2" "replies ac2 = []" "stays ac1 ac2"
      "in_order ((map Some (take n rs) @ replicate k None) @ replicate (length (replies ac1)) None) ac2"
    using drain_order [OF assms(1) o(1) ac1(3) o(2,3)] by blast
  have c2: "c_err ac2 \<noteq> 0" "\<not> released ac2" "unsubscribed_mode ac2" "\<not> f_in_callback ac2"
    using ac2(3) ac1(3,4) a0(3) o(1,2) by (auto simp: stays_def)
  have "in_order (map Some (take n rs) @ replicate (k + length (replies ac1)) None) ac2" using ac2(4) by (simp add: replicate_add)
  then have "answered rs ac2" unfolding answered_def using c2 ac2(2) by blast
  then obtain ac' where "redisAsyncDisconnect_now user ac2 = Some ac'" "answered rs ac'"
    using disconnect_failed [OF assms(1) _ c2(2,1), of rs "[]"] by auto
  moreover have "redisAsyncHandleTimeout user ac = Option.bind (drain_replies user ac1) (redisAsyncDisconnect_now user)"
    using late ac1(1,3) unfolding redisAsyncHandleTimeout_def Let_def ac0_def [symmetric] a0(4) [symmetric]
    by (simp only: if_False) simp
  ultimately show ?thesis using ac2(1) by simp
qed

lemma step_order:
  assumes "user_ok user" "answered rs ac" "\<not> released ac" "expected ac ev"
  shows "\<exists>ac'. async_step user ev ac = Some ac' \<and> answered (rs @ received ac ev) ac'"
proof (cases ev)
  case (Call a)
  then show ?thesis using user_call_order [OF assms(1-3), of a] assms(4) by simp
next
  case (Readable conn input)
  have "\<exists>ac'. when_connected user conn (redisAsyncRead user input) ac = Some ac' \<and> answered (rs @ received ac ev) ac'"
  proof (cases "f_connected ac \<or> conn \<noteq> Connecting")
    case True
    then have r: "received ac ev = (case input of Inl e \<Rightarrow> [] | Inr xs \<Rightarrow> replies_in xs)"
      by (cases input) (simp_all add: Readable)
    show ?thesis
      by (rule when_connected_order [OF assms(1-3)])
        (use assms(4) Readable True r read_order [OF assms(1), where input = input and n = "length (replies ac)"] in auto)
  next
    case False
    then show ?thesis
      using assms(2) by (cases input) (simp_all add: Readable when_connected_def redisAsyncHandleConnect_def)
  qed
  then show ?thesis by (simp add: Readable redisAsyncHandleRead_def)
next
  case (Writable conn out)
  have "\<exists>ac'. when_connected user conn (redisAsyncWrite user out) ac = Some ac' \<and> answered (rs @ []) ac'"
    by (rule when_connected_order [OF assms(1-3)]) (use assms(4) Writable write_order [OF assms(1)] in auto)
  then show ?thesis by (simp add: Writable redisAsyncHandleWrite_def)
next
  case Timeout
  then show ?thesis using timeout_order [OF assms(1-3)] by simp
qed

text \<open>The contexts that a client without subscriptions reaches, with the replies received until then.\<close>

inductive async_reached :: "(event list \<Rightarrow> api list) \<Rightarrow> asyncContext \<Rightarrow> reply list \<Rightarrow> bool" for user where
  start: "async_reached user ((redisAsyncInitialize no_auto_free push)\<lparr>on_connect := c, on_disconnect := d, command_timeout := tv\<rparr>) []"
| event: "async_reached user ac rs \<Longrightarrow> \<not> released ac \<Longrightarrow> expected ac ev \<Longrightarrow> async_step user ev ac = Some ac' \<Longrightarrow>
    async_reached user ac' (rs @ received ac ev)"

lemma start_answered:
  "answered [] ((redisAsyncInitialize no_auto_free push)\<lparr>on_connect := c, on_disconnect := d, command_timeout := tv\<rparr>)"
proof -
  have "in_order (map Some (take 0 []) @ replicate 0 None)
      ((redisAsyncInitialize no_auto_free push)\<lparr>on_connect := c, on_disconnect := d, command_timeout := tv\<rparr>)"
    by (simp add: in_order_def redisAsyncInitialize_def)
  then show ?thesis
    unfolding answered_def
    by (intro conjI exI [of _ 0]) (simp_all add: redisAsyncInitialize_def unsubscribed_mode_def unused_def dictInit_def)
qed

lemma reached_answered:
  assumes "user_ok user" "async_reached user ac rs"
  shows "answered rs ac"
  using assms(2)
proof (induction rule: async_reached.induct)
  case start
  show ?case by (rule start_answered)
next
  case (event ac rs ev ac')
  then show ?case using step_order [OF assms(1) event.IH event.hyps(2,3)] by simp
qed


text \<open>A user that follows a reply to the first command with a second command, and a reply to the first.\<close>

definition get_command :: string where
  "get_command = ''*2'' @ [CR, LF] @ ''$3'' @ [CR, LF] @ ''GET'' @ [CR, LF] @ ''$1'' @ [CR, LF] @ ''x'' @ [CR, LF]"

definition chaining_user :: "event list \<Rightarrow> api list" where
  "chaining_user h = (case last h of
     Called fn p r \<Rightarrow> if p = 7 \<and> r \<noteq> None then [Command (Some 2) 8 get_command True True] else []
   | _ \<Rightarrow> [])"

lemma regular_get: "regular get_command"
  by code_simp

lemma chaining_user_ok: "user_ok chaining_user"
  unfolding user_ok_def
proof (intro allI)
  fix h e
  show "list_all (api_ok e) (chaining_user (h @ [e]))"
    by (cases e) (auto simp: chaining_user_def regular_get)
qed

definition sample_reply :: reply where
  "sample_reply = Reply REPLY_STRING ''value'' 0 []"


end
