(* ===== verification/Redis_Async_Subs.thy ===== *)
theory Redis_Async_Subs
  imports Redis_Async_Props
begin

text \<open>
  Subscriptions: which callback a channel gets, and which callback a published message reaches; and a
  timeout with a user that gives its command again.
\<close>

section \<open>The entries of a subscription\<close>

text \<open>The callbacks that a subscription stores.  The counter of a channel that has an entry is carried over to
  the channels behind it.\<close>

fun subscribe_map ::
  "redisCallback \<Rightarrow> u8 list list \<Rightarrow> (u8 list \<rightharpoonup> redisCallback) \<Rightarrow> (u8 list \<rightharpoonup> redisCallback)"
where
  "subscribe_map cb [] m = m"
| "subscribe_map cb (k # ks) m =
     (let cb = (case m k of None \<Rightarrow> cb | Some c \<Rightarrow> cb\<lparr>pending_subs := pending_subs c + 1\<rparr>)
      in subscribe_map cb ks (m(k \<mapsto> cb)))"

lemma subscribe_map_routes:
  "k \<in> set ks \<or> (\<exists>c. m k = Some c \<and> cb_fn c = cb_fn cb \<and> cb_privdata c = cb_privdata cb) \<Longrightarrow>
   \<exists>c. subscribe_map cb ks m k = Some c \<and> cb_fn c = cb_fn cb \<and> cb_privdata c = cb_privdata cb"
proof (induction ks arbitrary: cb m)
  case (Cons a ks)
  define cb' where "cb' = (case m a of None \<Rightarrow> cb | Some c \<Rightarrow> cb\<lparr>pending_subs := pending_subs c + 1\<rparr>)"
  have "cb_fn cb' = cb_fn cb" "cb_privdata cb' = cb_privdata cb" by (auto simp: cb'_def split: option.split)
  moreover define m' where "m' = m(a \<mapsto> cb')"
  ultimately have "k \<in> set ks \<or> (\<exists>c. m' k = Some c \<and> cb_fn c = cb_fn cb' \<and> cb_privdata c = cb_privdata cb')"
    using Cons.prems by (cases "k = a") auto
  then have "\<exists>c. subscribe_map cb' ks m' k = Some c \<and> cb_fn c = cb_fn cb' \<and> cb_privdata c = cb_privdata cb'"
    by (rule Cons.IH)
  then show ?case
    using \<open>cb_fn cb' = cb_fn cb\<close> \<open>cb_privdata cb' = cb_privdata cb\<close> by (simp add: cb'_def [symmetric] m'_def [symmetric])
qed simp

text \<open>A dictionary with channel names as keys and room for \<open>n\<close> more.\<close>

definition channel_dict :: "nat \<Rightarrow> (u8 list, redisCallback) dict \<Rightarrow> bool" where
  "channel_dict n d \<longleftrightarrow> dict_inv callbackDict d \<and> (\<forall>k \<in> dom (dict_map d). channel_name k) \<and>
     length (concat (d_table d)) + n \<le> 2 ^ 30"

lemma channel_dict_simps:
  "channel_dict n d \<longleftrightarrow> dict_inv callbackDict d \<and> subscriptions.valid_keys d \<and> length (concat (d_table d)) + n \<le> 2 ^ 30"
  by (simp add: channel_dict_def subscriptions.valid_keys_def)

lemma find_channel:
  assumes "channel_dict n d" "channel_name k"
  obtains he where "dictFind callbackDict k d = Some he" "map_option (dictGetEntryVal d) he = dict_map d k"
  using assms subscriptions.find_map [of d k] unfolding channel_dict_simps by metis

lemma subscribe_loop_at:
  assumes "list_all (\<lambda>a. length a < 2 ^ 31) args" "channel_dict (length args) d"
  shows "\<exists>d'. subscribe_loop True (pre @ concat (map write_arg args)) (int (length pre)) cb d = Some (True, d') \<and>
    dict_map d' = subscribe_map cb (map bytes_of args) (dict_map d) \<and> channel_dict 0 d'"
  using assms
proof (induction args arbitrary: pre cb d)
  case Nil
  then show ?case using nextArgument_end [of pre] by (subst subscribe_loop.simps) simp
next
  case (Cons a args)
  define cmd where "cmd = pre @ write_arg a @ concat (map write_arg args)"
  have n: "nextArgument cmd (length pre) =
      Some (Some (length pre + 3 + length (udec (length a)), int (length a), int (length (pre @ write_arg a))))"
    using nextArgument_at [of a "[]" pre "concat (map write_arg args)"] Cons.prems by (simp add: cmd_def)
  have b: "argument_bytes cmd (length pre + 3 + length (udec (length a))) (int (length a)) = Some (bytes_of a)"
    unfolding cmd_def by (rule argument_bytes_at) simp
  have name: "channel_name (bytes_of a)" using Cons.prems(1) by (simp add: channel_name_def)
  obtain he where he: "dictFind callbackDict (bytes_of a) d = Some he" "map_option (dictGetEntryVal d) he = dict_map d (bytes_of a)"
    by (rule find_channel [OF Cons.prems(2) name])
  define cb' where "cb' = (case dict_map d (bytes_of a) of None \<Rightarrow> cb | Some c \<Rightarrow> cb\<lparr>pending_subs := pending_subs c + 1\<rparr>)"
  have cb': "(case he of None \<Rightarrow> cb | Some he \<Rightarrow> cb\<lparr>pending_subs := pending_subs (dictGetEntryVal d he) + 1\<rparr>) = cb'"
    using he(2) by (auto simp: cb'_def split: option.splits)
  have d: "dict_inv callbackDict d" "length (concat (d_table d)) < 2 ^ 30" "subscriptions.valid_keys d"
    using Cons.prems(2) by (simp_all add: channel_dict_simps)
  obtain r d1 where d1: "dictReplace True True callbackDict (bytes_of a) cb' d = Some (r, d1)" "dict_inv callbackDict d1"
      "subscriptions.valid_keys d1" "dict_map d1 = (dict_map d)(bytes_of a \<mapsto> cb')"
      "length (concat (d_table d1)) \<le> Suc (length (concat (d_table d)))"
    by (rule subscriptions.replace_map [OF d name, of True True cb']) blast
  have "\<exists>d'. subscribe_loop True ((pre @ write_arg a) @ concat (map write_arg args)) (int (length (pre @ write_arg a))) cb' d1
      = Some (True, d') \<and> dict_map d' = subscribe_map cb' (map bytes_of args) (dict_map d1) \<and> channel_dict 0 d'"
    by (rule Cons.IH) (use Cons.prems d1 in \<open>simp_all add: channel_dict_simps\<close>)
  then obtain d' where d': "subscribe_loop True cmd (int (length (pre @ write_arg a))) cb' d1 = Some (True, d')"
      "dict_map d' = subscribe_map cb' (map bytes_of args) (dict_map d1)" "channel_dict 0 d'"
    by (auto simp: cmd_def)
  have "subscribe_loop True cmd (int (length pre)) cb d = Some (True, d')"
    using n b he(1) cb' d1(1) d'(1) by (subst subscribe_loop.simps) (simp del: of_nat_add length_append)
  then show ?case using d'(2,3) d1(4) by (simp add: cmd_def cb'_def [symmetric])
qed

section \<open>Commands that subscribe\<close>

lemma command_kind_formatted:
  assumes "length name < 2 ^ 31" "cmd = write_command (name # args)"
    "pre = CHR ''*'' # udec (Suc (length args)) @ [CR, LF] @ write_arg name"
    "s = (if is_p (name @ [CR]) then tl (name @ CR # LF # concat (map write_arg args))
          else name @ CR # LF # concat (map write_arg args))"
  shows "cmd = pre @ concat (map write_arg args)"
    "command_kind cmd = Some (if args \<noteq> [] \<and> strncase_eq 11 s (''subscribe'' @ [CR, LF]) then Subscribe (is_p (name @ [CR]))
       else if strncase_eq 13 s (''unsubscribe'' @ [CR, LF]) then Unsubscribe
       else if strncase_eq 9 s (''monitor'' @ [CR, LF]) then Monitor else Regular, int (length pre))"
proof -
  define mid where "mid = CHR ''*'' # udec (Suc (length args)) @ [CR, LF]"
  have m: "\<forall>x \<in> set mid. x \<noteq> CHR ''$'' \<and> x \<noteq> NUL" using header_plain [of _ "Suc (length args)"] by (auto simp: mid_def)
  define q where "q = length mid + 3 + length (udec (length name))"
  show cmd: "cmd = pre @ concat (map write_arg args)"
    by (simp add: assms(2,3) write_command_def)
  have c: "cmd = mid @ write_arg name @ concat (map write_arg args)" by (simp add: cmd assms(3) mid_def)
  have n: "nextArgument cmd 0 = Some (Some (q, int (length name), int (length pre)))"
    using nextArgument_at [OF assms(1) m, of "[]" "concat (map write_arg args)"]
    by (simp add: c q_def assms(3) mid_def)
  define head where "head = mid @ CHR ''$'' # udec (length name) @ [CR, LF]"
  have h: "cmd = head @ name @ CR # LF # concat (map write_arg args)" "q = length head"
    by (simp_all add: c head_def write_arg_def q_def)
  have d: "drop q cmd = name @ CR # LF # concat (map write_arg args)" by (simp add: h)
  have "q < length cmd + 1" by (simp add: h)
  moreover have "is_p (drop q cmd) = is_p (name @ [CR])" unfolding d by (cases name) (simp_all add: is_p_def)
  moreover have "rd (cmd @ [NUL]) (length pre) = Some (if args = [] then NUL else CHR ''$'')"
    unfolding cmd by (cases args) (simp_all add: rd_def write_arg_def nth_append)
  moreover have "drop (Suc q) cmd = tl (drop q cmd)" by (simp add: drop_Suc tl_drop)
  ultimately show "command_kind cmd = Some (if args \<noteq> [] \<and> strncase_eq 11 s (''subscribe'' @ [CR, LF]) then Subscribe (is_p (name @ [CR]))
       else if strncase_eq 13 s (''unsubscribe'' @ [CR, LF]) then Unsubscribe
       else if strncase_eq 9 s (''monitor'' @ [CR, LF]) then Monitor else Regular, int (length pre))"
    using n d unfolding command_kind_def assms(4) by (auto simp: Let_def)
qed

section \<open>Published messages\<close>

lemma setEntryVal_same: "setEntryVal he (dictGetEntryVal d he) d = d"
  by (cases he) (simp add: setEntryVal_def dictGetEntryVal_def)

definition string_reply :: "string \<Rightarrow> reply" where
  "string_reply s = Reply REPLY_STRING s 0 []"

text \<open>The reply has the form of a published message in this context.\<close>

definition published :: "int \<Rightarrow> asyncContext \<Rightarrow> bool" where
  "published t ac \<longleftrightarrow> t = REPLY_PUSH \<or> t = REPLY_ARRAY \<and> \<not> f_supports_push ac"

lemma message_callback:
  assumes "published t ac" "channel_dict n (channels ac)" "length ch < 2 ^ 31" "dict_map (channels ac) (bytes_of ch) = Some cb"
  shows "redisGetSubscribeCallback (Reply t [] 0 [string_reply ''message'', string_reply ch, r]) ac = Some (cb, ac)"
proof -
  have name: "channel_name (bytes_of ch)" using assms(3) by (simp add: channel_name_def)
  obtain he where he: "dictFind callbackDict (bytes_of ch) (channels ac) = Some he"
      "map_option (dictGetEntryVal (channels ac)) he = dict_map (channels ac) (bytes_of ch)"
    by (rule find_channel [OF assms(2) name])
  then obtain e where e: "he = Some e" "dictGetEntryVal (channels ac) e = cb" using assms(4) by auto
  have k: "is_p ''message'' = False" "strcase_eq ''message'' ''subscribe'' = False" "strcase_eq ''message'' ''unsubscribe'' = False"
    by code_simp+
  have "setEntryVal e cb (channels ac) = channels ac" using setEntryVal_same [of e "channels ac"] e(2) by simp
  then show ?thesis
    using assms(1) he(1) e
    by (auto simp: redisGetSubscribeCallback_def published_def is_push_def element_of_def string_reply_def Let_def k)
qed

lemma arg_values_lengths: "arg_values (Some (map length args)) args [0..<length args] = Some args"
proof -
  have "arg_values (Some (map length args)) args js = Some (map (\<lambda>j. args ! j) js)" if "\<forall>j \<in> set js. j < length args" for js
    using that by (induction js) (auto simp: arg_len_def rd_def)
  then show ?thesis by (simp add: map_nth)
qed

lemma strncase_prefix: "n \<le> length s \<Longrightarrow> strncase_eq n (s @ rest) t = strncase_eq n s t"
proof (induction n arbitrary: s t)
  case (Suc n)
  then obtain c s' where "s = c # s'" by (cases s) auto
  then show ?case using Suc by (simp add: Let_def)
qed simp

lemma strncase_subscribe:
  "is_p (''SUBSCRIBE'' @ [CR]) = False" "strncase_eq 11 (''SUBSCRIBE'' @ CR # LF # rest) (''subscribe'' @ [CR, LF])"
proof -
  have "strncase_eq 11 (''SUBSCRIBE'' @ [CR, LF]) (''subscribe'' @ [CR, LF])" by code_simp
  then show "strncase_eq 11 (''SUBSCRIBE'' @ CR # LF # rest) (''subscribe'' @ [CR, LF])"
    using strncase_prefix [of 11 "''SUBSCRIBE'' @ [CR, LF]" rest] by (simp del: strncase_eq.simps)
qed code_simp

text \<open>C35: \<open>SUBSCRIBE\<close> with any channels, given as an argument vector, is formatted, parsed back and stored: the
  table of the channels becomes the map that the callback gives for the bytes of each argument, the command goes
  into the output buffer, no reply is expected for it, and from then on a message that is published in one of
  the channels is given to this callback and leaves the context alone.\<close>

theorem subscription_routes:
  assumes "\<And>n. alloc n" "length (write_command (''SUBSCRIBE'' # chs)) < 2 ^ 31" "chs \<noteq> []" "\<not> closing ac"
    "channel_dict (length chs) (channels ac)"
  shows "\<exists>ac'. redisAsyncCommandArgv alloc (Some fn) p (''SUBSCRIBE'' # chs) (Some (map length (''SUBSCRIBE'' # chs))) True True ac
      = Some ac' \<and> f_subscribed ac' \<and> replies ac' = replies ac \<and> sub_replies ac' = sub_replies ac \<and>
    obuf ac' = obuf ac @ write_command (''SUBSCRIBE'' # chs) \<and>
    dict_map (channels ac') = subscribe_map \<lparr>cb_fn = Some fn, pending_subs = 1, cb_privdata = p\<rparr> (map bytes_of chs)
      (dict_map (channels ac)) \<and>
    (\<forall>ch \<in> set chs. \<forall>t r. published t ac \<longrightarrow> (\<exists>cb. cb_fn cb = Some fn \<and> cb_privdata cb = p \<and>
      redisGetSubscribeCallback (Reply t [] 0 [string_reply ''message'', string_reply ch, r]) ac' = Some (cb, ac')))"
proof -
  define cmd where "cmd = write_command (''SUBSCRIBE'' # chs)"
  define pre where "pre = CHR ''*'' # udec (Suc (length chs)) @ [CR, LF] @ write_arg ''SUBSCRIBE''"
  define cb where "cb = \<lparr>cb_fn = Some fn, pending_subs = 1, cb_privdata = p\<rparr>"
  have small: "length a < 2 ^ 31" if "a \<in> set (''SUBSCRIBE'' # chs)" for a
    using length_args_le [OF that] assms(2) by simp
  have f: "redisFormatSdsCommandArgv alloc (''SUBSCRIBE'' # chs) (Some (map length (''SUBSCRIBE'' # chs))) =
      Some (int (length cmd), Some cmd)"
    using formatArgv_value(2) [OF assms(1) arg_values_lengths [of "''SUBSCRIBE'' # chs"]] assms(2) by (simp add: cmd_def)
  have k: "cmd = pre @ concat (map write_arg chs)" "command_kind cmd = Some (Subscribe False, int (length pre))"
    using command_kind_formatted [of "''SUBSCRIBE''" cmd chs pre, OF _ cmd_def pre_def refl] assms(3) strncase_subscribe
    by (simp_all del: strncase_eq.simps)
  obtain d where d: "subscribe_loop True cmd (int (length pre)) cb (channels ac) = Some (True, d)"
      "dict_map d = subscribe_map cb (map bytes_of chs) (dict_map (channels ac))" "channel_dict 0 d"
    using subscribe_loop_at [of chs "channels ac" pre cb] small assms(5) unfolding k(1) by (auto simp: list_all_iff)
  define ac' where "ac' = (append_command True cmd (ac\<lparr>f_subscribed := True, channels := d\<rparr>))
    \<lparr>history := history ac @ [Issued (Some fn) p True]\<rparr>"
  have "redisAsyncCommandArgv alloc (Some fn) p (''SUBSCRIBE'' # chs) (Some (map length (''SUBSCRIBE'' # chs))) True True ac
      = Some ac'"
    using f k(2) d(1) assms(4)
    by (simp add: redisAsyncCommandArgv_def command_of_def redisAsyncFormattedCommand_def async_command_def closing_def
        ac'_def cb_def del: list.map)
  moreover have "\<exists>cb'. cb_fn cb' = Some fn \<and> cb_privdata cb' = p \<and>
      redisGetSubscribeCallback (Reply t [] 0 [string_reply ''message'', string_reply ch, r]) ac' = Some (cb', ac')"
    if "ch \<in> set chs" "published t ac" for ch t r
  proof -
    have key: "bytes_of ch \<in> set (map bytes_of chs)" using that(1) by simp
    obtain cb' where cb': "dict_map (channels ac') (bytes_of ch) = Some cb'" "cb_fn cb' = Some fn" "cb_privdata cb' = p"
      using subscribe_map_routes [OF disjI1 [OF key], of cb "dict_map (channels ac)"] d(2)
      by (auto simp: ac'_def append_command_def cb_def)
    have "redisGetSubscribeCallback (Reply t [] 0 [string_reply ''message'', string_reply ch, r]) ac' = Some (cb', ac')"
      by (rule message_callback [where n = 0])
        (use that d(3) cb'(1) small in \<open>auto simp: ac'_def append_command_def published_def\<close>)
    then show ?thesis using cb' by blast
  qed
  ultimately show ?thesis
    using d(2) by (intro exI [of _ ac']) (simp add: ac'_def append_command_def cb_def cmd_def)
qed

section \<open>The end of a subscription\<close>

lemma map_of_empty_iff: "map_of xs = Map.empty \<longleftrightarrow> xs = []"
  by (cases xs) (auto simp: fun_eq_iff split: if_splits)

lemma channel_dict_empty:
  assumes "channel_dict n d"
  shows "d_used d = 0 \<longleftrightarrow> dict_map d = Map.empty"
proof -
  have inv: "dict_inv callbackDict d" using assms by (simp add: channel_dict_def)
  have "unat (d_used d) = length (concat (d_table d))"
    using dict_inv_facts(1,4) [OF inv] unat_of_nat_small [where 'w = 64, of "length (concat (d_table d))"]
    by (simp add: counted_def)
  moreover have "d_used d = 0 \<longleftrightarrow> unat (d_used d) = 0" by (simp add: unat_eq_0)
  ultimately have "d_used d = 0 \<longleftrightarrow> concat (d_table d) = []" by (simp only: length_0_conv)
  moreover have "dict_map d = Map.empty \<longleftrightarrow> concat (d_table d) = []"
    unfolding dict_map_def by (rule map_of_empty_iff)
  ultimately show ?thesis by blast
qed

text \<open>The callbacks of commands that were given in the subscribed mode.\<close>

definition reverted :: "asyncContext \<Rightarrow> asyncContext \<Rightarrow> bool" where
  "reverted ac ac' \<longleftrightarrow> \<not> f_subscribed ac' \<and> replies ac' = replies ac @ sub_replies ac \<and> sub_replies ac' = []"

text \<open>C36: the reply to \<open>UNSUBSCRIBE\<close> for a channel reaches the callback of the channel; the entry of the channel is
  removed unless a subscription of it is still to be confirmed, and exactly when the server reports no
  subscription and no entry is left, the context leaves the subscribed mode and the callbacks that were given
  meanwhile come behind those in the main queue, in their order.\<close>

theorem unsubscription_reverts:
  assumes "published t ac" "channel_dict n (channels ac)" "channel_dict m (patterns ac)" "length ch < 2 ^ 31"
    "dict_map (channels ac) (bytes_of ch) = Some cb"
  shows "\<exists>ac'. redisGetSubscribeCallback (Reply t [] 0 [string_reply ''unsubscribe'', string_reply ch, Reply REPLY_INTEGER [] left []]) ac
      = Some (cb, ac') \<and>
    dict_map (channels ac') = (if pending_subs cb = 0 then (dict_map (channels ac))(bytes_of ch := None) else dict_map (channels ac)) \<and>
    dict_map (patterns ac') = dict_map (patterns ac) \<and>
    (if left = 0 \<and> dict_map (channels ac') = Map.empty \<and> dict_map (patterns ac) = Map.empty then reverted ac ac'
     else f_subscribed ac' = f_subscribed ac \<and> replies ac' = replies ac \<and> sub_replies ac' = sub_replies ac)"
proof -
  have name: "channel_name (bytes_of ch)" using assms(4) by (simp add: channel_name_def)
  obtain he where he: "dictFind callbackDict (bytes_of ch) (channels ac) = Some he"
      "map_option (dictGetEntryVal (channels ac)) he = dict_map (channels ac) (bytes_of ch)"
    by (rule find_channel [OF assms(2) name])
  then obtain e where e: "he = Some e" "dictGetEntryVal (channels ac) e = cb" using assms(5) by auto
  have k: "is_p ''unsubscribe'' = False" "strcase_eq ''unsubscribe'' ''subscribe'' = False" "strcase_eq ''unsubscribe'' ''unsubscribe''"
    by code_simp+
  have same: "setEntryVal e cb (channels ac) = channels ac" using setEntryVal_same [of e "channels ac"] e(2) by simp
  obtain st d where d: "dictDelete callbackDict (bytes_of ch) (channels ac) = Some (st, d)"
      "dict_map d = (dict_map (channels ac))(bytes_of ch := None)" "channel_dict n d"
  proof -
    have c: "dict_inv callbackDict (channels ac)" "subscriptions.valid_keys (channels ac)"
      using assms(2) by (simp_all add: channel_dict_simps)
    show thesis
      by (rule subscriptions.delete_map [OF c name], rule that, assumption, assumption)
        (use assms(2) in \<open>simp add: channel_dict_simps\<close>)
  qed
  define d1 where "d1 = (if pending_subs cb = 0 then d else channels ac)"
  have d1: "channel_dict n d1"
      "dict_map d1 = (if pending_subs cb = 0 then (dict_map (channels ac))(bytes_of ch := None) else dict_map (channels ac))"
    using d assms(2) by (simp_all add: d1_def)
  define ac1 where "ac1 = ac\<lparr>channels := d1\<rparr>"
  define ac' where "ac' = (if left = 0 \<and> d_used d1 = 0 \<and> d_used (patterns ac) = 0
     then ac1\<lparr>f_subscribed := False, replies := replies ac @ sub_replies ac, sub_replies := []\<rparr> else ac1)"
  have "redisGetSubscribeCallback (Reply t [] 0 [string_reply ''unsubscribe'', string_reply ch, Reply REPLY_INTEGER [] left []]) ac
      = Some (cb, ac')"
    using assms(1) he(1) e d(1)
    by (auto simp: redisGetSubscribeCallback_def published_def is_push_def element_of_def string_reply_def Let_def k same
        unsubscribed_def ac'_def ac1_def d1_def numeral_2_eq_2)
  moreover have "left = 0 \<and> d_used d1 = 0 \<and> d_used (patterns ac) = 0 \<longleftrightarrow>
      left = 0 \<and> dict_map d1 = Map.empty \<and> dict_map (patterns ac) = Map.empty"
    by (simp add: channel_dict_empty [OF d1(1)] channel_dict_empty [OF assms(3)])
  ultimately show ?thesis
    using d1(2) by (intro exI [of _ ac']) (auto simp: ac'_def ac1_def reverted_def)
qed

text \<open>A dictionary with one entry.\<close>

lemma channel_dict_init: "channel_dict 1 dictInit" "dict_map dictInit = Map.empty"
  by (simp_all add: channel_dict_def dict_inv_def unused_def dictInit_def dict_map_def)

lemma channel_dict_single:
  assumes "channel_name k"
  obtains d where "channel_dict 0 d" "dict_map d = [k \<mapsto> cb]"
proof -
  obtain d where d: "dict_inv callbackDict d" "dict_map d = [k \<mapsto> cb]"
    using subscriptions.run_new [of "[Add k cb]"] assms by auto
  show thesis
    by (rule that [of d]) (use d assms dict_inv_facts(4) [OF d(1)] in \<open>simp_all add: channel_dict_def\<close>)
qed

theorem subscription_routes_witness:
  "\<exists>ac'. redisAsyncCommandArgv (\<lambda>_. True) (Some 1) 7 [''SUBSCRIBE'', ''news''] (Some [9, 4]) True True
      (redisAsyncInitialize False False) = Some ac' \<and> f_subscribed ac' \<and>
    dict_map (channels ac') = [bytes_of ''news'' \<mapsto> \<lparr>cb_fn = Some 1, pending_subs = 1, cb_privdata = 7\<rparr>] \<and>
    (\<exists>cb. cb_fn cb = Some 1 \<and> cb_privdata cb = 7 \<and> redisGetSubscribeCallback
      (Reply REPLY_ARRAY [] 0 [string_reply ''message'', string_reply ''news'', string_reply ''hello'']) ac' = Some (cb, ac'))"
proof -
  have i: "channels (redisAsyncInitialize False False) = dictInit" "\<not> closing (redisAsyncInitialize False False)"
      "published REPLY_ARRAY (redisAsyncInitialize False False)"
    by (simp_all add: redisAsyncInitialize_def closing_def published_def)
  have l: "length (write_command [''SUBSCRIBE'', ''news'']) < 2 ^ 31"
    by (simp add: length_write_command bulklen_def countDigits.simps)
  have c: "channel_dict (length [''news'']) (channels (redisAsyncInitialize False False))"
    using channel_dict_init(1) by (simp add: i(1))
  have len: "map length [''SUBSCRIBE'', ''news''] = [9, 4]" by simp
  have map: "subscribe_map cb (map bytes_of [''news'']) Map.empty = [bytes_of ''news'' \<mapsto> cb]" for cb by simp
  have "[''news''] \<noteq> []" by simp
  note t = subscription_routes [of "\<lambda>_. True" "[''news'']", OF TrueI l this i(2) c, of 1 7,
      unfolded len i(1) channel_dict_init(2) map]
  obtain ac' where ac': "redisAsyncCommandArgv (\<lambda>_. True) (Some 1) 7 [''SUBSCRIBE'', ''news''] (Some [9, 4]) True True
      (redisAsyncInitialize False False) = Some ac'" "f_subscribed ac'"
      "dict_map (channels ac') = [bytes_of ''news'' \<mapsto> \<lparr>cb_fn = Some 1, pending_subs = 1, cb_privdata = 7\<rparr>]"
      "\<forall>ch \<in> set [''news'']. \<forall>t r. published t (redisAsyncInitialize False False) \<longrightarrow> (\<exists>cb. cb_fn cb = Some 1 \<and> cb_privdata cb = 7 \<and>
        redisGetSubscribeCallback (Reply t [] 0 [string_reply ''message'', string_reply ch, r]) ac' = Some (cb, ac'))"
    using t by blast
  then show ?thesis using i(3) by (intro exI [of _ ac']) simp
qed

theorem unsubscription_reverts_witness:
  "\<exists>(ac :: asyncContext) ac'. f_subscribed ac \<and> dict_map (channels ac) \<noteq> Map.empty \<and> replies ac = [] \<and> length (sub_replies ac) = 1 \<and>
     redisGetSubscribeCallback
       (Reply REPLY_ARRAY [] 0 [string_reply ''unsubscribe'', string_reply ''news'', Reply REPLY_INTEGER [] 0 []]) ac
       = Some (\<lparr>cb_fn = Some 1, pending_subs = 0, cb_privdata = 7\<rparr>, ac') \<and>
     \<not> f_subscribed ac' \<and> dict_map (channels ac') = Map.empty \<and> replies ac' = sub_replies ac"
proof -
  define cb :: redisCallback where "cb = \<lparr>cb_fn = Some 1, pending_subs = 0, cb_privdata = 7\<rparr>"
  have "channel_name (bytes_of ''news'')" by (simp add: channel_name_def)
  then obtain d where d: "channel_dict 0 d" "dict_map d = [bytes_of ''news'' \<mapsto> cb]"
    by (rule channel_dict_single)
  define ac where "ac = (redisAsyncInitialize False False)\<lparr>f_subscribed := True, channels := d, sub_replies := [null_callback]\<rparr>"
  have a: "published REPLY_ARRAY ac" "channel_dict 0 (channels ac)" "channel_dict 1 (patterns ac)"
      "dict_map (channels ac) (bytes_of ''news'') = Some cb"
    using d channel_dict_init(1) by (simp_all add: ac_def redisAsyncInitialize_def published_def)
  obtain ac' where ac': "redisGetSubscribeCallback
      (Reply REPLY_ARRAY [] 0 [string_reply ''unsubscribe'', string_reply ''news'', Reply REPLY_INTEGER [] 0 []]) ac = Some (cb, ac')"
      "dict_map (channels ac') = (dict_map (channels ac))(bytes_of ''news'' := None)"
      "dict_map (channels ac') = Map.empty \<and> dict_map (patterns ac) = Map.empty \<longrightarrow> reverted ac ac'"
    using unsubscription_reverts [OF a(1-3) _ a(4), of 0] by (auto simp: cb_def)
  moreover have "dict_map (channels ac') = Map.empty" "dict_map (patterns ac) = Map.empty"
    using ac'(2) d(2) channel_dict_init(2) by (simp_all add: ac_def redisAsyncInitialize_def)
  ultimately have "reverted ac ac'" by simp
  then show ?thesis
    using ac'(1) \<open>dict_map (channels ac') = Map.empty\<close> d(2)
    by (intro exI [of _ ac] exI [of _ ac']) (simp add: reverted_def cb_def ac_def redisAsyncInitialize_def)
qed

section \<open>A timeout that does not end\<close>

text \<open>One turn of the loop of the timeout handler over the waiting callbacks.\<close>

definition drain_turn :: "(event list \<Rightarrow> api list) \<Rightarrow> asyncContext \<Rightarrow> asyncContext option" where
  "drain_turn user ac =
     (case redisShiftCallback (replies ac) of
        None \<Rightarrow> Some ac
      | Some (cb, rest) \<Rightarrow> redisRunCallback user cb None (ac\<lparr>replies := rest\<rparr>))"

primrec drain_turns :: "nat \<Rightarrow> (event list \<Rightarrow> api list) \<Rightarrow> asyncContext \<Rightarrow> asyncContext option" where
  "drain_turns 0 user ac = Some ac"
| "drain_turns (Suc n) user ac = Option.bind (drain_turn user ac) (drain_turns n user)"

lemma drain_replies_turn:
  "drain_replies user ac = (if replies ac = [] then Some ac else Option.bind (drain_turn user ac) (drain_replies user))"
  by (subst drain_replies.simps) (auto simp: drain_turn_def redisShiftCallback_def split: list.split)

text \<open>A user that gives its command again when it gets no reply.\<close>

definition retrying_user :: "string \<Rightarrow> event list \<Rightarrow> api list" where
  "retrying_user cmd h = (case last h of
     Called fn privdata r \<Rightarrow> if r = None then [Command (Some fn) privdata cmd True True] else []
   | _ \<Rightarrow> [])"

definition retrying :: "asyncContext \<Rightarrow> bool" where
  "retrying ac \<longleftrightarrow> replies ac \<noteq> [] \<and> (\<forall>cb \<in> set (replies ac). cb_fn cb \<noteq> None) \<and> \<not> closing ac \<and> \<not> f_subscribed ac \<and> \<not> released ac"

lemma retrying_turn:
  assumes "regular cmd" "retrying ac"
  shows "\<exists>ac'. drain_turn (retrying_user cmd) ac = Some ac' \<and> retrying ac' \<and> map key (replies ac') = rotate1 (map key (replies ac))"
proof -
  obtain q where k: "command_kind cmd = Some (Regular, q)" by (rule regularE [OF assms(1)])
  obtain cb rest fn where cb: "replies ac = cb # rest" "cb_fn cb = Some fn"
    using assms(2) by (cases "replies ac") (auto simp: retrying_def)
  then show ?thesis
    using assms(2) k
    by (simp add: drain_turn_def redisShiftCallback_def redisRunCallback_def in_callback_def retrying_user_def Let_def
        redisAsyncFormattedCommand_def async_command_def append_command_def redisPushCallback_def retrying_def closing_def key_def)
qed

lemma retrying_turns:
  "regular cmd \<Longrightarrow> retrying ac \<Longrightarrow> \<exists>ac'. drain_turns n (retrying_user cmd) ac = Some ac' \<and> retrying ac' \<and>
     map key (replies ac') = (rotate1 ^^ n) (map key (replies ac))"
proof (induction n arbitrary: ac)
  case (Suc n)
  then obtain ac1 where ac1: "drain_turn (retrying_user cmd) ac = Some ac1" "retrying ac1"
      "map key (replies ac1) = rotate1 (map key (replies ac))"
    using retrying_turn by blast
  then show ?case using Suc.IH [OF Suc.prems(1) ac1(2)] by (auto simp: funpow_swap1)
qed simp

lemma retrying_no_end:
  assumes "regular cmd" "retrying ac"
  shows "drain_replies (retrying_user cmd) ac = None"
proof (rule ccontr)
  assume "drain_replies (retrying_user cmd) ac \<noteq> None"
  then obtain r where "drain_replies (retrying_user cmd) ac = Some r" by blast
  then have "retrying_user cmd = retrying_user cmd \<longrightarrow> \<not> retrying ac"
  proof (rule drain_replies.raw_induct [where P = "\<lambda>u a r. u = retrying_user cmd \<longrightarrow> \<not> retrying a", rotated], intro impI notI)
    fix loop user a r
    assume IH: "\<And>u a r. loop u a = Some r \<Longrightarrow> u = retrying_user cmd \<longrightarrow> \<not> retrying a"
      and body: "(case redisShiftCallback (replies a) of None \<Rightarrow> Some a
        | Some (cb, rest) \<Rightarrow> Option.bind (redisRunCallback user cb None (a\<lparr>replies := rest\<rparr>)) (loop user)) = Some r"
      and u: "user = retrying_user cmd" and a: "retrying a"
    obtain a1 where a1: "drain_turn (retrying_user cmd) a = Some a1" "retrying a1" using retrying_turn [OF assms(1) a] by blast
    have "loop user a1 = Some r"
      using body a1(1) a u by (auto simp: drain_turn_def redisShiftCallback_def retrying_def split: list.splits)
    then show False using IH u a1(2) by blast
  qed
  then show False using assms(2) by blast
qed

text \<open>A timeout with a user that gives its command again in a callback without a reply.  The handler runs the
  waiting callbacks without forbidding new commands first, so each turn of its loop puts a callback behind the
  others: after any number of turns as many commands wait as before, in rotated order, and the handler does not
  return.\<close>

lemma timeout_retry_endless:
  assumes "regular cmd" "f_connected ac" "retrying ac" "command_timeout ac = Some tv" "tv \<noteq> (0, 0)"
  shows "redisAsyncHandleTimeout (retrying_user cmd) ac = None \<and>
    (\<exists>ac'. drain_turns n (retrying_user cmd) (if c_err ac = 0 then ac\<lparr>c_err := ERR_TIMEOUT, ac_err := ERR_TIMEOUT\<rparr> else ac)
        = Some ac' \<and> map key (replies ac') = (rotate1 ^^ n) (map key (replies ac)))"
proof -
  define ac1 where "ac1 = (if c_err ac = 0 then ac\<lparr>c_err := ERR_TIMEOUT, ac_err := ERR_TIMEOUT\<rparr> else ac)"
  have r: "retrying ac1" "replies ac1 = replies ac" "f_connected ac1"
    using assms(2,3) by (simp_all add: ac1_def retrying_def closing_def)
  have "redisAsyncHandleTimeout (retrying_user cmd) ac = None"
    using assms(2-5) retrying_no_end [OF assms(1) r(1)] r(1,3)
    unfolding redisAsyncHandleTimeout_def Let_def ac1_def [symmetric] by (auto simp: retrying_def)
  then show ?thesis using retrying_turns [OF assms(1) r(1), of n] r(2) unfolding ac1_def [symmetric] by auto
qed

end
