(* ===== verification/Redis_Sds.thy ===== *)
theory Redis_Sds
  imports Prelude
begin

text \<open>
  The strings of hiredis (\<open>sds.c\<close>, \<open>sds.h\<close>): a header of one of five types with the length and the
  capacity at its width, and the bytes behind it, which hold the string, its terminator and free space.

  Memory comes from the argument \<open>alloc\<close>: \<open>alloc n\<close> is an object of \<open>n\<close> bytes with whatever it contains, or
  \<open>None\<close> when there is none.  A result is \<open>None\<close> for undefined behaviour (an access outside an object, a null
  pointer that is followed, a failed assertion, a signed overflow) and \<open>Some None\<close> for the null pointer.
\<close>

section \<open>Headers\<close>

datatype sds_type = SDS_TYPE_5 | SDS_TYPE_8 | SDS_TYPE_16 | SDS_TYPE_32 | SDS_TYPE_64

record sds =
  s_type :: sds_type
  s_len :: u64
  s_alloc :: u64
  s_mem :: string

fun type_bits :: "sds_type \<Rightarrow> nat" where
  "type_bits SDS_TYPE_5 = 5" | "type_bits SDS_TYPE_8 = 8" | "type_bits SDS_TYPE_16 = 16"
| "type_bits SDS_TYPE_32 = 32" | "type_bits SDS_TYPE_64 = 64"

fun sdsHdrSize :: "sds_type \<Rightarrow> u64" where
  "sdsHdrSize SDS_TYPE_5 = 1" | "sdsHdrSize SDS_TYPE_8 = 3" | "sdsHdrSize SDS_TYPE_16 = 5"
| "sdsHdrSize SDS_TYPE_32 = 9" | "sdsHdrSize SDS_TYPE_64 = 17"

definition sdsReqType :: "u64 \<Rightarrow> sds_type" where
  "sdsReqType string_size =
     (if string_size < 32 then SDS_TYPE_5 else if string_size < 0xff then SDS_TYPE_8
      else if string_size < 0xffff then SDS_TYPE_16 else if string_size < 0xffffffff then SDS_TYPE_32
      else SDS_TYPE_64)"

definition SDS_MAX_PREALLOC :: u64 where "SDS_MAX_PREALLOC = 1048576"

text \<open>The accessors of \<open>sds.h\<close>.  Type 5 has no capacity.\<close>

definition sdslen :: "sds \<Rightarrow> u64" where "sdslen s = s_len s"

definition sdsalloc :: "sds \<Rightarrow> u64" where
  "sdsalloc s = (if s_type s = SDS_TYPE_5 then s_len s else s_alloc s)"

definition sdsavail :: "sds \<Rightarrow> u64" where
  "sdsavail s = (if s_type s = SDS_TYPE_5 then 0 else s_alloc s - s_len s)"

definition sdssetlen :: "u64 \<Rightarrow> sds \<Rightarrow> sds" where
  "sdssetlen newlen s = s\<lparr>s_len := take_bit (type_bits (s_type s)) newlen\<rparr>"

definition sdsinclen :: "u64 \<Rightarrow> sds \<Rightarrow> sds" where
  "sdsinclen inc s = s\<lparr>s_len := take_bit (type_bits (s_type s)) (s_len s + inc)\<rparr>"

definition sdssetalloc :: "u64 \<Rightarrow> sds \<Rightarrow> sds" where
  "sdssetalloc newlen s =
     (if s_type s = SDS_TYPE_5 then s else s\<lparr>s_alloc := take_bit (type_bits (s_type s)) newlen\<rparr>)"

section \<open>Memory\<close>

type_synonym allocator = "nat \<Rightarrow> string option"

text \<open>\<open>s_malloc(hdrlen+n+1)\<close> with the sum in \<open>size_t\<close>: the bytes behind the header.\<close>

definition sds_bytes :: "allocator \<Rightarrow> sds_type \<Rightarrow> u64 \<Rightarrow> string option" where
  "sds_bytes alloc ty n = map_option (drop (unat (sdsHdrSize ty))) (alloc (unat (sdsHdrSize ty + n + 1)))"

definition mem_write :: "nat \<Rightarrow> string \<Rightarrow> string \<Rightarrow> string option" where
  "mem_write i bs mem = (if i + length bs \<le> length mem then Some (take i mem @ bs @ drop (i + length bs) mem) else None)"

definition mem_read :: "nat \<Rightarrow> nat \<Rightarrow> string \<Rightarrow> string option" where
  "mem_read i n mem = (if i + n \<le> length mem then Some (take n (drop i mem)) else None)"

definition with_mem :: "(string \<Rightarrow> string option) \<Rightarrow> sds \<Rightarrow> sds option" where
  "with_mem f s = map_option (\<lambda>m. s\<lparr>s_mem := m\<rparr>) (f (s_mem s))"

text \<open>The next operation on a pointer that may be null.\<close>

definition on_sds :: "(sds \<Rightarrow> sds option option) \<Rightarrow> sds option option \<Rightarrow> sds option option" where
  "on_sds f r = Option.bind r (\<lambda>s. Option.bind s f)"

definition checked :: "(sds \<Rightarrow> sds option option) \<Rightarrow> sds option option \<Rightarrow> sds option option" where
  "checked f r = Option.bind r (\<lambda>s. case s of None \<Rightarrow> Some None | Some s \<Rightarrow> f s)"

definition sdsnewlen :: "allocator \<Rightarrow> string option \<Rightarrow> u64 \<Rightarrow> sds option option" where
  "sdsnewlen alloc init initlen =
     (let ty = (if sdsReqType initlen = SDS_TYPE_5 \<and> initlen = 0 then SDS_TYPE_8 else sdsReqType initlen)
      in case sds_bytes alloc ty initlen of
           None \<Rightarrow> Some None
         | Some mem \<Rightarrow>
             Option.bind (case init of
                 None \<Rightarrow> Some (replicate (length mem) NUL)
               | Some bs \<Rightarrow> Option.bind (mem_read 0 (unat initlen) bs) (\<lambda>bs. mem_write 0 bs mem)) (\<lambda>mem.
             Option.bind (mem_write (unat initlen) [NUL] mem) (\<lambda>mem.
               Some (Some \<lparr>s_type = ty, s_len = take_bit (type_bits ty) initlen,
                 s_alloc = take_bit (type_bits ty) initlen, s_mem = mem\<rparr>))))"

definition sdsempty :: "allocator \<Rightarrow> sds option option" where
  "sdsempty alloc = sdsnewlen alloc (Some []) 0"

text \<open>A C string is the list of its bytes before the terminator.\<close>

definition sdsnew :: "allocator \<Rightarrow> string option \<Rightarrow> sds option option" where
  "sdsnew alloc init = sdsnewlen alloc init (case init of None \<Rightarrow> 0 | Some t \<Rightarrow> of_nat (length t))"

definition sdsdup :: "allocator \<Rightarrow> sds \<Rightarrow> sds option option" where
  "sdsdup alloc s = sdsnewlen alloc (Some (s_mem s)) (sdslen s)"

text \<open>\<open>strlen\<close> on the bytes, which ends at the terminator or behind the object; the length goes through \<open>int\<close>.\<close>

definition sdsupdatelen :: "sds \<Rightarrow> sds option" where
  "sdsupdatelen s =
     (if NUL \<in> set (s_mem s) then Some (sdssetlen (of_int (signed_take_bit 31 (int (c_strlen (s_mem s))))) s) else None)"

definition sdsclear :: "sds \<Rightarrow> sds option" where
  "sdsclear s = with_mem (mem_write 0 [NUL]) (sdssetlen 0 s)"

text \<open>The common part of the two functions that move a string into an object of another size.\<close>

definition sds_move :: "allocator \<Rightarrow> sds_type \<Rightarrow> u64 \<Rightarrow> sds \<Rightarrow> sds option option" where
  "sds_move alloc ty newlen s =
     (case sds_bytes alloc ty newlen of
        None \<Rightarrow> Some None
      | Some mem \<Rightarrow>
          if s_type s = ty
          then Some (Some (sdssetalloc newlen (s\<lparr>s_mem := take (length mem) (s_mem s) @ drop (length (s_mem s)) mem\<rparr>)))
          else Option.bind (mem_read 0 (unat (sdslen s) + 1) (s_mem s)) (\<lambda>bs.
               Option.bind (mem_write 0 bs mem) (\<lambda>mem.
                 Some (Some (sdssetalloc newlen (sdssetlen (sdslen s) \<lparr>s_type = ty, s_len = 0, s_alloc = 0, s_mem = mem\<rparr>))))))"

definition sdsMakeRoomFor :: "allocator \<Rightarrow> u64 \<Rightarrow> sds \<Rightarrow> sds option option" where
  "sdsMakeRoomFor alloc addlen s =
     (if addlen \<le> sdsavail s then Some (Some s)
      else let newlen = sdslen s + addlen;
               newlen = (if newlen < SDS_MAX_PREALLOC then newlen * 2 else newlen + SDS_MAX_PREALLOC);
               ty = sdsReqType newlen;
               ty = (if ty = SDS_TYPE_5 then SDS_TYPE_8 else ty)
           in sds_move alloc ty newlen s)"

definition sdsRemoveFreeSpace :: "allocator \<Rightarrow> sds \<Rightarrow> sds option option" where
  "sdsRemoveFreeSpace alloc s = sds_move alloc (sdsReqType (sdslen s)) (sdslen s) s"

definition sdsAllocSize :: "sds \<Rightarrow> u64" where
  "sdsAllocSize s = sdsHdrSize (s_type s) + sdsalloc s + 1"

text \<open>The assertions hold the new length between zero and the capacity.\<close>

definition sdsIncrLen :: "int \<Rightarrow> sds \<Rightarrow> sds option" where
  "sdsIncrLen incr s =
     (if (if s_type s = SDS_TYPE_5 then incr > 0 \<and> int (unat (sdslen s)) + incr < 32
          else incr \<ge> 0 \<and> incr \<le> int (unat (s_alloc s - s_len s))) \<or>
         incr < 0 \<and> - incr \<le> int (unat (sdslen s))
      then let s = sdsinclen (of_int incr) s in with_mem (mem_write (unat (sdslen s)) [NUL]) s
      else None)"

definition sdsgrowzero :: "allocator \<Rightarrow> u64 \<Rightarrow> sds \<Rightarrow> sds option option" where
  "sdsgrowzero alloc len s =
     (let curlen = sdslen s
      in if len \<le> curlen then Some (Some s)
         else checked (\<lambda>s.
                map_option (\<lambda>s. Some (sdssetlen len s))
                  (with_mem (mem_write (unat curlen) (replicate (unat (len - curlen + 1)) NUL)) s))
              (sdsMakeRoomFor alloc (len - curlen) s))"

text \<open>A string \<open>t\<close> of \<open>len\<close> bytes.\<close>

definition sdscatlen :: "allocator \<Rightarrow> string \<Rightarrow> sds \<Rightarrow> sds option option" where
  "sdscatlen alloc t s =
     (let curlen = sdslen s; len = of_nat (length t)
      in checked (\<lambda>s.
           Option.bind (with_mem (mem_write (unat curlen) t) s) (\<lambda>s.
             map_option Some (with_mem (mem_write (unat (curlen + len)) [NUL]) (sdssetlen (curlen + len) s))))
         (sdsMakeRoomFor alloc len s))"

definition sdscat :: "allocator \<Rightarrow> string \<Rightarrow> sds \<Rightarrow> sds option option" where
  "sdscat alloc t s = sdscatlen alloc t s"

definition sdscatsds :: "allocator \<Rightarrow> sds \<Rightarrow> sds \<Rightarrow> sds option option" where
  "sdscatsds alloc t s = Option.bind (mem_read 0 (unat (sdslen t)) (s_mem t)) (\<lambda>t. sdscatlen alloc t s)"

definition sdscpylen :: "allocator \<Rightarrow> string \<Rightarrow> sds \<Rightarrow> sds option option" where
  "sdscpylen alloc t s =
     (let len = of_nat (length t)
      in checked (\<lambda>s.
           Option.bind (with_mem (mem_write 0 t) s) (\<lambda>s.
             map_option (\<lambda>s. Some (sdssetlen len s)) (with_mem (mem_write (length t) [NUL]) s)))
         (if sdsalloc s < len then sdsMakeRoomFor alloc (len - sdslen s) s else Some (Some s)))"

definition sdscpy :: "allocator \<Rightarrow> string \<Rightarrow> sds \<Rightarrow> sds option option" where
  "sdscpy alloc t s = sdscpylen alloc t s"

section \<open>Edits in place\<close>

text \<open>\<open>strchr(cset, c)\<close> also finds the terminator.\<close>

definition in_cset :: "string \<Rightarrow> char \<Rightarrow> bool" where
  "in_cset cset c \<longleftrightarrow> c \<in> set cset \<or> c = NUL"

primrec trim_left :: "nat \<Rightarrow> string \<Rightarrow> string \<Rightarrow> nat \<Rightarrow> nat" where
  "trim_left 0 cset mem sp = sp"
| "trim_left (Suc n) cset mem sp = (if in_cset cset (mem ! sp) then trim_left n cset mem (Suc sp) else sp)"

fun trim_right :: "string \<Rightarrow> string \<Rightarrow> nat \<Rightarrow> nat \<Rightarrow> nat" where
  "trim_right cset mem sp ep = (if sp < ep \<and> in_cset cset (mem ! ep) then trim_right cset mem sp (ep - 1) else ep)"

declare trim_right.simps [simp del]

text \<open>With \<open>n\<close> bytes the last one is at \<open>n - 1\<close>; the pointer before an empty string is not read.\<close>

definition sdstrim :: "string \<Rightarrow> sds \<Rightarrow> sds option" where
  "sdstrim cset s =
     (let n = unat (sdslen s);
          sp = trim_left n cset (s_mem s) 0;
          len = (if n \<le> sp then 0 else trim_right cset (s_mem s) sp (n - 1) - sp + 1)
      in Option.bind (mem_read sp len (s_mem s)) (\<lambda>bs.
         Option.bind (with_mem (mem_write 0 bs) s) (\<lambda>s.
           map_option (sdssetlen (of_nat len)) (with_mem (mem_write len [NUL]) s))))"

definition SSIZE_MAX :: int where "SSIZE_MAX = 9223372036854775807"

text \<open>Indexes are of type \<open>ssize_t\<close>; the length of the interval may overflow.  The result says whether the
  return value is 0.\<close>

definition range_len :: "int \<Rightarrow> int \<Rightarrow> int option" where
  "range_len start end' = (if start > end' then Some 0 else if end' - start + 1 > SSIZE_MAX then None else Some (end' - start + 1))"

definition sdsrange :: "int \<Rightarrow> int \<Rightarrow> sds \<Rightarrow> (bool \<times> sds) option" where
  "sdsrange start end' s =
     (let len = int (unat (sdslen s))
      in if len > SSIZE_MAX then Some (False, s)
         else if len = 0 then Some (True, s)
         else let start = (if start < 0 then max 0 (len + start) else start);
                  end' = (if end' < 0 then max 0 (len + end') else end')
              in Option.bind (range_len start end') (\<lambda>newlen.
                 Option.bind
                   (if newlen \<noteq> 0
                    then if start \<ge> len then Some (start, 0)
                         else if end' \<ge> len then map_option (Pair start) (range_len start (len - 1))
                         else Some (start, newlen)
                    else Some (0, newlen)) (\<lambda>(start, newlen).
                 Option.bind (if start \<noteq> 0 \<and> newlen \<noteq> 0
                    then Option.bind (mem_read (nat start) (nat newlen) (s_mem s)) (\<lambda>bs. with_mem (mem_write 0 bs) s)
                    else Some s) (\<lambda>s.
                   map_option (\<lambda>s. (True, sdssetlen (of_int newlen) s)) (with_mem (mem_write (nat newlen) [NUL]) s)))))"

definition toupper :: "char \<Rightarrow> char" where
  "toupper c = (if 97 \<le> char_code c \<and> char_code c \<le> 122 then char_of (char_code c - 32) else c)"

text \<open>A loop over the bytes of the string; the length goes through \<open>int\<close>, and none is changed when it is negative.\<close>

definition sds_map :: "(char \<Rightarrow> char) \<Rightarrow> sds \<Rightarrow> sds option" where
  "sds_map f s =
     (let len = nat (sint (ucast (sdslen s) :: 32 word))
      in Option.bind (mem_read 0 len (s_mem s)) (\<lambda>bs. with_mem (mem_write 0 (map f bs)) s))"

definition sdstolower :: "sds \<Rightarrow> sds option" where "sdstolower s = sds_map tolower s"

definition sdstoupper :: "sds \<Rightarrow> sds option" where "sdstoupper s = sds_map toupper s"

fun map_char :: "string \<Rightarrow> string \<Rightarrow> char \<Rightarrow> char" where
  "map_char (f # from) (t # to) c = (if c = f then t else map_char from to c)"
| "map_char from to c = c"

definition sdsmapchars :: "string \<Rightarrow> string \<Rightarrow> sds \<Rightarrow> sds option" where
  "sdsmapchars from to s =
     Option.bind (mem_read 0 (unat (sdslen s)) (s_mem s)) (\<lambda>bs. with_mem (mem_write 0 (map (map_char from to) bs)) s)"

end
