(* ===== verification/Redis_Sds_Text.thy ===== *)
theory Redis_Sds_Text
  imports Redis_Sds
begin

text \<open>
  The functions of \<open>sds.c\<close> that build on the string operations: numbers, formatting, quoting, splitting and
  joining.

  What \<open>vsnprintf\<close> writes is an argument: the complete text for the format and its arguments.  Arguments of a
  variable list are values of \<open>fmt_arg\<close>; taking one at another type is undefined.
\<close>

section \<open>Numbers\<close>

definition SDS_LLSTR_SIZE :: nat where "SDS_LLSTR_SIZE = 21"

function reversed_digits :: "u64 \<Rightarrow> string" where
  "reversed_digits v = digit_char (unat (v mod 10)) # (if v div 10 = 0 then [] else reversed_digits (v div 10))"
  by auto

termination
proof (relation "measure unat")
  fix v :: u64
  assume "v div 10 \<noteq> 0"
  then have "v \<noteq> 0" by auto
  then have "unat v \<noteq> 0" by (simp add: unat_eq_0)
  then show "(v div 10, v) \<in> measure unat" by (simp add: unat_div)
qed simp

declare reversed_digits.simps [simp del]

text \<open>The loop over the indexes of the first and the last character.\<close>

fun reverse_between :: "string \<Rightarrow> nat \<Rightarrow> nat \<Rightarrow> string" where
  "reverse_between buf s p = (if s < p then reverse_between (buf[s := buf ! p, p := buf ! s]) (Suc s) (p - 1) else buf)"

declare reverse_between.simps [simp del]

text \<open>The text goes into a buffer of \<open>SDS_LLSTR_SIZE\<close> bytes, with a terminator.\<close>

definition number_text :: "string \<Rightarrow> string option" where
  "number_text t = (if length t < SDS_LLSTR_SIZE then Some (reverse_between t 0 (length t - 1)) else None)"

definition sdsull2str :: "u64 \<Rightarrow> string option" where
  "sdsull2str v = number_text (reversed_digits v)"

text \<open>\<open>-value\<close> overflows for the least number.\<close>

definition sdsll2str :: "int \<Rightarrow> string option" where
  "sdsll2str value =
     (if value = - (2 ^ 63) then None
      else number_text (reversed_digits (of_int (if value < 0 then - value else value)) @ (if value < 0 then ''-'' else [])))"

definition sdsfromlonglong :: "allocator \<Rightarrow> int \<Rightarrow> sds option option" where
  "sdsfromlonglong alloc value =
     Option.bind (sdsll2str value) (\<lambda>buf. sdsnewlen alloc (Some buf) (of_nat (length buf)))"

section \<open>Formats\<close>

text \<open>
  \<open>sdscatvprintf\<close> for a format of \<open>fmtlen\<close> bytes.  The byte before the last one of the buffer tells whether
  the text did not fit; what is appended ends at the first terminator.
\<close>

function catvprintf_loop :: "allocator \<Rightarrow> nat \<Rightarrow> string \<Rightarrow> sds \<Rightarrow> sds option option" where
  "catvprintf_loop alloc buflen t s =
     (if buflen < 2 then None
      else if buflen - 2 < length t \<and> t ! (buflen - 2) \<noteq> NUL
      then (case alloc (buflen * 2) of None \<Rightarrow> Some None | Some buf \<Rightarrow> catvprintf_loop alloc (buflen * 2) t s)
      else sdscat alloc (takeWhile (\<lambda>c. c \<noteq> NUL) (take (buflen - 1) t)) s)"
  by auto

termination by (relation "measure (\<lambda>(alloc, buflen, t, s). length t + 2 - buflen)") auto

declare catvprintf_loop.simps [simp del]

definition sdscatvprintf :: "allocator \<Rightarrow> nat \<Rightarrow> string \<Rightarrow> sds \<Rightarrow> sds option option" where
  "sdscatvprintf alloc fmtlen t s =
     (if fmtlen * 2 > 1024
      then (case alloc (fmtlen * 2) of None \<Rightarrow> Some None | Some buf \<Rightarrow> catvprintf_loop alloc (fmtlen * 2) t s)
      else catvprintf_loop alloc 1024 t s)"

definition sdscatprintf :: "allocator \<Rightarrow> string \<Rightarrow> string \<Rightarrow> sds \<Rightarrow> sds option option" where
  "sdscatprintf alloc fmt t s = sdscatvprintf alloc (length fmt) t s"

datatype fmt_arg = CString string | SdsString sds | Int32 int | Int64 int | UInt32 u32 | UInt64 u64

text \<open>The bytes for the character behind \<open>%\<close>, and the arguments left; \<open>None\<close> for the other characters.\<close>

fun fmt_bytes :: "char \<Rightarrow> fmt_arg list \<Rightarrow> (string \<times> fmt_arg list) option" where
  "fmt_bytes next (CString t # ap) = (if next = CHR ''s'' then Some (t, ap) else None)"
| "fmt_bytes next (SdsString t # ap) =
     (if next = CHR ''S'' then map_option (\<lambda>t. (t, ap)) (mem_read 0 (unat (sdslen t)) (s_mem t)) else None)"
| "fmt_bytes next (Int32 num # ap) = (if next = CHR ''i'' then map_option (\<lambda>t. (t, ap)) (sdsll2str num) else None)"
| "fmt_bytes next (Int64 num # ap) = (if next = CHR ''I'' then map_option (\<lambda>t. (t, ap)) (sdsll2str num) else None)"
| "fmt_bytes next (UInt32 num # ap) = (if next = CHR ''u'' then map_option (\<lambda>t. (t, ap)) (sdsull2str (ucast num)) else None)"
| "fmt_bytes next (UInt64 num # ap) = (if next = CHR ''U'' then map_option (\<lambda>t. (t, ap)) (sdsull2str num) else None)"
| "fmt_bytes next [] = None"

definition is_conversion :: "char \<Rightarrow> bool" where
  "is_conversion next \<longleftrightarrow> next \<in> set ''sSiIuU''"

text \<open>Bytes at the write position \<open>i\<close>, an \<open>int\<close>.\<close>

definition put_bytes :: "nat \<Rightarrow> string \<Rightarrow> sds \<Rightarrow> sds option" where
  "put_bytes i bs s =
     (if i + length bs < 2 ^ 31 then map_option (sdsinclen (of_nat (length bs))) (with_mem (mem_write i bs) s) else None)"

definition room_if :: "allocator \<Rightarrow> bool \<Rightarrow> u64 \<Rightarrow> sds \<Rightarrow> sds option option" where
  "room_if alloc b n s = (if b then sdsMakeRoomFor alloc n s else Some (Some s))"

text \<open>A format that ends behind \<open>%\<close>: the terminator is taken for the conversion and the scan goes on behind it.\<close>

fun catfmt_loop :: "allocator \<Rightarrow> string \<Rightarrow> fmt_arg list \<Rightarrow> nat \<Rightarrow> sds \<Rightarrow> sds option option" where
  "catfmt_loop alloc [] ap i s = map_option Some (with_mem (mem_write i [NUL]) s)"
| "catfmt_loop alloc [c] ap i s =
     checked (\<lambda>s.
       if c = CHR ''%'' then None
       else Option.bind (put_bytes i [c] s) (\<lambda>s. catfmt_loop alloc [] ap (Suc i) s))
     (room_if alloc (sdsavail s = 0) 1 s)"
| "catfmt_loop alloc (c # next # f) ap i s =
     checked (\<lambda>s.
       if c = CHR ''%'' then
         if is_conversion next then
           Option.bind (fmt_bytes next ap) (\<lambda>(bs, ap).
             checked (\<lambda>s. Option.bind (put_bytes i bs s) (\<lambda>s. catfmt_loop alloc f ap (i + length bs) s))
               (room_if alloc (sdsavail s < of_nat (length bs)) (of_nat (length bs)) s))
         else Option.bind (put_bytes i [next] s) (\<lambda>s. catfmt_loop alloc f ap (Suc i) s)
       else Option.bind (put_bytes i [c] s) (\<lambda>s. catfmt_loop alloc (next # f) ap (Suc i) s))
     (room_if alloc (sdsavail s = 0) 1 s)"

definition sdscatfmt :: "allocator \<Rightarrow> string \<Rightarrow> fmt_arg list \<Rightarrow> sds \<Rightarrow> sds option option" where
  "sdscatfmt alloc fmt ap s = (if unat (sdslen s) < 2 ^ 31 then catfmt_loop alloc fmt ap (unat (sdslen s)) s else None)"

section \<open>Comparison\<close>

text \<open>Of the result of \<open>memcmp\<close> only the sign is promised.\<close>

fun memcmp_sign :: "string \<Rightarrow> string \<Rightarrow> int" where
  "memcmp_sign (x # xs) (y # ys) =
     (if char_code x < char_code y then -1 else if char_code x > char_code y then 1 else memcmp_sign xs ys)"
| "memcmp_sign xs ys = 0"

definition sdscmp :: "sds \<Rightarrow> sds \<Rightarrow> int option" where
  "sdscmp s1 s2 =
     (let l1 = sdslen s1; l2 = sdslen s2; minlen = unat (if l1 < l2 then l1 else l2)
      in Option.bind (mem_read 0 minlen (s_mem s1)) (\<lambda>a.
         map_option (\<lambda>b. let cmp = memcmp_sign a b in if cmp = 0 then sint (ucast (l1 - l2) :: 32 word) else cmp)
           (mem_read 0 minlen (s_mem s2))))"

section \<open>Quoting\<close>

text \<open>\<open>%02x\<close> of a byte.\<close>

definition hex_digit :: "nat \<Rightarrow> char" where
  "hex_digit d = ''0123456789abcdef'' ! d"

definition hex_byte :: "char \<Rightarrow> string" where
  "hex_byte c = [hex_digit (char_code c div 16), hex_digit (char_code c mod 16)]"

abbreviation (input) QUOTE :: char where "QUOTE \<equiv> CHR 0x22"

abbreviation (input) BACKSLASH :: char where "BACKSLASH \<equiv> CHR 0x5C"

definition repr_append :: "allocator \<Rightarrow> char \<Rightarrow> sds \<Rightarrow> sds option option" where
  "repr_append alloc c s =
     (if c = BACKSLASH \<or> c = QUOTE then sdscatprintf alloc [BACKSLASH, CHR ''%'', CHR ''c''] [BACKSLASH, c] s
      else if c = LF then sdscatlen alloc [BACKSLASH, CHR ''n''] s
      else if c = CR then sdscatlen alloc [BACKSLASH, CHR ''r''] s
      else if c = CHR 0x09 then sdscatlen alloc [BACKSLASH, CHR ''t''] s
      else if c = CHR 0x07 then sdscatlen alloc [BACKSLASH, CHR ''a''] s
      else if c = CHR 0x08 then sdscatlen alloc [BACKSLASH, CHR ''b''] s
      else if isprint c then sdscatprintf alloc ''%c'' [c] s
      else sdscatprintf alloc (BACKSLASH # ''x%02x'') (BACKSLASH # CHR ''x'' # hex_byte c) s)"

definition sdscatrepr :: "allocator \<Rightarrow> string \<Rightarrow> sds \<Rightarrow> sds option option" where
  "sdscatrepr alloc p s =
     on_sds (sdscatlen alloc [QUOTE]) (fold (\<lambda>c. on_sds (repr_append alloc c)) p (sdscatlen alloc [QUOTE] s))"

definition isxdigit :: "char \<Rightarrow> bool" where
  "isxdigit c \<longleftrightarrow> isdigit c \<or> (65 \<le> char_code c \<and> char_code c \<le> 70) \<or> (97 \<le> char_code c \<and> char_code c \<le> 102)"

definition hex_digit_to_int :: "char \<Rightarrow> nat" where
  "hex_digit_to_int c =
     (if isdigit c then char_code c - 48
      else if 97 \<le> char_code c \<and> char_code c \<le> 102 then char_code c - 87
      else if 65 \<le> char_code c \<and> char_code c \<le> 70 then char_code c - 55 else 0)"

text \<open>The character \<open>n\<close> places behind the pointer into a C string.\<close>

definition peek :: "string \<Rightarrow> nat \<Rightarrow> char" where
  "peek p n = (if n < length p then p ! n else NUL)"

definition unescape :: "char \<Rightarrow> char" where
  "unescape c =
     (if c = CHR ''n'' then LF else if c = CHR ''r'' then CR else if c = CHR ''t'' then CHR 0x09
      else if c = CHR ''b'' then CHR 0x08 else if c = CHR ''a'' then CHR 0x07 else c)"

datatype quoting = Unquoted | InQuotes | InSingleQuotes

text \<open>
  One turn of the loop over a token: the state of the quotes, the bytes that are appended, the rest of the line
  and \<open>done\<close>.  \<open>None\<close> is the jump to the error exit.
\<close>

fun token_turn :: "quoting \<Rightarrow> string \<Rightarrow> (quoting \<times> string \<times> string \<times> bool) option" where
  "token_turn InQuotes p =
     (if peek p 0 = BACKSLASH \<and> peek p 1 = CHR ''x'' \<and> isxdigit (peek p 2) \<and> isxdigit (peek p 3)
      then Some (InQuotes, [char_of (hex_digit_to_int (peek p 2) * 16 + hex_digit_to_int (peek p 3))], drop 4 p, False)
      else if peek p 0 = BACKSLASH \<and> peek p 1 \<noteq> NUL then Some (InQuotes, [unescape (peek p 1)], drop 2 p, False)
      else if peek p 0 = QUOTE
      then if peek p 1 \<noteq> NUL \<and> \<not> isspace (peek p 1) then None else Some (InQuotes, [], drop 1 p, True)
      else if peek p 0 = NUL then None
      else Some (InQuotes, [peek p 0], drop 1 p, False))"
| "token_turn InSingleQuotes p =
     (if peek p 0 = BACKSLASH \<and> peek p 1 = CHR 0x27 then Some (InSingleQuotes, [CHR 0x27], drop 2 p, False)
      else if peek p 0 = CHR 0x27
      then if peek p 1 \<noteq> NUL \<and> \<not> isspace (peek p 1) then None else Some (InSingleQuotes, [], drop 1 p, True)
      else if peek p 0 = NUL then None
      else Some (InSingleQuotes, [peek p 0], drop 1 p, False))"
| "token_turn Unquoted p =
     (if peek p 0 \<in> {CHR '' '', LF, CR, CHR 0x09, NUL} then Some (Unquoted, [], drop 1 p, True)
      else if peek p 0 = QUOTE then Some (InQuotes, [], drop 1 p, False)
      else if peek p 0 = CHR 0x27 then Some (InSingleQuotes, [], drop 1 p, False)
      else Some (Unquoted, [peek p 0], drop 1 p, False))"

declare token_turn.simps [simp del]

lemma token_turn_shorter: "token_turn q p = Some (q', bs, p', False) \<Longrightarrow> length p' < length p"
  by (cases p; cases q) (auto simp: token_turn.simps peek_def split: if_splits)

text \<open>The rest of the line and the token, or \<open>Inl\<close> with the token so far at the error exit.\<close>

function split_token :: "allocator \<Rightarrow> quoting \<Rightarrow> string \<Rightarrow> sds option \<Rightarrow> (sds option + string \<times> sds option) option" where
  "split_token alloc q p current =
     (case token_turn q p of
        None \<Rightarrow> Some (Inl current)
      | Some (q', bs, p', done') \<Rightarrow>
          Option.bind (if bs = [] then Some current else on_sds (sdscatlen alloc bs) (Some current)) (\<lambda>current.
            if done' then Some (Inr (p', current)) else split_token alloc q' p' current))"
  by auto

termination
  by (relation "measure (\<lambda>(alloc, q, p, current). length p)") (auto dest: token_turn_shorter)

declare split_token.simps [simp del]

lemma token_turn_drops: "token_turn q p = Some (q', bs, p', d) \<Longrightarrow> length p' \<le> length p - 1"
  by (cases q) (auto simp: token_turn.simps split: if_splits)

lemma split_token_shorter: "split_token alloc q p current = Some (Inr (p', current')) \<Longrightarrow> length p' \<le> length p - 1"
proof (induction alloc q p current arbitrary: p' current' rule: split_token.induct)
  case (1 alloc q p current)
  obtain q1 bs p1 d where t: "token_turn q p = Some (q1, bs, p1, d)"
    using "1.prems" by (subst (asm) split_token.simps) (auto split: option.splits)
  obtain c1 where c1: "(if bs = [] then Some current else on_sds (sdscatlen alloc bs) (Some current)) = Some c1"
    using "1.prems" t by (subst (asm) split_token.simps) (auto simp: bind_eq_Some_conv split: if_splits)
  have l: "length p1 \<le> length p - 1" by (rule token_turn_drops [OF t])
  show ?case
  proof (cases d)
    case True
    then show ?thesis using "1.prems" l by (subst (asm) split_token.simps) (simp add: t c1)
  next
    case False
    then have "split_token alloc q1 p1 c1 = Some (Inr (p', current'))"
      using "1.prems" by (subst (asm) split_token.simps) (simp add: t c1)
    then show ?thesis using "1.IH" [OF t refl refl refl c1 False] l by fastforce
  qed
qed

definition skip_blanks :: "string \<Rightarrow> string" where
  "skip_blanks p = dropWhile isspace p"

text \<open>
  The array of tokens, or the null pointer, and what is stored in \<open>*argc\<close>.  A token is the null pointer when
  \<open>sdsempty\<close> has returned it and nothing was appended.
\<close>

function split_args :: "allocator \<Rightarrow> string \<Rightarrow> sds option list \<Rightarrow> (sds option list option \<times> nat) option" where
  "split_args alloc line vector =
     (let p = skip_blanks line
      in if peek p 0 = NUL
         then if vector = [] \<and> alloc 8 = None then Some (None, 0) else Some (Some vector, length vector)
         else Option.bind (sdsempty alloc) (\<lambda>current.
              Option.bind (split_token alloc Unquoted p current) (\<lambda>r.
                case r of
                  Inl current \<Rightarrow> Some (None, 0)
                | Inr (p', current) \<Rightarrow>
                    (case alloc (8 * (length vector + 1)) of
                       None \<Rightarrow> Some (None, length vector)
                     | Some new_vector \<Rightarrow> split_args alloc p' (vector @ [current])))))"
  by auto

termination
proof (relation "measure (\<lambda>(alloc, line, vector). length line)", goal_cases)
  case (2 alloc line vector p current r pc p' current' v)
  then have "p \<noteq> []" by (auto simp: peek_def)
  moreover have "length p' \<le> length p - 1" using 2 by (auto dest: split_token_shorter)
  moreover have "length p \<le> length line" using 2 by (simp add: skip_blanks_def length_dropWhile_le)
  ultimately show ?case by (cases p) auto
qed simp

declare split_args.simps [simp del]

definition sdssplitargs :: "allocator \<Rightarrow> string \<Rightarrow> (sds option list option \<times> nat) option" where
  "sdssplitargs alloc line = split_args alloc line []"

section \<open>Splitting and joining\<close>

text \<open>
  The array of tokens has \<open>slots\<close> places, an \<open>int\<close>.  The loop gives the tokens and the start of the last one,
  or the null pointer when an allocation fails.
\<close>

definition grow_slots :: "allocator \<Rightarrow> nat \<Rightarrow> nat \<Rightarrow> nat option option" where
  "grow_slots alloc elements slots =
     (if slots < elements + 2
      then if slots * 2 < 2 ^ 31 then Some (map_option (\<lambda>newtokens. slots * 2) (alloc (8 * (slots * 2)))) else None
      else Some (Some slots))"

definition separator_at :: "string \<Rightarrow> string \<Rightarrow> nat \<Rightarrow> bool" where
  "separator_at s sep j \<longleftrightarrow> length sep = 1 \<and> s ! j = sep ! 0 \<or> take (length sep) (drop j s) = sep"

function split_loop :: "allocator \<Rightarrow> string \<Rightarrow> string \<Rightarrow> nat \<Rightarrow> nat \<Rightarrow> sds list \<Rightarrow> nat \<Rightarrow> (sds list \<times> nat) option option" where
  "split_loop alloc s sep j start tokens slots =
     (if j < length s - (length sep - 1)
      then Option.bind (grow_slots alloc (length tokens) slots) (\<lambda>r.
             case r of
               None \<Rightarrow> Some None
             | Some slots \<Rightarrow>
                 if separator_at s sep j
                 then Option.bind (sdsnewlen alloc (Some (drop start s)) (of_nat (j - start))) (\<lambda>t.
                        case t of
                          None \<Rightarrow> Some None
                        | Some t \<Rightarrow> split_loop alloc s sep (j + (length sep - 1) + 1) (j + length sep) (tokens @ [t]) slots)
                 else split_loop alloc s sep (j + 1) start tokens slots)
      else Some (Some (tokens, start)))"
  by auto

termination
  by (relation "measure (\<lambda>(alloc, s, sep, j, start, tokens, slots). length s - j)") auto

declare split_loop.simps [simp del]

text \<open>The array, or the null pointer, and what is stored in \<open>*count\<close>, if anything is.\<close>

definition sdssplitlen :: "allocator \<Rightarrow> string \<Rightarrow> string \<Rightarrow> (sds list option \<times> nat option) option" where
  "sdssplitlen alloc s sep =
     (if length sep < 1 then Some (None, None)
      else case alloc (8 * 5) of
             None \<Rightarrow> Some (None, None)
           | Some tokens \<Rightarrow>
               if length s = 0 then Some (Some [], Some 0)
               else Option.bind (split_loop alloc s sep 0 0 [] 5) (\<lambda>r.
                    case r of
                      None \<Rightarrow> Some (None, Some 0)
                    | Some (tokens, start) \<Rightarrow>
                        map_option (\<lambda>t. case t of
                            None \<Rightarrow> (None, Some 0)
                          | Some t \<Rightarrow> (Some (tokens @ [t]), Some (length tokens + 1)))
                          (sdsnewlen alloc (Some (drop start s)) (of_nat (length s - start)))))"

fun join_loop :: "(string \<Rightarrow> sds option option \<Rightarrow> sds option option) \<Rightarrow> ('a \<Rightarrow> sds option option \<Rightarrow> sds option option) \<Rightarrow>
    string \<Rightarrow> 'a list \<Rightarrow> sds option option \<Rightarrow> sds option option" where
  "join_loop cat_sep cat_arg sep [] join = join"
| "join_loop cat_sep cat_arg sep (x # argv) join =
     join_loop cat_sep cat_arg sep argv (if argv \<noteq> [] then cat_sep sep (cat_arg x join) else cat_arg x join)"

definition sdsjoin :: "allocator \<Rightarrow> string list \<Rightarrow> string \<Rightarrow> sds option option" where
  "sdsjoin alloc argv sep =
     join_loop (\<lambda>t. on_sds (sdscat alloc t)) (\<lambda>t. on_sds (sdscat alloc t)) sep argv (sdsempty alloc)"

definition sdsjoinsds :: "allocator \<Rightarrow> sds list \<Rightarrow> string \<Rightarrow> sds option option" where
  "sdsjoinsds alloc argv sep =
     join_loop (\<lambda>t. on_sds (sdscatlen alloc t)) (\<lambda>t. on_sds (sdscatsds alloc t)) sep argv (sdsempty alloc)"

end
