(* ===== verification/Redis_Sds_Props.thy ===== *)
theory Redis_Sds_Props
  imports Redis_Sds
begin

text \<open>
  The strings of hiredis refine lists of bytes: no operation leaves its object, and the content is what the
  operation on lists gives, for every history and every allocator.
\<close>

section \<open>Well-formed strings\<close>

definition fits :: "sds_type \<Rightarrow> u64 \<Rightarrow> bool" where
  "fits ty n \<longleftrightarrow> unat n < 2 ^ type_bits ty"

definition sds_open :: "sds \<Rightarrow> bool" where
  "sds_open s \<longleftrightarrow> fits (s_type s) (s_len s) \<and> fits (s_type s) (s_alloc s) \<and> unat (s_len s) \<le> unat (sdsalloc s) \<and>
     unat (sdsalloc s) < length (s_mem s)"

text \<open>With the terminator, which formatting writes only at its end.\<close>

definition sds_ok :: "sds \<Rightarrow> bool" where
  "sds_ok s \<longleftrightarrow> sds_open s \<and> s_mem s ! unat (s_len s) = NUL"

definition content :: "sds \<Rightarrow> string" where
  "content s = take (unat (s_len s)) (s_mem s)"

definition allocator_ok :: "allocator \<Rightarrow> bool" where
  "allocator_ok alloc \<longleftrightarrow> (\<forall>n m. alloc n = Some m \<longrightarrow> length m = n)"

definition never_fails :: "allocator \<Rightarrow> bool" where
  "never_fails alloc \<longleftrightarrow> (\<forall>n. alloc n \<noteq> None)"

text \<open>A result with the given content, or the null pointer when an allocation has failed.\<close>

definition returns :: "allocator \<Rightarrow> string \<Rightarrow> sds option option \<Rightarrow> bool" where
  "returns alloc t r \<longleftrightarrow> (r = Some None \<and> \<not> never_fails alloc) \<or> (\<exists>s. r = Some (Some s) \<and> sds_ok s \<and> content s = t)"

lemma take_bit_fits: "fits ty n \<Longrightarrow> take_bit (type_bits ty) n = n"
proof -
  assume "fits ty n"
  then have "unat (take_bit (type_bits ty) n) = unat n"
    by (cases ty) (simp_all add: fits_def unsigned_take_bit_eq take_bit_nat_eq_self)
  then show ?thesis by (simp add: word_unat_eq_iff)
qed

lemma fits_le: "fits ty n \<Longrightarrow> unat m \<le> unat n \<Longrightarrow> fits ty m"
  by (simp add: fits_def)

lemma sdsReqType_fits: "fits (sdsReqType n) n"
  unfolding sdsReqType_def fits_def using unsigned_less [of n, where 'a = nat] by (auto simp: word_less_nat_alt)

lemma sdsReqType_8: "sdsReqType n = SDS_TYPE_5 \<Longrightarrow> fits SDS_TYPE_8 n"
  unfolding sdsReqType_def fits_def by (auto simp: word_less_nat_alt split: if_splits)

lemma length_content: "sds_open s \<Longrightarrow> length (content s) = unat (s_len s)"
  by (simp add: sds_open_def content_def)

lemma sds_ok_open: "sds_ok s \<Longrightarrow> sds_open s"
  by (simp add: sds_ok_def)

lemma sds_bytes_length:
  assumes "allocator_ok alloc" "unat n < 2 ^ 63" "sds_bytes alloc ty n = Some m"
  shows "length m = unat n + 1"
proof -
  obtain m' where m': "alloc (unat (sdsHdrSize ty + n + 1)) = Some m'" "m = drop (unat (sdsHdrSize ty)) m'"
    using assms(3) by (auto simp: sds_bytes_def)
  have h: "unat (sdsHdrSize ty) \<le> 17" by (cases ty) simp_all
  have "unat (sdsHdrSize ty + n + 1) = unat (sdsHdrSize ty) + unat n + 1"
    using h assms(2) by (simp add: unat_word_ariths)
  then show ?thesis using m' assms(1) by (auto simp: allocator_ok_def)
qed

lemma sds_bytes_fail: "sds_bytes alloc ty n = None \<Longrightarrow> \<not> never_fails alloc"
  by (auto simp: sds_bytes_def never_fails_def)

lemma sdsalloc_setalloc:
  "fits (s_type s) n \<Longrightarrow> s_type s \<noteq> SDS_TYPE_5 \<or> s_len s = n \<Longrightarrow> sdsalloc (sdssetalloc n s) = n"
  by (auto simp: sdsalloc_def sdssetalloc_def take_bit_fits)

lemma sds_avail: "sds_open s \<Longrightarrow> unat (sdsavail s) = (if s_type s = SDS_TYPE_5 then 0 else unat (sdsalloc s) - unat (s_len s))"
  by (auto simp: sds_open_def sdsavail_def sdsalloc_def unat_sub word_le_nat_alt)

lemma sds_alloc_avail: "sds_open s \<Longrightarrow> unat (s_len s) + unat (sdsavail s) = unat (sdsalloc s)"
  by (auto simp: sds_avail) (auto simp: sds_open_def sdsalloc_def)

text \<open>Moving a string into an object of another size.\<close>

lemma sds_move_open:
  assumes "allocator_ok alloc" "sds_open s" "fits ty n" "unat (s_len s) \<le> unat n" "unat n < 2 ^ 63"
    "ty \<noteq> SDS_TYPE_5 \<or> n = s_len s"
  shows "sds_move alloc ty n s = Some None \<and> \<not> never_fails alloc \<or>
    (\<exists>s'. sds_move alloc ty n s = Some (Some s') \<and> sds_open s' \<and> content s' = content s \<and> s_len s' = s_len s \<and>
       s_mem s' ! unat (s_len s) = s_mem s ! unat (s_len s) \<and> sdsalloc s' = n)"
proof (cases "sds_bytes alloc ty n")
  case None
  then show ?thesis using sds_bytes_fail by (simp add: sds_move_def)
next
  case (Some mem)
  have l: "length mem = unat n + 1" by (rule sds_bytes_length [OF assms(1,5) Some])
  have s: "unat (s_len s) < length (s_mem s)" using assms(2) by (auto simp: sds_open_def)
  show ?thesis
  proof (cases "s_type s = ty")
    case True
    define s' where "s' = sdssetalloc n (s\<lparr>s_mem := take (length mem) (s_mem s) @ drop (length (s_mem s)) mem\<rparr>)"
    have f: "s_len s' = s_len s" "s_type s' = ty" "s_mem s' = take (length mem) (s_mem s) @ drop (length (s_mem s)) mem"
      using True by (auto simp: s'_def sdssetalloc_def)
    have a: "sdsalloc s' = n" unfolding s'_def by (rule sdsalloc_setalloc) (use True assms(3,6) in auto)
    have nul: "s_mem s' ! unat (s_len s) = s_mem s ! unat (s_len s)" and "take (unat (s_len s)) (s_mem s') = take (unat (s_len s)) (s_mem s)"
      using s l assms(4) by (auto simp: f nth_append min_def)
    moreover have "length (s_mem s') = length mem" by (auto simp: f)
    moreover have "fits ty (s_alloc s')"
      using assms(2,3) True by (auto simp: s'_def sdssetalloc_def take_bit_fits sds_open_def)
    ultimately have "sds_open s'" "content s' = content s"
      using a l assms(3,4) by (auto simp: sds_open_def content_def f intro: fits_le)
    moreover have "sds_move alloc ty n s = Some (Some s')" using Some True by (simp add: sds_move_def s'_def)
    ultimately show ?thesis using a f(1) nul by blast
  next
    case False
    define bs where "bs = take (Suc (unat (s_len s))) (s_mem s)"
    define mem' where "mem' = bs @ drop (Suc (unat (s_len s))) mem"
    define s' where "s' = sdssetalloc n (sdssetlen (sdslen s) \<lparr>s_type = ty, s_len = 0, s_alloc = 0, s_mem = mem'\<rparr>)"
    have fl: "fits ty (s_len s)" using assms(3,4) by (rule fits_le)
    have f: "s_len s' = s_len s" "s_type s' = ty" "s_mem s' = mem'"
      using fl by (auto simp: s'_def sdssetalloc_def sdssetlen_def sdslen_def take_bit_fits)
    have a: "sdsalloc s' = n"
      unfolding s'_def by (rule sdsalloc_setalloc) (use assms(3,6) fl in \<open>auto simp: sdssetlen_def sdslen_def take_bit_fits\<close>)
    have b: "length bs = unat (s_len s) + 1" using s(1) by (simp add: bs_def)
    have nul: "mem' ! unat (s_len s) = s_mem s ! unat (s_len s)" and "take (unat (s_len s)) mem' = take (unat (s_len s)) (s_mem s)" "length mem' = length mem"
      using s b l assms(4) by (auto simp: mem'_def nth_append) (auto simp: bs_def min_def)
    moreover have "fits ty (s_alloc s')"
      using assms(3) by (auto simp: s'_def sdssetalloc_def sdssetlen_def take_bit_fits fits_def)
    ultimately have "sds_open s'" "content s' = content s"
      using a l fl assms(4) by (auto simp: sds_open_def content_def f)
    moreover have "sds_move alloc ty n s = Some (Some s')"
      using Some False s(1) l b assms(4)
      by (simp add: sds_move_def mem_read_def mem_write_def sdslen_def bs_def [symmetric] s'_def mem'_def)
    ultimately show ?thesis using a f(1) nul unfolding f(3) [symmetric] by blast
  qed
qed

lemma make_room_open:
  assumes "allocator_ok alloc" "sds_open s" "unat (s_len s) < 2 ^ 32" "unat n < 2 ^ 62"
  shows "sdsMakeRoomFor alloc n s = Some None \<and> \<not> never_fails alloc \<or>
    (\<exists>s'. sdsMakeRoomFor alloc n s = Some (Some s') \<and> sds_open s' \<and> content s' = content s \<and> s_len s' = s_len s \<and>
       s_mem s' ! unat (s_len s) = s_mem s ! unat (s_len s) \<and>
       unat (s_len s) + unat n \<le> unat (sdsalloc s'))"
proof (cases "n \<le> sdsavail s")
  case True
  then have "unat n \<le> unat (sdsavail s)" by (simp add: word_le_nat_alt)
  then have "unat (s_len s) + unat n \<le> unat (sdsalloc s)" using sds_alloc_avail [OF assms(2)] by linarith
  then show ?thesis using True assms(2) by (auto simp: sdsMakeRoomFor_def)
next
  case False
  define l where "l = s_len s + n"
  define m where "m = (if l < SDS_MAX_PREALLOC then l * 2 else l + SDS_MAX_PREALLOC)"
  define ty where "ty = (if sdsReqType m = SDS_TYPE_5 then SDS_TYPE_8 else sdsReqType m)"
  have ul: "unat l = unat (s_len s) + unat n" using assms(3,4) by (simp add: l_def unat_word_ariths)
  have um: "unat l \<le> unat m" "unat m < 2 ^ 63"
    using ul assms(3,4) by (auto simp: m_def SDS_MAX_PREALLOC_def word_less_nat_alt unat_word_ariths)
  have "sdsMakeRoomFor alloc n s = sds_move alloc ty m s"
    using False by (simp add: sdsMakeRoomFor_def Let_def l_def m_def ty_def sdslen_def)
  moreover have "sds_move alloc ty m s = Some None \<and> \<not> never_fails alloc \<or>
      (\<exists>s'. sds_move alloc ty m s = Some (Some s') \<and> sds_open s' \<and> content s' = content s \<and> s_len s' = s_len s \<and>
       s_mem s' ! unat (s_len s) = s_mem s ! unat (s_len s) \<and> sdsalloc s' = m)"
    by (rule sds_move_open [OF assms(1,2)])
      (use um ul in \<open>auto simp: ty_def sdsReqType_fits dest: sdsReqType_8\<close>)
  ultimately show ?thesis using um(1) ul by fastforce
qed

lemma sds_move_ok:
  assumes "allocator_ok alloc" "sds_ok s" "fits ty n" "unat (s_len s) \<le> unat n" "unat n < 2 ^ 63"
    "ty \<noteq> SDS_TYPE_5 \<or> n = s_len s"
  shows "sds_move alloc ty n s = Some None \<and> \<not> never_fails alloc \<or>
    (\<exists>s'. sds_move alloc ty n s = Some (Some s') \<and> sds_ok s' \<and> content s' = content s \<and> s_len s' = s_len s \<and> sdsalloc s' = n)"
  using sds_move_open [OF assms(1) _ assms(3-6)] assms(2) unfolding sds_ok_def by metis

lemma make_room_ok:
  assumes "allocator_ok alloc" "sds_ok s" "unat (s_len s) < 2 ^ 32" "unat n < 2 ^ 62"
  shows "sdsMakeRoomFor alloc n s = Some None \<and> \<not> never_fails alloc \<or>
    (\<exists>s'. sdsMakeRoomFor alloc n s = Some (Some s') \<and> sds_ok s' \<and> content s' = content s \<and> s_len s' = s_len s \<and>
       unat (s_len s) + unat n \<le> unat (sdsalloc s'))"
  using make_room_open [OF assms(1) _ assms(3,4)] assms(2) unfolding sds_ok_def by metis

section \<open>Edits that stay in the object\<close>

lemma set_content:
  assumes "sds_ok s" "length mem = length (s_mem s)" "take (Suc (length bs)) mem = bs @ [NUL]" "length bs \<le> unat (sdsalloc s)"
  shows "sds_ok (sdssetlen (of_nat (length bs)) (s\<lparr>s_mem := mem\<rparr>))" (is "sds_ok ?s")
    and "content (sdssetlen (of_nat (length bs)) (s\<lparr>s_mem := mem\<rparr>)) = bs"
proof -
  have b: "unat (of_nat (length bs) :: u64) = length bs"
    using le_unat_uoi [OF assms(4)] .
  have "fits (s_type s) (of_nat (length bs))"
    using assms(1,4) b by (auto simp: fits_def sds_ok_def sds_open_def sdsalloc_def split: if_splits)
  then have l: "s_len ?s = of_nat (length bs)" by (simp add: sdssetlen_def take_bit_fits)
  have f: "s_type ?s = s_type s" "s_alloc ?s = s_alloc s" "s_mem ?s = mem" by (simp_all add: sdssetlen_def)
  have m: "length bs < length mem" using assms(3) by (cases "length bs < length mem") (auto dest: arg_cong [where f = length])
  have n: "mem ! length bs = NUL" "take (length bs) mem = bs"
    using m assms(3) by (auto simp: take_Suc_conv_app_nth)
  show "content ?s = bs" by (simp add: content_def l f b n)
  show "sds_ok ?s"
    using assms(1,2,4) m n \<open>fits (s_type s) (of_nat (length bs))\<close>
    by (auto simp: sds_ok_def sds_open_def l f b sdsalloc_def split: if_splits)
qed

lemma with_write:
  "i + length bs \<le> length (s_mem s) \<Longrightarrow>
    with_mem (mem_write i bs) s = Some (s\<lparr>s_mem := take i (s_mem s) @ bs @ drop (i + length bs) (s_mem s)\<rparr>)"
  by (simp add: with_mem_def mem_write_def)

lemma with_mem_setlen: "with_mem f (sdssetlen n s) = map_option (sdssetlen n) (with_mem f s)"
  by (cases s) (auto simp: with_mem_def sdssetlen_def option.map_comp comp_def)

lemma write_then_setlen:
  "Option.bind r (\<lambda>s. map_option Some (with_mem (f s) (sdssetlen n s))) =
    map_option Some (Option.bind r (\<lambda>s. map_option (sdssetlen n) (with_mem (f s) s)))"
  by (cases r) (simp_all add: with_mem_setlen)

lemma sds_len_mem: "sds_ok s \<Longrightarrow> unat (s_len s) < length (s_mem s)"
  by (auto simp: sds_ok_def sds_open_def)

lemma sds_alloc_mem: "sds_ok s \<Longrightarrow> unat (sdsalloc s) < length (s_mem s)"
  by (auto simp: sds_ok_def sds_open_def)

lemma sds_len_alloc: "sds_ok s \<Longrightarrow> unat (s_len s) \<le> unat (sdsalloc s)"
  by (auto simp: sds_ok_def sds_open_def)

text \<open>The pattern of every operation: bytes written at the front, then the terminator and the length.\<close>

lemma write_prefix:
  assumes "sds_ok s" "length bs \<le> unat (sdsalloc s)" "k \<le> length bs" "take k (s_mem s) = take k bs"
  shows "\<exists>s'. Option.bind (with_mem (mem_write k (drop k bs)) s) (\<lambda>s. map_option (sdssetlen (of_nat (length bs)))
      (with_mem (mem_write (length bs) [NUL]) s)) = Some s' \<and> sds_ok s' \<and> content s' = bs"
proof -
  have m: "length bs < length (s_mem s)" using assms(2) sds_alloc_mem [OF assms(1)] by simp
  define m1 where "m1 = take k (s_mem s) @ drop k bs @ drop (length bs) (s_mem s)"
  have m1: "m1 = bs @ drop (length bs) (s_mem s)"
    using append_take_drop_id [of k bs] by (simp add: m1_def assms(4) append_assoc [symmetric] del: append_take_drop_id)
  define m2 where "m2 = bs @ NUL # drop (Suc (length bs)) (s_mem s)"
  have "with_mem (mem_write k (drop k bs)) s = Some (s\<lparr>s_mem := m1\<rparr>)"
    using m assms(3) by (simp add: with_write m1_def)
  moreover have "with_mem (mem_write (length bs) [NUL]) (s\<lparr>s_mem := m1\<rparr>) = Some (s\<lparr>s_mem := m2\<rparr>)"
    using m by (simp add: with_write m1 m2_def)
  moreover have "length m2 = length (s_mem s)" "take (Suc (length bs)) m2 = bs @ [NUL]"
    using m by (simp_all add: m2_def)
  ultimately show ?thesis using set_content [OF assms(1) _ _ assms(2), of m2] by auto
qed

lemma write_content:
  assumes "sds_ok s" "length bs \<le> unat (sdsalloc s)"
  shows "\<exists>s'. Option.bind (with_mem (mem_write 0 bs) s) (\<lambda>s. map_option (sdssetlen (of_nat (length bs)))
      (with_mem (mem_write (length bs) [NUL]) s)) = Some s' \<and> sds_ok s' \<and> content s' = bs"
  using write_prefix [OF assms, of 0] by simp

lemma returnsI: "\<exists>s. r = Some (Some s) \<and> sds_ok s \<and> content s = t \<Longrightarrow> returns alloc t r"
  by (simp add: returns_def)

lemma returns_checked:
  assumes "returns alloc t r" "\<And>s. sds_ok s \<Longrightarrow> content s = t \<Longrightarrow> returns alloc t' (f s)"
  shows "returns alloc t' (checked f r)"
proof (cases "r = Some None")
  case True
  then show ?thesis using assms(1) by (auto simp: returns_def checked_def)
next
  case False
  then obtain s where s: "r = Some (Some s)" "sds_ok s" "content s = t" using assms(1) by (auto simp: returns_def)
  then have "checked f r = f s" by (simp add: checked_def)
  then show ?thesis using assms(2) [OF s(2,3)] by simp
qed

section \<open>The operations\<close>

lemma sdsnewlen_ok:
  assumes "allocator_ok alloc" "length t < 2 ^ 62"
  shows "returns alloc t (sdsnewlen alloc (Some t) (of_nat (length t)))"
proof -
  define n :: u64 where "n = of_nat (length t)"
  have n: "unat n = length t" using assms(2) by (simp add: n_def unat_of_nat_small)
  define ty where "ty = (if sdsReqType n = SDS_TYPE_5 \<and> n = 0 then SDS_TYPE_8 else sdsReqType n)"
  have f: "fits ty n" using sdsReqType_fits [of n] by (auto simp: ty_def fits_def)
  show ?thesis
  proof (cases "sds_bytes alloc ty n")
    case None
    then show ?thesis
      using sds_bytes_fail [OF None] by (simp add: returns_def sdsnewlen_def Let_def n_def [symmetric] ty_def [symmetric])
  next
    case (Some mem)
    have l: "length mem = Suc (length t)" using sds_bytes_length [OF assms(1) _ Some] n assms(2) by simp
    define s where "s = \<lparr>s_type = ty, s_len = n, s_alloc = n, s_mem = t @ [NUL]\<rparr>"
    have "sdsnewlen alloc (Some t) n = Some (Some s)"
      using Some l f n
      by (simp add: sdsnewlen_def Let_def ty_def [symmetric] mem_read_def mem_write_def take_bit_fits s_def)
    moreover have "sds_ok s" "content s = t"
      using f n by (auto simp: sds_ok_def sds_open_def s_def content_def sdsalloc_def)
    ultimately show ?thesis by (simp add: returns_def n_def)
  qed
qed

lemma sdsempty_ok: "allocator_ok alloc \<Longrightarrow> returns alloc [] (sdsempty alloc)"
  using sdsnewlen_ok [of alloc "[]"] by (simp add: sdsempty_def)

lemma sdsdup_ok:
  assumes "allocator_ok alloc" "sds_ok s" "length (content s) < 2 ^ 62"
  shows "returns alloc (content s) (sdsdup alloc s)"
proof -
  have r: "mem_read 0 (unat (s_len s)) (s_mem s) = mem_read 0 (unat (s_len s)) (content s)"
    using sds_len_mem [OF assms(2)] by (simp add: mem_read_def content_def min_def)
  have e: "of_nat (length (content s)) = s_len s" by (simp add: length_content [OF sds_ok_open [OF assms(2)]])
  have "sdsdup alloc s = sdsnewlen alloc (Some (content s)) (of_nat (length (content s)))"
    by (simp only: sdsdup_def sdsnewlen_def Let_def sdslen_def option.case e r)
  then show ?thesis using sdsnewlen_ok [OF assms(1,3)] by simp
qed

lemma make_room_returns:
  assumes "allocator_ok alloc" "sds_ok s" "length (content s) < 2 ^ 32" "unat n < 2 ^ 62"
  shows "returns alloc (content s) (sdsMakeRoomFor alloc n s)"
  using make_room_ok [OF assms(1,2) _ assms(4)] assms(3) length_content [OF sds_ok_open [OF assms(2)]] by (auto simp: returns_def)

lemma removeFreeSpace_ok:
  assumes "allocator_ok alloc" "sds_ok s" "length (content s) < 2 ^ 62"
  shows "returns alloc (content s) (sdsRemoveFreeSpace alloc s)"
  using sds_move_ok [OF assms(1,2) sdsReqType_fits, of "s_len s"] assms(3) length_content [OF sds_ok_open [OF assms(2)]]
  by (auto simp: returns_def sdsRemoveFreeSpace_def sdslen_def)

lemma after_room:
  assumes "allocator_ok alloc" "sds_ok s" "length (content s) < 2 ^ 32" "unat n < 2 ^ 62"
    "\<And>s'. sds_ok s' \<Longrightarrow> content s' = content s \<Longrightarrow> s_len s' = s_len s \<Longrightarrow>
       unat (s_len s) + unat n \<le> unat (sdsalloc s') \<Longrightarrow> sdsMakeRoomFor alloc n s = Some (Some s') \<Longrightarrow>
       returns alloc t (f s')"
  shows "returns alloc t (checked f (sdsMakeRoomFor alloc n s))"
proof -
  have "unat (s_len s) < 2 ^ 32" using assms(3) by (simp add: length_content [OF sds_ok_open [OF assms(2)]])
  from make_room_ok [OF assms(1,2) this assms(4)] show ?thesis
  proof (elim disjE exE conjE)
    fix s'
    assume s': "sdsMakeRoomFor alloc n s = Some (Some s')" "sds_ok s'" "content s' = content s" "s_len s' = s_len s"
      "unat (s_len s) + unat n \<le> unat (sdsalloc s')"
    then show ?thesis using assms(5) [OF s'(2-5,1)] by (simp add: checked_def)
  qed (simp add: checked_def returns_def)
qed

text \<open>Room is made, then the bytes from \<open>k\<close> on are written.\<close>

lemma catlen_ok:
  assumes "allocator_ok alloc" "sds_ok s" "length (content s) < 2 ^ 32" "length t < 2 ^ 62"
  shows "returns alloc (content s @ t) (sdscatlen alloc t s)"
proof -
  have l: "unat (s_len s) = length (content s)" by (rule length_content [OF sds_ok_open [OF assms(2)], symmetric])
  have n: "unat (of_nat (length t) :: u64) = length t" using assms(4) by (simp add: unat_of_nat_small)
  have c: "s_len s + of_nat (length t) = of_nat (length (content s @ t))" by (simp add: length_content [OF sds_ok_open [OF assms(2)]])
  have u: "unat (of_nat (length (content s @ t)) :: u64) = length (content s @ t)"
    by (rule unat_of_nat_small) (use assms(3,4) in simp)
  have *: "\<exists>s''. Option.bind (with_mem (mem_write (length (content s)) t) s') (\<lambda>r.
        map_option Some (with_mem (mem_write (length (content s @ t)) [NUL]) (sdssetlen (of_nat (length (content s @ t))) r))) = Some (Some s'')
        \<and> sds_ok s'' \<and> content s'' = content s @ t"
    if s': "sds_ok s'" "content s' = content s" "s_len s' = s_len s" "length (content s) + length t \<le> unat (sdsalloc s')"
    for s'
  proof -
    have "take (length (content s)) (s_mem s') = content s'" unfolding content_def [of s'] s'(3) l ..
    then have pre: "take (length (content s)) (s_mem s') = take (length (content s)) (content s @ t)" by (simp add: s'(2))
    have le: "length (content s @ t) \<le> unat (sdsalloc s')" "length (content s) \<le> length (content s @ t)"
      using s'(4) by simp_all
    have e: "drop (length (content s)) (content s @ t) = t" by simp
    obtain s'' where "Option.bind (with_mem (mem_write (length (content s)) t) s')
        (\<lambda>r. map_option (sdssetlen (of_nat (length (content s @ t)))) (with_mem (mem_write (length (content s @ t)) [NUL]) r)) = Some s''"
        "sds_ok s''" "content s'' = content s @ t"
      using write_prefix [OF s'(1) le(1,2) pre] unfolding e by (elim exE conjE) (rule that)
    then show ?thesis unfolding write_then_setlen by (intro exI [of _ s'']) simp
  qed
  show ?thesis
    unfolding sdscatlen_def Let_def sdslen_def l c u
  proof (rule after_room [OF assms(1-3)], goal_cases)
    case (2 s')
    then show ?case using * [of s'] n l by (intro returnsI) simp
  qed (use n assms(4) in simp)
qed

lemma write_content_returns:
  assumes "sds_ok s" "length bs \<le> unat (sdsalloc s)"
  shows "returns alloc bs (Option.bind (with_mem (mem_write 0 bs) s) (\<lambda>s.
    map_option (\<lambda>s. Some (sdssetlen (of_nat (length bs)) s)) (with_mem (mem_write (length bs) [NUL]) s)))"
proof -
  have e: "Option.bind r (\<lambda>s. map_option (\<lambda>s. Some (g s)) (h s)) = map_option Some (Option.bind r (\<lambda>s. map_option g (h s)))"
    for g :: "sds \<Rightarrow> sds" and h and r :: "sds option"
    by (cases r) (simp_all add: option.map_comp comp_def)
  show ?thesis unfolding e using write_content [OF assms] by (auto simp: returns_def)
qed

lemma cpylen_ok:
  assumes "allocator_ok alloc" "sds_ok s" "length (content s) < 2 ^ 32" "length t < 2 ^ 62"
  shows "returns alloc t (sdscpylen alloc t s)"
proof -
  have n: "unat (of_nat (length t) :: u64) = length t" using assms(4) by (simp add: unat_of_nat_small)
  show ?thesis
  proof (cases "sdsalloc s < of_nat (length t)")
    case True
    then have "unat (s_len s) < length t" using sds_len_alloc [OF assms(2)] n by (simp add: word_less_nat_alt)
    then have d: "unat (of_nat (length t) - s_len s :: u64) = length t - unat (s_len s)"
      using n by (simp add: unat_sub word_le_nat_alt)
    have "sdscpylen alloc t s = checked (\<lambda>s. Option.bind (with_mem (mem_write 0 t) s) (\<lambda>s.
        map_option (\<lambda>s. Some (sdssetlen (of_nat (length t)) s)) (with_mem (mem_write (length t) [NUL]) s)))
        (sdsMakeRoomFor alloc (of_nat (length t) - s_len s) s)"
      using True by (simp add: sdscpylen_def Let_def sdslen_def)
    then show ?thesis
      using after_room [OF assms(1-3), of "of_nat (length t) - s_len s"] assms(4) d \<open>unat (s_len s) < length t\<close>
      by (simp add: write_content_returns)
  next
    case False
    then have "length t \<le> unat (sdsalloc s)" using n by (simp add: word_less_nat_alt)
    then show ?thesis
      using False write_content_returns [OF assms(2)] by (simp add: sdscpylen_def Let_def checked_def)
  qed
qed

lemma growzero_ok:
  assumes "allocator_ok alloc" "sds_ok s" "length (content s) < 2 ^ 32" "unat n < 2 ^ 62"
  shows "returns alloc (content s @ replicate (unat n - length (content s)) NUL) (sdsgrowzero alloc n s)"
proof (cases "n \<le> s_len s")
  case True
  then show ?thesis
    using assms(2) by (auto simp: sdsgrowzero_def sdslen_def returns_def length_content [OF sds_ok_open [OF assms(2)]] word_le_nat_alt)
next
  case False
  define z where "z = replicate (unat n - length (content s)) NUL"
  have l: "unat (s_len s) = length (content s)" by (rule length_content [OF sds_ok_open [OF assms(2)], symmetric])
  have lt: "length (content s) < unat n" using False l by (simp add: word_le_nat_alt)
  then have d: "unat (n - s_len s) = unat n - length (content s)" using l by (simp add: unat_sub word_le_nat_alt)
  have d1: "unat (n - s_len s + 1) = Suc (length z)"
    using d assms(4) by (simp add: z_def unat_word_ariths)
  have cz: "length (content s @ z) = unat n" using lt by (simp add: z_def)
  have *: "returns alloc (content s @ z) (map_option (\<lambda>s. Some (sdssetlen n s))
      (with_mem (mem_write (length (content s)) (replicate (Suc (length z)) NUL)) s'))"
    if s': "sds_ok s'" "content s' = content s" "s_len s' = s_len s" "unat (s_len s) + unat (n - s_len s) \<le> unat (sdsalloc s')" for s'
  proof -
    define m where "m = take (length (content s)) (s_mem s') @ z @ NUL # drop (Suc (unat n)) (s_mem s')"
    have cs: "take (length (content s)) (s_mem s') = content s" using s'(2) unfolding content_def [of s'] s'(3) l .
    have al: "unat n \<le> unat (sdsalloc s')" using s'(4) d lt l by simp
    have lm: "unat n < length (s_mem s')" using al sds_alloc_mem [OF s'(1)] by simp
    have e: "replicate (Suc (length z)) NUL = z @ [NUL]" by (simp add: z_def replicate_append_same)
    have "with_mem (mem_write (length (content s)) (replicate (Suc (length z)) NUL)) s' = Some (s'\<lparr>s_mem := m\<rparr>)"
      using lm cz unfolding e by (simp add: with_write m_def)
    moreover have "length m = length (s_mem s')" "take (Suc (length (content s @ z))) m = (content s @ z) @ [NUL]"
      using lm cz by (simp_all add: m_def cs)
    moreover have "of_nat (length (content s @ z)) = n" unfolding cz by simp
    ultimately show ?thesis
      using set_content [OF s'(1), of m "content s @ z"] al cz by (intro returnsI) simp
  qed
  have "sdsgrowzero alloc n s = checked (\<lambda>r. map_option (\<lambda>s. Some (sdssetlen n s))
      (with_mem (mem_write (length (content s)) (replicate (Suc (length z)) NUL)) r)) (sdsMakeRoomFor alloc (n - s_len s) s)"
    using False by (simp add: sdsgrowzero_def Let_def sdslen_def l d1)
  then show ?thesis
    using after_room [OF assms(1-3), of "n - s_len s"] assms(4) d * by (simp add: z_def [symmetric])
qed

text \<open>In place: the result is always a string.\<close>

definition yields :: "string \<Rightarrow> sds option \<Rightarrow> bool" where
  "yields t r \<longleftrightarrow> (\<exists>s. r = Some s \<and> sds_ok s \<and> content s = t)"

lemma yields_returns: "yields t r \<Longrightarrow> returns alloc t (map_option Some r)"
  by (auto simp: yields_def returns_def)

lemma clear_ok: "sds_ok s \<Longrightarrow> yields [] (sdsclear s)"
  using write_content [of s "[]"] sds_alloc_mem [of s]
  by (cases s) (auto simp: yields_def sdsclear_def with_mem_setlen with_write)

text \<open>Shifting a part of the content to the front.\<close>

lemma shift_ok:
  assumes "sds_ok s" "i + n \<le> length (content s)"
  shows "yields (take n (drop i (content s))) (Option.bind (mem_read i n (s_mem s)) (\<lambda>bs.
    Option.bind (with_mem (mem_write 0 bs) s) (\<lambda>s. map_option (sdssetlen (of_nat n)) (with_mem (mem_write n [NUL]) s))))"
proof -
  define bs where "bs = take n (drop i (content s))"
  have l: "length bs = n" using assms(2) by (simp add: bs_def)
  have c: "length (content s) \<le> unat (sdsalloc s)" using sds_len_alloc [OF assms(1)] length_content [OF sds_ok_open [OF assms(1)]] by simp
  have "mem_read i n (s_mem s) = Some bs"
    using assms(2) sds_len_mem [OF assms(1)] length_content [OF sds_ok_open [OF assms(1)]]
    by (simp add: mem_read_def bs_def content_def drop_take min_def)
  then show ?thesis
    using write_content [OF assms(1), of bs] assms(2) c by (simp add: yields_def bs_def [symmetric] l)
qed

definition trimmed :: "string \<Rightarrow> string \<Rightarrow> string" where
  "trimmed cset t = rev (dropWhile (in_cset cset) (rev (dropWhile (in_cset cset) t)))"

lemma trim_left_eq:
  "sp + n \<le> length mem \<Longrightarrow> trim_left n cset mem sp = sp + length (takeWhile (in_cset cset) (take n (drop sp mem)))"
proof (induction n arbitrary: sp)
  case (Suc n)
  then have "drop sp mem = mem ! sp # drop (Suc sp) mem" by (simp add: Cons_nth_drop_Suc)
  with Suc show ?case by simp
qed simp

lemma trim_right_eq:
  assumes "sp \<le> ep" "ep < length mem" "\<not> in_cset cset (mem ! sp)"
  shows "sp \<le> trim_right cset mem sp ep \<and> trim_right cset mem sp ep \<le> ep \<and>
    take (trim_right cset mem sp ep - sp + 1) (drop sp mem) =
      rev (dropWhile (in_cset cset) (rev (take (ep - sp + 1) (drop sp mem))))"
  using assms
proof (induction cset mem sp ep rule: trim_right.induct)
  case (1 cset mem sp ep)
  have t: "take (ep - sp + 1) (drop sp mem) = take (ep - sp) (drop sp mem) @ [mem ! ep]"
    using 1 by (simp add: take_Suc_conv_app_nth)
  show ?case
  proof (cases "sp < ep \<and> in_cset cset (mem ! ep)")
    case True
    then have "ep - 1 - sp + 1 = ep - sp" by linarith
    moreover have "sp \<le> ep - 1" "ep - 1 < length mem" using True 1(3) by linarith+
    note ih = 1(1) [OF True this 1(4)]
    moreover have "trim_right cset mem sp (ep - 1) \<le> ep" using ih by linarith
    ultimately show ?thesis using True t by (simp add: trim_right.simps [of cset mem sp ep])
  next
    case False
    then have "\<not> in_cset cset (mem ! ep)" using 1 by (cases "sp = ep") auto
    then show ?thesis using False 1 t by (simp add: trim_right.simps [of cset mem sp ep])
  qed
qed

lemma trim_ok:
  assumes "sds_ok s"
  shows "yields (trimmed cset (content s)) (sdstrim cset s)"
proof -
  define t where "t = content s"
  define n where "n = length t"
  have l: "unat (sdslen s) = n" by (simp add: sdslen_def n_def t_def length_content [OF sds_ok_open [OF assms]])
  have t: "t = take n (s_mem s)" using l by (simp add: t_def content_def sdslen_def)
  have nm: "n < length (s_mem s)" using sds_len_mem [OF assms] l by (simp add: sdslen_def)
  define sp where "sp = trim_left n cset (s_mem s) 0"
  have sp: "sp = length (takeWhile (in_cset cset) t)" unfolding sp_def t by (subst trim_left_eq) (use nm in simp_all)
  then have dw: "dropWhile (in_cset cset) t = drop sp t" by (simp add: dropWhile_eq_drop)
  have spn: "sp \<le> n" unfolding sp n_def by (rule length_takeWhile_le)
  define len where "len = (if n \<le> sp then 0 else trim_right cset (s_mem s) sp (n - 1) - sp + 1)"
  have len: "sp + len \<le> n \<and> take len (drop sp t) = trimmed cset t"
  proof (cases "n \<le> sp")
    case True
    then show ?thesis using spn by (simp add: len_def trimmed_def dw n_def)
  next
    case False
    then have lt: "sp < length t" by (simp add: n_def)
    have "\<not> in_cset cset (t ! sp)"
      unfolding sp by (rule nth_length_takeWhile) (use lt sp in simp)
    moreover have "t ! sp = s_mem s ! sp" using lt n_def t by (metis nth_take)
    ultimately have *: "sp \<le> trim_right cset (s_mem s) sp (n - 1) \<and> trim_right cset (s_mem s) sp (n - 1) \<le> n - 1 \<and>
        take (trim_right cset (s_mem s) sp (n - 1) - sp + 1) (drop sp (s_mem s)) =
          rev (dropWhile (in_cset cset) (rev (take (n - 1 - sp + 1) (drop sp (s_mem s)))))"
      using False nm by (intro trim_right_eq) auto
    have d: "take (n - 1 - sp + 1) (drop sp (s_mem s)) = drop sp t"
    proof -
      have "n - 1 - sp + 1 = n - sp" using False by linarith
      then show ?thesis unfolding t drop_take by simp
    qed
    have "sp \<le> trim_right cset (s_mem s) sp (n - 1)" "trim_right cset (s_mem s) sp (n - 1) \<le> n - 1" using * by blast+
    then have ln: "sp + len \<le> n" using False unfolding len_def if_not_P [OF False] by linarith
    then have "take len (drop sp t) = take len (drop sp (s_mem s))" by (simp add: t drop_take min_def)
    moreover have "take len (drop sp (s_mem s)) = rev (dropWhile (in_cset cset) (rev (drop sp t)))"
      using * unfolding len_def if_not_P [OF False] d by blast
    ultimately show ?thesis using ln unfolding trimmed_def dw by simp
  qed
  have "sdstrim cset s = Option.bind (mem_read sp len (s_mem s)) (\<lambda>bs.
      Option.bind (with_mem (mem_write 0 bs) s) (\<lambda>s. map_option (sdssetlen (of_nat len)) (with_mem (mem_write len [NUL]) s)))"
    unfolding sdstrim_def Let_def l sp_def [symmetric] len_def [symmetric] ..
  then show ?thesis using shift_ok [OF assms, of sp len] len by (simp add: t_def n_def)
qed

text \<open>An index counts from the end when it is negative.\<close>

definition index_of :: "nat \<Rightarrow> int \<Rightarrow> int" where
  "index_of n i = (if i < 0 then max 0 (int n + i) else i)"

definition substring :: "int \<Rightarrow> int \<Rightarrow> string \<Rightarrow> string" where
  "substring i j t = take (nat (index_of (length t) j - index_of (length t) i + 1)) (drop (nat (index_of (length t) i)) t)"

lemma range_ok:
  assumes "sds_ok s" "length (content s) < 2 ^ 32" "\<bar>i\<bar> < 2 ^ 62" "\<bar>j\<bar> < 2 ^ 62"
  shows "\<exists>r. sdsrange i j s = Some (True, r) \<and> sds_ok r \<and> content r = substring i j (content s)"
proof -
  define t where "t = content s"
  define n where "n = length t"
  have l: "unat (s_len s) = n" by (simp add: n_def t_def length_content [OF sds_ok_open [OF assms(1)]])
  have n: "n < 2 ^ 32" using assms(2) by (simp add: n_def t_def)
  define a where "a = index_of n i"
  define b where "b = index_of n j"
  have ab: "0 \<le> a" "a < 2 ^ 62" "0 \<le> b" "b < 2 ^ 62" using assms(3,4) n by (auto simp: a_def b_def index_of_def)
  define k where "k = (if a > b \<or> a \<ge> int n then 0 else min b (int n - 1) - a + 1)"
  define a' where "a' = (if a > b then 0 else a)"
  have k: "0 \<le> k" "k \<le> int n" "k \<noteq> 0 \<Longrightarrow> a + k \<le> int n" "k \<noteq> 0 \<Longrightarrow> a' = a" using ab by (auto simp: k_def a'_def)
  have sub: "substring i j t = take (nat k) (drop (nat a) t)"
    using ab by (auto simp: substring_def n_def [symmetric] a_def [symmetric] b_def [symmetric] k_def min_def nat_eq_iff)
  show ?thesis
  proof (cases "n = 0")
    case True
    then have "t = []" by (simp add: n_def)
    then show ?thesis using assms(1) True l
      by (auto simp: sdsrange_def sdslen_def SSIZE_MAX_def substring_def t_def [symmetric])
  next
    case False
    have r1: "range_len a b = Some (if a > b then 0 else b - a + 1)" using ab by (auto simp: range_len_def SSIZE_MAX_def)
    have r2: "range_len a (int n - 1) = Some (if a > int n - 1 then 0 else int n - 1 - a + 1)"
      using ab n by (auto simp: range_len_def SSIZE_MAX_def)
    have p: "Option.bind (range_len a b) (\<lambda>newlen. if newlen \<noteq> 0
        then if a \<ge> int n then Some (a, 0) else if b \<ge> int n then map_option (Pair a) (range_len a (int n - 1)) else Some (a, newlen)
        else Some (0, newlen)) = Some (a', k)"
      unfolding r1 r2 using ab False by (auto simp: k_def a'_def)
    have c: "\<not> int n > SSIZE_MAX" "int n \<noteq> 0" using n False by (simp_all add: SSIZE_MAX_def)
    have s1: "sdsrange i j s = Option.bind (if a' \<noteq> 0 \<and> k \<noteq> 0
        then Option.bind (mem_read (nat a') (nat k) (s_mem s)) (\<lambda>bs. with_mem (mem_write 0 bs) s) else Some s)
        (\<lambda>s. map_option (\<lambda>s. (True, sdssetlen (of_int k) s)) (with_mem (mem_write (nat k) [NUL]) s))"
      unfolding sdsrange_def Let_def sdslen_def l if_not_P [OF c(1)] if_not_P [OF c(2)]
        index_of_def [symmetric] a_def [symmetric] b_def [symmetric] bind_assoc [symmetric] p by simp
    define q where "q = (if k = 0 then 0 else nat a')"
    have le: "q + nat k \<le> length (content s)" using k ab by (auto simp: q_def n_def t_def)
    have mm: "length (content s) \<le> length (s_mem s)" by (simp add: content_def)
    have rd: "mem_read q (nat k) (s_mem s) = Some (take (nat k) (drop q (s_mem s)))"
      using le mm by (simp add: mem_read_def)
    have same: "Some s = Option.bind (mem_read q (nat k) (s_mem s)) (\<lambda>bs. with_mem (mem_write 0 bs) s)" if "q = 0"
      using that le mm unfolding rd by (cases s) (simp add: with_write min_def)
    have "(if a' \<noteq> 0 \<and> k \<noteq> 0
        then Option.bind (mem_read (nat a') (nat k) (s_mem s)) (\<lambda>bs. with_mem (mem_write 0 bs) s) else Some s) =
      Option.bind (mem_read q (nat k) (s_mem s)) (\<lambda>bs. with_mem (mem_write 0 bs) s)"
    proof (cases "a' \<noteq> 0 \<and> k \<noteq> 0")
      case True
      then have "q = nat a'" by (simp add: q_def)
      then show ?thesis unfolding if_P [OF True] by simp
    next
      case False
      then have "q = 0" by (auto simp: q_def)
      then show ?thesis unfolding if_not_P [OF False] by (rule same)
    qed
    then have s2: "sdsrange i j s = Option.bind (Option.bind (mem_read q (nat k) (s_mem s)) (\<lambda>bs. with_mem (mem_write 0 bs) s))
        (\<lambda>s. map_option (\<lambda>s. (True, sdssetlen (of_int k) s)) (with_mem (mem_write (nat k) [NUL]) s))"
      unfolding s1 by (simp only:)
    have e: "Option.bind r (\<lambda>s. map_option (\<lambda>s. (True, g s)) (h s)) = map_option (Pair True) (Option.bind r (\<lambda>s. map_option g (h s)))"
      for g :: "sds \<Rightarrow> sds" and h and r :: "sds option"
      by (cases r) (simp_all add: option.map_comp comp_def)
    have kk: "(of_int k :: u64) = of_nat (nat k)" using k(1) by simp
    have "take (nat k) (drop q t) = substring i j t" unfolding sub using k(4) by (auto simp: q_def a'_def)
    then show ?thesis
      using shift_ok [OF assms(1) le] unfolding s2 e kk bind_assoc yields_def t_def by auto
  qed
qed

lemma map_content_ok:
  assumes "sds_ok s"
  shows "yields (map f (content s)) (Option.bind (mem_read 0 (unat (s_len s)) (s_mem s)) (\<lambda>bs. with_mem (mem_write 0 (map f bs)) s))"
proof -
  define m where "m = map f (content s) @ drop (unat (s_len s)) (s_mem s)"
  have l: "unat (s_len s) < length (s_mem s)" by (rule sds_len_mem [OF assms])
  have "Option.bind (mem_read 0 (unat (s_len s)) (s_mem s)) (\<lambda>bs. with_mem (mem_write 0 (map f bs)) s) = Some (s\<lparr>s_mem := m\<rparr>)"
    using l by (simp add: mem_read_def with_write m_def content_def min_def)
  moreover have "length m = length (s_mem s)" "m ! unat (s_len s) = NUL" "take (unat (s_len s)) m = map f (content s)"
    using l assms by (auto simp: m_def nth_append length_content [OF sds_ok_open [OF assms]]) (auto simp: content_def sds_ok_def sds_open_def)
  ultimately show ?thesis using assms by (auto simp: yields_def sds_ok_def sds_open_def content_def sdsalloc_def)
qed

lemma len_int:
  assumes "unat (n :: u64) < 2 ^ 31"
  shows "nat (sint (ucast n :: 32 word)) = unat n"
proof -
  have "unat (ucast n :: 32 word) = unat n"
    by (rule trans [OF unsigned_ucast_eq]) (use assms in \<open>simp add: take_bit_nat_eq_self\<close>)
  then obtain m where m: "uint (ucast n :: 32 word) = int m" "unat n = m" by (simp only: uint_nat)
  show ?thesis unfolding sint_uint m using assms by (simp add: m signed_take_bit_int_eq_self)
qed

lemma map_ok: "sds_ok s \<Longrightarrow> length (content s) < 2 ^ 31 \<Longrightarrow> yields (map f (content s)) (sds_map f s)"
  using map_content_ok by (simp add: sds_map_def Let_def sdslen_def len_int length_content [OF sds_ok_open])

lemma mapchars_ok: "sds_ok s \<Longrightarrow> yields (map (map_char from to) (content s)) (sdsmapchars from to s)"
  using map_content_ok by (simp add: sdsmapchars_def sdslen_def)

text \<open>The increment cuts the end off, or takes in what the caller has written behind the string.\<close>

lemma incrLen_cut:
  assumes "sds_ok s" "0 < k" "k \<le> length (content s)" "length (content s) < 2 ^ 31"
  shows "yields (take (length (content s) - k) (content s)) (sdsIncrLen (- int k) s)"
proof -
  define bs where "bs = take (length (content s) - k) (content s)"
  have l: "unat (s_len s) = length (content s)" by (simp add: length_content [OF sds_ok_open [OF assms(1)]])
  have bl: "length bs = length (content s) - k" by (simp add: bs_def)
  have k: "unat (of_nat k :: u64) = k" using assms(3,4) by (simp add: unat_of_nat_small)
  have e: "s_len s - of_nat k = of_nat (length bs)"
    using assms(3) unfolding bl by (simp add: of_nat_diff l [symmetric])
  have le: "length bs \<le> unat (sdsalloc s)" using sds_len_alloc [OF assms(1)] l bl by simp
  have sl: "sdsinclen (of_int (- int k)) s = sdssetlen (of_nat (length bs)) s"
    unfolding sdsinclen_def sdssetlen_def by (simp add: e)
  have "fits (s_type s) (of_nat (length bs))"
    by (rule fits_le [of _ "s_len s"]) (use assms(1) l bl assms(4) in \<open>auto simp: sds_ok_def sds_open_def unat_of_nat_small\<close>)
  then have ul: "unat (sdslen (sdssetlen (of_nat (length bs)) s)) = length bs"
    using bl assms(4) by (simp add: sdslen_def sdssetlen_def take_bit_fits unat_of_nat_small)
  have c: "- int k < 0 \<and> - (- int k) \<le> int (unat (sdslen s))" using assms(2,3) l by (simp add: sdslen_def)
  have "sdsIncrLen (- int k) s = with_mem (mem_write (length bs) [NUL]) (sdssetlen (of_nat (length bs)) s)"
    unfolding sdsIncrLen_def Let_def sl ul using c by (simp only: simp_thms if_True)
  moreover have "length bs \<le> unat (s_len s)" using bl l by simp
  then have "take (length bs) (content s) = take (length bs) (s_mem s)" by (simp add: content_def min_def)
  then have "take (length bs) (s_mem s) = take (length bs) bs" by (simp add: bs_def)
  then have "\<exists>s'. map_option (sdssetlen (of_nat (length bs))) (with_mem (mem_write (length bs) [NUL]) s) = Some s' \<and>
      sds_ok s' \<and> content s' = bs"
    using write_prefix [OF assms(1) le, of "length bs"] le sds_alloc_mem [OF assms(1)] by (simp add: with_write)
  ultimately show ?thesis by (simp add: with_mem_setlen yields_def bs_def)
qed

lemma sds_move_type: "sds_move alloc ty n s = Some (Some s') \<Longrightarrow> s_type s' = ty"
proof -
  have t: "s_type (sdssetalloc m r) = s_type r" "s_type (sdssetlen m r) = s_type r" for m r
    by (simp_all add: sdssetalloc_def sdssetlen_def)
  assume "sds_move alloc ty n s = Some (Some s')"
  then show ?thesis
    unfolding sds_move_def by (cases "sds_bytes alloc ty n"; cases "s_type s = ty") (auto simp: bind_eq_Some_conv t)
qed

lemma make_room_type: "sdsMakeRoomFor alloc n s = Some (Some s') \<Longrightarrow> n \<noteq> 0 \<Longrightarrow> s_type s' \<noteq> SDS_TYPE_5"
proof (cases "n \<le> sdsavail s")
  case True
  assume "sdsMakeRoomFor alloc n s = Some (Some s')" "n \<noteq> 0"
  then show ?thesis using True by (auto simp: sdsMakeRoomFor_def sdsavail_def)
next
  case False
  assume "sdsMakeRoomFor alloc n s = Some (Some s')"
  then show ?thesis unfolding sdsMakeRoomFor_def Let_def if_not_P [OF False] by (drule_tac sds_move_type) simp
qed

lemma incrLen_add:
  assumes "sds_ok s" "s_type s \<noteq> SDS_TYPE_5" "length (content s) + length bs \<le> unat (sdsalloc s)" "length bs < 2 ^ 31"
  shows "yields (content s @ bs) (Option.bind (with_mem (mem_write (length (content s)) bs) s) (sdsIncrLen (int (length bs))))"
proof -
  define c where "c = content s @ bs"
  have l: "unat (s_len s) = length (content s)" by (simp add: length_content [OF sds_ok_open [OF assms(1)]])
  have lc: "length c = length (content s) + length bs" by (simp add: c_def)
  have le: "length c \<le> unat (sdsalloc s)" "length (content s) \<le> length c" using assms(3) lc by simp_all
  have "of_nat (length (content s)) = s_len s" by (simp add: length_content [OF sds_ok_open [OF assms(1)]])
  then have e: "s_len s + of_nat (length bs) = of_nat (length c)" unfolding lc by simp
  have lu: "unat (of_nat (length c) :: u64) = length c" by (rule le_unat_uoi [OF le(1)])
  have al: "sdsalloc s = s_alloc s" using assms(2) by (simp add: sdsalloc_def)
  have "fits (s_type s) (of_nat (length c))"
    by (rule fits_le [of _ "s_alloc s"]) (use assms(1) le(1) al lu in \<open>auto simp: sds_ok_def sds_open_def\<close>)
  then have ul: "sdslen (sdssetlen (of_nat (length c)) s) = of_nat (length c)"
    by (simp add: sdslen_def sdssetlen_def take_bit_fits)
  have "unat (s_alloc s - s_len s) = unat (s_alloc s) - unat (s_len s)"
    using sds_len_alloc [OF assms(1)] by (simp add: al unat_sub word_le_nat_alt)
  then have "length bs \<le> unat (s_alloc s - s_len s)" using assms(3) l al by simp
  then have cond: "int (length bs) \<ge> 0 \<and> int (length bs) \<le> int (unat (s_alloc s - s_len s))"
    by (simp only: of_nat_0_le_iff of_nat_le_iff simp_thms)
  have len_mem: "length (content s) + length bs \<le> length (s_mem s)" using assms(3) sds_alloc_mem [OF assms(1)] by simp
  obtain r where r: "with_mem (mem_write (length (content s)) bs) s = Some r" "s_type r = s_type s" "s_len r = s_len s"
      "s_alloc r = s_alloc s"
    using with_write [OF len_mem] by simp
  have ri: "sdsIncrLen (int (length bs)) r = map_option (sdssetlen (of_nat (length c))) (with_mem (mem_write (length c) [NUL]) r)"
  proof -
    have "sdsinclen (of_int (int (length bs))) r = sdssetlen (of_nat (length c)) r"
      unfolding sdsinclen_def sdssetlen_def r(3) by (simp add: e)
    moreover have "unat (sdslen (sdssetlen (of_nat (length c)) r)) = length c"
      using \<open>fits (s_type s) (of_nat (length c))\<close> lu by (simp add: sdslen_def sdssetlen_def take_bit_fits r(2))
    ultimately show ?thesis
      unfolding sdsIncrLen_def Let_def with_mem_setlen [symmetric] using cond assms(2) by (simp only: r simp_thms if_True if_False)
  qed
  have "take (length (content s)) (s_mem s) = content s"
    unfolding l [symmetric] by (simp only: content_def)
  then have pre: "take (length (content s)) (s_mem s) = take (length (content s)) c" by (simp add: c_def)
  have d: "drop (length (content s)) c = bs" by (simp add: c_def)
  show ?thesis
    using write_prefix [OF assms(1) le pre] unfolding d r(1) c_def [symmetric] yields_def by (simp only: bind.bind_lunit ri)
qed

text \<open>The documented way to read into a string: room is made, the caller writes behind the end and then moves it.\<close>

definition sds_receive :: "allocator \<Rightarrow> u64 \<Rightarrow> string \<Rightarrow> sds \<Rightarrow> sds option option" where
  "sds_receive alloc n bs s = checked (\<lambda>r.
     map_option Some (Option.bind (with_mem (mem_write (unat (sdslen s)) bs) r) (sdsIncrLen (int (length bs)))))
     (sdsMakeRoomFor alloc n s)"

lemma receive_ok:
  assumes "allocator_ok alloc" "sds_ok s" "length (content s) < 2 ^ 32" "unat n < 2 ^ 62" "n \<noteq> 0"
    "length bs \<le> unat n" "length bs < 2 ^ 31"
  shows "returns alloc (content s @ bs) (sds_receive alloc n bs s)"
  unfolding sds_receive_def
proof (rule after_room [OF assms(1-4)], goal_cases)
  case (1 s')
  have "unat (sdslen s) = length (content s')" by (simp add: sdslen_def 1(2) length_content [OF sds_ok_open [OF assms(2)]])
  then show ?case
    using yields_returns [OF incrLen_add [OF 1(1), of bs]] make_room_type [OF 1(5) assms(5)] 1 assms(6,7)
    by (simp add: sdslen_def)
qed

section \<open>Histories\<close>

datatype sds_op = Cat string | CatSds sds | Cpy string | GrowZero u64 | MakeRoom u64 | RemoveFreeSpace | Dup
  | Receive u64 string | Cut nat | Clear | Trim string | Range int int | ToLower | ToUpper | MapChars string string

fun sds_step :: "allocator \<Rightarrow> sds_op \<Rightarrow> sds \<Rightarrow> sds option option" where
  "sds_step alloc (Cat t) s = sdscatlen alloc t s"
| "sds_step alloc (CatSds t) s = sdscatsds alloc t s"
| "sds_step alloc (Cpy t) s = sdscpylen alloc t s"
| "sds_step alloc (GrowZero n) s = sdsgrowzero alloc n s"
| "sds_step alloc (MakeRoom n) s = sdsMakeRoomFor alloc n s"
| "sds_step alloc RemoveFreeSpace s = sdsRemoveFreeSpace alloc s"
| "sds_step alloc Dup s = sdsdup alloc s"
| "sds_step alloc (Receive n bs) s = sds_receive alloc n bs s"
| "sds_step alloc (Cut k) s = map_option Some (sdsIncrLen (- int k) s)"
| "sds_step alloc Clear s = map_option Some (sdsclear s)"
| "sds_step alloc (Trim cset) s = map_option Some (sdstrim cset s)"
| "sds_step alloc (Range i j) s = map_option (\<lambda>(ok, s). if ok then Some s else None) (sdsrange i j s)"
| "sds_step alloc ToLower s = map_option Some (sdstolower s)"
| "sds_step alloc ToUpper s = map_option Some (sdstoupper s)"
| "sds_step alloc (MapChars from to) s = map_option Some (sdsmapchars from to s)"

text \<open>What the operation does to a list of bytes, and what it asks of its arguments.\<close>

fun byte_step :: "sds_op \<Rightarrow> string \<Rightarrow> string" where
  "byte_step (Cat u) t = t @ u"
| "byte_step (CatSds u) t = t @ content u"
| "byte_step (Cpy u) t = u"
| "byte_step (GrowZero n) t = t @ replicate (unat n - length t) NUL"
| "byte_step (MakeRoom n) t = t"
| "byte_step RemoveFreeSpace t = t"
| "byte_step Dup t = t"
| "byte_step (Receive n bs) t = t @ bs"
| "byte_step (Cut k) t = take (length t - k) t"
| "byte_step Clear t = []"
| "byte_step (Trim cset) t = trimmed cset t"
| "byte_step (Range i j) t = substring i j t"
| "byte_step ToLower t = map tolower t"
| "byte_step ToUpper t = map toupper t"
| "byte_step (MapChars from to) t = map (map_char from to) t"

fun admissible :: "sds_op \<Rightarrow> string \<Rightarrow> bool" where
  "admissible (CatSds u) t \<longleftrightarrow> sds_ok u"
| "admissible (MakeRoom n) t \<longleftrightarrow> unat n < 2 ^ 62"
| "admissible (Receive n bs) t \<longleftrightarrow> n \<noteq> 0 \<and> unat n < 2 ^ 62 \<and> length bs \<le> unat n"
| "admissible (Cut k) t \<longleftrightarrow> 0 < k \<and> k \<le> length t"
| "admissible (Range i j) t \<longleftrightarrow> \<bar>i\<bar> < 2 ^ 62 \<and> \<bar>j\<bar> < 2 ^ 62"
| "admissible op t \<longleftrightarrow> True"

definition sds_run :: "allocator \<Rightarrow> sds_op list \<Rightarrow> sds option option \<Rightarrow> sds option option" where
  "sds_run alloc ops r = fold (\<lambda>op. checked (sds_step alloc op)) ops r"

definition byte_run :: "sds_op list \<Rightarrow> string \<Rightarrow> string" where
  "byte_run ops t = fold byte_step ops t"

primrec all_admissible :: "sds_op list \<Rightarrow> string \<Rightarrow> bool" where
  "all_admissible [] t \<longleftrightarrow> True"
| "all_admissible (op # ops) t \<longleftrightarrow>
     admissible op t \<and> length (byte_step op t) < 2 ^ 31 \<and> all_admissible ops (byte_step op t)"

lemma sds_step_ok:
  assumes "allocator_ok alloc" "sds_ok s" "length (content s) < 2 ^ 31" "admissible op (content s)"
    "length (byte_step op (content s)) < 2 ^ 31"
  shows "returns alloc (byte_step op (content s)) (sds_step alloc op s)"
proof -
  have c: "length (content s) < 2 ^ 32" "length (content s) < 2 ^ 62" using assms(3) by simp_all
  show ?thesis
  proof (cases op)
    case (Cat u)
    then show ?thesis using catlen_ok [OF assms(1,2) c(1)] assms(5) by simp
  next
    case (CatSds u)
    then have u: "sds_ok u" using assms(4) by simp
    have "mem_read 0 (unat (sdslen u)) (s_mem u) = Some (content u)"
      using sds_len_mem [OF u] by (simp add: mem_read_def sdslen_def content_def)
    then show ?thesis using CatSds catlen_ok [OF assms(1,2) c(1)] assms(5) by (simp add: sdscatsds_def)
  next
    case (Cpy u)
    then show ?thesis using cpylen_ok [OF assms(1,2) c(1)] assms(5) by simp
  next
    case (GrowZero n)
    then have "unat n < 2 ^ 62" using assms(5) by simp
    then show ?thesis using GrowZero growzero_ok [OF assms(1,2) c(1)] by simp
  next
    case (MakeRoom n)
    then show ?thesis using make_room_returns [OF assms(1,2) c(1)] assms(4) by simp
  next
    case RemoveFreeSpace
    then show ?thesis using removeFreeSpace_ok [OF assms(1,2) c(2)] by simp
  next
    case Dup
    then show ?thesis using sdsdup_ok [OF assms(1,2) c(2)] by simp
  next
    case (Receive n bs)
    then show ?thesis using receive_ok [OF assms(1,2) c(1)] assms(4,5) by simp
  next
    case (Cut k)
    then show ?thesis using yields_returns [OF incrLen_cut [OF assms(2) _ _ assms(3)]] assms(4) by simp
  next
    case Clear
    then show ?thesis using yields_returns [OF clear_ok [OF assms(2)]] by simp
  next
    case (Trim cset)
    then show ?thesis using yields_returns [OF trim_ok [OF assms(2)]] by simp
  next
    case (Range i j)
    then show ?thesis using range_ok [OF assms(2) c(1), of i j] assms(4) by (auto intro!: returnsI)
  next
    case ToLower
    then show ?thesis using yields_returns [OF map_ok [OF assms(2,3)]] by (simp add: sdstolower_def)
  next
    case ToUpper
    then show ?thesis using yields_returns [OF map_ok [OF assms(2,3)]] by (simp add: sdstoupper_def)
  next
    case (MapChars a b)
    then show ?thesis using yields_returns [OF mapchars_ok [OF assms(2)]] by simp
  qed
qed

lemma sds_run_ok:
  assumes "allocator_ok alloc" "returns alloc t r" "length t < 2 ^ 31" "all_admissible ops t"
  shows "returns alloc (byte_run ops t) (sds_run alloc ops r)"
  using assms(2-4)
proof (induction ops arbitrary: t r)
  case (Cons op ops)
  have "returns alloc (byte_step op t) (checked (sds_step alloc op) r)"
    by (rule returns_checked [OF Cons.prems(1)]) (use sds_step_ok [OF assms(1)] Cons.prems(2,3) in auto)
  then show ?case using Cons by (simp add: byte_run_def sds_run_def)
qed (simp add: byte_run_def sds_run_def)



end
