(* ===== verification/Redis_Sds_Text_Props.thy ===== *)
theory Redis_Sds_Text_Props
  imports Redis_Sds_Text Redis_Sds_Props
begin

text \<open>
  Numbers, formats, quoting, splitting and joining: what they produce, for every allocator where they test
  for the null pointer, and for allocators that do not fail where they do not.
\<close>

section \<open>Numbers\<close>

lemma reversed_digits_eq: "reversed_digits v = rev (udec (unat v))"
proof (induction v rule: reversed_digits.induct)
  case (1 v)
  have ten: "unat (10 :: u64) = 10" by simp
  have m: "unat (v mod 10) = unat v mod 10" "unat (v div 10) = unat v div 10" by (simp_all add: unat_mod unat_div)
  have z: "v div 10 = 0 \<longleftrightarrow> unat v < 10" using m(2) by (metis div_eq_0_iff unat_eq_0 zero_neq_numeral)
  show ?case
  proof (cases "unat v < 10")
    case True
    then have "v div 10 = 0" using z by simp
    then show ?thesis using True by (subst reversed_digits.simps, subst udec.simps) (simp add: m)
  next
    case False
    then have "v div 10 \<noteq> 0" using z by simp
    then show ?thesis using False "1.IH" by (subst reversed_digits.simps, subst udec.simps) (simp add: m)
  qed
qed

lemma reverse_between_eq:
  "s \<le> Suc p \<Longrightarrow> p < length buf \<Longrightarrow>
    reverse_between buf s p = take s buf @ rev (take (Suc p - s) (drop s buf)) @ drop (Suc p) buf"
proof (induction buf s p rule: reverse_between.induct)
  case (1 buf s p)
  show ?case
  proof (cases "s < p")
    case True
    obtain a m b c where buf: "buf = a @ b # m @ c # drop (Suc p) buf" "length a = s" "length m = p - Suc s"
    proof (rule that)
      have e1: "drop s buf = buf ! s # drop (Suc s) buf" using 1 True by (simp add: Cons_nth_drop_Suc)
      have e2: "drop p buf = buf ! p # drop (Suc p) buf" using 1 by (simp add: Cons_nth_drop_Suc)
      have "drop (Suc s) buf = take (p - Suc s) (drop (Suc s) buf) @ drop p buf"
        using True by (metis Suc_leI append_take_drop_id drop_drop le_add_diff_inverse2)
      then show "buf = take s buf @ buf ! s # take (p - Suc s) (drop (Suc s) buf) @ buf ! p # drop (Suc p) buf"
        using e1 e2 by (metis append_take_drop_id)
    qed (use 1 True in auto)
    define r where "r = drop (Suc p) buf"
    have b: "buf = a @ b # m @ c # r" using buf(1) by (simp add: r_def)
    have p: "p = Suc (s + length m)" using buf(3) True by simp
    have u: "buf[s := buf ! p, p := buf ! s] = a @ c # m @ b # r"
      unfolding b p buf(2) [symmetric] by (simp add: nth_append list_update_append)
    have "reverse_between buf s p = reverse_between (a @ c # m @ b # r) (Suc s) (p - 1)"
      using True u by (simp add: reverse_between.simps [of buf s p])
    also have "\<dots> = a @ c # rev m @ b # r"
    proof -
      have "p - 1 < length (a @ c # m @ b # r)" "Suc s \<le> Suc (p - 1)" unfolding p buf(2) [symmetric] by simp_all
      from "1.IH" [OF True, unfolded u, OF this(2,1)] show ?thesis unfolding p buf(2) [symmetric] by simp
    qed
    also have "\<dots> = take s buf @ rev (take (Suc p - s) (drop s buf)) @ drop (Suc p) buf"
      unfolding b p buf(2) [symmetric] by simp
    finally show ?thesis .
  next
    case False
    then consider "s = p" | "s = Suc p" using 1 by linarith
    then show ?thesis
    proof cases
      case 1
      have "take (Suc p - s) (drop s buf) = [buf ! p]"
        using 1 "1.prems" by (simp add: Suc_diff_le take_Suc hd_drop_conv_nth)
      then show ?thesis
        using id_take_nth_drop [OF "1.prems"(2)] False 1 by (simp add: reverse_between.simps [of buf p p])
    next
      case 2
      then show ?thesis by (simp add: reverse_between.simps [of buf "Suc p" p])
    qed
  qed
qed

lemma reverse_all: "reverse_between t 0 (length t - 1) = rev t"
proof (cases t)
  case Nil
  then show ?thesis by (simp add: reverse_between.simps)
next
  case (Cons x xs)
  then show ?thesis using reverse_between_eq [of 0 "length t - 1" t] by simp
qed

lemma number_text_eq: "length t \<le> 20 \<Longrightarrow> number_text t = Some (rev t)"
  by (simp add: number_text_def SDS_LLSTR_SIZE_def reverse_all [unfolded One_nat_def])

lemma udec_u64: "length (udec (unat (v :: u64))) \<le> 20"
  by (rule udec_length_bound) (use unsigned_less [of v, where 'a = nat] in simp_all)

lemma sdsull2str_eq: "sdsull2str v = Some (udec (unat v))"
  using udec_u64 [of v] by (simp add: sdsull2str_def number_text_eq reversed_digits_eq)

lemma sdsll2str_eq:
  assumes "- (2 ^ 63) < value" "value < 2 ^ 63"
  shows "sdsll2str value = Some (sdec value)"
proof -
  define a where "a = nat \<bar>value\<bar>"
  have a: "a < 2 ^ 63" "(if value < 0 then - value else value) = int a" using assms by (auto simp: a_def)
  have u: "unat (of_int (int a) :: u64) = a" using a(1) by (simp add: unsigned_of_nat take_bit_nat_eq_self)
  have "length (udec a) \<le> 19" by (rule udec_length_bound) (use a(1) in simp_all)
  moreover have "sdec value = (if value < 0 then CHR ''-'' # udec a else udec a)" using a(2) by (auto simp: sdec_def)
  ultimately show ?thesis
    using assms u unfolding sdsll2str_def a(2)
    by (simp add: reversed_digits_eq number_text_eq)
qed

section \<open>Formats\<close>

text \<open>The size of the buffer does not matter.\<close>

lemma catvprintf_loop_ok:
  assumes "allocator_ok alloc" "sds_ok s" "length (content s) < 2 ^ 32" "length t < 2 ^ 62" "2 \<le> buflen"
  shows "returns alloc (content s @ takeWhile (\<lambda>c. c \<noteq> NUL) t) (catvprintf_loop alloc buflen t s)"
  using assms
proof (induction alloc buflen t s rule: catvprintf_loop.induct)
  case (1 alloc buflen t s)
  show ?case
  proof (cases "buflen - 2 < length t \<and> t ! (buflen - 2) \<noteq> NUL")
    case True
    then have e: "catvprintf_loop alloc buflen t s =
        (case alloc (buflen * 2) of None \<Rightarrow> Some None | Some buf \<Rightarrow> catvprintf_loop alloc (buflen * 2) t s)"
      using "1.prems"(5) by (subst catvprintf_loop.simps) simp
    show ?thesis
    proof (cases "alloc (buflen * 2)")
      case None
      then show ?thesis unfolding e by (auto simp: returns_def never_fails_def)
    next
      case (Some buf)
      then show ?thesis unfolding e using "1.IH" [of buf] True 1 by simp
    qed
  next
    case False
    have "takeWhile (\<lambda>c. c \<noteq> NUL) (take (buflen - 1) t) = takeWhile (\<lambda>c. c \<noteq> NUL) t"
    proof (cases "buflen - 2 < length t")
      case True
      then have n: "t ! (buflen - 2) = NUL" using False by simp
      define a r where "a = take (buflen - 2) t" and "r = drop (Suc (buflen - 2)) t"
      have "t = a @ NUL # r" using id_take_nth_drop [OF True] unfolding n a_def r_def .
      moreover have "buflen - 1 = Suc (length a)" using True "1.prems"(5) by (simp add: a_def)
      ultimately show ?thesis by (simp add: takeWhile_tail)
    qed simp
    then have "catvprintf_loop alloc buflen t s = sdscatlen alloc (takeWhile (\<lambda>c. c \<noteq> NUL) t) s"
      using "1.prems"(5) False by (subst catvprintf_loop.simps) (auto simp: sdscat_def)
    moreover have "length (takeWhile (\<lambda>c. c \<noteq> NUL) t) < 2 ^ 62"
      using "1.prems"(4) length_takeWhile_le [of "\<lambda>c. c \<noteq> NUL" t] by linarith
    ultimately show ?thesis using catlen_ok [OF "1.prems"(1-3)] by simp
  qed
qed

lemma catprintf_ok:
  assumes "allocator_ok alloc" "sds_ok s" "length (content s) < 2 ^ 32" "length t < 2 ^ 62"
  shows "returns alloc (content s @ takeWhile (\<lambda>c. c \<noteq> NUL) t) (sdscatprintf alloc fmt t s)"
  unfolding sdscatprintf_def sdscatvprintf_def
  using catvprintf_loop_ok [OF assms] by (auto simp: returns_def never_fails_def split: option.splits)

text \<open>The text of a format, with \<open>udec\<close> and \<open>sdec\<close> for the numbers.\<close>

fun arg_text :: "char \<Rightarrow> fmt_arg \<Rightarrow> string option" where
  "arg_text next (CString t) = (if next = CHR ''s'' then Some t else None)"
| "arg_text next (SdsString u) = (if next = CHR ''S'' \<and> sds_ok u then Some (content u) else None)"
| "arg_text next (Int32 k) = (if next = CHR ''i'' \<and> - (2 ^ 31) \<le> k \<and> k < 2 ^ 31 then Some (sdec k) else None)"
| "arg_text next (Int64 k) = (if next = CHR ''I'' \<and> - (2 ^ 63) < k \<and> k < 2 ^ 63 then Some (sdec k) else None)"
| "arg_text next (UInt32 v) = (if next = CHR ''u'' then Some (udec (unat v)) else None)"
| "arg_text next (UInt64 v) = (if next = CHR ''U'' then Some (udec (unat v)) else None)"

fun fmt_text :: "string \<Rightarrow> fmt_arg list \<Rightarrow> string option" where
  "fmt_text [] ap = Some []"
| "fmt_text [c] ap = (if c = CHR ''%'' then None else Some [c])"
| "fmt_text (c # next # f) ap =
     (if c = CHR ''%'' then
        if is_conversion next then
          (case ap of [] \<Rightarrow> None
           | a # ap \<Rightarrow> Option.bind (arg_text next a) (\<lambda>t. map_option ((@) t) (fmt_text f ap)))
        else map_option ((#) next) (fmt_text f ap)
      else map_option ((#) c) (fmt_text (next # f) ap))"

lemma fmt_bytes_text: "arg_text next a = Some t \<Longrightarrow> fmt_bytes next (a # ap) = Some (t, ap)"
proof (cases a)
  case (SdsString u)
  assume t: "arg_text next a = Some t"
  then have u: "sds_ok u" "next = CHR ''S''" "t = content u" using SdsString by (auto split: if_splits)
  then have "mem_read 0 (unat (sdslen u)) (s_mem u) = Some (content u)"
    using sds_len_mem [OF u(1)] by (simp add: mem_read_def sdslen_def content_def)
  then show ?thesis using SdsString u by simp
next
  case (UInt32 v)
  assume "arg_text next a = Some t"
  moreover have "take_bit 64 (unat v) = unat v" by (rule take_bit_nat_eq_self) (rule less_trans [OF unat_u32_less], simp)
  ultimately show ?thesis using UInt32 by (auto simp: sdsull2str_eq unsigned_ucast_eq split: if_splits)
qed (auto simp: sdsull2str_eq sdsll2str_eq split: if_splits)

text \<open>One write at the end of a string without terminator.\<close>

lemma put_bytes_ok:
  assumes "sds_open s" "unat (s_len s) + length bs \<le> unat (sdsalloc s)" "unat (s_len s) + length bs < 2 ^ 31"
  shows "\<exists>s'. put_bytes (unat (s_len s)) bs s = Some s' \<and> sds_open s' \<and> content s' = content s @ bs"
proof -
  define n where "n = unat (s_len s)"
  define m where "m = take n (s_mem s) @ bs @ drop (n + length bs) (s_mem s)"
  have len_mem: "n + length bs < length (s_mem s)" using assms(1,2) by (auto simp: sds_open_def n_def)
  have e: "unat (s_len s + of_nat (length bs)) = n + length bs"
    using assms(3) by (simp add: unat_word_ariths n_def unsigned_of_nat take_bit_nat_eq_self)
  have fit: "fits (s_type s) (s_len s + of_nat (length bs))"
    by (rule fits_le [of _ "sdsalloc s"])
      (use assms(1,2) e in \<open>auto simp: sds_open_def sdsalloc_def n_def split: if_splits\<close>)
  define s' where "s' = sdsinclen (of_nat (length bs)) (s\<lparr>s_mem := m\<rparr>)"
  have f: "s_len s' = s_len s + of_nat (length bs)" "s_type s' = s_type s" "s_alloc s' = s_alloc s" "s_mem s' = m"
    using fit by (simp_all add: s'_def sdsinclen_def take_bit_fits)
  have "length m = length (s_mem s)" "take (n + length bs) m = content s @ bs"
    using len_mem by (simp_all add: m_def content_def n_def [symmetric])
  then have "sds_open s'" "content s' = content s @ bs"
    using assms(1,2) fit e by (auto simp: sds_open_def f content_def sdsalloc_def n_def split: if_splits)
  moreover have "put_bytes n bs s = Some s'"
    using assms(3) len_mem by (simp add: put_bytes_def with_write m_def s'_def n_def [symmetric])
  ultimately show ?thesis unfolding n_def by blast
qed

lemma after_room_open:
  assumes "allocator_ok alloc" "sds_open s" "length (content s) < 2 ^ 31" "unat n < 2 ^ 62"
    "\<not> b \<Longrightarrow> length (content s) + unat n \<le> unat (sdsalloc s)"
    "\<And>s'. sds_open s' \<Longrightarrow> content s' = content s \<Longrightarrow> length (content s) + unat n \<le> unat (sdsalloc s') \<Longrightarrow> returns alloc t (f s')"
  shows "returns alloc t (checked f (room_if alloc b n s))"
proof (cases b)
  case True
  have l: "unat (s_len s) = length (content s)" by (simp add: length_content [OF assms(2)])
  have "unat (s_len s) < 2 ^ 32" using assms(3) l by simp
  from make_room_open [OF assms(1,2) this assms(4)] show ?thesis
  proof (elim disjE exE conjE)
    fix s'
    assume s': "sdsMakeRoomFor alloc n s = Some (Some s')" "sds_open s'" "content s' = content s"
      "unat (s_len s) + unat n \<le> unat (sdsalloc s')"
    then show ?thesis using assms(6) [OF s'(2,3)] True l by (simp add: checked_def room_if_def)
  qed (use True in \<open>simp add: checked_def returns_def room_if_def\<close>)
next
  case False
  then show ?thesis using assms(6) [OF assms(2) refl assms(5)] by (simp add: checked_def room_if_def)
qed

lemma put_then:
  assumes "sds_open s" "length (content s) + length bs \<le> unat (sdsalloc s)" "length (content s) + length bs < 2 ^ 31"
    "\<And>r. sds_open r \<Longrightarrow> content r = content s @ bs \<Longrightarrow> returns alloc t (f r)"
  shows "returns alloc t (Option.bind (put_bytes (length (content s)) bs s) f)"
proof -
  have l: "unat (s_len s) = length (content s)" by (simp add: length_content [OF assms(1)])
  obtain r where "put_bytes (length (content s)) bs s = Some r" "sds_open r" "content r = content s @ bs"
    using put_bytes_ok [OF assms(1), of bs] assms(2,3) unfolding l by auto
  then show ?thesis using assms(4) by simp
qed

lemma terminate_ok:
  assumes "sds_open s"
  shows "returns alloc (content s) (map_option Some (with_mem (mem_write (length (content s)) [NUL]) s))"
proof -
  define n where "n = length (content s)"
  define m where "m = take n (s_mem s) @ NUL # drop (Suc n) (s_mem s)"
  have l: "unat (s_len s) = n" by (simp add: length_content [OF assms] n_def)
  have lm: "n < length (s_mem s)" using assms l by (auto simp: sds_open_def)
  have "with_mem (mem_write n [NUL]) s = Some (s\<lparr>s_mem := m\<rparr>)" using lm by (simp add: with_write m_def)
  moreover have "length m = length (s_mem s)" "m ! n = NUL" "take n m = content s"
    using lm l by (simp_all add: m_def nth_append content_def)
  ultimately show ?thesis
    using assms l by (auto simp: returns_def sds_ok_def sds_open_def content_def sdsalloc_def n_def [symmetric])
qed

lemma avail_open:
  assumes "sds_open s" "length bs < 2 ^ 31" "\<not> sdsavail s < of_nat (length bs)"
  shows "length (content s) + length bs \<le> unat (sdsalloc s)"
proof -
  have "length bs \<le> unat (sdsavail s)" using assms(2,3) by (simp add: word_less_nat_alt unat_of_nat_small)
  then show ?thesis using sds_alloc_avail [OF assms(1)] length_content [OF assms(1)] by linarith
qed

lemma avail_one:
  assumes "sds_open s" "sdsavail s \<noteq> 0"
  shows "length (content s) + unat (1 :: u64) \<le> unat (sdsalloc s)"
proof -
  have "unat (sdsavail s) \<noteq> 0" using assms(2) by (simp add: unat_eq_0)
  then show ?thesis using sds_alloc_avail [OF assms(1)] length_content [OF assms(1)] by simp
qed

lemma catfmt_loop_ok:
  assumes "allocator_ok alloc" "sds_open s" "fmt_text fmt ap = Some t" "length (content s) + length t < 2 ^ 31"
  shows "returns alloc (content s @ t) (catfmt_loop alloc fmt ap (length (content s)) s)"
  using assms(2-4)
proof (induction fmt ap arbitrary: s t rule: fmt_text.induct)
  case (1 ap)
  then show ?case using terminate_ok by simp
next
  case (2 c ap)
  then have t: "c \<noteq> CHR ''%''" "t = [c]" by (auto split: if_splits)
  show ?case unfolding catfmt_loop.simps
  proof (rule after_room_open [OF assms(1) 2(1)])
    fix s' assume s': "sds_open s'" "content s' = content s" "length (content s) + unat (1 :: u64) \<le> unat (sdsalloc s')"
    show "returns alloc (content s @ t) (if c = CHR ''%'' then None else
        Option.bind (put_bytes (length (content s)) [c] s') (\<lambda>r. map_option Some (with_mem (mem_write (Suc (length (content s))) [NUL]) r)))"
      unfolding if_not_P [OF t(1)] s'(2) [symmetric]
    proof (rule put_then [OF s'(1)])
      fix r assume r: "sds_open r" "content r = content s' @ [c]"
      then show "returns alloc (content s' @ t) (map_option Some (with_mem (mem_write (Suc (length (content s'))) [NUL]) r))"
        using terminate_ok [OF r(1)] by (simp add: t)
    qed (use s' 2 t in simp_all)
  qed (use 2 avail_one in auto)
next
  case (3 c nxt f ap)
  have len: "length (content s) < 2 ^ 31" using 3(6) by simp
  show ?case unfolding catfmt_loop.simps
  proof (rule after_room_open [OF assms(1) 3(4) len])
    fix s' assume s': "sds_open s'" "content s' = content s" "length (content s) + unat (1 :: u64) \<le> unat (sdsalloc s')"
    have one: "returns alloc (content s' @ t) (Option.bind (put_bytes (length (content s')) [x] s')
        (\<lambda>s. catfmt_loop alloc g ap (Suc (length (content s'))) s))"
      if x: "t = x # u" and ih: "\<And>r. sds_open r \<Longrightarrow> length (content r) + length u < 2 ^ 31 \<Longrightarrow>
        returns alloc (content r @ u) (catfmt_loop alloc g ap (length (content r)) r)" for x g u
    proof (rule put_then [OF s'(1)])
      fix r assume r: "sds_open r" "content r = content s' @ [x]"
      show "returns alloc (content s' @ t) (catfmt_loop alloc g ap (Suc (length (content s'))) r)"
        using ih [OF r(1)] 3(6) s'(2) by (simp add: r(2) x)
    qed (use s' 3(6) x in simp_all)
    show "returns alloc (content s @ t) (if c = CHR ''%'' then
         if is_conversion nxt then
           Option.bind (fmt_bytes nxt ap) (\<lambda>(bs, ap).
             checked (\<lambda>r. Option.bind (put_bytes (length (content s)) bs r) (\<lambda>r. catfmt_loop alloc f ap (length (content s) + length bs) r))
               (room_if alloc (sdsavail s' < of_nat (length bs)) (of_nat (length bs)) s'))
         else Option.bind (put_bytes (length (content s)) [nxt] s') (\<lambda>r. catfmt_loop alloc f ap (Suc (length (content s))) r)
       else Option.bind (put_bytes (length (content s)) [c] s') (\<lambda>r. catfmt_loop alloc (nxt # f) ap (Suc (length (content s))) r))"
      (is "returns _ _ (if _ then if _ then ?A else ?B else ?C)")
    proof -
      consider (conversion) "c = CHR ''%''" "is_conversion nxt" | (percent) "c = CHR ''%''" "\<not> is_conversion nxt"
        | (plain) "c \<noteq> CHR ''%''" by blast
      then show ?thesis
      proof cases
      case c: conversion
      then obtain a ap' u t' where u: "ap = a # ap'" "arg_text nxt a = Some u" "fmt_text f ap' = Some t'" "t = u @ t'"
        using 3(5) by (auto simp: bind_eq_Some_conv split: list.splits)
      have lu: "length u < 2 ^ 31" using 3(6) u(4) by simp
      have nu: "unat (of_nat (length u) :: u64) = length u" using lu by (simp add: unat_of_nat_small)
      have "returns alloc (content s' @ t) (checked (\<lambda>r. Option.bind (put_bytes (length (content s')) u r)
          (\<lambda>r. catfmt_loop alloc f ap' (length (content s') + length u) r))
          (room_if alloc (sdsavail s' < of_nat (length u)) (of_nat (length u)) s'))"
      proof (rule after_room_open [OF assms(1) s'(1)])
        fix r assume r: "sds_open r" "content r = content s'" "length (content s') + unat (of_nat (length u) :: u64) \<le> unat (sdsalloc r)"
        show "returns alloc (content s' @ t) (Option.bind (put_bytes (length (content s')) u r)
          (\<lambda>r. catfmt_loop alloc f ap' (length (content s') + length u) r))"
          unfolding r(2) [symmetric]
        proof (rule put_then [OF r(1)])
          fix q assume q: "sds_open q" "content q = content r @ u"
          show "returns alloc (content r @ t) (catfmt_loop alloc f ap' (length (content r) + length u) q)"
            using 3(1) [OF c u(1) u(2) q(1) u(3)] 3(6) s'(2) r(2) by (simp add: q(2) u(4))
        qed (use r s' nu 3(6) u(4) in simp_all)
      qed (use len s'(2) nu lu avail_open [OF s'(1) lu] in simp_all)
      then show ?thesis using c u(1) fmt_bytes_text [OF u(2)] by (simp add: s'(2))
    next
      case c: percent
      then obtain u where u: "fmt_text f ap = Some u" "t = nxt # u" using 3(5) by auto
      show ?thesis using one [OF u(2), of f] 3(2) [OF c _ u(1)] c by (simp add: s'(2))
    next
      case c: plain
      then obtain u where u: "fmt_text (nxt # f) ap = Some u" "t = c # u" using 3(5) by auto
      show ?thesis using one [OF u(2), of "nxt # f"] 3(3) [OF c _ u(1)] c by (simp add: s'(2))
      qed
    qed
  qed (use 3 avail_one in auto)
qed

text \<open>C38: \<open>sdscatfmt\<close> appends the text of its format: the characters outside conversions, \<open>%s\<close> and \<open>%S\<close> as the bytes of
  the string, the numbers in decimal notation at their widths and signs, and the character itself behind any other
  \<open>%\<close>.  This is so for every format whose conversions have arguments of their types, except
  for the least 64 bit number and a \<open>%\<close> at the very end, for every allocator and every string that has less
  than \<open>2 ^ 31\<close> bytes afterwards; no byte is written outside the object, and a failed allocation gives the
  null pointer.\<close>

theorem sdscatfmt_text:
  assumes "allocator_ok alloc" "sds_ok s" "fmt_text fmt ap = Some t" "length (content s) + length t < 2 ^ 31"
  shows "returns alloc (content s @ t) (sdscatfmt alloc fmt ap s)"
proof -
  have "unat (sdslen s) = length (content s)"
    by (simp add: sdslen_def length_content [OF sds_ok_open [OF assms(2)]])
  then show ?thesis
    using catfmt_loop_ok [OF assms(1) sds_ok_open [OF assms(2)] assms(3,4)] assms(4) by (simp add: sdscatfmt_def)
qed

theorem sdscatfmt_text_witness:
  "returns (\<lambda>n. if n < 200 then Some (replicate n CHR ''?'') else None) ''n=-42 of 7 (100%): ok''
     (sdscatfmt (\<lambda>n. if n < 200 then Some (replicate n CHR ''?'') else None) ''%i of %U (%u%%)%s'' [Int32 (-42), UInt64 7, UInt32 100, CString '': ok'']
       \<lparr>s_type = SDS_TYPE_5, s_len = 2, s_alloc = 0, s_mem = ''n='' @ [NUL]\<rparr>)"
proof -
  let ?alloc = "\<lambda>n. if n < 200 then Some (replicate n CHR ''?'') else None"
  let ?s = "\<lparr>s_type = SDS_TYPE_5, s_len = 2, s_alloc = 0, s_mem = ''n='' @ [NUL]\<rparr>"
  have "allocator_ok ?alloc" by (simp add: allocator_ok_def)
  moreover have "sds_ok ?s" by (simp add: sds_ok_def sds_open_def fits_def sdsalloc_def)
  moreover have "content ?s = ''n=''" by (simp add: content_def)
  moreover have "fmt_text ''%i of %U (%u%%)%s'' [Int32 (-42), UInt64 7, UInt32 100, CString '': ok''] = Some ''-42 of 7 (100%): ok''"
    by (simp add: is_conversion_def sdec_def udec.simps digit_char_def char_of_def bit_Suc_0_iff)
  moreover have "''n='' @ ''-42 of 7 (100%): ok'' = ''n=-42 of 7 (100%): ok''" by simp
  moreover have "length ''n='' + length ''-42 of 7 (100%): ok'' < 2 ^ 31" by simp
  ultimately show ?thesis
    using sdscatfmt_text [of ?alloc ?s "''%i of %U (%u%%)%s''" "[Int32 (-42), UInt64 7, UInt32 100, CString '': ok'']"
      "''-42 of 7 (100%): ok''"] by argo
qed

section \<open>Quoting\<close>

definition gives :: "string \<Rightarrow> sds option option \<Rightarrow> bool" where
  "gives t r \<longleftrightarrow> (\<exists>s. r = Some (Some s) \<and> sds_ok s \<and> content s = t)"

lemma returns_gives: "never_fails alloc \<Longrightarrow> returns alloc t r \<Longrightarrow> gives t r"
  by (auto simp: returns_def gives_def)

lemma gives_on_sds:
  assumes "gives t r" "\<And>s. sds_ok s \<Longrightarrow> content s = t \<Longrightarrow> gives t' (f s)"
  shows "gives t' (on_sds f r)"
proof -
  obtain s where "r = Some (Some s)" "sds_ok s" "content s = t" using assms(1) by (auto simp: gives_def)
  then show ?thesis using assms(2) [of s] by (simp add: on_sds_def)
qed

definition escaped :: "char \<Rightarrow> string" where
  "escaped c =
     (if c = BACKSLASH \<or> c = QUOTE then [BACKSLASH, c] else if c = LF then [BACKSLASH, CHR ''n'']
      else if c = CR then [BACKSLASH, CHR ''r''] else if c = CHR 0x09 then [BACKSLASH, CHR ''t'']
      else if c = CHR 0x07 then [BACKSLASH, CHR ''a''] else if c = CHR 0x08 then [BACKSLASH, CHR ''b'']
      else if isprint c then [c] else BACKSLASH # CHR ''x'' # hex_byte c)"

definition quoted_text :: "string \<Rightarrow> string" where
  "quoted_text t = [QUOTE] @ concat (map escaped t) @ [QUOTE]"

lemma length_escaped: "length (escaped c) \<le> 4"
  by (simp add: escaped_def hex_byte_def)

lemma length_quoted: "length (quoted_text t) \<le> 4 * length t + 2"
  using length_concat_map_le [of t "length t" escaped 4] length_escaped by (simp add: quoted_text_def)

lemma isprint_not_NUL: "isprint c \<Longrightarrow> c \<noteq> NUL"
  by (auto simp: isprint_def char_code_def)

lemma hex_digit_not_NUL: "d < 16 \<Longrightarrow> hex_digit d \<noteq> NUL"
  by (auto simp: hex_digit_def less_Suc_eq numeral_eq_Suc)

lemma returns_if:
  "(b \<Longrightarrow> returns alloc (u @ t) x) \<Longrightarrow> (\<not> b \<Longrightarrow> returns alloc (u @ t') y) \<Longrightarrow>
    returns alloc (u @ (if b then t else t')) (if b then x else y)"
  by simp

lemma repr_append_ok:
  assumes "allocator_ok alloc" "sds_ok s" "length (content s) < 2 ^ 32"
  shows "returns alloc (content s @ escaped c) (repr_append alloc c s)"
proof -
  have p: "returns alloc (content s @ t) (sdscatprintf alloc fmt t s)" if "NUL \<notin> set t" "length t < 5" for fmt t
  proof -
    have e: "takeWhile (\<lambda>c. c \<noteq> NUL) t = t" using that(1) by (auto simp: takeWhile_eq_all_conv)
    have "length t < 2 ^ 62" using that(2) by simp
    from catprintf_ok [OF assms this] show ?thesis unfolding e .
  qed
  have c: "returns alloc (content s @ t) (sdscatlen alloc t s)" if "length t < 5" for t
    using catlen_ok [OF assms, of t] that by simp
  have h: "NUL \<notin> set (hex_byte c)"
  proof -
    have "char_code c div 16 < 16" using char_code_less [of c] by linarith
    then show ?thesis
      using hex_digit_not_NUL [of "char_code c div 16"] hex_digit_not_NUL [of "char_code c mod 16"]
      by (simp add: hex_byte_def eq_commute [of NUL])
  qed
  show ?thesis
    unfolding repr_append_def escaped_def
  proof (intro returns_if, goal_cases)
    case 1
    then show ?case by (intro p) auto
  next
    case 7
    then show ?case using isprint_not_NUL [of c] by (intro p) auto
  next
    case 8
    then show ?case using h by (intro p) (auto simp: hex_byte_def)
  qed (simp_all add: c)
qed

lemma catlen_gives:
  assumes "allocator_ok alloc" "never_fails alloc" "gives u r" "length u < 2 ^ 32" "length t < 2 ^ 62"
  shows "gives (u @ t) (on_sds (sdscatlen alloc t) r)"
proof (rule gives_on_sds [OF assms(3)])
  fix s assume s: "sds_ok s" "content s = u"
  show "gives (u @ t) (sdscatlen alloc t s)"
    using returns_gives [OF assms(2) catlen_ok [OF assms(1) s(1) _ assms(5)]] assms(4) s(2) by simp
qed

lemma repr_fold_gives:
  assumes "allocator_ok alloc" "never_fails alloc" "gives u r" "length u + 4 * length p < 2 ^ 32"
  shows "gives (u @ concat (map escaped p)) (fold (\<lambda>c. on_sds (repr_append alloc c)) p r)"
  using assms(3,4)
proof (induction p arbitrary: u r)
  case (Cons c p)
  have "gives (u @ escaped c) (on_sds (repr_append alloc c) r)"
  proof (rule gives_on_sds [OF Cons.prems(1)])
    fix s assume s: "sds_ok s" "content s = u"
    show "gives (u @ escaped c) (repr_append alloc c s)"
      using returns_gives [OF assms(2) repr_append_ok [OF assms(1) s(1)], of c] s(2) Cons.prems(2) by simp
  qed
  then show ?case using Cons.IH [of "u @ escaped c"] Cons.prems(2) length_escaped [of c] by simp
qed simp

lemma catrepr_gives:
  assumes "allocator_ok alloc" "never_fails alloc" "gives u r" "length u + 4 * length p + 2 < 2 ^ 32"
  shows "gives (u @ quoted_text p) (on_sds (sdscatrepr alloc p) r)"
proof (rule gives_on_sds [OF assms(3)])
  fix s assume s: "sds_ok s" "content s = u"
  have "gives (u @ [QUOTE]) (sdscatlen alloc [QUOTE] s)"
    using returns_gives [OF assms(2) catlen_ok [OF assms(1) s(1)], of "[QUOTE]"] s(2) assms(4) by simp
  from repr_fold_gives [OF assms(1,2) this, of p]
  have "gives ((u @ [QUOTE]) @ concat (map escaped p)) (fold (\<lambda>c. on_sds (repr_append alloc c)) p (sdscatlen alloc [QUOTE] s))"
    using assms(4) by simp
  from catlen_gives [OF assms(1,2) this, of "[QUOTE]"]
  show "gives (u @ quoted_text p) (sdscatrepr alloc p s)"
    using length_quoted [of p] assms(4) by (simp add: sdscatrepr_def quoted_text_def)
qed

text \<open>A quoted string is read back by the tokenizer.\<close>

lemma hex_digit_back:
  assumes "d < 16"
  shows "isxdigit (hex_digit d) \<and> hex_digit_to_int (hex_digit d) = d"
proof -
  have "\<forall>d\<in>set [0..<16]. isxdigit (hex_digit d) \<and> hex_digit_to_int (hex_digit d) = d" by code_simp
  then show ?thesis using assms by simp
qed

lemma peek_simps [simp]:
  "peek (c # p) 0 = c" "peek (c # p) (Suc n) = peek p n" "peek (c # p) (numeral k) = peek p (pred_numeral k)" "peek [] n = NUL"
  by (simp_all add: peek_def numeral_eq_Suc)

lemma token_turn_escaped: "token_turn InQuotes (escaped c @ rest) = Some (InQuotes, [c], rest, False)"
proof -
  have "char_code c div 16 < 16" using char_code_less [of c] by linarith
  note x = hex_digit_back [OF this] hex_digit_back [of "char_code c mod 16"]
  have b: "char_of (char_code c div 16 * 16 + char_code c mod 16) = c" by (simp add: char_code_def)
  note t = token_turn.simps(1) escaped_def
  consider (quoted) "c = BACKSLASH \<or> c = QUOTE" | (control) "c \<in> {LF, CR, CHR 0x09, CHR 0x07, CHR 0x08}"
    | (print) "c \<noteq> BACKSLASH" "c \<noteq> QUOTE" "c \<notin> {LF, CR, CHR 0x09, CHR 0x07, CHR 0x08}" "isprint c"
    | (hex) "c \<noteq> BACKSLASH" "c \<noteq> QUOTE" "c \<notin> {LF, CR, CHR 0x09, CHR 0x07, CHR 0x08}" "\<not> isprint c"
    by blast
  then show ?thesis
  proof cases
    case quoted
    then show ?thesis by (elim disjE) (simp_all add: t unescape_def)
  next
    case control
    then show ?thesis by (elim insertE emptyE) (simp_all add: t unescape_def)
  next
    case print
    then show ?thesis using isprint_not_NUL [OF print(4)] by (simp add: t)
  next
    case hex
    then show ?thesis using x b by (simp add: t hex_byte_def)
  qed
qed

lemma split_token_quotes:
  assumes "allocator_ok alloc" "never_fails alloc" "rest = [] \<or> isspace (hd rest)"
    "sds_ok s" "length (content s) + length t < 2 ^ 32"
  shows "\<exists>s'. split_token alloc InQuotes (concat (map escaped t) @ QUOTE # rest) (Some s) = Some (Inr (rest, Some s')) \<and>
    sds_ok s' \<and> content s' = content s @ t"
  using assms(4,5)
proof (induction t arbitrary: s)
  case Nil
  have "peek (QUOTE # rest) 1 = NUL \<or> isspace (peek (QUOTE # rest) 1)" using assms(3) by (cases rest) auto
  then have "token_turn InQuotes (QUOTE # rest) = Some (InQuotes, [], rest, True)" by (auto simp: token_turn.simps(1))
  then show ?case using Nil by (subst split_token.simps) simp
next
  case (Cons c t)
  obtain s1 where s1: "sdscatlen alloc [c] s = Some (Some s1)" "sds_ok s1" "content s1 = content s @ [c]"
    using returns_gives [OF assms(2) catlen_ok [OF assms(1) Cons.prems(1)], of "[c]"] Cons.prems(2) by (auto simp: gives_def)
  have "split_token alloc InQuotes (concat (map escaped (c # t)) @ QUOTE # rest) (Some s) =
      split_token alloc InQuotes (concat (map escaped t) @ QUOTE # rest) (Some s1)"
    using token_turn_escaped [of c "concat (map escaped t) @ QUOTE # rest"] s1(1)
    by (subst split_token.simps) (simp add: on_sds_def)
  then show ?case using Cons.IH [OF s1(2)] Cons.prems(2) s1(3) by simp
qed

lemma split_token_quoted:
  assumes "allocator_ok alloc" "never_fails alloc" "rest = [] \<or> isspace (hd rest)"
    "sds_ok s" "content s = []" "length t < 2 ^ 32"
  shows "\<exists>s'. split_token alloc Unquoted (quoted_text t @ rest) (Some s) = Some (Inr (rest, Some s')) \<and>
    sds_ok s' \<and> content s' = t"
proof -
  have "token_turn Unquoted (quoted_text t @ rest) = Some (InQuotes, [], concat (map escaped t) @ QUOTE # rest, False)"
    by (simp add: token_turn.simps(3) quoted_text_def)
  then have "split_token alloc Unquoted (quoted_text t @ rest) (Some s) =
      split_token alloc InQuotes (concat (map escaped t) @ QUOTE # rest) (Some s)"
    by (subst split_token.simps) simp
  then show ?thesis using split_token_quotes [OF assms(1-4), of t] assms(5,6) by simp
qed

fun quoted_line :: "string list \<Rightarrow> string" where
  "quoted_line [] = []"
| "quoted_line [a] = quoted_text a"
| "quoted_line (a # b # args) = quoted_text a @ CHR '' '' # quoted_line (b # args)"

lemma quoted_line_Cons:
  "\<exists>rest. quoted_line (a # args) = quoted_text a @ rest \<and> (rest = [] \<or> isspace (hd rest)) \<and> skip_blanks rest = quoted_line args"
proof (cases args)
  case Nil
  then show ?thesis by (simp add: skip_blanks_def)
next
  case (Cons b args')
  have "skip_blanks (quoted_line (b # args')) = quoted_line (b # args')"
    by (cases args') (simp_all add: skip_blanks_def quoted_text_def isspace_def char_code_def)
  then show ?thesis using Cons by (auto simp: skip_blanks_def isspace_def char_code_def)
qed

definition token_is :: "string \<Rightarrow> sds option \<Rightarrow> bool" where
  "token_is t x \<longleftrightarrow> (\<exists>s. x = Some s \<and> sds_ok s \<and> content s = t)"

lemma split_args_quoted:
  assumes "allocator_ok alloc" "never_fails alloc" "\<forall>a\<in>set args. length a < 2 ^ 32" "skip_blanks line = quoted_line args"
  shows "\<exists>v. split_args alloc line vector = Some (Some (vector @ v), length vector + length args) \<and> list_all2 token_is args v"
  using assms(3,4)
proof (induction args arbitrary: line vector)
  case Nil
  have "alloc 8 \<noteq> None" using assms(2) by (simp add: never_fails_def)
  then show ?case using Nil by (subst split_args.simps) simp
next
  case (Cons a args)
  obtain rest where rest: "quoted_line (a # args) = quoted_text a @ rest" "rest = [] \<or> isspace (hd rest)" "skip_blanks rest = quoted_line args"
    using quoted_line_Cons by blast
  obtain e where e: "sdsempty alloc = Some (Some e)" "sds_ok e" "content e = []"
    using returns_gives [OF assms(2) sdsempty_ok [OF assms(1)]] by (auto simp: gives_def)
  obtain s where s: "split_token alloc Unquoted (quoted_text a @ rest) (Some e) = Some (Inr (rest, Some s))" "token_is a (Some s)"
    using split_token_quoted [OF assms(1,2) rest(2) e(2,3), of a] Cons.prems(1) by (auto simp: token_is_def)
  obtain m where m: "alloc (8 * (length vector + 1)) = Some m" using assms(2) by (auto simp: never_fails_def)
  have "split_args alloc line vector = split_args alloc rest (vector @ [Some s])"
  proof -
    have "peek (quoted_text a @ rest) 0 \<noteq> NUL" by (simp add: quoted_text_def)
    then show ?thesis
      unfolding split_args.simps [of alloc line] Let_def Cons.prems(2) rest(1)
      using e(1) s(1) m by (simp del: mult_Suc_right)
  qed
  moreover obtain v where "split_args alloc rest (vector @ [Some s]) = Some (Some ((vector @ [Some s]) @ v), length (vector @ [Some s]) + length args)"
      "list_all2 token_is args v"
    using Cons.IH [OF _ rest(3), of "vector @ [Some s]"] Cons.prems(1) by auto
  ultimately show ?case using s(2) by (intro exI [of _ "Some s # v"]) simp
qed

section \<open>Joining\<close>

fun joined :: "string \<Rightarrow> string list \<Rightarrow> string" where
  "joined sep [] = []"
| "joined sep [t] = t"
| "joined sep (t # u # ts) = t @ sep @ joined sep (u # ts)"

lemma join_loop_gives:
  assumes "gives u r" "length u + length (joined sep (map f argv)) < 2 ^ 31"
    "\<And>u r. gives u r \<Longrightarrow> length u < 2 ^ 31 \<Longrightarrow> gives (u @ sep) (cat_sep sep r)"
    "\<And>u r x. gives u r \<Longrightarrow> length u < 2 ^ 31 \<Longrightarrow> x \<in> set argv \<Longrightarrow> gives (u @ f x) (cat_arg x r)"
  shows "gives (u @ joined sep (map f argv)) (join_loop cat_sep cat_arg sep argv r)"
  using assms(1,2,4)
proof (induction argv arbitrary: u r)
  case (Cons x argv)
  have x: "gives (u @ f x) (cat_arg x r)" using Cons.prems by simp
  show ?case
  proof (cases argv)
    case Nil
    then show ?thesis using x by simp
  next
    case (Cons y ys)
    have "gives ((u @ f x) @ sep) (cat_sep sep (cat_arg x r))"
      by (rule assms(3) [OF x]) (use Cons.prems(2) Cons in simp)
    from Cons.IH [OF this] show ?thesis using Cons.prems(2,3) Cons by simp
  qed
qed simp

lemma quoted_line_joined: "quoted_line args = joined '' '' (map quoted_text args)"
  by (induction args rule: quoted_line.induct) simp_all

lemma length_quoted_line: "length (quoted_line args) \<le> 4 * sum_list (map length args) + 3 * length args"
proof (induction args rule: quoted_line.induct)
  case (2 a)
  then show ?case using length_quoted [of a] by simp
next
  case (3 a b args)
  then show ?case using length_quoted [of a] by simp
qed simp

text \<open>The line that holds the quoted forms of the arguments, with a space between them.\<close>

definition repr_line :: "allocator \<Rightarrow> string list \<Rightarrow> sds option option" where
  "repr_line alloc args =
     join_loop (\<lambda>t. on_sds (sdscatlen alloc t)) (\<lambda>p. on_sds (sdscatrepr alloc p)) '' '' args (sdsempty alloc)"

text \<open>C39: What \<open>sdscatrepr\<close> writes, \<open>sdssplitargs\<close> reads: for every list of byte strings, with quotes, backslashes,
  control characters, terminators and bytes above 127 in any order, the line that holds their quoted forms
  is split into exactly these strings, in order, and their number is stored.  The allocator does not fail, because
  neither function tests the result of its appends for the null pointer; the line is shorter than \<open>2 ^ 29\<close> bytes.\<close>

theorem repr_split_roundtrip:
  assumes "allocator_ok alloc" "never_fails alloc" "4 * sum_list (map length args) + 3 * length args < 2 ^ 29"
  shows "\<exists>line v. repr_line alloc args = Some (Some line) \<and> sds_ok line \<and>
    sdssplitargs alloc (content line) = Some (Some v, length args) \<and> list_all2 token_is args v"
proof -
  have each: "\<forall>a\<in>set args. length a < 2 ^ 29"
    using assms(3) member_le_sum_list [of _ "map length args"] by fastforce
  have "gives ([] @ joined '' '' (map quoted_text args)) (repr_line alloc args)"
    unfolding repr_line_def
  proof (rule join_loop_gives)
    show "gives [] (sdsempty alloc)" by (rule returns_gives [OF assms(2) sdsempty_ok [OF assms(1)]])
    show "length [] + length (joined '' '' (map quoted_text args)) < 2 ^ 31"
      using length_quoted_line [of args] assms(3) by (simp add: quoted_line_joined)
  qed (use catlen_gives [OF assms(1,2)] catrepr_gives [OF assms(1,2)] each in auto)
  then obtain line where line: "repr_line alloc args = Some (Some line)" "sds_ok line" "content line = quoted_line args"
    by (auto simp: gives_def quoted_line_joined)
  have start: "skip_blanks (quoted_line args) = quoted_line args"
    by (cases args rule: quoted_line.cases) (simp_all add: skip_blanks_def quoted_text_def isspace_def char_code_def)
  have "\<forall>a\<in>set args. length a < 2 ^ 32" using each by fastforce
  from split_args_quoted [OF assms(1,2) this start, of "[]"] line show ?thesis by (auto simp: sdssplitargs_def)
qed

theorem repr_split_roundtrip_witness:
  "\<exists>line v. repr_line (\<lambda>n. Some (replicate n CHR ''?'')) [''SET'', [], ''a '' @ [QUOTE, BACKSLASH, NUL, LF, CHR 0xFF]] = Some (Some line) \<and>
    sds_ok line \<and>
    sdssplitargs (\<lambda>n. Some (replicate n CHR ''?'')) (content line) =
      Some (Some v, length [''SET'', [], ''a '' @ [QUOTE, BACKSLASH, NUL, LF, CHR 0xFF]]) \<and>
    list_all2 token_is [''SET'', [], ''a '' @ [QUOTE, BACKSLASH, NUL, LF, CHR 0xFF]] v"
  by (rule repr_split_roundtrip) (simp_all add: allocator_ok_def never_fails_def)

section \<open>Splitting\<close>

definition contains_text :: "string \<Rightarrow> string \<Rightarrow> bool" where
  "contains_text sep t \<longleftrightarrow> (\<exists>i. take (length sep) (drop i t) = sep \<and> i + length sep \<le> length t)"

lemma separator_at_iff:
  assumes "j + length sep \<le> length s" "sep \<noteq> []"
  shows "separator_at s sep j \<longleftrightarrow> take (length sep) (drop j s) = sep"
proof (cases "length sep = 1")
  case True
  then obtain c where "sep = [c]" by (cases sep) auto
  then show ?thesis using assms by (simp add: separator_at_def take_Suc hd_drop_conv_nth)
qed (simp add: separator_at_def)

lemma newlen_prefix:
  assumes "n \<le> length bs" "n < 2 ^ 32"
  shows "sdsnewlen alloc (Some bs) (of_nat n) = sdsnewlen alloc (Some (take n bs)) (of_nat n)"
proof -
  have "unat (of_nat n :: u64) = n" using assms(2) by (simp add: unat_of_nat_small)
  then have r: "mem_read 0 (unat (of_nat n :: u64)) bs = mem_read 0 (unat (of_nat n :: u64)) (take n bs)"
    using assms(1) by (simp add: mem_read_def)
  show ?thesis by (simp only: sdsnewlen_def Let_def option.case r)
qed

lemma newlen_piece:
  assumes "allocator_ok alloc" "start \<le> j" "j \<le> length s" "length s < 2 ^ 32"
  shows "returns alloc (take (j - start) (drop start s)) (sdsnewlen alloc (Some (drop start s)) (of_nat (j - start)))"
proof -
  have n: "j - start \<le> length (drop start s)" "j - start < 2 ^ 32" using assms(3,4) by simp_all
  have e: "length (take (j - start) (drop start s)) = j - start" using n(1) by simp
  show ?thesis
    unfolding newlen_prefix [OF n] using sdsnewlen_ok [OF assms(1), of "take (j - start) (drop start s)"] n(2) unfolding e by simp
qed

lemma no_separator_inside:
  assumes "\<And>i. start \<le> i \<Longrightarrow> i < j \<Longrightarrow> take (length sep) (drop i s) \<noteq> sep" "start \<le> j" "sep \<noteq> []"
  shows "\<not> contains_text sep (take (j - start) (drop start s))"
proof
  assume "contains_text sep (take (j - start) (drop start s))"
  then obtain i where i: "take (length sep) (drop i (take (j - start) (drop start s))) = sep"
      "i + length sep \<le> length (take (j - start) (drop start s))" by (auto simp: contains_text_def)
  have "i + length sep \<le> j - start" using i(2) by simp
  then have "take (length sep) (drop i (take (j - start) (drop start s))) = take (length sep) (drop (start + i) s)"
    by (simp add: drop_take min_def add.commute)
  moreover have "start + i < j" using \<open>i + length sep \<le> j - start\<close> assms(3) by (cases sep) auto
  ultimately show False using assms(1) [of "start + i"] i(1) by simp
qed

text \<open>The tokens found from \<open>start\<close> on, each with the separator behind it, and the last one.\<close>

definition pieces :: "string \<Rightarrow> string \<Rightarrow> nat \<Rightarrow> sds list \<Rightarrow> nat \<Rightarrow> bool" where
  "pieces s sep start new start' \<longleftrightarrow> start' \<le> length s \<and>
     concat (map (\<lambda>t. content t @ sep) new) @ drop start' s = drop start s \<and>
     (\<forall>t\<in>set new. sds_ok t \<and> \<not> contains_text sep (content t)) \<and> \<not> contains_text sep (drop start' s)"

lemma grow_slots_ok:
  assumes "elements + 2 < 2 ^ 30"
  shows "grow_slots alloc elements slots = Some None \<and> \<not> never_fails alloc \<or>
    (\<exists>slots'. grow_slots alloc elements slots = Some (Some slots'))"
  using assms by (auto simp: grow_slots_def never_fails_def)

lemma split_loop_ok:
  assumes "allocator_ok alloc" "sep \<noteq> []" "length s < 2 ^ 29" "start \<le> j" "j \<le> length s" "length tokens \<le> start"
    "\<And>i. start \<le> i \<Longrightarrow> i < j \<Longrightarrow> take (length sep) (drop i s) \<noteq> sep"
  shows "split_loop alloc s sep j start tokens slots = Some None \<and> \<not> never_fails alloc \<or>
    (\<exists>new start'. split_loop alloc s sep j start tokens slots = Some (Some (tokens @ new, start')) \<and> pieces s sep start new start')"
  using assms(4-7)
proof (induction "length s - j" arbitrary: j start tokens slots rule: less_induct)
  case less
  have l: "0 < length sep" using assms(2) by simp
  show ?case
  proof (cases "j < length s - (length sep - 1)")
    case False
    have "take (length sep) (drop i s) \<noteq> sep" if "start \<le> i" "i + length sep \<le> length s" for i
      using less.prems(4) that False l by (cases "i < j") auto
    then have "\<not> contains_text sep (drop start s)"
      using less.prems(1,2) by (auto simp: contains_text_def add.commute)
    then have "pieces s sep start [] start" using less.prems by (simp add: pieces_def)
    moreover have "split_loop alloc s sep j start tokens slots = Some (Some (tokens @ [], start))"
      using False by (subst split_loop.simps) simp
    ultimately show ?thesis by blast
  next
    case True
    then have jl: "j + length sep \<le> length s" using l by simp
    have "length tokens + 2 < 2 ^ 30" using less.prems(1-3) assms(3) by simp
    from grow_slots_ok [OF this, of alloc slots] show ?thesis
    proof (elim disjE exE conjE)
      assume "grow_slots alloc (length tokens) slots = Some None" "\<not> never_fails alloc"
      then show ?thesis using True by (subst split_loop.simps) simp
    next
      fix slots' assume g: "grow_slots alloc (length tokens) slots = Some (Some slots')"
      show ?thesis
      proof (cases "separator_at s sep j")
        case False
        have "\<And>i. start \<le> i \<Longrightarrow> i < Suc j \<Longrightarrow> take (length sep) (drop i s) \<noteq> sep"
          using less.prems(4) False separator_at_iff [OF jl assms(2)] by (metis less_antisym)
        then show ?thesis
          using less.hyps [of "Suc j" start tokens slots'] less.prems True g False
          by (subst split_loop.simps, subst (2) split_loop.simps) simp
      next
        case sep: True
        define t where "t = take (j - start) (drop start s)"
        have at: "take (length sep) (drop j s) = sep" using sep separator_at_iff [OF jl assms(2)] by simp
        have "returns alloc t (sdsnewlen alloc (Some (drop start s)) (of_nat (j - start)))"
          unfolding t_def by (rule newlen_piece [OF assms(1) less.prems(1,2)]) (use assms(3) in simp)
        then show ?thesis unfolding returns_def
        proof (elim disjE exE conjE)
          assume "sdsnewlen alloc (Some (drop start s)) (of_nat (j - start)) = Some None" "\<not> never_fails alloc"
          then show ?thesis using True g sep by (subst split_loop.simps) simp
        next
          fix x assume x: "sdsnewlen alloc (Some (drop start s)) (of_nat (j - start)) = Some (Some x)" "sds_ok x" "content x = t"
          have nt: "\<not> contains_text sep t"
            unfolding t_def by (rule no_separator_inside [OF less.prems(4,1) assms(2)])
          have e: "split_loop alloc s sep j start tokens slots =
              split_loop alloc s sep (j + length sep) (j + length sep) (tokens @ [x]) slots'"
          proof -
            have k: "j + (length sep - 1) + 1 = j + length sep" using l by linarith
            show ?thesis unfolding split_loop.simps [of alloc s sep j start tokens slots] if_P [OF True] g k using x(1) sep by simp
          qed
          have d: "t @ sep @ drop (j + length sep) s = drop start s"
          proof -
            have "drop j s = sep @ drop (j + length sep) s"
              using append_take_drop_id [of "length sep" "drop j s"] at by (simp add: add.commute)
            moreover have "drop start s = t @ drop j s"
              using append_take_drop_id [of "j - start" "drop start s"] less.prems(1) by (simp add: t_def)
            ultimately show ?thesis by simp
          qed
          have "split_loop alloc s sep (j + length sep) (j + length sep) (tokens @ [x]) slots' = Some None \<and> \<not> never_fails alloc \<or>
            (\<exists>new start'. split_loop alloc s sep (j + length sep) (j + length sep) (tokens @ [x]) slots' =
               Some (Some ((tokens @ [x]) @ new, start')) \<and> pieces s sep (j + length sep) new start')"
          proof (rule less.hyps)
            show "length s - (j + length sep) < length s - j" using jl l by linarith
            have "length tokens < j + length sep" using less.prems(1,3) l by linarith
            then show "length (tokens @ [x]) \<le> j + length sep" by simp
          qed (use jl in auto)
          then show ?thesis
          proof (elim disjE exE conjE)
            fix new start' assume n: "split_loop alloc s sep (j + length sep) (j + length sep) (tokens @ [x]) slots' =
               Some (Some ((tokens @ [x]) @ new, start'))" "pieces s sep (j + length sep) new start'"
            have "pieces s sep start (x # new) start'"
              using n(2) nt x(2,3) d by (auto simp: pieces_def)
            then show ?thesis using n(1) by (intro disjI2 exI [of _ "x # new"] exI [of _ start']) (simp add: e)
          qed (simp add: e)
        qed
      qed
    qed
  qed
qed

lemma joined_pieces: "joined sep (map content (new @ [t])) = concat (map (\<lambda>t. content t @ sep) new) @ content t"
proof (induction new)
  case (Cons x new)
  then show ?case by (cases new) simp_all
qed simp

lemma joinsds_gives:
  assumes "allocator_ok alloc" "never_fails alloc" "\<forall>t\<in>set argv. sds_ok t" "length (joined sep (map content argv)) < 2 ^ 31"
    "length sep < 2 ^ 31" "\<forall>t\<in>set argv. length (content t) < 2 ^ 31"
  shows "gives (joined sep (map content argv)) (sdsjoinsds alloc argv sep)"
proof -
  have "gives ([] @ joined sep (map content argv)) (sdsjoinsds alloc argv sep)"
    unfolding sdsjoinsds_def
  proof (rule join_loop_gives)
    show "gives [] (sdsempty alloc)" by (rule returns_gives [OF assms(2) sdsempty_ok [OF assms(1)]])
    show "gives (u @ sep) (on_sds (sdscatlen alloc sep) r)" if "gives u r" "length u < 2 ^ 31" for u r
      by (rule catlen_gives [OF assms(1,2) that(1)]) (use that(2) assms(5) in simp_all)
    show "gives (u @ content x) (on_sds (sdscatsds alloc x) r)" if "gives u r" "length u < 2 ^ 31" "x \<in> set argv" for u r x
    proof -
      have "mem_read 0 (unat (sdslen x)) (s_mem x) = Some (content x)"
        using sds_len_mem [of x] assms(3) that(3) by (simp add: mem_read_def sdslen_def content_def)
      then have "sdscatsds alloc x = sdscatlen alloc (content x)" by (auto simp: sdscatsds_def)
      moreover have "length (content x) < 2 ^ 62" using assms(6) that(3) by fastforce
      ultimately show ?thesis using catlen_gives [OF assms(1,2) that(1), of "content x"] that(2) by simp
    qed
  qed (use assms(4) in simp)
  then show ?thesis by simp
qed

lemma sdssplitlen_ok:
  assumes "allocator_ok alloc" "sep \<noteq> []" "s \<noteq> []" "length s < 2 ^ 29"
  shows "(\<exists>c. sdssplitlen alloc s sep = Some (None, c)) \<and> \<not> never_fails alloc \<or>
    (\<exists>ts. sdssplitlen alloc s sep = Some (Some ts, Some (length ts)) \<and>
       (\<forall>t\<in>set ts. sds_ok t \<and> \<not> contains_text sep (content t)) \<and> joined sep (map content ts) = s)"
proof (cases "alloc (8 * 5)")
  case None
  then show ?thesis using assms(2) by (cases sep) (auto simp: sdssplitlen_def never_fails_def)
next
  case (Some m)
  have e: "sdssplitlen alloc s sep = Option.bind (split_loop alloc s sep 0 0 [] 5) (\<lambda>r.
      case r of None \<Rightarrow> Some (None, Some 0)
      | Some (tokens, start) \<Rightarrow> map_option (\<lambda>t. case t of None \<Rightarrow> (None, Some 0)
          | Some t \<Rightarrow> (Some (tokens @ [t]), Some (length tokens + 1)))
          (sdsnewlen alloc (Some (drop start s)) (of_nat (length s - start))))"
    using Some assms(2,3) by (cases sep) (simp_all add: sdssplitlen_def)
  have "split_loop alloc s sep 0 0 [] 5 = Some None \<and> \<not> never_fails alloc \<or>
      (\<exists>new start'. split_loop alloc s sep 0 0 [] 5 = Some (Some ([] @ new, start')) \<and> pieces s sep 0 new start')"
    by (rule split_loop_ok [OF assms(1,2,4)]) simp_all
  then show ?thesis
  proof (elim disjE exE conjE)
    fix new start' assume n: "split_loop alloc s sep 0 0 [] 5 = Some (Some ([] @ new, start'))" "pieces s sep 0 new start'"
    have "start' \<le> length s" using n(2) by (simp add: pieces_def)
    from newlen_piece [OF assms(1) this order_refl] assms(4)
    have "returns alloc (drop start' s) (sdsnewlen alloc (Some (drop start' s)) (of_nat (length s - start')))" by simp
    then show ?thesis unfolding returns_def
    proof (elim disjE exE conjE)
      fix t assume t: "sdsnewlen alloc (Some (drop start' s)) (of_nat (length s - start')) = Some (Some t)" "sds_ok t" "content t = drop start' s"
      have "joined sep (map content (new @ [t])) = s"
        using n(2) t(3) unfolding joined_pieces by (simp add: pieces_def)
      then show ?thesis using n t by (intro disjI2 exI [of _ "new @ [t]"]) (auto simp: e pieces_def)
    qed (simp add: e n(1))
  qed (simp add: e)
qed

lemma length_joined: "t \<in> set ts \<Longrightarrow> length t \<le> length (joined sep ts)"
  by (induction sep ts rule: joined.induct) auto



section \<open>Comparison\<close>

text \<open>The order of \<open>sdscmp\<close> is the lexicographic one on unsigned bytes.\<close>

definition bytes_less :: "string \<Rightarrow> string \<Rightarrow> bool" where
  "bytes_less a b \<longleftrightarrow> (a, b) \<in> lexord {(c, d). char_code c < char_code d}"

lemma memcmp_prefix:
  "memcmp_sign (take (min (length a) (length b)) a) (take (min (length a) (length b)) b) =
    (if take (min (length a) (length b)) a = take (min (length a) (length b)) b then 0
     else if bytes_less a b then -1 else 1)"
proof (induction a b rule: memcmp_sign.induct)
  case (1 x xs y ys)
  then show ?case using char_code_eq_iff [of x y] by (auto simp: bytes_less_def)
qed simp_all

lemma bytes_less_prefix:
  "take (min (length a) (length b)) a = take (min (length a) (length b)) b \<Longrightarrow>
    (bytes_less a b \<longleftrightarrow> length a < length b) \<and> (a = b \<longleftrightarrow> length a = length b)"
proof (induction a b rule: memcmp_sign.induct, goal_cases)
  case (2 ys)
  then show ?case by (cases ys) (simp_all add: bytes_less_def)
qed (simp_all add: bytes_less_def)

lemma sdscmp_order:
  assumes "sds_ok s" "sds_ok t" "length (content s) < 2 ^ 31" "length (content t) < 2 ^ 31"
  shows "\<exists>k. sdscmp s t = Some k \<and> (k < 0 \<longleftrightarrow> bytes_less (content s) (content t)) \<and> (k = 0 \<longleftrightarrow> content s = content t)"
proof -
  define m where "m = min (length (content s)) (length (content t))"
  have l: "unat (s_len s) = length (content s)" "unat (s_len t) = length (content t)"
    by (simp_all add: length_content [OF sds_ok_open] assms(1,2))
  have m: "unat (if s_len s < s_len t then s_len s else s_len t) = m"
    by (auto simp: m_def l word_less_nat_alt)
  have rd: "mem_read 0 m (s_mem s) = Some (take m (content s))" "mem_read 0 m (s_mem t) = Some (take m (content t))"
  proof -
    have "take m (content r) = take m (s_mem r)" "m \<le> length (s_mem r)" if "m \<le> unat (s_len r)" "sds_ok r" for r
      using that sds_len_mem [OF that(2)] by (simp_all add: content_def min_def)
    then show "mem_read 0 m (s_mem s) = Some (take m (content s))" "mem_read 0 m (s_mem t) = Some (take m (content t))"
      using assms(1,2) by (simp_all add: mem_read_def m_def l)
  qed
  define d where "d = int (length (content s)) - int (length (content t))"
  have d: "sint (ucast (s_len s - s_len t) :: 32 word) = d"
  proof -
    have "s_len s - s_len t = of_int d"
      unfolding d_def by (simp add: l [symmetric])
    moreover have "(ucast (of_int d :: u64) :: 32 word) = of_int d"
      by (rule bit_word_eqI) (simp add: bit_unsigned_iff bit_word_of_int_iff)
    moreover have "- (2 ^ 31) \<le> d" "d < 2 ^ 31" using assms(3,4) by (simp_all add: d_def)
    ultimately show ?thesis by (simp add: signed_of_int signed_take_bit_int_eq_self)
  qed
  define k where "k = (let cmp = memcmp_sign (take m (content s)) (take m (content t)) in if cmp = 0 then d else cmp)"
  have "sdscmp s t = Some k"
    unfolding sdscmp_def Let_def sdslen_def m rd by (simp add: d k_def Let_def)
  moreover have "(k < 0 \<longleftrightarrow> bytes_less (content s) (content t)) \<and> (k = 0 \<longleftrightarrow> content s = content t)"
  proof (cases "take m (content s) = take m (content t)")
    case True
    then have "k = d" using memcmp_prefix [of "content s" "content t"] by (simp add: k_def m_def [symmetric])
    moreover have "d < 0 \<longleftrightarrow> length (content s) < length (content t)" "d = 0 \<longleftrightarrow> length (content s) = length (content t)"
      unfolding d_def by linarith+
    ultimately show ?thesis using bytes_less_prefix [of "content s" "content t"] True by (simp add: m_def)
  next
    case False
    then show ?thesis using memcmp_prefix [of "content s" "content t"] by (auto simp: k_def m_def [symmetric])
  qed
  ultimately show ?thesis by blast
qed

end
