(* ===== verification/Config_Props.thy ===== *)
theory Config_Props
  imports Config_Parser
begin

text \<open>
  A configuration that is written and loaded again is the same configuration, and the defaults
  read as the code means them.
\<close>

section \<open>Lines of the file\<close>

lemma fgets_line: "LF \<notin> set l \<Longrightarrow> length l < n \<Longrightarrow> fgets n (l @ LF # rest) = (l @ [LF], rest)"
proof (induction l arbitrary: n)
  case Nil
  then show ?case by (cases n) simp_all
next
  case (Cons c l)
  then obtain m where "n = Suc m" by (cases n) auto
  then show ?case using Cons by auto
qed

definition line_ok :: "string \<Rightarrow> bool" where
  "line_ok l \<longleftrightarrow> LF \<notin> set l \<and> length l \<le> 198"

lemma ini_lines_line: "line_ok l \<Longrightarrow> ini_lines (l @ LF # rest) s = ini_lines rest (ini_line (l @ [LF]) s)"
  by (subst ini_lines.simps) (simp add: fgets_line line_ok_def INI_MAX_LINE_def)

lemma ini_lines_concat:
  "list_all line_ok ls \<Longrightarrow>
     ini_lines (concat (map (\<lambda>l. l @ [LF]) ls) @ rest) s = ini_lines rest (fold (\<lambda>l. ini_line (l @ [LF])) ls s)"
  by (induction ls arbitrary: s) (simp_all add: ini_lines_line)

lemma ini_lines_Nil [simp]: "ini_lines [] s = s"
  by (subst ini_lines.simps) simp

definition header_lines :: "string list" where
  "header_lines =
     [''# ENABLE_PACKET_FILTER '', ''# CAN_FILTER_<ID>=1'', ''# DISABLE_PACKET_FILTER=0'', ''# CAN_FILTER_<ID>=0'',
      ''# AUTO_TYPE_CONVERSION '', ''# CAN_CONVERSION_<ID>=INT'', ''# CAN_CONVERSION_<ID>=STR'',
      ''# CAN_CONVERSION_<ID>=BOOL'', ''# CAN_CONVERSION_<ID>=BYTE'', [], [], ''[SETTINGS]'']"

lemma ini_header_lines: "ini_header = concat (map (\<lambda>l. l @ [LF]) header_lines)"
  by (simp add: ini_header_def INIFILE_COMMENTS_def INI_SETTINGS_CATEGORY_TOKEN_def header_lines_def)

definition start_state :: ini_state where
  "start_state = \<lparr>i_section = [], i_prev_name = [], i_lineno = 0, i_error = 0, i_reader = ini_empty\<rparr>"

definition body_state :: ini_state where
  "body_state = \<lparr>i_section = INI_SETTINGS_CATEGORY_TOKEN, i_prev_name = [], i_lineno = 12, i_error = 0, i_reader = ini_empty\<rparr>"

lemma header_lines_ok: "list_all line_ok header_lines"
  by code_simp

lemma header_parsed: "fold (\<lambda>l. ini_line (l @ [LF])) header_lines start_state = body_state"
  by code_simp

section \<open>Settings\<close>

text \<open>A value that survives: one line, no white space around it, and no inline comment in it.\<close>

definition plain_value :: "string \<Rightarrow> bool" where
  "plain_value v \<longleftrightarrow>
     NUL \<notin> set v \<and> LF \<notin> set v \<and> rstrip v = v \<and> lskip v = v \<and> find_chars_or_comment None False v = (v, [])"

definition name_ok :: "string \<Rightarrow> bool" where
  "name_ok n \<longleftrightarrow> n \<noteq> [] \<and> list_all (\<lambda>c. 48 \<le> char_code c \<and> char_code c \<le> 95 \<and> c \<notin> set '':;=['') n"

definition setting_ok :: "CFG_ENTRY \<times> string \<Rightarrow> bool" where
  "setting_ok ev \<longleftrightarrow> plain_value (snd ev) \<and> length (enum_name (fst ev)) + 1 + length (snd ev) \<le> 198"

lemma enum_name_ok: "name_ok (enum_name e)"
proof -
  have "list_all (\<lambda>e. name_ok (enum_name e)) entries" by code_simp
  moreover have "e \<in> set entries" by (cases e) (simp_all add: entries_def)
  ultimately show ?thesis by (simp add: list_all_iff)
qed

lemma set_entries [simp]: "e \<in> set entries"
  by (cases e) (simp_all add: entries_def)

lemma keys_distinct: "distinct (map (\<lambda>e. MakeKey INI_SETTINGS_CATEGORY_TOKEN (enum_name e)) entries)"
  by code_simp

lemma key_inj: "MakeKey INI_SETTINGS_CATEGORY_TOKEN (enum_name a) = MakeKey INI_SETTINGS_CATEGORY_TOKEN (enum_name b) \<longleftrightarrow> a = b"
  using keys_distinct by (auto simp: distinct_map inj_on_def)

lemma name_char:
  assumes "name_ok n" "c \<in> set n"
  shows "\<not> isspace c" "c \<noteq> NUL" "c \<noteq> LF" "c \<notin> set ''=:''" "c \<noteq> CHR '';''" "c \<noteq> CHR ''#''" "c \<noteq> CHR ''[''" "c \<noteq> CHR 0xEF"
proof -
  have b: "48 \<le> char_code c" "char_code c \<le> 95" and n: "c \<notin> set '':;=[''"
    using assms unfolding name_ok_def list_all_iff by blast+
  show "\<not> isspace c" using b by (simp add: isspace_def)
  show "c \<noteq> NUL" "c \<noteq> LF" "c \<noteq> CHR ''#''" "c \<noteq> CHR 0xEF" using b by (auto simp: char_code_def)
  show "c \<notin> set ''=:''" "c \<noteq> CHR '';''" "c \<noteq> CHR ''[''" using n by simp_all
qed

lemma find_name:
  "(\<forall>c \<in> set n. c \<notin> set ''=:'' \<and> c \<noteq> CHR '';'') \<Longrightarrow>
     find_chars_or_comment (Some ''=:'') sp (n @ CHR ''='' # v) = (n, CHR ''='' # v)"
  by (induction n arbitrary: sp) auto

lemma rstrip_append: "v \<noteq> [] \<Longrightarrow> rstrip (u @ v) = (if rstrip v = [] then rstrip u else u @ rstrip v)"
  by (simp add: rstrip_def dropWhile_append)

lemma entry_line_text:
  assumes "name_ok n" "plain_value v"
  shows "rstrip (n @ CHR ''='' # v @ [LF]) = n @ CHR ''='' # v"
proof -
  have "rstrip (n @ CHR ''='' # v @ [LF]) = rstrip (n @ CHR ''='' # v)"
    by (simp add: rstrip_def isspace_def char_code_def)
  also have "\<dots> = n @ CHR ''='' # v"
  proof (cases "v = []")
    case True
    then show ?thesis by (simp add: rstrip_def isspace_def char_code_def)
  next
    case False
    have "rstrip ((n @ [CHR ''='']) @ v) = (n @ [CHR ''='']) @ v"
      using False assms(2) by (subst rstrip_append) (auto simp: plain_value_def)
    then show ?thesis by simp
  qed
  finally show ?thesis .
qed

lemma ini_entry_line:
  assumes n: "name_ok n" and v: "plain_value v" and s: "0 < i_lineno s"
  shows "ini_line (n @ CHR ''='' # v @ [LF]) s =
    s\<lparr>i_lineno := Suc (i_lineno s), i_prev_name := strncpy0 n MAX_NAME,
      i_reader := ValueHandler (i_section s) n v (i_reader s)\<rparr>"
proof -
  obtain c cs where c: "n = c # cs" using n by (cases n) (auto simp: name_ok_def)
  note ch = name_char [OF n]
  have c1: "\<not> isspace c" "c \<noteq> CHR '';''" "c \<noteq> CHR ''#''" "c \<noteq> CHR ''[''" using ch c by auto
  have nul: "takeWhile (\<lambda>c. c \<noteq> NUL) (n @ CHR ''='' # v @ [LF]) = n @ CHR ''='' # v @ [LF]"
    using ch(2) v by (subst takeWhile_eq_all_conv) (auto simp: plain_value_def)
  have find: "find_chars_or_comment (Some ''=:'') False (n @ CHR ''='' # v) = (n, CHR ''='' # v)"
    by (rule find_name) (use ch(4,5) in blast)
  have rn: "rstrip n = n"
  proof -
    have "hd (rev n) \<in> set n" using hd_in_set [of "rev n"] by (simp add: c)
    then have "dropWhile isspace (rev n) = rev n" using ch(1) by (simp add: dropWhile_eq_self_iff)
    then show ?thesis by (simp add: rstrip_def)
  qed
  have skip: "lskip (n @ CHR ''='' # v) = n @ CHR ''='' # v"
    using c1 by (simp add: lskip_def c)
  have pair: "ini_pair (n @ CHR ''='' # v) t =
      t\<lparr>i_prev_name := strncpy0 n MAX_NAME, i_reader := ValueHandler (i_section t) n v (i_reader t)\<rparr>" for t
    using v by (simp only: ini_pair_def find prod.case list.case rn) (simp add: plain_value_def Let_def)
  have cons: "n @ CHR ''='' # v = c # cs @ CHR ''='' # v" by (simp add: c)
  show ?thesis
    unfolding ini_line_def Let_def nul
    using s c1 pair [unfolded cons]
    by (simp add: entry_line_text [OF n v, unfolded cons] skip [unfolded cons])
qed

section \<open>Loading what was written\<close>

definition handled :: "(CFG_ENTRY \<times> string) list \<Rightarrow> ini_reader \<Rightarrow> ini_reader" where
  "handled evs r = fold (\<lambda>(e, v). ValueHandler INI_SETTINGS_CATEGORY_TOKEN (enum_name e) v) evs r"

lemma value_handler_find:
  assumes "map_find (ini_values r) (MakeKey sect name) = None"
  shows "map_find (ini_values (ValueHandler sect name v r)) k =
    (if k = MakeKey sect name then Some v else map_find (ini_values r) k)"
  using assms by (simp add: ValueHandler_def value_at_def Let_def)

lemma handled_find:
  assumes "distinct (map fst evs)"
    "\<forall>e \<in> fst ` set evs. map_find (ini_values r) (MakeKey INI_SETTINGS_CATEGORY_TOKEN (enum_name e)) = None"
  shows "map_find (ini_values (handled evs r)) (MakeKey INI_SETTINGS_CATEGORY_TOKEN (enum_name e)) =
    (case map_of evs e of Some v \<Rightarrow> Some v | None \<Rightarrow> map_find (ini_values r) (MakeKey INI_SETTINGS_CATEGORY_TOKEN (enum_name e)))"
  using assms
proof (induction evs arbitrary: r)
  case Nil
  then show ?case by (simp add: handled_def)
next
  case (Cons ev evs)
  obtain a v where ev: "ev = (a, v)" by fastforce
  let ?r = "ValueHandler INI_SETTINGS_CATEGORY_TOKEN (enum_name a) v r"
  have fresh: "map_find (ini_values r) (MakeKey INI_SETTINGS_CATEGORY_TOKEN (enum_name a)) = None"
    using Cons.prems(2) ev by simp
  have "map_find (ini_values (handled evs ?r)) (MakeKey INI_SETTINGS_CATEGORY_TOKEN (enum_name e)) =
      (case map_of evs e of Some v \<Rightarrow> Some v | None \<Rightarrow> map_find (ini_values ?r) (MakeKey INI_SETTINGS_CATEGORY_TOKEN (enum_name e)))"
    by (rule Cons.IH) (use Cons.prems ev in \<open>auto simp: value_handler_find [OF fresh] key_inj image_iff\<close>)
  moreover have "map_of evs a = None"
    using Cons.prems(1) ev by (simp add: map_of_eq_None_iff)
  moreover have "handled (ev # evs) r = handled evs ?r" by (simp add: handled_def ev)
  ultimately show ?case
    by (auto simp: ev value_handler_find [OF fresh] key_inj split: option.split)
qed

lemma ini_lines_entries:
  assumes "list_all setting_ok evs" "0 < i_lineno s" "i_section s = INI_SETTINGS_CATEGORY_TOKEN" "i_error s = 0"
  shows "\<exists>t. ini_lines (concat (map entry_line evs)) s = t \<and> i_error t = 0 \<and> i_reader t = handled evs (i_reader s)"
  using assms
proof (induction evs arbitrary: s)
  case Nil
  then show ?case by (simp add: handled_def)
next
  case (Cons ev evs)
  obtain e v where ev: "ev = (e, v)" by fastforce
  have v: "plain_value v" "length (enum_name e) + 1 + length v \<le> 198"
    using Cons.prems(1) ev by (simp_all add: setting_ok_def)
  have ln: "line_ok (enum_name e @ CHR ''='' # v)"
    using v name_char(3) [OF enum_name_ok, of _ e] by (auto simp: line_ok_def plain_value_def)
  let ?s = "ini_line (enum_name e @ CHR ''='' # v @ [LF]) s"
  have lay: "concat (map entry_line (ev # evs)) = (enum_name e @ CHR ''='' # v) @ LF # concat (map entry_line evs)"
    by (simp add: entry_line_def ev)
  have "ini_lines (concat (map entry_line (ev # evs))) s = ini_lines (concat (map entry_line evs)) ?s"
    unfolding lay using ini_lines_line [OF ln] by simp
  then show ?case
    using Cons.IH [of ?s] Cons.prems
    by (simp add: ini_entry_line [OF enum_name_ok v(1) Cons.prems(2)] handled_def ev)
qed

lemma ini_open_written:
  assumes "list_all setting_ok evs"
  shows "ini_error (ini_open (Some (ini_header @ concat (map entry_line evs)))) = 0 \<and>
    ini_values (ini_open (Some (ini_header @ concat (map entry_line evs)))) = ini_values (handled evs ini_empty)"
proof -
  have "ini_lines (ini_header @ concat (map entry_line evs)) start_state = ini_lines (concat (map entry_line evs)) body_state"
    unfolding ini_header_lines ini_lines_concat [OF header_lines_ok] header_parsed ..
  moreover obtain t where "ini_lines (concat (map entry_line evs)) body_state = t" "i_error t = 0"
      "i_reader t = handled evs (i_reader body_state)"
    using ini_lines_entries [OF assms, of body_state] by (auto simp: body_state_def)
  ultimately show ?thesis
    by (simp add: ini_open_def ini_parse_stream_def start_state_def [symmetric] body_state_def)
qed

lemma read_entries_values:
  "read_entries es c = (vs, c') \<Longrightarrow> vs = map (\<lambda>e. (e, fst (store_at_entry e c))) es"
proof (induction es arbitrary: vs c c')
  case (Cons e es)
  obtain v c1 where c1: "store_at_entry e c = (v, c1)" by fastforce
  obtain ws c2 where c2: "read_entries es c1 = (ws, c2)" by fastforce
  have "fst (store_at_entry a c1) = fst (store_at_entry a c)" for a
    using c1 by (auto simp: store_at_entry_def split: option.splits if_splits)
  then show ?case using Cons.IH [OF c2] Cons.prems c1 c2 by auto
qed simp

definition stored_value :: "CFG_ENTRY \<Rightarrow> config_parser \<Rightarrow> string" where
  "stored_value e c = fst (store_at_entry e c)"

definition settings_ok :: "config_parser \<Rightarrow> bool" where
  "settings_ok c \<longleftrightarrow> list_all (\<lambda>e. setting_ok (e, stored_value e c)) entries"

lemma cfg_put_fold:
  "map_find (config_store (fold (\<lambda>e c. cfg_put e (f (reader c) e) c) es c)) e =
     (if e \<in> set es then Some (f (reader c) e) else map_find (config_store c) e)"
  by (induction es arbitrary: c) (auto simp: cfg_put_def)

text \<open>C27: A configuration that is written to a file and loaded again, by whatever parser object, is the same:
  both operations succeed, and every entry reads as it was stored, for values of one line without surrounding
  white space, without an inline comment, and short enough for the 200 byte line buffer.\<close>

theorem config_file_roundtrip:
  assumes "writable fs path" "settings_ok c"
  shows "fst (writeConfigFile path (c, fs)) \<and>
    fst (loadConfigFile path (c', snd (snd (writeConfigFile path (c, fs))))) \<and>
    fst (cfg_get e (fst (snd (loadConfigFile path (c', snd (snd (writeConfigFile path (c, fs)))))))) = stored_value e c"
proof -
  obtain vs c1 where r: "read_entries entries c = (vs, c1)" by fastforce
  have vs: "vs = map (\<lambda>e. (e, stored_value e c)) entries"
    using read_entries_values [OF r] by (simp add: stored_value_def)
  have ok: "list_all setting_ok vs"
    using assms(2) by (simp add: vs settings_ok_def list_all_iff)
  define rd' where "rd' = ini_open (Some (ini_header @ concat (map entry_line vs)))"
  have rd: "ini_error rd' = 0" "ini_values rd' = ini_values (handled vs ini_empty)"
    using ini_open_written [OF ok] by (simp_all add: rd'_def)
  have mo: "map_of vs a = Some (stored_value a c)" for a
    by (simp add: vs map_of_map_restrict o_def map_of_map_keys)
  have dist: "distinct (map fst vs)" by (simp add: vs o_def) code_simp
  have get: "ini_get rd' INI_SETTINGS_CATEGORY_TOKEN (enum_name a) [] = stored_value a c" for a
    using handled_find [OF dist, of ini_empty a] mo [of a] by (simp add: ini_get_def rd(2) ini_empty_def)
  have w: "writeConfigFile path (c, fs) =
      (True, c1, fs\<lparr>files := (files fs)(path := Some (ini_header @ concat (map entry_line vs)))\<rparr>)"
    using assms(1) r by (simp add: writeConfigFile_def)
  have "map_find (config_store (fold (\<lambda>e c. cfg_put e (ini_get (reader c) INI_SETTINGS_CATEGORY_TOKEN (enum_name e) []) c)
      entries (c'\<lparr>reader := rd'\<rparr>))) e = Some (stored_value e c)"
    by (subst cfg_put_fold [where f = "\<lambda>r e. ini_get r INI_SETTINGS_CATEGORY_TOKEN (enum_name e) []"]) (simp add: get)
  then show ?thesis
    by (simp add: w loadConfigFile_def rd'_def [symmetric] rd(1) Let_def cfg_get_def store_at_entry_def)
qed

text \<open>A file system without files, where every path can be written.\<close>

definition empty_fs :: file_system where
  "empty_fs = \<lparr>files = (\<lambda>_. None), writable = (\<lambda>_. True)\<rparr>"

lemma defaults_settings_ok: "settings_ok (loadDefaults config_init)"
  by code_simp

theorem config_file_roundtrip_witness:
  "fst (cfg_get REST_WEBSERVER_BIND_PORT (fst (snd (loadConfigFile ''c.ini''
     (config_init, snd (snd (writeConfigFile ''c.ini'' (loadDefaults config_init, empty_fs)))))))) = ''4242''"
proof -
  have "stored_value REST_WEBSERVER_BIND_PORT (loadDefaults config_init) = ''4242''" by code_simp
  then show ?thesis
    using config_file_roundtrip [OF _ defaults_settings_ok, of empty_fs "''c.ini''" config_init REST_WEBSERVER_BIND_PORT]
    by (simp add: empty_fs_def)
qed

end
