(* ===== verification/Spec2Isabelle.thy ===== *)
theory Spec2Isabelle
  imports Can_Frame_Props Can_Error Http_Server_Props Http_Range_Props Http_Multipart_Props Can_Length_Props Redis_Reader_Props Redis_Format_Props
    Bit_Timing_Regs Bit_Timing_Props Redis_Dict_Props Redis_Async_Subs Redis_Sds_Text_Props Config_Props Gateway_Props
begin

text \<open>
  A verification library for \<open>SocketCan2Rest\<close>: a gateway between a CAN bus, a REST interface and a
  Redis database, with the libraries it is built on.

  \<^bold>\<open>The program.\<close>  \<open>src/src/can2rest.cpp\<close> reads frames from a CAN socket, passes them through a
  filter, keeps the latest frame of every identifier in a table, hands it as JSON to a Redis worker, and
  sends the frames that REST requests have queued.  The REST thread (\<open>rest_api.cpp\<close>) answers from the
  table and puts frames into the queue.  Underneath are \<open>json11\<close> (documents and requests), the SHA-256
  of \<open>hash-library\<close> (payload digests), \<open>inih\<close> (the configuration file), \<open>socketcan-cpp\<close> (the socket),
  \<open>hiredis\<close> (the protocol of Redis) and \<open>can-utils\<close> (notation, error texts, frame lengths and bit
  timing of CAN).

  \<^bold>\<open>The theories.\<close>
  \<^item> \<open>Prelude\<close>: characters and bytes, buffers with checked access, decimal notation, \<open>printf\<close> pieces.
    \<open>Std_Map\<close>: \<open>std::map\<close> as a sorted association list, with its laws as the locale \<open>ordered_map\<close>.
  \<^item> \<open>Can_Frame\<close>, \<open>Can_Frame_Props\<close>: \<open>libs/can-utils/lib.c\<close>, the text notation of CAN frames
    (\<open>parse_canframe\<close>, \<open>sprint_canframe\<close>, \<open>sprint_long_canframe\<close>); round trips, safety on every input,
    buffer sizes.  \<open>Can_Error\<close>: the error frame texts of the same file against a compositional text.
  \<^item> \<open>Can_Length\<close>, \<open>Can_Length_Props\<close>: \<open>canframelen.c\<close>, the length of a frame on the bus; the CRC against
    its bitwise definition and the stuff bit search against a bit by bit count.
  \<^item> \<open>Redis_Reader\<close>, \<open>Redis_Reader_Props\<close>: \<open>hiredis/read.c\<close>, the reply parser with its task stack and heap of
    reply objects; a refinement of a grammar of replies, for input that comes in any pieces.
    \<open>Redis_Format\<close>, \<open>Redis_Format_Props\<close>: the command formatter of \<open>hiredis.c\<close>.
    \<open>Redis_Dict\<close>, \<open>Redis_Dict_Props\<close>: the hash table of \<open>dict.c\<close>, a refinement of a map for every dictionary
    type with the contract \<open>dict_type\<close>, which is interpreted on that of the subscriptions.
    \<open>Redis_Async\<close>, \<open>Redis_Async_Props\<close>: the asynchronous interface of \<open>async.c\<close>; the user is a function from
    the history to calls, the socket and the server are events, and every accepted command is answered once,
    in order.  \<open>Redis_Async_Subs\<close>: which callback a channel gets and a message reaches, and the end of a subscription.
    \<open>Redis_Sds\<close>, \<open>Redis_Sds_Props\<close>: the strings of \<open>sds.c\<close> with their headers and memory, a refinement of lists
    of bytes.  \<open>Redis_Sds_Text\<close>, \<open>Redis_Sds_Text_Props\<close>: numbers, formats, quoting and splitting on top of them.
  \<^item> \<open>Bit_Timing_Consts\<close>, \<open>Bit_Timing\<close>, \<open>Bit_Timing_Regs\<close>, \<open>Bit_Timing_Props\<close>: \<open>can-calc-bit-timing.c\<close>, its
    table of controllers, both search algorithms, the fix-up, the register printers (locale
    \<open>register_layout\<close>, interpreted for each controller) and the command line; optimality and completeness
    of the search.
  \<^item> \<open>Json11\<close>, \<open>Json11_Props\<close>: \<open>json11.cpp\<close>, values, output and parser.  The parser runs on a task type with
    fuel; \<open>parse_fuel\<close> is linear in the text and proved to be enough for every text.
  \<^item> \<open>Sha256\<close>, \<open>Sha256_Props\<close>: \<open>sha256.cpp\<close>, the streaming object, and FIPS 180-4 as its specification.
  \<^item> \<open>Can_Message\<close> (\<open>can_message.h\<close>, \<open>socketcan-cpp\<close>), \<open>Can_Stores\<close> (\<open>can_id_filter.cpp\<close>,
    \<open>can_hashtable.cpp\<close>), \<open>Frame_Send_Queue\<close> (\<open>frame_send_queue.cpp\<close>, with the contract of a queue as the
    locale \<open>fifo\<close>), \<open>Can_Frame_To_Json\<close> (\<open>can_frame_to_json.cpp\<close>), \<open>Redis_Interface\<close>
    (\<open>redis_interface.cpp\<close>).
  \<^item> \<open>Ini_Reader\<close> (\<open>inih/INIReader.h\<close>), \<open>Config_Parser\<close> (\<open>config_parser.cpp\<close>), \<open>Config_Props\<close>: what is written
    is loaded.
  \<^item> \<open>Rest_Api\<close>: the handlers of \<open>rest_api.cpp\<close> and the routing of \<open>httplib.h\<close>.
  \<^item> \<open>Http_Text\<close>, \<open>Http_Multipart\<close>, \<open>Http_Server\<close>: the server of \<open>httplib.h\<close> between the bytes of a connection and
    these handlers.  The network is the list of segments that arrive; streams, lines, headers, bodies, ranges, the
    answer and the keep-alive loop are functions of it.  \<open>Http_Text_Props\<close>: splitting, percent encoding, query strings.
    \<open>Http_Multipart_Props\<close>: a form comes back as its parts.  \<open>Http_Stream_Props\<close>: what is read as a function of the
    bytes, with the contract of a content receiver as the locale \<open>receiver\<close>.  \<open>Http_Requests\<close>: requests in
    sequence are answered as the handlers say.  \<open>Http_Server_Props\<close>: any bytes, in any segments.  \<open>Http_Range_Props\<close>: ranges.
  \<^item> \<open>Can2rest\<close>: \<open>main\<close>, the set-up and the loop; the threads are the events \<open>Read\<close>, \<open>Send\<close>, \<open>Request\<close> and
    \<open>Flush\<close>, a schedule is a list of them, and \<open>step\<close> and \<open>reachable\<close> are the transition system.
    \<open>Can2rest_Props\<close>: one preservation lemma per operation.  \<open>Gateway_Props\<close>: the promises of the whole
    program from \<open>main\<close> on, for every configuration, every schedule and all uninitialised bytes.

  \<^bold>\<open>Conventions.\<close>  Machine integers are words; \<open>None\<close> is undefined behaviour (a read outside an object, a
  number that its type does not hold, a join of a thread object that no longer exists) unless a definition
  says otherwise, and error returns are values.  What a C++ object without an initialiser holds is taken
  from a parameter \<open>stack\<close>, over which the theorems are universally quantified.  The results of system
  calls are arguments (\<open>can_os\<close>, the numbers in \<open>Read\<close> and \<open>Send\<close>, \<open>file_system\<close>).  A handler or a turn of
  the loop is one step: the objects that the threads share are guarded by locks, and only the loop takes
  from the queue.  The properties carry their number in the text in front of them.

  \<^bold>\<open>Not modelled.\<close>  Sockets, threads and signals of the system, logging, and TLS; \<open>redis-plus-plus\<close>, which only passes on
  what the model outputs; the client, the compression and the thread pool of \<open>httplib\<close>; the other command line tools of \<open>can-utils\<close>, \<open>libj1939\<close>, \<open>libsocketcan\<close>,
  \<open>nanomsg\<close> and \<open>net-tools\<close>, which the gateway does not call.
\<close>

end
